(* ===== verification/Prelude.thy ===== *)
theory Prelude
  imports Complex_Main "HOL-Library.List_Lexorder" "HOL-Library.Char_ord"
    "HOL-Library.Product_Lexorder" "HOL-Library.AList"
begin

text \<open>
  Shared vocabulary of the development: Python's results with exceptions, selection with
  \<open>max\<close> and \<open>min\<close> by a key, insertion-ordered dictionaries, and the string operations
  the code uses.

  Strings are lists of characters read as code points. The correspondence with Python is
  claimed for ASCII text: on it \<open>lower\<close>, \<open>upper\<close> and \<open>isspace\<close> below are Python's, and
  Unicode NFC normalisation is the identity.
\<close>

named_theorems py_simps \<open>equations that unfold the small Python vocabulary\<close>

section \<open>Results of code that may raise\<close>

datatype py_error =
    KeyError string
  | ValueError string
  | AssertionError string
  | IndexError
  | ConflictError string
  | TypeError string
  | RuntimeError string
  | DataError string
  | FileNotFoundError string
  | ReviewResolutionAbortError string

type_synonym 'a result = "py_error + 'a"

definition ok :: "'a \<Rightarrow> 'a result" where
  "ok x = Inr x"

definition raise :: "py_error \<Rightarrow> 'a result" where
  "raise e = Inl e"

definition try_bind :: "'a result \<Rightarrow> ('a \<Rightarrow> 'b result) \<Rightarrow> 'b result" where
  "try_bind r f = (case r of Inl e \<Rightarrow> Inl e | Inr x \<Rightarrow> f x)"

lemma try_bind_simps [simp, py_simps]:
  "try_bind (Inl e) f = Inl e"
  "try_bind (Inr x) f = f x"
  by (simp_all add: try_bind_def)

lemma ok_raise_simps [simp, py_simps]:
  "ok x = Inr x"
  "raise e = Inl e"
  by (simp_all add: ok_def raise_def)

lemma try_bind_Inr_iff:
  "try_bind r f = Inr y \<longleftrightarrow> (\<exists>x. r = Inr x \<and> f x = Inr y)"
  by (cases r) auto

lemma try_bind_split:
  "P (try_bind r f) \<longleftrightarrow> (\<forall>e. r = Inl e \<longrightarrow> P (Inl e)) \<and> (\<forall>x. r = Inr x \<longrightarrow> P (f x))"
  by (cases r) auto

definition is_ok :: "'a result \<Rightarrow> bool" where
  "is_ok r = (case r of Inl _ \<Rightarrow> False | Inr _ \<Rightarrow> True)"

lemma is_ok_simps [simp, py_simps]:
  "is_ok (Inl e) = False"
  "is_ok (Inr x) = True"
  by (simp_all add: is_ok_def)

text \<open>A \<open>for\<close> loop whose body may raise, threading an accumulator.\<close>

fun fold_result :: "('a \<Rightarrow> 'b \<Rightarrow> 'b result) \<Rightarrow> 'a list \<Rightarrow> 'b \<Rightarrow> 'b result" where
  "fold_result f [] acc = Inr acc"
| "fold_result f (x # xs) acc = try_bind (f x acc) (fold_result f xs)"

fun map_result :: "('a \<Rightarrow> 'b result) \<Rightarrow> 'a list \<Rightarrow> 'b list result" where
  "map_result f [] = Inr []"
| "map_result f (x # xs) =
     try_bind (f x) (\<lambda>y. try_bind (map_result f xs) (\<lambda>ys. Inr (y # ys)))"

lemma fold_result_invariant:
  assumes "\<And>x a b. x \<in> set xs \<Longrightarrow> P a \<Longrightarrow> f x a = Inr b \<Longrightarrow> P b"
    and "fold_result f xs a = Inr b" and "P a"
  shows "P b"
  using assms
proof (induction xs arbitrary: a)
  case Nil
  then show ?case by simp
next
  case (Cons x xs)
  from Cons.prems(2) obtain c where c: "f x a = Inr c" "fold_result f xs c = Inr b"
    by (auto simp: try_bind_Inr_iff)
  have "P c" using Cons.prems(1) [of x a c] Cons.prems(3) c(1) by simp
  moreover have "\<And>y d e. y \<in> set xs \<Longrightarrow> P d \<Longrightarrow> f y d = Inr e \<Longrightarrow> P e"
    by (rule Cons.prems(1)) simp_all
  ultimately show ?case using Cons.IH [OF _ c(2)] by blast
qed

lemma map_result_length: "map_result f xs = Inr ys \<Longrightarrow> length ys = length xs"
  by (induction xs arbitrary: ys) (auto simp: try_bind_Inr_iff)

lemma map_result_total:
  "(\<And>x. x \<in> set xs \<Longrightarrow> f x = Inr (g x)) \<Longrightarrow> map_result f xs = Inr (map g xs)"
  by (induction xs) auto

lemma map_result_mem:
  "map_result f xs = Inr ys \<Longrightarrow> y \<in> set ys \<longleftrightarrow> (\<exists>x \<in> set xs. f x = Inr y)"
  by (induction xs arbitrary: ys) (auto simp: try_bind_Inr_iff)

lemma map_result_defined:
  "map_result f xs = Inr ys \<Longrightarrow> x \<in> set xs \<Longrightarrow> \<exists>y. f x = Inr y"
  by (induction xs arbitrary: ys) (auto simp: try_bind_Inr_iff)

section \<open>Python's max and min by a key\<close>

text \<open>
  \<open>max\<close> and \<open>min\<close> scan from the left and replace the best element only when the new one
  is strictly better, so the first of several equal elements is returned.
\<close>

fun max_from :: "('a \<Rightarrow> 'k::linorder) \<Rightarrow> 'a \<Rightarrow> 'a list \<Rightarrow> 'a" where
  "max_from key best [] = best"
| "max_from key best (x # xs) = max_from key (if key best < key x then x else best) xs"

fun py_max :: "('a \<Rightarrow> 'k::linorder) \<Rightarrow> 'a list \<Rightarrow> 'a option" where
  "py_max key [] = None"
| "py_max key (x # xs) = Some (max_from key x xs)"

fun min_from :: "('a \<Rightarrow> 'k::linorder) \<Rightarrow> 'a \<Rightarrow> 'a list \<Rightarrow> 'a" where
  "min_from key best [] = best"
| "min_from key best (x # xs) = min_from key (if key x < key best then x else best) xs"

fun py_min :: "('a \<Rightarrow> 'k::linorder) \<Rightarrow> 'a list \<Rightarrow> 'a option" where
  "py_min key [] = None"
| "py_min key (x # xs) = Some (min_from key x xs)"

lemma max_from_mem: "max_from key b xs \<in> insert b (set xs)"
  by (induction xs arbitrary: b) (simp, fastforce)

lemma max_from_ge_start: "key b \<le> key (max_from key b xs)"
proof (induction xs arbitrary: b)
  case (Cons x xs)
  have "key b \<le> key (if key b < key x then x else b)" by auto
  also have "\<dots> \<le> key (max_from key (if key b < key x then x else b) xs)"
    by (rule Cons.IH)
  finally show ?case by simp
qed simp

lemma max_from_ge: "x \<in> insert b (set xs) \<Longrightarrow> key x \<le> key (max_from key b xs)"
proof (induction xs arbitrary: b)
  case (Cons y ys)
  let ?b = "if key b < key y then y else b"
  have start: "key ?b \<le> key (max_from key ?b ys)" by (rule max_from_ge_start)
  show ?case
  proof (cases "x \<in> set ys")
    case True
    then show ?thesis using Cons.IH [of ?b] by simp
  next
    case False
    with Cons.prems have "x = b \<or> x = y" by simp
    then have "key x \<le> key ?b" by auto
    then have "key x \<le> key (max_from key ?b ys)" using start by (rule order_trans)
    then show ?thesis by simp
  qed
qed simp

lemma min_from_mem: "min_from key b xs \<in> insert b (set xs)"
  by (induction xs arbitrary: b) (simp, fastforce)

lemma min_from_le_start: "key (min_from key b xs) \<le> key b"
proof (induction xs arbitrary: b)
  case (Cons x xs)
  have "key (min_from key (if key x < key b then x else b) xs) \<le> key (if key x < key b then x else b)"
    by (rule Cons.IH)
  also have "\<dots> \<le> key b" by auto
  finally show ?case by simp
qed simp

lemma min_from_le: "x \<in> insert b (set xs) \<Longrightarrow> key (min_from key b xs) \<le> key x"
proof (induction xs arbitrary: b)
  case (Cons y ys)
  let ?b = "if key y < key b then y else b"
  have start: "key (min_from key ?b ys) \<le> key ?b" by (rule min_from_le_start)
  show ?case
  proof (cases "x \<in> set ys")
    case True
    then show ?thesis using Cons.IH [of ?b] by simp
  next
    case False
    with Cons.prems have "x = b \<or> x = y" by simp
    then have "key ?b \<le> key x" by auto
    with start have "key (min_from key ?b ys) \<le> key x" by (rule order_trans)
    then show ?thesis by simp
  qed
qed simp

lemma py_max_None_iff [simp]: "py_max key xs = None \<longleftrightarrow> xs = []"
  by (cases xs) auto

lemma py_min_None_iff [simp]: "py_min key xs = None \<longleftrightarrow> xs = []"
  by (cases xs) auto

lemma py_max_SomeE:
  assumes "py_max key xs = Some m"
  obtains y ys where "xs = y # ys" and "m = max_from key y ys"
  using assms by (cases xs) auto

lemma py_min_SomeE:
  assumes "py_min key xs = Some m"
  obtains y ys where "xs = y # ys" and "m = min_from key y ys"
  using assms by (cases xs) auto

lemma py_max_mem: "py_max key xs = Some m \<Longrightarrow> m \<in> set xs"
  by (erule py_max_SomeE) (simp add: max_from_mem [simplified])

lemma py_max_ge: "py_max key xs = Some m \<Longrightarrow> x \<in> set xs \<Longrightarrow> key x \<le> key m"
  by (erule py_max_SomeE) (simp add: max_from_ge)

lemma py_min_mem: "py_min key xs = Some m \<Longrightarrow> m \<in> set xs"
  by (erule py_min_SomeE) (simp add: min_from_mem [simplified])

lemma py_min_le: "py_min key xs = Some m \<Longrightarrow> x \<in> set xs \<Longrightarrow> key m \<le> key x"
  by (erule py_min_SomeE) (simp add: min_from_le)

text \<open>With a key that separates the elements, the order of the input does not matter.\<close>

lemma py_min_unique:
  assumes "inj_on key (set xs)" and "set xs = set ys"
  shows "py_min key xs = py_min key ys"
proof (cases "xs = []")
  case True
  with assms(2) show ?thesis by simp
next
  case False
  then obtain a where a: "py_min key xs = Some a" by (cases "py_min key xs") auto
  from False assms(2) have "ys \<noteq> []" by auto
  then obtain b where b: "py_min key ys = Some b" by (cases "py_min key ys") auto
  from a b assms(2) have "a \<in> set xs" "b \<in> set xs" "key a \<le> key b" "key b \<le> key a"
    by (metis py_min_mem, metis py_min_mem, metis py_min_le py_min_mem, metis py_min_le py_min_mem)
  with assms(1) have "a = b" by (auto dest: inj_onD)
  with a b show ?thesis by simp
qed

section \<open>Dictionaries that keep insertion order\<close>

text \<open>
  A Python dictionary is an association list without duplicate keys: \<open>AList.update\<close>
  replaces a present key in place and appends a new one, as assignment to \<open>d[k]\<close> does.
\<close>

definition dict_setdefault :: "'k \<Rightarrow> 'v \<Rightarrow> ('k \<times> 'v) list \<Rightarrow> ('k \<times> 'v) list" where
  "dict_setdefault k v d = (if k \<in> fst ` set d then d else d @ [(k, v)])"

fun dict_of :: "('k \<times> 'v) list \<Rightarrow> ('k \<times> 'v) list \<Rightarrow> ('k \<times> 'v) list" where
  "dict_of d [] = d"
| "dict_of d ((k, v) # kvs) = dict_of (AList.update k v d) kvs"

lemma distinct_dict_of:
  "distinct (map fst d) \<Longrightarrow> distinct (map fst (dict_of d kvs))"
  by (induction d kvs rule: dict_of.induct) (auto intro: distinct_update)

lemma keys_update: "fst ` set (AList.update k v d) = insert k (fst ` set d)"
  by (induction d) auto

lemma keys_dict_of: "fst ` set (dict_of d kvs) = fst ` set d \<union> fst ` set kvs"
  by (induction d kvs rule: dict_of.induct) (auto simp: keys_update)

lemma map_of_setdefault:
  "map_of (dict_setdefault a b d) k =
     (if k = a then (case map_of d a of None \<Rightarrow> Some b | Some v \<Rightarrow> Some v) else map_of d k)"
proof (cases "map_of d a")
  case None
  then have "a \<notin> fst ` set d" by (simp add: map_of_eq_None_iff)
  with None show ?thesis by (auto simp: dict_setdefault_def map_add_def split: option.split)
next
  case (Some v)
  then have "a \<in> fst ` set d" by (metis map_of_eq_None_iff option.distinct(1))
  with Some show ?thesis by (simp add: dict_setdefault_def)
qed

text \<open>Filling a dictionary with \<open>setdefault\<close> keeps the first value of each key.\<close>

lemma map_of_fold_setdefault:
  "map_of (fold (\<lambda>(k, v). dict_setdefault k v) rows d) k =
     (case map_of d k of Some v \<Rightarrow> Some v | None \<Rightarrow> map_of rows k)"
  by (induction rows arbitrary: d) (auto simp: map_of_setdefault split: option.split)

text \<open>\<open>sorted(set)\<close> and \<open>list(dict.fromkeys(xs))\<close>.\<close>

definition sorted_set :: "'a::linorder list \<Rightarrow> 'a list" where
  "sorted_set xs = sort (remdups xs)"

lemma set_sorted_set [simp]: "set (sorted_set xs) = set xs"
  by (simp add: sorted_set_def)

lemma distinct_sorted_set [simp]: "distinct (sorted_set xs)"
  by (simp add: sorted_set_def)

lemma sorted_sorted_set [simp]: "sorted (sorted_set xs)"
  by (simp add: sorted_set_def)

lemma sorted_set_cong: "set xs = set ys \<Longrightarrow> sorted_set xs = sorted_set ys"
  by (rule sorted_distinct_set_unique) simp_all

lemma sorted_set_Nil_iff [simp]: "sorted_set xs = [] \<longleftrightarrow> xs = []"
  by (metis set_empty set_sorted_set)

fun first_where :: "('a \<Rightarrow> bool) \<Rightarrow> 'a list \<Rightarrow> 'a option" where
  "first_where p [] = None"
| "first_where p (x # xs) = (if p x then Some x else first_where p xs)"

lemma first_where_Some: "first_where p xs = Some x \<Longrightarrow> x \<in> set xs \<and> p x"
  by (induction xs) (auto split: if_splits)

lemma first_where_None [simp]: "first_where p xs = None \<longleftrightarrow> (\<forall>x \<in> set xs. \<not> p x)"
  by (induction xs) auto

section \<open>Strings\<close>

definition is_space :: "char \<Rightarrow> bool" where
  "is_space c = (let n = of_char c :: nat in (9 \<le> n \<and> n \<le> 13) \<or> (28 \<le> n \<and> n \<le> 32))"

definition is_digit :: "char \<Rightarrow> bool" where
  "is_digit c = (let n = of_char c :: nat in 48 \<le> n \<and> n \<le> 57)"

definition is_upper_letter :: "char \<Rightarrow> bool" where
  "is_upper_letter c = (let n = of_char c :: nat in 65 \<le> n \<and> n \<le> 90)"

definition is_lower_letter :: "char \<Rightarrow> bool" where
  "is_lower_letter c = (let n = of_char c :: nat in 97 \<le> n \<and> n \<le> 122)"

definition is_letter :: "char \<Rightarrow> bool" where
  "is_letter c = (is_upper_letter c \<or> is_lower_letter c)"

definition lower_char :: "char \<Rightarrow> char" where
  "lower_char c = (if is_upper_letter c then char_of (of_char c + 32 :: nat) else c)"

definition upper_char :: "char \<Rightarrow> char" where
  "upper_char c = (if is_lower_letter c then char_of (of_char c - 32 :: nat) else c)"

definition py_lower :: "string \<Rightarrow> string" where
  "py_lower s = map lower_char s"

definition py_upper :: "string \<Rightarrow> string" where
  "py_upper s = map upper_char s"

definition py_lstrip :: "string \<Rightarrow> string" where
  "py_lstrip s = dropWhile is_space s"

definition py_rstrip :: "string \<Rightarrow> string" where
  "py_rstrip s = rev (dropWhile is_space (rev s))"

definition py_strip :: "string \<Rightarrow> string" where
  "py_strip s = py_rstrip (py_lstrip s)"

text \<open>\<open>re.sub(r"\s+", " ", s)\<close>: every maximal run of white space becomes one blank.\<close>

fun collapse_ws :: "string \<Rightarrow> string" where
  "collapse_ws [] = []"
| "collapse_ws (c # cs) =
     (if is_space c
      then (case cs of
              [] \<Rightarrow> '' ''
            | d # _ \<Rightarrow> if is_space d then collapse_ws cs else CHR '' '' # collapse_ws cs)
      else c # collapse_ws cs)"

definition starts_with :: "string \<Rightarrow> string \<Rightarrow> bool" where
  "starts_with s p = (take (length p) s = p)"

definition ends_with :: "string \<Rightarrow> string \<Rightarrow> bool" where
  "ends_with s p = (length p \<le> length s \<and> drop (length s - length p) s = p)"

text \<open>\<open>s.rpartition(c)\<close> with a one-character separator: \<open>None\<close> when it does not occur.\<close>

fun rpartition :: "char \<Rightarrow> string \<Rightarrow> (string \<times> string) option" where
  "rpartition c [] = None"
| "rpartition c (x # xs) =
     (case rpartition c xs of
        Some (l, r) \<Rightarrow> Some (x # l, r)
      | None \<Rightarrow> if x = c then Some ([], xs) else None)"

text \<open>\<open>sep.join(parts)\<close>.\<close>

fun py_join :: "string \<Rightarrow> string list \<Rightarrow> string" where
  "py_join sep [] = []"
| "py_join sep [x] = x"
| "py_join sep (x # y # xs) = x @ sep @ py_join sep (y # xs)"

text \<open>A Python string is true when it is not empty; \<open>x or y\<close> on optional strings.\<close>

definition truthy :: "string option \<Rightarrow> bool" where
  "truthy v = (case v of None \<Rightarrow> False | Some s \<Rightarrow> s \<noteq> [])"

definition str_or :: "string option \<Rightarrow> string option \<Rightarrow> string option" where
  "str_or a b = (if truthy a then a else b)"

definition or_empty :: "string option \<Rightarrow> string" where
  "or_empty v = (case v of None \<Rightarrow> [] | Some s \<Rightarrow> s)"

lemma or_empty_simps [simp, py_simps]: "or_empty None = []" "or_empty (Some s) = s"
  by (simp_all add: or_empty_def)

lemma truthy_simps [simp, py_simps]: "truthy None = False" "truthy (Some s) = (s \<noteq> [])"
  by (simp_all add: truthy_def)

lemma str_or_simps [simp, py_simps]:
  "str_or None b = b" "str_or (Some []) b = b" "str_or (Some (c # s)) b = Some (c # s)"
  by (simp_all add: str_or_def)

end
