(* ===== verification/Float64.thy ===== *)
theory Float64
  imports Prelude "HOL-Library.Log_Nat"
begin

text \<open>
  Python floats as binary64 numbers. A value is a rational; every arithmetic operation is the
  exact operation followed by \<open>fl\<close>, rounding to the nearest number with a 53-bit significand,
  ties to even. Confidence scores and similarities stay between \<open>2 powi (-53)\<close> and
  \<open>2 powi 10\<close> in absolute value (or are 0), so the exponent is left unbounded: overflow and
  subnormal numbers do not occur in the modelled code. The comparison operators of Python are
  exact and are those of the rationals.

  The laws client proofs need (monotone, idempotent, odd, exact at 0 and 1) are the locale
  \<open>rounding\<close>, interpreted on \<open>fl\<close>.
\<close>

type_synonym f64 = rat

section \<open>Rounding to the nearest integer, ties to even\<close>

definition rhe :: "rat \<Rightarrow> int" where
  "rhe x = (let f = \<lfloor>x\<rfloor>; d = x - of_int f
            in if d < 1 / 2 then f else if 1 / 2 < d then f + 1
               else if even f then f else f + 1)"

lemma rhe_of_int [simp]: "rhe (of_int n) = n"
  by (simp add: rhe_def)

lemma rhe_cases: "rhe x = \<lfloor>x\<rfloor> \<or> rhe x = \<lfloor>x\<rfloor> + 1"
  by (auto simp: rhe_def Let_def)

lemma rhe_mono: "x \<le> y \<Longrightarrow> rhe x \<le> rhe y"
proof -
  assume le: "x \<le> y"
  then have fl: "\<lfloor>x\<rfloor> \<le> \<lfloor>y\<rfloor>" by (rule floor_mono)
  show ?thesis
  proof (cases "\<lfloor>x\<rfloor> = \<lfloor>y\<rfloor>")
    case True
    then show ?thesis using le by (auto simp: rhe_def Let_def)
  next
    case False
    with fl have "\<lfloor>x\<rfloor> + 1 \<le> \<lfloor>y\<rfloor>" by simp
    with rhe_cases [of x] rhe_cases [of y] show ?thesis by auto
  qed
qed

lemma floor_unique_bounds: "of_int z \<le> (x::rat) \<Longrightarrow> x < of_int z + 1 \<Longrightarrow> \<lfloor>x\<rfloor> = z"
  by (simp add: floor_unique)

lemma rhe_minus: "rhe (- x) = - rhe x"
proof (cases "x = of_int \<lfloor>x\<rfloor>")
  case True
  then obtain n where n: "x = of_int n" by blast
  have "rhe (- x) = rhe (of_int (- n))" by (simp add: n)
  then show ?thesis by (simp only: rhe_of_int n)
next
  case False
  let ?f = "\<lfloor>x\<rfloor>"
  have lt: "of_int ?f < x" and ub: "x < of_int ?f + 1"
    using False of_int_floor_le [of x] by linarith+
  have fm: "\<lfloor>- x\<rfloor> = - ?f - 1"
    by (rule floor_unique) (use lt ub in simp_all)
  show ?thesis
    unfolding rhe_def fm Let_def by auto
qed

lemma rhe_nonneg: "0 \<le> x \<Longrightarrow> 0 \<le> rhe x"
  using rhe_mono [of 0 x] rhe_of_int [of 0] by simp

section \<open>The binary exponent of a positive number\<close>

definition ilog2 :: "rat \<Rightarrow> int" where
  "ilog2 x = (if 1 \<le> x then int (floorlog 2 (nat \<lfloor>x\<rfloor>)) - 1
              else - int (floorlog 2 (nat (\<lceil>1 / x\<rceil> - 1))))"

lemma floorlog2_bounds:
  assumes "1 \<le> n"
  shows "(2::rat) powi (int (floorlog 2 n) - 1) \<le> of_nat n"
    and "of_nat n + 1 \<le> (2::rat) powi (int (floorlog 2 n))"
proof -
  from assms have b: "2 ^ (floorlog 2 n - 1) \<le> n" "n < 2 ^ floorlog 2 n"
    using floorlog_bounds [of n 2] by auto
  from assms have pos: "0 < floorlog 2 n"
    by (simp add: floorlog_def)
  then have e: "int (floorlog 2 n) - 1 = int (floorlog 2 n - 1)" by simp
  from b(1) have "(2::rat) ^ (floorlog 2 n - 1) \<le> of_nat n"
    by (metis of_nat_le_iff of_nat_numeral of_nat_power)
  then show "(2::rat) powi (int (floorlog 2 n) - 1) \<le> of_nat n"
    unfolding e by simp
  from b(2) have "Suc n \<le> 2 ^ floorlog 2 n" by simp
  then have "(of_nat (Suc n) :: rat) \<le> of_nat (2 ^ floorlog 2 n)"
    by (simp only: of_nat_le_iff)
  then show "of_nat n + 1 \<le> (2::rat) powi (int (floorlog 2 n))"
    by simp
qed

lemma ilog2_bounds:
  assumes "0 < x"
  shows "2 powi ilog2 x \<le> x" and "x < 2 powi (ilog2 x + 1)"
proof -
  have "2 powi ilog2 x \<le> x \<and> x < 2 powi (ilog2 x + 1)"
  proof (cases "1 \<le> x")
    case True
    let ?n = "nat \<lfloor>x\<rfloor>"
    from True have n1: "1 \<le> ?n" by (simp add: le_nat_iff le_floor_iff)
    then have n: "of_nat ?n = (of_int \<lfloor>x\<rfloor> :: rat)" by (simp add: of_nat_nat)
    have "of_nat ?n \<le> x" "x < of_nat ?n + 1" unfolding n by linarith+
    with floorlog2_bounds [OF n1] True show ?thesis
      by (auto simp: ilog2_def intro: order_trans less_le_trans)
  next
    case False
    let ?y = "1 / x"
    let ?n = "nat (\<lceil>?y\<rceil> - 1)"
    from False assms have y: "1 < ?y" by (simp add: field_simps)
    then have c: "2 \<le> \<lceil>?y\<rceil>" by linarith
    then have n1: "1 \<le> ?n" by linarith
    from c have "int ?n = \<lceil>?y\<rceil> - 1" by linarith
    then have n: "of_nat ?n = (of_int \<lceil>?y\<rceil> - 1 :: rat)"
      by (metis of_int_1 of_int_diff of_int_of_nat_eq)
    let ?L = "int (floorlog 2 ?n)"
    have "?y \<le> of_nat ?n + 1" "of_nat ?n < ?y" unfolding n by linarith+
    with floorlog2_bounds [OF n1]
    have up: "?y \<le> 2 powi ?L" and lo: "2 powi (?L - 1) < ?y" by linarith+
    from up assms have "1 / 2 powi ?L \<le> x" by (simp add: field_simps)
    then have 1: "2 powi (- ?L) \<le> x" by (simp add: power_int_minus_divide)
    from lo assms have "x < 1 / 2 powi (?L - 1)" by (simp add: field_simps)
    then have 2: "x < 2 powi (- (?L - 1))" by (simp only: power_int_minus_divide)
    from 2 have "x < 2 powi (- ?L + 1)" by (simp add: algebra_simps)
    with 1 False show ?thesis by (simp add: ilog2_def)
  qed
  then show "2 powi ilog2 x \<le> x" and "x < 2 powi (ilog2 x + 1)" by simp_all
qed

lemma powi2_le_iff [simp]: "(2::rat) powi m \<le> 2 powi n \<longleftrightarrow> m \<le> n"
  by (metis linorder_not_less one_less_numeral_iff power_int_increasing power_int_strict_increasing
      order_less_imp_le semiring_norm(76))

lemma powi2_less_iff [simp]: "(2::rat) powi m < 2 powi n \<longleftrightarrow> m < n"
  by (simp add: less_le_not_le)

lemma powi2_pos [simp]: "0 < (2::rat) powi m"
  by simp

lemma ilog2_mono:
  assumes "0 < x" "x \<le> y"
  shows "ilog2 x \<le> ilog2 y"
proof -
  from assms have "2 powi ilog2 x < (2::rat) powi (ilog2 y + 1)"
    using ilog2_bounds [of x] ilog2_bounds [of y] by linarith
  then show ?thesis by simp
qed

section \<open>Rounding to binary64\<close>

definition ulp_exp :: "rat \<Rightarrow> int" where
  "ulp_exp x = ilog2 \<bar>x\<bar> - 52"

definition fl :: "rat \<Rightarrow> f64" where
  "fl x = (if x = 0 then 0
           else of_int (rhe (x / 2 powi ulp_exp x)) * 2 powi ulp_exp x)"

lemma fl_0 [simp]: "fl 0 = 0"
  by (simp add: fl_def)

lemma fl_minus [simp]: "fl (- x) = - fl x"
  by (simp add: fl_def ulp_exp_def rhe_minus)

lemma scaled_bounds:
  assumes "0 < x"
  shows "2 ^ 52 \<le> x / 2 powi ulp_exp x" and "x / 2 powi ulp_exp x < 2 ^ 53"
proof -
  have e: "(2::rat) powi ilog2 x = 2 ^ 52 * 2 powi ulp_exp x"
    and e': "(2::rat) powi (ilog2 x + 1) = 2 ^ 53 * 2 powi ulp_exp x"
    using assms power_int_add [of "2::rat" 52 "ulp_exp x"]
      power_int_add [of "2::rat" 53 "ulp_exp x"]
    by (simp_all add: ulp_exp_def add.commute)
  from ilog2_bounds [OF assms] show "2 ^ 52 \<le> x / 2 powi ulp_exp x"
    unfolding e by (simp add: pos_le_divide_eq)
  from ilog2_bounds [OF assms] show "x / 2 powi ulp_exp x < 2 ^ 53"
    unfolding e' by (simp add: pos_divide_less_eq)
qed

lemma significand_bounds:
  assumes "0 < x"
  shows "2 ^ 52 \<le> rhe (x / 2 powi ulp_exp x)" and "rhe (x / 2 powi ulp_exp x) \<le> 2 ^ 53"
  using rhe_mono [OF scaled_bounds(1) [OF assms]]
    rhe_mono [OF order_less_imp_le [OF scaled_bounds(2) [OF assms]]]
    rhe_of_int [of "2 ^ 52"] rhe_of_int [of "2 ^ 53"]
  by simp_all

lemma fl_pos_bounds:
  assumes "0 < x"
  shows "2 powi ilog2 x \<le> fl x" and "fl x \<le> 2 powi (ilog2 x + 1)"
proof -
  have e: "(2::rat) powi ilog2 x = of_int (2 ^ 52) * 2 powi ulp_exp x"
    and e': "(2::rat) powi (ilog2 x + 1) = of_int (2 ^ 53) * 2 powi ulp_exp x"
    using assms power_int_add [of "2::rat" 52 "ulp_exp x"]
      power_int_add [of "2::rat" 53 "ulp_exp x"]
    by (simp_all add: ulp_exp_def add.commute)
  have f: "fl x = of_int (rhe (x / 2 powi ulp_exp x)) * 2 powi ulp_exp x"
    using assms by (simp add: fl_def)
  show "2 powi ilog2 x \<le> fl x"
    unfolding e f using significand_bounds(1) [OF assms]
    by (intro mult_right_mono) (simp_all only: of_int_le_iff less_imp_le [OF powi2_pos])
  show "fl x \<le> 2 powi (ilog2 x + 1)"
    unfolding e' f using significand_bounds(2) [OF assms]
    by (intro mult_right_mono) (simp_all only: of_int_le_iff less_imp_le [OF powi2_pos])
qed

lemma fl_pos: "0 < x \<Longrightarrow> 0 < fl x"
  by (rule less_le_trans [OF powi2_pos fl_pos_bounds(1)])

lemma fl_mono_pos:
  assumes "0 < x" "x \<le> y"
  shows "fl x \<le> fl y"
proof (cases "ilog2 x = ilog2 y")
  case True
  with assms have u: "ulp_exp x = ulp_exp y" by (simp add: ulp_exp_def)
  from assms have "x / 2 powi ulp_exp y \<le> y / 2 powi ulp_exp y"
    by (intro divide_right_mono) simp_all
  then have "rhe (x / 2 powi ulp_exp y) \<le> rhe (y / 2 powi ulp_exp y)" by (rule rhe_mono)
  with assms u show ?thesis by (simp add: fl_def)
next
  case False
  with ilog2_mono [OF assms] have lt: "ilog2 x + 1 \<le> ilog2 y" by simp
  have "fl x \<le> 2 powi (ilog2 x + 1)" using assms by (simp add: fl_pos_bounds(2))
  also have "\<dots> \<le> 2 powi ilog2 y" using lt by simp
  also have "\<dots> \<le> fl y" using assms by (simp add: fl_pos_bounds(1))
  finally show ?thesis .
qed

lemma fl_mono: "x \<le> y \<Longrightarrow> fl x \<le> fl y"
proof -
  assume le: "x \<le> y"
  consider "0 < x" | "x = 0" | "x < 0" "0 \<le> y" | "x < 0" "y < 0" by linarith
  then show ?thesis
  proof cases
    case 1
    then show ?thesis using le by (rule fl_mono_pos)
  next
    case 2
    then show ?thesis using le fl_pos [of y] by (cases "y = 0") auto
  next
    case 3
    then have "fl x < 0" using fl_pos [of "- x"] by simp
    moreover have "0 \<le> fl y" using 3 fl_pos [of y] by (cases "y = 0") auto
    ultimately show ?thesis by simp
  next
    case 4
    then show ?thesis using le fl_mono_pos [of "- y" "- x"] by simp
  qed
qed

lemma fl_exact_pos:
  assumes "0 < m" "m \<le> 2 ^ 53"
  shows "fl (of_int m * 2 powi e) = of_int m * 2 powi e"
proof -
  let ?x = "(of_int m * 2 powi e) :: rat"
  let ?u = "ulp_exp ?x"
  from assms have pos: "0 < ?x" by simp
  have "\<exists>k::int. ?x / 2 powi ?u = of_int k"
  proof (cases "?u \<le> e")
    case True
    then have "(2::rat) powi e = 2 powi ?u * 2 ^ nat (e - ?u)"
      using power_int_add [of "2::rat" ?u "e - ?u"] by (simp add: power_int_def)
    then have "?x = of_int (m * 2 ^ nat (e - ?u)) * 2 powi ?u"
      by (simp only: of_int_mult of_int_power of_int_numeral mult_ac)
    then have "?x / 2 powi ?u = of_int (m * 2 ^ nat (e - ?u))"
      by (metis nonzero_mult_div_cancel_right powi2_pos less_irrefl)
    then show ?thesis by blast
  next
    case False
    have "2 powi (ilog2 ?x) \<le> ?x" using pos by (rule ilog2_bounds(1))
    also have "?x \<le> of_int (2 ^ 53) * 2 powi e"
      using assms by (intro mult_right_mono) (simp_all only: of_int_le_iff less_imp_le [OF powi2_pos])
    also have "\<dots> = 2 powi (53 + e)" by (simp add: power_int_add)
    finally have "ilog2 ?x \<le> 53 + e" by simp
    with False have u: "?u = e + 1" using pos by (simp add: ulp_exp_def)
    have "2 powi (e + 53) \<le> ?x"
      using ilog2_bounds(1) [OF pos] u pos by (simp add: ulp_exp_def add.commute)
    then have "(2::rat) ^ 53 \<le> of_int m"
      by (simp add: power_int_add mult.commute)
    then have "2 ^ 53 \<le> m"
      by (metis of_int_le_iff of_int_numeral of_int_power)
    with assms have "m = 2 ^ 53" by simp
    then have "?x = of_int (2 ^ 52) * 2 powi ?u" unfolding u by (simp add: power_int_add)
    then have "?x / 2 powi ?u = of_int (2 ^ 52)"
      by (metis nonzero_mult_div_cancel_right powi2_pos less_irrefl)
    then show ?thesis by blast
  qed
  then obtain k where k: "?x / 2 powi ?u = of_int k" by blast
  from pos have "?x \<noteq> 0" by (rule less_imp_neq [symmetric])
  then have "fl ?x = of_int (rhe (?x / 2 powi ?u)) * 2 powi ?u" by (simp only: fl_def if_False)
  also have "\<dots> = ?x / 2 powi ?u * 2 powi ?u" by (simp only: k rhe_of_int)
  finally show ?thesis by simp
qed

lemma fl_exact: "\<bar>m\<bar> \<le> 2 ^ 53 \<Longrightarrow> fl (of_int m * 2 powi e) = of_int m * 2 powi e"
  using fl_exact_pos [of m e] fl_exact_pos [of "- m" e]
  by (cases "m = 0") (auto simp: abs_le_iff, linarith)

lemma fl_of_int: "\<bar>m\<bar> \<le> 2 ^ 53 \<Longrightarrow> fl (of_int m) = of_int m"
  using fl_exact [of m 0] by simp

lemma fl_1 [simp]: "fl 1 = 1"
  using fl_of_int [of 1] by simp

lemma fl_idem [simp]: "fl (fl x) = fl x"
proof -
  have "fl (fl y) = fl y" if y: "0 < y" for y
  proof -
    have "\<bar>rhe (y / 2 powi ulp_exp y)\<bar> \<le> 2 ^ 53"
      using significand_bounds [OF y] by simp
    from fl_exact [OF this, of "ulp_exp y"] y show ?thesis by (simp add: fl_def)
  qed
  from this [of x] this [of "- x"] show ?thesis by (cases "x = 0") (auto simp: neq_iff)
qed

section \<open>The laws of rounding, as an interface\<close>

locale rounding =
  fixes rnd :: "rat \<Rightarrow> rat"
  assumes rnd_mono: "x \<le> y \<Longrightarrow> rnd x \<le> rnd y"
    and rnd_idem: "rnd (rnd x) = rnd x"
    and rnd_zero: "rnd 0 = 0"
    and rnd_one: "rnd 1 = 1"
    and rnd_minus: "rnd (- x) = - rnd x"
    and rnd_half: "rnd (x / 2) = rnd x / 2"
    and rnd_le_double: "0 \<le> x \<Longrightarrow> rnd x \<le> 2 * x"
begin

lemma nonneg: "0 \<le> x \<Longrightarrow> 0 \<le> rnd x"
  using rnd_mono [of 0 x] rnd_zero by simp

lemma le_one: "x \<le> 1 \<Longrightarrow> rnd x \<le> 1"
  using rnd_mono [of x 1] rnd_one by simp

lemma le_value: "rnd v = v \<Longrightarrow> x \<le> v \<Longrightarrow> rnd x \<le> v"
  using rnd_mono [of x v] by simp

lemma ge_value: "rnd v = v \<Longrightarrow> v \<le> x \<Longrightarrow> v \<le> rnd x"
  using rnd_mono [of v x] by simp

lemma add_mono: "a \<le> b \<Longrightarrow> c \<le> d \<Longrightarrow> rnd (a + c) \<le> rnd (b + d)"
  by (intro rnd_mono add_mono)

lemma sub_nonneg: "b \<le> a \<Longrightarrow> 0 \<le> rnd (a - b)"
  by (rule nonneg) simp

text \<open>Moving a similarity \<open>a\<close> at most half of the way to 1 stays within the unit interval.\<close>

lemma convex_step:
  assumes "0 \<le> a" "a \<le> 1" "0 \<le> w" "w \<le> 1 / 2"
  shows "0 \<le> rnd (a + rnd (w * rnd (1 - a)))" and "rnd (a + rnd (w * rnd (1 - a))) \<le> 1"
proof -
  let ?d = "rnd (1 - a)"
  have d: "0 \<le> ?d" "?d \<le> 2 * (1 - a)"
    using assms rnd_le_double [of "1 - a"] by (simp_all add: nonneg)
  have "0 \<le> rnd (w * ?d)" using d assms by (simp add: nonneg)
  then show "0 \<le> rnd (a + rnd (w * ?d))" using assms by (simp add: nonneg)
  have "w * ?d \<le> 1 / 2 * ?d" using d assms by (intro mult_right_mono)
  then have "rnd (w * ?d) \<le> rnd (?d / 2)" by (intro rnd_mono) simp
  also have "\<dots> = ?d / 2" by (simp add: rnd_half rnd_idem)
  finally have "a + rnd (w * ?d) \<le> 1" using d by simp
  then show "rnd (a + rnd (w * ?d)) \<le> 1" by (rule le_one)
qed

end

lemma ilog2_unique:
  assumes "2 powi k \<le> x" "x < 2 powi (k + 1)"
  shows "ilog2 x = k"
proof -
  have pos: "0 < x" using assms(1) powi2_pos [of k] by linarith
  have "2 powi ilog2 x < (2::rat) powi (k + 1)" "2 powi k < (2::rat) powi (ilog2 x + 1)"
    using ilog2_bounds [OF pos] assms by linarith+
  then show ?thesis by simp
qed

lemma powi2_Suc: "(2::rat) powi (k + 1) = 2 * 2 powi k"
  by (simp add: power_int_add)

lemma powi2_pred: "(2::rat) powi (k - 1) = 2 powi k / 2"
  using powi2_Suc [of "k - 1"] by simp

lemma fl_half: "fl (x / 2) = fl x / 2"
proof -
  have pos: "fl (y / 2) = fl y / 2" if y: "0 < y" for y
  proof -
    have "ilog2 (y / 2) = ilog2 y - 1"
      using ilog2_bounds [OF y] by (intro ilog2_unique) (simp_all add: powi2_pred powi2_Suc)
    then have u: "ulp_exp (y / 2) = ulp_exp y - 1" using y by (simp add: ulp_exp_def)
    have "y / 2 / 2 powi (ulp_exp y - 1) = y / 2 powi ulp_exp y"
      by (simp add: powi2_pred)
    then show ?thesis using y by (simp add: fl_def u powi2_pred)
  qed
  show ?thesis using pos [of x] pos [of "- x"] by (cases "x = 0") (auto simp: neq_iff)
qed

lemma fl_le_double:
  assumes "0 \<le> x"
  shows "fl x \<le> 2 * x"
proof (cases "x = 0")
  case False
  with assms have pos: "0 < x" by simp
  have "fl x \<le> 2 * 2 powi ilog2 x" using fl_pos_bounds(2) [OF pos] by (simp add: powi2_Suc)
  also have "\<dots> \<le> 2 * x" using ilog2_bounds(1) [OF pos] by simp
  finally show ?thesis .
qed simp

interpretation fl_round: rounding fl
  by unfold_locales (simp_all add: fl_mono fl_half fl_le_double)

section \<open>The operations of the code\<close>

definition fadd :: "f64 \<Rightarrow> f64 \<Rightarrow> f64" where
  "fadd x y = fl (x + y)"

definition fsub :: "f64 \<Rightarrow> f64 \<Rightarrow> f64" where
  "fsub x y = fl (x - y)"

definition fmul :: "f64 \<Rightarrow> f64 \<Rightarrow> f64" where
  "fmul x y = fl (x * y)"

text \<open>Division; the code divides by non-zero numbers only.\<close>

definition fdiv :: "f64 \<Rightarrow> f64 \<Rightarrow> f64" where
  "fdiv x y = fl (x / y)"

lemmas f64_ops = fadd_def fsub_def fmul_def fdiv_def

text \<open>
  \<open>round(x, 2)\<close> and the format \<open>.2f\<close>: the exact value of the float is rounded half-even to
  hundredths.
\<close>

definition hundredths :: "f64 \<Rightarrow> int" where
  "hundredths x = rhe (x * 100)"

definition round2 :: "f64 \<Rightarrow> f64" where
  "round2 x = fl (of_int (hundredths x) / 100)"

text \<open>Evaluation of rounding on numerals.\<close>

lemma floor_quotients:
  "\<lfloor>(numeral a :: rat) / numeral b\<rfloor> = numeral a div numeral b"
  "\<lfloor>(1 :: rat) / numeral b\<rfloor> = 1 div numeral b"
  "\<lfloor>- ((numeral a :: rat) / numeral b)\<rfloor> = - numeral a div numeral b"
  "\<lfloor>- ((1 :: rat) / numeral b)\<rfloor> = - 1 div numeral b"
  using floor_divide_of_int_eq [where 'a = rat, of "numeral a" "numeral b"]
    floor_divide_of_int_eq [where 'a = rat, of "1" "numeral b"]
    floor_divide_of_int_eq [where 'a = rat, of "- numeral a" "numeral b"]
    floor_divide_of_int_eq [where 'a = rat, of "- 1" "numeral b"]
  by simp_all

lemma ceiling_quotients:
  "\<lceil>(numeral a :: rat) / numeral b\<rceil> = - (- numeral a div numeral b)"
  "\<lceil>(1 :: rat) / numeral b\<rceil> = - (- 1 div numeral b)"
  by (simp_all add: ceiling_def floor_quotients)

lemmas fl_eval = fl_def ulp_exp_def ilog2_def rhe_def Let_def compute_floorlog
  power_int_minus_divide floor_quotients ceiling_quotients

end
