(* ===== verification/Domain.thy ===== *)
theory Domain
  imports Float64
begin

text \<open>
  The data model of the ingestion service (\<open>services/ingestion/src/models.py\<close>): its closed
  enumerations with their stored spellings, the record-type families, the normalised
  intermediates and the result of the match chain. JSON values are pydantic's recursive
  \<open>JsonValue\<close>; a dictionary is an association list in insertion order.
\<close>

section \<open>Enumerations\<close>

datatype quality_flag =
    VALID | INVALID_FORMAT | PLACEHOLDER_VALUE | SHARED_SUSPECTED
  | STALE | SOURCE_UNTRUSTED | PARTIAL_PARSE

fun quality_value :: "quality_flag \<Rightarrow> string" where
  "quality_value VALID = ''valid''"
| "quality_value INVALID_FORMAT = ''invalid_format''"
| "quality_value PLACEHOLDER_VALUE = ''placeholder_value''"
| "quality_value SHARED_SUSPECTED = ''shared_suspected''"
| "quality_value STALE = ''stale''"
| "quality_value SOURCE_UNTRUSTED = ''source_untrusted''"
| "quality_value PARTIAL_PARSE = ''partial_parse''"

datatype match_decision = NO_MATCH | REVIEW | MERGE

fun decision_value :: "match_decision \<Rightarrow> string" where
  "decision_value MERGE = ''merge''"
| "decision_value REVIEW = ''review''"
| "decision_value NO_MATCH = ''no_match''"

datatype engine_type = DETERMINISTIC | HEURISTIC | LLM | MANUAL

datatype record_type =
    IDENTITY | BANKRUPTCY | RENTAL_FLAT | RELATIONSHIP | CONVERSATION
  | SALES | CRM_DEAL | CRM_HISTORY | CRM_COMPANY | CALL

fun record_type_value :: "record_type \<Rightarrow> string" where
  "record_type_value IDENTITY = ''identity''"
| "record_type_value BANKRUPTCY = ''bankruptcy''"
| "record_type_value RENTAL_FLAT = ''rental_flat''"
| "record_type_value RELATIONSHIP = ''relationship''"
| "record_type_value CONVERSATION = ''conversation''"
| "record_type_value SALES = ''sales''"
| "record_type_value CRM_DEAL = ''crm_deal''"
| "record_type_value CRM_HISTORY = ''crm_history''"
| "record_type_value CRM_COMPANY = ''crm_company''"
| "record_type_value CALL = ''call''"

datatype lifecycle_status = ACTIVE | PENDING_REVIEW | SUPERSEDED | REJECTED | LINK_FAILED

fun lifecycle_value :: "lifecycle_status \<Rightarrow> string" where
  "lifecycle_value ACTIVE = ''active''"
| "lifecycle_value PENDING_REVIEW = ''pending_review''"
| "lifecycle_value SUPERSEDED = ''superseded''"
| "lifecycle_value REJECTED = ''rejected''"
| "lifecycle_value LINK_FAILED = ''link_failed''"

definition all_lifecycle :: "lifecycle_status list" where
  "all_lifecycle = [ACTIVE, PENDING_REVIEW, SUPERSEDED, REJECTED, LINK_FAILED]"

text \<open>The enum constructor \<open>SourceRecordLifecycleStatus(value)\<close>: \<open>None\<close> is its \<open>ValueError\<close>.\<close>

definition parse_lifecycle :: "string \<Rightarrow> lifecycle_status option" where
  "parse_lifecycle v = first_where (\<lambda>s. lifecycle_value s = v) all_lifecycle"

lemma parse_lifecycle_value [simp]: "parse_lifecycle (lifecycle_value s) = Some s"
  by (cases s) (simp_all add: parse_lifecycle_def all_lifecycle_def)

lemma parse_lifecycle_Some: "parse_lifecycle v = Some s \<Longrightarrow> v = lifecycle_value s"
  by (auto simp: parse_lifecycle_def dest: first_where_Some)

lemma quality_value_inj [simp]: "quality_value a = quality_value b \<longleftrightarrow> a = b"
  by (cases a; cases b) simp_all

lemma record_type_value_inj [simp]: "record_type_value a = record_type_value b \<longleftrightarrow> a = b"
  by (cases a; cases b) simp_all

lemma decision_value_inj [simp]: "decision_value a = decision_value b \<longleftrightarrow> a = b"
  by (cases a; cases b) simp_all

text \<open>Decisions are ordered by how much they link: no match, review, merge.\<close>

instantiation match_decision :: linorder
begin

fun decision_rank :: "match_decision \<Rightarrow> nat" where
  "decision_rank NO_MATCH = 0"
| "decision_rank REVIEW = 1"
| "decision_rank MERGE = 2"

definition less_eq_match_decision :: "match_decision \<Rightarrow> match_decision \<Rightarrow> bool" where
  "less_eq_match_decision a b \<longleftrightarrow> decision_rank a \<le> decision_rank b"

definition less_match_decision :: "match_decision \<Rightarrow> match_decision \<Rightarrow> bool" where
  "less_match_decision a b \<longleftrightarrow> decision_rank a < decision_rank b"

lemma decision_rank_inj: "decision_rank a = decision_rank b \<Longrightarrow> a = b"
  by (cases a; cases b) simp_all

instance
  by standard (auto simp: less_eq_match_decision_def less_match_decision_def
      intro: decision_rank_inj)

end

lemmas decision_order_defs = less_eq_match_decision_def less_match_decision_def

section \<open>Record-type families\<close>

definition SYSTEM_FAMILY :: "record_type set" where
  "SYSTEM_FAMILY = {IDENTITY, BANKRUPTCY, RELATIONSHIP, CRM_DEAL}"

definition PERSON_CREATING_RECORD_TYPES :: "record_type set" where
  "PERSON_CREATING_RECORD_TYPES = SYSTEM_FAMILY"

definition MATCH_ONLY_RECORD_TYPES :: "record_type set" where
  "MATCH_ONLY_RECORD_TYPES = {CONVERSATION, CALL}"

lemma match_only_not_system: "MATCH_ONLY_RECORD_TYPES \<inter> SYSTEM_FAMILY = {}"
  by (simp add: MATCH_ONLY_RECORD_TYPES_def SYSTEM_FAMILY_def)

section \<open>JSON values\<close>

datatype json =
    JNull
  | JBool bool
  | JInt int
  | JFloat f64
  | JStr string
  | JList "json list"
  | JObj "(string \<times> json) list"

type_synonym json_obj = "(string \<times> json) list"

text \<open>\<open>d.get(key)\<close>, \<open>d[key]\<close> and the test \<open>value is True\<close>.\<close>

definition json_get :: "json_obj \<Rightarrow> string \<Rightarrow> json" where
  "json_get d k = (case map_of d k of None \<Rightarrow> JNull | Some v \<Rightarrow> v)"

definition json_req :: "json_obj \<Rightarrow> string \<Rightarrow> json result" where
  "json_req d k = (case map_of d k of None \<Rightarrow> raise (KeyError k) | Some v \<Rightarrow> ok v)"

definition is_true :: "json \<Rightarrow> bool" where
  "is_true v = (v = JBool True)"

lemma is_true_simps [simp]:
  "is_true (JBool b) = b" "\<not> is_true JNull" "\<not> is_true (JInt i)" "\<not> is_true (JFloat x)"
  "\<not> is_true (JStr s)" "\<not> is_true (JList l)" "\<not> is_true (JObj d)"
  by (simp_all add: is_true_def)

fun json_str :: "json \<Rightarrow> string option" where
  "json_str (JStr s) = Some s"
| "json_str _ = None"

section \<open>Raw and normalised intermediates\<close>

record raw_address =
  ra_raw :: "string option"
  ra_unit_number :: "string option"
  ra_street_number :: "string option"
  ra_street_name :: "string option"
  ra_building_name :: "string option"
  ra_city :: "string option"
  ra_state_province :: "string option"
  ra_postal_code :: "string option"
  ra_country_code :: "string option"

record raw_identifier =
  ri_type :: string
  ri_value :: string
  ri_is_verified :: bool
  ri_region_hint :: "string option"
  ri_source_instance_id :: "string option"

record normalized_identifier =
  ni_identifier_type :: string
  ni_normalized_value :: string
  ni_source_instance_id :: "string option"
  ni_is_verified :: bool
  ni_quality_flag :: quality_flag

record normalized_address =
  na_unit_number :: "string option"
  na_street_number :: string
  na_street_name :: string
  na_building_name :: "string option"
  na_city :: string
  na_state_province :: "string option"
  na_postal_code :: string
  na_country_code :: string
  na_normalized_full :: string
  na_quality_flag :: quality_flag

record normalized_attribute =
  nt_attribute_name :: string
  nt_attribute_value :: string
  nt_quality_flag :: quality_flag

text \<open>The defaults of the pydantic models.\<close>

definition mk_identifier :: "string \<Rightarrow> string \<Rightarrow> normalized_identifier" where
  "mk_identifier ty v =
     \<lparr>ni_identifier_type = ty, ni_normalized_value = v, ni_source_instance_id = None,
      ni_is_verified = False, ni_quality_flag = VALID\<rparr>"

definition mk_attribute :: "string \<Rightarrow> string \<Rightarrow> normalized_attribute" where
  "mk_attribute n v =
     \<lparr>nt_attribute_name = n, nt_attribute_value = v, nt_quality_flag = VALID\<rparr>"

definition mk_address :: "string \<Rightarrow> normalized_address" where
  "mk_address full =
     \<lparr>na_unit_number = None, na_street_number = [], na_street_name = [],
      na_building_name = None, na_city = [], na_state_province = None,
      na_postal_code = [], na_country_code = ''SG'', na_normalized_full = full,
      na_quality_flag = VALID\<rparr>"

section \<open>Matching results\<close>

record candidate_result =
  cr_person_id :: string
  cr_source :: string

record match_result =
  mr_decision :: match_decision
  mr_confidence :: f64
  mr_reasons :: "string list"
  mr_engine_type :: engine_type
  mr_engine_version :: string
  mr_matched_person_id :: "string option"
  mr_proposed_person_id :: "string option"
  mr_additional_linked_person_ids :: "string list"
  mr_review_candidate_person_ids :: "string list"
  mr_is_new_person :: bool
  mr_feature_snapshot :: json_obj

definition mk_result :: "match_decision \<Rightarrow> f64 \<Rightarrow> string list \<Rightarrow> engine_type \<Rightarrow> match_result" where
  "mk_result d c rs e =
     \<lparr>mr_decision = d, mr_confidence = c, mr_reasons = rs, mr_engine_type = e,
      mr_engine_version = ''v0.1.0'', mr_matched_person_id = None,
      mr_proposed_person_id = None, mr_additional_linked_person_ids = [],
      mr_review_candidate_person_ids = [], mr_is_new_person = False,
      mr_feature_snapshot = []\<rparr>"

lemma mk_result_simps [simp]:
  "mr_decision (mk_result d c rs e) = d"
  "mr_confidence (mk_result d c rs e) = c"
  "mr_reasons (mk_result d c rs e) = rs"
  "mr_engine_type (mk_result d c rs e) = e"
  "mr_matched_person_id (mk_result d c rs e) = None"
  "mr_proposed_person_id (mk_result d c rs e) = None"
  "mr_additional_linked_person_ids (mk_result d c rs e) = []"
  "mr_is_new_person (mk_result d c rs e) = False"
  "mr_feature_snapshot (mk_result d c rs e) = []"
  by (simp_all add: mk_result_def)

definition is_usable :: "quality_flag \<Rightarrow> bool" where
  "is_usable f = (f = VALID \<or> f = PARTIAL_PARSE)"

section \<open>Formatting of numbers and identifiers in reason texts\<close>

fun show_nat :: "nat \<Rightarrow> string" where
  "show_nat n = (if n < 10 then [char_of (48 + n)]
                 else show_nat (n div 10) @ [char_of (48 + n mod 10)])"

declare show_nat.simps [simp del]

definition show_int :: "int \<Rightarrow> string" where
  "show_int i = (if i < 0 then ''-'' @ show_nat (nat (- i)) else show_nat (nat i))"

text \<open>\<open>f"{x:.2f}"\<close> and \<open>f"{x:+.2f}"\<close>.\<close>

definition two_digits :: "nat \<Rightarrow> string" where
  "two_digits n = [char_of (48 + n div 10 mod 10), char_of (48 + n mod 10)]"

definition fmt2 :: "f64 \<Rightarrow> string" where
  "fmt2 x = (let h = nat (hundredths \<bar>x\<bar>)
             in (if x < 0 then ''-'' else []) @ show_nat (h div 100) @ ''.'' @ two_digits (h mod 100))"

definition fmt2_signed :: "f64 \<Rightarrow> string" where
  "fmt2_signed x = (if x < 0 then fmt2 x else ''+'' @ fmt2 x)"

text \<open>\<open>repr\<close> of a string and of a list of strings, on printable ASCII text.\<close>

definition repr_char :: "char \<Rightarrow> char \<Rightarrow> string" where
  "repr_char q c =
     (if c = CHR 0x5C then [CHR 0x5C, CHR 0x5C]
      else if c = q then [CHR 0x5C, q] else [c])"

definition py_repr :: "string \<Rightarrow> string" where
  "py_repr s =
     (let q = (if CHR 0x27 \<in> set s \<and> CHR 0x22 \<notin> set s then CHR 0x22 else CHR 0x27)
      in q # concat (map (repr_char q) s) @ [q])"

definition py_repr_list :: "string list \<Rightarrow> string" where
  "py_repr_list xs = ''['' @ py_join '', '' (map py_repr xs) @ '']''"

end
