(* ===== verification/Graph.thy ===== *)
theory Graph
  imports Domain
begin

text \<open>
  The property graph the service keeps in Neo4j, and the Cypher reads of the matching layer.
  A node is identified by the key its uniqueness constraint names; its other properties are a
  dictionary. A relationship has a type, a direction and a dictionary of properties. An absent
  property reads as null, as in Cypher. \<open>datetime()\<close> is a number handed in by the caller, and
  stored date-times are numbers too.

  A Cypher pattern is a list comprehension over the relationships in storage order. Where a
  query has no \<open>ORDER BY\<close>, Neo4j leaves the order of its rows open; the model returns them in
  storage order.
\<close>

section \<open>Nodes and relationships\<close>

datatype node =
    PersonN string
  | IdentifierN string string string
  | AddressN string
  | SourceRecordN string
  | OrderN string
  | VehicleN string
  | MergeEventN string
  | MatchDecisionN string
  | ReviewCaseN string
  | SourceSystemN string
  | BankruptcyCaseN string string

datatype rel_type =
    LINKED_TO | IDENTIFIED_BY | LIVES_AT | HAS_FACT | KNOWS | PURCHASED
  | BOUGHT_VEHICLE | OWNS_VEHICLE | NO_MATCH_LOCK | MERGED_INTO
  | MOVED_RELATIONSHIP | MOVED_MERGE_LINEAGE | ABSORBED | SURVIVOR
  | TRIGGERED_BY | AFFECTED_RECORD | FOR_DECISION | ABOUT_LEFT | ABOUT_RIGHT | FROM_SOURCE
  | FOR_CUSTOMER_RECORD | CHILD_OF | PREVIOUS_VERSION_OF | DESCRIBES_ADDRESS | MENTIONS_VEHICLE
  | INVOLVES_VEHICLE | HAS_BANKRUPTCY_CASE | DESCRIBES_CASE

record edge =
  e_type :: rel_type
  e_src :: node
  e_dst :: node
  e_props :: json_obj

record graph =
  g_nodes :: "(node \<times> json_obj) list"
  g_edges :: "edge list"

definition has_node :: "graph \<Rightarrow> node \<Rightarrow> bool" where
  "has_node g n = (n \<in> fst ` set (g_nodes g))"

definition node_prop :: "graph \<Rightarrow> node \<Rightarrow> string \<Rightarrow> json" where
  "node_prop g n k = (case map_of (g_nodes g) n of None \<Rightarrow> JNull | Some d \<Rightarrow> json_get d k)"

definition edge_prop :: "edge \<Rightarrow> string \<Rightarrow> json" where
  "edge_prop e k = json_get (e_props e) k"

text \<open>\<open>coalesce(rel.is_active, true) = true\<close>.\<close>

definition rel_active :: "edge \<Rightarrow> bool" where
  "rel_active e = (let v = edge_prop e ''is_active'' in v = JNull \<or> v = JBool True)"

definition active_person :: "graph \<Rightarrow> node \<Rightarrow> bool" where
  "active_person g n = (node_prop g n ''status'' = JStr ''active'')"

fun person_id :: "node \<Rightarrow> string option" where
  "person_id (PersonN p) = Some p"
| "person_id _ = None"

definition quality_usable :: "edge \<Rightarrow> bool" where
  "quality_usable e = (edge_prop e ''quality_flag'' \<in> {JStr ''valid'', JStr ''partial_parse''})"

definition out_edges :: "graph \<Rightarrow> rel_type \<Rightarrow> node \<Rightarrow> edge list" where
  "out_edges g t n = [e \<leftarrow> g_edges g. e_type e = t \<and> e_src e = n \<and> has_node g n]"

definition in_edges :: "graph \<Rightarrow> rel_type \<Rightarrow> node \<Rightarrow> edge list" where
  "in_edges g t n = [e \<leftarrow> g_edges g. e_type e = t \<and> e_dst e = n \<and> has_node g n]"

fun identifier_key :: "node \<Rightarrow> (string \<times> string \<times> string) option" where
  "identifier_key (IdentifierN ty scope v) = Some (ty, scope, v)"
| "identifier_key _ = None"

text \<open>The identifier patterns of the matching queries: by type and value, in any scope.\<close>

definition identifier_matches :: "string \<Rightarrow> string \<Rightarrow> node \<Rightarrow> bool" where
  "identifier_matches ty v n =
     (case identifier_key n of None \<Rightarrow> False | Some (ty', scope, v') \<Rightarrow> ty' = ty \<and> v' = v)"

section \<open>Reads of the deterministic layer\<close>

definition PERSON_HAS_IDENTIFIER :: "graph \<Rightarrow> string \<Rightarrow> string \<Rightarrow> string \<Rightarrow> bool" where
  "PERSON_HAS_IDENTIFIER g pid ty v =
     list_ex (\<lambda>rel. identifier_matches ty v (e_dst rel) \<and> rel_active rel)
       (out_edges g IDENTIFIED_BY (PersonN pid))"

definition PERSON_HAS_VALID_GOVT_ID :: "graph \<Rightarrow> string \<Rightarrow> string \<Rightarrow> bool" where
  "PERSON_HAS_VALID_GOVT_ID g pid v =
     list_ex (\<lambda>rel. identifier_matches ''nric'' v (e_dst rel) \<and> rel_active rel
                    \<and> edge_prop rel ''quality_flag'' = JStr ''valid'')
       (out_edges g IDENTIFIED_BY (PersonN pid))"

definition PERSON_HAS_CONFLICTING_GOVT_ID :: "graph \<Rightarrow> string \<Rightarrow> string \<Rightarrow> bool" where
  "PERSON_HAS_CONFLICTING_GOVT_ID g pid v =
     list_ex (\<lambda>rel. (case identifier_key (e_dst rel) of
                       None \<Rightarrow> False
                     | Some (ty, scope, v') \<Rightarrow> ty = ''nric'' \<and> v' \<noteq> v)
                    \<and> rel_active rel \<and> edge_prop rel ''quality_flag'' = JStr ''valid'')
       (out_edges g IDENTIFIED_BY (PersonN pid))"

text \<open>\<open>lock.expires_at IS NULL OR lock.expires_at > datetime()\<close>.\<close>

definition lock_active :: "int \<Rightarrow> edge \<Rightarrow> bool" where
  "lock_active now lock =
     (case edge_prop lock ''expires_at'' of JNull \<Rightarrow> True | JInt t \<Rightarrow> now < t | _ \<Rightarrow> False)"

text \<open>The undirected pattern \<open>(a)-[lock:NO_MATCH_LOCK]-(b)\<close>.\<close>

definition locked_pair :: "graph \<Rightarrow> int \<Rightarrow> string \<Rightarrow> string \<Rightarrow> bool" where
  "locked_pair g now a b =
     list_ex (\<lambda>lock. e_type lock = NO_MATCH_LOCK \<and> lock_active now lock
                \<and> ((e_src lock = PersonN a \<and> e_dst lock = PersonN b)
                   \<or> (e_src lock = PersonN b \<and> e_dst lock = PersonN a)))
       (g_edges g)"

definition CHECK_NO_MATCH_LOCK :: "graph \<Rightarrow> int \<Rightarrow> string \<Rightarrow> string \<Rightarrow> bool" where
  "CHECK_NO_MATCH_LOCK g now left right =
     (has_node g (PersonN left) \<and> has_node g (PersonN right) \<and> locked_pair g now left right)"

text \<open>
  \<open>FIND_ACTIVE_NO_MATCH_LOCKS\<close>: rows (candidate, owner), ordered by the candidate's and the
  identifier's input index and then by the owner.
\<close>

definition identifier_owners :: "graph \<Rightarrow> string \<Rightarrow> string \<Rightarrow> string list" where
  "identifier_owners g ty v =
     [the (person_id (e_src rel)). rel \<leftarrow> g_edges g,
        e_type rel = IDENTIFIED_BY \<and> identifier_matches ty v (e_dst rel)
        \<and> person_id (e_src rel) \<noteq> None \<and> active_person g (e_src rel) \<and> rel_active rel]"

definition FIND_ACTIVE_NO_MATCH_LOCKS ::
    "graph \<Rightarrow> int \<Rightarrow> string list \<Rightarrow> (string \<times> string) list \<Rightarrow> (string \<times> string) list" where
  "FIND_ACTIVE_NO_MATCH_LOCKS g now candidate_inputs identifier_inputs =
     [(candidate, owner).
        candidate \<leftarrow> [c \<leftarrow> candidate_inputs. has_node g (PersonN c)],
        ident \<leftarrow> identifier_inputs,
        owner \<leftarrow> sort [o'. o' \<leftarrow> identifier_owners g (fst ident) (snd ident),
                           o' \<noteq> candidate \<and> locked_pair g now o' candidate]]"

section \<open>Reads of the heuristic layer\<close>

record ident_row =
  ir_identifier_type :: string
  ir_normalized_value :: string
  ir_is_verified :: bool
  ir_is_system_sourced :: bool

text \<open>\<open>src.record_type IS NOT NULL AND src.record_type <> 'conversation'\<close> for the edge's source.\<close>

definition system_sourced_edge :: "graph \<Rightarrow> edge \<Rightarrow> bool" where
  "system_sourced_edge g rel =
     (case edge_prop rel ''source_record_pk'' of
        JStr pk \<Rightarrow> (let v = node_prop g (SourceRecordN pk) ''record_type''
                   in v \<noteq> JNull \<and> v \<noteq> JStr ''conversation'')
      | _ \<Rightarrow> False)"

definition match_ident_edges :: "graph \<Rightarrow> string \<Rightarrow> (string \<times> string \<times> edge) list" where
  "match_ident_edges g pid =
     [(ty, v, rel). rel \<leftarrow> [e \<leftarrow> out_edges g IDENTIFIED_BY (PersonN pid). rel_active e],
        (ty, scope, v) \<leftarrow> (case identifier_key (e_dst rel) of None \<Rightarrow> [] | Some k \<Rightarrow> [k]),
        ty = ''phone'' \<or> ty = ''email'']"

definition FETCH_PERSON_MATCH_IDENTIFIERS :: "graph \<Rightarrow> string \<Rightarrow> ident_row list" where
  "FETCH_PERSON_MATCH_IDENTIFIERS g pid =
     (let rows = match_ident_edges g pid;
          keys = remdups (map (\<lambda>(ty, v, rel). (ty, v)) rows)
      in [\<lparr>ir_identifier_type = fst k, ir_normalized_value = snd k,
           ir_is_verified = list_ex (\<lambda>(ty, v, rel). (ty, v) = k
              \<and> edge_prop rel ''is_verified'' = JBool True) rows,
           ir_is_system_sourced = list_ex (\<lambda>(ty, v, rel). (ty, v) = k
              \<and> system_sourced_edge g rel) rows\<rparr>. k \<leftarrow> keys])"

text \<open>A fact without a value is a row with a null value.\<close>

record fact_row =
  fr_attribute_name :: string
  fr_attribute_value :: "string option"

definition FETCH_PERSON_MATCH_FACTS :: "graph \<Rightarrow> string \<Rightarrow> fact_row list" where
  "FETCH_PERSON_MATCH_FACTS g pid =
     remdups [\<lparr>fr_attribute_name = n, fr_attribute_value = v\<rparr>.
        f \<leftarrow> [e \<leftarrow> out_edges g HAS_FACT (PersonN pid). rel_active e],
        n \<leftarrow> (case json_str (edge_prop f ''attribute_name'') of None \<Rightarrow> [] | Some n \<Rightarrow> [n]),
        v \<leftarrow> [json_str (edge_prop f ''attribute_value'')],
        n \<in> {''full_name'', ''preferred_name'', ''legal_name'', ''dob''}]"

definition FETCH_PERSON_MATCH_ADDRESSES :: "graph \<Rightarrow> string \<Rightarrow> string option list" where
  "FETCH_PERSON_MATCH_ADDRESSES g pid =
     remdups [json_str (node_prop g (e_dst rel) ''normalized_full'').
        rel \<leftarrow> [e \<leftarrow> out_edges g LIVES_AT (PersonN pid). rel_active e]]"

definition CHECK_IDENTIFIER_FANOUT :: "graph \<Rightarrow> string \<Rightarrow> string \<Rightarrow> string \<Rightarrow> nat" where
  "CHECK_IDENTIFIER_FANOUT g ty scope v =
     length (remdups [e_src rel. rel \<leftarrow> g_edges g,
        e_type rel = IDENTIFIED_BY \<and> e_dst rel = IdentifierN ty scope v
        \<and> active_person g (e_src rel) \<and> rel_active rel])"

section \<open>Lemmas on the reads\<close>

lemma locked_pair_sym: "locked_pair g now a b = locked_pair g now b a"
  by (auto simp: locked_pair_def list_ex_iff)

lemma person_id_Some_iff [simp]: "person_id n = Some p \<longleftrightarrow> n = PersonN p"
  by (cases n) auto

lemma identifier_key_Some_iff [simp]:
  "identifier_key n = Some (ty, scope, v) \<longleftrightarrow> n = IdentifierN ty scope v"
  by (cases n) auto

lemma identifier_owners_mem:
  "ow \<in> set (identifier_owners g ty v) \<longleftrightarrow>
   (\<exists>rel \<in> set (g_edges g). e_type rel = IDENTIFIED_BY \<and> identifier_matches ty v (e_dst rel)
      \<and> e_src rel = PersonN ow \<and> active_person g (PersonN ow) \<and> rel_active rel)"
proof -
  have "(\<exists>rel \<in> set (g_edges g). P rel \<and> person_id (e_src rel) \<noteq> None \<and> ow = the (person_id (e_src rel)))
      \<longleftrightarrow> (\<exists>rel \<in> set (g_edges g). P rel \<and> e_src rel = PersonN ow)" for P
    by (rule bex_cong [OF refl]) auto
  from this [of "\<lambda>rel. e_type rel = IDENTIFIED_BY \<and> identifier_matches ty v (e_dst rel)
      \<and> active_person g (e_src rel) \<and> rel_active rel"]
  show ?thesis unfolding identifier_owners_def by (auto 0 3)
qed

lemma find_locks_mem:
  "(c, ow) \<in> set (FIND_ACTIVE_NO_MATCH_LOCKS g now cs ids) \<longleftrightarrow>
   c \<in> set cs \<and> has_node g (PersonN c) \<and> ow \<noteq> c \<and> locked_pair g now ow c
   \<and> (\<exists>i \<in> set ids. ow \<in> set (identifier_owners g (fst i) (snd i)))"
  by (auto simp: FIND_ACTIVE_NO_MATCH_LOCKS_def)

lemma valid_govt_id_has_identifier:
  "PERSON_HAS_VALID_GOVT_ID g pid v \<Longrightarrow> PERSON_HAS_IDENTIFIER g pid ''nric'' v"
  by (auto simp: PERSON_HAS_VALID_GOVT_ID_def PERSON_HAS_IDENTIFIER_def list_ex_iff)

end
