(* ===== verification/Deterministic.thy ===== *)
theory Deterministic
  imports Graph
begin

text \<open>
  Layer 1 of the match chain (\<open>matching/deterministic.py\<close>): no-match locks, government
  identifiers and trusted identifiers. A rule answers \<open>None\<close> to fall through to the next one.

  The em dashes of the reason texts are written as hyphens.
\<close>

section \<open>The rules\<close>

definition TRUSTED_ID_TYPES :: "string list" where
  "TRUSTED_ID_TYPES = [''external_customer_id'', ''membership_id'']"

definition prefetch_no_match_lock_owners ::
    "graph \<Rightarrow> int \<Rightarrow> string list \<Rightarrow> normalized_identifier list \<Rightarrow> (string \<times> string) list" where
  "prefetch_no_match_lock_owners g now candidate_person_ids identifiers =
     (let identifier_inputs = [(ni_identifier_type ident, ni_normalized_value ident).
            ident \<leftarrow> identifiers, is_usable (ni_quality_flag ident)]
      in if candidate_person_ids = [] \<or> identifier_inputs = [] then []
         else fold (\<lambda>(candidate, owner). dict_setdefault candidate owner)
                (FIND_ACTIVE_NO_MATCH_LOCKS g now candidate_person_ids identifier_inputs) [])"

definition no_match_lock_result :: "string \<Rightarrow> string \<Rightarrow> match_result" where
  "no_match_lock_result owner_person_id candidate_person_id =
     mk_result NO_MATCH 1
       [''NO_MATCH_LOCK exists between person '' @ owner_person_id @ '' and candidate ''
        @ candidate_person_id] DETERMINISTIC"

definition check_no_match_lock ::
    "graph \<Rightarrow> int \<Rightarrow> string \<Rightarrow> normalized_identifier list \<Rightarrow> match_result option" where
  "check_no_match_lock g now candidate identifiers =
     (case map_of (prefetch_no_match_lock_owners g now [candidate] identifiers) candidate of
        None \<Rightarrow> None
      | Some owner \<Rightarrow> Some (no_match_lock_result owner candidate))"

fun check_government_ids ::
    "graph \<Rightarrow> string \<Rightarrow> normalized_identifier list \<Rightarrow> match_result option" where
  "check_government_ids g candidate [] = None"
| "check_government_ids g candidate (govt_id # rest) =
     (if PERSON_HAS_VALID_GOVT_ID g candidate (ni_normalized_value govt_id)
      then Some ((mk_result MERGE 1 [''Exact government ID hash match''] DETERMINISTIC)
                   \<lparr>mr_matched_person_id := Some candidate\<rparr>)
      else if PERSON_HAS_CONFLICTING_GOVT_ID g candidate (ni_normalized_value govt_id)
      then Some (mk_result NO_MATCH 1 [''Conflicting government ID hash - hard no-match'']
                   DETERMINISTIC)
      else check_government_ids g candidate rest)"

definition check_government_id ::
    "graph \<Rightarrow> string \<Rightarrow> normalized_identifier list \<Rightarrow> match_result option" where
  "check_government_id g candidate identifiers =
     check_government_ids g candidate
       [i \<leftarrow> identifiers. ni_identifier_type i = ''nric'' \<and> ni_quality_flag i = VALID]"

fun check_trusted_ids ::
    "graph \<Rightarrow> string \<Rightarrow> normalized_identifier list \<Rightarrow> match_result option" where
  "check_trusted_ids g candidate [] = None"
| "check_trusted_ids g candidate (tid # rest) =
     (if PERSON_HAS_IDENTIFIER g candidate (ni_identifier_type tid) (ni_normalized_value tid)
      then Some ((mk_result MERGE 1 [''Exact trusted '' @ ni_identifier_type tid @ '' match: ''
                     @ ni_normalized_value tid] DETERMINISTIC)
                   \<lparr>mr_matched_person_id := Some candidate\<rparr>)
      else check_trusted_ids g candidate rest)"

definition check_trusted_id ::
    "graph \<Rightarrow> string \<Rightarrow> normalized_identifier list \<Rightarrow> match_result option" where
  "check_trusted_id g candidate identifiers =
     check_trusted_ids g candidate
       [i \<leftarrow> identifiers. ni_identifier_type i \<in> set TRUSTED_ID_TYPES \<and> ni_quality_flag i = VALID]"

definition evaluate_deterministic ::
    "graph \<Rightarrow> int \<Rightarrow> string \<Rightarrow> normalized_identifier list \<Rightarrow> record_type
     \<Rightarrow> (string \<times> string) list option \<Rightarrow> match_result option" where
  "evaluate_deterministic g now candidate identifiers rt no_match_lock_owners =
     (let locked = (case no_match_lock_owners of
            None \<Rightarrow> check_no_match_lock g now candidate identifiers
          | Some owners \<Rightarrow> (case map_of owners candidate of
                None \<Rightarrow> None
              | Some owner \<Rightarrow> Some (no_match_lock_result owner candidate)))
      in case locked of
           Some r \<Rightarrow> Some r
         | None \<Rightarrow>
             (let govt = check_government_id g candidate identifiers
              in if govt \<noteq> None \<and> (mr_decision (the govt) = NO_MATCH \<or> rt \<in> SYSTEM_FAMILY) then govt
                 else if rt \<notin> SYSTEM_FAMILY then None
                 else check_trusted_id g candidate identifiers))"

section \<open>What the lock prefetch answers\<close>

definition lock_blocks ::
    "graph \<Rightarrow> int \<Rightarrow> string \<Rightarrow> normalized_identifier list \<Rightarrow> bool" where
  "lock_blocks g now candidate identifiers =
     (has_node g (PersonN candidate) \<and>
      list_ex (\<lambda>i. is_usable (ni_quality_flag i) \<and>
         list_ex (\<lambda>owner. owner \<noteq> candidate \<and> locked_pair g now owner candidate)
           (identifier_owners g (ni_identifier_type i) (ni_normalized_value i))) identifiers)"

lemma prefetch_lookup:
  "map_of (prefetch_no_match_lock_owners g now cs ids) c =
     map_of (FIND_ACTIVE_NO_MATCH_LOCKS g now cs [(ni_identifier_type i, ni_normalized_value i).
         i \<leftarrow> ids, is_usable (ni_quality_flag i)]) c"
proof -
  have none: "FIND_ACTIVE_NO_MATCH_LOCKS g now [] xs = []" "FIND_ACTIVE_NO_MATCH_LOCKS g now cs [] = []" for xs
    by (simp_all add: FIND_ACTIVE_NO_MATCH_LOCKS_def)
  show ?thesis
    unfolding prefetch_no_match_lock_owners_def Let_def
    by (simp add: map_of_fold_setdefault none del: concat_eq_Nil_conv)
qed

lemma prefetch_None_iff:
  "map_of (prefetch_no_match_lock_owners g now cs ids) c = None \<longleftrightarrow>
   \<not> (c \<in> set cs \<and> lock_blocks g now c ids)"
proof -
  have "c \<in> fst ` set (FIND_ACTIVE_NO_MATCH_LOCKS g now cs is) \<longleftrightarrow>
     (\<exists>ow. (c, ow) \<in> set (FIND_ACTIVE_NO_MATCH_LOCKS g now cs is))" for "is"
    by force
  then show ?thesis
    by (auto simp: prefetch_lookup map_of_eq_None_iff find_locks_mem lock_blocks_def list_ex_iff)
qed

section \<open>What the rules answer\<close>

text \<open>The government and trusted identifiers a candidate shares with the record.\<close>

definition shares_government_id :: "graph \<Rightarrow> string \<Rightarrow> normalized_identifier list \<Rightarrow> bool" where
  "shares_government_id g candidate identifiers =
     list_ex (\<lambda>i. ni_identifier_type i = ''nric'' \<and> ni_quality_flag i = VALID
       \<and> PERSON_HAS_VALID_GOVT_ID g candidate (ni_normalized_value i)) identifiers"

definition conflicting_government_id :: "graph \<Rightarrow> string \<Rightarrow> normalized_identifier list \<Rightarrow> bool" where
  "conflicting_government_id g candidate identifiers =
     list_ex (\<lambda>i. ni_identifier_type i = ''nric'' \<and> ni_quality_flag i = VALID
       \<and> PERSON_HAS_CONFLICTING_GOVT_ID g candidate (ni_normalized_value i)) identifiers"

definition shares_trusted_id :: "graph \<Rightarrow> string \<Rightarrow> normalized_identifier list \<Rightarrow> bool" where
  "shares_trusted_id g candidate identifiers =
     list_ex (\<lambda>i. ni_identifier_type i \<in> set TRUSTED_ID_TYPES \<and> ni_quality_flag i = VALID
       \<and> PERSON_HAS_IDENTIFIER g candidate (ni_identifier_type i) (ni_normalized_value i)) identifiers"

definition hard_merge :: "string \<Rightarrow> match_result \<Rightarrow> bool" where
  "hard_merge candidate r \<longleftrightarrow> mr_decision r = MERGE \<and> mr_confidence r = 1
     \<and> mr_engine_type r = DETERMINISTIC \<and> mr_matched_person_id r = Some candidate
     \<and> mr_additional_linked_person_ids r = [] \<and> \<not> mr_is_new_person r"

lemma check_government_ids_cases:
  "case check_government_ids g c ids of
     None \<Rightarrow> \<not> list_ex (\<lambda>i. PERSON_HAS_VALID_GOVT_ID g c (ni_normalized_value i)) ids
       \<and> \<not> list_ex (\<lambda>i. PERSON_HAS_CONFLICTING_GOVT_ID g c (ni_normalized_value i)) ids
   | Some r \<Rightarrow> (hard_merge c r \<and> list_ex (\<lambda>i. PERSON_HAS_VALID_GOVT_ID g c (ni_normalized_value i)) ids)
       \<or> (mr_decision r = NO_MATCH
           \<and> list_ex (\<lambda>i. PERSON_HAS_CONFLICTING_GOVT_ID g c (ni_normalized_value i)) ids)"
  by (induction ids) (auto simp: hard_merge_def split: option.splits)

lemma list_ex_filter: "list_ex P (filter Q xs) = list_ex (\<lambda>x. Q x \<and> P x) xs"
  by (auto simp: list_ex_iff)

lemma check_government_id_cases:
  obtains (fall_through) "check_government_id g c ids = None" "\<not> shares_government_id g c ids"
      "\<not> conflicting_government_id g c ids"
    | (merge) r where "check_government_id g c ids = Some r" "hard_merge c r" "shares_government_id g c ids"
    | (no_match) r where "check_government_id g c ids = Some r" "mr_decision r = NO_MATCH"
        "conflicting_government_id g c ids"
  using check_government_ids_cases [of g c "[i \<leftarrow> ids. ni_identifier_type i = ''nric'' \<and> ni_quality_flag i = VALID]"]
  by (cases "check_government_id g c ids")
     (auto simp: check_government_id_def shares_government_id_def conflicting_government_id_def
        list_ex_filter conj_assoc)

lemma check_trusted_ids_cases:
  "case check_trusted_ids g c ids of
     None \<Rightarrow> \<not> list_ex (\<lambda>i. PERSON_HAS_IDENTIFIER g c (ni_identifier_type i) (ni_normalized_value i)) ids
   | Some r \<Rightarrow> hard_merge c r
       \<and> list_ex (\<lambda>i. PERSON_HAS_IDENTIFIER g c (ni_identifier_type i) (ni_normalized_value i)) ids"
  by (induction ids) (auto simp: hard_merge_def split: option.splits)

lemma check_trusted_id_cases:
  obtains (fall_through) "check_trusted_id g c ids = None" "\<not> shares_trusted_id g c ids"
    | (merge) r where "check_trusted_id g c ids = Some r" "hard_merge c r" "shares_trusted_id g c ids"
  using check_trusted_ids_cases [of g c "[i \<leftarrow> ids. ni_identifier_type i \<in> set TRUSTED_ID_TYPES \<and> ni_quality_flag i = VALID]"]
  by (cases "check_trusted_id g c ids")
     (auto simp: check_trusted_id_def shares_trusted_id_def list_ex_filter conj_assoc)

text \<open>
  The layer with prefetched lock owners: a lock blocks, then a government identifier decides,
  then, for a record of the system family, a trusted identifier.
\<close>

lemma evaluate_deterministic_cases:
  obtains (locked) r owner where "map_of owners c = Some owner"
      "evaluate_deterministic g now c ids rt (Some owners) = Some r" "mr_decision r = NO_MATCH"
    | (conflict) r where "map_of owners c = None" "conflicting_government_id g c ids"
        "evaluate_deterministic g now c ids rt (Some owners) = Some r" "mr_decision r = NO_MATCH"
    | (merge) r where "map_of owners c = None" "rt \<in> SYSTEM_FAMILY"
        "shares_government_id g c ids \<or> shares_trusted_id g c ids"
        "evaluate_deterministic g now c ids rt (Some owners) = Some r" "hard_merge c r"
    | (fall_through) "map_of owners c = None"
        "evaluate_deterministic g now c ids rt (Some owners) = None"
        "rt \<in> SYSTEM_FAMILY \<longrightarrow> \<not> shares_government_id g c ids \<and> \<not> shares_trusted_id g c ids"
proof (cases "map_of owners c")
  case (Some owner)
  then show ?thesis
    by (intro locked) (auto simp: evaluate_deterministic_def no_match_lock_result_def)
next
  case None
  note nolock = None
  then have run: "evaluate_deterministic g now c ids rt (Some owners) =
     (let govt = check_government_id g c ids
      in if govt \<noteq> None \<and> (mr_decision (the govt) = NO_MATCH \<or> rt \<in> SYSTEM_FAMILY) then govt
         else if rt \<notin> SYSTEM_FAMILY then None else check_trusted_id g c ids)"
    by (simp add: evaluate_deterministic_def)
  show ?thesis
  proof (cases rule: check_government_id_cases [of g c ids])
    case fall_through
    then show ?thesis
      by (cases rule: check_trusted_id_cases [of g c ids])
         (use nolock that(3,4) in \<open>auto simp: run Let_def\<close>)
  next
    case (merge r)
    then show ?thesis
      by (cases "rt \<in> SYSTEM_FAMILY")
         (use nolock that(3,4) in \<open>auto simp: run hard_merge_def Let_def\<close>)
  next
    case (no_match r)
    then show ?thesis using nolock that(2) by (auto simp: run Let_def)
  qed
qed

text \<open>The lookup in the prefetched owners and the query of the single candidate agree.\<close>

lemma single_prefetch:
  assumes "c \<in> set cs" "distinct cs"
  shows "map_of (prefetch_no_match_lock_owners g now cs ids) c =
         map_of (prefetch_no_match_lock_owners g now [c] ids) c"
proof -
  let ?rows = "\<lambda>cs is. FIND_ACTIVE_NO_MATCH_LOCKS g now cs is"
  have cons: "?rows (d # ds) is = ?rows [d] is @ ?rows ds is" for d ds "is"
    by (simp add: FIND_ACTIVE_NO_MATCH_LOCKS_def)
  have other: "c \<noteq> d \<Longrightarrow> map_of (?rows [d] is) c = None" for d "is"
    by (auto simp: map_of_eq_None_iff find_locks_mem)
  have outside: "c \<notin> set ds \<Longrightarrow> map_of (?rows ds is) c = None" for ds "is"
    by (auto simp: map_of_eq_None_iff find_locks_mem)
  have "map_of (?rows cs is) c = map_of (?rows [c] is) c" for "is"
    using assms
  proof (induction cs)
    case (Cons d ds)
    show ?case
    proof (cases "c = d")
      case True
      with Cons.prems have "map_of (?rows ds is) c = None" by (intro outside) auto
      with True show ?thesis by (simp add: cons [of d ds] map_add_def split: option.split)
    next
      case False
      with Cons show ?thesis by (simp add: cons [of d ds] map_add_def other split: option.split)
    qed
  qed simp
  then show ?thesis by (simp add: prefetch_lookup)
qed

section \<open>Properties\<close>

text \<open>The prefetched lock owners give each candidate the answer its own query would give, so
  evaluating with the batch or with one query per candidate is the same.\<close>

theorem prefetched_locks_equivalent:
  assumes "c \<in> set cs" and "distinct cs"
  shows "evaluate_deterministic g now c ids rt (Some (prefetch_no_match_lock_owners g now cs ids))
         = evaluate_deterministic g now c ids rt None"
  using single_prefetch [OF assms, of g now ids]
  by (simp add: evaluate_deterministic_def check_no_match_lock_def)

theorem prefetched_locks_equivalent_witness:
  "evaluate_deterministic \<lparr>g_nodes = [], g_edges = []\<rparr> 0 ''p1'' [mk_identifier ''nric'' ''S1''] IDENTITY
     (Some (prefetch_no_match_lock_owners \<lparr>g_nodes = [], g_edges = []\<rparr> 0 [''p2'', ''p1'']
        [mk_identifier ''nric'' ''S1'']))
   = evaluate_deterministic \<lparr>g_nodes = [], g_edges = []\<rparr> 0 ''p1'' [mk_identifier ''nric'' ''S1''] IDENTITY None"
  by (rule prefetched_locks_equivalent) simp_all

text \<open>The government identifier of the record that decides: the first valid one that the candidate holds
  as valid or contradicts with another valid one.\<close>

definition deciding_government_id :: "graph \<Rightarrow> string \<Rightarrow> normalized_identifier list \<Rightarrow> normalized_identifier option" where
  "deciding_government_id g candidate identifiers =
     first_where (\<lambda>i. ni_identifier_type i = ''nric'' \<and> ni_quality_flag i = VALID
       \<and> (PERSON_HAS_VALID_GOVT_ID g candidate (ni_normalized_value i)
          \<or> PERSON_HAS_CONFLICTING_GOVT_ID g candidate (ni_normalized_value i))) identifiers"

definition hard_no_match :: "match_result \<Rightarrow> bool" where
  "hard_no_match r \<longleftrightarrow> mr_decision r = NO_MATCH \<and> mr_confidence r = 1
     \<and> mr_engine_type r = DETERMINISTIC \<and> mr_matched_person_id r = None
     \<and> mr_additional_linked_person_ids r = [] \<and> \<not> mr_is_new_person r"

lemma check_government_ids_decides:
  "case first_where (\<lambda>i. PERSON_HAS_VALID_GOVT_ID g c (ni_normalized_value i)
          \<or> PERSON_HAS_CONFLICTING_GOVT_ID g c (ni_normalized_value i)) ids of
     None \<Rightarrow> check_government_ids g c ids = None
   | Some i \<Rightarrow> (\<exists>r. check_government_ids g c ids = Some r
       \<and> (if PERSON_HAS_VALID_GOVT_ID g c (ni_normalized_value i) then hard_merge c r else hard_no_match r))"
proof (induction ids)
  case (Cons i ids)
  let ?P = "\<lambda>i. PERSON_HAS_VALID_GOVT_ID g c (ni_normalized_value i) \<or> PERSON_HAS_CONFLICTING_GOVT_ID g c (ni_normalized_value i)"
  show ?case
  proof (cases "?P i")
    case True
    then show ?thesis by (auto simp: hard_merge_def hard_no_match_def mk_result_def)
  next
    case False
    then have skip: "check_government_ids g c (i # ids) = check_government_ids g c ids" "first_where ?P (i # ids) = first_where ?P ids"
      by simp_all
    show ?thesis unfolding skip by (rule Cons)
  qed
qed simp

lemma first_where_filter: "first_where P (filter Q xs) = first_where (\<lambda>x. Q x \<and> P x) xs"
  by (induction xs) auto

lemma check_government_id_decides:
  "case deciding_government_id g c ids of
     None \<Rightarrow> check_government_id g c ids = None
   | Some i \<Rightarrow> (\<exists>r. check_government_id g c ids = Some r
       \<and> (if PERSON_HAS_VALID_GOVT_ID g c (ni_normalized_value i) then hard_merge c r else hard_no_match r))"
  using check_government_ids_decides [of g c "[i \<leftarrow> ids. ni_identifier_type i = ''nric'' \<and> ni_quality_flag i = VALID]"]
  unfolding check_government_id_def deciding_government_id_def first_where_filter conj_assoc .

text \<open>C8: the hard rules in order of precedence. A lock between the candidate and an active owner of a
  usable identifier of the record answers no match. Otherwise the first valid government identifier of
  the record that the candidate holds or contradicts decides: it merges records of the system family and
  lets the others fall through when the candidate holds it, and answers no match for every record when
  the candidate contradicts it. Only when there is none, a shared valid trusted identifier merges a record
  of the system family; every other record falls through. A hard merge has confidence 1 and the candidate
  as its person, a hard no match names nobody.\<close>

theorem hard_rules:
  "let result = evaluate_deterministic g now c ids rt None;
       merged = (\<exists>r. result = Some r \<and> hard_merge c r);
       refused = (\<exists>r. result = Some r \<and> hard_no_match r)
   in if lock_blocks g now c ids then refused
      else case deciding_government_id g c ids of
        Some i \<Rightarrow> if \<not> PERSON_HAS_VALID_GOVT_ID g c (ni_normalized_value i) then refused
                  else if rt \<in> SYSTEM_FAMILY then merged else result = None
      | None \<Rightarrow> if rt \<in> SYSTEM_FAMILY \<and> shares_trusted_id g c ids then merged else result = None"
proof (cases "lock_blocks g now c ids")
  case True
  then have "c \<in> set [c] \<and> lock_blocks g now c ids" by simp
  then obtain owner where "map_of (prefetch_no_match_lock_owners g now [c] ids) c = Some owner"
    using prefetch_None_iff [of g now "[c]" ids c] by blast
  then show ?thesis
    using True by (simp add: evaluate_deterministic_def check_no_match_lock_def no_match_lock_result_def hard_no_match_def mk_result_def)
next
  case False
  then have "map_of (prefetch_no_match_lock_owners g now [c] ids) c = None" by (simp add: prefetch_None_iff)
  then have run: "evaluate_deterministic g now c ids rt None =
     (let govt = check_government_id g c ids
      in if govt \<noteq> None \<and> (mr_decision (the govt) = NO_MATCH \<or> rt \<in> SYSTEM_FAMILY) then govt
         else if rt \<notin> SYSTEM_FAMILY then None else check_trusted_id g c ids)"
    by (simp add: evaluate_deterministic_def check_no_match_lock_def)
  show ?thesis
  proof (cases "deciding_government_id g c ids")
    case None
    then have "check_government_id g c ids = None" using check_government_id_decides [of g c ids] by simp
    then show ?thesis
      by (cases rule: check_trusted_id_cases [of g c ids]) (use False None in \<open>simp_all add: run\<close>)
  next
    case (Some i)
    then obtain r where r: "check_government_id g c ids = Some r"
      "if PERSON_HAS_VALID_GOVT_ID g c (ni_normalized_value i) then hard_merge c r else hard_no_match r"
      using check_government_id_decides [of g c ids] by auto
    then have "(mr_decision r = NO_MATCH) = (\<not> PERSON_HAS_VALID_GOVT_ID g c (ni_normalized_value i))"
      by (auto simp: hard_merge_def hard_no_match_def split: if_splits)
    with r False Some show ?thesis by (auto simp: run Let_def split: if_splits)
  qed
qed

text \<open>A person with one government identifier and one membership.\<close>

definition member_graph :: graph where
  "member_graph =
     \<lparr>g_nodes = [(PersonN ''p1'', [(''status'', JStr ''active'')]), (IdentifierN ''nric'' ''global'' ''S1'', []),
                 (IdentifierN ''membership_id'' ''global'' ''M1'', [])],
      g_edges = map (\<lambda>n. \<lparr>e_type = IDENTIFIED_BY, e_src = PersonN ''p1'', e_dst = n, e_props = [(''quality_flag'', JStr ''valid'')]\<rparr>)
        [IdentifierN ''nric'' ''global'' ''S1'', IdentifierN ''membership_id'' ''global'' ''M1'']\<rparr>"

theorem hard_rules_witness:
  "(\<exists>r. evaluate_deterministic member_graph 0 ''p1'' [mk_identifier ''membership_id'' ''M1'', mk_identifier ''nric'' ''S2''] IDENTITY None = Some r
      \<and> hard_no_match r)
   \<and> (\<exists>r. evaluate_deterministic member_graph 0 ''p1'' [mk_identifier ''membership_id'' ''M1'', mk_identifier ''nric'' ''S1''] IDENTITY None = Some r
      \<and> hard_merge ''p1'' r)
   \<and> evaluate_deterministic member_graph 0 ''p1'' [mk_identifier ''membership_id'' ''M1'', mk_identifier ''nric'' ''S1''] CONVERSATION None = None"
proof -
  let ?ids = "\<lambda>v. [mk_identifier ''membership_id'' ''M1'', mk_identifier ''nric'' v]"
  have free: "\<not> lock_blocks member_graph 0 ''p1'' (?ids v)" for v
    by (simp add: lock_blocks_def locked_pair_def member_graph_def list_ex_iff)
  have decide: "deciding_government_id member_graph ''p1'' (?ids ''S2'') = Some (mk_identifier ''nric'' ''S2'')"
    "deciding_government_id member_graph ''p1'' (?ids ''S1'') = Some (mk_identifier ''nric'' ''S1'')"
    "\<not> PERSON_HAS_VALID_GOVT_ID member_graph ''p1'' ''S2''" "PERSON_HAS_VALID_GOVT_ID member_graph ''p1'' ''S1''"
    "IDENTITY \<in> SYSTEM_FAMILY" "CONVERSATION \<notin> SYSTEM_FAMILY" "\<And>v. ni_normalized_value (mk_identifier ''nric'' v) = v"
    by (code_simp | simp add: mk_identifier_def)+
  from hard_rules [of member_graph 0 "''p1''" "?ids ''S2''" IDENTITY] hard_rules [of member_graph 0 "''p1''" "?ids ''S1''" IDENTITY]
    hard_rules [of member_graph 0 "''p1''" "?ids ''S1''" CONVERSATION]
  show ?thesis unfolding Let_def using free decide by simp
qed

end
