(* ===== verification/SourceKeys.thy ===== *)
theory SourceKeys
  imports Domain
begin

text \<open>
  The namespaces and keys of source records: the slug of a source instance
  (\<open>source_instances.py\<close>), the length-prefixed version key (\<open>source_version_keys.py\<close>) and the
  scope of an identifier (\<open>identifier_scopes.py\<close>). The keys are shown to be decodable.
\<close>

section \<open>Source instances\<close>

definition LEGACY_DEFAULT_SOURCE_INSTANCE_ID :: string where
  "LEGACY_DEFAULT_SOURCE_INSTANCE_ID = ''legacy-default''"

definition LEGACY_DEFAULT_CONTROL_INSTANCE_ID :: string where
  "LEGACY_DEFAULT_CONTROL_INSTANCE_ID = LEGACY_DEFAULT_SOURCE_INSTANCE_ID"

definition slug_char :: "char \<Rightarrow> bool" where
  "slug_char c = (is_lower_letter c \<or> is_digit c)"

text \<open>\<open>re.compile(r"[a-z0-9](?:[a-z0-9-]{0,62}[a-z0-9])?").fullmatch\<close>.\<close>

fun source_instance_pattern :: "string \<Rightarrow> bool" where
  "source_instance_pattern [] = False"
| "source_instance_pattern [c] = slug_char c"
| "source_instance_pattern (c # d # cs) =
     (slug_char c \<and> length cs \<le> 62
      \<and> list_all (\<lambda>x. slug_char x \<or> x = CHR ''-'') (butlast (d # cs)) \<and> slug_char (last (d # cs)))"

definition canonical_source_instance_id :: "string \<Rightarrow> string \<Rightarrow> bool \<Rightarrow> string result" where
  "canonical_source_instance_id val field_name allow_legacy_default =
     (if (val = LEGACY_DEFAULT_SOURCE_INSTANCE_ID \<and> \<not> allow_legacy_default)
         \<or> \<not> source_instance_pattern val
      then raise (ValueError (field_name @ '' must be a canonical non-secret slug of 1 to 64 characters '' @
                              ''and must not use a reserved namespace''))
      else ok val)"

definition effective_source_instance_id :: "string option \<Rightarrow> string result" where
  "effective_source_instance_id val =
     (case val of
        None \<Rightarrow> ok LEGACY_DEFAULT_SOURCE_INSTANCE_ID
      | Some v \<Rightarrow> if v = LEGACY_DEFAULT_SOURCE_INSTANCE_ID then ok LEGACY_DEFAULT_SOURCE_INSTANCE_ID
                  else canonical_source_instance_id v ''source_instance_id'' False)"

definition effective_control_instance_id :: "string option \<Rightarrow> string result" where
  "effective_control_instance_id val =
     (case val of
        None \<Rightarrow> ok LEGACY_DEFAULT_CONTROL_INSTANCE_ID
      | Some v \<Rightarrow> if v = LEGACY_DEFAULT_CONTROL_INSTANCE_ID then ok LEGACY_DEFAULT_CONTROL_INSTANCE_ID
                  else canonical_source_instance_id v ''control_instance_id'' False)"

definition scope_control_identity :: "string \<Rightarrow> string \<Rightarrow> string result" where
  "scope_control_identity base control_instance_id =
     (if base = [] then raise (ValueError ''base control identity must be non-empty'')
      else try_bind (effective_control_instance_id (Some control_instance_id)) (\<lambda>canonical.
        if canonical = LEGACY_DEFAULT_CONTROL_INSTANCE_ID then ok base
        else ok (''ci1:'' @ show_nat (length canonical) @ '':'' @ canonical @ '':'' @ base)))"

section \<open>Version keys\<close>

definition key_component :: "string \<Rightarrow> string" where
  "key_component v = show_nat (length v) @ '':'' @ v"

definition encode_source_version_key ::
    "string \<Rightarrow> string \<Rightarrow> string \<Rightarrow> string option \<Rightarrow> string option \<Rightarrow> string result" where
  "encode_source_version_key source_system source_record_id source_record_version
      source_instance_id duplicate_discriminator =
     (let discriminator = (if truthy duplicate_discriminator then or_empty duplicate_discriminator else [])
      in case source_instance_id of
           None \<Rightarrow> ok (''sv1:'' @ concat (map key_component
                     [source_system, source_record_id, source_record_version, discriminator]))
         | Some inst \<Rightarrow>
             try_bind (canonical_source_instance_id inst ''source_instance_id''
                         (inst = LEGACY_DEFAULT_SOURCE_INSTANCE_ID)) (\<lambda>_.
               ok (''sv2:'' @ concat (map key_component
                     [source_system, inst, source_record_id, source_record_version, discriminator]))))"

section \<open>Identifier scopes\<close>

definition GLOBAL_IDENTIFIER_SCOPE :: string where
  "GLOBAL_IDENTIFIER_SCOPE = ''global''"

definition CRM_CANONICAL_IDENTIFIER_TYPES :: "string set" where
  "CRM_CANONICAL_IDENTIFIER_TYPES = {''crm_contact_id'', ''crm_lead_id'', ''crm_company_id''}"

definition source_instance_for_identifier :: "string \<Rightarrow> string option \<Rightarrow> string option result" where
  "source_instance_for_identifier identifier_type source_instance_id =
     (if identifier_type \<in> CRM_CANONICAL_IDENTIFIER_TYPES
      then try_bind (effective_source_instance_id source_instance_id) (\<lambda>i. ok (Some i))
      else ok None)"

definition identifier_scope :: "string \<Rightarrow> string option \<Rightarrow> string result" where
  "identifier_scope identifier_type source_instance_id =
     try_bind (source_instance_for_identifier identifier_type source_instance_id) (\<lambda>scoped.
       ok (if truthy scoped then or_empty scoped else GLOBAL_IDENTIFIER_SCOPE))"

section \<open>Decimal numerals are readable\<close>

definition digit_value :: "char \<Rightarrow> nat" where
  "digit_value c = of_char c - 48"

definition read_nat :: "string \<Rightarrow> nat" where
  "read_nat ds = foldl (\<lambda>n d. 10 * n + digit_value d) 0 ds"

lemma digit_char [simp]:
  assumes "k < 10"
  shows "is_digit (char_of (48 + k :: nat))" "digit_value (char_of (48 + k :: nat)) = k"
  using assms by (simp_all add: is_digit_def digit_value_def of_char_of Let_def)

lemma show_nat_digits: "list_all is_digit (show_nat n)"
proof (induction n rule: less_induct)
  case (less n)
  then show ?case by (cases "n < 10") (simp_all add: show_nat.simps [of n])
qed

lemma read_show_nat: "read_nat (show_nat n) = n"
proof (induction n rule: less_induct)
  case (less n)
  show ?case
  proof (cases "n < 10")
    case True
    then show ?thesis by (simp add: show_nat.simps [of n] read_nat_def)
  next
    case False
    then have "read_nat (show_nat (n div 10)) = n div 10" by (intro less) simp
    with False show ?thesis by (simp add: show_nat.simps [of n] read_nat_def)
  qed
qed

section \<open>Reading a key back\<close>

text \<open>A reader of the format: digits up to the colon, then as many characters as they say.\<close>

definition read_component :: "string \<Rightarrow> string \<times> string" where
  "read_component s = (let n = read_nat (takeWhile is_digit s); rest = tl (dropWhile is_digit s)
                       in (take n rest, drop n rest))"

fun read_components :: "nat \<Rightarrow> string \<Rightarrow> string list" where
  "read_components 0 s = []"
| "read_components (Suc n) s = (let (v, rest) = read_component s in v # read_components n rest)"

definition decode_source_version_key :: "string \<Rightarrow> (string option \<times> string list) option" where
  "decode_source_version_key key =
     (if take 4 key = ''sv1:'' then Some (None, read_components 4 (drop 4 key))
      else if take 4 key = ''sv2:''
      then (case read_components 5 (drop 4 key) of
              system # inst # rest \<Rightarrow> Some (Some inst, system # rest) | _ \<Rightarrow> None)
      else None)"

lemma read_key_component: "read_component (key_component v @ rest) = (v, rest)"
proof -
  have stop: "takeWhile is_digit (show_nat n @ CHR '':'' # s) = show_nat n"
    "dropWhile is_digit (show_nat n @ CHR '':'' # s) = CHR '':'' # s" for n s
    using show_nat_digits [of n] by (simp_all add: list_all_iff is_digit_def)
  show ?thesis by (simp add: read_component_def key_component_def stop read_show_nat Let_def)
qed

lemma read_key_components: "read_components (length vs) (concat (map key_component vs) @ rest) = vs"
  by (induction vs) (simp_all add: read_key_component)

lemma decode_encode:
  "encode_source_version_key sys rid ver inst disc = Inr key \<Longrightarrow>
   decode_source_version_key key = Some (inst, [sys, rid, ver, or_empty disc])"
proof -
  have disc: "(if truthy disc then or_empty disc else []) = or_empty disc"
    by (cases disc) auto
  assume "encode_source_version_key sys rid ver inst disc = Inr key"
  then show ?thesis
    using read_key_components [of "[sys, rid, ver, or_empty disc]" "[]"]
      read_key_components [of "[sys, the inst, rid, ver, or_empty disc]" "[]"]
    by (auto simp: encode_source_version_key_def Let_def disc decode_source_version_key_def eval_nat_numeral
        try_bind_Inr_iff split: option.splits simp del: read_components.simps)
qed

lemma canonical_slug: "canonical_source_instance_id v f allow = Inr w \<Longrightarrow> w = v \<and> source_instance_pattern v"
  by (auto simp: canonical_source_instance_id_def split: if_splits)

lemma effective_instance_cases:
  "effective_source_instance_id v = Inr i \<Longrightarrow> source_instance_pattern i \<and> i = (case v of None \<Rightarrow> ''legacy-default'' | Some w \<Rightarrow> w)"
proof -
  have "source_instance_pattern ''legacy-default''" by code_simp
  then show "effective_source_instance_id v = Inr i \<Longrightarrow>
      source_instance_pattern i \<and> i = (case v of None \<Rightarrow> ''legacy-default'' | Some w \<Rightarrow> w)"
    by (auto simp: effective_source_instance_id_def LEGACY_DEFAULT_SOURCE_INSTANCE_ID_def
        dest: canonical_slug split: option.splits if_splits)
qed

lemma slug_shape:
  "source_instance_pattern v \<Longrightarrow> v \<noteq> [] \<and> length v \<le> 64 \<and> list_all (\<lambda>c. slug_char c \<or> c = CHR ''-'') v"
proof (induction v rule: source_instance_pattern.induct)
  case (3 c d cs)
  then have "list_all (\<lambda>x. slug_char x \<or> x = CHR ''-'') (butlast (d # cs) @ [last (d # cs)])" by simp
  moreover have "butlast (d # cs) @ [last (d # cs)] = d # cs" by (rule append_butlast_last_id) simp
  ultimately have "list_all (\<lambda>x. slug_char x \<or> x = CHR ''-'') (d # cs)" by metis
  with 3 show ?case by simp
qed simp_all

section \<open>Properties\<close>

text \<open>C24: a version key determines what it was made from: the key reads back to the source system,
  instance, record id, version and discriminator, so no two different versions share a key, and
  keys of the legacy shape never meet keys of the instance-scoped shape.\<close>

theorem version_key_roundtrip:
  assumes "encode_source_version_key sys rid ver inst disc = Inr key"
  shows "decode_source_version_key key = Some (inst, [sys, rid, ver, or_empty disc])"
  by (rule decode_encode [OF assms])

theorem version_key_roundtrip_witness:
  "decode_source_version_key ''sv2:6:bitrix3:abc1:71:20:''
     = Some (Some ''abc'', [''bitrix'', ''7'', ''2'', or_empty None])"
proof -
  have n: "show_nat (Suc (Suc (Suc (Suc (Suc (Suc 0)))))) = ''6''" "show_nat (Suc (Suc (Suc 0))) = ''3''"
    "show_nat (Suc 0) = ''1''" "show_nat 0 = ''0''"
    by code_simp+
  have "source_instance_pattern ''abc''" by code_simp
  then have "encode_source_version_key ''bitrix'' ''7'' ''2'' (Some ''abc'') None = Inr ''sv2:6:bitrix3:abc1:71:20:''"
    by (simp add: encode_source_version_key_def canonical_source_instance_id_def LEGACY_DEFAULT_SOURCE_INSTANCE_ID_def
        key_component_def n Let_def)
  then show ?thesis by (rule version_key_roundtrip)
qed

text \<open>C25: the scope of an identifier is never empty: CRM keys are scoped by the instance, which is
  a slug of at most 64 lower-case letters, digits and hyphens, and every other identifier type
  shares the global scope whatever instance it comes from.\<close>

theorem identifier_scope_cases:
  "case identifier_scope ty inst of
     Inl e \<Rightarrow> ty \<in> CRM_CANONICAL_IDENTIFIER_TYPES
   | Inr scope \<Rightarrow> scope \<noteq> []
       \<and> (if ty \<in> CRM_CANONICAL_IDENTIFIER_TYPES
          then scope = (case inst of None \<Rightarrow> ''legacy-default'' | Some i \<Rightarrow> i)
               \<and> length scope \<le> 64 \<and> list_all (\<lambda>c. slug_char c \<or> c = CHR ''-'') scope
          else scope = ''global'')"
proof (cases "ty \<in> CRM_CANONICAL_IDENTIFIER_TYPES")
  case False
  then show ?thesis by (simp add: identifier_scope_def source_instance_for_identifier_def GLOBAL_IDENTIFIER_SCOPE_def)
next
  case True
  show ?thesis
  proof (cases "effective_source_instance_id inst")
    case (Inl e)
    with True show ?thesis by (simp add: identifier_scope_def source_instance_for_identifier_def)
  next
    case (Inr i)
    note i = effective_instance_cases [OF Inr]
    with slug_shape [of i] have "i \<noteq> []" "length i \<le> 64" "list_all (\<lambda>c. slug_char c \<or> c = CHR ''-'') i" by blast+
    moreover from True Inr \<open>i \<noteq> []\<close> have "identifier_scope ty inst = Inr i"
      by (simp add: identifier_scope_def source_instance_for_identifier_def)
    moreover from i have "i = (case inst of None \<Rightarrow> ''legacy-default'' | Some w \<Rightarrow> w)" by blast
    ultimately show ?thesis using True by simp
  qed
qed

end
