(* ===== verification/Thresholds.thy ===== *)
theory Thresholds
  imports Domain
begin

text \<open>
  Dispositions from a confidence (\<open>matching/thresholds.py\<close>). A pair of thresholds is a
  policy; the locale \<open>band_policy\<close> states what every policy promises (the review threshold
  is a positive number below the auto-merge threshold) and derives that banding is monotone.
  It is interpreted on the default and the relationship thresholds of the code.
\<close>

definition DEFAULT_AUTO_MERGE :: f64 where
  "DEFAULT_AUTO_MERGE = fl (40 / 100)"

definition DEFAULT_REVIEW :: f64 where
  "DEFAULT_REVIEW = fl (20 / 100)"

definition RELATIONSHIP_AUTO_MERGE :: f64 where
  "RELATIONSHIP_AUTO_MERGE = fl (20 / 100)"

definition RELATIONSHIP_REVIEW :: f64 where
  "RELATIONSHIP_REVIEW = fl (10 / 100)"

definition thresholds_for :: "record_type \<Rightarrow> f64 \<times> f64" where
  "thresholds_for rt =
     (if rt = RELATIONSHIP then (RELATIONSHIP_AUTO_MERGE, RELATIONSHIP_REVIEW)
      else (DEFAULT_AUTO_MERGE, DEFAULT_REVIEW))"

definition has_hard_conflict :: "json_obj \<Rightarrow> bool" where
  "has_hard_conflict features =
     list_ex (\<lambda>key. is_true (json_get features key))
       [''dob_conflict'', ''name_mismatch'', ''phone_high_fanout'']"

definition classify_confidence :: "f64 \<Rightarrow> record_type \<Rightarrow> bool \<Rightarrow> match_decision" where
  "classify_confidence confidence rt hard_conflict =
     (let (auto_merge, review) = thresholds_for rt;
          relationship_conflict = (rt = RELATIONSHIP \<and> hard_conflict)
      in if auto_merge \<le> confidence \<and> \<not> relationship_conflict then MERGE
         else if review \<le> confidence then REVIEW
         else NO_MATCH)"

section \<open>The thresholds as numbers\<close>

lemma threshold_values:
  "DEFAULT_AUTO_MERGE = 3602879701896397 / 9007199254740992"
  "DEFAULT_REVIEW = 3602879701896397 / 18014398509481984"
  "RELATIONSHIP_AUTO_MERGE = 3602879701896397 / 18014398509481984"
  "RELATIONSHIP_REVIEW = 3602879701896397 / 36028797018963968"
  by (simp_all add: DEFAULT_AUTO_MERGE_def DEFAULT_REVIEW_def RELATIONSHIP_AUTO_MERGE_def
      RELATIONSHIP_REVIEW_def fl_eval)

section \<open>What a banding policy promises\<close>

locale band_policy =
  fixes auto_merge :: f64 and review :: f64
  assumes review_pos: "0 < review"
    and review_below: "review < auto_merge"
    and auto_le_one: "auto_merge \<le> 1"
begin

definition band :: "bool \<Rightarrow> f64 \<Rightarrow> match_decision" where
  "band veto c = (if auto_merge \<le> c \<and> \<not> veto then MERGE
                  else if review \<le> c then REVIEW else NO_MATCH)"

lemma band_mono: "c \<le> d \<Longrightarrow> band veto c \<le> band veto d"
  using review_below by (auto simp: band_def decision_order_defs)

lemma band_merge_iff: "band veto c = MERGE \<longleftrightarrow> auto_merge \<le> c \<and> \<not> veto"
  by (simp add: band_def)

lemma band_no_match_iff: "band veto c = NO_MATCH \<longleftrightarrow> c < review"
  using review_below by (auto simp: band_def)

lemma band_veto: "band True c \<noteq> MERGE"
  by (simp add: band_def)

lemma band_veto_le: "band True c \<le> band False c"
  using review_below by (auto simp: band_def decision_order_defs)

lemma band_zero: "band veto 0 = NO_MATCH"
  using review_pos review_below by (simp add: band_def)

end

interpretation default_band: band_policy DEFAULT_AUTO_MERGE DEFAULT_REVIEW
  by unfold_locales (simp_all add: threshold_values)

interpretation relationship_band: band_policy RELATIONSHIP_AUTO_MERGE RELATIONSHIP_REVIEW
  by unfold_locales (simp_all add: threshold_values)

lemma classify_default:
  "rt \<noteq> RELATIONSHIP \<Longrightarrow> classify_confidence c rt hc = default_band.band False c"
  by (simp add: classify_confidence_def thresholds_for_def default_band.band_def)

lemma classify_relationship:
  "classify_confidence c RELATIONSHIP hc = relationship_band.band hc c"
  by (simp add: classify_confidence_def thresholds_for_def relationship_band.band_def)

lemma classify_mono:
  "c \<le> d \<Longrightarrow> classify_confidence c rt hc \<le> classify_confidence d rt hc"
  by (cases "rt = RELATIONSHIP")
     (simp_all add: classify_default classify_relationship default_band.band_mono
        relationship_band.band_mono)

end
