(* ===== verification/Similarity.thy ===== *)
theory Similarity
  imports Domain
begin

text \<open>
  String similarity (\<open>matching/similarity.py\<close>), the name helpers built on it
  (\<open>matching/names.py\<close>) and the near-miss tests on phones and emails
  (\<open>matching/identifier_similarity.py\<close>).

  \<open>rapidfuzz\<close> and \<open>phonenumbers\<close> are third-party packages: they are the parameter
  \<open>third_party\<close>, with the type \<open>'n\<close> of parsed phone numbers left open.
\<close>

record 'n third_party =
  osa_distance :: "string \<Rightarrow> string \<Rightarrow> nat"
  pn_parse :: "string \<Rightarrow> string option \<Rightarrow> 'n option"
  pn_region_code :: "'n \<Rightarrow> string option"
  pn_nsn :: "'n \<Rightarrow> string"
  pn_is_valid :: "'n \<Rightarrow> bool"
  pn_format_e164 :: "'n \<Rightarrow> string"

section \<open>Jaro similarity\<close>

text \<open>
  The inner loop looks for the first unmatched position of \<open>s2\<close> in the window around
  \<open>index1\<close> that carries the same character.
\<close>

type_synonym jaro_state = "bool list \<times> bool list \<times> nat"

definition jaro_step :: "string \<Rightarrow> string \<Rightarrow> nat \<Rightarrow> nat \<Rightarrow> jaro_state \<Rightarrow> jaro_state" where
  "jaro_step s1 s2 match_distance index1 st =
     (let (s1_matches, s2_matches, matches) = st;
          start = index1 - match_distance;
          stop = min (index1 + match_distance + 1) (length s2)
      in case first_where (\<lambda>index2. \<not> (s2_matches ! index2 \<or> s1 ! index1 \<noteq> s2 ! index2))
                [start..<stop] of
           None \<Rightarrow> (s1_matches, s2_matches, matches)
         | Some index2 \<Rightarrow>
             (s1_matches[index1 := True], s2_matches[index2 := True], matches + 1))"

definition jaro_matches :: "string \<Rightarrow> string \<Rightarrow> jaro_state" where
  "jaro_matches s1 s2 =
     (let match_distance = max (length s1) (length s2) div 2 - 1
      in fold (jaro_step s1 s2 match_distance) [0..<length s1]
           (replicate (length s1) False, replicate (length s2) False, 0))"

text \<open>
  The second pass pairs the matched positions in order; the inner \<open>while\<close> would index past
  the end of \<open>s2_matches\<close> if there were fewer matched positions on that side.
\<close>

fun jaro_transpositions ::
    "string \<Rightarrow> string \<Rightarrow> bool list \<Rightarrow> bool list \<Rightarrow> nat list \<Rightarrow> nat \<Rightarrow> nat \<Rightarrow> nat result" where
  "jaro_transpositions s1 s2 m1 m2 [] index2 t = ok t"
| "jaro_transpositions s1 s2 m1 m2 (index1 # is) index2 t =
     (if \<not> m1 ! index1 then jaro_transpositions s1 s2 m1 m2 is index2 t
      else case first_where (\<lambda>j. m2 ! j) [index2..<length m2] of
             None \<Rightarrow> raise IndexError
           | Some j \<Rightarrow>
               jaro_transpositions s1 s2 m1 m2 is (j + 1)
                 (if s1 ! index1 \<noteq> s2 ! j then t + 1 else t))"

definition jaro_value :: "nat \<Rightarrow> nat \<Rightarrow> nat \<Rightarrow> nat \<Rightarrow> f64" where
  "jaro_value matches len_s1 len_s2 transpositions =
     (let m = of_nat matches
      in fdiv (fadd (fadd (fdiv m (of_nat len_s1)) (fdiv m (of_nat len_s2)))
                    (fdiv (fsub m (fdiv (of_nat transpositions) 2)) m)) 3)"

definition jaro_similarity :: "string \<Rightarrow> string \<Rightarrow> f64 result" where
  "jaro_similarity s1 s2 =
     (if s1 = s2 then ok 1
      else if length s1 = 0 \<or> length s2 = 0 then ok 0
      else let (m1, m2, matches) = jaro_matches s1 s2
           in if matches = 0 then ok 0
              else try_bind (jaro_transpositions s1 s2 m1 m2 [0..<length s1] 0 0)
                (\<lambda>t. ok (jaro_value matches (length s1) (length s2) t)))"

section \<open>Jaro-Winkler similarity\<close>

fun common_prefix :: "nat \<Rightarrow> string \<Rightarrow> string \<Rightarrow> nat" where
  "common_prefix (Suc n) (x # xs) (y # ys) = (if x \<noteq> y then 0 else Suc (common_prefix n xs ys))"
| "common_prefix _ _ _ = 0"

definition PREFIX_WEIGHT :: f64 where
  "PREFIX_WEIGHT = fl (1 / 10)"

definition jaro_winkler_similarity :: "string \<Rightarrow> string \<Rightarrow> f64 result" where
  "jaro_winkler_similarity s1 s2 =
     (let normalized1 = py_strip (py_lower s1);
          normalized2 = py_strip (py_lower s2)
      in try_bind (jaro_similarity normalized1 normalized2)
           (\<lambda>jaro. let prefix_len = common_prefix 4 normalized1 normalized2
                   in ok (fadd jaro (fmul (fmul (of_nat prefix_len) PREFIX_WEIGHT)
                                          (fsub 1 jaro)))))"

section \<open>Names\<close>

definition NAME_INCOMING_FIELDS :: "string list" where
  "NAME_INCOMING_FIELDS = [''full_name'', ''preferred_name'', ''legal_name'']"

definition NAME_PARTIAL_THRESHOLD :: f64 where
  "NAME_PARTIAL_THRESHOLD = fl (50 / 100)"

definition incoming_names :: "normalized_attribute list \<Rightarrow> string list" where
  "incoming_names attributes =
     [nt_attribute_value a. a \<leftarrow> attributes, nt_attribute_name a \<in> set NAME_INCOMING_FIELDS]"

fun best_over :: "string \<Rightarrow> string list \<Rightarrow> f64 \<Rightarrow> f64 result" where
  "best_over inc [] best = ok best"
| "best_over inc (cand # cands) best =
     try_bind (jaro_winkler_similarity inc cand) (\<lambda>s. best_over inc cands (max best s))"

fun best_name_from :: "string list \<Rightarrow> string list \<Rightarrow> f64 \<Rightarrow> f64 result" where
  "best_name_from [] candidate_names best = ok best"
| "best_name_from (inc # incoming) candidate_names best =
     try_bind (best_over inc candidate_names best) (best_name_from incoming candidate_names)"

definition best_name_similarity :: "string list \<Rightarrow> string list \<Rightarrow> f64 result" where
  "best_name_similarity incoming candidate_names = best_name_from incoming candidate_names 0"

definition is_partial_name_match ::
    "normalized_attribute list \<Rightarrow> string list \<Rightarrow> bool option result" where
  "is_partial_name_match attributes candidate_names =
     (let inc = incoming_names attributes
      in if inc = [] \<or> candidate_names = [] then ok None
         else try_bind (best_name_similarity inc candidate_names)
                (\<lambda>s. ok (Some (NAME_PARTIAL_THRESHOLD \<le> s))))"

section \<open>Near-miss identifiers\<close>

definition PHONE_NSN_EDIT_DISTANCE_THRESHOLD :: nat where
  "PHONE_NSN_EDIT_DISTANCE_THRESHOLD = 1"

definition EMAIL_DOMAIN_EDIT_DISTANCE_THRESHOLD :: nat where
  "EMAIL_DOMAIN_EDIT_DISTANCE_THRESHOLD = 1"

definition EMAIL_LOCAL_PART_JW_THRESHOLD :: f64 where
  "EMAIL_LOCAL_PART_JW_THRESHOLD = fl (90 / 100)"

definition EMAIL_LOCAL_PART_MIN_LENGTH :: nat where
  "EMAIL_LOCAL_PART_MIN_LENGTH = 4"

definition EMAIL_KNOWN_DOMAINS :: "string list" where
  "EMAIL_KNOWN_DOMAINS =
     [''gmail.com'', ''hotmail.com'', ''hotmail.sg'', ''yahoo.com'', ''yahoo.com.sg'',
      ''outlook.com'', ''icloud.com'', ''live.com'']"

definition NON_GEOGRAPHIC_REGION :: string where
  "NON_GEOGRAPHIC_REGION = ''001''"

definition region_and_nsn :: "'n third_party \<Rightarrow> string \<Rightarrow> (string \<times> string) option" where
  "region_and_nsn tp value =
     (case pn_parse tp value None of
        None \<Rightarrow> None
      | Some parsed \<Rightarrow>
          (case pn_region_code tp parsed of
             None \<Rightarrow> None
           | Some region \<Rightarrow>
               if region = NON_GEOGRAPHIC_REGION then None
               else Some (region, pn_nsn tp parsed)))"

definition phone_near_match :: "'n third_party \<Rightarrow> string \<Rightarrow> string \<Rightarrow> bool" where
  "phone_near_match tp value1 value2 =
     (case (region_and_nsn tp value1, region_and_nsn tp value2) of
        (Some (region1, nsn1), Some (region2, nsn2)) \<Rightarrow>
          region1 = region2 \<and> osa_distance tp nsn1 nsn2 = PHONE_NSN_EDIT_DISTANCE_THRESHOLD
      | _ \<Rightarrow> False)"

definition split_email :: "string \<Rightarrow> (string \<times> string) option" where
  "split_email value =
     (case rpartition CHR ''@'' value of
        None \<Rightarrow> None
      | Some (local, domain) \<Rightarrow>
          if local = [] \<or> domain = [] then None else Some (local, domain))"

definition email_near_match :: "'n third_party \<Rightarrow> string \<Rightarrow> string \<Rightarrow> bool result" where
  "email_near_match tp value1 value2 =
     (case (split_email value1, split_email value2) of
        (Some (local1, domain1), Some (local2, domain2)) \<Rightarrow>
          if local1 = local2 \<and> domain1 \<noteq> domain2 then
            (if domain1 \<notin> set EMAIL_KNOWN_DOMAINS \<and> domain2 \<notin> set EMAIL_KNOWN_DOMAINS
             then ok False
             else ok (osa_distance tp domain1 domain2 = EMAIL_DOMAIN_EDIT_DISTANCE_THRESHOLD))
          else if domain1 = domain2 \<and> local1 \<noteq> local2 then
            (if length local1 < EMAIL_LOCAL_PART_MIN_LENGTH
                \<or> length local2 < EMAIL_LOCAL_PART_MIN_LENGTH
             then ok False
             else try_bind (jaro_winkler_similarity local1 local2)
                    (\<lambda>s. ok (EMAIL_LOCAL_PART_JW_THRESHOLD \<le> s)))
          else ok False
      | _ \<Rightarrow> ok False)"

section \<open>The similarity never raises and stays in the unit interval\<close>

definition jaro_inv :: "nat \<Rightarrow> nat \<Rightarrow> jaro_state \<Rightarrow> bool" where
  "jaro_inv n1 n2 st = (case st of (m1, m2, k) \<Rightarrow>
     length m1 = n1 \<and> length m2 = n2 \<and> count_list m1 True = k \<and> count_list m2 True = k)"

lemma count_list_update_True:
  "i < length m \<Longrightarrow> \<not> m ! i \<Longrightarrow> count_list (m[i := True]) True = Suc (count_list m True)"
proof (induction m arbitrary: i)
  case (Cons x m)
  then show ?case by (cases i) auto
qed simp

lemma jaro_step_inv:
  assumes "jaro_inv n1 (length s2) st" and "i < n1" and "\<not> fst st ! i"
  shows "jaro_inv n1 (length s2) (jaro_step s1 s2 d i st)"
    and "\<forall>j. j \<noteq> i \<longrightarrow> fst (jaro_step s1 s2 d i st) ! j = fst st ! j"
  using assms
  by (auto simp: jaro_inv_def jaro_step_def Let_def count_list_update_True split: option.splits
      dest!: first_where_Some)

lemma jaro_fold_inv:
  assumes "distinct is" "\<forall>i \<in> set is. i < n1 \<and> \<not> fst st ! i" "jaro_inv n1 (length s2) st"
  shows "jaro_inv n1 (length s2) (fold (jaro_step s1 s2 d) is st)"
  using assms
proof (induction "is" arbitrary: st)
  case (Cons i "is")
  have step: "jaro_inv n1 (length s2) (jaro_step s1 s2 d i st)"
    "\<forall>j. j \<noteq> i \<longrightarrow> fst (jaro_step s1 s2 d i st) ! j = fst st ! j"
    using jaro_step_inv [of n1 s2 st i s1 d] Cons.prems by simp_all
  have "jaro_inv n1 (length s2) (fold (jaro_step s1 s2 d) is (jaro_step s1 s2 d i st))"
    by (rule Cons.IH) (use Cons.prems step in auto)
  then show ?case by simp
qed simp

lemma count_list_replicate_False [simp]: "count_list (replicate n False) True = 0"
  by (induction n) simp_all

lemma jaro_matches_inv: "jaro_inv (length s1) (length s2) (jaro_matches s1 s2)"
  unfolding jaro_matches_def Let_def
  by (rule jaro_fold_inv) (auto simp: jaro_inv_def)

lemma count_list_le_length: "count_list xs x \<le> length xs"
  by (induction xs) auto

lemma first_where_upt_Some:
  assumes "first_where P [a..<b] = Some j"
  shows "a \<le> j" "j < b" "P j" "\<forall>i. a \<le> i \<longrightarrow> i < j \<longrightarrow> \<not> P i"
proof -
  from first_where_Some [OF assms] show "a \<le> j" "j < b" "P j" by auto
  show "\<forall>i. a \<le> i \<longrightarrow> i < j \<longrightarrow> \<not> P i"
    using assms
  proof (induction "b - a" arbitrary: a)
    case (Suc n)
    then have ab: "a < b" by simp
    show ?case
    proof (cases "P a")
      case True
      with Suc.prems ab show ?thesis by (simp add: upt_conv_Cons)
    next
      case False
      with Suc.prems ab have "first_where P [Suc a..<b] = Some j" by (simp add: upt_conv_Cons)
      moreover have "n = b - Suc a" using Suc.hyps(2) by simp
      ultimately have "\<forall>i. Suc a \<le> i \<longrightarrow> i < j \<longrightarrow> \<not> P i" using Suc.hyps(1) by blast
      with False show ?thesis by (metis Suc_leI le_neq_implies_less)
    qed
  qed simp
qed

lemma count_drop_step:
  assumes "a \<le> j" "j < length m" "m ! j" "\<forall>i. a \<le> i \<longrightarrow> i < j \<longrightarrow> \<not> m ! i"
  shows "count_list (drop a m) True = Suc (count_list (drop (Suc j) m) True)"
  using assms
proof (induction "j - a" arbitrary: a)
  case 0
  then have "a = j" by simp
  with 0 show ?case by (simp add: Cons_nth_drop_Suc [symmetric])
next
  case (Suc n)
  then have "a < j" "\<not> m ! a" by auto
  with Suc.prems have "drop a m = False # drop (Suc a) m"
    by (metis (full_types) Cons_nth_drop_Suc order_less_trans)
  moreover have "count_list (drop (Suc a) m) True = Suc (count_list (drop (Suc j) m) True)"
    using Suc by (intro Suc.hyps) auto
  ultimately show ?case by simp
qed

lemma first_where_upt_None:
  "first_where (\<lambda>j. m ! j) [a..<length m] = None \<Longrightarrow> count_list (drop a m) True = 0"
  by (auto simp: count_list_0_iff in_set_conv_nth)

lemma transpositions_total:
  "count_list (map (\<lambda>i. m1 ! i) is) True \<le> count_list (drop j m2) True \<Longrightarrow>
   \<exists>r. jaro_transpositions s1 s2 m1 m2 is j t = Inr r \<and> t \<le> r
       \<and> r \<le> t + count_list (map (\<lambda>i. m1 ! i) is) True"
proof (induction "is" arbitrary: j t)
  case (Cons i "is")
  show ?case
  proof (cases "m1 ! i")
    case False
    with Cons show ?thesis by simp
  next
    case True
    with Cons.prems have pos: "0 < count_list (drop j m2) True" by simp
    then obtain k where k: "first_where (\<lambda>j. m2 ! j) [j..<length m2] = Some k"
      using first_where_upt_None [of m2 j] by fastforce
    have "count_list (drop j m2) True = Suc (count_list (drop (Suc k) m2) True)"
      using first_where_upt_Some [OF k] by (intro count_drop_step) auto
    with Cons.prems True
    have le: "count_list (map (\<lambda>i. m1 ! i) is) True \<le> count_list (drop (Suc k) m2) True" by simp
    from Cons.IH [OF this, of "if s1 ! i \<noteq> s2 ! k then t + 1 else t"] True k
    show ?thesis by (auto split: if_splits)
  qed
qed simp

lemma fl_of_nat: "n \<le> 2 ^ 53 \<Longrightarrow> fl (of_nat n) = of_nat n"
  using fl_of_int [of "int n"] by simp

lemma fl_2 [simp]: "fl 2 = 2" and fl_3 [simp]: "fl 3 = 3"
  using fl_of_nat [of 2] fl_of_nat [of 3] by simp_all

lemma unit_quotient:
  "0 \<le> x \<Longrightarrow> x \<le> y \<Longrightarrow> 0 \<le> fdiv x y \<and> fdiv x y \<le> 1"
  unfolding fdiv_def
  by (cases "y = 0") (auto intro!: fl_round.nonneg fl_round.le_one simp: divide_le_eq_1)

lemma jaro_value_bounds:
  assumes "m \<le> a" "m \<le> b" "t \<le> m" "m \<le> 2 ^ 53"
  shows "0 \<le> jaro_value m a b t" and "jaro_value m a b t \<le> 1"
proof -
  let ?x = "fdiv (of_nat t) 2" and ?m = "of_nat m :: f64"
  let ?q1 = "fdiv ?m (of_nat a)" and ?q2 = "fdiv ?m (of_nat b)"
  let ?q3 = "fdiv (fsub ?m ?x) ?m"
  have x: "0 \<le> ?x" "?x \<le> ?m"
    using assms(3) fl_le_double [of "of_nat t / 2"]
    by (auto simp: fdiv_def intro: fl_round.nonneg order_trans)
  have d: "0 \<le> fsub ?m ?x" "fsub ?m ?x \<le> ?m"
    using x fl_of_nat [OF assms(4)]
    by (auto simp: fsub_def intro: fl_round.nonneg fl_round.le_value)
  have q1: "0 \<le> ?q1 \<and> ?q1 \<le> 1" and q2: "0 \<le> ?q2 \<and> ?q2 \<le> 1" and q3: "0 \<le> ?q3 \<and> ?q3 \<le> 1"
    using assms d by (intro unit_quotient; simp)+
  have s: "0 \<le> fadd ?q1 ?q2" "fadd ?q1 ?q2 \<le> 2"
    using q1 q2 by (auto simp: fadd_def intro: fl_round.nonneg fl_round.le_value)
  then have "0 \<le> fadd (fadd ?q1 ?q2) ?q3" "fadd (fadd ?q1 ?q2) ?q3 \<le> 3"
    using q3 by (auto simp: fadd_def intro: fl_round.nonneg fl_round.le_value)
  then show "0 \<le> jaro_value m a b t" and "jaro_value m a b t \<le> 1"
    unfolding jaro_value_def Let_def using unit_quotient by auto
qed

lemma map_nth_count: "length m = n \<Longrightarrow> count_list (map (\<lambda>i. m ! i) [0..<n]) True = count_list m True"
  by (metis map_nth)

text \<open>No branch of the similarity raises; its value is the closed form over the counts.\<close>

lemma jaro_similarity_cases:
  obtains (same) "jaro_similarity s1 s2 = Inr 1"
    | (none) "jaro_similarity s1 s2 = Inr 0"
    | (counted) m t where "jaro_similarity s1 s2 = Inr (jaro_value m (length s1) (length s2) t)"
        "0 < m" "m \<le> length s1" "m \<le> length s2" "t \<le> m"
proof -
  obtain m1 m2 k where st: "jaro_matches s1 s2 = (m1, m2, k)" by (cases "jaro_matches s1 s2") auto
  with jaro_matches_inv [of s1 s2] have inv: "length m1 = length s1" "length m2 = length s2"
    "count_list m1 True = k" "count_list m2 True = k"
    by (auto simp: jaro_inv_def)
  from inv have "k \<le> length s1" "k \<le> length s2" using count_list_le_length by metis+
  moreover from transpositions_total [of m1 "[0..<length s1]" 0 m2 s1 s2 0] inv
  obtain r where "jaro_transpositions s1 s2 m1 m2 [0..<length s1] 0 0 = Inr r" "r \<le> k"
    by (auto simp: map_nth_count)
  moreover from this(1) st have "jaro_similarity s1 s2 =
      (if s1 = s2 then Inr 1 else if s1 = [] \<or> s2 = [] \<or> k = 0 then Inr 0
       else Inr (jaro_value k (length s1) (length s2) r))"
    by (simp add: jaro_similarity_def)
  ultimately show thesis
    by (cases "s1 = s2"; cases "s1 = [] \<or> s2 = [] \<or> k = 0") (auto intro: that)
qed

lemma jaro_similarity_total: "\<exists>v. jaro_similarity s1 s2 = Inr v"
  by (cases rule: jaro_similarity_cases [of s1 s2]) auto

lemma jaro_similarity_bounds:
  assumes "length s1 \<le> 2 ^ 53" "jaro_similarity s1 s2 = Inr v"
  shows "0 \<le> v \<and> v \<le> 1"
  by (cases rule: jaro_similarity_cases [of s1 s2]) (use assms jaro_value_bounds in auto)

lemma jaro_winkler_total: "\<exists>v. jaro_winkler_similarity s1 s2 = Inr v"
  using jaro_similarity_total unfolding jaro_winkler_similarity_def Let_def
  by (metis ok_raise_simps(1) try_bind_simps(2))

lemma common_prefix_le: "common_prefix n xs ys \<le> n"
  by (induction n xs ys rule: common_prefix.induct) auto

lemma py_strip_length: "length (py_strip s) \<le> length s"
  by (simp add: py_strip_def py_lstrip_def py_rstrip_def)
     (metis length_dropWhile_le length_rev order_trans)

lemma prefix_bonus_bounds:
  assumes "k \<le> 4"
  shows "0 \<le> fmul (of_nat k) PREFIX_WEIGHT" and "fmul (of_nat k) PREFIX_WEIGHT \<le> 1 / 2"
proof -
  have w: "0 \<le> PREFIX_WEIGHT" "PREFIX_WEIGHT \<le> 1 / 8"
    by (simp_all add: PREFIX_WEIGHT_def fl_eval)
  then show "0 \<le> fmul (of_nat k) PREFIX_WEIGHT"
    by (simp add: fmul_def fl_round.nonneg)
  have "(of_nat k :: f64) \<le> 4" using assms by simp
  then have "of_nat k * PREFIX_WEIGHT \<le> 4 * (1 / 8)" using w by (intro mult_mono) simp_all
  then show "fmul (of_nat k) PREFIX_WEIGHT \<le> 1 / 2"
    unfolding fmul_def using fl_half [of 1] by (intro fl_round.le_value) simp_all
qed

lemma jaro_winkler_bounds:
  assumes "length s1 \<le> 2 ^ 53" "jaro_winkler_similarity s1 s2 = Inr v"
  shows "0 \<le> v \<and> v \<le> 1"
proof -
  let ?n1 = "py_strip (py_lower s1)" and ?n2 = "py_strip (py_lower s2)"
  have "length ?n1 \<le> 2 ^ 53"
    using assms(1) py_strip_length [of "py_lower s1"] by (simp add: py_lower_def)
  moreover obtain j where j: "jaro_similarity ?n1 ?n2 = Inr j"
    using jaro_similarity_total by blast
  ultimately have "0 \<le> j" "j \<le> 1" using jaro_similarity_bounds by blast+
  then show ?thesis
    using assms(2) j fl_round.convex_step
      [OF _ _ prefix_bonus_bounds [OF common_prefix_le [of 4 ?n1 ?n2]], of j]
    by (auto simp: jaro_winkler_similarity_def Let_def fadd_def fmul_def fsub_def)
qed

lemma best_over_total:
  "\<exists>v. best_over inc cands b = Inr v \<and> b \<le> v"
proof (induction cands arbitrary: b)
  case (Cons c cands)
  obtain s where s: "jaro_winkler_similarity inc c = Inr s" using jaro_winkler_total by blast
  from Cons [of "max b s"] s show ?case by auto
qed simp

lemma best_name_from_total: "\<exists>v. best_name_from incs cands b = Inr v \<and> b \<le> v"
proof (induction incs arbitrary: b)
  case (Cons i incs)
  obtain w where w: "best_over i cands b = Inr w" "b \<le> w" using best_over_total by blast
  with Cons [of w] show ?case by auto
qed simp

lemma best_name_total: "\<exists>v. best_name_similarity incs cands = Inr v \<and> 0 \<le> v"
  unfolding best_name_similarity_def by (rule best_name_from_total)

lemma best_over_upper:
  "best_over inc cands b = Inr v \<Longrightarrow> cand \<in> set cands \<Longrightarrow>
   jaro_winkler_similarity inc cand = Inr s \<Longrightarrow> s \<le> v"
proof (induction cands arbitrary: b)
  case (Cons c cands)
  from Cons.prems(1) obtain s' where s': "jaro_winkler_similarity inc c = Inr s'"
    "best_over inc cands (max b s') = Inr v" by (auto simp: try_bind_Inr_iff)
  with best_over_total [of inc cands "max b s'"] have "max b s' \<le> v" by auto
  with Cons s' show ?case by auto
qed simp

lemma best_name_from_upper:
  "best_name_from incs cands b = Inr v \<Longrightarrow> inc \<in> set incs \<Longrightarrow> cand \<in> set cands \<Longrightarrow>
   jaro_winkler_similarity inc cand = Inr s \<Longrightarrow> s \<le> v"
proof (induction incs arbitrary: b)
  case (Cons i incs)
  from Cons.prems(1) obtain w where w: "best_over i cands b = Inr w"
    "best_name_from incs cands w = Inr v" by (auto simp: try_bind_Inr_iff)
  with best_name_from_total [of incs cands w] have "w \<le> v" by auto
  with Cons w best_over_upper show ?case by fastforce
qed simp

lemma best_over_witness:
  "best_over inc cands b = Inr v \<Longrightarrow>
   v = b \<or> (\<exists>cand \<in> set cands. jaro_winkler_similarity inc cand = Inr v)"
proof (induction cands arbitrary: b)
  case (Cons c cands)
  from Cons.prems obtain s where s: "jaro_winkler_similarity inc c = Inr s"
    "best_over inc cands (max b s) = Inr v" by (auto simp: try_bind_Inr_iff)
  from Cons.IH [OF s(2)] s(1) show ?case by (auto simp: max_def split: if_splits)
qed simp

lemma best_name_from_witness:
  "best_name_from incs cands b = Inr v \<Longrightarrow>
   v = b \<or> (\<exists>inc \<in> set incs. \<exists>cand \<in> set cands. jaro_winkler_similarity inc cand = Inr v)"
proof (induction incs arbitrary: b)
  case (Cons i incs)
  from Cons.prems obtain w where w: "best_over i cands b = Inr w"
    "best_name_from incs cands w = Inr v" by (auto simp: try_bind_Inr_iff)
  from Cons.IH [OF w(2)] best_over_witness [OF w(1)] show ?case by auto
qed simp

lemma email_near_match_total: "\<exists>b. email_near_match tp v1 v2 = Inr b"
proof -
  have "\<exists>b. try_bind (jaro_winkler_similarity x y) (\<lambda>s. ok (EMAIL_LOCAL_PART_JW_THRESHOLD \<le> s)) = Inr b"
    for x y using jaro_winkler_total [of x y] by auto
  then show ?thesis
    unfolding email_near_match_def by (auto split: option.split prod.split)
qed

end
