(* ===== verification/Heuristic.thy ===== *)
theory Heuristic
  imports Graph SourceKeys Thresholds Similarity
begin

text \<open>
  Layer 2 of the match chain: the candidate snapshot (\<open>matching/snapshot.py\<close>), the additive
  scoring of phone, email, date of birth, name and address, the promotion per record type and
  the final band (\<open>matching/heuristic.py\<close>), and the scoring of a pair of existing persons
  (\<open>matching/pair_score.py\<close>).

  The scorers of the source mutate \<open>reasons\<close>, \<open>signals\<close> and the fan-out cache; the model
  threads them in the record \<open>scoring\<close>. Scores are binary64 (theory \<open>Float64\<close>).
\<close>

section \<open>Constants\<close>

definition IDENTIFIER_EVIDENCE_CAP :: f64 where "IDENTIFIER_EVIDENCE_CAP = fl (85 / 100)"
definition PHONE_FANOUT_PENALTY_THRESHOLD :: nat where "PHONE_FANOUT_PENALTY_THRESHOLD = 5"
definition PHONE_FANOUT_PENALTY :: f64 where "PHONE_FANOUT_PENALTY = - fl (25 / 100)"
definition PHONE_VERIFIED_WEIGHT :: f64 where "PHONE_VERIFIED_WEIGHT = fl (35 / 100)"
definition PHONE_UNVERIFIED_WEIGHT :: f64 where "PHONE_UNVERIFIED_WEIGHT = fl (20 / 100)"
definition EMAIL_VERIFIED_WEIGHT :: f64 where "EMAIL_VERIFIED_WEIGHT = fl (35 / 100)"
definition EMAIL_UNVERIFIED_WEIGHT :: f64 where "EMAIL_UNVERIFIED_WEIGHT = fl (20 / 100)"
definition PHONE_APPROX_WEIGHT :: f64 where "PHONE_APPROX_WEIGHT = fl (10 / 100)"
definition EMAIL_APPROX_WEIGHT :: f64 where "EMAIL_APPROX_WEIGHT = fl (10 / 100)"
definition DOB_MATCH_WEIGHT :: f64 where "DOB_MATCH_WEIGHT = fl (25 / 100)"
definition DOB_CONFLICT_PENALTY :: f64 where "DOB_CONFLICT_PENALTY = - fl (30 / 100)"
definition NAME_HIGH_THRESHOLD :: f64 where "NAME_HIGH_THRESHOLD = fl (80 / 100)"
definition NAME_HIGH_WEIGHT :: f64 where "NAME_HIGH_WEIGHT = fl (20 / 100)"
definition NAME_MEDIUM_THRESHOLD :: f64 where "NAME_MEDIUM_THRESHOLD = fl (50 / 100)"
definition NAME_MEDIUM_WEIGHT :: f64 where "NAME_MEDIUM_WEIGHT = fl (10 / 100)"
definition NAME_MISMATCH_THRESHOLD :: f64 where "NAME_MISMATCH_THRESHOLD = NAME_PARTIAL_THRESHOLD"
definition NAME_MISMATCH_PENALTY :: f64 where "NAME_MISMATCH_PENALTY = - fl (25 / 100)"
definition ADDRESS_MATCH_WEIGHT :: f64 where "ADDRESS_MATCH_WEIGHT = fl (10 / 100)"

definition CONFIDENCE_AUTO_MERGE :: f64 where "CONFIDENCE_AUTO_MERGE = DEFAULT_AUTO_MERGE"

definition CONVERSATION_NON_CORROBORATED_CAP :: f64 where
  "CONVERSATION_NON_CORROBORATED_CAP = fsub CONFIDENCE_AUTO_MERGE (fl (1 / 100))"

definition PROMOTED_CONFIDENCE :: f64 where "PROMOTED_CONFIDENCE = fl (91 / 100)"

definition CONVERSATION_PROMOTION_NAME_THRESHOLD :: f64 where
  "CONVERSATION_PROMOTION_NAME_THRESHOLD = fl (80 / 100)"

section \<open>The candidate snapshot\<close>

record candidate_snapshot =
  cs_idents :: "ident_row list"
  cs_facts :: "fact_row list"
  cs_addrs :: "string option list"

definition phones :: "candidate_snapshot \<Rightarrow> ident_row list" where
  "phones snap = [i \<leftarrow> cs_idents snap. ir_identifier_type i = ''phone'']"

definition emails :: "candidate_snapshot \<Rightarrow> ident_row list" where
  "emails snap = [i \<leftarrow> cs_idents snap. ir_identifier_type i = ''email'']"

definition phones_by_value :: "candidate_snapshot \<Rightarrow> (string \<times> ident_row) list" where
  "phones_by_value snap = dict_of [] [(ir_normalized_value i, i). i \<leftarrow> phones snap]"

definition emails_by_value :: "candidate_snapshot \<Rightarrow> (string \<times> ident_row) list" where
  "emails_by_value snap = dict_of [] [(ir_normalized_value i, i). i \<leftarrow> emails snap]"

text \<open>\<open>str(value)\<close> of an optional text.\<close>

fun str_of :: "string option \<Rightarrow> string" where
  "str_of None = ''None''"
| "str_of (Some v) = v"

definition names :: "candidate_snapshot \<Rightarrow> string list" where
  "names snap = [str_of (fr_attribute_value f). f \<leftarrow> cs_facts snap,
                   fr_attribute_name f \<in> {''full_name'', ''preferred_name'', ''legal_name''}]"

definition dobs :: "candidate_snapshot \<Rightarrow> string list" where
  "dobs snap = [str_of (fr_attribute_value f). f \<leftarrow> cs_facts snap, fr_attribute_name f = ''dob'']"

definition fetch_candidate_snapshot :: "graph \<Rightarrow> string \<Rightarrow> candidate_snapshot" where
  "fetch_candidate_snapshot g pid =
     \<lparr>cs_idents = FETCH_PERSON_MATCH_IDENTIFIERS g pid,
      cs_facts = FETCH_PERSON_MATCH_FACTS g pid,
      cs_addrs = FETCH_PERSON_MATCH_ADDRESSES g pid\<rparr>"

section \<open>Signals and scoring state\<close>

record heuristic_signals =
  hs_phone_exact_match :: bool
  hs_phone_approx_match :: bool
  hs_phone_high_fanout :: bool
  hs_email_exact_match :: bool
  hs_email_approx_match :: bool
  hs_dob_exact_match :: bool
  hs_dob_conflict :: bool
  hs_address_match :: bool
  hs_name_similarity :: "f64 option"
  hs_name_mismatch :: bool
  hs_identifier_evidence_raw :: f64
  hs_identifier_system_corroborated :: bool

definition no_signals :: heuristic_signals where
  "no_signals =
     \<lparr>hs_phone_exact_match = False, hs_phone_approx_match = False,
      hs_phone_high_fanout = False, hs_email_exact_match = False,
      hs_email_approx_match = False, hs_dob_exact_match = False, hs_dob_conflict = False,
      hs_address_match = False, hs_name_similarity = None, hs_name_mismatch = False,
      hs_identifier_evidence_raw = 0, hs_identifier_system_corroborated = False\<rparr>"

type_synonym fanout_cache = "string \<rightharpoonup> nat"

record scoring =
  sc_evidence :: f64
  sc_reasons :: "string list"
  sc_signals :: heuristic_signals
  sc_cache :: fanout_cache

definition add_evidence :: "f64 \<Rightarrow> scoring \<Rightarrow> scoring" where
  "add_evidence w st = st\<lparr>sc_evidence := fadd (sc_evidence st) w\<rparr>"

definition add_reason :: "string \<Rightarrow> scoring \<Rightarrow> scoring" where
  "add_reason r st = st\<lparr>sc_reasons := sc_reasons st @ [r]\<rparr>"

definition set_signals :: "(heuristic_signals \<Rightarrow> heuristic_signals) \<Rightarrow> scoring \<Rightarrow> scoring" where
  "set_signals f st = st\<lparr>sc_signals := f (sc_signals st)\<rparr>"

lemmas scoring_defs = add_evidence_def add_reason_def set_signals_def

section \<open>Identifiers\<close>

definition is_system_sourced :: "bool option \<Rightarrow> string option \<Rightarrow> bool" where
  "is_system_sourced compact_flag src_type =
     (case compact_flag of
        Some b \<Rightarrow> b
      | None \<Rightarrow> (case src_type of
                    None \<Rightarrow> False | Some t \<Rightarrow> t \<noteq> record_type_value CONVERSATION))"

definition verified_text :: "bool \<Rightarrow> string" where
  "verified_text verified = (if verified then ''verified'' else ''unverified'')"

text \<open>The fan-out of a phone: from the cache, or from the graph and then cached.\<close>

definition phone_fanout :: "graph \<Rightarrow> string \<Rightarrow> scoring \<Rightarrow> nat \<times> scoring" where
  "phone_fanout g v st =
     (case sc_cache st v of
        Some n \<Rightarrow> (n, st)
      | None \<Rightarrow> (let n = CHECK_IDENTIFIER_FANOUT g ''phone'' GLOBAL_IDENTIFIER_SCOPE v
                 in (n, st\<lparr>sc_cache := (sc_cache st)(v \<mapsto> n)\<rparr>)))"

definition score_phone :: "graph \<Rightarrow> normalized_identifier \<Rightarrow> ident_row \<Rightarrow> scoring \<Rightarrow> scoring" where
  "score_phone g ident cand_rec st =
     (let verified = (ni_is_verified ident \<and> ir_is_verified cand_rec);
          weight = (if verified then PHONE_VERIFIED_WEIGHT else PHONE_UNVERIFIED_WEIGHT);
          st = add_evidence weight st;
          st = set_signals (\<lambda>s. s\<lparr>hs_phone_exact_match := True,
                 hs_identifier_system_corroborated := hs_identifier_system_corroborated s
                   \<or> is_system_sourced (Some (ir_is_system_sourced cand_rec)) None\<rparr>) st;
          st = add_reason (''Phone match ('' @ verified_text verified @ '': +'' @ fmt2 weight @ '')'') st;
          (fanout, st) = phone_fanout g (ni_normalized_value ident) st
      in if PHONE_FANOUT_PENALTY_THRESHOLD < fanout
         then add_reason (''Phone '' @ ni_normalized_value ident @ '' seen on '' @ show_nat fanout
                @ '' persons ('' @ fmt2_signed PHONE_FANOUT_PENALTY @ '')'')
              (set_signals (\<lambda>s. s\<lparr>hs_phone_high_fanout := True\<rparr>)
                (add_evidence PHONE_FANOUT_PENALTY st))
         else st)"

definition score_email :: "normalized_identifier \<Rightarrow> ident_row \<Rightarrow> scoring \<Rightarrow> scoring" where
  "score_email ident cand_rec st =
     (let verified = (ni_is_verified ident \<and> ir_is_verified cand_rec);
          weight = (if verified then EMAIL_VERIFIED_WEIGHT else EMAIL_UNVERIFIED_WEIGHT);
          st = add_evidence weight st;
          st = set_signals (\<lambda>s. s\<lparr>hs_email_exact_match := True,
                 hs_identifier_system_corroborated := hs_identifier_system_corroborated s
                   \<or> is_system_sourced (Some (ir_is_system_sourced cand_rec)) None\<rparr>) st
      in add_reason (''Email match ('' @ verified_text verified @ '': +'' @ fmt2 weight @ '')'') st)"

definition score_identifier ::
    "graph \<Rightarrow> candidate_snapshot \<Rightarrow> normalized_identifier \<Rightarrow> scoring \<Rightarrow> scoring" where
  "score_identifier g snap ident st =
     (let v = ni_normalized_value ident;
          phone_rec = map_of (phones_by_value snap) v;
          email_rec = map_of (emails_by_value snap) v
      in if ni_identifier_type ident = ''phone'' \<and> phone_rec \<noteq> None
         then score_phone g ident (the phone_rec) st
         else if ni_identifier_type ident = ''email'' \<and> email_rec \<noteq> None
         then score_email ident (the email_rec) st
         else st)"

fun any_result :: "('a \<Rightarrow> bool result) \<Rightarrow> 'a list \<Rightarrow> bool result" where
  "any_result p [] = ok False"
| "any_result p (x # xs) = try_bind (p x) (\<lambda>b. if b then ok True else any_result p xs)"

text \<open>
  The second pass. Its weights are summed separately and added once at the end, as the source
  does, so the accumulator is kept apart from the exact evidence.
\<close>

definition score_approx ::
    "'n third_party \<Rightarrow> candidate_snapshot \<Rightarrow> normalized_identifier \<Rightarrow> scoring \<Rightarrow> scoring result" where
  "score_approx tp snap ident st =
     (let v = ni_normalized_value ident
      in if ni_identifier_type ident = ''phone'' \<and> v \<notin> fst ` set (phones_by_value snap) then
           (if \<not> hs_phone_approx_match (sc_signals st)
               \<and> list_ex (\<lambda>cand. phone_near_match tp v (ir_normalized_value cand)) (phones snap)
            then ok (add_reason (''Phone near-match (NSN edit-distance=1: +''
                        @ fmt2 PHONE_APPROX_WEIGHT @ '')'')
                   (set_signals (\<lambda>s. s\<lparr>hs_phone_approx_match := True\<rparr>)
                     (add_evidence PHONE_APPROX_WEIGHT st)))
            else ok st)
         else if ni_identifier_type ident = ''email'' \<and> v \<notin> fst ` set (emails_by_value snap) then
           (if hs_email_approx_match (sc_signals st) then ok st
            else try_bind
              (any_result (\<lambda>cand. email_near_match tp v (ir_normalized_value cand)) (emails snap))
              (\<lambda>near. if near
                 then ok (add_reason (''Email near-match (domain/local-part near-miss: +''
                             @ fmt2 EMAIL_APPROX_WEIGHT @ '')'')
                        (set_signals (\<lambda>s. s\<lparr>hs_email_approx_match := True\<rparr>)
                          (add_evidence EMAIL_APPROX_WEIGHT st)))
                 else ok st))
         else ok st)"

definition score_approx_identifiers ::
    "'n third_party \<Rightarrow> candidate_snapshot \<Rightarrow> normalized_identifier list \<Rightarrow> scoring \<Rightarrow> scoring result" where
  "score_approx_identifiers tp snap identifiers st = fold_result (score_approx tp snap) identifiers st"

definition score_identifiers ::
    "'n third_party \<Rightarrow> graph \<Rightarrow> candidate_snapshot \<Rightarrow> normalized_identifier list \<Rightarrow> scoring
     \<Rightarrow> scoring result" where
  "score_identifiers tp g snap identifiers st =
     (let exact = fold (score_identifier g snap) identifiers (st\<lparr>sc_evidence := 0\<rparr>)
      in try_bind (score_approx_identifiers tp snap identifiers (exact\<lparr>sc_evidence := 0\<rparr>))
           (\<lambda>approx. ok (approx\<lparr>sc_evidence := fadd (sc_evidence exact) (sc_evidence approx)\<rparr>)))"

definition cap_identifier_evidence :: "f64 \<Rightarrow> scoring \<Rightarrow> f64 \<times> scoring" where
  "cap_identifier_evidence raw st =
     (min raw IDENTIFIER_EVIDENCE_CAP,
      if IDENTIFIER_EVIDENCE_CAP < raw
      then add_reason (''Identifier evidence capped from '' @ fmt2 raw @ '' to 0.85'') st
      else st)"

section \<open>Date of birth, name, address\<close>

definition score_dob ::
    "normalized_attribute list \<Rightarrow> candidate_snapshot \<Rightarrow> scoring \<Rightarrow> f64 \<times> scoring" where
  "score_dob attributes snap st =
     (case ([nt_attribute_value a. a \<leftarrow> attributes, nt_attribute_name a = ''dob''], dobs snap) of
        (incoming # _, cand_dob # cand_rest) \<Rightarrow>
          if incoming \<in> set (cand_dob # cand_rest)
          then (DOB_MATCH_WEIGHT,
                add_reason (''DOB exact match (+'' @ fmt2 DOB_MATCH_WEIGHT @ '')'')
                  (set_signals (\<lambda>s. s\<lparr>hs_dob_exact_match := True\<rparr>) st))
          else (DOB_CONFLICT_PENALTY,
                add_reason (''DOB conflict: incoming='' @ incoming @ '', candidate='' @ cand_dob
                            @ '' ('' @ fmt2_signed DOB_CONFLICT_PENALTY @ '')'')
                  (set_signals (\<lambda>s. s\<lparr>hs_dob_conflict := True\<rparr>) st))
      | _ \<Rightarrow> (0, st))"

definition score_name :: "normalized_attribute list \<Rightarrow> candidate_snapshot \<Rightarrow> f64 result" where
  "score_name attributes snap =
     (let incoming = incoming_names attributes; cand_names = names snap
      in if incoming = [] \<or> cand_names = [] then ok 0
         else best_name_similarity incoming cand_names)"

definition score_name_band ::
    "f64 \<Rightarrow> normalized_attribute list \<Rightarrow> candidate_snapshot \<Rightarrow> scoring \<Rightarrow> f64 \<times> scoring" where
  "score_name_band best_sim attributes snap st =
     (if incoming_names attributes = [] \<or> names snap = [] then (0, st)
      else let st = set_signals (\<lambda>s. s\<lparr>hs_name_similarity := Some best_sim\<rparr>) st
           in if NAME_HIGH_THRESHOLD < best_sim
              then (NAME_HIGH_WEIGHT, add_reason (''High name similarity ('' @ fmt2 best_sim
                      @ '': +'' @ fmt2 NAME_HIGH_WEIGHT @ '')'') st)
              else if NAME_MEDIUM_THRESHOLD \<le> best_sim
              then (NAME_MEDIUM_WEIGHT, add_reason (''Medium name similarity ('' @ fmt2 best_sim
                      @ '': +'' @ fmt2 NAME_MEDIUM_WEIGHT @ '')'') st)
              else if best_sim < NAME_MISMATCH_THRESHOLD
              then (NAME_MISMATCH_PENALTY, add_reason (''Strong name mismatch ('' @ fmt2 best_sim
                      @ '': '' @ fmt2_signed NAME_MISMATCH_PENALTY @ '')'')
                      (set_signals (\<lambda>s. s\<lparr>hs_name_mismatch := True\<rparr>) st))
              else (0, st))"

definition score_address ::
    "normalized_address option \<Rightarrow> candidate_snapshot \<Rightarrow> scoring \<Rightarrow> f64 \<times> scoring" where
  "score_address address snap st =
     (case address of
        None \<Rightarrow> (0, st)
      | Some a \<Rightarrow>
          (let incoming_full = py_strip (py_lower (na_normalized_full a))
           in if cs_addrs snap = [] \<or> incoming_full = [] then (0, st)
              else if list_ex (\<lambda>c. incoming_full = py_strip (py_lower (or_empty c))) (cs_addrs snap)
              then (ADDRESS_MATCH_WEIGHT,
                    add_reason (''Address match (+'' @ fmt2 ADDRESS_MATCH_WEIGHT @ '')'')
                      (set_signals (\<lambda>s. s\<lparr>hs_address_match := True\<rparr>) st))
              else (0, st)))"

section \<open>Features, promotion, band\<close>

definition build_feature_snapshot :: "string \<Rightarrow> heuristic_signals \<Rightarrow> f64 \<Rightarrow> json_obj" where
  "build_feature_snapshot candidate_person_id s raw_score =
     [(''candidate_person_id'', JStr candidate_person_id),
      (''phone_exact_match'', JBool (hs_phone_exact_match s)),
      (''phone_approx_match'', JBool (hs_phone_approx_match s)),
      (''phone_high_fanout'', JBool (hs_phone_high_fanout s)),
      (''email_exact_match'', JBool (hs_email_exact_match s)),
      (''email_approx_match'', JBool (hs_email_approx_match s)),
      (''dob_exact_match'', JBool (hs_dob_exact_match s)),
      (''dob_conflict'', JBool (hs_dob_conflict s)),
      (''name_similarity'', (case hs_name_similarity s of None \<Rightarrow> JNull | Some x \<Rightarrow> JFloat x)),
      (''name_mismatch'', JBool (hs_name_mismatch s)),
      (''address_match'', JBool (hs_address_match s)),
      (''identifier_system_corroborated'', JBool (hs_identifier_system_corroborated s)),
      (''identifier_evidence_raw'', JFloat (hs_identifier_evidence_raw s)),
      (''identifier_evidence_capped'',
         JFloat (min (hs_identifier_evidence_raw s) IDENTIFIER_EVIDENCE_CAP)),
      (''raw_score'', JFloat raw_score),
      (''conversation_promotion'', JBool False)]"

fun float_feature :: "json \<Rightarrow> f64" where
  "float_feature (JInt i) = fl (of_int i)"
| "float_feature (JFloat x) = x"
| "float_feature (JBool b) = (if b then 1 else 0)"
| "float_feature _ = 0"

definition feature_is_true :: "json_obj \<Rightarrow> string \<Rightarrow> bool result" where
  "feature_is_true features k = try_bind (json_req features k) (\<lambda>v. ok (is_true v))"

definition can_promote_conversation :: "json_obj \<Rightarrow> bool result" where
  "can_promote_conversation features =
     try_bind (feature_is_true features ''phone_exact_match'') (\<lambda>phone_exact.
     try_bind (feature_is_true features ''email_exact_match'') (\<lambda>email_exact.
     (let high_name = CONVERSATION_PROMOTION_NAME_THRESHOLD
                        \<le> float_feature (json_get features ''name_similarity'')
      in try_bind (feature_is_true features ''address_match'') (\<lambda>address_match.
         try_bind (feature_is_true features ''dob_exact_match'') (\<lambda>dob_exact.
         try_bind (feature_is_true features ''identifier_system_corroborated'')
           (\<lambda>system_corroborated.
           (let has_identifier = (phone_exact \<or> email_exact);
                corroborated = ((phone_exact \<and> email_exact)
                  \<or> (has_identifier \<and> (high_name \<or> address_match \<or> dob_exact)))
            in ok (corroborated \<and> system_corroborated \<and> \<not> has_hard_conflict features))))))))"

definition capitalize :: "string \<Rightarrow> string" where
  "capitalize s = (case s of [] \<Rightarrow> [] | c # cs \<Rightarrow> upper_char c # py_lower cs)"

definition apply_promotion ::
    "f64 \<Rightarrow> string list \<Rightarrow> json_obj \<Rightarrow> string \<Rightarrow> f64 \<times> string list \<times> json_obj" where
  "apply_promotion confidence reasons features label =
     (PROMOTED_CONFIDENCE,
      reasons @ [capitalize label @ '' evidence promoted to merge''],
      AList.update ''pre_promotion_confidence'' (JFloat confidence)
        (AList.update ''promotion'' (JStr label)
          (AList.update ''conversation_promotion'' (JBool (label = ''conversation'')) features)))"

definition promote_by_record_type ::
    "record_type \<Rightarrow> f64 \<Rightarrow> string list \<Rightarrow> json_obj \<Rightarrow> (f64 \<times> string list \<times> json_obj) result" where
  "promote_by_record_type rt confidence reasons features =
     (if rt = CONVERSATION then
        try_bind (can_promote_conversation features) (\<lambda>can.
          if can then ok (apply_promotion confidence reasons features ''conversation'')
          else ok (min confidence CONVERSATION_NON_CORROBORATED_CAP, reasons, features))
      else if rt = RELATIONSHIP then
        try_bind (feature_is_true features ''phone_exact_match'') (\<lambda>phone.
          let partial_name = NAME_PARTIAL_THRESHOLD
                               \<le> float_feature (json_get features ''name_similarity'')
          in if phone \<and> partial_name \<and> \<not> has_hard_conflict features
             then ok (apply_promotion confidence reasons features ''relationship'')
             else ok (confidence, reasons, features))
      else ok (confidence, reasons, features))"

definition band_result ::
    "f64 \<Rightarrow> string list \<Rightarrow> string \<Rightarrow> json_obj \<Rightarrow> record_type \<Rightarrow> match_result" where
  "band_result confidence reasons candidate_person_id features rt =
     (let (auto_merge, review) = thresholds_for rt;
          hard_conflict = has_hard_conflict features;
          features = AList.update ''review_threshold'' (JFloat review)
            (AList.update ''auto_merge_threshold'' (JFloat auto_merge)
              (AList.update ''threshold_policy''
                 (JStr (if rt = RELATIONSHIP then ''relationship'' else ''default'')) features));
          decision = classify_confidence confidence rt hard_conflict
      in (mk_result decision confidence reasons HEURISTIC)
           \<lparr>mr_matched_person_id :=
              (if decision = MERGE \<or> decision = REVIEW then Some candidate_person_id else None),
            mr_feature_snapshot := features\<rparr>)"

section \<open>The layer as a whole\<close>

definition evaluate_snapshot ::
    "'n third_party \<Rightarrow> graph \<Rightarrow> candidate_snapshot \<Rightarrow> string \<Rightarrow> normalized_identifier list
     \<Rightarrow> normalized_address option \<Rightarrow> normalized_attribute list \<Rightarrow> record_type
     \<Rightarrow> fanout_cache \<Rightarrow> (match_result \<times> fanout_cache) result" where
  "evaluate_snapshot tp g snap pid identifiers address attributes rt cache =
     try_bind (score_identifiers tp g snap identifiers
                 \<lparr>sc_evidence = 0, sc_reasons = [], sc_signals = no_signals, sc_cache = cache\<rparr>)
       (\<lambda>st.
        let raw = sc_evidence st;
            st = set_signals (\<lambda>s. s\<lparr>hs_identifier_evidence_raw := raw\<rparr>) st;
            (capped, st) = cap_identifier_evidence raw st;
            (dob_score, st) = score_dob attributes snap st
        in try_bind (score_name attributes snap) (\<lambda>best_name_sim.
           let (name_score, st) = score_name_band best_name_sim attributes snap st;
               (address_score, st) = score_address address snap st;
               score = fadd (fadd (fadd (fadd 0 capped) dob_score) name_score) address_score;
               confidence = max 0 (min 1 score);
               features = build_feature_snapshot pid (sc_signals st) score
           in try_bind (promote_by_record_type rt confidence (sc_reasons st) features)
                (\<lambda>(confidence, reasons, features).
                   ok (band_result confidence reasons pid features rt, sc_cache st))))"

definition evaluate_heuristic ::
    "'n third_party \<Rightarrow> graph \<Rightarrow> string \<Rightarrow> normalized_identifier list
     \<Rightarrow> normalized_address option \<Rightarrow> normalized_attribute list \<Rightarrow> record_type
     \<Rightarrow> fanout_cache \<Rightarrow> (match_result \<times> fanout_cache) result" where
  "evaluate_heuristic tp g pid identifiers address attributes rt cache =
     evaluate_snapshot tp g (fetch_candidate_snapshot g pid) pid identifiers address attributes
       rt cache"

section \<open>Scoring a pair of persons\<close>

definition snapshot_identifiers :: "candidate_snapshot \<Rightarrow> normalized_identifier list" where
  "snapshot_identifiers snap =
     [(mk_identifier (ir_identifier_type r) (ir_normalized_value r))
        \<lparr>ni_is_verified := ir_is_verified r\<rparr>. r \<leftarrow> cs_idents snap]"

definition snapshot_attributes :: "candidate_snapshot \<Rightarrow> normalized_attribute list" where
  "snapshot_attributes snap =
     [mk_attribute (fr_attribute_name r) v. r \<leftarrow> cs_facts snap,
        v \<leftarrow> (case fr_attribute_value r of None \<Rightarrow> [] | Some v \<Rightarrow> [v])]"

fun first_address :: "string option list \<Rightarrow> normalized_address option" where
  "first_address [] = None"
| "first_address (None # rest) = first_address rest"
| "first_address (Some full # rest) =
     (if py_strip full \<noteq> [] then Some (mk_address full) else first_address rest)"

definition snapshot_address :: "candidate_snapshot \<Rightarrow> normalized_address option" where
  "snapshot_address snap = first_address (cs_addrs snap)"

definition score_person_pair ::
    "'n third_party \<Rightarrow> graph \<Rightarrow> string \<Rightarrow> string \<Rightarrow> match_result result" where
  "score_person_pair tp g left_person_id right_person_id =
     (let left = fetch_candidate_snapshot g left_person_id
      in try_bind (evaluate_heuristic tp g right_person_id (snapshot_identifiers left)
                     (snapshot_address left) (snapshot_attributes left) IDENTITY Map.empty)
           (\<lambda>(result, cache). ok result))"

section \<open>Features and promotion\<close>

lemma json_get_update [simp]:
  "json_get (AList.update k v d) k' = (if k' = k then v else json_get d k')"
  by (simp add: json_get_def update_conv')

lemma json_req_update [simp]:
  "json_req (AList.update k v d) k' = (if k' = k then Inr v else json_req d k')"
  by (simp add: json_req_def update_conv')

lemma hard_conflict_update [simp]:
  "k \<notin> {''dob_conflict'', ''name_mismatch'', ''phone_high_fanout''} \<Longrightarrow>
   has_hard_conflict (AList.update k v d) = has_hard_conflict d"
  by (auto simp: has_hard_conflict_def)

lemma feature_snapshot_hard_conflict [simp]:
  "has_hard_conflict (build_feature_snapshot pid s raw) =
     (hs_dob_conflict s \<or> hs_name_mismatch s \<or> hs_phone_high_fanout s)"
  by (simp add: has_hard_conflict_def build_feature_snapshot_def json_get_def)

definition promotable :: "heuristic_signals \<Rightarrow> bool" where
  "promotable s =
     (((hs_phone_exact_match s \<and> hs_email_exact_match s)
       \<or> ((hs_phone_exact_match s \<or> hs_email_exact_match s)
          \<and> ((case hs_name_similarity s of None \<Rightarrow> CONVERSATION_PROMOTION_NAME_THRESHOLD \<le> 0
                | Some x \<Rightarrow> CONVERSATION_PROMOTION_NAME_THRESHOLD \<le> x)
             \<or> hs_address_match s \<or> hs_dob_exact_match s)))
      \<and> hs_identifier_system_corroborated s
      \<and> \<not> (hs_dob_conflict s \<or> hs_name_mismatch s \<or> hs_phone_high_fanout s))"

lemma can_promote_features:
  "can_promote_conversation (build_feature_snapshot pid s raw) = Inr (promotable s)"
  by (simp add: can_promote_conversation_def feature_is_true_def json_req_def json_get_def Let_def promotable_def
      build_feature_snapshot_def[of pid s raw] has_hard_conflict_def split: option.split)

lemma promote_features:
  "promote_by_record_type rt c rs (build_feature_snapshot pid s raw) = Inr (
     (let features = build_feature_snapshot pid s raw in
      if rt = CONVERSATION then
        (if promotable s then apply_promotion c rs features ''conversation''
         else (min c CONVERSATION_NON_CORROBORATED_CAP, rs, features))
      else if rt = RELATIONSHIP \<and> hs_phone_exact_match s
           \<and> (case hs_name_similarity s of None \<Rightarrow> NAME_PARTIAL_THRESHOLD \<le> 0
                | Some x \<Rightarrow> NAME_PARTIAL_THRESHOLD \<le> x)
           \<and> \<not> (hs_dob_conflict s \<or> hs_name_mismatch s \<or> hs_phone_high_fanout s)
      then apply_promotion c rs features ''relationship''
      else (c, rs, features)))"
proof -
  have a: "feature_is_true (build_feature_snapshot pid s raw) ''phone_exact_match'' = Inr (hs_phone_exact_match s)"
    by (simp add: feature_is_true_def json_req_def build_feature_snapshot_def)
  have b: "json_get (build_feature_snapshot pid s raw) ''name_similarity'' =
     (case hs_name_similarity s of None \<Rightarrow> JNull | Some x \<Rightarrow> JFloat x)"
    by (simp add: json_get_def build_feature_snapshot_def)
  show ?thesis
    by (simp add: promote_by_record_type_def can_promote_features a b Let_def split: option.split)
qed

lemma score_phone_signals: 
  "sc_signals (score_phone g i row st) = (sc_signals st)
     \<lparr>hs_phone_exact_match := True,
      hs_identifier_system_corroborated := hs_identifier_system_corroborated (sc_signals st) \<or> ir_is_system_sourced row,
      hs_phone_high_fanout := hs_phone_high_fanout (sc_signals st) \<or>
        PHONE_FANOUT_PENALTY_THRESHOLD < fst (phone_fanout g (ni_normalized_value i) st)\<rparr>"
  by (auto simp: score_phone_def scoring_defs Let_def phone_fanout_def is_system_sourced_def split: option.splits)

lemma score_email_signals: 
  "sc_signals (score_email i row st) = (sc_signals st)
     \<lparr>hs_email_exact_match := True,
      hs_identifier_system_corroborated := hs_identifier_system_corroborated (sc_signals st) \<or> ir_is_system_sourced row\<rparr>"
  by (auto simp: score_email_def scoring_defs Let_def is_system_sourced_def)

section \<open>What the identifier passes establish\<close>

lemma score_identifier_cases:
  obtains (phone) row where "ni_identifier_type i = ''phone''"
      "map_of (phones_by_value snap) (ni_normalized_value i) = Some row"
      "\<And>st. score_identifier g snap i st = score_phone g i row st"
    | (email) row where "ni_identifier_type i = ''email''"
      "map_of (emails_by_value snap) (ni_normalized_value i) = Some row"
      "\<And>st. score_identifier g snap i st = score_email i row st"
    | (skip) "\<And>st. score_identifier g snap i st = st"
  by (cases "map_of (phones_by_value snap) (ni_normalized_value i)";
      cases "map_of (emails_by_value snap) (ni_normalized_value i)";
      cases "ni_identifier_type i = ''phone''"; cases "ni_identifier_type i = ''email''")
     (auto simp: score_identifier_def Let_def intro: that)

lemma map_of_dict_of:
  "map_of (dict_of d kvs) = map_of d ++ map_of (rev kvs)"
  by (induction d kvs rule: dict_of.induct) (auto simp: update_conv' fun_eq_iff map_add_def split: option.splits)

lemma phones_by_value_Some:
  "map_of (phones_by_value snap) v = Some row \<Longrightarrow>
   row \<in> set (cs_idents snap) \<and> ir_identifier_type row = ''phone'' \<and> ir_normalized_value row = v"
  by (auto simp: phones_by_value_def map_of_dict_of phones_def dest!: map_of_SomeD)

lemma emails_by_value_Some:
  "map_of (emails_by_value snap) v = Some row \<Longrightarrow>
   row \<in> set (cs_idents snap) \<and> ir_identifier_type row = ''email'' \<and> ir_normalized_value row = v"
  by (auto simp: emails_by_value_def map_of_dict_of emails_def dest!: map_of_SomeD)

text \<open>An incoming identifier the candidate owns, asserted by a system source.\<close>

definition system_match :: "candidate_snapshot \<Rightarrow> normalized_identifier list \<Rightarrow> bool" where
  "system_match snap ids = list_ex (\<lambda>i. list_ex (\<lambda>row.
     ir_identifier_type row = ni_identifier_type i \<and> ir_normalized_value row = ni_normalized_value i
     \<and> ir_identifier_type row \<in> {''phone'', ''email''} \<and> ir_is_system_sourced row) (cs_idents snap)) ids"

definition exact_match :: "string \<Rightarrow> candidate_snapshot \<Rightarrow> normalized_identifier list \<Rightarrow> bool" where
  "exact_match ty snap ids = list_ex (\<lambda>i. ni_identifier_type i = ty \<and> list_ex (\<lambda>row.
     ir_identifier_type row = ty \<and> ir_normalized_value row = ni_normalized_value i) (cs_idents snap)) ids"

lemma exact_signals:
  "let s = sc_signals st; s' = sc_signals (fold (score_identifier g snap) ids st) in
     (hs_identifier_system_corroborated s' \<longrightarrow> hs_identifier_system_corroborated s \<or> system_match snap ids)
   \<and> (hs_phone_exact_match s' \<longrightarrow> hs_phone_exact_match s \<or> exact_match ''phone'' snap ids)
   \<and> (hs_email_exact_match s' \<longrightarrow> hs_email_exact_match s \<or> exact_match ''email'' snap ids)
   \<and> hs_name_similarity s' = hs_name_similarity s \<and> hs_dob_conflict s' = hs_dob_conflict s
   \<and> hs_name_mismatch s' = hs_name_mismatch s"
proof (induction ids arbitrary: st)
  case Nil
  then show ?case by (simp add: Let_def)
next
  case (Cons i ids)
  show ?case
  proof (cases rule: score_identifier_cases [of i snap g])
    case (phone row)
    with phones_by_value_Some [OF phone(2)] Cons [of "score_phone g i row st"] show ?thesis
      by (auto simp: Let_def score_phone_signals system_match_def exact_match_def list_ex_iff)
  next
    case (email row)
    with emails_by_value_Some [OF email(2)] Cons [of "score_email i row st"] show ?thesis
      by (auto simp: Let_def score_email_signals system_match_def exact_match_def list_ex_iff)
  next
    case skip
    with Cons [of st] show ?thesis
      by (auto simp: Let_def system_match_def exact_match_def)
  qed
qed

definition exact_signals_of :: "heuristic_signals \<Rightarrow> bool \<times> bool \<times> bool \<times> bool \<times> bool \<times> bool \<times> f64 option" where
  "exact_signals_of s = (hs_phone_exact_match s, hs_email_exact_match s, hs_phone_high_fanout s,
     hs_identifier_system_corroborated s, hs_dob_conflict s, hs_name_mismatch s, hs_name_similarity s)"

lemma any_result_total: "(\<And>x. \<exists>b. p x = Inr b) \<Longrightarrow> \<exists>b. any_result p xs = Inr (b::bool)"
proof (induction xs)
  case (Cons x xs)
  from Cons.prems [of x] obtain b where "p x = Inr b" by blast
  with Cons.IH [OF Cons.prems] show ?case by (cases b) auto
qed auto

lemma score_approx_total:
  "\<exists>st'. score_approx tp snap i st = Inr st' \<and> exact_signals_of (sc_signals st') = exact_signals_of (sc_signals st)
      \<and> sc_cache st' = sc_cache st"
proof -
  obtain b where "any_result (\<lambda>cand. email_near_match tp (ni_normalized_value i) (ir_normalized_value cand)) (emails snap) = Inr b"
    using any_result_total [where p = "\<lambda>cand. email_near_match tp (ni_normalized_value i) (ir_normalized_value cand)", OF email_near_match_total] by blast
  then show ?thesis
    by (cases b) (simp_all add: score_approx_def Let_def scoring_defs exact_signals_of_def)
qed

lemma score_approx_identifiers_total:
  "\<exists>st'. score_approx_identifiers tp snap ids st = Inr st' \<and> exact_signals_of (sc_signals st') = exact_signals_of (sc_signals st)
      \<and> sc_cache st' = sc_cache st"
  unfolding score_approx_identifiers_def
proof (induction ids arbitrary: st)
  case (Cons i ids)
  obtain st1 where "score_approx tp snap i st = Inr st1" "exact_signals_of (sc_signals st1) = exact_signals_of (sc_signals st)"
      "sc_cache st1 = sc_cache st"
    using score_approx_total by blast
  with Cons [of st1] show ?case by simp
qed simp

lemma score_identifiers_total:
  obtains st' where "score_identifiers tp g snap ids st = Inr st'"
    "exact_signals_of (sc_signals st') = exact_signals_of (sc_signals (fold (score_identifier g snap) ids (st\<lparr>sc_evidence := 0\<rparr>)))"
    "sc_cache st' = sc_cache (fold (score_identifier g snap) ids (st\<lparr>sc_evidence := 0\<rparr>))"
proof -
  let ?e = "fold (score_identifier g snap) ids (st\<lparr>sc_evidence := 0\<rparr>)"
  obtain a where "score_approx_identifiers tp snap ids (?e\<lparr>sc_evidence := 0\<rparr>) = Inr a"
    "exact_signals_of (sc_signals a) = exact_signals_of (sc_signals ?e)" "sc_cache a = sc_cache ?e"
    using score_approx_identifiers_total [of tp snap ids "?e\<lparr>sc_evidence := 0\<rparr>"] by auto
  then show ?thesis by (intro that [of "a\<lparr>sc_evidence := fadd (sc_evidence ?e) (sc_evidence a)\<rparr>"])
    (simp_all add: score_identifiers_def Let_def)
qed



definition identity_signals :: "heuristic_signals \<Rightarrow> bool \<times> bool \<times> bool \<times> bool" where
  "identity_signals s = (hs_phone_exact_match s, hs_email_exact_match s, hs_phone_high_fanout s,
     hs_identifier_system_corroborated s)"

definition same_identity :: "scoring \<Rightarrow> scoring \<Rightarrow> bool" where
  "same_identity a b = (identity_signals (sc_signals a) = identity_signals (sc_signals b) \<and> sc_cache a = sc_cache b)"

lemma later_stages_keep_identity:
  "same_identity (set_signals (\<lambda>s. s\<lparr>hs_identifier_evidence_raw := raw\<rparr>) st) st"
  "same_identity (snd (cap_identifier_evidence x st)) st"
  "same_identity (snd (score_dob attrs snap st)) st"
  "same_identity (snd (score_name_band sim attrs snap st)) st"
  "same_identity (snd (score_address addr snap st)) st"
  by (auto simp: cap_identifier_evidence_def score_dob_def score_name_band_def score_address_def Let_def
      scoring_defs same_identity_def identity_signals_def split: list.splits option.splits)

lemma score_name_total: "\<exists>v. score_name attrs snap = Inr v \<and> 0 \<le> v"
  using best_name_total by (auto simp: score_name_def Let_def)

lemma evaluate_snapshot_total:
  obtains st0 st1 score where
    "score_identifiers tp g snap ids \<lparr>sc_evidence = 0, sc_reasons = [], sc_signals = no_signals, sc_cache = cache\<rparr> = Inr st0"
    "same_identity st1 st0"
    "evaluate_snapshot tp g snap pid ids addr attrs rt cache =
       try_bind (promote_by_record_type rt (max 0 (min 1 score)) (sc_reasons st1) (build_feature_snapshot pid (sc_signals st1) score))
         (\<lambda>(confidence, reasons, features). ok (band_result confidence reasons pid features rt, sc_cache st0))"
proof -
  obtain st0 where st0: "score_identifiers tp g snap ids \<lparr>sc_evidence = 0, sc_reasons = [], sc_signals = no_signals, sc_cache = cache\<rparr> = Inr st0"
    by (rule score_identifiers_total)
  obtain sim where sim: "score_name attrs snap = Inr sim" using score_name_total by blast
  let ?a = "set_signals (\<lambda>s. s\<lparr>hs_identifier_evidence_raw := sc_evidence st0\<rparr>) st0"
  obtain capped b where b: "cap_identifier_evidence (sc_evidence st0) ?a = (capped, b)" by force
  obtain dob c where c: "score_dob attrs snap b = (dob, c)" by force
  obtain ns d where d: "score_name_band sim attrs snap c = (ns, d)" by force
  obtain as e where e: "score_address addr snap d = (as, e)" by force
  have "same_identity e st0"
    using later_stages_keep_identity(1) [of "sc_evidence st0" st0]
      later_stages_keep_identity(2) [of "sc_evidence st0" ?a] later_stages_keep_identity(3) [of attrs snap b]
      later_stages_keep_identity(4) [of sim attrs snap c] later_stages_keep_identity(5) [of addr snap d] b c d e
    by (simp add: same_identity_def)
  moreover from this have "sc_cache e = sc_cache st0" by (simp add: same_identity_def)
  moreover note st0
  ultimately show ?thesis
    by (intro that [of st0 e "fadd (fadd (fadd (fadd 0 capped) dob) ns) as"])
       (simp_all add: evaluate_snapshot_def st0 sim b c d e Let_def)
qed

section \<open>The fan-out cache\<close>

text \<open>A cache is coherent when its entries are what the graph answers.\<close>

definition coherent_cache :: "graph \<Rightarrow> fanout_cache \<Rightarrow> bool" where
  "coherent_cache g c = (\<forall>v n. c v = Some n \<longrightarrow> n = CHECK_IDENTIFIER_FANOUT g ''phone'' GLOBAL_IDENTIFIER_SCOPE v)"

definition same_but_cache :: "graph \<Rightarrow> scoring \<Rightarrow> scoring \<Rightarrow> bool" where
  "same_but_cache g a b = (coherent_cache g (sc_cache a) \<and> coherent_cache g (sc_cache b) \<and> a\<lparr>sc_cache := Map.empty\<rparr> = b\<lparr>sc_cache := Map.empty\<rparr>)"

lemma same_but_cacheD:
  assumes "same_but_cache g a b"
  shows "sc_evidence a = sc_evidence b" "sc_reasons a = sc_reasons b" "sc_signals a = sc_signals b"
    "coherent_cache g (sc_cache a)" "coherent_cache g (sc_cache b)"
  using assms by (auto simp: same_but_cache_def)
     (metis scoring.select_convs(1,2,3) scoring.surjective scoring.update_convs(4))+

lemma same_but_cacheI:
  assumes "sc_evidence a = sc_evidence b" "sc_reasons a = sc_reasons b" "sc_signals a = sc_signals b"
    "coherent_cache g (sc_cache a)" "coherent_cache g (sc_cache b)"
  shows "same_but_cache g a b"
  using assms by (simp add: same_but_cache_def)

lemma phone_fanout_coherent:
  assumes "coherent_cache g (sc_cache st)"
  shows "fst (phone_fanout g v st) = CHECK_IDENTIFIER_FANOUT g ''phone'' GLOBAL_IDENTIFIER_SCOPE v"
    and "coherent_cache g (sc_cache (snd (phone_fanout g v st)))"
    and "sc_evidence (snd (phone_fanout g v st)) = sc_evidence st" "sc_reasons (snd (phone_fanout g v st)) = sc_reasons st"
     "sc_signals (snd (phone_fanout g v st)) = sc_signals st"
  using assms by (auto simp: phone_fanout_def coherent_cache_def Let_def split: option.splits)

lemma score_phone_same:
  assumes "same_but_cache g a b"
  shows "same_but_cache g (score_phone g i row a) (score_phone g i row b)"
proof -
  note eqs = same_but_cacheD [OF assms]
  define w where "w = (if ni_is_verified i \<and> ir_is_verified row then PHONE_VERIFIED_WEIGHT else PHONE_UNVERIFIED_WEIGHT)"
  define prep where "prep st = add_reason (''Phone match ('' @ verified_text (ni_is_verified i \<and> ir_is_verified row) @ '': +'' @ fmt2 w @ '')'')
     (set_signals (\<lambda>s. s\<lparr>hs_phone_exact_match := True,
                 hs_identifier_system_corroborated := hs_identifier_system_corroborated s
                   \<or> is_system_sourced (Some (ir_is_system_sourced row)) None\<rparr>) (add_evidence w st))" for st
  have p: "same_but_cache g (prep a) (prep b)"
    using eqs by (intro same_but_cacheI) (simp_all add: prep_def scoring_defs)
  note q = same_but_cacheD [OF p]
  define n where "n = CHECK_IDENTIFIER_FANOUT g ''phone'' GLOBAL_IDENTIFIER_SCOPE (ni_normalized_value i)"
  define fin where "fin st = (if PHONE_FANOUT_PENALTY_THRESHOLD < n
         then add_reason (''Phone '' @ ni_normalized_value i @ '' seen on '' @ show_nat n
                @ '' persons ('' @ fmt2_signed PHONE_FANOUT_PENALTY @ '')'')
              (set_signals (\<lambda>s. s\<lparr>hs_phone_high_fanout := True\<rparr>)
                (add_evidence PHONE_FANOUT_PENALTY st)) else st)" for st
  have phone: "score_phone g i row st = fin (snd (phone_fanout g (ni_normalized_value i) (prep st)))"
    if "coherent_cache g (sc_cache (prep st))" for st
    using phone_fanout_coherent(1) [OF that, of "ni_normalized_value i"]
    by (simp add: score_phone_def Let_def fin_def n_def prep_def w_def case_prod_beta)
  have f: "same_but_cache g (fin u) (fin v)" if "same_but_cache g u v" for u v
    using same_but_cacheD [OF that] by (intro same_but_cacheI) (simp_all add: fin_def scoring_defs)
  show ?thesis
    unfolding phone [OF q(4)] phone [OF q(5)]
    by (rule f, rule same_but_cacheI) (simp_all add: phone_fanout_coherent q)
qed

lemma score_email_same:
  "same_but_cache g a b \<Longrightarrow> same_but_cache g (score_email i row a) (score_email i row b)"
  using same_but_cacheD [of g a b]
  by (intro same_but_cacheI) (simp_all add: score_email_def Let_def scoring_defs)

lemma score_identifier_same:
  "same_but_cache g a b \<Longrightarrow> same_but_cache g (score_identifier g snap i a) (score_identifier g snap i b)"
  by (cases rule: score_identifier_cases [of i snap g]) (simp_all add: score_phone_same score_email_same)

lemma fold_score_identifier_same:
  "same_but_cache g a b \<Longrightarrow> same_but_cache g (fold (score_identifier g snap) ids a) (fold (score_identifier g snap) ids b)"
  by (induction ids arbitrary: a b) (simp_all add: score_identifier_same)

definition with_cache :: "fanout_cache \<Rightarrow> scoring \<Rightarrow> scoring" where
  "with_cache c st = st\<lparr>sc_cache := c\<rparr>"

lemma with_cache_commutes [simp]:
  "sc_evidence (with_cache c st) = sc_evidence st" "sc_reasons (with_cache c st) = sc_reasons st"
  "sc_signals (with_cache c st) = sc_signals st" "sc_cache (with_cache c st) = c"
  "add_evidence w (with_cache c st) = with_cache c (add_evidence w st)"
  "add_reason r (with_cache c st) = with_cache c (add_reason r st)"
  "set_signals f (with_cache c st) = with_cache c (set_signals f st)"
  "(with_cache c st)\<lparr>sc_evidence := x\<rparr> = with_cache c (st\<lparr>sc_evidence := x\<rparr>)"
  by (simp_all add: with_cache_def scoring_defs)

lemma score_approx_with_cache:
  "score_approx tp snap i (with_cache c st) = try_bind (score_approx tp snap i st) (\<lambda>s. Inr (with_cache c s))"
  by (cases "any_result (\<lambda>cand. email_near_match tp (ni_normalized_value i) (ir_normalized_value cand)) (emails snap)")
     (simp_all add: score_approx_def Let_def)

lemma try_bind_assoc: "try_bind (try_bind r f) h = try_bind r (\<lambda>x. try_bind (f x) h)"
  by (cases r) simp_all

lemma score_approx_identifiers_with_cache:
  "score_approx_identifiers tp snap ids (with_cache c st) =
     try_bind (score_approx_identifiers tp snap ids st) (\<lambda>s. Inr (with_cache c s))"
  unfolding score_approx_identifiers_def
  by (induction ids arbitrary: st) (simp_all add: score_approx_with_cache try_bind_assoc)

lemma later_stages_with_cache:
  "cap_identifier_evidence raw (with_cache c st) = (let (x, s) = cap_identifier_evidence raw st in (x, with_cache c s))"
  "score_name_band sim attrs snap (with_cache c st) = (let (x, s) = score_name_band sim attrs snap st in (x, with_cache c s))"
  "score_address addr snap (with_cache c st) = (let (x, s) = score_address addr snap st in (x, with_cache c s))"
  by (simp_all add: cap_identifier_evidence_def score_name_band_def score_address_def Let_def
      split: option.splits)

lemma score_dob_with_cache:
  "score_dob attrs snap (with_cache c st) = (let (x, s) = score_dob attrs snap st in (x, with_cache c s))"
  unfolding score_dob_def Let_def
  by (cases "[nt_attribute_value a. a \<leftarrow> attrs, nt_attribute_name a = ''dob'']"; cases "dobs snap")
     (simp_all del: concat_eq_Nil_conv)

lemma same_but_cache_with: "same_but_cache g a b \<Longrightarrow> a = with_cache (sc_cache a) b"
  using same_but_cacheD [of g a b] by (cases a; cases b) (simp add: with_cache_def)

lemma score_identifiers_same:
  assumes "same_but_cache g a b"
  shows "\<exists>c. coherent_cache g c \<and> score_identifiers tp g snap ids a =
           try_bind (score_identifiers tp g snap ids b) (\<lambda>s. Inr (with_cache c s))"
proof -
  let ?fold = "\<lambda>st. fold (score_identifier g snap) ids (st\<lparr>sc_evidence := 0\<rparr>)"
  have "same_but_cache g (a\<lparr>sc_evidence := 0\<rparr>) (b\<lparr>sc_evidence := 0\<rparr>)"
    using same_but_cacheD [OF assms] by (intro same_but_cacheI) simp_all
  from fold_score_identifier_same [OF this, of snap ids]
  have same: "same_but_cache g (?fold a) (?fold b)" .
  then have eq: "?fold a = with_cache (sc_cache (?fold a)) (?fold b)" by (rule same_but_cache_with)
  have "score_identifiers tp g snap ids a =
      try_bind (score_identifiers tp g snap ids b) (\<lambda>s. Inr (with_cache (sc_cache (?fold a)) s))"
    unfolding score_identifiers_def Let_def
    by (subst (1 2) eq) (simp add: score_approx_identifiers_with_cache try_bind_assoc)
  with same_but_cacheD(4) [OF same] show ?thesis by blast
qed

lemma coherent_empty [simp]: "coherent_cache g Map.empty"
  by (simp add: coherent_cache_def)

lemma try_bind_pointwise: "(\<And>x. f x = h x) \<Longrightarrow> try_bind r f = try_bind r h"
  by (cases r) simp_all

lemma evaluate_snapshot_cache:
  assumes "coherent_cache g cache"
  shows "\<exists>c. coherent_cache g c \<and> evaluate_snapshot tp g snap pid ids addr attrs rt cache =
     try_bind (evaluate_snapshot tp g snap pid ids addr attrs rt Map.empty) (\<lambda>(r, _). Inr (r, c))"
proof -
  let ?st = "\<lambda>c. \<lparr>sc_evidence = 0, sc_reasons = [], sc_signals = no_signals, sc_cache = c\<rparr>"
  have "same_but_cache g (?st cache) (?st Map.empty)"
    using assms by (intro same_but_cacheI) simp_all
  from score_identifiers_same [OF this] obtain c where c: "coherent_cache g c"
    "score_identifiers tp g snap ids (?st cache) =
       try_bind (score_identifiers tp g snap ids (?st Map.empty)) (\<lambda>s. Inr (with_cache c s))" by blast
  then have "evaluate_snapshot tp g snap pid ids addr attrs rt cache =
     try_bind (evaluate_snapshot tp g snap pid ids addr attrs rt Map.empty) (\<lambda>(r, _). Inr (r, c))"
    unfolding evaluate_snapshot_def c(2)
    by (cases "score_identifiers tp g snap ids (?st Map.empty)"; cases "score_name attrs snap")
       (simp_all add: try_bind_assoc later_stages_with_cache score_dob_with_cache Let_def split_beta,
        intro try_bind_pointwise, simp add: split_beta)
  with c(1) show ?thesis by blast
qed

section \<open>The shape of a run\<close>

lemma promotion_threshold_pos: "0 < CONVERSATION_PROMOTION_NAME_THRESHOLD" "0 < NAME_PARTIAL_THRESHOLD"
  by (simp_all add: CONVERSATION_PROMOTION_NAME_THRESHOLD_def NAME_PARTIAL_THRESHOLD_def fl_pos)

lemma promoted_confidence_bounds: "0 \<le> PROMOTED_CONFIDENCE" "PROMOTED_CONFIDENCE \<le> 1"
  by (simp_all add: PROMOTED_CONFIDENCE_def fl_round.nonneg fl_round.le_one)

lemma conversation_cap_value: "0 \<le> CONVERSATION_NON_CORROBORATED_CAP" "CONVERSATION_NON_CORROBORATED_CAP < DEFAULT_AUTO_MERGE"
  by (simp_all add: CONVERSATION_NON_CORROBORATED_CAP_def CONFIDENCE_AUTO_MERGE_def threshold_values fsub_def fl_eval)

lemma band_result_simps:
  "mr_decision (band_result c rs pid f rt) = classify_confidence c rt (has_hard_conflict f)"
  "mr_confidence (band_result c rs pid f rt) = c"
  "mr_engine_type (band_result c rs pid f rt) = HEURISTIC"
  "mr_matched_person_id (band_result c rs pid f rt) =
     (if mr_decision (band_result c rs pid f rt) = NO_MATCH then None else Some pid)"
  "has_hard_conflict (mr_feature_snapshot (band_result c rs pid f rt)) = has_hard_conflict f"
  "mr_additional_linked_person_ids (band_result c rs pid f rt) = []"
  "mr_review_candidate_person_ids (band_result c rs pid f rt) = []"
  "mr_proposed_person_id (band_result c rs pid f rt) = None"
  "mr_is_new_person (band_result c rs pid f rt) = False"
  by (cases "classify_confidence c rt (has_hard_conflict f)";
      simp add: band_result_def Let_def case_prod_beta mk_result_def)+

definition final_confidence :: "record_type \<Rightarrow> heuristic_signals \<Rightarrow> f64 \<Rightarrow> f64" where
  "final_confidence rt s c =
     (if rt = CONVERSATION then (if promotable s then PROMOTED_CONFIDENCE else min c CONVERSATION_NON_CORROBORATED_CAP)
      else if rt = RELATIONSHIP \<and> hs_phone_exact_match s
           \<and> (case hs_name_similarity s of None \<Rightarrow> False | Some x \<Rightarrow> NAME_PARTIAL_THRESHOLD \<le> x)
           \<and> \<not> (hs_dob_conflict s \<or> hs_name_mismatch s \<or> hs_phone_high_fanout s)
      then PROMOTED_CONFIDENCE else c)"

lemma promote_features_shape:
  "\<exists>reasons features. promote_by_record_type rt c rs (build_feature_snapshot pid s raw) =
       Inr (final_confidence rt s c, reasons, features)
     \<and> has_hard_conflict features = (hs_dob_conflict s \<or> hs_name_mismatch s \<or> hs_phone_high_fanout s)"
  using promotion_threshold_pos
  by (auto simp: promote_features final_confidence_def apply_promotion_def Let_def split: option.split)

text \<open>What a run of the layer is: it never raises, and its result is a band of the final confidence.\<close>

lemma evaluate_snapshot_shape:
  obtains st0 s c reasons features where
    "score_identifiers tp g snap ids \<lparr>sc_evidence = 0, sc_reasons = [], sc_signals = no_signals, sc_cache = cache\<rparr> = Inr st0"
    "identity_signals s = identity_signals (sc_signals st0)" "0 \<le> c" "c \<le> 1"
    "evaluate_snapshot tp g snap pid ids addr attrs rt cache =
       Inr (band_result (final_confidence rt s c) reasons pid features rt, sc_cache st0)"
    "has_hard_conflict features = (hs_dob_conflict s \<or> hs_name_mismatch s \<or> hs_phone_high_fanout s)"
proof -
  obtain st0 st1 score where a:
    "score_identifiers tp g snap ids \<lparr>sc_evidence = 0, sc_reasons = [], sc_signals = no_signals, sc_cache = cache\<rparr> = Inr st0"
    "same_identity st1 st0"
    "evaluate_snapshot tp g snap pid ids addr attrs rt cache =
       try_bind (promote_by_record_type rt (max 0 (min 1 score)) (sc_reasons st1) (build_feature_snapshot pid (sc_signals st1) score))
         (\<lambda>(confidence, reasons, features). ok (band_result confidence reasons pid features rt, sc_cache st0))"
    by (rule evaluate_snapshot_total)
  obtain reasons features where f: "promote_by_record_type rt (max 0 (min 1 score)) (sc_reasons st1)
      (build_feature_snapshot pid (sc_signals st1) score) = Inr (final_confidence rt (sc_signals st1) (max 0 (min 1 score)), reasons, features)"
    "has_hard_conflict features = (hs_dob_conflict (sc_signals st1) \<or> hs_name_mismatch (sc_signals st1) \<or> hs_phone_high_fanout (sc_signals st1))"
    using promote_features_shape by blast
  show ?thesis
    by (rule that [OF a(1), of "sc_signals st1" "max 0 (min 1 score)" reasons features]) (use a(2) in \<open>simp_all add: a(3) f same_identity_def\<close>)
qed

lemma final_confidence_bounds:
  "0 \<le> c \<Longrightarrow> c \<le> 1 \<Longrightarrow> 0 \<le> final_confidence rt s c \<and> final_confidence rt s c \<le> 1"
  using promoted_confidence_bounds conversation_cap_value
  by (auto simp: final_confidence_def min_def threshold_values)

lemma identifier_key_Some_eq [simp]: "Some k = identifier_key n \<longleftrightarrow> n = IdentifierN (fst k) (fst (snd k)) (snd (snd k))"
  by (cases n) (auto simp: prod_eq_iff)

lemma match_identifier_rows:
  assumes "row \<in> set (FETCH_PERSON_MATCH_IDENTIFIERS g pid)" "ir_is_system_sourced row"
  obtains rel where "rel \<in> set (out_edges g IDENTIFIED_BY (PersonN pid))" "rel_active rel"
    "identifier_matches (ir_identifier_type row) (ir_normalized_value row) (e_dst rel)" "system_sourced_edge g rel"
proof -
  from assms obtain k where k: "list_ex (\<lambda>(ty, v, rel). (ty, v) = k \<and> system_sourced_edge g rel) (match_ident_edges g pid)"
     "ir_identifier_type row = fst k" "ir_normalized_value row = snd k"
    by (auto simp: FETCH_PERSON_MATCH_IDENTIFIERS_def Let_def)
  then show ?thesis
    by (auto simp: list_ex_iff match_ident_edges_def identifier_matches_def intro!: that split: option.splits)
qed

lemma system_match_graph:
  assumes "system_match (fetch_candidate_snapshot g pid) ids"
  shows "\<exists>i \<in> set ids. \<exists>rel \<in> set (out_edges g IDENTIFIED_BY (PersonN pid)). rel_active rel
      \<and> identifier_matches (ni_identifier_type i) (ni_normalized_value i) (e_dst rel) \<and> system_sourced_edge g rel"
proof -
  from assms obtain i row where i: "i \<in> set ids" "row \<in> set (FETCH_PERSON_MATCH_IDENTIFIERS g pid)"
     "ir_is_system_sourced row" "ir_identifier_type row = ni_identifier_type i" "ir_normalized_value row = ni_normalized_value i"
    by (auto simp: system_match_def list_ex_iff fetch_candidate_snapshot_def)
  from match_identifier_rows [OF i(2,3)] i show ?thesis by metis
qed

lemma identity_signals_from_exact:
  assumes "score_identifiers tp g snap ids \<lparr>sc_evidence = 0, sc_reasons = [], sc_signals = no_signals, sc_cache = cache\<rparr> = Inr st0"
    and "identity_signals s = identity_signals (sc_signals st0)"
  shows "hs_identifier_system_corroborated s \<Longrightarrow> system_match snap ids"
    and "hs_phone_exact_match s \<Longrightarrow> exact_match ''phone'' snap ids"
    and "hs_email_exact_match s \<Longrightarrow> exact_match ''email'' snap ids"
proof -
  let ?st = "\<lparr>sc_evidence = 0, sc_reasons = [], sc_signals = no_signals, sc_cache = cache\<rparr>"
  obtain st' where "score_identifiers tp g snap ids ?st = Inr st'"
    "exact_signals_of (sc_signals st') = exact_signals_of (sc_signals (fold (score_identifier g snap) ids (?st\<lparr>sc_evidence := 0\<rparr>)))"
    by (rule score_identifiers_total)
  with assms exact_signals [of ?st g snap ids]
  show "hs_identifier_system_corroborated s \<Longrightarrow> system_match snap ids"
    and "hs_phone_exact_match s \<Longrightarrow> exact_match ''phone'' snap ids"
    and "hs_email_exact_match s \<Longrightarrow> exact_match ''email'' snap ids"
    by (auto simp: Let_def no_signals_def exact_signals_of_def identity_signals_def)
qed

lemma conversation_not_promoted_review:
  "mr_decision (band_result (min c CONVERSATION_NON_CORROBORATED_CAP) rs pid f CONVERSATION) \<noteq> MERGE"
  using conversation_cap_value
  by (auto simp: band_result_simps classify_default default_band.band_def min_def)

lemma fanout_penalised_phone:
  "fadd (fadd (fadd 0 PHONE_VERIFIED_WEIGHT) PHONE_FANOUT_PENALTY) 0 = 900719925474099 / 9007199254740992"
  by (simp add: PHONE_VERIFIED_WEIGHT_def PHONE_FANOUT_PENALTY_def fadd_def fl_eval)

lemma fanout_penalised_phone_below:
  "fadd (fadd (fadd (fadd 0 (900719925474099 / 9007199254740992)) 0) 0) 0 = 900719925474099 / 9007199254740992"
  "900719925474099 / 9007199254740992 < RELATIONSHIP_REVIEW"
  "900719925474099 < RELATIONSHIP_REVIEW * 9007199254740992"
  "min (900719925474099 / 9007199254740992) IDENTIFIER_EVIDENCE_CAP = 900719925474099 / 9007199254740992"
  "\<not> IDENTIFIER_EVIDENCE_CAP < 900719925474099 / 9007199254740992"
  "max 0 (min 1 (900719925474099 / 9007199254740992)) = (900719925474099 / 9007199254740992 :: f64)"
  by (simp_all add: fadd_def IDENTIFIER_EVIDENCE_CAP_def threshold_values fl_eval)

section \<open>A concrete run\<close>

definition sample_tp :: "unit third_party" where
  "sample_tp = \<lparr>osa_distance = (\<lambda>a b. if a = b then 0 else 2), pn_parse = (\<lambda>_ _. None), pn_region_code = (\<lambda>_. None),
     pn_nsn = (\<lambda>_. []), pn_is_valid = (\<lambda>_. False), pn_format_e164 = (\<lambda>_. [])\<rparr>"

definition sample_ident :: "string \<Rightarrow> string \<Rightarrow> edge" where
  "sample_ident ty v = \<lparr>e_type = IDENTIFIED_BY, e_src = PersonN ''p1'', e_dst = IdentifierN ty ''global'' v,
     e_props = [(''is_verified'', JBool True), (''source_record_pk'', JStr ''sr1''), (''quality_flag'', JStr ''valid'')]\<rparr>"

definition sample_graph :: graph where
  "sample_graph = \<lparr>g_nodes = [(PersonN ''p1'', [(''status'', JStr ''active'')]),
       (SourceRecordN ''sr1'', [(''record_type'', JStr ''identity'')])],
     g_edges = [sample_ident ''phone'' ''+6591234567'', sample_ident ''email'' ''ann@x.sg'', sample_ident ''nric'' ''S1234567D'']\<rparr>"

definition sample_incoming :: "normalized_identifier list" where
  "sample_incoming = [(mk_identifier ''phone'' ''+6591234567'')\<lparr>ni_is_verified := True\<rparr>,
     (mk_identifier ''email'' ''ann@x.sg'')\<lparr>ni_is_verified := True\<rparr>]"

lemma sample_snapshot: "fetch_candidate_snapshot sample_graph ''p1'' =
   \<lparr>cs_idents = [\<lparr>ir_identifier_type = ''phone'', ir_normalized_value = ''+6591234567'', ir_is_verified = True, ir_is_system_sourced = True\<rparr>,
      \<lparr>ir_identifier_type = ''email'', ir_normalized_value = ''ann@x.sg'', ir_is_verified = True, ir_is_system_sourced = True\<rparr>],
    cs_facts = [], cs_addrs = []\<rparr>"
  by (simp add: fetch_candidate_snapshot_def FETCH_PERSON_MATCH_IDENTIFIERS_def match_ident_edges_def out_edges_def sample_graph_def
      sample_ident_def has_node_def rel_active_def edge_prop_def json_get_def system_sourced_edge_def node_prop_def
      FETCH_PERSON_MATCH_FACTS_def FETCH_PERSON_MATCH_ADDRESSES_def)

lemma sample_lookups:
  "phones_by_value (fetch_candidate_snapshot sample_graph ''p1'') =
     [(''+6591234567'', \<lparr>ir_identifier_type = ''phone'', ir_normalized_value = ''+6591234567'', ir_is_verified = True, ir_is_system_sourced = True\<rparr>)]"
  "emails_by_value (fetch_candidate_snapshot sample_graph ''p1'') =
     [(''ann@x.sg'', \<lparr>ir_identifier_type = ''email'', ir_normalized_value = ''ann@x.sg'', ir_is_verified = True, ir_is_system_sourced = True\<rparr>)]"
  "CHECK_IDENTIFIER_FANOUT sample_graph ''phone'' GLOBAL_IDENTIFIER_SCOPE ''+6591234567'' = 1"
proof -
  show "CHECK_IDENTIFIER_FANOUT sample_graph ''phone'' GLOBAL_IDENTIFIER_SCOPE ''+6591234567'' = 1"
    by (simp add: CHECK_IDENTIFIER_FANOUT_def sample_graph_def sample_ident_def GLOBAL_IDENTIFIER_SCOPE_def
      active_person_def node_prop_def json_get_def rel_active_def edge_prop_def)
qed (simp_all add: sample_snapshot phones_by_value_def phones_def emails_by_value_def emails_def)

lemma score_phone_evidence:
  "sc_evidence (score_phone g i row st) =
     (let e = fadd (sc_evidence st) (if ni_is_verified i \<and> ir_is_verified row then PHONE_VERIFIED_WEIGHT else PHONE_UNVERIFIED_WEIGHT)
      in if PHONE_FANOUT_PENALTY_THRESHOLD < fst (phone_fanout g (ni_normalized_value i) st) then fadd e PHONE_FANOUT_PENALTY else e)"
  by (auto simp: score_phone_def scoring_defs Let_def phone_fanout_def split: option.splits)

lemma score_email_evidence:
  "sc_evidence (score_email i row st) =
     fadd (sc_evidence st) (if ni_is_verified i \<and> ir_is_verified row then EMAIL_VERIFIED_WEIGHT else EMAIL_UNVERIFIED_WEIGHT)"
  by (simp add: score_email_def scoring_defs Let_def)

lemma sample_identifiers:
  "\<exists>st. score_identifiers sample_tp sample_graph (fetch_candidate_snapshot sample_graph ''p1'') sample_incoming
     \<lparr>sc_evidence = 0, sc_reasons = [], sc_signals = no_signals, sc_cache = Map.empty\<rparr> = Inr st
   \<and> sc_signals st = no_signals\<lparr>hs_phone_exact_match := True, hs_email_exact_match := True, hs_identifier_system_corroborated := True\<rparr>
   \<and> sc_evidence st = fadd (fadd (fadd 0 PHONE_VERIFIED_WEIGHT) EMAIL_VERIFIED_WEIGHT) 0"
  by (simp add: score_phone_evidence score_email_evidence score_identifiers_def sample_incoming_def score_identifier_def mk_identifier_def score_approx_identifiers_def
      score_approx_def sample_lookups score_phone_signals score_email_signals phone_fanout_def PHONE_FANOUT_PENALTY_THRESHOLD_def
      no_signals_def Let_def)

lemma sample_run:
  "\<exists>r c. evaluate_heuristic sample_tp sample_graph ''p1'' sample_incoming None [] CONVERSATION Map.empty = Inr (r, c)
     \<and> mr_decision r = MERGE"
proof -
  obtain st where st: "score_identifiers sample_tp sample_graph (fetch_candidate_snapshot sample_graph ''p1'') sample_incoming
     \<lparr>sc_evidence = 0, sc_reasons = [], sc_signals = no_signals, sc_cache = Map.empty\<rparr> = Inr st"
    "sc_signals st = no_signals\<lparr>hs_phone_exact_match := True, hs_email_exact_match := True, hs_identifier_system_corroborated := True\<rparr>"
    using sample_identifiers by blast
  have merge: "DEFAULT_AUTO_MERGE \<le> PROMOTED_CONFIDENCE"
    by (simp add: threshold_values PROMOTED_CONFIDENCE_def fl_eval)
  have empty: "dobs (fetch_candidate_snapshot sample_graph ''p1'') = []" "names (fetch_candidate_snapshot sample_graph ''p1'') = []"
    by (simp_all add: sample_snapshot dobs_def names_def)
  show ?thesis
    unfolding evaluate_heuristic_def evaluate_snapshot_def st(1)
    by (simp add: st(2) cap_identifier_evidence_def scoring_defs score_dob_def empty
     score_name_def incoming_names_def score_name_band_def score_address_def Let_def
     promote_features no_signals_def band_result_simps classify_default default_band.band_merge_iff promotable_def merge apply_promotion_def)
qed

lemma sample_run_relationship:
  "\<exists>r c. evaluate_heuristic sample_tp sample_graph ''p1'' sample_incoming None [] RELATIONSHIP Map.empty = Inr (r, c)
     \<and> mr_decision r = MERGE"
proof -
  obtain st where st: "score_identifiers sample_tp sample_graph (fetch_candidate_snapshot sample_graph ''p1'') sample_incoming
     \<lparr>sc_evidence = 0, sc_reasons = [], sc_signals = no_signals, sc_cache = Map.empty\<rparr> = Inr st"
    "sc_signals st = no_signals\<lparr>hs_phone_exact_match := True, hs_email_exact_match := True, hs_identifier_system_corroborated := True\<rparr>"
    "sc_evidence st = fadd (fadd (fadd 0 PHONE_VERIFIED_WEIGHT) EMAIL_VERIFIED_WEIGHT) 0"
    using sample_identifiers by blast
  have raw: "sc_evidence st = 3152519739159347 / 4503599627370496"
    by (simp add: st(3) PHONE_VERIFIED_WEIGHT_def EMAIL_VERIFIED_WEIGHT_def fadd_def fl_eval)
  have final: "\<not> IDENTIFIER_EVIDENCE_CAP < 3152519739159347 / 4503599627370496"
    "RELATIONSHIP_AUTO_MERGE \<le> max 0 (min 1 (fadd (fadd (fadd (fadd 0 (3152519739159347 / 4503599627370496)) 0) 0) 0))"
    by (simp_all add: fadd_def IDENTIFIER_EVIDENCE_CAP_def threshold_values fl_eval)
  have empty: "dobs (fetch_candidate_snapshot sample_graph ''p1'') = []" "names (fetch_candidate_snapshot sample_graph ''p1'') = []"
    by (simp_all add: sample_snapshot dobs_def names_def)
  from final(1) have capped: "min (3152519739159347 / 4503599627370496) IDENTIFIER_EVIDENCE_CAP = 3152519739159347 / 4503599627370496"
    by simp
  show ?thesis
    unfolding evaluate_heuristic_def evaluate_snapshot_def st(1)
    by (simp only: try_bind_simps raw cap_identifier_evidence_def capped final(1) if_False Let_def prod.case)
       (simp only: scoring_defs score_dob_def empty score_name_def incoming_names_def score_name_band_def score_address_def Let_def
          promote_features no_signals_def band_result_simps classify_relationship relationship_band.band_merge_iff st(2)
          list.case list.map concat.simps option.case prod.case try_bind_simps ok_raise_simps simp_thms if_True if_False
          final(2), simp add: promotion_threshold_pos [THEN linorder_not_le [THEN iffD2]] final(2) band_result_simps classify_relationship relationship_band.band_merge_iff)
qed

text \<open>A conversation record merges on system-sourced evidence only.\<close>

lemma conversation_merge_evidence:
  assumes "evaluate_heuristic tp g pid ids addr attrs CONVERSATION cache = Inr (r, cache')"
    and "mr_decision r = MERGE"
  shows "(\<exists>i \<in> set ids. \<exists>rel \<in> set (out_edges g IDENTIFIED_BY (PersonN pid)). rel_active rel
            \<and> identifier_matches (ni_identifier_type i) (ni_normalized_value i) (e_dst rel)
            \<and> system_sourced_edge g rel)
         \<and> \<not> has_hard_conflict (mr_feature_snapshot r)"
proof (cases rule: evaluate_snapshot_shape [of tp g "fetch_candidate_snapshot g pid" ids cache pid addr attrs CONVERSATION])
  case (1 st0 s c reasons features)
  with assms have r: "r = band_result (final_confidence CONVERSATION s c) reasons pid features CONVERSATION"
    by (simp add: evaluate_heuristic_def)
  have p: "promotable s"
    using assms(2) conversation_not_promoted_review by (auto simp: r final_confidence_def split: if_splits)
  then show ?thesis
    using identity_signals_from_exact(1) [OF 1(1,2)] system_match_graph
    by (auto simp: r band_result_simps promotable_def 1(6))
qed

section \<open>Properties\<close>

text \<open>C9: the heuristic layer never raises: for every graph, candidate, identifiers, address,
  attributes, record type and fan-out cache it returns a result whose confidence lies between 0
  and 1, whose decision is the band of that confidence (with the hard conflicts its own features
  show), and which names the candidate exactly when it is a review or a merge.\<close>

theorem heuristic_total:
  "\<exists>r cache'. evaluate_heuristic tp g pid ids addr attrs rt cache = Inr (r, cache')
     \<and> 0 \<le> mr_confidence r \<and> mr_confidence r \<le> 1
     \<and> mr_decision r = classify_confidence (mr_confidence r) rt (has_hard_conflict (mr_feature_snapshot r))
     \<and> mr_matched_person_id r = (if mr_decision r = NO_MATCH then None else Some pid)"
proof (cases rule: evaluate_snapshot_shape [of tp g "fetch_candidate_snapshot g pid" ids cache pid addr attrs rt])
  case (1 st0 s c reasons features)
  show ?thesis
    unfolding evaluate_heuristic_def 1(5)
    using final_confidence_bounds [OF 1(3,4), of rt s] by (simp add: band_result_simps)
qed

text \<open>C10: a conversation record merges into a person only on an identifier the person already holds
  from a source other than a conversation, by an active relationship, and only without a hard
  conflict (date of birth, name, or a phone shared by too many persons).\<close>

theorem conversation_merge_is_system_corroborated:
  assumes "evaluate_heuristic tp g pid ids addr attrs CONVERSATION cache = Inr (r, cache')"
    and "mr_decision r = MERGE"
  shows "(\<exists>i \<in> set ids. \<exists>rel \<in> set (out_edges g IDENTIFIED_BY (PersonN pid)). rel_active rel
            \<and> identifier_matches (ni_identifier_type i) (ni_normalized_value i) (e_dst rel)
            \<and> system_sourced_edge g rel)
         \<and> \<not> has_hard_conflict (mr_feature_snapshot r)"
  by (rule conversation_merge_evidence [OF assms])

text \<open>A relationship record merges only when its features show no hard conflict and its
  confidence reaches the relationship threshold.\<close>

theorem relationship_merge_has_no_conflict:
  assumes "evaluate_heuristic tp g pid ids addr attrs RELATIONSHIP cache = Inr (r, cache')"
    and "mr_decision r = MERGE"
  shows "\<not> has_hard_conflict (mr_feature_snapshot r) \<and> RELATIONSHIP_AUTO_MERGE \<le> mr_confidence r"
proof (cases rule: evaluate_snapshot_shape [of tp g "fetch_candidate_snapshot g pid" ids cache pid addr attrs RELATIONSHIP])
  case (1 st0 s c reasons features)
  with assms show ?thesis
    by (auto simp: evaluate_heuristic_def band_result_simps classify_relationship relationship_band.band_merge_iff)
qed

text \<open>The fan-out cache shared between candidates is transparent: a cache that holds what the
  graph answers yields the result an empty cache yields, and it stays so.\<close>

theorem fanout_cache_transparent:
  assumes "coherent_cache g cache"
  shows "\<exists>r cache1 cache2. evaluate_heuristic tp g pid ids addr attrs rt cache = Inr (r, cache1)
           \<and> evaluate_heuristic tp g pid ids addr attrs rt Map.empty = Inr (r, cache2)
           \<and> coherent_cache g cache1"
proof (cases rule: evaluate_snapshot_shape [of tp g "fetch_candidate_snapshot g pid" ids Map.empty pid addr attrs rt])
  case (1 st0 s c reasons features)
  then show ?thesis
    using evaluate_snapshot_cache [OF assms, of tp "fetch_candidate_snapshot g pid" pid ids addr attrs rt]
    by (auto simp: evaluate_heuristic_def)
qed

text \<open>Rounding in binary64 costs a band: a relationship record whose only evidence is a verified
  phone shared by more than five persons scores 0.35 - 0.25, which is the review threshold 0.10 in
  decimals but falls below it in floating point, so the code answers no match.\<close>

theorem relationship_band_lost_to_rounding:
  assumes "5 < n" and "ni_identifier_type i = ''phone''" and "ni_is_verified i"
    and "ir_identifier_type row = ''phone''" and "ir_normalized_value row = ni_normalized_value i" and "ir_is_verified row"
  shows "\<exists>r cache'. evaluate_snapshot tp g \<lparr>cs_idents = [row], cs_facts = [], cs_addrs = []\<rparr> pid [i] None [] RELATIONSHIP
            [ni_normalized_value i \<mapsto> n] = Inr (r, cache')
          \<and> mr_decision r = NO_MATCH \<and> (35 / 100 - 25 / 100 :: rat) = 10 / 100"
proof -
  let ?st = "\<lparr>sc_evidence = 0, sc_reasons = [], sc_signals = no_signals, sc_cache = [ni_normalized_value i \<mapsto> n]\<rparr>"
  let ?snap = "\<lparr>cs_idents = [row], cs_facts = [], cs_addrs = []\<rparr>"
  obtain reasons where st: "score_identifiers tp g ?snap [i] ?st = Inr \<lparr>sc_evidence = 900719925474099 / 9007199254740992, sc_reasons = reasons,
      sc_signals = no_signals\<lparr>hs_phone_exact_match := True, hs_phone_high_fanout := True,
        hs_identifier_system_corroborated := ir_is_system_sourced row\<rparr>, sc_cache = [ni_normalized_value i \<mapsto> n]\<rparr>"
    using assms
    by (simp add: score_identifiers_def score_identifier_def phones_by_value_def phones_def emails_by_value_def emails_def
     score_phone_def Let_def scoring_defs phone_fanout_def score_approx_identifiers_def score_approx_def PHONE_FANOUT_PENALTY_THRESHOLD_def
     fanout_penalised_phone is_system_sourced_def no_signals_def)
  show ?thesis
    unfolding evaluate_snapshot_def st
    by (simp add: fanout_penalised_phone_below cap_identifier_evidence_def scoring_defs score_dob_def dobs_def
     score_name_def incoming_names_def names_def score_name_band_def score_address_def Let_def
     promote_features no_signals_def band_result_simps classify_relationship relationship_band.band_no_match_iff)
qed

theorem conversation_merge_is_system_corroborated_witness:
  "\<exists>r c. evaluate_heuristic sample_tp sample_graph ''p1'' sample_incoming None [] CONVERSATION Map.empty = Inr (r, c)
     \<and> \<not> has_hard_conflict (mr_feature_snapshot r)"
proof -
  obtain r c where r: "evaluate_heuristic sample_tp sample_graph ''p1'' sample_incoming None [] CONVERSATION Map.empty = Inr (r, c)"
     "mr_decision r = MERGE" using sample_run by blast
  from conversation_merge_is_system_corroborated [OF r] r(1) show ?thesis by blast
qed

theorem relationship_merge_has_no_conflict_witness:
  "\<exists>r c. evaluate_heuristic sample_tp sample_graph ''p1'' sample_incoming None [] RELATIONSHIP Map.empty = Inr (r, c)
     \<and> RELATIONSHIP_AUTO_MERGE \<le> mr_confidence r"
proof -
  obtain r c where r: "evaluate_heuristic sample_tp sample_graph ''p1'' sample_incoming None [] RELATIONSHIP Map.empty = Inr (r, c)"
     "mr_decision r = MERGE" using sample_run_relationship by blast
  from relationship_merge_has_no_conflict [OF r] r(1) show ?thesis by blast
qed

theorem fanout_cache_transparent_witness:
  "\<exists>r cache1 cache2. evaluate_heuristic sample_tp sample_graph ''p1'' sample_incoming None [] IDENTITY
       [''+6591234567'' \<mapsto> 1] = Inr (r, cache1)
     \<and> evaluate_heuristic sample_tp sample_graph ''p1'' sample_incoming None [] IDENTITY Map.empty = Inr (r, cache2)
     \<and> coherent_cache sample_graph cache1"
  by (rule fanout_cache_transparent) (simp add: coherent_cache_def sample_lookups(3))

theorem relationship_band_lost_to_rounding_witness:
  "\<exists>r cache'. evaluate_snapshot sample_tp sample_graph
      \<lparr>cs_idents = [\<lparr>ir_identifier_type = ''phone'', ir_normalized_value = ''+6591234567'',
          ir_is_verified = True, ir_is_system_sourced = True\<rparr>], cs_facts = [], cs_addrs = []\<rparr> ''p1''
      [hd sample_incoming] None [] RELATIONSHIP [''+6591234567'' \<mapsto> 6] = Inr (r, cache')
    \<and> mr_decision r = NO_MATCH"
  using relationship_band_lost_to_rounding [of 6 "hd sample_incoming"
      "\<lparr>ir_identifier_type = ''phone'', ir_normalized_value = ''+6591234567'',
          ir_is_verified = True, ir_is_system_sourced = True\<rparr>" sample_tp sample_graph "''p1''"]
  by (simp add: sample_incoming_def mk_identifier_def)

end
