(* ===== verification/Engine.thy ===== *)
theory Engine
  imports Deterministic Heuristic
begin

text \<open>
  The match engine (\<open>matching/engine.py\<close>): every candidate goes through the deterministic and the
  heuristic layer, the best result is picked, and a changed record keeps its previous person
  unless the evidence for another one is strong. The third layer of the source is a stub that
  answers \<open>None\<close>.
\<close>

definition REASSIGNMENT_AUTO_THRESHOLD :: f64 where "REASSIGNMENT_AUTO_THRESHOLD = fl (90 / 100)"
definition REASSIGNMENT_MIN_MARGIN :: f64 where "REASSIGNMENT_MIN_MARGIN = fl (10 / 100)"
definition MARGIN_EPSILON :: f64 where "MARGIN_EPSILON = fl (1 / 10 ^ 12)"

definition ambiguous_prior_owners_result :: "string list \<Rightarrow> match_result result" where
  "ambiguous_prior_owners_result prior_person_ids =
     (if length prior_person_ids < 2
      then raise (ValueError ''ambiguous prior-owner policy requires at least two owners'')
      else ok ((mk_result REVIEW 0 [''ambiguous_prior_owners''] DETERMINISTIC)
                 \<lparr>mr_matched_person_id := py_min id prior_person_ids\<rparr>))"

section \<open>One candidate\<close>

definition evaluate_llm :: "string \<Rightarrow> match_result option" where
  "evaluate_llm candidate_person_id = None"

definition evaluate_one ::
    "'n third_party \<Rightarrow> graph \<Rightarrow> int \<Rightarrow> string \<Rightarrow> normalized_identifier list
     \<Rightarrow> normalized_address option \<Rightarrow> normalized_attribute list \<Rightarrow> record_type
     \<Rightarrow> (string \<times> string) list \<Rightarrow> fanout_cache \<Rightarrow> (match_result option \<times> fanout_cache) result" where
  "evaluate_one tp g now candidate identifiers address attributes rt owners cache =
     (case evaluate_deterministic g now candidate identifiers rt (Some owners) of
        Some det \<Rightarrow> ok (if mr_decision det = NO_MATCH then None else Some det, cache)
      | None \<Rightarrow>
          try_bind (evaluate_heuristic tp g candidate identifiers address attributes rt cache)
            (\<lambda>(heur, cache). ok (if mr_decision heur \<noteq> NO_MATCH then Some heur
                                  else evaluate_llm candidate, cache)))"

section \<open>Picking the best result\<close>

definition no_candidates_result :: match_result where
  "no_candidates_result =
     (mk_result NO_MATCH 0 [''No matching candidates found''] DETERMINISTIC)
       \<lparr>mr_is_new_person := True\<rparr>"

definition merge_key :: "match_result \<Rightarrow> f64 \<times> string" where
  "merge_key r = (- mr_confidence r, or_empty (mr_matched_person_id r))"

definition resolve_merges :: "match_result list \<Rightarrow> match_result option" where
  "resolve_merges merges =
     (case py_min merge_key merges of
        None \<Rightarrow> None
      | Some primary \<Rightarrow>
          (let additional = sorted_set [p. r \<leftarrow> merges,
                 p \<leftarrow> (case mr_matched_person_id r of None \<Rightarrow> [] | Some p \<Rightarrow> [p]),
                 Some p \<noteq> mr_matched_person_id primary]
           in if additional = [] then Some primary
              else Some (primary\<lparr>mr_additional_linked_person_ids := additional,
                     mr_reasons := mr_reasons primary @
                       [''Record also MERGE-matched '' @ show_nat (length additional)
                        @ '' other person(s) '' @ py_repr_list additional
                        @ '' - linking record + evidence to all (persons not merged)'']\<rparr>)))"

definition no_confident_match :: match_result where
  "no_confident_match =
     (mk_result NO_MATCH 0
        [''Candidates exist but no engine produced a confident match - creating separate person'']
        DETERMINISTIC)\<lparr>mr_is_new_person := True\<rparr>"

definition below_review_result :: match_result where
  "below_review_result =
     (mk_result NO_MATCH 0
        [''No candidate scored above the review threshold - creating separate person'']
        HEURISTIC)\<lparr>mr_is_new_person := True\<rparr>"

definition pick_best :: "match_result list \<Rightarrow> match_result" where
  "pick_best collected =
     (if collected = [] then no_confident_match
      else case resolve_merges [r \<leftarrow> collected. mr_decision r = MERGE] of
             Some r \<Rightarrow> r
           | None \<Rightarrow> (case py_max mr_confidence [r \<leftarrow> collected. mr_decision r = REVIEW] of
                        Some r \<Rightarrow> r
                      | None \<Rightarrow> below_review_result))"

section \<open>Continuity with the previous person of a changed record\<close>

definition continuity_review ::
    "match_result \<Rightarrow> string \<Rightarrow> string option \<Rightarrow> f64 \<Rightarrow> match_result" where
  "continuity_review destination continuity proposed continuity_confidence =
     (let ids = sorted_set
            ((case mr_matched_person_id destination of None \<Rightarrow> [] | Some p \<Rightarrow> [p])
             @ mr_additional_linked_person_ids destination);
          features = (if 1 < length ids
             then AList.update ''merge_candidate_person_ids'' (JList (map JStr ids))
                    (mr_feature_snapshot destination)
             else mr_feature_snapshot destination)
      in (mk_result REVIEW (mr_confidence destination)
            (mr_reasons destination
             @ [''Changed record requires review before reassigning its prior person''])
            (mr_engine_type destination))
         \<lparr>mr_matched_person_id := Some continuity,
          mr_proposed_person_id := proposed,
          mr_feature_snapshot := dict_of features
            [(''continuity_person_id'', JStr continuity),
             (''continuity_confidence'', JFloat continuity_confidence),
             (''proposed_person_id'', (case proposed of None \<Rightarrow> JNull | Some p \<Rightarrow> JStr p)),
             (''proposed_confidence'', JFloat (mr_confidence destination))]\<rparr>)"

definition apply_reassignment_policy ::
    "match_result \<Rightarrow> string \<Rightarrow> match_result option \<Rightarrow> match_result" where
  "apply_reassignment_policy destination continuity_person_id continuity =
     (let continuity_confidence = (case continuity of None \<Rightarrow> 0 | Some r \<Rightarrow> mr_confidence r);
          margin = fsub (mr_confidence destination) continuity_confidence
      in if continuity \<noteq> None \<and> mr_decision destination = MERGE
            \<and> REASSIGNMENT_AUTO_THRESHOLD \<le> mr_confidence destination
            \<and> REASSIGNMENT_MIN_MARGIN \<le> fadd margin MARGIN_EPSILON
         then destination
         else continuity_review destination continuity_person_id
                (mr_matched_person_id destination) continuity_confidence)"

definition settle_continuity ::
    "match_result list \<Rightarrow> match_result option \<Rightarrow> string \<Rightarrow> match_result" where
  "settle_continuity collected continuity_result continuity =
     (let r = pick_best collected
      in if mr_additional_linked_person_ids r \<noteq> [] then
           (let destinations = [c \<leftarrow> collected.
                  mr_matched_person_id c \<notin> {None, Some continuity} \<and> mr_decision c = MERGE]
            in case destinations of
                 [destination] \<Rightarrow>
                   (if continuity_result \<noteq> None
                    then apply_reassignment_policy destination continuity continuity_result
                    else continuity_review r continuity (mr_matched_person_id destination) 0)
               | _ \<Rightarrow> continuity_review r continuity None 0)
         else if mr_matched_person_id r = None \<or> mr_is_new_person r
         then continuity_review r continuity None 0
         else if mr_matched_person_id r = Some continuity then r
         else apply_reassignment_policy r continuity continuity_result)"

section \<open>The engine\<close>

record engine_state =
  es_collected :: "match_result list"
  es_continuity :: "match_result option"
  es_cache :: fanout_cache

definition unique_candidates :: "candidate_result list \<Rightarrow> string option \<Rightarrow> string list" where
  "unique_candidates candidates continuity =
     (let d = dict_of [] [(cr_person_id c, c). c \<leftarrow> candidates];
          d = (case continuity of
                 None \<Rightarrow> d
               | Some p \<Rightarrow> dict_setdefault p \<lparr>cr_person_id = p, cr_source = ''continuity''\<rparr> d)
      in map fst d)"

definition evaluate_candidate ::
    "'n third_party \<Rightarrow> graph \<Rightarrow> int \<Rightarrow> normalized_identifier list \<Rightarrow> normalized_address option
     \<Rightarrow> normalized_attribute list \<Rightarrow> record_type \<Rightarrow> string option \<Rightarrow> (string \<times> string) list
     \<Rightarrow> string \<Rightarrow> engine_state \<Rightarrow> engine_state result" where
  "evaluate_candidate tp g now identifiers address attributes rt continuity owners pid st =
     try_bind (evaluate_one tp g now pid identifiers address attributes rt owners (es_cache st))
       (\<lambda>(per_candidate, cache).
          let st = st\<lparr>es_cache := cache\<rparr>
          in case per_candidate of
               None \<Rightarrow> ok st
             | Some r \<Rightarrow> ok (st\<lparr>es_collected := es_collected st @ [r],
                               es_continuity := (if Some pid = continuity then Some r
                                                 else es_continuity st)\<rparr>))"

definition evaluate ::
    "'n third_party \<Rightarrow> graph \<Rightarrow> int \<Rightarrow> candidate_result list \<Rightarrow> normalized_identifier list
     \<Rightarrow> normalized_address option \<Rightarrow> normalized_attribute list \<Rightarrow> record_type \<Rightarrow> string option
     \<Rightarrow> match_result result" where
  "evaluate tp g now candidates identifiers address attributes rt continuity =
     (if candidates = [] \<and> continuity = None then ok no_candidates_result
      else let pids = unique_candidates candidates continuity;
               owners = prefetch_no_match_lock_owners g now pids identifiers
           in try_bind
                (fold_result
                   (evaluate_candidate tp g now identifiers address attributes rt continuity owners)
                   pids \<lparr>es_collected = [], es_continuity = None, es_cache = Map.empty\<rparr>)
                (\<lambda>st. case continuity of
                        None \<Rightarrow> ok (pick_best (es_collected st))
                      | Some p \<Rightarrow> ok (settle_continuity (es_collected st) (es_continuity st) p)))"

section \<open>The chain without its cache\<close>

text \<open>What one candidate is worth on its own: no cache, its own lock query.\<close>

definition chain_result ::
    "'n third_party \<Rightarrow> graph \<Rightarrow> int \<Rightarrow> normalized_identifier list \<Rightarrow> normalized_address option
     \<Rightarrow> normalized_attribute list \<Rightarrow> record_type \<Rightarrow> string \<Rightarrow> match_result option" where
  "chain_result tp g now identifiers address attributes rt pid =
     (case evaluate_deterministic g now pid identifiers rt None of
        Some det \<Rightarrow> (if mr_decision det = NO_MATCH then None else Some det)
      | None \<Rightarrow> (case evaluate_heuristic tp g pid identifiers address attributes rt Map.empty of
                   Inl e \<Rightarrow> None
                 | Inr (heur, c) \<Rightarrow> (if mr_decision heur \<noteq> NO_MATCH then Some heur else None)))"

definition collected_results ::
    "(string \<Rightarrow> match_result option) \<Rightarrow> string list \<Rightarrow> match_result list" where
  "collected_results chain pids = concat (map (\<lambda>p. case chain p of None \<Rightarrow> [] | Some r \<Rightarrow> [r]) pids)"

lemma heuristic_run:
  obtains r c where "evaluate_heuristic tp g p ids addr attrs rt Map.empty = Inr (r, c)"
    "mr_matched_person_id r = (if mr_decision r = NO_MATCH then None else Some p)"
    "mr_engine_type r = HEURISTIC" "0 \<le> mr_confidence r" "mr_confidence r \<le> 1"
    "mr_additional_linked_person_ids r = []" "\<not> mr_is_new_person r"
proof (cases rule: evaluate_snapshot_shape [of tp g "fetch_candidate_snapshot g p" ids Map.empty p addr attrs rt])
  case (1 st0 s c reasons features)
  from final_confidence_bounds [OF 1(3,4), of rt s] show ?thesis
    by (intro that [unfolded evaluate_heuristic_def, OF 1(5)]) (simp_all add: band_result_simps)
qed

lemma heuristic_with_cache:
  assumes "coherent_cache g cache" "evaluate_heuristic tp g p ids addr attrs rt Map.empty = Inr (r, c)"
  obtains c' where "evaluate_heuristic tp g p ids addr attrs rt cache = Inr (r, c')" "coherent_cache g c'"
  using evaluate_snapshot_cache [OF assms(1), of tp "fetch_candidate_snapshot g p" p ids addr attrs rt] assms(2)
  by (auto simp: evaluate_heuristic_def)

lemma evaluate_one_chain:
  assumes "p \<in> set ps" "distinct ps" "coherent_cache g cache"
  shows "\<exists>c'. coherent_cache g c' \<and>
    evaluate_one tp g now p ids addr attrs rt (prefetch_no_match_lock_owners g now ps ids) cache =
      Inr (chain_result tp g now ids addr attrs rt p, c')"
proof -
  have det: "evaluate_deterministic g now p ids rt (Some (prefetch_no_match_lock_owners g now ps ids)) =
      evaluate_deterministic g now p ids rt None"
    using single_prefetch [OF assms(1,2), of g now ids]
    by (simp add: evaluate_deterministic_def check_no_match_lock_def)
  obtain r c where run: "evaluate_heuristic tp g p ids addr attrs rt Map.empty = Inr (r, c)"
    by (rule heuristic_run)
  obtain c' where "evaluate_heuristic tp g p ids addr attrs rt cache = Inr (r, c')" "coherent_cache g c'"
    by (rule heuristic_with_cache [OF assms(3) run])
  then show ?thesis
    using assms(3)
    by (cases "evaluate_deterministic g now p ids rt None")
       (auto simp: evaluate_one_def chain_result_def det run evaluate_llm_def)
qed

lemma unique_candidates_distinct: "distinct (unique_candidates cs cont)"
proof -
  have "distinct (map fst (dict_of [] [(cr_person_id c, c). c \<leftarrow> cs]))"
    by (rule distinct_dict_of) simp
  then show ?thesis
    by (auto simp: unique_candidates_def Let_def dict_setdefault_def split: option.split)
qed

lemma unique_candidates_set:
  "set (unique_candidates cs cont) = cr_person_id ` set cs \<union> set_option cont"
  by (force simp: unique_candidates_def Let_def dict_setdefault_def keys_dict_of image_image split: option.split)

lemma collected_results_append:
  "collected_results chain (xs @ ys) = collected_results chain xs @ collected_results chain ys"
  by (simp add: collected_results_def)

lemma evaluate_candidates_run:
  assumes "distinct ps" "set qs \<subseteq> set ps" "coherent_cache g (es_cache st)"
  shows "\<exists>c'. coherent_cache g c' \<and>
    fold_result (evaluate_candidate tp g now ids addr attrs rt cont
        (prefetch_no_match_lock_owners g now ps ids)) qs st =
      Inr \<lparr>es_collected = es_collected st @ collected_results (chain_result tp g now ids addr attrs rt) qs,
           es_continuity = (case cont of
              None \<Rightarrow> es_continuity st
            | Some p \<Rightarrow> if p \<in> set qs \<and> chain_result tp g now ids addr attrs rt p \<noteq> None
                        then chain_result tp g now ids addr attrs rt p else es_continuity st),
           es_cache = c'\<rparr>"
  using assms(2,3)
proof (induction qs arbitrary: st)
  case Nil
  then show ?case by (cases st) (auto simp: collected_results_def split: option.split)
next
  case (Cons q qs)
  let ?chain = "chain_result tp g now ids addr attrs rt"
  obtain c' where one: "coherent_cache g c'"
      "evaluate_one tp g now q ids addr attrs rt (prefetch_no_match_lock_owners g now ps ids) (es_cache st)
         = Inr (?chain q, c')"
    using evaluate_one_chain [of q ps] assms(1) Cons.prems by fastforce
  show ?case
  proof (cases "?chain q")
    case None
    with one have step: "evaluate_candidate tp g now ids addr attrs rt cont
        (prefetch_no_match_lock_owners g now ps ids) q st = Inr (st\<lparr>es_cache := c'\<rparr>)"
      by (simp add: evaluate_candidate_def)
    from Cons.IH [of "st\<lparr>es_cache := c'\<rparr>"] Cons.prems(1) one(1) None show ?thesis
      by (auto simp: step collected_results_def split: option.split)
  next
    case (Some r)
    let ?st = "st\<lparr>es_cache := c', es_collected := es_collected st @ [r],
        es_continuity := (if Some q = cont then Some r else es_continuity st)\<rparr>"
    from one Some have step: "evaluate_candidate tp g now ids addr attrs rt cont
        (prefetch_no_match_lock_owners g now ps ids) q st = Inr ?st"
      by (simp add: evaluate_candidate_def)
    from Cons.IH [of ?st] Cons.prems(1) one(1) Some show ?thesis
      by (auto simp: step collected_results_def split: option.split)
  qed
qed

text \<open>The engine as a function of what each candidate is worth on its own.\<close>

definition engine_spec ::
    "(string \<Rightarrow> match_result option) \<Rightarrow> string list \<Rightarrow> string option \<Rightarrow> match_result" where
  "engine_spec chain pids continuity =
     (if pids = [] then no_candidates_result
      else case continuity of
             None \<Rightarrow> pick_best (collected_results chain pids)
           | Some p \<Rightarrow> settle_continuity (collected_results chain pids) (chain p) p)"

lemma unique_candidates_Nil_iff: "unique_candidates cs cont = [] \<longleftrightarrow> cs = [] \<and> cont = None"
  using unique_candidates_set [of cs cont] by (cases cont) auto

lemma evaluate_eq_spec:
  "evaluate tp g now cs ids addr attrs rt cont =
     Inr (engine_spec (chain_result tp g now ids addr attrs rt) (unique_candidates cs cont) cont)"
proof (cases "cs = [] \<and> cont = None")
  case True
  then show ?thesis by (simp add: evaluate_def engine_spec_def unique_candidates_Nil_iff)
next
  case False
  let ?ps = "unique_candidates cs cont"
  have mem: "cont = Some p \<Longrightarrow> p \<in> set ?ps" for p by (simp add: unique_candidates_set)
  obtain c' where "fold_result (evaluate_candidate tp g now ids addr attrs rt cont
        (prefetch_no_match_lock_owners g now ?ps ids)) ?ps \<lparr>es_collected = [], es_continuity = None, es_cache = Map.empty\<rparr> =
      Inr \<lparr>es_collected = collected_results (chain_result tp g now ids addr attrs rt) ?ps,
           es_continuity = (case cont of None \<Rightarrow> None
            | Some p \<Rightarrow> if p \<in> set ?ps \<and> chain_result tp g now ids addr attrs rt p \<noteq> None
                        then chain_result tp g now ids addr attrs rt p else None),
           es_cache = c'\<rparr>"
    using evaluate_candidates_run [OF unique_candidates_distinct subset_refl, of g
        "\<lparr>es_collected = [], es_continuity = None, es_cache = Map.empty\<rparr>" tp now ids addr attrs rt cont cs cont]
    by (cases cont) auto
  with False mem show ?thesis
    by (auto simp: evaluate_def engine_spec_def unique_candidates_Nil_iff split: option.split)
qed

section \<open>The contract of the chain and the policy over it\<close>

definition merge_persons :: "(string \<Rightarrow> match_result option) \<Rightarrow> string list \<Rightarrow> string list" where
  "merge_persons chain pids =
     [p \<leftarrow> pids. (case chain p of None \<Rightarrow> False | Some r \<Rightarrow> mr_decision r = MERGE)]"

definition linked_persons :: "match_result \<Rightarrow> string set" where
  "linked_persons r = set_option (mr_matched_person_id r) \<union> set (mr_additional_linked_person_ids r)"

definition reassignable :: "match_result \<Rightarrow> match_result option \<Rightarrow> bool" where
  "reassignable destination continuity =
     (case continuity of
        None \<Rightarrow> False
      | Some c \<Rightarrow> REASSIGNMENT_AUTO_THRESHOLD \<le> mr_confidence destination
          \<and> REASSIGNMENT_MIN_MARGIN
              \<le> fadd (fsub (mr_confidence destination) (mr_confidence c)) MARGIN_EPSILON)"

lemma collected_results_set:
  "set (collected_results chain pids) = {r. \<exists>p \<in> set pids. chain p = Some r}"
  by (auto simp: collected_results_def split: option.splits)

lemma merge_persons_mem:
  "p \<in> set (merge_persons chain pids) \<longleftrightarrow> p \<in> set pids \<and> (\<exists>r. chain p = Some r \<and> mr_decision r = MERGE)"
  by (auto simp: merge_persons_def split: option.splits)

locale match_chain =
  fixes chain :: "string \<Rightarrow> match_result option"
  assumes chain_person: "chain p = Some r \<Longrightarrow> mr_matched_person_id r = Some p"
    and chain_links: "chain p = Some r \<Longrightarrow> mr_decision r \<noteq> NO_MATCH"
    and chain_plain: "chain p = Some r \<Longrightarrow> mr_additional_linked_person_ids r = [] \<and> \<not> mr_is_new_person r"
begin

abbreviation merges :: "string list \<Rightarrow> match_result list" where
  "merges pids \<equiv> [r \<leftarrow> collected_results chain pids. mr_decision r = MERGE]"

abbreviation reviews :: "string list \<Rightarrow> match_result list" where
  "reviews pids \<equiv> [r \<leftarrow> collected_results chain pids. mr_decision r = REVIEW]"

lemma merges_set: "set (merges pids) = {r. \<exists>p \<in> set (merge_persons chain pids). chain p = Some r}"
  by (auto simp: collected_results_set merge_persons_def)

lemma merge_key_inj: "inj_on merge_key (set (merges pids))"
proof (rule inj_onI)
  fix a b
  assume "a \<in> set (merges pids)" "b \<in> set (merges pids)" and key: "merge_key a = merge_key b"
  then obtain p q where "chain p = Some a" "chain q = Some b" by (auto simp: collected_results_set)
  with key chain_person show "a = b" by (fastforce simp: merge_key_def)
qed

lemma pick_best_merge:
  assumes "merge_persons chain pids \<noteq> []"
  shows "mr_decision (pick_best (collected_results chain pids)) = MERGE"
    and "linked_persons (pick_best (collected_results chain pids)) = set (merge_persons chain pids)"
    and "\<exists>p \<in> set (merge_persons chain pids). \<exists>r. chain p = Some r
           \<and> mr_matched_person_id (pick_best (collected_results chain pids)) = Some p
           \<and> mr_confidence (pick_best (collected_results chain pids)) = mr_confidence r"
    and "\<And>q c. q \<in> set (merge_persons chain pids) \<Longrightarrow> chain q = Some c \<Longrightarrow>
           mr_confidence c \<le> mr_confidence (pick_best (collected_results chain pids))"
    and "\<not> mr_is_new_person (pick_best (collected_results chain pids))"
    and "mr_additional_linked_person_ids (pick_best (collected_results chain pids)) = [] \<Longrightarrow>
           \<exists>p \<in> set (merge_persons chain pids). chain p = Some (pick_best (collected_results chain pids))"
proof -
  have "set (merges pids) \<noteq> {}"
    using assms by (auto simp: collected_results_set merge_persons_def filter_empty_conv split: option.splits)
  then have ne: "merges pids \<noteq> []" by (metis list.set(1))
  then obtain m where m: "py_min merge_key (merges pids) = Some m"
    by (cases "py_min merge_key (merges pids)") auto
  then have mem: "m \<in> set (merges pids)" by (rule py_min_mem)
  then obtain p where p: "p \<in> set (merge_persons chain pids)" "chain p = Some m"
    unfolding merges_set by blast
  note props = chain_person [OF p(2)] chain_plain [OF p(2)]
  define add where "add = sorted_set [q. r \<leftarrow> merges pids,
                 q \<leftarrow> (case mr_matched_person_id r of None \<Rightarrow> [] | Some q \<Rightarrow> [q]),
                 Some q \<noteq> mr_matched_person_id m]"
  have coll: "collected_results chain pids \<noteq> []" using ne by auto
  obtain reasons where best: "pick_best (collected_results chain pids) =
      (if add = [] then m else m\<lparr>mr_additional_linked_person_ids := add, mr_reasons := reasons\<rparr>)"
    using coll by (cases "add = []") (simp_all add: pick_best_def resolve_merges_def m Let_def add_def [symmetric])
  have others: "set add = set (merge_persons chain pids) - {p}"
  proof -
    have "q \<in> set add \<longleftrightarrow> (\<exists>r \<in> set (merges pids). mr_matched_person_id r = Some q \<and> q \<noteq> p)" for q
      by (auto simp: add_def props split: option.splits)
    moreover have "(\<exists>r \<in> set (merges pids). mr_matched_person_id r = Some q \<and> q \<noteq> p)
        \<longleftrightarrow> q \<in> set (merge_persons chain pids) \<and> q \<noteq> p" for q
      unfolding merges_set using chain_person by (fastforce simp: merge_persons_mem)
    ultimately show ?thesis by blast
  qed
  have dec: "mr_decision m = MERGE" using mem by simp
  then show "mr_decision (pick_best (collected_results chain pids)) = MERGE"
    by (simp add: best)
  show "linked_persons (pick_best (collected_results chain pids)) = set (merge_persons chain pids)"
  proof -
    have "linked_persons (pick_best (collected_results chain pids)) = insert p (set add)"
    proof (cases "add = []")
      case True
      then have "pick_best (collected_results chain pids) = m" unfolding best by simp
      then show ?thesis using props True by (simp add: linked_persons_def)
    next
      case False
      then have "pick_best (collected_results chain pids) = m\<lparr>mr_additional_linked_person_ids := add, mr_reasons := reasons\<rparr>"
        unfolding best by simp
      then show ?thesis using props by (simp add: linked_persons_def)
    qed
    then show ?thesis by (simp only: others insert_Diff [OF p(1)])
  qed
  show "\<exists>p \<in> set (merge_persons chain pids). \<exists>r. chain p = Some r
           \<and> mr_matched_person_id (pick_best (collected_results chain pids)) = Some p
           \<and> mr_confidence (pick_best (collected_results chain pids)) = mr_confidence r"
    using p props by (auto simp: best)
  show "\<not> mr_is_new_person (pick_best (collected_results chain pids))"
    using props by (auto simp: best)
  show "\<exists>p \<in> set (merge_persons chain pids). chain p = Some (pick_best (collected_results chain pids))"
    if "mr_additional_linked_person_ids (pick_best (collected_results chain pids)) = []"
    using that p by (cases "add = []") (auto simp: best)
  fix q c assume q: "q \<in> set (merge_persons chain pids)" "chain q = Some c"
  then have "c \<in> set (merges pids)" unfolding merges_set by blast
  from py_min_le [OF m this] have "mr_confidence c \<le> mr_confidence m"
    by (auto simp: merge_key_def less_eq_prod_def)
  then show "mr_confidence c \<le> mr_confidence (pick_best (collected_results chain pids))"
    by (simp add: best)
qed

lemma pick_best_no_merge:
  assumes "merge_persons chain pids = []"
  shows "mr_decision (pick_best (collected_results chain pids)) \<noteq> MERGE"
    and "mr_additional_linked_person_ids (pick_best (collected_results chain pids)) = []"
    and "mr_decision (pick_best (collected_results chain pids)) = NO_MATCH \<longleftrightarrow>
           collected_results chain pids = []"
    and "mr_is_new_person (pick_best (collected_results chain pids)) \<longleftrightarrow>
           collected_results chain pids = []"
    and "mr_decision (pick_best (collected_results chain pids)) = REVIEW \<Longrightarrow>
         \<exists>p \<in> set pids. chain p = Some (pick_best (collected_results chain pids))"
proof -
  let ?best = "pick_best (collected_results chain pids)"
  have "set (merges pids) = {}" unfolding merges_set using assms by simp
  then have "merges pids = []" by (metis set_empty)
  then have best: "?best = (if collected_results chain pids = [] then no_confident_match
      else case py_max mr_confidence (reviews pids) of Some r \<Rightarrow> r | None \<Rightarrow> below_review_result)"
    by (simp add: pick_best_def resolve_merges_def)
  have some: "\<exists>r p. py_max mr_confidence (reviews pids) = Some r \<and> p \<in> set pids \<and> chain p = Some r
      \<and> mr_decision r = REVIEW" if ne: "collected_results chain pids \<noteq> []"
  proof -
    from ne have "hd (collected_results chain pids) \<in> set (collected_results chain pids)" by (rule hd_in_set)
    then obtain r p where r: "r \<in> set (collected_results chain pids)" "p \<in> set pids" "chain p = Some r"
      unfolding collected_results_set by blast
    have "r \<notin> set (merges pids)" using \<open>merges pids = []\<close> by simp
    with r chain_links [OF r(3)] have "r \<in> set (reviews pids)" by (cases "mr_decision r") auto
    then obtain m where m: "py_max mr_confidence (reviews pids) = Some m"
      by (cases "py_max mr_confidence (reviews pids)") (auto simp: filter_empty_conv)
    from py_max_mem [OF m] show ?thesis by (auto simp: m collected_results_set)
  qed
  have cases: "(collected_results chain pids = [] \<and> ?best = no_confident_match)
     \<or> (collected_results chain pids \<noteq> [] \<and> (\<exists>p \<in> set pids. chain p = Some ?best) \<and> mr_decision ?best = REVIEW)"
  proof (cases "collected_results chain pids = []")
    case True
    then have "?best = no_confident_match" by (subst best) simp
    with True show ?thesis by blast
  next
    case False
    from some [OF False] obtain r p where r: "py_max mr_confidence (reviews pids) = Some r" "p \<in> set pids"
      "chain p = Some r" "mr_decision r = REVIEW" by blast
    with False have "?best = r" by (subst best) simp
    with r False show ?thesis by blast
  qed
  then show "mr_decision ?best \<noteq> MERGE" "mr_additional_linked_person_ids ?best = []"
    "mr_decision ?best = NO_MATCH \<longleftrightarrow> collected_results chain pids = []"
    "mr_is_new_person ?best \<longleftrightarrow> collected_results chain pids = []"
    "mr_decision ?best = REVIEW \<Longrightarrow> \<exists>p \<in> set pids. chain p = Some ?best"
    using chain_plain by (auto simp: no_confident_match_def)
qed

text \<open>The order in which the candidates are found does not matter to a merge.\<close>

lemma pick_best_order:
  assumes "set pids = set qids"
  shows "mr_decision (pick_best (collected_results chain pids)) = mr_decision (pick_best (collected_results chain qids))"
    and "mr_confidence (pick_best (collected_results chain pids)) = mr_confidence (pick_best (collected_results chain qids))"
    and "mr_decision (pick_best (collected_results chain pids)) \<noteq> REVIEW \<Longrightarrow>
         pick_best (collected_results chain pids) = pick_best (collected_results chain qids)"
proof -
  have coll: "set (collected_results chain pids) = set (collected_results chain qids)"
    using assms by (simp add: collected_results_set)
  then have nil: "collected_results chain pids = [] \<longleftrightarrow> collected_results chain qids = []"
    by (metis set_empty)
  from coll have m: "set (merges pids) = set (merges qids)" and r: "set (reviews pids) = set (reviews qids)"
    by auto
  have min: "py_min merge_key (merges pids) = py_min merge_key (merges qids)"
    by (rule py_min_unique [OF merge_key_inj m])
  have add: "sorted_set [q. r \<leftarrow> merges pids, q \<leftarrow> (case mr_matched_person_id r of None \<Rightarrow> [] | Some q \<Rightarrow> [q]), Some q \<noteq> x]
      = sorted_set [q. r \<leftarrow> merges qids, q \<leftarrow> (case mr_matched_person_id r of None \<Rightarrow> [] | Some q \<Rightarrow> [q]), Some q \<noteq> x]" for x
    using m by (intro sorted_set_cong) (simp only: set_concat set_map)
  have resolve: "resolve_merges (merges pids) = resolve_merges (merges qids)"
    unfolding resolve_merges_def min add ..
  have conf: "map_option mr_confidence (py_max mr_confidence (reviews pids)) =
      map_option mr_confidence (py_max mr_confidence (reviews qids))"
  proof (cases "reviews pids = []")
    case True
    with r have "reviews qids = []" by (metis set_empty)
    with True show ?thesis by simp
  next
    case False
    with r have ne: "reviews qids \<noteq> []" by (metis set_empty)
    from False ne obtain a b where ab: "py_max mr_confidence (reviews pids) = Some a"
      "py_max mr_confidence (reviews qids) = Some b"
      by (metis not_None_eq py_max_None_iff)
    have "mr_confidence b \<le> mr_confidence a" "mr_confidence a \<le> mr_confidence b"
      using py_max_ge [OF ab(1)] py_max_mem [OF ab(2)] py_max_ge [OF ab(2)] py_max_mem [OF ab(1)] r
      by blast+
    with ab show ?thesis by simp
  qed
  have max: "(\<exists>a b. py_max mr_confidence (reviews pids) = Some a \<and> py_max mr_confidence (reviews qids) = Some b
       \<and> mr_confidence a = mr_confidence b \<and> mr_decision a = REVIEW \<and> mr_decision b = REVIEW)
     \<or> (py_max mr_confidence (reviews pids) = None \<and> py_max mr_confidence (reviews qids) = None)"
  proof (cases "py_max mr_confidence (reviews pids)")
    case None
    from conf [unfolded None] have "py_max mr_confidence (reviews qids) = None"
      by (metis option.map_disc_iff)
    with None show ?thesis by (intro disjI2 conjI)
  next
    case (Some a)
    from conf [unfolded Some] obtain b where b: "py_max mr_confidence (reviews qids) = Some b"
      "mr_confidence a = mr_confidence b" by (metis map_option_eq_Some option.simps(9))
    moreover from py_max_mem [OF Some] py_max_mem [OF b(1)]
    have "mr_decision a = REVIEW" "mr_decision b = REVIEW" by simp_all
    ultimately show ?thesis using Some by blast
  qed
  let ?p = "pick_best (collected_results chain pids)" and ?q = "pick_best (collected_results chain qids)"
  have "?p = ?q \<or> (mr_decision ?p = REVIEW \<and> mr_decision ?q = REVIEW \<and> mr_confidence ?p = mr_confidence ?q)"
    using max nil by (cases "resolve_merges (merges qids)") (auto simp: pick_best_def resolve)
  then show "mr_decision ?p = mr_decision ?q" and "mr_confidence ?p = mr_confidence ?q"
    and "mr_decision ?p \<noteq> REVIEW \<Longrightarrow> ?p = ?q"
    by auto
qed

text \<open>A record that had a person keeps it, goes to review, or moves on strong evidence only.\<close>

lemma continuity_review_simps [simp]:
  "mr_decision (continuity_review d p q x) = REVIEW"
  "mr_matched_person_id (continuity_review d p q x) = Some p"
  "mr_proposed_person_id (continuity_review d p q x) = q"
  "mr_is_new_person (continuity_review d p q x) = False"
  "mr_additional_linked_person_ids (continuity_review d p q x) = []"
  by (simp_all add: continuity_review_def Let_def)

lemma apply_reassignment_review:
  "mr_decision d \<noteq> MERGE \<Longrightarrow> apply_reassignment_policy d p c =
     continuity_review d p (mr_matched_person_id d) (case c of None \<Rightarrow> 0 | Some r \<Rightarrow> mr_confidence r)"
  by (auto simp: apply_reassignment_policy_def Let_def)

definition settled :: "string \<Rightarrow> string list \<Rightarrow> match_result \<Rightarrow> bool" where
  "settled p pids r \<longleftrightarrow> \<not> mr_is_new_person r \<and> mr_additional_linked_person_ids r = [] \<and>
     ((mr_decision r = REVIEW \<and> mr_matched_person_id r = Some p)
      \<or> (mr_decision r = MERGE \<and> (\<exists>q \<in> set pids. chain q = Some r \<and> (q = p \<or> reassignable r (chain p)))))"

lemma settled_review: "settled p pids (continuity_review d p q x)"
  by (simp add: settled_def)

lemma settled_policy:
  assumes "chain q = Some d" "q \<in> set pids" "q \<noteq> p"
  shows "settled p pids (apply_reassignment_policy d p (chain p))"
  using assms chain_plain [OF assms(1)]
  by (cases "chain p")
     (auto simp: apply_reassignment_policy_def Let_def settled_review settled_def reassignable_def)

lemma settle_continuity_settled:
  "settled p pids (settle_continuity (collected_results chain pids) (chain p) p)"
proof -
  define best where "best = pick_best (collected_results chain pids)"
  show ?thesis
  proof (cases "mr_additional_linked_person_ids best = []")
    case False
    have policy: "settled p pids (apply_reassignment_policy d p (chain p))"
      if "[c \<leftarrow> collected_results chain pids.
            mr_matched_person_id c \<notin> {None, Some p} \<and> mr_decision c = MERGE] = [d]" for d
    proof -
      from that have "d \<in> set [c \<leftarrow> collected_results chain pids.
            mr_matched_person_id c \<notin> {None, Some p} \<and> mr_decision c = MERGE]" by simp
      then obtain q where "q \<in> set pids" "chain q = Some d" "q \<noteq> p"
        using chain_person by (fastforce simp: collected_results_set)
      then show ?thesis using settled_policy by blast
    qed
    from False show ?thesis
      unfolding settle_continuity_def best_def [symmetric] Let_def
      by (simp add: settled_review policy split: list.split)
  next
    case True
    note noadd = True
    have best: "mr_is_new_person best \<or> (\<exists>q \<in> set pids. chain q = Some best)"
    proof (cases "merge_persons chain pids = []")
      case True
      note none = pick_best_no_merge [OF True, folded best_def]
      show ?thesis
      proof (cases "mr_decision best")
        case NO_MATCH
        with none(3,4) show ?thesis by blast
      next
        case REVIEW
        from none(5) [OF REVIEW] show ?thesis by blast
      next
        case MERGE
        with none(1) show ?thesis by blast
      qed
    next
      case False
      note some = pick_best_merge(6) [OF False, folded best_def, OF noadd]
      then show ?thesis by (auto simp: merge_persons_mem)
    qed
    show ?thesis
    proof (cases "mr_is_new_person best \<or> mr_matched_person_id best = None")
      case True
      then show ?thesis using noadd
        unfolding settle_continuity_def best_def [symmetric] Let_def by (auto simp: settled_review)
    next
      case False
      with best obtain q where q: "q \<in> set pids" "chain q = Some best" by blast
      show ?thesis
        using noadd False q chain_person [OF q(2)] chain_links [OF q(2)] settled_policy [OF q(2,1)]
        unfolding settle_continuity_def best_def [symmetric] Let_def
        by (cases "q = p"; cases "mr_decision best") (auto simp: settled_def)
    qed
  qed
qed

end

section \<open>The chain of the code keeps the contract\<close>

lemma chain_result_cases:
  assumes "chain_result tp g now ids addr attrs rt p = Some r"
  obtains (hard) "hard_merge p r" "rt \<in> SYSTEM_FAMILY" "\<not> lock_blocks g now p ids"
      "shares_government_id g p ids \<or> shares_trusted_id g p ids"
    | (scored) c where "evaluate_heuristic tp g p ids addr attrs rt Map.empty = Inr (r, c)"
      "mr_decision r \<noteq> NO_MATCH" "\<not> lock_blocks g now p ids"
proof -
  let ?owners = "prefetch_no_match_lock_owners g now [p] ids"
  have one: "evaluate_deterministic g now p ids rt None = evaluate_deterministic g now p ids rt (Some ?owners)"
    by (simp add: evaluate_deterministic_def check_no_match_lock_def)
  have lock: "map_of ?owners p = None \<longleftrightarrow> \<not> lock_blocks g now p ids"
    by (simp add: prefetch_None_iff)
  show ?thesis
  proof (cases rule: evaluate_deterministic_cases [of ?owners p g now ids rt])
    case (locked r' owner)
    with assms show ?thesis by (simp add: chain_result_def one)
  next
    case (conflict r')
    with assms show ?thesis by (simp add: chain_result_def one)
  next
    case (merge r')
    with assms lock show ?thesis by (intro hard) (auto simp: chain_result_def one hard_merge_def)
  next
    case fall_through
    obtain h c where run: "evaluate_heuristic tp g p ids addr attrs rt Map.empty = Inr (h, c)"
      by (rule heuristic_run)
    with fall_through assms have "h = r" "mr_decision r \<noteq> NO_MATCH"
      by (auto simp: chain_result_def one split: if_splits)
    with run fall_through(1) lock show ?thesis by (intro scored [of c]) simp_all
  qed
qed

lemma chain_result_contract:
  assumes "chain_result tp g now ids addr attrs rt p = Some r"
  shows "mr_matched_person_id r = Some p" "mr_decision r \<noteq> NO_MATCH"
    "mr_additional_linked_person_ids r = [] \<and> \<not> mr_is_new_person r"
  using assms
proof (atomize (full), cases rule: chain_result_cases)
  case hard
  then show "mr_matched_person_id r = Some p \<and> mr_decision r \<noteq> NO_MATCH \<and>
    mr_additional_linked_person_ids r = [] \<and> \<not> mr_is_new_person r" by (simp add: hard_merge_def)
next
  case (scored c)
  then show "mr_matched_person_id r = Some p \<and> mr_decision r \<noteq> NO_MATCH \<and>
    mr_additional_linked_person_ids r = [] \<and> \<not> mr_is_new_person r"
    by (cases rule: heuristic_run [of tp g p ids addr attrs rt]) simp
qed

interpretation chain: match_chain "chain_result tp g now ids addr attrs rt"
  for tp :: "'n third_party" and g now ids addr attrs rt
  by unfold_locales (rule chain_result_contract, assumption)+

text \<open>Every person of a merge is a candidate whose own chain merges.\<close>

lemma engine_merge_source:
  assumes "mr_decision (engine_spec (chain_result tp g now ids addr attrs rt) pids cont) = MERGE"
    and "p \<in> linked_persons (engine_spec (chain_result tp g now ids addr attrs rt) pids cont)"
  obtains r where "p \<in> set pids" "chain_result tp g now ids addr attrs rt p = Some r" "mr_decision r = MERGE"
proof -
  let ?chain = "chain_result tp g now ids addr attrs rt"
  from assms(1) have ne: "pids \<noteq> []" by (auto simp: engine_spec_def no_candidates_result_def)
  show ?thesis
  proof (cases cont)
    case None
    with ne assms have run: "mr_decision (pick_best (collected_results ?chain pids)) = MERGE"
      "p \<in> linked_persons (pick_best (collected_results ?chain pids))" by (simp_all add: engine_spec_def)
    then have "merge_persons ?chain pids \<noteq> []" using chain.pick_best_no_merge(1) by blast
    from chain.pick_best_merge(2) [OF this] run(2) have "p \<in> set (merge_persons ?chain pids)" by simp
    then show ?thesis using that by (auto simp: merge_persons_mem)
  next
    case (Some q)
    with ne have spec: "engine_spec ?chain pids cont = settle_continuity (collected_results ?chain pids) (?chain q) q"
      by (simp add: engine_spec_def)
    from chain.settle_continuity_settled [where p = q and pids = pids and tp = tp and g = g and now = now
        and ids = ids and addr = addr and attrs = attrs and rt = rt] assms
    show ?thesis using that chain_result_contract(1)
      by (fastforce simp: spec chain.settled_def linked_persons_def)
  qed
qed

section \<open>Properties\<close>

text \<open>C1: the engine never raises, and with its batched lock query and its shared fan-out cache it
  computes the policy over what each candidate is worth on its own.\<close>

theorem engine_refines_spec:
  "evaluate tp g now cs ids addr attrs rt cont =
     Inr (engine_spec (chain_result tp g now ids addr attrs rt) (unique_candidates cs cont) cont)"
  by (rule evaluate_eq_spec)

text \<open>C2: without a previous person, the engine merges exactly when some candidate's own chain
  merges, and then it links the record to all of these candidates and to no other person; when none
  merges it links no further person.\<close>

theorem all_merges_linked:
  "\<exists>r. evaluate tp g now cs ids addr attrs rt None = Inr r \<and>
     (if \<exists>c \<in> set cs. \<exists>m. chain_result tp g now ids addr attrs rt (cr_person_id c) = Some m \<and> mr_decision m = MERGE
      then mr_decision r = MERGE \<and> linked_persons r =
             {p. p \<in> cr_person_id ` set cs
                 \<and> (\<exists>m. chain_result tp g now ids addr attrs rt p = Some m \<and> mr_decision m = MERGE)}
      else mr_decision r \<noteq> MERGE \<and> mr_additional_linked_person_ids r = [])"
proof -
  let ?chain = "chain_result tp g now ids addr attrs rt" and ?ps = "unique_candidates cs None"
  have mp: "set (merge_persons ?chain ?ps) =
      {p. p \<in> cr_person_id ` set cs \<and> (\<exists>m. ?chain p = Some m \<and> mr_decision m = MERGE)}"
    by (auto simp: merge_persons_mem unique_candidates_set)
  show ?thesis
  proof (cases "merge_persons ?chain ?ps = []")
    case True
    with mp have "\<not> (\<exists>c \<in> set cs. \<exists>m. ?chain (cr_person_id c) = Some m \<and> mr_decision m = MERGE)" by auto
    with chain.pick_best_no_merge(1,2) [OF True] show ?thesis
      by (simp add: evaluate_eq_spec engine_spec_def no_candidates_result_def)
  next
    case False
    then have ne: "?ps \<noteq> []" by (auto simp: merge_persons_def)
    from False have "last (merge_persons ?chain ?ps) \<in> set (merge_persons ?chain ?ps)" by (rule last_in_set)
    then obtain x m where "x \<in> set cs" "?chain (cr_person_id x) = Some m" "mr_decision m = MERGE"
      unfolding mp by (elim CollectE conjE exE imageE) (rule that; simp)
    then have "\<exists>c \<in> set cs. \<exists>m. ?chain (cr_person_id c) = Some m \<and> mr_decision m = MERGE"
      by blast
    with chain.pick_best_merge(1,2) [OF False] ne show ?thesis
      by (simp add: evaluate_eq_spec engine_spec_def mp)
  qed
qed

text \<open>C11: the order in which candidates are found, and how often, does not matter: two candidate
  lists with the same persons get the same decision and confidence, and the same result unless it
  is a review.\<close>

theorem candidate_order_irrelevant:
  assumes "cr_person_id ` set cs = cr_person_id ` set ds"
  shows "\<exists>a b. evaluate tp g now cs ids addr attrs rt None = Inr a
           \<and> evaluate tp g now ds ids addr attrs rt None = Inr b
           \<and> mr_decision a = mr_decision b \<and> mr_confidence a = mr_confidence b
           \<and> (mr_decision a = REVIEW \<or> a = b)"
proof -
  have same: "set (unique_candidates cs None) = set (unique_candidates ds None)"
    using assms by (simp add: unique_candidates_set)
  then have nil: "unique_candidates cs None = [] \<longleftrightarrow> unique_candidates ds None = []"
    by (metis set_empty)
  let ?chain = "chain_result tp g now ids addr attrs rt"
  let ?a = "pick_best (collected_results ?chain (unique_candidates cs None))"
  let ?b = "pick_best (collected_results ?chain (unique_candidates ds None))"
  note order = chain.pick_best_order [OF same, where tp = tp and g = g and now = now and ids = ids
      and addr = addr and attrs = attrs and rt = rt]
  have spec: "engine_spec ?chain (unique_candidates cs None) None =
        (if unique_candidates ds None = [] then no_candidates_result else ?a)"
    "engine_spec ?chain (unique_candidates ds None) None =
        (if unique_candidates ds None = [] then no_candidates_result else ?b)"
    by (simp_all add: engine_spec_def nil)
  show ?thesis
    unfolding evaluate_eq_spec spec using order by auto
qed

theorem candidate_order_irrelevant_witness:
  "\<exists>a b. evaluate sample_tp sample_graph 0 [\<lparr>cr_person_id = ''p1'', cr_source = ''identifier''\<rparr>,
        \<lparr>cr_person_id = ''p2'', cr_source = ''identifier''\<rparr>] sample_incoming None [] IDENTITY None = Inr a
     \<and> evaluate sample_tp sample_graph 0 [\<lparr>cr_person_id = ''p2'', cr_source = ''address''\<rparr>,
        \<lparr>cr_person_id = ''p1'', cr_source = ''address''\<rparr>] sample_incoming None [] IDENTITY None = Inr b
     \<and> mr_decision a = mr_decision b"
proof -
  have "cr_person_id ` set [\<lparr>cr_person_id = ''p1'', cr_source = ''identifier''\<rparr>,
        \<lparr>cr_person_id = ''p2'', cr_source = ''identifier''\<rparr>] =
      cr_person_id ` set [\<lparr>cr_person_id = ''p2'', cr_source = ''address''\<rparr>,
        \<lparr>cr_person_id = ''p1'', cr_source = ''address''\<rparr>]" by auto
  from candidate_order_irrelevant [OF this, of sample_tp sample_graph 0 sample_incoming None "[]" IDENTITY]
  show ?thesis by blast
qed

definition merged_persons :: "match_result \<Rightarrow> string set" where
  "merged_persons r = (if mr_decision r = MERGE then linked_persons r else {})"

text \<open>C4: a person blocked by a no-match lock is never merged into, whatever the previous person
  of the record is.\<close>

theorem locked_person_never_merged:
  assumes "lock_blocks g now p ids"
  shows "\<exists>r. evaluate tp g now cs ids addr attrs rt cont = Inr r \<and> p \<notin> merged_persons r"
proof -
  have "chain_result tp g now ids addr attrs rt p = None"
    using assms chain_result_cases by (metis not_None_eq)
  then show ?thesis
    using engine_merge_source [of tp g now ids addr attrs rt "unique_candidates cs cont" cont p]
    by (auto simp: evaluate_eq_spec merged_persons_def)
qed

definition locked_graph :: graph where
  "locked_graph = \<lparr>g_nodes = [(PersonN ''p1'', [(''status'', JStr ''active'')]), (PersonN ''p2'', [(''status'', JStr ''active'')])],
     g_edges = [\<lparr>e_type = IDENTIFIED_BY, e_src = PersonN ''p2'', e_dst = IdentifierN ''phone'' ''global'' ''+6591234567'', e_props = []\<rparr>,
       \<lparr>e_type = NO_MATCH_LOCK, e_src = PersonN ''p1'', e_dst = PersonN ''p2'', e_props = []\<rparr>]\<rparr>"

theorem locked_person_never_merged_witness:
  "\<exists>r. evaluate sample_tp locked_graph 0 [\<lparr>cr_person_id = ''p1'', cr_source = ''identifier''\<rparr>] sample_incoming None []
     IDENTITY (Some ''p1'') = Inr r \<and> ''p1'' \<notin> merged_persons r"
  by (rule locked_person_never_merged)
     (simp add: lock_blocks_def locked_graph_def sample_incoming_def mk_identifier_def is_usable_def has_node_def
       identifier_owners_def identifier_matches_def active_person_def node_prop_def json_get_def rel_active_def
       edge_prop_def locked_pair_def lock_active_def)

text \<open>C5: a changed record keeps its previous person: the result never opens a new person and never
  links further ones; it is a review naming the previous person, or it merges on the strength of
  one candidate's own chain, which is the previous person itself or one that reaches 0.90 with a
  margin of 0.10 over the previous person's own result.\<close>

theorem reassignment_is_guarded:
  "\<exists>r. evaluate tp g now cs ids addr attrs rt (Some p) = Inr r
     \<and> \<not> mr_is_new_person r \<and> mr_additional_linked_person_ids r = []
     \<and> ((mr_decision r = REVIEW \<and> mr_matched_person_id r = Some p)
        \<or> (mr_decision r = MERGE \<and> (\<exists>q. chain_result tp g now ids addr attrs rt q = Some r
             \<and> mr_matched_person_id r = Some q
             \<and> (q = p \<or> reassignable r (chain_result tp g now ids addr attrs rt p)))))"
proof -
  have ne: "unique_candidates cs (Some p) \<noteq> []" by (simp add: unique_candidates_Nil_iff)
  show ?thesis
    using chain.settle_continuity_settled [where p = p and pids = "unique_candidates cs (Some p)" and tp = tp
        and g = g and now = now and ids = ids and addr = addr and attrs = attrs and rt = rt]
      chain_result_contract(1)
    by (fastforce simp: evaluate_eq_spec engine_spec_def ne chain.settled_def)
qed

text \<open>C3: whatever candidates the engine is given, a conversation record is merged only into persons
  that actively hold one of its identifiers from a source other than a conversation: each person
  the result of a merge decision links, the main one and the additional ones, has such an identifier.
  (Links for records that are held for review, and to new persons, are not merges.)\<close>

theorem conversation_links_corroborated_persons:
  assumes "evaluate tp g now cs ids addr attrs CONVERSATION cont = Inr r" and "p \<in> merged_persons r"
  shows "\<exists>i \<in> set ids. \<exists>rel \<in> set (out_edges g IDENTIFIED_BY (PersonN p)). rel_active rel
           \<and> identifier_matches (ni_identifier_type i) (ni_normalized_value i) (e_dst rel)
           \<and> system_sourced_edge g rel"
proof -
  let ?spec = "engine_spec (chain_result tp g now ids addr attrs CONVERSATION) (unique_candidates cs cont) cont"
  from assms have "mr_decision ?spec = MERGE" "p \<in> linked_persons ?spec"
    by (auto simp: evaluate_eq_spec merged_persons_def split: if_splits)
  then obtain m where m: "chain_result tp g now ids addr attrs CONVERSATION p = Some m" "mr_decision m = MERGE"
    by (rule engine_merge_source)
  from m(1) show ?thesis
  proof (cases rule: chain_result_cases)
    case hard
    then show ?thesis by (simp add: SYSTEM_FAMILY_def)
  next
    case (scored c)
    from conversation_merge_evidence [OF scored(1) m(2)] show ?thesis by blast
  qed
qed

lemma sample_unlocked: "check_no_match_lock sample_graph 0 ''p1'' ids = None"
proof -
  have "\<not> locked_pair sample_graph 0 a b" for a b
    by (simp add: locked_pair_def sample_graph_def sample_ident_def)
  then have "map_of (prefetch_no_match_lock_owners sample_graph 0 [''p1''] ids) ''p1'' = None"
    by (simp add: prefetch_None_iff lock_blocks_def list_ex_iff)
  then show ?thesis by (simp add: check_no_match_lock_def)
qed

lemma sample_engine_run:
  "\<exists>r. evaluate sample_tp sample_graph 0 [\<lparr>cr_person_id = ''p1'', cr_source = ''identifier''\<rparr>] sample_incoming None []
     CONVERSATION None = Inr r \<and> ''p1'' \<in> merged_persons r"
proof -
  have fall: "evaluate_deterministic sample_graph 0 ''p1'' sample_incoming CONVERSATION None = None"
    by (simp add: evaluate_deterministic_def sample_unlocked check_government_id_def sample_incoming_def
        mk_identifier_def SYSTEM_FAMILY_def)
  obtain m c where m: "evaluate_heuristic sample_tp sample_graph ''p1'' sample_incoming None [] CONVERSATION Map.empty = Inr (m, c)"
    "mr_decision m = MERGE" using sample_run by blast
  let ?chain = "chain_result sample_tp sample_graph 0 sample_incoming None [] CONVERSATION"
  have run: "?chain ''p1'' = Some m" by (simp add: chain_result_def fall m)
  then have mp: "merge_persons ?chain [''p1''] = [''p1'']" by (simp add: merge_persons_def m)
  then have ne: "merge_persons ?chain [''p1''] \<noteq> []" by simp
  have u: "unique_candidates [\<lparr>cr_person_id = ''p1'', cr_source = ''identifier''\<rparr>] None = [''p1'']"
    by (simp add: unique_candidates_def)
  from chain.pick_best_merge(1,2) [OF ne] show ?thesis
    by (simp add: evaluate_eq_spec engine_spec_def u merged_persons_def mp)
qed

theorem conversation_links_corroborated_persons_witness:
  "\<exists>i \<in> set sample_incoming. \<exists>rel \<in> set (out_edges sample_graph IDENTIFIED_BY (PersonN ''p1'')). rel_active rel
     \<and> identifier_matches (ni_identifier_type i) (ni_normalized_value i) (e_dst rel) \<and> system_sourced_edge sample_graph rel"
proof -
  obtain r where "evaluate sample_tp sample_graph 0 [\<lparr>cr_person_id = ''p1'', cr_source = ''identifier''\<rparr>] sample_incoming None []
     CONVERSATION None = Inr r" "''p1'' \<in> merged_persons r" using sample_engine_run by blast
  then show ?thesis by (rule conversation_links_corroborated_persons)
qed

text \<open>The hard rules look at the incoming government identifiers in order, so a record that
  carries two of them is merged or refused depending on which one comes first.\<close>

theorem government_id_order_decides:
  "map_option mr_decision (evaluate_deterministic sample_graph 0 ''p1''
      [mk_identifier ''nric'' ''S1234567D'', mk_identifier ''nric'' ''S7654321B''] IDENTITY None) = Some MERGE
   \<and> map_option mr_decision (evaluate_deterministic sample_graph 0 ''p1''
      [mk_identifier ''nric'' ''S7654321B'', mk_identifier ''nric'' ''S1234567D''] IDENTITY None) = Some NO_MATCH"
proof -
  have reads: "PERSON_HAS_VALID_GOVT_ID sample_graph ''p1'' v \<longleftrightarrow> v = ''S1234567D''"
    "PERSON_HAS_CONFLICTING_GOVT_ID sample_graph ''p1'' v \<longleftrightarrow> v \<noteq> ''S1234567D''" for v
    by (auto simp: PERSON_HAS_VALID_GOVT_ID_def PERSON_HAS_CONFLICTING_GOVT_ID_def out_edges_def has_node_def
      identifier_matches_def rel_active_def edge_prop_def json_get_def sample_graph_def sample_ident_def)
  show ?thesis
    by (simp add: evaluate_deterministic_def sample_unlocked check_government_id_def mk_identifier_def SYSTEM_FAMILY_def reads)
qed

end
