(* ===== verification/VehicleHeuristic.thy ===== *)
theory VehicleHeuristic
  imports Domain
begin

text \<open>
  The vehicle-identity heuristic for sales whose customer is pending
  (\<open>matching/vehicle_heuristic.py\<close>) and the decision \<open>_propose_one_pending_sale\<close> takes on the
  candidates its query returned (\<open>pipeline_sales.py\<close>). The query, the staging of the sale and the
  writes that carry out a decision are outside this theory: a decision is a value of \<open>proposal\<close>.
\<close>

definition VEHICLE_MATCH_AUTO :: f64 where "VEHICLE_MATCH_AUTO = fl (90 / 100)"
definition VEHICLE_MATCH_REVIEW :: f64 where "VEHICLE_MATCH_REVIEW = fl (70 / 100)"

record vehicle_candidate =
  vc_person_id :: string
  vc_vehicle_id :: string
  vc_rel_type :: string
  vc_is_active :: bool
  vc_conflict_flag :: bool
  vc_last_confirmed_at :: "string option"
  vc_contact_channels :: "string list"
  vc_nric_blocked :: bool

section \<open>Selection\<close>

definition is_best_tier :: "vehicle_candidate \<Rightarrow> bool" where
  "is_best_tier c = (vc_rel_type c = ''OWNS_VEHICLE'' \<and> vc_is_active c \<and> \<not> vc_conflict_flag c)"

definition tier_rank :: "vehicle_candidate \<Rightarrow> nat" where
  "tier_rank c = (if is_best_tier c then 1 else 0)"

definition confirmed :: "vehicle_candidate \<Rightarrow> string" where
  "confirmed c = or_empty (vc_last_confirmed_at c)"

definition select_best_vehicle_candidate :: "vehicle_candidate list \<Rightarrow> vehicle_candidate option" where
  "select_best_vehicle_candidate candidates =
     (case py_max id (map tier_rank candidates) of
        None \<Rightarrow> None
      | Some best_tier_rank \<Rightarrow>
          (let top = [c \<leftarrow> candidates. tier_rank c = best_tier_rank]
           in case py_max confirmed top of
                None \<Rightarrow> None
              | Some most_recent \<Rightarrow>
                  py_min vc_person_id [c \<leftarrow> top. confirmed c = confirmed most_recent]))"

section \<open>Results\<close>

definition build_vehicle_match_result :: "vehicle_candidate \<Rightarrow> match_result" where
  "build_vehicle_match_result c =
     (let joined = py_join '','' (sort (vc_contact_channels c));
          channels = (if joined = [] then ''none'' else joined);
          reason = ''vehicle_identity + '' @ channels @ '' match ('' @ vc_rel_type c @ '', person ''
            @ vc_person_id c @ '', vehicle '' @ vc_vehicle_id c @ '')'';
          reason = (if vc_conflict_flag c
            then reason @ ''; vehicle has conflicting ownership claims'' else reason)
      in (mk_result MERGE VEHICLE_MATCH_AUTO [reason] HEURISTIC)
         \<lparr>mr_matched_person_id := Some (vc_person_id c),
          mr_feature_snapshot :=
            [(''candidate_person_id'', JStr (vc_person_id c)),
             (''vehicle_id'', JStr (vc_vehicle_id c)),
             (''rel_type'', JStr (vc_rel_type c)),
             (''conflict_flag'', JBool (vc_conflict_flag c)),
             (''contact_channels'', JList (map JStr (vc_contact_channels c))),
             (''nric_blocked'', JBool False),
             (''signal_source'', JStr ''vehicle'')]\<rparr>)"

definition build_vehicle_no_match_result :: "vehicle_candidate \<Rightarrow> match_result" where
  "build_vehicle_no_match_result c =
     (mk_result NO_MATCH 0 [''nric_anti_match''] HEURISTIC)
       \<lparr>mr_matched_person_id := Some (vc_person_id c),
        mr_feature_snapshot :=
          [(''candidate_person_id'', JStr (vc_person_id c)),
           (''vehicle_id'', JStr (vc_vehicle_id c)),
           (''nric_blocked'', JBool True),
           (''signal_source'', JStr ''vehicle'')]\<rparr>"

definition review_person_ids :: "vehicle_candidate \<Rightarrow> vehicle_candidate list \<Rightarrow> string list" where
  "review_person_ids best candidates =
     sorted_set [vc_person_id c. c \<leftarrow> candidates,
                   \<not> vc_nric_blocked c \<or> vc_person_id c = vc_person_id best]"

definition build_vehicle_review_result :: "vehicle_candidate list \<Rightarrow> match_result result" where
  "build_vehicle_review_result candidates =
     (case select_best_vehicle_candidate candidates of
        None \<Rightarrow> raise (AssertionError [])
      | Some best \<Rightarrow>
          (let person_ids = review_person_ids best candidates
           in ok ((mk_result REVIEW VEHICLE_MATCH_REVIEW [''multiple_vehicle_candidates''] HEURISTIC)
             \<lparr>mr_matched_person_id := Some (vc_person_id best),
              mr_additional_linked_person_ids := [p \<leftarrow> person_ids. p \<noteq> vc_person_id best],
              mr_feature_snapshot :=
                [(''candidate_person_id'', JStr (vc_person_id best)),
                 (''vehicle_id'', JStr (vc_vehicle_id best)),
                 (''candidate_person_ids'', JList (map JStr person_ids)),
                 (''candidate_count'', JInt (int (length person_ids))),
                 (''signal_source'', JStr ''vehicle'')]\<rparr>)))"

section \<open>The decision on a pending sale\<close>

datatype proposal =
    Keep_Pending
  | Record_No_Match match_result
  | Stage_Review match_result
  | Auto_Link match_result string

definition propose :: "vehicle_candidate list \<Rightarrow> proposal result" where
  "propose candidates =
     (case select_best_vehicle_candidate candidates of
        None \<Rightarrow> ok Keep_Pending
      | Some best \<Rightarrow>
          (let unblocked = [c \<leftarrow> candidates. vc_person_id c \<noteq> vc_person_id best];
               next_best = select_best_vehicle_candidate unblocked
           in if vc_nric_blocked best \<and> next_best = None
              then ok (Record_No_Match (build_vehicle_no_match_result best))
              else let (best, candidates) = (if vc_nric_blocked best then (the next_best, unblocked)
                                             else (best, candidates))
                   in if 2 \<le> length (remdups (map vc_person_id candidates))
                      then try_bind (build_vehicle_review_result candidates) (\<lambda>r. ok (Stage_Review r))
                      else ok (Auto_Link (build_vehicle_match_result best) (vc_person_id best))))"

section \<open>What selection promises\<close>

lemma select_None_iff: "select_best_vehicle_candidate cs = None \<longleftrightarrow> cs = []"
proof (cases "py_max id (map tier_rank cs)")
  case None
  then show ?thesis by (auto simp: select_best_vehicle_candidate_def)
next
  case (Some b)
  from py_max_mem [OF Some] have "[c \<leftarrow> cs. tier_rank c = b] \<noteq> []" by (auto simp: filter_empty_conv)
  then obtain m where m: "py_max confirmed [c \<leftarrow> cs. tier_rank c = b] = Some m"
    by (metis not_None_eq py_max_None_iff)
  from py_max_mem [OF m] have "[c \<leftarrow> [c \<leftarrow> cs. tier_rank c = b]. confirmed c = confirmed m] \<noteq> []"
    by (auto simp: filter_empty_conv)
  then have "py_min vc_person_id [c \<leftarrow> [c \<leftarrow> cs. tier_rank c = b]. confirmed c = confirmed m] \<noteq> None"
    by simp
  with Some m show ?thesis by (auto simp: select_best_vehicle_candidate_def Let_def)
qed

text \<open>The order of the ranking: tier, then recency, then the smaller person.\<close>

definition outranks :: "vehicle_candidate \<Rightarrow> vehicle_candidate \<Rightarrow> bool" where
  "outranks a b \<longleftrightarrow> tier_rank b < tier_rank a
     \<or> (tier_rank a = tier_rank b \<and> (confirmed b < confirmed a
         \<or> (confirmed a = confirmed b \<and> vc_person_id a \<le> vc_person_id b)))"

lemma select_Some:
  assumes "select_best_vehicle_candidate cs = Some best"
  shows "best \<in> set cs" and "\<And>c. c \<in> set cs \<Longrightarrow> outranks best c"
proof -
  from assms obtain b m where b: "py_max id (map tier_rank cs) = Some b"
    and m: "py_max confirmed [c \<leftarrow> cs. tier_rank c = b] = Some m"
    and best: "py_min vc_person_id [c \<leftarrow> [c \<leftarrow> cs. tier_rank c = b]. confirmed c = confirmed m] = Some best"
    by (auto simp: select_best_vehicle_candidate_def Let_def split: option.splits)
  from py_min_mem [OF best] have mem: "best \<in> set cs" "tier_rank best = b" "confirmed best = confirmed m"
    by auto
  then show "best \<in> set cs" by simp
  fix c assume c: "c \<in> set cs"
  from py_max_ge [OF b, of "tier_rank c"] c have tier: "tier_rank c \<le> b" by simp
  show "outranks best c"
  proof (cases "tier_rank c = b")
    case False
    with tier mem show ?thesis by (simp add: outranks_def)
  next
    case True
    with py_max_ge [OF m, of c] c have rec: "confirmed c \<le> confirmed m" by simp
    show ?thesis
    proof (cases "confirmed c = confirmed m")
      case False
      with rec True mem show ?thesis by (simp add: outranks_def)
    next
      case eq: True
      with py_min_le [OF best, of c] c True have "vc_person_id best \<le> vc_person_id c" by simp
      with eq True mem show ?thesis by (simp add: outranks_def)
    qed
  qed
qed

section \<open>Who a decision links\<close>

definition linked_by :: "proposal \<Rightarrow> string set" where
  "linked_by p = (case p of
      Auto_Link r q \<Rightarrow> {q}
    | Stage_Review r \<Rightarrow> set_option (mr_matched_person_id r) \<union> set (mr_additional_linked_person_ids r)
    | _ \<Rightarrow> {})"

definition blocked_persons :: "vehicle_candidate list \<Rightarrow> string set" where
  "blocked_persons cs = vc_person_id ` {c \<in> set cs. vc_nric_blocked c}"

text \<open>The block is a fact about the person, so all rows of a person carry the same flag.\<close>

definition block_consistent :: "vehicle_candidate list \<Rightarrow> bool" where
  "block_consistent cs = list_all (\<lambda>c. list_all (\<lambda>d.
     vc_person_id c = vc_person_id d \<longrightarrow> vc_nric_blocked c = vc_nric_blocked d) cs) cs"

lemma unblocked_person:
  "block_consistent cs \<Longrightarrow> c \<in> set cs \<Longrightarrow> \<not> vc_nric_blocked c \<Longrightarrow> vc_person_id c \<notin> blocked_persons cs"
  unfolding block_consistent_def blocked_persons_def list_all_iff by fastforce

lemma review_links:
  assumes "select_best_vehicle_candidate cs = Some best" "\<not> vc_nric_blocked best" "block_consistent cs"
  shows "\<exists>r. build_vehicle_review_result cs = Inr r \<and> linked_by (Stage_Review r) \<inter> blocked_persons cs = {}"
proof -
  obtain r where r: "build_vehicle_review_result cs = Inr r"
    "linked_by (Stage_Review r) = insert (vc_person_id best) (set (review_person_ids best cs))"
    using assms(1) by (auto simp: build_vehicle_review_result_def Let_def linked_by_def)
  have "set (review_person_ids best cs) \<subseteq> vc_person_id ` {c \<in> set cs. \<not> vc_nric_blocked c} \<union> {vc_person_id best}"
    by (auto simp: review_person_ids_def)
  moreover have "vc_person_id best \<notin> blocked_persons cs"
    by (rule unblocked_person [OF assms(3) select_Some(1) [OF assms(1)] assms(2)])
  moreover have "vc_person_id ` {c \<in> set cs. \<not> vc_nric_blocked c} \<inter> blocked_persons cs = {}"
    using unblocked_person [OF assms(3)] by blast
  ultimately have "insert (vc_person_id best) (set (review_person_ids best cs)) \<inter> blocked_persons cs = {}"
    by blast
  with r show ?thesis by simp
qed

lemma decision_links:
  assumes "select_best_vehicle_candidate cs = Some best" "\<not> vc_nric_blocked best" "block_consistent cs"
  shows "\<exists>d. (if 2 \<le> length (remdups (map vc_person_id cs))
              then try_bind (build_vehicle_review_result cs) (\<lambda>r. ok (Stage_Review r))
              else ok (Auto_Link (build_vehicle_match_result best) (vc_person_id best))) = Inr d
           \<and> linked_by d \<inter> blocked_persons cs = {}"
proof -
  obtain r where "build_vehicle_review_result cs = Inr r" "linked_by (Stage_Review r) \<inter> blocked_persons cs = {}"
    using review_links [OF assms] by blast
  moreover have "linked_by (Auto_Link (build_vehicle_match_result best) (vc_person_id best)) \<inter> blocked_persons cs = {}"
    using unblocked_person [OF assms(3) select_Some(1) [OF assms(1)] assms(2)] by (simp add: linked_by_def)
  ultimately show ?thesis by simp
qed

lemma propose_links_unblocked:
  assumes "block_consistent cs" "blocked_persons cs \<subseteq> {b}"
  shows "\<exists>d. propose cs = Inr d \<and> linked_by d \<inter> blocked_persons cs = {}"
proof (cases "select_best_vehicle_candidate cs")
  case None
  then show ?thesis by (simp add: propose_def linked_by_def)
next
  case (Some best)
  let ?rest = "[c \<leftarrow> cs. vc_person_id c \<noteq> vc_person_id best]"
  show ?thesis
  proof (cases "vc_nric_blocked best")
    case False
    with Some decision_links [OF Some False assms(1)] show ?thesis by (simp add: propose_def)
  next
    case True
    with select_Some(1) [OF Some] assms(2) have b: "vc_person_id best = b"
      by (auto simp: blocked_persons_def)
    show ?thesis
    proof (cases "select_best_vehicle_candidate ?rest")
      case None
      with Some True show ?thesis by (simp add: propose_def linked_by_def Let_def)
    next
      case more: (Some c)
      from select_Some(1) [OF more] b have c: "c \<in> set cs" "vc_person_id c \<noteq> b" by auto
      then have "\<not> vc_nric_blocked c" using assms(2) by (auto simp: blocked_persons_def)
      moreover have "block_consistent ?rest" using assms(1) by (auto simp: block_consistent_def list_all_iff)
      ultimately obtain d where d: "(if 2 \<le> length (remdups (map vc_person_id ?rest))
              then try_bind (build_vehicle_review_result ?rest) (\<lambda>r. ok (Stage_Review r))
              else ok (Auto_Link (build_vehicle_match_result c) (vc_person_id c))) = Inr d"
        using decision_links [OF more] by blast
      have "linked_by d \<subseteq> vc_person_id ` set ?rest"
        using d select_Some(1) [OF more] more
        by (auto simp: linked_by_def build_vehicle_review_result_def review_person_ids_def Let_def split: if_splits)
      with assms(2) b have "linked_by d \<inter> blocked_persons cs = {}" by auto
      with Some True more d show ?thesis by (simp add: propose_def Let_def)
    qed
  qed
qed

section \<open>Properties\<close>

text \<open>The selection returns a candidate of the list that no other candidate outranks (tier of the
  relation first, then the latest confirmation, then the smallest person), and it fails to select
  only from an empty list.\<close>

theorem vehicle_selection_ranks:
  "case select_best_vehicle_candidate cs of
     None \<Rightarrow> cs = []
   | Some best \<Rightarrow> best \<in> set cs \<and> list_all (outranks best) cs"
  using select_Some select_None_iff [of cs] by (auto simp: list_all_iff split: option.split)

text \<open>When at most one of the candidate persons is blocked by a conflicting NRIC, no decision on
  a pending sale links a blocked person: an automatic link and a review name unblocked persons only.\<close>

theorem single_blocked_person_not_linked:
  assumes "block_consistent cs" and "blocked_persons cs \<subseteq> {b}"
  shows "\<exists>d. propose cs = Inr d \<and> linked_by d \<inter> blocked_persons cs = {}"
  by (rule propose_links_unblocked [OF assms])

definition sample_vehicle :: "string \<Rightarrow> string \<Rightarrow> bool \<Rightarrow> vehicle_candidate" where
  "sample_vehicle p rel blocked =
     \<lparr>vc_person_id = p, vc_vehicle_id = ''v1'', vc_rel_type = rel, vc_is_active = True,
      vc_conflict_flag = False, vc_last_confirmed_at = None, vc_contact_channels = [''phone''],
      vc_nric_blocked = blocked\<rparr>"

theorem single_blocked_person_not_linked_witness:
  "\<exists>d. propose [sample_vehicle ''p1'' ''OWNS_VEHICLE'' True, sample_vehicle ''p2'' ''BOUGHT_VEHICLE'' False] = Inr d
     \<and> linked_by d \<inter> blocked_persons [sample_vehicle ''p1'' ''OWNS_VEHICLE'' True,
         sample_vehicle ''p2'' ''BOUGHT_VEHICLE'' False] = {}"
  by (rule single_blocked_person_not_linked [where b = "''p1''"])
     (auto simp: block_consistent_def blocked_persons_def sample_vehicle_def)

text \<open>When two candidate persons are both blocked, the code drops only the better one and links
  the sale automatically to the other, although that person's NRIC conflicts too.\<close>

theorem second_blocked_person_auto_linked:
  "\<exists>r. propose [sample_vehicle ''p1'' ''OWNS_VEHICLE'' True, sample_vehicle ''p2'' ''OWNS_VEHICLE'' True]
         = Inr (Auto_Link r ''p2'')
     \<and> mr_decision r = MERGE \<and> ''p2'' \<in> blocked_persons
         [sample_vehicle ''p1'' ''OWNS_VEHICLE'' True, sample_vehicle ''p2'' ''OWNS_VEHICLE'' True]"
  by (simp add: propose_def select_best_vehicle_candidate_def sample_vehicle_def tier_rank_def is_best_tier_def
      confirmed_def build_vehicle_match_result_def Let_def blocked_persons_def image_iff conj_disj_distribR ex_disj_distrib)

end
