(* ===== verification/SourceLifecycle.thy ===== *)
theory SourceLifecycle
  imports Domain
begin

text \<open>
  Versions of a source record (\<open>record_lifecycle.py\<close>): the lifecycle state read under the
  identity lock, the plan for an incoming version, and the guarded Cypher transitions of
  \<open>graph/queries/source_records.py\<close>. The store keeps the source-record nodes, their
  \<open>PREVIOUS_VERSION_OF\<close> relationships, the review cases about them, and the entities a record can be owned by. The identity lock
  serialises the transactions of one source identity, so a transaction is a function on the store.
  \<open>datetime()\<close> is the argument \<open>now\<close>; \<open>randomUUID()\<close> is an argument \<open>pk\<close>.
\<close>

section \<open>The store\<close>

record stored_version =
  sv_pk :: string
  sv_system :: string
  sv_instance :: string
  sv_record_id :: string
  sv_entity :: "string option"
  sv_version :: "int option"
  sv_hash :: string
  sv_status :: "string option"
  sv_is_latest :: "bool option"
  sv_expected_active :: "string option"
  sv_linked :: "string list"
  sv_normalized_payload :: "string option"
  sv_raw_payload :: "string option"
  sv_rejection_reason :: "string option"
  sv_link_failure_reason :: "string option"
  sv_superseded_at :: "int option"
  sv_activated_at :: "int option"
  sv_rejected_at :: "int option"
  sv_link_failed_at :: "int option"
  sv_updated_at :: "int option"

record review_case =
  rc_about :: "string list"
  rc_queue_state :: string
  rc_resolution :: "string option"
  rc_resolution_reason :: "string option"
  rc_resolved_at :: "int option"
  rc_updated_at :: "int option"

record version_store =
  vs_systems :: "string list"
  vs_entities :: "string list"
  vs_versions :: "stored_version list"
  vs_previous :: "(string \<times> string) list"
  vs_reviews :: "review_case list"

type_synonym source_identity = "string \<times> string \<times> string"

definition identity_of :: "stored_version \<Rightarrow> source_identity" where
  "identity_of v = (sv_system v, sv_instance v, sv_record_id v)"

text \<open>\<open>lifecycle_status = 'active' OR (lifecycle_status IS NULL AND is_latest = true)\<close>.\<close>

definition active_version :: "stored_version \<Rightarrow> bool" where
  "active_version v = (sv_status v = Some ''active''
     \<or> (sv_status v = None \<and> sv_is_latest v = Some True))"

definition pending_version :: "stored_version \<Rightarrow> bool" where
  "pending_version v = (sv_status v = Some ''pending_review'')"

definition find_version :: "version_store \<Rightarrow> string \<Rightarrow> stored_version option" where
  "find_version st pk = first_where (\<lambda>v. sv_pk v = pk) (vs_versions st)"

definition update_version ::
    "string \<Rightarrow> (stored_version \<Rightarrow> stored_version) \<Rightarrow> version_store \<Rightarrow> version_store" where
  "update_version pk f st =
     st\<lparr>vs_versions := map (\<lambda>v. if sv_pk v = pk then f v else v) (vs_versions st)\<rparr>"

section \<open>The lifecycle state of an identity\<close>

record source_version_state =
  vt_source_record_pk :: string
  vt_source_record_version :: int
  vt_record_hash :: string
  vt_lifecycle_status :: lifecycle_status
  vt_linked_person_ids :: "string list"
  vt_normalized_payload :: "string option"
  vt_raw_payload :: "string option"

record source_lifecycle_state =
  sl_active :: "source_version_state option"
  sl_pending :: "source_version_state option"
  sl_next_version :: int

definition opt_json :: "('a \<Rightarrow> json) \<Rightarrow> 'a option \<Rightarrow> json" where
  "opt_json f x = (case x of None \<Rightarrow> JNull | Some y \<Rightarrow> f y)"

definition identity_history :: "version_store \<Rightarrow> source_identity \<Rightarrow> stored_version list" where
  "identity_history st i = [v \<leftarrow> vs_versions st. identity_of v = i]"

definition max_version :: "stored_version list \<Rightarrow> int option" where
  "max_version vs = py_max id [n. v \<leftarrow> vs, n \<leftarrow> (case sv_version v of None \<Rightarrow> [] | Some n \<Rightarrow> [n])]"

definition version_row :: "int option \<Rightarrow> stored_version \<Rightarrow> json_obj" where
  "version_row max_v v =
     [(''source_record_pk'', JStr (sv_pk v)),
      (''source_record_version'', opt_json JInt (sv_version v)),
      (''record_hash'', JStr (sv_hash v)),
      (''lifecycle_status'', JStr (case sv_status v of None \<Rightarrow> ''active'' | Some s \<Rightarrow> s)),
      (''linked_person_ids'', JList (map JStr (remdups (sv_linked v)))),
      (''normalized_payload'', opt_json JStr (sv_normalized_payload v)),
      (''raw_payload'', opt_json JStr (sv_raw_payload v)),
      (''max_source_record_version'', opt_json JInt max_v)]"

definition null_row :: "int option \<Rightarrow> json_obj" where
  "null_row max_v =
     [(''source_record_pk'', JNull), (''source_record_version'', JNull), (''record_hash'', JNull),
      (''lifecycle_status'', JNull), (''linked_person_ids'', JList []),
      (''normalized_payload'', JNull), (''raw_payload'', JNull),
      (''max_source_record_version'', opt_json JInt max_v)]"

text \<open>The key of \<open>ORDER BY toInteger(source_record_version) DESC\<close>: nulls come first.\<close>

definition desc_key :: "stored_version \<Rightarrow> int \<times> int" where
  "desc_key v = (case sv_version v of None \<Rightarrow> (0, 0) | Some n \<Rightarrow> (1, - n))"

definition LOCK_AND_GET_SOURCE_STATE :: "version_store \<Rightarrow> source_identity \<Rightarrow> json_obj list" where
  "LOCK_AND_GET_SOURCE_STATE st i =
     (if fst i \<notin> set (vs_systems st) then []
      else let history = identity_history st i;
               max_v = max_version history;
               open_versions = [v \<leftarrow> history. active_version v \<or> pending_version v]
           in if open_versions = [] then [null_row max_v]
              else map (version_row max_v) (sort_key desc_key open_versions))"

section \<open>Parsing the rows\<close>

definition row_value :: "json_obj \<Rightarrow> string \<Rightarrow> json result" where
  "row_value row k = (case map_of row k of
      None \<Rightarrow> raise (DataError (''missing lifecycle row field: '' @ k)) | Some v \<Rightarrow> ok v)"

definition parse_string :: "json_obj \<Rightarrow> string \<Rightarrow> string result" where
  "parse_string row k = try_bind (row_value row k) (\<lambda>v. case v of
      JStr s \<Rightarrow> ok s | _ \<Rightarrow> raise (DataError (k @ '' must be a string'')))"

definition parse_optional_string :: "json_obj \<Rightarrow> string \<Rightarrow> string option result" where
  "parse_optional_string row k = (case map_of row k of
      None \<Rightarrow> ok None
    | Some v \<Rightarrow> (case v of JNull \<Rightarrow> ok None | JStr s \<Rightarrow> ok (Some s)
                 | _ \<Rightarrow> raise (DataError (k @ '' must be a string or null''))))"

definition parse_version :: "json_obj \<Rightarrow> int result" where
  "parse_version row = try_bind (row_value row ''source_record_version'') (\<lambda>v. case v of
      JInt n \<Rightarrow> if n < 1
        then raise (DataError ''source_record_version must be a positive integer'') else ok n
    | _ \<Rightarrow> raise (DataError ''source_record_version must be a positive integer''))"

definition parse_max_version :: "json_obj \<Rightarrow> int option result" where
  "parse_max_version row = try_bind (row_value row ''max_source_record_version'') (\<lambda>v. case v of
      JNull \<Rightarrow> ok None
    | JInt n \<Rightarrow> if n < 1
        then raise (DataError ''max_source_record_version must be a positive integer or null'')
        else ok (Some n)
    | _ \<Rightarrow> raise (DataError ''max_source_record_version must be a positive integer or null''))"

definition parse_person_ids :: "json_obj \<Rightarrow> string list result" where
  "parse_person_ids row = try_bind (row_value row ''linked_person_ids'') (\<lambda>v. case v of
      JList items \<Rightarrow> if list_all (\<lambda>x. json_str x \<noteq> None) items
        then ok (map (\<lambda>x. the (json_str x)) items)
        else raise (DataError ''linked_person_ids must be a list of strings'')
    | _ \<Rightarrow> raise (DataError ''linked_person_ids must be a list of strings''))"

fun any_not_null :: "json_obj \<Rightarrow> string list \<Rightarrow> bool result" where
  "any_not_null row [] = ok False"
| "any_not_null row (k # ks) =
     try_bind (row_value row k) (\<lambda>v. if v \<noteq> JNull then ok True else any_not_null row ks)"

definition parse_version_state :: "json_obj \<Rightarrow> source_version_state option result" where
  "parse_version_state row =
     try_bind (row_value row ''source_record_pk'') (\<lambda>pk.
       if pk = JNull then
         try_bind (any_not_null row [''source_record_version'', ''record_hash'', ''lifecycle_status''])
           (\<lambda>filled. if filled
              then raise (DataError ''null source_record_pk row contains version data'')
              else try_bind (row_value row ''linked_person_ids'') (\<lambda>ids.
                if ids = JList [] then ok None
                else raise (DataError ''null source_record_pk row must have empty linked_person_ids'')))
       else
         try_bind (parse_string row ''lifecycle_status'') (\<lambda>status_value.
           let unexpected = raise (DataError (''unexpected lifecycle_status: '' @ status_value))
           in case parse_lifecycle status_value of
                None \<Rightarrow> unexpected
              | Some status \<Rightarrow>
                  if status \<notin> {ACTIVE, PENDING_REVIEW} then unexpected
                  else try_bind (parse_string row ''source_record_pk'') (\<lambda>pk.
                       try_bind (parse_version row) (\<lambda>version.
                       try_bind (parse_string row ''record_hash'') (\<lambda>hash.
                       try_bind (parse_person_ids row) (\<lambda>ids.
                       try_bind (parse_optional_string row ''normalized_payload'') (\<lambda>normalized.
                       try_bind (parse_optional_string row ''raw_payload'') (\<lambda>raw_payload.
                         ok (Some \<lparr>vt_source_record_pk = pk, vt_source_record_version = version,
                           vt_record_hash = hash, vt_lifecycle_status = status,
                           vt_linked_person_ids = ids, vt_normalized_payload = normalized,
                           vt_raw_payload = raw_payload\<rparr>)))))))))"

record load_state =
  ld_active :: "source_version_state option"
  ld_pending :: "source_version_state option"
  ld_max :: "int option"
  ld_saw_row :: bool

definition load_row :: "json_obj \<Rightarrow> load_state \<Rightarrow> load_state result" where
  "load_row row ld =
     try_bind (parse_max_version row) (\<lambda>row_max.
       if ld_saw_row ld \<and> row_max \<noteq> ld_max ld
       then raise (DataError ''inconsistent max_source_record_version rows'')
       else let ld = ld\<lparr>ld_max := row_max, ld_saw_row := True\<rparr>
            in try_bind (parse_version_state row) (\<lambda>version. case version of
                 None \<Rightarrow> ok ld
               | Some v \<Rightarrow>
                   if (case row_max of None \<Rightarrow> True | Some m \<Rightarrow> m < vt_source_record_version v)
                   then raise (DataError
                     ''max_source_record_version is lower than an open source version'')
                   else if vt_lifecycle_status v = ACTIVE then
                     (if ld_active ld \<noteq> None then raise (DataError ''multiple active source versions'')
                      else ok (ld\<lparr>ld_active := Some v\<rparr>))
                   else (if ld_pending ld \<noteq> None
                         then raise (DataError ''multiple pending source versions'')
                         else ok (ld\<lparr>ld_pending := Some v\<rparr>))))"

definition load_rows :: "json_obj list \<Rightarrow> source_lifecycle_state result" where
  "load_rows rows =
     try_bind (fold_result load_row rows
                 \<lparr>ld_active = None, ld_pending = None, ld_max = None, ld_saw_row = False\<rparr>)
       (\<lambda>ld. ok \<lparr>sl_active = ld_active ld, sl_pending = ld_pending ld,
                 sl_next_version = (case ld_max ld of None \<Rightarrow> 1 | Some m \<Rightarrow> m + 1)\<rparr>)"

definition load_locked_source_state ::
    "version_store \<Rightarrow> source_identity \<Rightarrow> source_lifecycle_state result" where
  "load_locked_source_state st i = load_rows (LOCK_AND_GET_SOURCE_STATE st i)"

section \<open>The plan for an incoming version\<close>

record planned_version =
  pl_version :: int
  pl_active_source_record_pk :: "string option"
  pl_prior_person_ids :: "string list"
  pl_pending_to_reject :: "string option"
  pl_active_normalized_payload :: "string option"
  pl_active_raw_payload :: "string option"

datatype version_plan = Duplicate_Version string | Planned_Version planned_version

definition classify_incoming_hash :: "source_lifecycle_state \<Rightarrow> string \<Rightarrow> string option" where
  "classify_incoming_hash state record_hash =
     (case sl_active state of
        Some a \<Rightarrow> if vt_record_hash a = record_hash then Some (vt_source_record_pk a)
                  else (case sl_pending state of
                          Some p \<Rightarrow> if vt_record_hash p = record_hash
                                     then Some (vt_source_record_pk p) else None
                        | None \<Rightarrow> None)
      | None \<Rightarrow> (case sl_pending state of
                   Some p \<Rightarrow> if vt_record_hash p = record_hash
                              then Some (vt_source_record_pk p) else None
                 | None \<Rightarrow> None))"

definition plan_incoming_version :: "source_lifecycle_state \<Rightarrow> string \<Rightarrow> version_plan" where
  "plan_incoming_version state record_hash =
     (case classify_incoming_hash state record_hash of
        Some pk \<Rightarrow> Duplicate_Version pk
      | None \<Rightarrow> Planned_Version
          \<lparr>pl_version = sl_next_version state,
           pl_active_source_record_pk = map_option vt_source_record_pk (sl_active state),
           pl_prior_person_ids = (case sl_active state of None \<Rightarrow> [] | Some a \<Rightarrow> vt_linked_person_ids a),
           pl_pending_to_reject = map_option vt_source_record_pk (sl_pending state),
           pl_active_normalized_payload =
             (case sl_active state of None \<Rightarrow> None | Some a \<Rightarrow> vt_normalized_payload a),
           pl_active_raw_payload =
             (case sl_active state of None \<Rightarrow> None | Some a \<Rightarrow> vt_raw_payload a)\<rparr>)"

section \<open>The guarded transitions\<close>

text \<open>A query answers the store after it and whether it returned a row.\<close>

definition cancel_review :: "int \<Rightarrow> string \<Rightarrow> string \<Rightarrow> review_case \<Rightarrow> review_case" where
  "cancel_review now pk reason rc =
     (if pk \<in> set (rc_about rc) \<and> rc_queue_state rc \<in> {''open'', ''assigned'', ''deferred''}
      then rc\<lparr>rc_queue_state := ''cancelled'', rc_resolution := Some ''cancelled_superseded'',
              rc_resolution_reason := Some reason, rc_resolved_at := Some now,
              rc_updated_at := Some now\<rparr>
      else rc)"

definition REJECT_PENDING_SOURCE_RECORD ::
    "int \<Rightarrow> string \<Rightarrow> string \<Rightarrow> version_store \<Rightarrow> version_store \<times> bool" where
  "REJECT_PENDING_SOURCE_RECORD now pk reason st =
     (case find_version st pk of
        None \<Rightarrow> (st, False)
      | Some v \<Rightarrow>
          if sv_status v \<noteq> Some ''pending_review'' then (st, False)
          else (let st = update_version pk (\<lambda>v. v\<lparr>sv_status := Some ''rejected'',
                     sv_rejection_reason := Some reason, sv_rejected_at := Some now,
                     sv_updated_at := Some now\<rparr>) st
                in (st\<lparr>vs_reviews := map (cancel_review now pk reason) (vs_reviews st)\<rparr>, True)))"

definition activate_new :: "int \<Rightarrow> stored_version \<Rightarrow> stored_version" where
  "activate_new now v = v\<lparr>sv_status := Some ''active'', sv_is_latest := Some True,
     sv_activated_at := Some now, sv_updated_at := Some now\<rparr>"

definition supersede_old :: "int \<Rightarrow> stored_version \<Rightarrow> stored_version" where
  "supersede_old now v = v\<lparr>sv_status := Some ''superseded'', sv_is_latest := Some False,
     sv_superseded_at := Some now, sv_updated_at := Some now\<rparr>"

definition ACTIVATE_SOURCE_RECORD_VERSION ::
    "int \<Rightarrow> string \<Rightarrow> string \<Rightarrow> version_store \<Rightarrow> version_store \<times> bool" where
  "ACTIVATE_SOURCE_RECORD_VERSION now old_pk new_pk st =
     (case (find_version st old_pk, find_version st new_pk) of
        (Some old, Some new) \<Rightarrow>
          if sv_status new = Some ''pending_review'' \<and> identity_of old = identity_of new
             \<and> sv_system old \<in> set (vs_systems st)
             \<and> sv_expected_active new = Some (sv_pk old) \<and> active_version old
          then ((update_version new_pk (activate_new now) (update_version old_pk (supersede_old now) st))
                  \<lparr>vs_previous := List.insert (old_pk, new_pk) (vs_previous st)\<rparr>, True)
          else (st, False)
      | _ \<Rightarrow> (st, False))"

definition ACTIVATE_FIRST_SOURCE_RECORD_VERSION ::
    "int \<Rightarrow> string \<Rightarrow> source_identity \<Rightarrow> version_store \<Rightarrow> version_store \<times> bool" where
  "ACTIVATE_FIRST_SOURCE_RECORD_VERSION now pk i st =
     (case find_version st pk of
        None \<Rightarrow> (st, False)
      | Some pending \<Rightarrow>
          if sv_status pending = Some ''pending_review'' \<and> identity_of pending = i
             \<and> fst i \<in> set (vs_systems st) \<and> sv_expected_active pending = None
             \<and> \<not> list_ex active_version (identity_history st i)
          then (update_version pk (activate_new now) st, True)
          else (st, False))"

definition MARK_SOURCE_RECORD_LINK_FAILED ::
    "int \<Rightarrow> string \<Rightarrow> string \<Rightarrow> version_store \<Rightarrow> version_store \<times> bool" where
  "MARK_SOURCE_RECORD_LINK_FAILED now pk reason st =
     (case find_version st pk of
        None \<Rightarrow> (st, False)
      | Some v \<Rightarrow>
          if sv_status v \<notin> {Some ''pending_review'', Some ''active''} then (st, False)
          else (update_version pk (\<lambda>v. v\<lparr>sv_status := Some ''link_failed'',
                  sv_link_failure_reason := Some reason, sv_link_failed_at := Some now,
                  sv_updated_at := Some now\<rparr>) st, True))"

definition reject_replaced_pending :: "int \<Rightarrow> string \<Rightarrow> version_store \<Rightarrow> version_store result" where
  "reject_replaced_pending now pk st =
     (let (st, row) = REJECT_PENDING_SOURCE_RECORD now pk ''rejected_by_newer_version'' st
      in if row then ok st
         else raise (ConflictError (''pending source record '' @ pk @ '' was not rejected'')))"

text \<open>
  The recount of CRM deals that follows an activation writes to person nodes only; it is not part
  of the store.
\<close>

definition activate_staged_version ::
    "int \<Rightarrow> source_identity \<Rightarrow> string option \<Rightarrow> string \<Rightarrow> version_store \<Rightarrow> version_store result" where
  "activate_staged_version now i old_pk new_pk st =
     (let (st, row) = (case old_pk of
            None \<Rightarrow> ACTIVATE_FIRST_SOURCE_RECORD_VERSION now new_pk i st
          | Some old \<Rightarrow> ACTIVATE_SOURCE_RECORD_VERSION now old new_pk st)
      in if row then ok st
         else raise (ConflictError (''source record '' @ new_pk @ '' was not activated'')))"

section \<open>Ingesting a version\<close>

text \<open>
  The lifecycle part of \<open>persist_source_record\<close>: a new node in state \<open>pending_review\<close>, not yet
  latest. \<open>CREATE_SOURCE_RECORD\<close> has a row only when the source system exists and the entity the
  record asks for, if any, exists too; without a row the assertion fails.
\<close>

definition entity_exists :: "version_store \<Rightarrow> string option \<Rightarrow> bool" where
  "entity_exists st entity_key = (case entity_key of None \<Rightarrow> True | Some k \<Rightarrow> k \<in> set (vs_entities st))"

definition stage_source_record ::
    "string \<Rightarrow> source_identity \<Rightarrow> int \<Rightarrow> string \<Rightarrow> string option \<Rightarrow> string \<Rightarrow> string \<Rightarrow> string option
     \<Rightarrow> version_store \<Rightarrow> version_store result" where
  "stage_source_record pk i version record_hash expected_active normalized raw_payload entity_key st =
     (if fst i \<notin> set (vs_systems st) \<or> \<not> entity_exists st entity_key
      then raise (AssertionError ''CREATE_SOURCE_RECORD must return a row'')
      else ok (st\<lparr>vs_versions := vs_versions st @
        [\<lparr>sv_pk = pk, sv_system = fst i, sv_instance = fst (snd i), sv_record_id = snd (snd i),
          sv_entity = entity_key, sv_version = Some version, sv_hash = record_hash, sv_status = Some ''pending_review'',
          sv_is_latest = Some False, sv_expected_active = expected_active, sv_linked = [],
          sv_normalized_payload = Some normalized, sv_raw_payload = Some raw_payload,
          sv_rejection_reason = None, sv_link_failure_reason = None, sv_superseded_at = None,
          sv_activated_at = None, sv_rejected_at = None, sv_link_failed_at = None,
          sv_updated_at = None\<rparr>]\<rparr>))"

text \<open>
  The lifecycle of one ingestion transaction (\<open>IngestPipeline.ingest\<close> with \<open>_execute_ingest\<close>): the
  state is read under the lock, a duplicate ends the transaction, a pending version is rejected
  first, then the matching decides the outcome. The outcome is an argument: a dropped record is not
  stored, a record held for review stays pending, an accepted one is activated. The result is the
  primary key reported, whether the record was a duplicate, and the store the transaction commits;
  a raised error rolls the transaction back.
\<close>

datatype ingest_outcome = Dropped | Held_For_Review | Accepted

definition execute_plan ::
    "int \<Rightarrow> string \<Rightarrow> source_identity \<Rightarrow> string \<Rightarrow> string \<Rightarrow> string \<Rightarrow> string option \<Rightarrow> ingest_outcome
     \<Rightarrow> planned_version \<Rightarrow> version_store \<Rightarrow> (string option \<times> version_store) result" where
  "execute_plan now pk i record_hash normalized raw_payload entity_key outcome plan st =
     try_bind (case pl_pending_to_reject plan of
                 None \<Rightarrow> ok st
               | Some pending \<Rightarrow> reject_replaced_pending now pending st) (\<lambda>st.
       if outcome = Dropped then ok (None, st)
       else try_bind (stage_source_record pk i (pl_version plan) record_hash
                        (pl_active_source_record_pk plan) normalized raw_payload entity_key st) (\<lambda>st.
         if outcome = Held_For_Review then ok (Some pk, st)
         else try_bind (activate_staged_version now i (pl_active_source_record_pk plan) pk st)
                (\<lambda>st. ok (Some pk, st))))"

definition ingest_version ::
    "int \<Rightarrow> string \<Rightarrow> source_identity \<Rightarrow> string \<Rightarrow> string \<Rightarrow> string \<Rightarrow> string option \<Rightarrow> ingest_outcome
     \<Rightarrow> version_store \<Rightarrow> (string option \<times> bool \<times> version_store) result" where
  "ingest_version now pk i record_hash normalized raw_payload entity_key outcome st =
     try_bind (load_locked_source_state st i) (\<lambda>state.
       case plan_incoming_version state record_hash of
         Duplicate_Version dup \<Rightarrow> ok (Some dup, True, st)
       | Planned_Version plan \<Rightarrow>
           try_bind (execute_plan now pk i record_hash normalized raw_payload entity_key outcome plan st)
             (\<lambda>(reported, st). ok (reported, False, st)))"

text \<open>
  \<open>ingest_reference_record\<close> and \<open>ingest_address_record\<close> have no matching: every new version is
  accepted.
\<close>

definition ingest_reference ::
    "int \<Rightarrow> string \<Rightarrow> source_identity \<Rightarrow> string \<Rightarrow> string \<Rightarrow> string \<Rightarrow> string option \<Rightarrow> version_store
     \<Rightarrow> (string option \<times> bool \<times> version_store) result" where
  "ingest_reference now pk i record_hash normalized raw_payload entity_key st =
     ingest_version now pk i record_hash normalized raw_payload entity_key Accepted st"

section \<open>Well-formed stores\<close>

definition unique_version :: "(stored_version \<Rightarrow> bool) \<Rightarrow> stored_version list \<Rightarrow> bool" where
  "unique_version P vs = list_all (\<lambda>v. list_all (\<lambda>w.
     P v \<and> P w \<and> identity_of v = identity_of w \<longrightarrow> sv_pk v = sv_pk w) vs) vs"

definition numbered :: "stored_version \<Rightarrow> bool" where
  "numbered v = (case sv_version v of None \<Rightarrow> False | Some n \<Rightarrow> 1 \<le> n)"

text \<open>
  Primary keys are distinct, every version belongs to a known source system and carries a positive
  number, and an identity has at most one active and at most one pending version.
\<close>

definition wf_store :: "version_store \<Rightarrow> bool" where
  "wf_store st = (distinct (map sv_pk (vs_versions st))
     \<and> list_all (\<lambda>v. numbered v \<and> sv_system v \<in> set (vs_systems st)) (vs_versions st)
     \<and> unique_version active_version (vs_versions st)
     \<and> unique_version pending_version (vs_versions st))"

definition active_of :: "version_store \<Rightarrow> source_identity \<Rightarrow> stored_version option" where
  "active_of st i = first_where active_version (identity_history st i)"

definition pending_of :: "version_store \<Rightarrow> source_identity \<Rightarrow> stored_version option" where
  "pending_of st i = first_where pending_version (identity_history st i)"

definition version_state :: "lifecycle_status \<Rightarrow> stored_version \<Rightarrow> source_version_state" where
  "version_state status v =
     \<lparr>vt_source_record_pk = sv_pk v, vt_source_record_version = the (sv_version v),
      vt_record_hash = sv_hash v, vt_lifecycle_status = status,
      vt_linked_person_ids = remdups (sv_linked v),
      vt_normalized_payload = sv_normalized_payload v, vt_raw_payload = sv_raw_payload v\<rparr>"

section \<open>Reading a well-formed store\<close>

lemma parse_open_status [simp]:
  "parse_lifecycle ''active'' = Some ACTIVE" "parse_lifecycle ''pending_review'' = Some PENDING_REVIEW"
  by (simp_all add: parse_lifecycle_def all_lifecycle_def)

lemma active_not_pending: "active_version v \<Longrightarrow> \<not> pending_version v"
  by (auto simp: active_version_def pending_version_def)

lemma json_str_JStr [simp]: "list_all (\<lambda>x. \<exists>y. json_str x = Some y) (map JStr xs)"
  "map ((\<lambda>x. the (json_str x)) \<circ> JStr) xs = xs"
  by (induction xs) simp_all

lemma parse_version_row:
  assumes "numbered v" "active_version v \<or> pending_version v"
  shows "parse_version_state (version_row m v) =
     Inr (Some (version_state (if active_version v then ACTIVE else PENDING_REVIEW) v))"
proof -
  from assms(1) obtain n where n: "sv_version v = Some n" "\<not> n < 1"
    by (auto simp: numbered_def not_less split: option.splits)
  have status: "parse_lifecycle (case sv_status v of None \<Rightarrow> ''active'' | Some s \<Rightarrow> s) =
      Some (if active_version v then ACTIVE else PENDING_REVIEW)"
    using assms(2) by (auto simp: active_version_def pending_version_def)
  show ?thesis
    by (simp add: parse_version_state_def version_row_def row_value_def parse_string_def status parse_version_def
        parse_person_ids_def parse_optional_string_def opt_json_def n version_state_def Let_def
        split: option.split)
qed

lemma load_version_row:
  assumes "numbered v" "active_version v \<or> pending_version v" "the (sv_version v) \<le> m" "1 \<le> m"
    and "ld_saw_row ld \<Longrightarrow> ld_max ld = Some m"
    and "active_version v \<Longrightarrow> ld_active ld = None" "pending_version v \<Longrightarrow> ld_pending ld = None"
  shows "load_row (version_row (Some m) v) ld = Inr
     (if active_version v
      then ld\<lparr>ld_max := Some m, ld_saw_row := True, ld_active := Some (version_state ACTIVE v)\<rparr>
      else ld\<lparr>ld_max := Some m, ld_saw_row := True, ld_pending := Some (version_state PENDING_REVIEW v)\<rparr>)"
proof -
  have max: "parse_max_version (version_row (Some m) v) = Inr (Some m)"
    using assms(4) by (simp add: parse_max_version_def row_value_def version_row_def opt_json_def)
  show ?thesis
    using assms(2-3,5-7)
    by (auto simp: load_row_def max parse_version_row [OF assms(1,2)] version_state_def Let_def)
qed

text \<open>With one active and one pending version at most, the loop collects exactly these.\<close>

lemma load_version_rows:
  assumes "list_all (\<lambda>v. numbered v \<and> (active_version v \<or> pending_version v) \<and> the (sv_version v) \<le> m) vs"
    and "1 \<le> m" "length (filter active_version vs) \<le> 1" "length (filter pending_version vs) \<le> 1"
    and "ld_saw_row ld \<Longrightarrow> ld_max ld = Some m" "vs = [] \<Longrightarrow> ld_max ld = Some m"
    and "filter active_version vs \<noteq> [] \<Longrightarrow> ld_active ld = None"
    and "filter pending_version vs \<noteq> [] \<Longrightarrow> ld_pending ld = None"
  shows "\<exists>ld'. fold_result load_row (map (version_row (Some m)) vs) ld = Inr ld' \<and> ld_max ld' = Some m
     \<and> ld_active ld' = (case first_where active_version vs of None \<Rightarrow> ld_active ld
           | Some v \<Rightarrow> Some (version_state ACTIVE v))
     \<and> ld_pending ld' = (case first_where pending_version vs of None \<Rightarrow> ld_pending ld
           | Some v \<Rightarrow> Some (version_state PENDING_REVIEW v))"
  using assms
proof (induction vs arbitrary: ld)
  case Nil
  then show ?case by simp
next
  case (Cons v vs)
  let ?a = "ld\<lparr>ld_max := Some m, ld_saw_row := True, ld_active := Some (version_state ACTIVE v)\<rparr>"
  let ?p = "ld\<lparr>ld_max := Some m, ld_saw_row := True, ld_pending := Some (version_state PENDING_REVIEW v)\<rparr>"
  from Cons.prems have v: "numbered v" "active_version v \<or> pending_version v" "the (sv_version v) \<le> m"
    by simp_all
  have step: "load_row (version_row (Some m) v) ld = Inr (if active_version v then ?a else ?p)"
    by (rule load_version_row [OF v Cons.prems(2)]) (use Cons.prems(5-8) in auto)
  show ?case
  proof (cases "active_version v")
    case True
    then have none: "\<not> pending_version v" by (rule active_not_pending)
    from True Cons.prems(3) have nil: "filter active_version vs = []" by simp
    then have first: "first_where active_version vs = None" by (simp add: filter_empty_conv)
    have sel: "ld_active ?a = Some (version_state ACTIVE v)" "ld_pending ?a = ld_pending ld" by simp_all
    have pre: "ld_saw_row ?a \<Longrightarrow> ld_max ?a = Some m" "ld_max ?a = Some m"
      "filter pending_version vs \<noteq> [] \<Longrightarrow> ld_pending ?a = None"
      using Cons.prems(8) none by simp_all
    have "\<exists>ld'. fold_result load_row (map (version_row (Some m)) vs) ?a = Inr ld' \<and> ld_max ld' = Some m
       \<and> ld_active ld' = Some (version_state ACTIVE v)
       \<and> ld_pending ld' = (case first_where pending_version vs of None \<Rightarrow> ld_pending ld
           | Some v \<Rightarrow> Some (version_state PENDING_REVIEW v))"
      using Cons.IH [of ?a, unfolded first option.case sel(1)] pre nil Cons.prems(1-4) none
      by (simp only: sel) simp
    with True none show ?thesis by (simp add: step)
  next
    case False
    with v(2) have p: "pending_version v" by simp
    with Cons.prems(4) have nil: "filter pending_version vs = []" by simp
    then have first: "first_where pending_version vs = None" by (simp add: filter_empty_conv)
    have sel: "ld_pending ?p = Some (version_state PENDING_REVIEW v)" "ld_active ?p = ld_active ld" by simp_all
    have pre: "ld_saw_row ?p \<Longrightarrow> ld_max ?p = Some m" "ld_max ?p = Some m"
      "filter active_version vs \<noteq> [] \<Longrightarrow> ld_active ?p = None"
      using Cons.prems(7) False by simp_all
    have "\<exists>ld'. fold_result load_row (map (version_row (Some m)) vs) ?p = Inr ld' \<and> ld_max ld' = Some m
       \<and> ld_active ld' = (case first_where active_version vs of None \<Rightarrow> ld_active ld
           | Some v \<Rightarrow> Some (version_state ACTIVE v))
       \<and> ld_pending ld' = Some (version_state PENDING_REVIEW v)"
      using Cons.IH [of ?p, unfolded first option.case sel(1)] pre nil Cons.prems(1-4) False
      by (simp only: sel) simp
    with False p show ?thesis by (simp add: step)
  qed
qed

lemma unique_versionD:
  "unique_version P vs \<Longrightarrow> v \<in> set vs \<Longrightarrow> w \<in> set vs \<Longrightarrow> P v \<Longrightarrow> P w
   \<Longrightarrow> identity_of v = identity_of w \<Longrightarrow> sv_pk v = sv_pk w"
  unfolding unique_version_def list_all_iff by blast

lemma unique_versionI:
  "(\<And>v w. v \<in> set vs \<Longrightarrow> w \<in> set vs \<Longrightarrow> P v \<Longrightarrow> P w \<Longrightarrow> identity_of v = identity_of w
     \<Longrightarrow> sv_pk v = sv_pk w) \<Longrightarrow> unique_version P vs"
  unfolding unique_version_def list_all_iff by blast

lemma unique_filter_le_one:
  assumes "distinct (map sv_pk vs)" "unique_version P vs" "\<forall>v \<in> set ws. P v \<longrightarrow> v \<in> set vs \<and> identity_of v = i"
    and "distinct ws"
  shows "length (filter P ws) \<le> 1"
proof (rule ccontr)
  assume "\<not> length (filter P ws) \<le> 1"
  then obtain a b rest where ab: "filter P ws = a # b # rest"
    by (cases "filter P ws"; cases "tl (filter P ws)") auto
  then have "a \<in> set (filter P ws)" "b \<in> set (filter P ws)" by simp_all
  with assms(3) have "a \<in> set vs" "b \<in> set vs" "P a" "P b" "identity_of a = identity_of b" by auto
  then have "sv_pk a = sv_pk b" by (rule unique_versionD [OF assms(2)])
  with \<open>a \<in> set vs\<close> \<open>b \<in> set vs\<close> assms(1) have "a = b" by (auto simp: distinct_map dest: inj_onD)
  moreover from ab assms(4) have "distinct (a # b # rest)" by (metis distinct_filter)
  ultimately show False by simp
qed

lemma first_where_at_most_one:
  assumes "length (filter P xs) \<le> 1" "set (filter P xs) = set (filter P ys)" "length (filter P ys) \<le> 1"
  shows "first_where P xs = first_where P ys"
proof -
  have first: "first_where P zs = (case filter P zs of [] \<Rightarrow> None | z # _ \<Rightarrow> Some z)" for zs
    by (induction zs) (auto split: list.split)
  have "filter P xs = filter P ys"
    using assms by (cases "filter P xs"; cases "filter P ys") auto
  then show ?thesis by (simp add: first)
qed

lemma wf_storeD:
  assumes "wf_store st"
  shows "distinct (map sv_pk (vs_versions st))" "unique_version active_version (vs_versions st)"
    "unique_version pending_version (vs_versions st)"
    "v \<in> set (vs_versions st) \<Longrightarrow> numbered v" "v \<in> set (vs_versions st) \<Longrightarrow> sv_system v \<in> set (vs_systems st)"
  using assms by (auto simp: wf_store_def list_all_iff)

lemma identity_history_mem: "v \<in> set (identity_history st i) \<longleftrightarrow> v \<in> set (vs_versions st) \<and> identity_of v = i"
  by (auto simp: identity_history_def)

lemma max_version_ge:
  assumes "max_version vs = Some m" "v \<in> set vs" "sv_version v = Some n"
  shows "n \<le> m"
  using py_max_ge [OF assms(1) [unfolded max_version_def], of n] assms(2,3) by force

lemma max_version_Some:
  assumes "\<forall>v \<in> set vs. numbered v" "vs \<noteq> []"
  obtains m where "max_version vs = Some m" "1 \<le> m"
proof -
  from assms(2) obtain v where v: "v \<in> set vs" by (cases vs) auto
  with assms(1) obtain n where n: "sv_version v = Some n" "1 \<le> n"
    by (auto simp: numbered_def split: option.splits)
  obtain m where m: "max_version vs = Some m"
  proof (cases "max_version vs")
    case None
    then have "[n. v \<leftarrow> vs, n \<leftarrow> (case sv_version v of None \<Rightarrow> [] | Some n \<Rightarrow> [n])] = []"
      unfolding max_version_def by (simp only: py_max_None_iff)
    with v n show ?thesis by auto
  qed
  from max_version_ge [OF m v n(1)] n(2) m that show ?thesis by force
qed

text \<open>The state the code reads is the active and the pending version of the identity.\<close>

definition read_state :: "version_store \<Rightarrow> source_identity \<Rightarrow> source_lifecycle_state" where
  "read_state st i =
     \<lparr>sl_active = map_option (version_state ACTIVE) (active_of st i),
      sl_pending = map_option (version_state PENDING_REVIEW) (pending_of st i),
      sl_next_version = (case max_version (identity_history st i) of None \<Rightarrow> 1 | Some m \<Rightarrow> m + 1)\<rparr>"

lemma load_reads_state:
  assumes "wf_store st"
  shows "load_locked_source_state st i = Inr (read_state st i)"
proof (cases "fst i \<in> set (vs_systems st)")
  case False
  have "identity_history st i = []"
    using wf_storeD(5) [OF assms] False by (auto simp: identity_history_def identity_of_def filter_empty_conv)
  then have "active_of st i = None" "pending_of st i = None" "max_version (identity_history st i) = None"
    by (simp_all add: active_of_def pending_of_def max_version_def)
  with False show ?thesis
    by (simp add: load_locked_source_state_def LOCK_AND_GET_SOURCE_STATE_def load_rows_def read_state_def)
next
  case True
  let ?h = "identity_history st i"
  let ?open = "[v \<leftarrow> ?h. active_version v \<or> pending_version v]"
  let ?ld = "\<lparr>ld_active = None, ld_pending = None, ld_max = None, ld_saw_row = False\<rparr>"
  have num: "\<forall>v \<in> set ?h. numbered v" using wf_storeD(4) [OF assms] by (simp add: identity_history_mem)
  show ?thesis
  proof (cases "?open = []")
    case nil: True
    then have none: "active_of st i = None" "pending_of st i = None"
      by (auto simp: active_of_def pending_of_def filter_empty_conv)
    have max: "parse_max_version (null_row (max_version ?h)) = Inr (max_version ?h)"
    proof (cases "?h = []")
      case True
      then show ?thesis by (simp add: parse_max_version_def row_value_def null_row_def opt_json_def max_version_def)
    next
      case False
      with num obtain m where "max_version ?h = Some m" "1 \<le> m" by (rule max_version_Some)
      then show ?thesis by (simp add: parse_max_version_def row_value_def null_row_def opt_json_def)
    qed
    have "load_row (null_row (max_version ?h)) ?ld = Inr (?ld\<lparr>ld_max := max_version ?h, ld_saw_row := True\<rparr>)"
      by (simp add: load_row_def max) (simp add: parse_version_state_def row_value_def null_row_def)
    with True nil show ?thesis
      by (simp add: load_locked_source_state_def LOCK_AND_GET_SOURCE_STATE_def load_rows_def read_state_def none Let_def)
  next
    case False
    then have "?h \<noteq> []" by auto
    with num obtain m where m: "max_version ?h = Some m" "1 \<le> m" by (rule max_version_Some)
    let ?s = "sort_key desc_key ?open"
    have dist: "distinct ?s" "distinct ?h"
      using wf_storeD(1) [OF assms] by (simp_all add: identity_history_def distinct_map)
    have le_one: "length (filter P ?s) \<le> 1" "length (filter P ?h) \<le> 1" if "unique_version P (vs_versions st)" for P
      using unique_filter_le_one [OF wf_storeD(1) [OF assms] that, of ?s i]
        unique_filter_le_one [OF wf_storeD(1) [OF assms] that, of ?h i] dist
      by (simp_all add: identity_history_mem)
    have first: "first_where active_version ?s = active_of st i" "first_where pending_version ?s = pending_of st i"
      unfolding active_of_def pending_of_def
      by (rule first_where_at_most_one, use le_one wf_storeD(2,3) [OF assms] in auto)+
    have all: "list_all (\<lambda>v. numbered v \<and> (active_version v \<or> pending_version v) \<and> the (sv_version v) \<le> m) ?s"
      using num max_version_ge [OF m(1)] by (fastforce simp: list_all_iff numbered_def split: option.splits)
    have ne: "?s \<noteq> []" using False by (metis length_0_conv length_sort)
    obtain ld' where ld': "fold_result load_row (map (version_row (Some m)) ?s) ?ld = Inr ld'" "ld_max ld' = Some m"
      "ld_active ld' = map_option (version_state ACTIVE) (active_of st i)"
      "ld_pending ld' = map_option (version_state PENDING_REVIEW) (pending_of st i)"
      using load_version_rows [OF all m(2) le_one(1) le_one(1), OF wf_storeD(2,3) [OF assms], of ?ld] ne
      by (cases "active_of st i"; cases "pending_of st i") (auto simp: first)
    with True False m show ?thesis
      by (simp add: load_locked_source_state_def LOCK_AND_GET_SOURCE_STATE_def load_rows_def read_state_def Let_def)
  qed
qed

section \<open>The transitions keep the store well-formed\<close>

lemma find_version_Some: "find_version st pk = Some v \<Longrightarrow> v \<in> set (vs_versions st) \<and> sv_pk v = pk"
  by (auto simp: find_version_def dest: first_where_Some)

lemma find_version_mem:
  assumes "wf_store st" "v \<in> set (vs_versions st)"
  shows "find_version st (sv_pk v) = Some v"
proof (cases "find_version st (sv_pk v)")
  case None
  with assms(2) show ?thesis by (auto simp: find_version_def)
next
  case (Some w)
  with find_version_Some [OF this] assms wf_storeD(1) [OF assms(1)] show ?thesis
    by (auto simp: distinct_map dest: inj_onD)
qed

lemma open_of_iff:
  assumes "wf_store st" "unique_version P (vs_versions st)"
  shows "first_where P (identity_history st i) = Some v \<longleftrightarrow>
         v \<in> set (vs_versions st) \<and> identity_of v = i \<and> P v"
proof
  assume "first_where P (identity_history st i) = Some v"
  then show "v \<in> set (vs_versions st) \<and> identity_of v = i \<and> P v"
    by (auto dest!: first_where_Some simp: identity_history_mem)
next
  assume v: "v \<in> set (vs_versions st) \<and> identity_of v = i \<and> P v"
  then have "first_where P (identity_history st i) \<noteq> None" by (auto simp: identity_history_mem)
  then obtain w where w: "first_where P (identity_history st i) = Some w" by blast
  then have "w \<in> set (vs_versions st)" "identity_of w = i" "P w"
    by (auto dest!: first_where_Some simp: identity_history_mem)
  with v unique_versionD [OF assms(2), of v w] have "sv_pk v = sv_pk w" by simp
  with v \<open>w \<in> set (vs_versions st)\<close> wf_storeD(1) [OF assms(1)] have "v = w"
    by (auto simp: distinct_map dest: inj_onD)
  with w show "first_where P (identity_history st i) = Some v" by simp
qed

lemma active_of_iff:
  "wf_store st \<Longrightarrow> active_of st i = Some v \<longleftrightarrow>
     v \<in> set (vs_versions st) \<and> identity_of v = i \<and> active_version v"
  unfolding active_of_def by (rule open_of_iff [OF _ wf_storeD(2)])

lemma pending_of_iff:
  "wf_store st \<Longrightarrow> pending_of st i = Some v \<longleftrightarrow>
     v \<in> set (vs_versions st) \<and> identity_of v = i \<and> pending_version v"
  unfolding pending_of_def by (rule open_of_iff [OF _ wf_storeD(3)])

lemma active_of_None: "active_of st i = None \<longleftrightarrow> (\<forall>v \<in> set (vs_versions st). identity_of v = i \<longrightarrow> \<not> active_version v)"
  by (auto simp: active_of_def identity_history_mem)

lemma pending_of_None: "pending_of st i = None \<longleftrightarrow> (\<forall>v \<in> set (vs_versions st). identity_of v = i \<longrightarrow> \<not> pending_version v)"
  by (auto simp: pending_of_def identity_history_mem)

text \<open>An update that keeps the key fields of a version.\<close>

definition keeps_keys :: "(stored_version \<Rightarrow> stored_version) \<Rightarrow> bool" where
  "keeps_keys f = (\<forall>v. sv_pk (f v) = sv_pk v \<and> identity_of (f v) = identity_of v
     \<and> sv_version (f v) = sv_version v \<and> sv_hash (f v) = sv_hash v)"

lemma keeps_keysD:
  "keeps_keys f \<Longrightarrow> sv_pk (f v) = sv_pk v" "keeps_keys f \<Longrightarrow> identity_of (f v) = identity_of v"
  "keeps_keys f \<Longrightarrow> sv_version (f v) = sv_version v" "keeps_keys f \<Longrightarrow> sv_hash (f v) = sv_hash v"
  by (simp_all add: keeps_keys_def)

lemma update_version_simps [simp]:
  "vs_versions (update_version pk f st) = map (\<lambda>v. if sv_pk v = pk then f v else v) (vs_versions st)"
  "vs_systems (update_version pk f st) = vs_systems st"
  "vs_entities (update_version pk f st) = vs_entities st"
  by (simp_all add: update_version_def)

lemma update_version_pks:
  assumes "keeps_keys f"
  shows "sv_pk ` set (vs_versions (update_version pk f st)) = sv_pk ` set (vs_versions st)"
proof -
  have "map sv_pk (vs_versions (update_version pk f st)) = map sv_pk (vs_versions st)"
    by (simp add: keeps_keysD [OF assms])
  then show ?thesis by (metis set_map)
qed

lemma wf_store_cong [simp]:
  "wf_store (st\<lparr>vs_previous := x\<rparr>) = wf_store st" "wf_store (st\<lparr>vs_reviews := y\<rparr>) = wf_store st"
  by (simp_all add: wf_store_def)

lemma reads_cong [simp]:
  "identity_history (st\<lparr>vs_reviews := x\<rparr>) i = identity_history st i"
  "identity_history (st\<lparr>vs_previous := y\<rparr>) i = identity_history st i"
  "active_of (st\<lparr>vs_reviews := x\<rparr>) i = active_of st i"
  "active_of (st\<lparr>vs_previous := y\<rparr>) i = active_of st i"
  "pending_of (st\<lparr>vs_reviews := x\<rparr>) i = pending_of st i"
  "pending_of (st\<lparr>vs_previous := y\<rparr>) i = pending_of st i"
  "find_version (st\<lparr>vs_reviews := x\<rparr>) pk = find_version st pk"
  "find_version (st\<lparr>vs_previous := y\<rparr>) pk = find_version st pk"
  by (simp_all add: identity_history_def active_of_def pending_of_def find_version_def)

text \<open>Updating a version of one identity leaves the others and all version numbers alone.\<close>

lemma same_pk:
  "wf_store st \<Longrightarrow> a \<in> set (vs_versions st) \<Longrightarrow> b \<in> set (vs_versions st) \<Longrightarrow> sv_pk a = sv_pk b \<Longrightarrow> a = b"
  using wf_storeD(1) [of st] by (auto simp: distinct_map dest: inj_onD)

lemma update_version_mem:
  assumes "wf_store st" "v \<in> set (vs_versions st)"
  shows "w \<in> set (vs_versions (update_version (sv_pk v) f st)) \<longleftrightarrow>
         w = f v \<or> (w \<in> set (vs_versions st) \<and> w \<noteq> v)"
proof
  assume "w \<in> set (vs_versions (update_version (sv_pk v) f st))"
  then obtain u where u: "u \<in> set (vs_versions st)" "w = (if sv_pk u = sv_pk v then f u else u)" by auto
  with same_pk [OF assms(1) u(1) assms(2)] show "w = f v \<or> (w \<in> set (vs_versions st) \<and> w \<noteq> v)"
    by (cases "sv_pk u = sv_pk v") auto
next
  assume w: "w = f v \<or> (w \<in> set (vs_versions st) \<and> w \<noteq> v)"
  show "w \<in> set (vs_versions (update_version (sv_pk v) f st))"
  proof (cases "w = f v")
    case True
    with assms(2) show ?thesis by (auto simp: image_iff)
  next
    case False
    with w have "w \<in> set (vs_versions st)" "w \<noteq> v" by auto
    with same_pk [OF assms(1) _ assms(2)] have "sv_pk w \<noteq> sv_pk v" by blast
    with \<open>w \<in> set (vs_versions st)\<close> show ?thesis by simp
  qed
qed

lemma update_other_identity:
  assumes "wf_store st" "v \<in> set (vs_versions st)" "keeps_keys f" "j \<noteq> identity_of v"
  shows "identity_history (update_version (sv_pk v) f st) j = identity_history st j"
proof -
  have "[w \<leftarrow> map (\<lambda>w. if sv_pk w = sv_pk v then f w else w) (vs_versions st). identity_of w = j] =
      map (\<lambda>w. if sv_pk w = sv_pk v then f w else w) [w \<leftarrow> vs_versions st. identity_of w = j]"
    by (simp add: filter_map o_def if_distrib keeps_keysD [OF assms(3)] cong: if_cong)
  also have "\<dots> = [w \<leftarrow> vs_versions st. identity_of w = j]"
    using same_pk [OF assms(1) _ assms(2)] assms(4) by (intro map_idI) auto
  finally show ?thesis by (simp add: identity_history_def)
qed

lemma update_version_numbers:
  assumes "keeps_keys f"
  shows "map sv_version (identity_history (update_version pk f st) i) = map sv_version (identity_history st i)"
  by (simp add: identity_history_def filter_map o_def if_distrib keeps_keysD [OF assms] cong: if_cong)

lemma wf_update:
  assumes "wf_store st" "keeps_keys f"
    and "unique_version active_version (vs_versions (update_version pk f st))"
    and "unique_version pending_version (vs_versions (update_version pk f st))"
  shows "wf_store (update_version pk f st)"
proof -
  have "map sv_pk (vs_versions (update_version pk f st)) = map sv_pk (vs_versions st)"
    by (simp add: keeps_keysD [OF assms(2)])
  moreover have "sv_system (f v) = sv_system v" "numbered (f v) = numbered v" for v
    using keeps_keysD(2,3) [OF assms(2), of v] by (simp_all add: identity_of_def numbered_def)
  ultimately show ?thesis
    using assms(1,3,4) by (simp only: wf_store_def) (auto simp: list_all_iff)
qed

lemma unique_update_shrink:
  assumes "unique_version P (vs_versions st)" "keeps_keys f" "\<And>v. P (f v) \<Longrightarrow> P v"
  shows "unique_version P (vs_versions (update_version pk f st))"
proof (rule unique_versionI)
  fix v w
  assume "v \<in> set (vs_versions (update_version pk f st))" "w \<in> set (vs_versions (update_version pk f st))"
    and P: "P v" "P w" and eq: "identity_of v = identity_of w"
  then obtain a b where a: "a \<in> set (vs_versions st)" "v = (if sv_pk a = pk then f a else a)"
    and b: "b \<in> set (vs_versions st)" "w = (if sv_pk b = pk then f b else b)" by auto
  from a(2) b(2) P assms(3) have "P a" "P b" by (auto split: if_splits)
  moreover from a(2) b(2) eq have "identity_of a = identity_of b"
    by (auto simp: keeps_keysD [OF assms(2)] split: if_splits)
  ultimately have "sv_pk a = sv_pk b" using unique_versionD [OF assms(1) a(1) b(1)] by blast
  then show "sv_pk v = sv_pk w" using a(2) b(2) by (auto simp: keeps_keysD [OF assms(2)])
qed

lemma wf_update_shrink:
  assumes "wf_store st" "keeps_keys f" "\<And>v. active_version (f v) \<Longrightarrow> active_version v"
    and "\<And>v. pending_version (f v) \<Longrightarrow> pending_version v"
  shows "wf_store (update_version pk f st)"
  using assms wf_storeD(2,3) [OF assms(1)]
  by (intro wf_update unique_update_shrink) auto

lemma wf_activate:
  assumes "wf_store st" "\<forall>w \<in> set (vs_versions st). identity_of w = i \<longrightarrow> \<not> active_version w"
    and "find_version st pk = Some v" "identity_of v = i"
  shows "wf_store (update_version pk (activate_new now) st)"
proof (rule wf_update [OF assms(1)])
  show keys: "keeps_keys (activate_new now)" by (simp add: keeps_keys_def activate_new_def identity_of_def)
  show "unique_version pending_version (vs_versions (update_version pk (activate_new now) st))"
    by (rule unique_update_shrink [OF wf_storeD(3) [OF assms(1)] keys])
       (simp add: pending_version_def activate_new_def)
  from find_version_Some [OF assms(3)] have v: "v \<in> set (vs_versions st)" "sv_pk v = pk" by auto
  have only: "a = v" if "a \<in> set (vs_versions st)" "sv_pk a = pk" for a
    using that v wf_storeD(1) [OF assms(1)] by (auto simp: distinct_map dest: inj_onD)
  show "unique_version active_version (vs_versions (update_version pk (activate_new now) st))"
  proof (rule unique_versionI)
    fix a b
    assume "a \<in> set (vs_versions (update_version pk (activate_new now) st))"
      "b \<in> set (vs_versions (update_version pk (activate_new now) st))"
      and act: "active_version a" "active_version b" and eq: "identity_of a = identity_of b"
    then obtain c d where c: "c \<in> set (vs_versions st)" "a = (if sv_pk c = pk then activate_new now c else c)"
      and d: "d \<in> set (vs_versions st)" "b = (if sv_pk d = pk then activate_new now d else d)" by auto
    from c(2) d(2) eq have ids: "identity_of c = identity_of d"
      by (auto simp: keeps_keysD [OF keys] split: if_splits)
    show "sv_pk a = sv_pk b"
    proof (cases "sv_pk c = pk \<or> sv_pk d = pk")
      case True
      then have "identity_of c = i" using only c(1) d(1) assms(4) ids by metis
      with ids assms(2) c d act have "sv_pk c = pk" "sv_pk d = pk" by (auto split: if_splits)
      with c(2) d(2) show ?thesis by (simp add: keeps_keysD [OF keys])
    next
      case False
      with c d act ids unique_versionD [OF wf_storeD(2) [OF assms(1)] c(1) d(1)] show ?thesis by simp
    qed
  qed
qed

lemma wf_stage:
  assumes "wf_store st" "pk \<notin> sv_pk ` set (vs_versions st)" "1 \<le> n" "pending_of st i = None"
    and "stage_source_record pk i n h expected nrm raw ent st = Inr st'"
  shows "wf_store st'"
proof -
  from assms(5) obtain v where st': "fst i \<in> set (vs_systems st)" "st' = st\<lparr>vs_versions := vs_versions st @ [v]\<rparr>"
    and v: "sv_pk v = pk" "identity_of v = i" "sv_version v = Some n" "\<not> active_version v"
    by (auto simp: stage_source_record_def identity_of_def active_version_def split: if_splits)
  have none: "\<And>w. w \<in> set (vs_versions st) \<Longrightarrow> identity_of w = i \<Longrightarrow> \<not> pending_version w"
    using assms(4) by (simp add: pending_of_None)
  have append: "unique_version P (vs_versions st @ [v])"
    if "unique_version P (vs_versions st)" "P v \<Longrightarrow> \<forall>w \<in> set (vs_versions st). P w \<longrightarrow> identity_of w \<noteq> i" for P
  proof (rule unique_versionI)
    fix a b assume "a \<in> set (vs_versions st @ [v])" "b \<in> set (vs_versions st @ [v])" "P a" "P b"
      and "identity_of a = identity_of b"
    then show "sv_pk a = sv_pk b"
      using unique_versionD [OF that(1), of a b] that(2) v(2) by (cases "a = v"; cases "b = v") auto
  qed
  have "unique_version active_version (vs_versions st @ [v])"
    using append [OF wf_storeD(2) [OF assms(1)]] v(4) by simp
  moreover have "unique_version pending_version (vs_versions st @ [v])"
    using append [OF wf_storeD(3) [OF assms(1)]] none by blast
  moreover have "numbered v" "sv_system v \<in> set (vs_systems st)"
    using v(2,3) assms(3) st'(1) by (auto simp: numbered_def identity_of_def)
  ultimately show ?thesis
    using assms(1,2) v(1) by (auto simp: wf_store_def st'(2))
qed

section \<open>What the transitions do to an identity\<close>

lemma reject_replaced_pending_run:
  assumes "wf_store st" "pending_of st i = Some p"
  obtains st' where "reject_replaced_pending now (sv_pk p) st = Inr st'" "wf_store st'"
    "pending_of st' i = None" "active_of st' i = active_of st i" "vs_systems st' = vs_systems st"
    "vs_entities st' = vs_entities st" "sv_pk ` set (vs_versions st') = sv_pk ` set (vs_versions st)"
    "map sv_version (identity_history st' i) = map sv_version (identity_history st i)"
    "\<And>j. j \<noteq> i \<Longrightarrow> identity_history st' j = identity_history st j"
proof -
  let ?f = "\<lambda>v. v\<lparr>sv_status := Some ''rejected'', sv_rejection_reason := Some ''rejected_by_newer_version'',
      sv_rejected_at := Some now, sv_updated_at := Some now\<rparr>"
  let ?st = "update_version (sv_pk p) ?f st"
  from assms(2) have p: "p \<in> set (vs_versions st)" "identity_of p = i" "pending_version p"
    by (simp_all add: pending_of_iff [OF assms(1)])
  then have row: "REJECT_PENDING_SOURCE_RECORD now (sv_pk p) ''rejected_by_newer_version'' st =
      (?st\<lparr>vs_reviews := map (cancel_review now (sv_pk p) ''rejected_by_newer_version'') (vs_reviews st)\<rparr>, True)"
    by (simp add: REJECT_PENDING_SOURCE_RECORD_def find_version_mem [OF assms(1)] pending_version_def update_version_def)
  have keys: "keeps_keys ?f" by (simp add: keeps_keys_def identity_of_def)
  have wf: "wf_store ?st"
    by (rule wf_update_shrink [OF assms(1) keys]) (simp_all add: active_version_def pending_version_def)
  have only: "v = p" if "v \<in> set (vs_versions st)" "sv_pk v = sv_pk p" for v
    using that p(1) wf_storeD(1) [OF assms(1)] by (auto simp: distinct_map dest: inj_onD)
  have pend: "pending_of ?st i = None"
  proof -
    have "\<not> pending_version v" if v: "v \<in> set (vs_versions st)" "sv_pk v \<noteq> sv_pk p" "identity_of v = i" for v
      using unique_versionD [OF wf_storeD(3) [OF assms(1)] v(1) p(1)] v p by auto
    then show ?thesis by (auto simp: pending_of_None pending_version_def identity_of_def)
  qed
  have "active_of ?st i = Some a \<longleftrightarrow> active_of st i = Some a" for a
    unfolding active_of_iff [OF wf] active_of_iff [OF assms(1)]
    using active_not_pending p(3) only by (auto simp: image_iff active_version_def pending_version_def)
  then have act: "active_of ?st i = active_of st i" by (metis option.exhaust)
  note ver = update_version_numbers [OF keys, of "sv_pk p" st i]
  have other: "identity_history ?st j = identity_history st j" if "j \<noteq> i" for j
    using update_other_identity [OF assms(1) p(1) keys] p(2) that by simp
  note pks = update_version_pks [OF keys, of "sv_pk p" st]
  let ?fin = "?st\<lparr>vs_reviews := map (cancel_review now (sv_pk p) ''rejected_by_newer_version'') (vs_reviews st)\<rparr>"
  have "reject_replaced_pending now (sv_pk p) st = Inr ?fin"
    by (simp add: reject_replaced_pending_def row)
  moreover have "wf_store ?fin" "pending_of ?fin i = None" "active_of ?fin i = active_of st i"
    "vs_systems ?fin = vs_systems st" "vs_entities ?fin = vs_entities st" "sv_pk ` set (vs_versions ?fin) = sv_pk ` set (vs_versions st)"
    "map sv_version (identity_history ?fin i) = map sv_version (identity_history st i)"
    using wf pend act pks ver by simp_all
  moreover have "identity_history ?fin j = identity_history st j" if "j \<noteq> i" for j
    using other [OF that] by simp
  ultimately show ?thesis by (rule that)
qed

definition next_version :: "version_store \<Rightarrow> source_identity \<Rightarrow> int" where
  "next_version st i = (case max_version (identity_history st i) of None \<Rightarrow> 1 | Some m \<Rightarrow> m + 1)"

lemma next_version_pos:
  assumes "wf_store st"
  shows "1 \<le> next_version st i"
proof (cases "identity_history st i = []")
  case True
  then show ?thesis by (simp add: next_version_def max_version_def)
next
  case False
  have "\<forall>v \<in> set (identity_history st i). numbered v"
    using wf_storeD(4) [OF assms] by (simp add: identity_history_mem)
  from max_version_Some [OF this False] show ?thesis by (fastforce simp: next_version_def)
qed

lemma next_version_above:
  assumes "wf_store st" "v \<in> set (identity_history st i)" "sv_version v = Some n"
  shows "n < next_version st i"
proof -
  from assms(2) have "identity_history st i \<noteq> []" by auto
  moreover have "\<forall>v \<in> set (identity_history st i). numbered v"
    using wf_storeD(4) [OF assms(1)] by (simp add: identity_history_mem)
  ultimately obtain m where m: "max_version (identity_history st i) = Some m" by (metis max_version_Some)
  with max_version_ge [OF m assms(2,3)] show ?thesis by (simp add: next_version_def)
qed

lemma stage_run:
  assumes "wf_store st" "fst i \<in> set (vs_systems st)" "pk \<notin> sv_pk ` set (vs_versions st)" "1 \<le> n"
    "pending_of st i = None" "entity_exists st ent"
  obtains st' v where "stage_source_record pk i n h expected nrm raw ent st = Inr st'" "wf_store st'"
    "pending_of st' i = Some v" "active_of st' i = active_of st i" "vs_systems st' = vs_systems st"
    "sv_pk v = pk" "sv_hash v = h" "sv_version v = Some n" "sv_expected_active v = expected"
    "find_version st' pk = Some v" "identity_of v = i" "sv_status v = Some ''pending_review''"
    "vs_versions st' = vs_versions st @ [v]"
    "\<And>j. j \<noteq> i \<Longrightarrow> identity_history st' j = identity_history st j"
proof -
  from assms(2,6) obtain st' v where st': "stage_source_record pk i n h expected nrm raw ent st = Inr st'"
    "vs_versions st' = vs_versions st @ [v]" "vs_systems st' = vs_systems st"
    and v: "sv_pk v = pk" "identity_of v = i" "sv_version v = Some n" "sv_hash v = h"
      "sv_status v = Some ''pending_review''" "sv_expected_active v = expected"
    by (auto simp: stage_source_record_def identity_of_def)
  from wf_stage [OF assms(1,3-5) st'(1)] have wf: "wf_store st'" .
  have "pending_version v" "\<not> active_version v" using v(5) by (simp_all add: pending_version_def active_version_def)
  then have "pending_of st' i = Some v" using v(2) st'(2) by (simp add: pending_of_iff [OF wf])
  moreover have "active_of st' i = Some a \<longleftrightarrow> active_of st i = Some a" for a
    unfolding active_of_iff [OF wf] active_of_iff [OF assms(1)] using \<open>\<not> active_version v\<close> by (auto simp: st'(2))
  then have "active_of st' i = active_of st i" by (metis option.exhaust)
  moreover have "find_version st' pk = Some v"
    using find_version_mem [OF wf, of v] v(1) by (simp add: st'(2))
  moreover have "j \<noteq> i \<Longrightarrow> identity_history st' j = identity_history st j" for j
    using v(2) by (simp add: identity_history_def st'(2))
  ultimately show ?thesis using that st' v wf by blast
qed

lemma activate_run:
  assumes "wf_store st" "find_version st pk = Some v" "identity_of v = i" "fst i \<in> set (vs_systems st)"
    and "sv_status v = Some ''pending_review''" "sv_expected_active v = map_option sv_pk (active_of st i)"
  obtains st' where "activate_staged_version now i (map_option sv_pk (active_of st i)) pk st = Inr st'"
    "wf_store st'" "active_of st' i = Some (activate_new now v)" "pending_of st' i = None"
    "\<And>a. active_of st i = Some a \<Longrightarrow> find_version st' (sv_pk a) = Some (supersede_old now a)"
    "\<And>j. j \<noteq> i \<Longrightarrow> identity_history st' j = identity_history st j"
proof -
  have vmem: "v \<in> set (vs_versions st)" "sv_pk v = pk" using find_version_Some [OF assms(2)] by auto
  have inj: "a = b" if "a \<in> set (vs_versions st)" "b \<in> set (vs_versions st)" "sv_pk a = sv_pk b" for a b
    using that wf_storeD(1) [OF assms(1)] by (auto simp: distinct_map dest: inj_onD)
  have knew: "keeps_keys (activate_new now)" and kold: "keeps_keys (supersede_old now)"
    by (simp_all add: keeps_keys_def activate_new_def supersede_old_def identity_of_def)
  have pv: "pending_version v" "\<not> active_version v"
    using assms(5) by (simp_all add: pending_version_def active_version_def)
  have pending_only: "w = v" if "w \<in> set (vs_versions st)" "identity_of w = i" "pending_version w" for w
    using inj [OF that(1) vmem(1)] unique_versionD [OF wf_storeD(3) [OF assms(1)] that(1) vmem(1)] that pv assms(3)
    by simp
  show ?thesis
  proof (cases "active_of st i")
    case None
    let ?st = "update_version pk (activate_new now) st"
    from None have no: "\<forall>w \<in> set (vs_versions st). identity_of w = i \<longrightarrow> \<not> active_version w"
      by (simp add: active_of_None)
    then have "\<not> list_ex active_version (identity_history st i)"
      by (auto simp: list_ex_iff identity_history_mem)
    with None assms have run: "activate_staged_version now i None pk st = Inr ?st"
      by (simp add: activate_staged_version_def ACTIVATE_FIRST_SOURCE_RECORD_VERSION_def)
    have wf: "wf_store ?st" by (rule wf_activate [OF assms(1) no assms(2,3)])
    have act: "active_of ?st i = Some (activate_new now v)"
      unfolding active_of_iff [OF wf] using vmem assms(3)
      by (auto simp: image_iff activate_new_def active_version_def identity_of_def)
    have "pending_of ?st i = None"
      using pending_only vmem(2) keeps_keysD(2) [OF knew]
      by (auto simp: pending_of_None activate_new_def pending_version_def)
    moreover have "identity_history ?st j = identity_history st j" if "j \<noteq> i" for j
      using update_other_identity [OF assms(1) vmem(1) knew] vmem(2) assms(3) that by simp
    ultimately show ?thesis using that [of ?st] run wf act None by simp
  next
    case (Some a)
    then have a: "a \<in> set (vs_versions st)" "identity_of a = i" "active_version a"
      by (simp_all add: active_of_iff [OF assms(1)])
    have neq: "sv_pk a \<noteq> pk" using inj [OF a(1) vmem(1)] vmem(2) a(3) pv(2) by auto
    let ?st1 = "update_version (sv_pk a) (supersede_old now) st"
    let ?st2 = "update_version pk (activate_new now) ?st1"
    let ?fin = "?st2\<lparr>vs_previous := List.insert (sv_pk a, pk) (vs_previous st)\<rparr>"
    have wf1: "wf_store ?st1"
      by (rule wf_update_shrink [OF assms(1) kold])
         (simp_all add: supersede_old_def active_version_def pending_version_def)
    have mem1: "w \<in> set (vs_versions ?st1) \<longleftrightarrow> w = supersede_old now a \<or> (w \<in> set (vs_versions st) \<and> w \<noteq> a)" for w
      by (rule update_version_mem [OF assms(1) a(1)])
    have no1: "\<forall>w \<in> set (vs_versions ?st1). identity_of w = i \<longrightarrow> \<not> active_version w"
    proof (intro ballI impI)
      fix w assume w: "w \<in> set (vs_versions ?st1)" "identity_of w = i"
      show "\<not> active_version w"
      proof (cases "w = supersede_old now a")
        case True
        then show ?thesis by (simp add: supersede_old_def active_version_def)
      next
        case False
        with w(1) have "w \<in> set (vs_versions st)" "w \<noteq> a" unfolding mem1 by blast+
        with unique_versionD [OF wf_storeD(2) [OF assms(1)] _ a(1)] inj [OF _ a(1)] a w(2) show ?thesis by blast
      qed
    qed
    have v1: "v \<in> set (vs_versions ?st1)" using vmem(1) a(3) pv(2) unfolding mem1 by auto
    have find1: "find_version ?st1 pk = Some v" using find_version_mem [OF wf1 v1] vmem(2) by simp
    have wf2: "wf_store ?st2" by (rule wf_activate [OF wf1 no1 find1 assms(3)])
    have sys: "sv_system a \<in> set (vs_systems st)" by (rule wf_storeD(5) [OF assms(1) a(1)])
    have run: "activate_staged_version now i (Some (sv_pk a)) pk st = Inr ?fin"
      using find_version_mem [OF assms(1) a(1)] assms(2,3,5,6) a Some sys
      by (simp add: activate_staged_version_def ACTIVATE_SOURCE_RECORD_VERSION_def update_version_def)
    have mem2: "w \<in> set (vs_versions ?st2) \<longleftrightarrow> w = activate_new now v \<or> (w \<in> set (vs_versions ?st1) \<and> w \<noteq> v)" for w
      using update_version_mem [OF wf1 v1] vmem(2) by simp
    have act: "active_of ?st2 i = Some (activate_new now v)"
      unfolding active_of_iff [OF wf2] mem2 using assms(3)
      by (simp add: activate_new_def active_version_def identity_of_def)
    have pend: "pending_of ?st2 i = None"
    proof -
      have "\<not> pending_version w" if "w = activate_new now v \<or> (w \<in> set (vs_versions ?st1) \<and> w \<noteq> v)" "identity_of w = i" for w
      proof (cases "w = activate_new now v \<or> w = supersede_old now a")
        case True
        then show ?thesis by (auto simp: activate_new_def supersede_old_def pending_version_def)
      next
        case False
        with that(1) have "w \<in> set (vs_versions st)" "w \<noteq> v" unfolding mem1 by blast+
        with pending_only that(2) show ?thesis by blast
      qed
      note none = this
      show ?thesis unfolding pending_of_None
      proof (intro ballI impI)
        fix w assume "w \<in> set (vs_versions ?st2)" and i: "identity_of w = i"
        then have "w = activate_new now v \<or> (w \<in> set (vs_versions ?st1) \<and> w \<noteq> v)" by (simp only: mem2)
        from none [OF this i] show "\<not> pending_version w" .
      qed
    qed
    have old: "find_version ?st2 (sv_pk a) = Some (supersede_old now a)"
    proof -
      have "supersede_old now a \<in> set (vs_versions ?st2)"
        unfolding mem2 mem1 using keeps_keysD(1) [OF kold, of a] neq vmem(2) by auto
      from find_version_mem [OF wf2 this] show ?thesis by (simp add: keeps_keysD(1) [OF kold])
    qed
    have other: "identity_history ?fin j = identity_history st j" if "j \<noteq> i" for j
      using update_other_identity [OF wf1 v1 knew, of j] update_other_identity [OF assms(1) a(1) kold, of j]
        vmem(2) assms(3) a(2) that by simp
    show ?thesis
      by (rule that [of ?fin]) (use run wf2 act pend old other Some in simp_all)
  qed
qed

section \<open>A whole ingestion transaction\<close>

lemma max_version_map:
  "map sv_version vs = map sv_version ws \<Longrightarrow> max_version vs = max_version ws"
proof -
  have "max_version vs = py_max id (concat (map (\<lambda>n. case n of None \<Rightarrow> [] | Some m \<Rightarrow> [m]) (map sv_version vs)))" for vs
    unfolding max_version_def map_map o_def by (simp cong: option.case_cong)
  then show "map sv_version vs = map sv_version ws \<Longrightarrow> max_version vs = max_version ws" by (simp only:)
qed

definition plan_of :: "version_store \<Rightarrow> source_identity \<Rightarrow> planned_version \<Rightarrow> bool" where
  "plan_of st i plan = (pl_version plan = next_version st i
     \<and> pl_active_source_record_pk plan = map_option sv_pk (active_of st i)
     \<and> pl_pending_to_reject plan = map_option sv_pk (pending_of st i))"

lemma plan_cases:
  obtains (dup) d where "plan_incoming_version (read_state st i) h = Duplicate_Version d"
      "classify_incoming_hash (read_state st i) h = Some d"
    | (plan) plan where "plan_incoming_version (read_state st i) h = Planned_Version plan" "plan_of st i plan"
      "classify_incoming_hash (read_state st i) h = None"
  by (cases "classify_incoming_hash (read_state st i) h")
     (auto simp: plan_incoming_version_def plan_of_def read_state_def next_version_def version_state_def
        option.map_comp o_def)

lemma reject_first:
  assumes "wf_store st" "plan_of st i plan"
  obtains st1 where "(case pl_pending_to_reject plan of None \<Rightarrow> ok st
        | Some pending \<Rightarrow> reject_replaced_pending now pending st) = Inr st1"
    "wf_store st1" "pending_of st1 i = None" "active_of st1 i = active_of st i" "vs_systems st1 = vs_systems st"
    "vs_entities st1 = vs_entities st" "sv_pk ` set (vs_versions st1) = sv_pk ` set (vs_versions st)" "next_version st1 i = next_version st i"
    "\<And>j. j \<noteq> i \<Longrightarrow> identity_history st1 j = identity_history st j"
proof (cases "pending_of st i")
  case None
  with assms that [of st] show ?thesis by (simp add: plan_of_def)
next
  case (Some p)
  obtain st1 where st1: "reject_replaced_pending now (sv_pk p) st = Inr st1" "wf_store st1"
    "pending_of st1 i = None" "active_of st1 i = active_of st i" "vs_systems st1 = vs_systems st"
    "vs_entities st1 = vs_entities st" "sv_pk ` set (vs_versions st1) = sv_pk ` set (vs_versions st)"
    "map sv_version (identity_history st1 i) = map sv_version (identity_history st i)"
    "\<And>j. j \<noteq> i \<Longrightarrow> identity_history st1 j = identity_history st j"
    by (rule reject_replaced_pending_run [OF assms(1) Some, of now]) blast
  from max_version_map [OF st1(8)] have "next_version st1 i = next_version st i" by (simp add: next_version_def)
  with st1 Some assms(2) show ?thesis by (intro that [of st1]) (simp_all add: plan_of_def)
qed

text \<open>What the identity of the record looks like after each outcome.\<close>

definition describes :: "stored_version option \<Rightarrow> string \<Rightarrow> string \<Rightarrow> int \<Rightarrow> bool" where
  "describes v pk h n = (case v of None \<Rightarrow> False
     | Some v \<Rightarrow> sv_pk v = pk \<and> sv_hash v = h \<and> sv_version v = Some n)"

definition committed ::
    "int \<Rightarrow> string \<Rightarrow> source_identity \<Rightarrow> string \<Rightarrow> ingest_outcome \<Rightarrow> version_store \<Rightarrow> version_store \<Rightarrow> bool" where
  "committed now pk i h outcome st st' = (case outcome of
     Dropped \<Rightarrow> active_of st' i = active_of st i \<and> pending_of st' i = None
   | Held_For_Review \<Rightarrow> active_of st' i = active_of st i
       \<and> describes (pending_of st' i) pk h (next_version st i)
   | Accepted \<Rightarrow> describes (active_of st' i) pk h (next_version st i) \<and> pending_of st' i = None
       \<and> (case active_of st i of None \<Rightarrow> True
           | Some old \<Rightarrow> find_version st' (sv_pk old) = Some (supersede_old now old)))"

text \<open>Dropped records are not stored, so they need neither the system nor the entity.\<close>

definition storable_record :: "version_store \<Rightarrow> source_identity \<Rightarrow> string option \<Rightarrow> ingest_outcome \<Rightarrow> bool" where
  "storable_record st i ent outcome = (outcome = Dropped \<or> fst i \<in> set (vs_systems st) \<and> entity_exists st ent)"

lemma entity_exists_cong: "vs_entities st = vs_entities st' \<Longrightarrow> entity_exists st e = entity_exists st' e"
  by (simp add: entity_exists_def split: option.split)

lemma execute_plan_run:
  assumes "wf_store st" "storable_record st i ent outcome" "pk \<notin> sv_pk ` set (vs_versions st)" "plan_of st i plan"
  shows "\<exists>st'. execute_plan now pk i h nrm raw ent outcome plan st =
            Inr (if outcome = Dropped then None else Some pk, st')
          \<and> wf_store st' \<and> committed now pk i h outcome st st'
          \<and> (\<forall>j. j \<noteq> i \<longrightarrow> identity_history st' j = identity_history st j)"
proof -
  obtain st1 where st1: "(case pl_pending_to_reject plan of None \<Rightarrow> ok st
        | Some pending \<Rightarrow> reject_replaced_pending now pending st) = Inr st1"
    "wf_store st1" "pending_of st1 i = None" "active_of st1 i = active_of st i" "vs_systems st1 = vs_systems st"
    "vs_entities st1 = vs_entities st" "sv_pk ` set (vs_versions st1) = sv_pk ` set (vs_versions st)" "next_version st1 i = next_version st i"
    "\<And>j. j \<noteq> i \<Longrightarrow> identity_history st1 j = identity_history st j"
    by (rule reject_first [OF assms(1,4), of now]) blast
  have plan: "pl_version plan = next_version st i" "pl_active_source_record_pk plan = map_option sv_pk (active_of st i)"
    using assms(4) by (simp_all add: plan_of_def)
  have dropped: ?thesis if "outcome = Dropped"
    using that st1 by (simp add: execute_plan_def committed_def)
  show ?thesis
  proof (cases "outcome = Dropped")
    case False
    with assms(2,3) st1 have pre: "fst i \<in> set (vs_systems st1)" "pk \<notin> sv_pk ` set (vs_versions st1)" "entity_exists st1 ent"
      by (auto simp: storable_record_def entity_exists_cong [of st1 st])
    obtain st2 v where st2: "stage_source_record pk i (next_version st i) h (map_option sv_pk (active_of st i)) nrm raw ent st1 = Inr st2"
      "wf_store st2" "pending_of st2 i = Some v" "active_of st2 i = active_of st1 i" "vs_systems st2 = vs_systems st1"
      "sv_pk v = pk" "sv_hash v = h" "sv_version v = Some (next_version st i)"
      "sv_expected_active v = map_option sv_pk (active_of st i)"
      "find_version st2 pk = Some v" "identity_of v = i" "sv_status v = Some ''pending_review''"
      "\<And>j. j \<noteq> i \<Longrightarrow> identity_history st2 j = identity_history st1 j"
      by (rule stage_run [OF st1(2) pre(1,2) next_version_pos [OF assms(1), of i] st1(3) pre(3),
            of h "map_option sv_pk (active_of st i)" nrm raw]) blast
    show ?thesis
    proof (cases "outcome = Held_For_Review")
      case True
      with st1 st2 show ?thesis by (simp add: execute_plan_def plan committed_def describes_def)
    next
      case no: False
      with False have accepted: "outcome = Accepted" by (cases outcome) auto
      have exp: "sv_expected_active v = map_option sv_pk (active_of st2 i)" using st2(4,9) st1(4) by simp
      have sys: "fst i \<in> set (vs_systems st2)" using pre st2(5) by simp
      obtain st3 where st3: "activate_staged_version now i (map_option sv_pk (active_of st2 i)) pk st2 = Inr st3"
        "wf_store st3" "active_of st3 i = Some (activate_new now v)" "pending_of st3 i = None"
        "\<And>a. active_of st2 i = Some a \<Longrightarrow> find_version st3 (sv_pk a) = Some (supersede_old now a)"
        "\<And>j. j \<noteq> i \<Longrightarrow> identity_history st3 j = identity_history st2 j"
        by (rule activate_run [OF st2(2,10,11) sys st2(12) exp, of now]) blast
      have "describes (active_of st3 i) pk h (next_version st i)"
        using st2(6-8) st3(3) by (simp add: describes_def activate_new_def)
      then show ?thesis
        using accepted st1 st2(1,4,13) st3
        by (simp add: execute_plan_def plan committed_def split: option.split)
    qed
  qed (rule dropped)
qed

lemma execute_plan_refused:
  assumes "wf_store st" "\<not> storable_record st i ent outcome" "plan_of st i plan"
  shows "execute_plan now pk i h nrm raw ent outcome plan st = Inl (AssertionError ''CREATE_SOURCE_RECORD must return a row'')"
proof -
  obtain st1 where st1: "(case pl_pending_to_reject plan of None \<Rightarrow> ok st
        | Some pending \<Rightarrow> reject_replaced_pending now pending st) = Inr st1"
    "vs_systems st1 = vs_systems st" "vs_entities st1 = vs_entities st"
    by (rule reject_first [OF assms(1,3), of now]) blast
  with assms(2) show ?thesis
    by (auto simp: execute_plan_def storable_record_def stage_source_record_def entity_exists_cong [of st1 st])
qed

lemma ingest_version_run:
  assumes "wf_store st" "storable_record st i ent outcome" "pk \<notin> sv_pk ` set (vs_versions st)"
    and "classify_incoming_hash (read_state st i) h = None"
  shows "\<exists>st'. ingest_version now pk i h nrm raw ent outcome st =
            Inr (if outcome = Dropped then None else Some pk, False, st')
          \<and> wf_store st' \<and> committed now pk i h outcome st st'
          \<and> (\<forall>j. j \<noteq> i \<longrightarrow> identity_history st' j = identity_history st j)"
proof (cases rule: plan_cases [of st i h])
  case (dup d)
  with assms(4) show ?thesis by simp
next
  case (plan plan)
  with execute_plan_run [OF assms(1-3) plan(2), of now h nrm raw] show ?thesis
    by (auto simp: ingest_version_def load_reads_state [OF assms(1)])
qed

lemma ingest_version_refused:
  assumes "wf_store st" "\<not> storable_record st i ent outcome" "classify_incoming_hash (read_state st i) h = None"
  shows "ingest_version now pk i h nrm raw ent outcome st = Inl (AssertionError ''CREATE_SOURCE_RECORD must return a row'')"
proof (cases rule: plan_cases [of st i h])
  case (dup d)
  with assms(3) show ?thesis by simp
next
  case (plan plan)
  with execute_plan_refused [OF assms(1,2) plan(2)] show ?thesis
    by (simp add: ingest_version_def load_reads_state [OF assms(1)])
qed

lemma ingest_version_duplicate:
  assumes "wf_store st" "classify_incoming_hash (read_state st i) h = Some d"
  shows "ingest_version now pk i h nrm raw ent outcome st = Inr (Some d, True, st)"
  using assms(2) by (simp add: ingest_version_def load_reads_state [OF assms(1)] plan_incoming_version_def)

lemma classify_read_state:
  "classify_incoming_hash (read_state st i) h =
     (case active_of st i of
        Some a \<Rightarrow> if sv_hash a = h then Some (sv_pk a)
          else (case pending_of st i of Some p \<Rightarrow> if sv_hash p = h then Some (sv_pk p) else None | None \<Rightarrow> None)
      | None \<Rightarrow> (case pending_of st i of Some p \<Rightarrow> if sv_hash p = h then Some (sv_pk p) else None | None \<Rightarrow> None))"
  by (simp add: classify_incoming_hash_def read_state_def version_state_def split: option.split)

section \<open>Reachable stores\<close>

inductive lifecycle_reach :: "string list \<Rightarrow> version_store \<Rightarrow> bool" for systems where
  start: "lifecycle_reach systems \<lparr>vs_systems = systems, vs_entities = entities, vs_versions = [], vs_previous = [], vs_reviews = []\<rparr>"
| ingest: "lifecycle_reach systems st \<Longrightarrow> pk \<notin> sv_pk ` set (vs_versions st) \<Longrightarrow>
     ingest_version now pk i h nrm raw ent outcome st = Inr (reported, duplicate, st') \<Longrightarrow>
     lifecycle_reach systems st'"
| activate: "lifecycle_reach systems st \<Longrightarrow> activate_staged_version now i old new st = Inr st' \<Longrightarrow>
     lifecycle_reach systems st'"
| reject: "lifecycle_reach systems st \<Longrightarrow> reject_replaced_pending now pk st = Inr st' \<Longrightarrow>
     lifecycle_reach systems st'"
| link_failed: "lifecycle_reach systems st \<Longrightarrow>
     MARK_SOURCE_RECORD_LINK_FAILED now pk reason st = (st', row) \<Longrightarrow> lifecycle_reach systems st'"
| link_person: "lifecycle_reach systems st \<Longrightarrow>
     lifecycle_reach systems (update_version pk (\<lambda>v. v\<lparr>sv_linked := persons\<rparr>) st)"
| open_review: "lifecycle_reach systems st \<Longrightarrow>
     lifecycle_reach systems (st\<lparr>vs_reviews := vs_reviews st @ [review]\<rparr>)"

lemma activation_guard:
  assumes "wf_store st" "activate_staged_version now i old new st = Inr st'"
  obtains v where "find_version st new = Some v" "sv_status v = Some ''pending_review''" 
    "sv_expected_active v = map_option sv_pk (active_of st (identity_of v))"
    "old = map_option sv_pk (active_of st (identity_of v))" "sv_system v \<in> set (vs_systems st)"
    "activate_staged_version now i old new st = activate_staged_version now (identity_of v) old new st"
proof (cases old)
  case None
  with assms(2) obtain v where v: "find_version st new = Some v" "sv_status v = Some ''pending_review''"
    "identity_of v = i" "fst i \<in> set (vs_systems st)" "sv_expected_active v = None"
    "\<not> list_ex active_version (identity_history st i)"
    by (auto simp: activate_staged_version_def ACTIVATE_FIRST_SOURCE_RECORD_VERSION_def split: option.splits if_splits)
  then have "active_of st i = None" by (auto simp: active_of_def list_ex_iff)
  with v None show ?thesis by (intro that [of v]) (auto simp: identity_of_def)
next
  case (Some o_pk)
  with assms(2) obtain a v where v: "find_version st o_pk = Some a" "find_version st new = Some v"
    "sv_status v = Some ''pending_review''" "identity_of a = identity_of v" "sv_expected_active v = Some (sv_pk a)"
    "active_version a"
    by (auto simp: activate_staged_version_def ACTIVATE_SOURCE_RECORD_VERSION_def split: option.splits if_splits)
  from find_version_Some [OF v(1)] have a: "a \<in> set (vs_versions st)" "sv_pk a = o_pk" by auto
  from a(1) v(4,6) have act: "active_of st (identity_of v) = Some a" by (simp add: active_of_iff [OF assms(1)])
  have "sv_system v \<in> set (vs_systems st)"
    using find_version_Some [OF v(2)] wf_storeD(5) [OF assms(1)] by blast
  with v act a Some show ?thesis by (intro that [of v]) (simp_all add: activate_staged_version_def)
qed

lemma wf_activate_staged:
  assumes "wf_store st" "activate_staged_version now i old new st = Inr st'"
  shows "wf_store st'"
proof (rule activation_guard [OF assms])
  fix v assume v: "find_version st new = Some v" "sv_status v = Some ''pending_review''" 
    "sv_expected_active v = map_option sv_pk (active_of st (identity_of v))"
    "old = map_option sv_pk (active_of st (identity_of v))" "sv_system v \<in> set (vs_systems st)"
    "activate_staged_version now i old new st = activate_staged_version now (identity_of v) old new st"
  have sys: "fst (identity_of v) \<in> set (vs_systems st)" using v(5) by (simp add: identity_of_def)
  from activate_run [OF assms(1) v(1) refl sys v(2,3), of now] v(4,6) assms(2) show ?thesis by auto
qed

lemma wf_reject:
  assumes "wf_store st" "reject_replaced_pending now pk st = Inr st'"
  shows "wf_store st'"
proof -
  from assms(2) obtain v where v: "find_version st pk = Some v" "sv_status v = Some ''pending_review''"
    by (auto simp: reject_replaced_pending_def REJECT_PENDING_SOURCE_RECORD_def split: option.splits if_splits)
  from find_version_Some [OF v(1)] have "v \<in> set (vs_versions st)" "sv_pk v = pk" by auto
  with v have "pending_of st (identity_of v) = Some v"
    by (simp add: pending_of_iff [OF assms(1)] pending_version_def)
  from reject_replaced_pending_run [OF assms(1) this, of now] \<open>sv_pk v = pk\<close> assms(2) show ?thesis by auto
qed

lemma wf_link_failed:
  assumes "wf_store st" "MARK_SOURCE_RECORD_LINK_FAILED now pk reason st = (st', row)"
  shows "wf_store st'"
proof -
  let ?f = "\<lambda>v. v\<lparr>sv_status := Some ''link_failed'', sv_link_failure_reason := Some reason,
      sv_link_failed_at := Some now, sv_updated_at := Some now\<rparr>"
  have "wf_store (update_version pk ?f st)"
    by (rule wf_update_shrink [OF assms(1)])
       (simp_all add: keeps_keys_def identity_of_def active_version_def pending_version_def)
  with assms show ?thesis
    by (auto simp: MARK_SOURCE_RECORD_LINK_FAILED_def split: option.splits if_splits)
qed

lemma wf_ingest:
  assumes "wf_store st" "pk \<notin> sv_pk ` set (vs_versions st)"
    and "ingest_version now pk i h nrm raw ent outcome st = Inr (reported, duplicate, st')"
  shows "wf_store st'"
proof (cases "classify_incoming_hash (read_state st i) h")
  case (Some d)
  with ingest_version_duplicate [OF assms(1) Some, of now pk nrm raw] assms show ?thesis by simp
next
  case None
  show ?thesis
  proof (cases "storable_record st i ent outcome")
    case True
    from ingest_version_run [OF assms(1) True assms(2) None, of now nrm raw] assms(3) show ?thesis by auto
  next
    case False
    from ingest_version_refused [OF assms(1) False None, of now pk nrm raw] assms(3) show ?thesis by simp
  qed
qed

lemma reachable_wf: "lifecycle_reach systems st \<Longrightarrow> wf_store st"
proof (induction rule: lifecycle_reach.induct)
  case start
  then show ?case by (simp add: wf_store_def unique_version_def)
next
  case (ingest st pk now i h nrm raw ent outcome reported duplicate st')
  then show ?case using wf_ingest by blast
next
  case (activate st now i old new st')
  then show ?case using wf_activate_staged by blast
next
  case (reject st now pk st')
  then show ?case using wf_reject by blast
next
  case (link_failed st now pk reason st' row)
  then show ?case using wf_link_failed by blast
next
  case (link_person st pk persons)
  show ?case
    by (rule wf_update_shrink [OF link_person(2)])
       (simp_all add: keeps_keys_def identity_of_def active_version_def pending_version_def)
next
  case (open_review st review)
  then show ?case by simp
qed

section \<open>Properties\<close>

text \<open>C6: every store the transactions of the service can reach is well-formed: distinct keys,
  positive version numbers, and per source identity at most one active and at most one pending
  version, whatever the order of ingestions, activations, rejections and link failures.\<close>

theorem lifecycle_invariant:
  assumes "lifecycle_reach systems st"
  shows "wf_store st"
  by (rule reachable_wf [OF assms])

definition sample_identity :: source_identity where
  "sample_identity = (''bitrix'', ''legacy-default'', ''deal-1'')"

definition empty_store :: version_store where
  "empty_store = \<lparr>vs_systems = [''bitrix''], vs_entities = [], vs_versions = [], vs_previous = [], vs_reviews = []\<rparr>"

lemma empty_store_reach: "lifecycle_reach [''bitrix''] empty_store"
  unfolding empty_store_def by (rule lifecycle_reach.start)

lemma sample_reach:
  obtains st where "lifecycle_reach [''bitrix''] st"
    "ingest_version 5 ''pk1'' sample_identity ''h1'' ''n'' ''r'' None Accepted empty_store = Inr (Some ''pk1'', False, st)"
    "describes (active_of st sample_identity) ''pk1'' ''h1'' 1" "vs_systems st = [''bitrix'']" "vs_entities st = []"
    "pending_of st sample_identity = None" "''pk2'' \<notin> sv_pk ` set (vs_versions st)"
proof -
  let ?run = "ingest_version 5 ''pk1'' sample_identity ''h1'' ''n'' ''r'' None Accepted empty_store"
  have "case ?run of Inl e \<Rightarrow> False | Inr (reported, dup, st) \<Rightarrow> reported = Some ''pk1'' \<and> \<not> dup \<and>
      vs_systems st = [''bitrix''] \<and> vs_entities st = [] \<and> pending_of st sample_identity = None \<and>
      map sv_pk (vs_versions st) = [''pk1''] \<and>
      map_option (\<lambda>v. (sv_pk v, sv_hash v, sv_version v)) (active_of st sample_identity)
        = Some (''pk1'', ''h1'', Some 1)"
    by code_simp
  then obtain st where run: "?run = Inr (Some ''pk1'', False, st)" and st: "vs_systems st = [''bitrix'']" "vs_entities st = []"
      "pending_of st sample_identity = None" "map sv_pk (vs_versions st) = [''pk1'']"
      "map_option (\<lambda>v. (sv_pk v, sv_hash v, sv_version v)) (active_of st sample_identity)
        = Some (''pk1'', ''h1'', Some 1)"
    by (cases ?run) auto
  have reach: "lifecycle_reach [''bitrix''] st"
    by (rule lifecycle_reach.ingest [OF empty_store_reach _ run]) (simp add: empty_store_def)
  have "sv_pk ` set (vs_versions st) = set [''pk1'']" by (metis list.set_map st(4))
  moreover have "describes (active_of st sample_identity) ''pk1'' ''h1'' 1"
    using st(5) by (auto simp: describes_def)
  ultimately show ?thesis using that [OF reach run _ st(1-3)] by simp
qed

theorem lifecycle_invariant_witness:
  "\<exists>st. describes (active_of st sample_identity) ''pk1'' ''h1'' 1 \<and> wf_store st"
proof (rule sample_reach)
  fix st assume "lifecycle_reach [''bitrix''] st" "describes (active_of st sample_identity) ''pk1'' ''h1'' 1"
  then show ?thesis using lifecycle_invariant by blast
qed



text \<open>Ingestion is idempotent: once a record has been accepted or held for review, ingesting the
  same record again reports the same version as a duplicate and leaves the store as it is, whatever
  the matching would answer the second time.\<close>

theorem reingestion_is_duplicate:
  assumes "lifecycle_reach systems st" and "pk \<notin> sv_pk ` set (vs_versions st)"
    and "classify_incoming_hash (read_state st i) h = None"
    and "ingest_version now pk i h nrm raw ent outcome st = Inr (Some pk, False, st')"
  shows "ingest_version now2 pk2 i h nrm2 raw2 ent2 outcome2 st' =
           Inr (Some pk, True, st')"
proof -
  note start = reachable_wf [OF assms(1)]
  have wf: "wf_store st'" by (rule wf_ingest [OF start assms(2,4)])
  have "storable_record st i ent outcome"
    using ingest_version_refused [OF start _ assms(3), of ent outcome now pk nrm raw] assms(4) by (cases "storable_record st i ent outcome") simp_all
  from ingest_version_run [OF start this assms(2,3), of now nrm raw] assms(4)
  have com: "committed now pk i h outcome st st'" "outcome \<noteq> Dropped" by (auto split: if_splits)
  have act: "map_option sv_hash (active_of st i) \<noteq> Some h"
    using assms(3) by (auto simp: classify_read_state)
  have "classify_incoming_hash (read_state st' i) h = Some pk"
    using com act by (cases outcome) (auto simp: classify_read_state committed_def describes_def split: option.splits)
  from ingest_version_duplicate [OF wf this] show ?thesis .
qed

theorem reingestion_is_duplicate_witness:
  "\<exists>st'. ingest_version 7 ''pk9'' sample_identity ''h1'' ''n'' ''r'' None Dropped st' = Inr (Some ''pk1'', True, st')"
proof (rule sample_reach)
  fix st assume st: "ingest_version 5 ''pk1'' sample_identity ''h1'' ''n'' ''r'' None Accepted empty_store = Inr (Some ''pk1'', False, st)"
  have "classify_incoming_hash (read_state empty_store sample_identity) ''h1'' = None"
    by (simp add: classify_read_state active_of_def pending_of_def identity_history_def empty_store_def)
  from reingestion_is_duplicate [OF empty_store_reach _ this st, of 7 "''pk9''" "''n''" "''r''" None Dropped]
  have "ingest_version 7 ''pk9'' sample_identity ''h1'' ''n'' ''r'' None Dropped st = Inr (Some ''pk1'', True, st)"
    by (simp add: empty_store_def sample_identity_def)
  then show ?thesis by blast
qed

text \<open>C12: an activation commits only the pending version that was staged on the version that is
  active now: a version staged on an outdated active version is refused with a conflict.\<close>

theorem activation_needs_expected_active:
  assumes "lifecycle_reach systems st" and "activate_staged_version now i old new st = Inr st'"
  shows "\<exists>v. find_version st new = Some v \<and> sv_status v = Some ''pending_review''
     \<and> sv_expected_active v = map_option sv_pk (active_of st (identity_of v))
     \<and> old = map_option sv_pk (active_of st (identity_of v))"
  by (rule activation_guard [OF reachable_wf [OF assms(1)] assms(2)]) blast

definition held_store :: version_store where
  "held_store =
     \<lparr>vs_systems = [''bitrix''], vs_entities = [],
       vs_versions = [\<lparr>sv_pk = ''pk1'', sv_system = ''bitrix'', sv_instance = ''legacy-default'',
          sv_record_id = ''deal-1'', sv_entity = None, sv_version = Some 1, sv_hash = ''h1'', sv_status = Some ''pending_review'',
          sv_is_latest = Some False, sv_expected_active = None, sv_linked = [],
          sv_normalized_payload = Some ''n'', sv_raw_payload = Some ''r'',
          sv_rejection_reason = None, sv_link_failure_reason = None, sv_superseded_at = None,
          sv_activated_at = None, sv_rejected_at = None, sv_link_failed_at = None,
          sv_updated_at = None\<rparr>], vs_previous = [], vs_reviews = []\<rparr>"

lemma held_store_reach: "lifecycle_reach [''bitrix''] held_store"
proof -
  have "ingest_version 5 ''pk1'' sample_identity ''h1'' ''n'' ''r'' None Held_For_Review empty_store = Inr (Some ''pk1'', False, held_store)"
    by code_simp
  then show ?thesis by (rule lifecycle_reach.ingest [OF empty_store_reach, rotated]) (simp add: empty_store_def)
qed

theorem activation_needs_expected_active_witness:
  "\<exists>st st'. activate_staged_version 9 sample_identity None ''pk1'' st = Inr st'
     \<and> active_of st sample_identity = None"
proof -
  have "\<exists>st'. activate_staged_version 9 sample_identity None ''pk1'' held_store = Inr st'"
    by (simp add: held_store_def activate_staged_version_def ACTIVATE_FIRST_SOURCE_RECORD_VERSION_def find_version_def identity_of_def
        sample_identity_def identity_history_def active_version_def)
  then obtain st' where run: "activate_staged_version 9 sample_identity None ''pk1'' held_store = Inr st'" by blast
  from activation_needs_expected_active [OF held_store_reach run]
  have "active_of held_store sample_identity = None"
    by (auto simp: held_store_def find_version_def identity_of_def sample_identity_def)
  with run show ?thesis by blast
qed

text \<open>C13: a record that the matching drops still rejects the pending version of its identity: the
  pending version is marked as replaced by a newer version and the open review cases about it are
  cancelled for that reason, although no newer version is stored; every other version stays as it is.\<close>

theorem dropped_record_rejects_pending:
  assumes "lifecycle_reach systems st" and "pending_of st i = Some p"
    and "classify_incoming_hash (read_state st i) h = None"
  shows "\<exists>st'. ingest_version now pk i h nrm raw ent Dropped st = Inr (None, False, st') \<and> pending_of st' i = None
     \<and> vs_versions st' = map (\<lambda>v. if v = p
         then v\<lparr>sv_status := Some ''rejected'', sv_rejection_reason := Some ''rejected_by_newer_version'',
                sv_rejected_at := Some now, sv_updated_at := Some now\<rparr> else v) (vs_versions st)
     \<and> vs_reviews st' = map (\<lambda>rc. if sv_pk p \<in> set (rc_about rc) \<and> rc_queue_state rc \<in> {''open'', ''assigned'', ''deferred''}
         then rc\<lparr>rc_queue_state := ''cancelled'', rc_resolution := Some ''cancelled_superseded'',
                 rc_resolution_reason := Some ''rejected_by_newer_version'', rc_resolved_at := Some now,
                 rc_updated_at := Some now\<rparr> else rc) (vs_reviews st)"
proof -
  note wf = reachable_wf [OF assms(1)]
  obtain plan where plan: "plan_incoming_version (read_state st i) h = Planned_Version plan" "plan_of st i plan"
    by (cases rule: plan_cases [of st i h]) (use assms(3) in auto)
  obtain st1 where st1: "reject_replaced_pending now (sv_pk p) st = Inr st1" "pending_of st1 i = None"
    by (rule reject_replaced_pending_run [OF wf assms(2), of now]) blast
  have p: "p \<in> set (vs_versions st)" "sv_status p = Some ''pending_review''"
    using assms(2) by (simp_all add: pending_of_iff [OF wf] pending_version_def)
  have "v = p \<longleftrightarrow> sv_pk v = sv_pk p" if "v \<in> set (vs_versions st)" for v
    using same_pk [OF wf that p(1)] by blast
  with st1(1) p have "vs_versions st1 = map (\<lambda>v. if v = p
         then v\<lparr>sv_status := Some ''rejected'', sv_rejection_reason := Some ''rejected_by_newer_version'',
                sv_rejected_at := Some now, sv_updated_at := Some now\<rparr> else v) (vs_versions st)"
    "vs_reviews st1 = map (cancel_review now (sv_pk p) ''rejected_by_newer_version'') (vs_reviews st)"
    by (auto simp: reject_replaced_pending_def REJECT_PENDING_SOURCE_RECORD_def find_version_mem [OF wf] update_version_def)
  moreover have "ingest_version now pk i h nrm raw ent Dropped st = Inr (None, False, st1)"
    using plan st1(1) assms(2) by (simp add: ingest_version_def load_reads_state [OF wf] execute_plan_def plan_of_def)
  ultimately show ?thesis using st1(2) by (auto simp: cancel_review_def)
qed

theorem dropped_record_rejects_pending_witness:
  "\<exists>st'. ingest_version 6 ''pk2'' sample_identity ''h2'' ''n'' ''r'' None Dropped held_store = Inr (None, False, st')
     \<and> map (\<lambda>v. (sv_pk v, sv_status v, sv_rejection_reason v)) (vs_versions st')
         = [(''pk1'', Some ''rejected'', Some ''rejected_by_newer_version'')]"
proof -
  have "pending_of held_store sample_identity = Some (hd (vs_versions held_store))"
    "classify_incoming_hash (read_state held_store sample_identity) ''h2'' = None" by code_simp+
  from dropped_record_rejects_pending [OF held_store_reach this, of 6 "''pk2''" "''n''" "''r''" None]
  show ?thesis by (auto simp: held_store_def)
qed

end
