(* ===== verification/Cypher.thy ===== *)
theory Cypher
  imports Graph
begin

text \<open>
  The writing clauses of Cypher on the property graph: \<open>SET\<close> on nodes and property maps,
  \<open>CREATE\<close>, \<open>DELETE\<close> and \<open>MERGE\<close> of relationships. Setting a property to null removes it.
  A statement reads its whole pattern before its writing clauses run, and a writing clause runs
  for all rows before the next one, so a statement is: the rows, then one list operation per clause.
  \<open>MERGE\<close> on a property that is null raises an error, as it does in Neo4j.
\<close>

section \<open>Property maps\<close>

definition json_set :: "string \<Rightarrow> json \<Rightarrow> json_obj \<Rightarrow> json_obj" where
  "json_set k v d = (if v = JNull then AList.delete k d else AList.update k v d)"

definition json_sets :: "json_obj \<Rightarrow> json_obj \<Rightarrow> json_obj" where
  "json_sets kvs d = fold (\<lambda>(k, v). json_set k v) kvs d"

definition coalesce :: "json \<Rightarrow> json \<Rightarrow> json" where
  "coalesce a b = (if a = JNull then b else a)"

definition js :: "string option \<Rightarrow> json" where
  "js v = (case v of None \<Rightarrow> JNull | Some s \<Rightarrow> JStr s)"

lemma json_get_set [simp]: "json_get (json_set k v d) k' = (if k' = k then v else json_get d k')"
  by (auto simp: json_set_def json_get_def update_conv' delete_conv')

lemma json_sets_simps [simp]:
  "json_sets [] d = d"
  "json_sets ((k, v) # kvs) d = json_sets kvs (json_set k v d)"
  by (simp_all add: json_sets_def)

lemma json_get_Nil [simp]: "json_get [] k = JNull"
  by (simp add: json_get_def)

lemma coalesce_simps [simp]:
  "coalesce JNull b = b"
  "a \<noteq> JNull \<Longrightarrow> coalesce a b = a"
  by (simp_all add: coalesce_def)

text \<open>Setting a list of distinct keys leaves the others alone.\<close>

lemma json_get_sets:
  "distinct (map fst kvs) \<Longrightarrow>
   json_get (json_sets kvs d) k = (case map_of kvs k of None \<Rightarrow> json_get d k | Some v \<Rightarrow> v)"
proof (induction kvs arbitrary: d)
  case (Cons kv kvs)
  obtain a v where kv: "kv = (a, v)" by (cases kv)
  from Cons.prems have a: "map_of kvs a = None" by (simp add: kv map_of_eq_None_iff)
  from Cons show ?case by (cases "k = a") (simp_all add: kv a cong: option.case_cong)
qed simp

lemma json_get_sets_other: "k \<notin> fst ` set kvs \<Longrightarrow> json_get (json_sets kvs d) k = json_get d k"
  by (induction kvs arbitrary: d) auto

section \<open>Nodes\<close>

text \<open>\<open>MATCH (n {key}) SET n.k = v, ...\<close>; the values may depend on the node's own properties.\<close>

definition set_node :: "node \<Rightarrow> (json_obj \<Rightarrow> json_obj) \<Rightarrow> graph \<Rightarrow> graph" where
  "set_node n f g =
     g\<lparr>g_nodes := map (\<lambda>(m, d). if m = n then (m, json_sets (f d) d) else (m, d)) (g_nodes g)\<rparr>"

definition create_node :: "node \<Rightarrow> json_obj \<Rightarrow> graph \<Rightarrow> graph" where
  "create_node n props g = g\<lparr>g_nodes := g_nodes g @ [(n, json_sets props [])]\<rparr>"

definition node_props :: "graph \<Rightarrow> node \<Rightarrow> json_obj" where
  "node_props g n = (case map_of (g_nodes g) n of None \<Rightarrow> [] | Some d \<Rightarrow> d)"

lemma map_of_set_node:
  "map_of (g_nodes (set_node n f g)) m =
     (if m = n then map_option (\<lambda>d. json_sets (f d) d) (map_of (g_nodes g) n) else map_of (g_nodes g) m)"
proof -
  have "map_of (map (\<lambda>(m, d). if m = n then (m, json_sets (f d) d) else (m, d)) xs) m =
     (if m = n then map_option (\<lambda>d. json_sets (f d) d) (map_of xs n) else map_of xs m)" for xs
    by (induction xs) auto
  then show ?thesis by (simp add: set_node_def)
qed

lemma node_prop_node_props: "node_prop g n k = json_get (node_props g n) k"
  by (simp add: node_prop_def node_props_def split: option.split)

lemma has_node_map_of: "has_node g n \<longleftrightarrow> map_of (g_nodes g) n \<noteq> None"
  by (simp add: has_node_def map_of_eq_None_iff)

lemma has_node_set_node [simp]: "has_node (set_node n f g) m = has_node g m"
  by (simp add: has_node_map_of map_of_set_node)

lemma node_prop_set_node:
  "node_prop (set_node n f g) m k =
     (if m = n \<and> has_node g n then json_get (json_sets (f (node_props g n)) (node_props g n)) k
      else node_prop g m k)"
  by (auto simp: node_prop_def node_props_def has_node_map_of map_of_set_node split: option.split)

lemma node_prop_set_node_other:
  "m \<noteq> n \<or> k \<notin> fst ` set (f (node_props g n)) \<Longrightarrow> node_prop (set_node n f g) m k = node_prop g m k"
  by (cases "m = n") (simp_all add: node_prop_set_node json_get_sets_other flip: node_prop_node_props)

lemma g_edges_set_node [simp]: "g_edges (set_node n f g) = g_edges g"
  by (simp add: set_node_def)

lemma g_edges_create_node [simp]: "g_edges (create_node n p g) = g_edges g"
  by (simp add: create_node_def)

lemma has_node_create_node [simp]: "has_node (create_node n p g) m \<longleftrightarrow> m = n \<or> has_node g m"
  by (auto simp: create_node_def has_node_def)

lemma node_prop_create_node:
  "\<not> has_node g n \<Longrightarrow> node_prop (create_node n p g) m k =
     (if m = n then json_get (json_sets p []) k else node_prop g m k)"
  by (auto simp: create_node_def node_prop_def has_node_map_of map_add_def split: option.split)

lemma node_prop_create_other: "m \<noteq> n \<Longrightarrow> node_prop (create_node n p g) m k = node_prop g m k"
  by (auto simp: create_node_def node_prop_def map_add_def split: option.split)

section \<open>Relationships\<close>

definition create_edge :: "edge \<Rightarrow> graph \<Rightarrow> graph" where
  "create_edge e g = g\<lparr>g_edges := g_edges g @ [e]\<rparr>"

text \<open>
  The pattern \<open>MATCH (old) ... CREATE ... DELETE old\<close>: every matching relationship is replaced by
  the relationships its row creates.
\<close>

definition rewire_create :: "(edge \<Rightarrow> bool) \<Rightarrow> (edge \<Rightarrow> edge list) \<Rightarrow> graph \<Rightarrow> graph" where
  "rewire_create old created g =
     g\<lparr>g_edges := [e \<leftarrow> g_edges g. \<not> old e] @ concat (map created [e \<leftarrow> g_edges g. old e])\<rparr>"

text \<open>Relationships that carry the given values, as in \<open>-[rel:T {k: v, ...}]->\<close>; null equals nothing.\<close>

definition has_props :: "json_obj \<Rightarrow> edge \<Rightarrow> bool" where
  "has_props kvs e = list_all (\<lambda>(k, v). v \<noteq> JNull \<and> edge_prop e k = v) kvs"

definition edge_between :: "rel_type \<Rightarrow> node \<Rightarrow> node \<Rightarrow> edge \<Rightarrow> bool" where
  "edge_between t a b e = (e_type e = t \<and> e_src e = a \<and> e_dst e = b)"

text \<open>
  \<open>MERGE (a)-[rel:T {kvs}]->(b) ON CREATE SET create ON MATCH SET match\<close>: the matching
  relationships are updated, or one is created.
\<close>

definition merge_edge ::
    "rel_type \<Rightarrow> node \<Rightarrow> node \<Rightarrow> json_obj \<Rightarrow> (json_obj \<Rightarrow> json_obj) \<Rightarrow> (json_obj \<Rightarrow> json_obj)
     \<Rightarrow> graph \<Rightarrow> graph result" where
  "merge_edge t a b kvs on_create on_match g =
     (if list_ex (\<lambda>(k, v). v = JNull) kvs
      then raise (ValueError ''Cannot merge relationship using null property value'')
      else let hit = (\<lambda>e. edge_between t a b e \<and> has_props kvs e)
           in if list_ex hit (g_edges g)
              then ok (g\<lparr>g_edges := map (\<lambda>e. if hit e then e\<lparr>e_props := on_match (e_props e)\<rparr> else e)
                                       (g_edges g)\<rparr>)
              else ok (create_edge \<lparr>e_type = t, e_src = a, e_dst = b,
                                    e_props = on_create (json_sets kvs [])\<rparr> g))"

lemma rewire_create_simps [simp]:
  "g_nodes (rewire_create old created g) = g_nodes g"
  "g_edges (rewire_create old created g) =
     [e \<leftarrow> g_edges g. \<not> old e] @ concat (map created [e \<leftarrow> g_edges g. old e])"
  by (simp_all add: rewire_create_def)

lemma has_node_rewire_create [simp]: "has_node (rewire_create old created g) n = has_node g n"
  by (simp add: has_node_def)

lemma node_prop_rewire_create [simp]: "node_prop (rewire_create old created g) n k = node_prop g n k"
  by (simp add: node_prop_def)

lemma create_edge_simps [simp]:
  "g_nodes (create_edge e g) = g_nodes g"
  "g_edges (create_edge e g) = g_edges g @ [e]"
  by (simp_all add: create_edge_def)

lemma has_node_create_edge [simp]: "has_node (create_edge e g) n = has_node g n"
  by (simp add: has_node_def)

lemma node_prop_create_edge [simp]: "node_prop (create_edge e g) n k = node_prop g n k"
  by (simp add: node_prop_def)

end
