(* ===== verification/GoldenProfile.thy ===== *)
theory GoldenProfile
  imports Cypher
begin

text \<open>
  The golden profile of a person (\<open>golden_profile.py\<close>): the evidence the person actively holds, the
  survivorship rules that select one value per field, and the write of the derived fields on the
  Person node (\<open>graph/queries/persons.py\<close>). Date-times are numbers in the graph; \<open>isof\<close> is the
  driver's \<open>iso_format\<close>.
\<close>

section \<open>Reads\<close>

fun is_source_record :: "node \<Rightarrow> bool" where
  "is_source_record (SourceRecordN _) = True"
| "is_source_record _ = False"

fun is_identifier :: "node \<Rightarrow> bool" where
  "is_identifier (IdentifierN _ _ _) = True"
| "is_identifier _ = False"

fun is_address :: "node \<Rightarrow> bool" where
  "is_address (AddressN _) = True"
| "is_address _ = False"

fun identifier_props :: "node \<Rightarrow> json \<times> json" where
  "identifier_props (IdentifierN ty scope v) = (JStr ty, JStr v)"
| "identifier_props _ = (JNull, JNull)"

definition FETCH_PERSON_FACTS :: "graph \<Rightarrow> string \<Rightarrow> json_obj list" where
  "FETCH_PERSON_FACTS g pid =
     [[(''attribute_name'', edge_prop f ''attribute_name''),
       (''attribute_value'', edge_prop f ''attribute_value''),
       (''source_trust_tier'', edge_prop f ''source_trust_tier''),
       (''observed_at'', edge_prop f ''observed_at''),
       (''quality_flag'', edge_prop f ''quality_flag'')].
      f \<leftarrow> out_edges g HAS_FACT (PersonN pid), is_source_record (e_dst f), rel_active f]"

text \<open>\<open>OPTIONAL MATCH (src:SourceRecord {source_record_pk: rel.source_record_pk})\<close>, its record type.\<close>

fun source_record_type :: "graph \<Rightarrow> json \<Rightarrow> json" where
  "source_record_type g (JStr pk) = node_prop g (SourceRecordN pk) ''record_type''"
| "source_record_type g _ = JNull"

definition FETCH_PERSON_IDENTIFIERS :: "graph \<Rightarrow> string \<Rightarrow> json_obj list" where
  "FETCH_PERSON_IDENTIFIERS g pid =
     [[(''identifier_type'', fst (identifier_props (e_dst rel))),
       (''normalized_value'', snd (identifier_props (e_dst rel))),
       (''is_verified'', edge_prop rel ''is_verified''),
       (''last_confirmed_at'', edge_prop rel ''last_confirmed_at''),
       (''source_record_type'',
          source_record_type g (edge_prop rel ''source_record_pk''))].
      rel \<leftarrow> out_edges g IDENTIFIED_BY (PersonN pid), is_identifier (e_dst rel), rel_active rel]"

definition FETCH_PERSON_ADDRESSES :: "graph \<Rightarrow> string \<Rightarrow> json_obj list" where
  "FETCH_PERSON_ADDRESSES g pid =
     [[(''address_id'', (case e_dst rel of AddressN a \<Rightarrow> JStr a | _ \<Rightarrow> JNull)),
       (''normalized_full'', node_prop g (e_dst rel) ''normalized_full''),
       (''is_verified'', edge_prop rel ''is_verified''),
       (''last_confirmed_at'', edge_prop rel ''last_confirmed_at'')].
      rel \<leftarrow> out_edges g LIVES_AT (PersonN pid), is_address (e_dst rel), rel_active rel]"

section \<open>Typed evidence\<close>

record legacy_fact =
  lf_attribute_name :: string
  lf_attribute_value :: string
  lf_quality_flag :: "string option"
  lf_source_trust_tier :: "string option"
  lf_observed_at :: "string option"

record legacy_identifier =
  li_identifier_type :: string
  li_normalized_value :: string
  li_is_verified :: bool
  li_last_confirmed_at :: "string option"

record legacy_address =
  la_address_id :: string
  la_is_verified :: bool
  la_last_confirmed_at :: "string option"

definition row_string :: "json_obj \<Rightarrow> string \<Rightarrow> string result" where
  "row_string row k = try_bind (json_req row k) (\<lambda>v. case v of
      JStr s \<Rightarrow> ok s | _ \<Rightarrow> raise (ValueError ''golden profile string evidence is malformed''))"

definition row_optional_string :: "(int \<Rightarrow> string) \<Rightarrow> json_obj \<Rightarrow> string \<Rightarrow> string option result" where
  "row_optional_string isof row k = try_bind (json_req row k) (\<lambda>v. case v of
      JNull \<Rightarrow> ok None
    | JStr s \<Rightarrow> ok (Some s)
    | JInt t \<Rightarrow> ok (Some (isof t))
    | _ \<Rightarrow> raise (ValueError ''golden profile optional evidence is malformed''))"

definition row_bool :: "json_obj \<Rightarrow> string \<Rightarrow> bool result" where
  "row_bool row k = try_bind (json_req row k) (\<lambda>v. case v of
      JBool b \<Rightarrow> ok b
    | JNull \<Rightarrow> ok False
    | _ \<Rightarrow> raise (ValueError ''golden profile boolean evidence is malformed''))"

definition legacy_fact_of :: "(int \<Rightarrow> string) \<Rightarrow> json_obj \<Rightarrow> legacy_fact result" where
  "legacy_fact_of isof row =
     try_bind (row_string row ''attribute_name'') (\<lambda>n.
     try_bind (row_string row ''attribute_value'') (\<lambda>v.
     try_bind (row_optional_string isof row ''quality_flag'') (\<lambda>q.
     try_bind (row_optional_string isof row ''source_trust_tier'') (\<lambda>t.
     try_bind (row_optional_string isof row ''observed_at'') (\<lambda>obs.
       ok \<lparr>lf_attribute_name = n, lf_attribute_value = v, lf_quality_flag = q,
           lf_source_trust_tier = t, lf_observed_at = obs\<rparr>)))))"

definition legacy_identifier_of :: "(int \<Rightarrow> string) \<Rightarrow> json_obj \<Rightarrow> legacy_identifier result" where
  "legacy_identifier_of isof row =
     try_bind (row_string row ''identifier_type'') (\<lambda>t.
     try_bind (row_string row ''normalized_value'') (\<lambda>v.
     try_bind (row_bool row ''is_verified'') (\<lambda>b.
     try_bind (row_optional_string isof row ''last_confirmed_at'') (\<lambda>c.
       ok \<lparr>li_identifier_type = t, li_normalized_value = v, li_is_verified = b,
           li_last_confirmed_at = c\<rparr>))))"

definition legacy_address_of :: "(int \<Rightarrow> string) \<Rightarrow> json_obj \<Rightarrow> legacy_address result" where
  "legacy_address_of isof row =
     try_bind (row_string row ''address_id'') (\<lambda>a.
     try_bind (row_bool row ''is_verified'') (\<lambda>b.
     try_bind (row_optional_string isof row ''last_confirmed_at'') (\<lambda>c.
       ok \<lparr>la_address_id = a, la_is_verified = b, la_last_confirmed_at = c\<rparr>)))"

definition fetch_person_evidence ::
    "(int \<Rightarrow> string) \<Rightarrow> graph \<Rightarrow> string
     \<Rightarrow> (legacy_fact list \<times> legacy_identifier list \<times> legacy_address list) result" where
  "fetch_person_evidence isof g pid =
     try_bind (map_result (legacy_fact_of isof) (FETCH_PERSON_FACTS g pid)) (\<lambda>facts.
     try_bind (map_result (legacy_identifier_of isof) (FETCH_PERSON_IDENTIFIERS g pid)) (\<lambda>identifiers.
     try_bind (map_result (legacy_address_of isof) (FETCH_PERSON_ADDRESSES g pid)) (\<lambda>addresses.
       ok (facts, identifiers, addresses))))"

section \<open>Survivorship\<close>

definition TRUST_TIER_RANK :: "string \<Rightarrow> int" where
  "TRUST_TIER_RANK t =
     (if t = ''tier_1'' then 4 else if t = ''tier_2'' then 3 else if t = ''tier_3'' then 2
      else if t = ''tier_4'' then 1 else 0)"

definition GOLDEN_PROFILE_VERSION :: string where
  "GOLDEN_PROFILE_VERSION = ''v0.1.0''"

record golden_fields =
  gp_preferred_full_name :: "string option"
  gp_preferred_dob :: "string option"
  gp_preferred_phone :: "string option"
  gp_preferred_email :: "string option"
  gp_preferred_address_id :: "string option"
  gp_preferred_nric :: "string option"
  gp_preferred_race_ethnicity :: "string option"
  gp_profile_completeness_score :: f64
  gp_golden_profile_version :: string

definition fact_key :: "legacy_fact \<Rightarrow> bool \<times> int \<times> string" where
  "fact_key f = (lf_quality_flag f = Some ''valid'',
     TRUST_TIER_RANK (or_empty (lf_source_trust_tier f)), or_empty (lf_observed_at f))"

definition pick_best_fact :: "legacy_fact list \<Rightarrow> string \<Rightarrow> string option" where
  "pick_best_fact facts attribute_name =
     map_option lf_attribute_value
       (py_max fact_key [f \<leftarrow> facts. lf_attribute_name f = attribute_name])"

definition identifier_rank :: "legacy_identifier \<Rightarrow> bool \<times> string" where
  "identifier_rank i = (li_is_verified i, or_empty (li_last_confirmed_at i))"

definition pick_best_identifier :: "legacy_identifier list \<Rightarrow> string \<Rightarrow> string option" where
  "pick_best_identifier identifiers identifier_type =
     map_option li_normalized_value
       (py_max identifier_rank [i \<leftarrow> identifiers. li_identifier_type i = identifier_type])"

definition pick_best_address :: "legacy_address list \<Rightarrow> string option" where
  "pick_best_address addresses =
     map_option la_address_id
       (py_max (\<lambda>a. (la_is_verified a, or_empty (la_last_confirmed_at a))) addresses)"

definition completeness :: "string option list \<Rightarrow> f64" where
  "completeness values = round2 (fdiv (of_nat (length [v \<leftarrow> values. v \<noteq> None])) 5)"

definition apply_survivorship ::
    "legacy_fact list \<Rightarrow> legacy_identifier list \<Rightarrow> legacy_address list \<Rightarrow> golden_fields" where
  "apply_survivorship facts identifiers addresses =
     (let full_name = (case pick_best_fact facts ''full_name'' of
                         Some n \<Rightarrow> Some n
                       | None \<Rightarrow> str_or (pick_best_fact facts ''preferred_name'')
                                        (pick_best_fact facts ''legal_name''));
          dob = pick_best_fact facts ''dob'';
          phone = pick_best_identifier identifiers ''phone'';
          email = pick_best_identifier identifiers ''email'';
          address_id = pick_best_address addresses
      in \<lparr>gp_preferred_full_name = full_name, gp_preferred_dob = dob, gp_preferred_phone = phone,
          gp_preferred_email = email, gp_preferred_address_id = address_id,
          gp_preferred_nric = pick_best_identifier identifiers ''nric'',
          gp_preferred_race_ethnicity = pick_best_fact facts ''race_ethnicity'',
          gp_profile_completeness_score = completeness [full_name, dob, phone, email, address_id],
          gp_golden_profile_version = GOLDEN_PROFILE_VERSION\<rparr>)"

section \<open>The write\<close>

definition UPDATE_GOLDEN_PROFILE :: "int \<Rightarrow> string \<Rightarrow> golden_fields \<Rightarrow> graph \<Rightarrow> graph" where
  "UPDATE_GOLDEN_PROFILE now pid f g = set_node (PersonN pid) (\<lambda>_.
     [(''preferred_full_name'', js (gp_preferred_full_name f)),
      (''preferred_phone'', js (gp_preferred_phone f)),
      (''preferred_email'', js (gp_preferred_email f)),
      (''preferred_dob'', js (gp_preferred_dob f)),
      (''preferred_address_id'', js (gp_preferred_address_id f)),
      (''preferred_nric'', js (gp_preferred_nric f)),
      (''preferred_race_ethnicity'', js (gp_preferred_race_ethnicity f)),
      (''profile_completeness_score'', JFloat (gp_profile_completeness_score f)),
      (''golden_profile_computed_at'', JInt now),
      (''golden_profile_version'', JStr (gp_golden_profile_version f)),
      (''updated_at'', JInt now)]) g"

definition compute_golden_profile ::
    "(int \<Rightarrow> string) \<Rightarrow> int \<Rightarrow> string \<Rightarrow> graph \<Rightarrow> (golden_fields \<times> graph) result" where
  "compute_golden_profile isof now pid g =
     try_bind (fetch_person_evidence isof g pid) (\<lambda>(facts, identifiers, addresses).
       let fields = apply_survivorship facts identifiers addresses
       in ok (fields, UPDATE_GOLDEN_PROFILE now pid fields g))"

section \<open>Where the selected values come from\<close>

lemma pick_best_fact_cases:
  "case pick_best_fact facts n of
     None \<Rightarrow> \<forall>f \<in> set facts. lf_attribute_name f \<noteq> n
   | Some v \<Rightarrow> \<exists>f \<in> set facts. lf_attribute_name f = n \<and> lf_attribute_value f = v
       \<and> (\<forall>f' \<in> set facts. lf_attribute_name f' = n \<longrightarrow> fact_key f' \<le> fact_key f)"
proof (cases "py_max fact_key [f \<leftarrow> facts. lf_attribute_name f = n]")
  case None
  then show ?thesis by (simp add: pick_best_fact_def filter_empty_conv)
next
  case (Some m)
  then show ?thesis using py_max_mem [OF Some] py_max_ge [OF Some] by (auto simp: pick_best_fact_def)
qed

lemma pick_best_identifier_cases:
  "case pick_best_identifier ids t of
     None \<Rightarrow> \<forall>i \<in> set ids. li_identifier_type i \<noteq> t
   | Some v \<Rightarrow> \<exists>i \<in> set ids. li_identifier_type i = t \<and> li_normalized_value i = v
       \<and> (\<forall>j \<in> set ids. li_identifier_type j = t \<longrightarrow> identifier_rank j \<le> identifier_rank i)"
proof (cases "py_max identifier_rank [i \<leftarrow> ids. li_identifier_type i = t]")
  case None
  then show ?thesis by (simp add: pick_best_identifier_def filter_empty_conv)
next
  case (Some m)
  then show ?thesis using py_max_mem [OF Some] py_max_ge [OF Some] by (auto simp: pick_best_identifier_def)
qed

lemma row_string_Inr: "row_string row k = Inr s \<longleftrightarrow> map_of row k = Some (JStr s)"
  by (auto simp: row_string_def json_req_def split: option.splits json.splits)

lemma row_bool_Inr: "row_bool row k = Inr b \<Longrightarrow> b = (json_get row k = JBool True)"
  by (auto simp: row_bool_def json_req_def json_get_def split: option.splits json.splits)

definition temporal_text :: "(int \<Rightarrow> string) \<Rightarrow> json \<Rightarrow> string" where
  "temporal_text isof v = (case v of JStr s \<Rightarrow> s | JInt n \<Rightarrow> isof n | _ \<Rightarrow> [])"

lemma row_optional_string_Inr:
  "row_optional_string isof row k = Inr c \<Longrightarrow> or_empty c = temporal_text isof (json_get row k)"
  by (auto simp: row_optional_string_def json_req_def json_get_def temporal_text_def
      split: option.splits json.splits)

lemma legacy_identifier_of_row:
  assumes "legacy_identifier_of isof row = Inr i"
  shows "json_get row ''identifier_type'' = JStr (li_identifier_type i)"
    "json_get row ''normalized_value'' = JStr (li_normalized_value i)"
    "identifier_rank i = (json_get row ''is_verified'' = JBool True,
       temporal_text isof (json_get row ''last_confirmed_at''))"
proof -
  from assms obtain t v b c where reads: "row_string row ''identifier_type'' = Inr t"
    "row_string row ''normalized_value'' = Inr v" "row_bool row ''is_verified'' = Inr b"
    "row_optional_string isof row ''last_confirmed_at'' = Inr c"
    and i: "i = \<lparr>li_identifier_type = t, li_normalized_value = v, li_is_verified = b, li_last_confirmed_at = c\<rparr>"
    by (auto simp: legacy_identifier_of_def try_bind_Inr_iff)
  show "json_get row ''identifier_type'' = JStr (li_identifier_type i)"
    "json_get row ''normalized_value'' = JStr (li_normalized_value i)"
    using reads(1,2) by (simp_all add: i row_string_Inr json_get_def)
  show "identifier_rank i = (json_get row ''is_verified'' = JBool True,
       temporal_text isof (json_get row ''last_confirmed_at''))"
    using row_bool_Inr [OF reads(3)] row_optional_string_Inr [OF reads(4)]
    by (simp add: i identifier_rank_def)
qed

text \<open>An identifier the person holds on an active relationship, with its rank.\<close>

definition held_identifier :: "(int \<Rightarrow> string) \<Rightarrow> graph \<Rightarrow> string \<Rightarrow> string \<Rightarrow> string \<Rightarrow> bool \<times> string \<Rightarrow> bool" where
  "held_identifier isof g pid t v r =
     (\<exists>rel \<in> set (out_edges g IDENTIFIED_BY (PersonN pid)). rel_active rel
        \<and> (\<exists>scope. e_dst rel = IdentifierN t scope v)
        \<and> r = (edge_prop rel ''is_verified'' = JBool True,
               temporal_text isof (edge_prop rel ''last_confirmed_at'')))"

lemma identifier_props_JStr:
  "identifier_props n = (JStr t, JStr v) \<longleftrightarrow> (\<exists>scope. n = IdentifierN t scope v)"
  by (cases n) auto

lemma fetched_identifier_held:
  assumes "map_result (legacy_identifier_of isof) (FETCH_PERSON_IDENTIFIERS g pid) = Inr ids"
  shows "held_identifier isof g pid t v r \<longleftrightarrow>
    (\<exists>i \<in> set ids. li_identifier_type i = t \<and> li_normalized_value i = v \<and> identifier_rank i = r)"
    (is "?held \<longleftrightarrow> ?read")
proof
  assume ?read
  then obtain i row where i: "row \<in> set (FETCH_PERSON_IDENTIFIERS g pid)" "legacy_identifier_of isof row = Inr i"
    "li_identifier_type i = t" "li_normalized_value i = v" "identifier_rank i = r"
    using map_result_mem [OF assms] by blast
  with legacy_identifier_of_row [OF i(2)] show ?held
    by (auto simp: FETCH_PERSON_IDENTIFIERS_def held_identifier_def json_get_def prod_eq_iff
        simp flip: identifier_props_JStr)
next
  assume ?held
  then obtain rel scope where rel: "rel \<in> set (out_edges g IDENTIFIED_BY (PersonN pid))" "rel_active rel"
    "e_dst rel = IdentifierN t scope v"
    "r = (edge_prop rel ''is_verified'' = JBool True,
          temporal_text isof (edge_prop rel ''last_confirmed_at''))"
    by (auto simp: held_identifier_def)
  then obtain row where row: "row \<in> set (FETCH_PERSON_IDENTIFIERS g pid)"
    "json_get row ''identifier_type'' = JStr t" "json_get row ''normalized_value'' = JStr v"
    "json_get row ''is_verified'' = edge_prop rel ''is_verified''"
    "json_get row ''last_confirmed_at'' = edge_prop rel ''last_confirmed_at''"
    by (fastforce simp: FETCH_PERSON_IDENTIFIERS_def json_get_def)
  then obtain i where i: "legacy_identifier_of isof row = Inr i"
    using map_result_defined [OF assms] by blast
  with row(1) have "i \<in> set ids" using map_result_mem [OF assms] by blast
  with legacy_identifier_of_row [OF i] row rel(4) show ?read by auto
qed

lemma pick_best_address_cases:
  "case pick_best_address addrs of
     None \<Rightarrow> addrs = []
   | Some v \<Rightarrow> \<exists>a \<in> set addrs. la_address_id a = v
       \<and> (\<forall>b \<in> set addrs. (la_is_verified b, or_empty (la_last_confirmed_at b))
                            \<le> (la_is_verified a, or_empty (la_last_confirmed_at a)))"
proof (cases "py_max (\<lambda>a. (la_is_verified a, or_empty (la_last_confirmed_at a))) addrs")
  case None
  then show ?thesis by (simp add: pick_best_address_def)
next
  case (Some m)
  then show ?thesis using py_max_mem [OF Some] py_max_ge [OF Some] by (auto simp: pick_best_address_def)
qed

text \<open>A fact and an address the person actively holds, with their ranks.\<close>

definition held_fact :: "(int \<Rightarrow> string) \<Rightarrow> graph \<Rightarrow> string \<Rightarrow> string \<Rightarrow> string \<Rightarrow> bool \<times> int \<times> string \<Rightarrow> bool" where
  "held_fact isof g pid n v r =
     (\<exists>fact \<in> set (out_edges g HAS_FACT (PersonN pid)). rel_active fact \<and> is_source_record (e_dst fact)
        \<and> edge_prop fact ''attribute_name'' = JStr n \<and> edge_prop fact ''attribute_value'' = JStr v
        \<and> r = (temporal_text isof (edge_prop fact ''quality_flag'') = ''valid'',
               TRUST_TIER_RANK (temporal_text isof (edge_prop fact ''source_trust_tier'')),
               temporal_text isof (edge_prop fact ''observed_at'')))"

definition held_address :: "(int \<Rightarrow> string) \<Rightarrow> graph \<Rightarrow> string \<Rightarrow> string \<Rightarrow> bool \<times> string \<Rightarrow> bool" where
  "held_address isof g pid v r =
     (\<exists>rel \<in> set (out_edges g LIVES_AT (PersonN pid)). rel_active rel \<and> e_dst rel = AddressN v
        \<and> r = (edge_prop rel ''is_verified'' = JBool True,
               temporal_text isof (edge_prop rel ''last_confirmed_at'')))"

lemma or_empty_valid: "c = Some ''valid'' \<longleftrightarrow> or_empty c = ''valid''"
  by (cases c) simp_all

lemma legacy_fact_of_row:
  assumes "legacy_fact_of isof row = Inr i"
  shows "json_get row ''attribute_name'' = JStr (lf_attribute_name i)"
    "json_get row ''attribute_value'' = JStr (lf_attribute_value i)"
    "fact_key i = (temporal_text isof (json_get row ''quality_flag'') = ''valid'',
       TRUST_TIER_RANK (temporal_text isof (json_get row ''source_trust_tier'')),
       temporal_text isof (json_get row ''observed_at''))"
proof -
  from assms obtain n v q t obs where reads: "row_string row ''attribute_name'' = Inr n"
    "row_string row ''attribute_value'' = Inr v" "row_optional_string isof row ''quality_flag'' = Inr q"
    "row_optional_string isof row ''source_trust_tier'' = Inr t" "row_optional_string isof row ''observed_at'' = Inr obs"
    and i: "i = \<lparr>lf_attribute_name = n, lf_attribute_value = v, lf_quality_flag = q,
                lf_source_trust_tier = t, lf_observed_at = obs\<rparr>"
    by (auto simp: legacy_fact_of_def try_bind_Inr_iff)
  show "json_get row ''attribute_name'' = JStr (lf_attribute_name i)"
    "json_get row ''attribute_value'' = JStr (lf_attribute_value i)"
    using reads(1,2) by (simp_all add: i row_string_Inr json_get_def)
  show "fact_key i = (temporal_text isof (json_get row ''quality_flag'') = ''valid'',
       TRUST_TIER_RANK (temporal_text isof (json_get row ''source_trust_tier'')),
       temporal_text isof (json_get row ''observed_at''))"
    unfolding fact_key_def or_empty_valid using reads(3-5) [THEN row_optional_string_Inr] by (simp add: i)
qed

lemma legacy_address_of_row:
  assumes "legacy_address_of isof row = Inr i"
  shows "json_get row ''address_id'' = JStr (la_address_id i)"
    "la_is_verified i = (json_get row ''is_verified'' = JBool True)"
    "or_empty (la_last_confirmed_at i) = temporal_text isof (json_get row ''last_confirmed_at'')"
proof -
  from assms obtain v b c where reads: "row_string row ''address_id'' = Inr v"
    "row_bool row ''is_verified'' = Inr b" "row_optional_string isof row ''last_confirmed_at'' = Inr c"
    and i: "i = \<lparr>la_address_id = v, la_is_verified = b, la_last_confirmed_at = c\<rparr>"
    by (auto simp: legacy_address_of_def try_bind_Inr_iff)
  show "json_get row ''address_id'' = JStr (la_address_id i)"
    using reads(1) by (simp add: i row_string_Inr json_get_def)
  show "la_is_verified i = (json_get row ''is_verified'' = JBool True)"
    "or_empty (la_last_confirmed_at i) = temporal_text isof (json_get row ''last_confirmed_at'')"
    using row_bool_Inr [OF reads(2)] row_optional_string_Inr [OF reads(3)] by (simp_all add: i)
qed

lemma fetched_fact_held:
  assumes "map_result (legacy_fact_of isof) (FETCH_PERSON_FACTS g pid) = Inr facts"
  shows "held_fact isof g pid n v r \<longleftrightarrow>
    (\<exists>f \<in> set facts. lf_attribute_name f = n \<and> lf_attribute_value f = v \<and> fact_key f = r)"
    (is "?held \<longleftrightarrow> ?read")
proof
  assume ?read
  then obtain f row where f: "row \<in> set (FETCH_PERSON_FACTS g pid)" "legacy_fact_of isof row = Inr f"
    "lf_attribute_name f = n" "lf_attribute_value f = v" "fact_key f = r"
    using map_result_mem [OF assms] by blast
  with legacy_fact_of_row [OF f(2)] show ?held
    by (auto simp: FETCH_PERSON_FACTS_def held_fact_def json_get_def)
next
  assume ?held
  then obtain fact where fact: "fact \<in> set (out_edges g HAS_FACT (PersonN pid))" "rel_active fact"
    "is_source_record (e_dst fact)" "edge_prop fact ''attribute_name'' = JStr n"
    "edge_prop fact ''attribute_value'' = JStr v"
    "r = (temporal_text isof (edge_prop fact ''quality_flag'') = ''valid'',
          TRUST_TIER_RANK (temporal_text isof (edge_prop fact ''source_trust_tier'')),
          temporal_text isof (edge_prop fact ''observed_at''))"
    unfolding held_fact_def by blast
  then obtain row where row: "row \<in> set (FETCH_PERSON_FACTS g pid)"
    "json_get row ''attribute_name'' = JStr n" "json_get row ''attribute_value'' = JStr v"
    "json_get row ''quality_flag'' = edge_prop fact ''quality_flag''"
    "json_get row ''source_trust_tier'' = edge_prop fact ''source_trust_tier''"
    "json_get row ''observed_at'' = edge_prop fact ''observed_at''"
    by (fastforce simp: FETCH_PERSON_FACTS_def json_get_def)
  then obtain i where i: "legacy_fact_of isof row = Inr i"
    using map_result_defined [OF assms] by blast
  with row(1) have "i \<in> set facts" using map_result_mem [OF assms] by blast
  moreover have "lf_attribute_name i = n" "lf_attribute_value i = v" "fact_key i = r"
    using legacy_fact_of_row [OF i] row(2-) fact(6) by simp_all
  ultimately show ?read by blast
qed

lemma fetched_address_held:
  assumes "map_result (legacy_address_of isof) (FETCH_PERSON_ADDRESSES g pid) = Inr addrs"
  shows "held_address isof g pid v r \<longleftrightarrow>
    (\<exists>a \<in> set addrs. la_address_id a = v \<and> (la_is_verified a, or_empty (la_last_confirmed_at a)) = r)"
    (is "?held \<longleftrightarrow> ?read")
proof
  assume ?read
  then obtain a row where a: "row \<in> set (FETCH_PERSON_ADDRESSES g pid)" "legacy_address_of isof row = Inr a"
    "la_address_id a = v" "(la_is_verified a, or_empty (la_last_confirmed_at a)) = r"
    using map_result_mem [OF assms] by blast
  then obtain rel u where rel: "rel \<in> set (out_edges g LIVES_AT (PersonN pid))" "e_dst rel = AddressN u" "rel_active rel"
    and row: "row = [(''address_id'', JStr u), (''normalized_full'', node_prop g (AddressN u) ''normalized_full''),
       (''is_verified'', edge_prop rel ''is_verified''), (''last_confirmed_at'', edge_prop rel ''last_confirmed_at'')]"
    by (auto simp: FETCH_PERSON_ADDRESSES_def elim!: is_address.elims)
  have "u = v" "r = (edge_prop rel ''is_verified'' = JBool True,
      temporal_text isof (edge_prop rel ''last_confirmed_at''))"
    using legacy_address_of_row [OF a(2)] a(3,4) by (simp_all add: row json_get_def)
  with rel show ?held unfolding held_address_def by blast
next
  assume ?held
  then obtain rel where rel: "rel \<in> set (out_edges g LIVES_AT (PersonN pid))" "rel_active rel"
    "e_dst rel = AddressN v" "r = (edge_prop rel ''is_verified'' = JBool True,
          temporal_text isof (edge_prop rel ''last_confirmed_at''))"
    unfolding held_address_def by blast
  then obtain row where row: "row \<in> set (FETCH_PERSON_ADDRESSES g pid)"
    "json_get row ''address_id'' = JStr v" "json_get row ''is_verified'' = edge_prop rel ''is_verified''"
    "json_get row ''last_confirmed_at'' = edge_prop rel ''last_confirmed_at''"
    by (fastforce simp: FETCH_PERSON_ADDRESSES_def json_get_def)
  then obtain i where i: "legacy_address_of isof row = Inr i"
    using map_result_defined [OF assms] by blast
  with row(1) have "i \<in> set addrs" using map_result_mem [OF assms] by blast
  with legacy_address_of_row [OF i] row rel(4) show ?read by auto
qed

section \<open>Recomputation\<close>

lemma out_edges_set_node [simp]: "out_edges (set_node n f g) t m = out_edges g t m"
  by (simp add: out_edges_def)

lemma node_prop_set_person [simp]:
  "m \<noteq> PersonN pid \<Longrightarrow> node_prop (set_node (PersonN pid) f g) m k = node_prop g m k"
  by (simp add: node_prop_set_node)

lemma source_record_type_set_person [simp]:
  "source_record_type (set_node (PersonN pid) f g) v = source_record_type g v"
  by (cases v) simp_all

lemma evidence_set_person:
  "fetch_person_evidence isof (set_node (PersonN p) f g) pid = fetch_person_evidence isof g pid"
proof -
  have "FETCH_PERSON_FACTS (set_node (PersonN p) f g) pid = FETCH_PERSON_FACTS g pid"
    by (simp add: FETCH_PERSON_FACTS_def)
  moreover have "FETCH_PERSON_IDENTIFIERS (set_node (PersonN p) f g) pid = FETCH_PERSON_IDENTIFIERS g pid"
    by (simp add: FETCH_PERSON_IDENTIFIERS_def cong: if_cong)
  moreover have "FETCH_PERSON_ADDRESSES (set_node (PersonN p) f g) pid = FETCH_PERSON_ADDRESSES g pid"
    unfolding FETCH_PERSON_ADDRESSES_def
    by (intro arg_cong [where f = concat] map_cong refl) (auto split: node.split elim: is_address.elims)
  ultimately show ?thesis by (simp add: fetch_person_evidence_def)
qed

lemma compute_golden_profile_cases:
  assumes "compute_golden_profile isof now pid g = Inr (f, g')"
  obtains facts identifiers addresses where
    "fetch_person_evidence isof g pid = Inr (facts, identifiers, addresses)"
    "f = apply_survivorship facts identifiers addresses" "g' = UPDATE_GOLDEN_PROFILE now pid f g"
  using assms by (auto simp: compute_golden_profile_def try_bind_Inr_iff Let_def)

lemma completeness_values:
  "completeness [a, b, c, d, e] = (let n = length [v \<leftarrow> [a, b, c, d, e]. v \<noteq> None] in
     if n = 0 then 0 else if n = 1 then round2 (fdiv 1 5) else if n = 2 then round2 (fdiv 2 5)
     else if n = 3 then round2 (fdiv 3 5) else if n = 4 then round2 (fdiv 4 5) else 1)"
proof -
  have "round2 (fdiv 0 5) = 0" "round2 (fdiv 1 1) = 1" "round2 (fdiv 5 5) = 1" by code_simp+
  then show ?thesis unfolding completeness_def
    by (cases a; cases b; cases c; cases d; cases e) simp_all
qed

lemma completeness_bounds:
  "0 \<le> completeness [a, b, c, d, e] \<and> completeness [a, b, c, d, e] \<le> 1
   \<and> (completeness [a, b, c, d, e] = 0 \<longleftrightarrow> a = None \<and> b = None \<and> c = None \<and> d = None \<and> e = None)
   \<and> (completeness [a, b, c, d, e] = 1 \<longleftrightarrow> a \<noteq> None \<and> b \<noteq> None \<and> c \<noteq> None \<and> d \<noteq> None \<and> e \<noteq> None)"
proof -
  have "0 < round2 (fdiv 1 5)" "round2 (fdiv 1 5) < 1" "0 < round2 (fdiv 2 5)" "round2 (fdiv 2 5) < 1"
    "0 < round2 (fdiv 3 5)" "round2 (fdiv 3 5) < 1" "0 < round2 (fdiv 4 5)" "round2 (fdiv 4 5) < 1"
    by code_simp+
  note v = this this [THEN less_imp_le] this [THEN less_imp_neq] this [THEN less_imp_neq, symmetric]
  show ?thesis unfolding completeness_values Let_def
    by (cases a; cases b; cases c; cases d; cases e) (simp_all add: v)
qed

lemma completeness_fifths:
  "completeness [a, b, c, d, e] = fl (of_nat (length [v \<leftarrow> [a, b, c, d, e]. v \<noteq> None]) / 5)"
proof -
  have fifths: "round2 (fdiv 1 5) = fl (1 / 5)" "round2 (fdiv 2 5) = fl (2 / 5)" "round2 (fdiv 3 5) = fl (3 / 5)"
    "round2 (fdiv 4 5) = fl (4 / 5)"
    by code_simp+
  show ?thesis unfolding completeness_values Let_def
    by (cases a; cases b; cases c; cases d; cases e) (simp_all add: fifths)
qed

section \<open>Properties\<close>

text \<open>The value selected from what is held: one of highest rank, and none exactly when nothing is.\<close>

definition best_of :: "(string \<Rightarrow> 'r::linorder \<Rightarrow> bool) \<Rightarrow> string option \<Rightarrow> bool" where
  "best_of held field =
     (case field of
        None \<Rightarrow> \<forall>v r. \<not> held v r
      | Some v \<Rightarrow> \<exists>r. held v r \<and> (\<forall>v' r'. held v' r' \<longrightarrow> r' \<le> r))"

lemma best_ofI:
  assumes "\<And>v r. held v r \<longleftrightarrow> (\<exists>x \<in> set xs. P x \<and> val x = v \<and> rank x = r)"
    and "case field of None \<Rightarrow> \<forall>x \<in> set xs. \<not> P x
       | Some v \<Rightarrow> \<exists>x \<in> set xs. P x \<and> val x = v \<and> (\<forall>y \<in> set xs. P y \<longrightarrow> rank y \<le> rank x)"
  shows "best_of held field"
proof (cases field)
  case None
  with assms show ?thesis by (auto simp: best_of_def)
next
  case (Some v)
  with assms(2) obtain x where "x \<in> set xs" "P x" "val x = v" "\<forall>y \<in> set xs. P y \<longrightarrow> rank y \<le> rank x" by auto
  then have "held v (rank x)" "\<forall>v' r'. held v' r' \<longrightarrow> r' \<le> rank x" unfolding assms(1) by blast+
  then show ?thesis unfolding best_of_def Some option.case by blast
qed

lemma picked_best_identifier:
  assumes "map_result (legacy_identifier_of isof) (FETCH_PERSON_IDENTIFIERS g pid) = Inr ids"
  shows "best_of (held_identifier isof g pid t) (pick_best_identifier ids t)"
  by (rule best_ofI [OF fetched_identifier_held [OF assms]]) (rule pick_best_identifier_cases)

lemma picked_best_fact:
  assumes "map_result (legacy_fact_of isof) (FETCH_PERSON_FACTS g pid) = Inr facts"
  shows "best_of (held_fact isof g pid n) (pick_best_fact facts n)"
  by (rule best_ofI [OF fetched_fact_held [OF assms]]) (rule pick_best_fact_cases)

lemma picked_best_address:
  assumes "map_result (legacy_address_of isof) (FETCH_PERSON_ADDRESSES g pid) = Inr addrs"
  shows "best_of (held_address isof g pid) (pick_best_address addrs)"
  by (rule best_ofI [where P = "\<lambda>_. True", unfolded simp_thms, OF fetched_address_held [OF assms]])
     (use pick_best_address_cases [of addrs] in \<open>auto split: option.splits\<close>)

text \<open>C20: every field of a computed golden profile comes from what the person actively holds, and
  nothing it holds for that field has a higher rank: birth date and race from its facts (a valid
  quality flag before any other, then the trust tier of the source, then the latest observation),
  phone, email and NRIC from its identifiers and the address from its addresses (verified before
  unverified, then the latest confirmation). The name is the best full name; where the person holds
  none, the best preferred name unless that is missing or empty, and then the best legal name. A
  field is empty only when nothing of its kind is held, and exactly these values are stored on the
  person.\<close>

theorem golden_profile_provenance:
  assumes "compute_golden_profile isof now pid g = Inr (f, g')"
  shows "\<exists>full_name preferred_name legal_name.
       best_of (held_fact isof g pid ''full_name'') full_name
     \<and> best_of (held_fact isof g pid ''preferred_name'') preferred_name
     \<and> best_of (held_fact isof g pid ''legal_name'') legal_name
     \<and> gp_preferred_full_name f =
         (if full_name \<noteq> None then full_name
          else if preferred_name \<noteq> None \<and> preferred_name \<noteq> Some [] then preferred_name else legal_name)
     \<and> best_of (held_fact isof g pid ''dob'') (gp_preferred_dob f)
     \<and> best_of (held_fact isof g pid ''race_ethnicity'') (gp_preferred_race_ethnicity f)
     \<and> best_of (held_identifier isof g pid ''phone'') (gp_preferred_phone f)
     \<and> best_of (held_identifier isof g pid ''email'') (gp_preferred_email f)
     \<and> best_of (held_identifier isof g pid ''nric'') (gp_preferred_nric f)
     \<and> best_of (held_address isof g pid) (gp_preferred_address_id f)
     \<and> (has_node g (PersonN pid) \<longrightarrow>
          node_prop g' (PersonN pid) ''preferred_full_name'' = js (gp_preferred_full_name f)
        \<and> node_prop g' (PersonN pid) ''preferred_dob'' = js (gp_preferred_dob f)
        \<and> node_prop g' (PersonN pid) ''preferred_race_ethnicity'' = js (gp_preferred_race_ethnicity f)
        \<and> node_prop g' (PersonN pid) ''preferred_phone'' = js (gp_preferred_phone f)
        \<and> node_prop g' (PersonN pid) ''preferred_email'' = js (gp_preferred_email f)
        \<and> node_prop g' (PersonN pid) ''preferred_nric'' = js (gp_preferred_nric f)
        \<and> node_prop g' (PersonN pid) ''preferred_address_id'' = js (gp_preferred_address_id f))"
proof -
  from assms obtain facts ids addrs where
    e: "fetch_person_evidence isof g pid = Inr (facts, ids, addrs)" and
    f: "f = apply_survivorship facts ids addrs" and g': "g' = UPDATE_GOLDEN_PROFILE now pid f g"
    by (rule compute_golden_profile_cases)
  from e have reads: "map_result (legacy_fact_of isof) (FETCH_PERSON_FACTS g pid) = Inr facts"
    "map_result (legacy_identifier_of isof) (FETCH_PERSON_IDENTIFIERS g pid) = Inr ids"
    "map_result (legacy_address_of isof) (FETCH_PERSON_ADDRESSES g pid) = Inr addrs"
    by (auto simp: fetch_person_evidence_def try_bind_Inr_iff)
  have name: "gp_preferred_full_name f =
      (if pick_best_fact facts ''full_name'' \<noteq> None then pick_best_fact facts ''full_name''
       else if pick_best_fact facts ''preferred_name'' \<noteq> None \<and> pick_best_fact facts ''preferred_name'' \<noteq> Some []
            then pick_best_fact facts ''preferred_name'' else pick_best_fact facts ''legal_name'')"
    by (cases "pick_best_fact facts ''preferred_name''")
       (auto simp: f apply_survivorship_def Let_def str_or_def truthy_def split: option.splits)
  have stored: "has_node g (PersonN pid) \<Longrightarrow>
       node_prop g' (PersonN pid) ''preferred_full_name'' = js (gp_preferred_full_name f)
     \<and> node_prop g' (PersonN pid) ''preferred_dob'' = js (gp_preferred_dob f)
     \<and> node_prop g' (PersonN pid) ''preferred_race_ethnicity'' = js (gp_preferred_race_ethnicity f)
     \<and> node_prop g' (PersonN pid) ''preferred_phone'' = js (gp_preferred_phone f)
     \<and> node_prop g' (PersonN pid) ''preferred_email'' = js (gp_preferred_email f)
     \<and> node_prop g' (PersonN pid) ''preferred_nric'' = js (gp_preferred_nric f)
     \<and> node_prop g' (PersonN pid) ''preferred_address_id'' = js (gp_preferred_address_id f)"
    by (simp add: g' UPDATE_GOLDEN_PROFILE_def node_prop_set_node)
  have fields: "gp_preferred_dob f = pick_best_fact facts ''dob''"
    "gp_preferred_race_ethnicity f = pick_best_fact facts ''race_ethnicity''"
    "gp_preferred_phone f = pick_best_identifier ids ''phone''" "gp_preferred_email f = pick_best_identifier ids ''email''"
    "gp_preferred_nric f = pick_best_identifier ids ''nric''" "gp_preferred_address_id f = pick_best_address addrs"
    by (simp_all add: f apply_survivorship_def Let_def)
  show ?thesis
    by (intro exI [of _ "pick_best_fact facts ''full_name''"] exI [of _ "pick_best_fact facts ''preferred_name''"]
        exI [of _ "pick_best_fact facts ''legal_name''"] conjI impI)
       (use stored in \<open>simp_all only: name fields picked_best_fact [OF reads(1)] picked_best_identifier [OF reads(2)]
          picked_best_address [OF reads(3)] simp_thms\<close>)
qed

text \<open>C21: recomputing a golden profile that has just been computed selects the same values, and
  its completeness score is the double next to \<open>n / 5\<close>, where \<open>n\<close> of name, birth date, phone, email
  and address are present: it lies between 0 and 1, 0 exactly when all five are missing and 1
  exactly when none is.\<close>

theorem golden_profile_stable:
  assumes "compute_golden_profile isof now pid g = Inr (f, g')"
  shows "compute_golden_profile isof later pid g' = Inr (f, UPDATE_GOLDEN_PROFILE later pid f g')
     \<and> gp_profile_completeness_score f =
         fl (of_nat (length [v \<leftarrow> [gp_preferred_full_name f, gp_preferred_dob f, gp_preferred_phone f,
                                  gp_preferred_email f, gp_preferred_address_id f]. v \<noteq> None]) / 5)
     \<and> 0 \<le> gp_profile_completeness_score f \<and> gp_profile_completeness_score f \<le> 1
     \<and> (gp_profile_completeness_score f = 0 \<longleftrightarrow> gp_preferred_full_name f = None \<and> gp_preferred_dob f = None
          \<and> gp_preferred_phone f = None \<and> gp_preferred_email f = None \<and> gp_preferred_address_id f = None)
     \<and> (gp_profile_completeness_score f = 1 \<longleftrightarrow> gp_preferred_full_name f \<noteq> None \<and> gp_preferred_dob f \<noteq> None
          \<and> gp_preferred_phone f \<noteq> None \<and> gp_preferred_email f \<noteq> None \<and> gp_preferred_address_id f \<noteq> None)"
proof -
  from assms obtain facts ids addrs where
    e: "fetch_person_evidence isof g pid = Inr (facts, ids, addrs)" and
    f: "f = apply_survivorship facts ids addrs" and g': "g' = UPDATE_GOLDEN_PROFILE now pid f g"
    by (rule compute_golden_profile_cases)
  have "fetch_person_evidence isof g' pid = Inr (facts, ids, addrs)"
    unfolding g' UPDATE_GOLDEN_PROFILE_def evidence_set_person by (rule e)
  then have again: "compute_golden_profile isof later pid g' = Inr (f, UPDATE_GOLDEN_PROFILE later pid f g')"
    by (simp add: compute_golden_profile_def f Let_def)
  have score: "gp_profile_completeness_score f = completeness [gp_preferred_full_name f, gp_preferred_dob f,
      gp_preferred_phone f, gp_preferred_email f, gp_preferred_address_id f]"
    by (simp add: f apply_survivorship_def Let_def)
  show ?thesis unfolding score
    by (intro conjI again completeness_fifths)
       (use completeness_bounds [of "gp_preferred_full_name f" "gp_preferred_dob f" "gp_preferred_phone f"
          "gp_preferred_email f" "gp_preferred_address_id f"] in simp_all)
qed

definition sample_person_graph :: graph where
  "sample_person_graph =
     \<lparr>g_nodes = [(PersonN ''p1'', [(''status'', JStr ''active'')]),
                 (IdentifierN ''phone'' ''global'' ''+6581234567'', []),
                 (IdentifierN ''phone'' ''global'' ''+6590000000'', []),
                 (SourceRecordN ''r1'', [(''record_type'', JStr ''identity'')])],
      g_edges = [\<lparr>e_type = IDENTIFIED_BY, e_src = PersonN ''p1'',
                  e_dst = IdentifierN ''phone'' ''global'' ''+6581234567'',
                  e_props = [(''is_verified'', JBool True), (''source_record_pk'', JStr ''r1''),
                             (''last_confirmed_at'', JInt 5)]\<rparr>,
                 \<lparr>e_type = IDENTIFIED_BY, e_src = PersonN ''p1'',
                  e_dst = IdentifierN ''phone'' ''global'' ''+6590000000'',
                  e_props = [(''source_record_pk'', JStr ''r1''), (''last_confirmed_at'', JInt 9)]\<rparr>,
                 \<lparr>e_type = HAS_FACT, e_src = PersonN ''p1'', e_dst = SourceRecordN ''r1'',
                  e_props = [(''attribute_name'', JStr ''full_name''),
                             (''attribute_value'', JStr ''tan ah kow''),
                             (''quality_flag'', JStr ''valid'')]\<rparr>]\<rparr>"

lemma sample_evidence:
  "fetch_person_evidence (\<lambda>_. ''2024-01-01'') sample_person_graph ''p1'' = Inr
     ([\<lparr>lf_attribute_name = ''full_name'', lf_attribute_value = ''tan ah kow'', lf_quality_flag = Some ''valid'',
        lf_source_trust_tier = None, lf_observed_at = None\<rparr>],
      [\<lparr>li_identifier_type = ''phone'', li_normalized_value = ''+6581234567'', li_is_verified = True,
        li_last_confirmed_at = Some ''2024-01-01''\<rparr>,
       \<lparr>li_identifier_type = ''phone'', li_normalized_value = ''+6590000000'', li_is_verified = False,
        li_last_confirmed_at = Some ''2024-01-01''\<rparr>], [])"
  by (simp add: fetch_person_evidence_def FETCH_PERSON_FACTS_def FETCH_PERSON_IDENTIFIERS_def
      FETCH_PERSON_ADDRESSES_def out_edges_def has_node_def sample_person_graph_def rel_active_def
      edge_prop_def json_get_def legacy_fact_of_def legacy_identifier_of_def row_string_def
      row_optional_string_def row_bool_def json_req_def node_prop_def)

lemma sample_golden_computed:
  obtains f g where "compute_golden_profile (\<lambda>_. ''2024-01-01'') 10 ''p1'' sample_person_graph = Inr (f, g)"
    "gp_preferred_phone f = Some ''+6581234567''" "gp_preferred_full_name f = Some ''tan ah kow''"
  by (simp add: compute_golden_profile_def sample_evidence apply_survivorship_def Let_def
      pick_best_fact_def pick_best_identifier_def identifier_rank_def)

theorem golden_profile_provenance_witness:
  "best_of (held_identifier (\<lambda>_. ''2024-01-01'') sample_person_graph ''p1'' ''phone'') (Some ''+6581234567'')
   \<and> (\<exists>name. best_of (held_fact (\<lambda>_. ''2024-01-01'') sample_person_graph ''p1'' ''full_name'') name)"
proof (rule sample_golden_computed)
  fix f g assume run: "compute_golden_profile (\<lambda>_. ''2024-01-01'') 10 ''p1'' sample_person_graph = Inr (f, g)"
    "gp_preferred_phone f = Some ''+6581234567''"
  from golden_profile_provenance [OF run(1)] show ?thesis unfolding run(2) by blast
qed

theorem golden_profile_stable_witness:
  "\<exists>f g. compute_golden_profile (\<lambda>_. ''2024-01-01'') 10 ''p1'' sample_person_graph = Inr (f, g)
     \<and> compute_golden_profile (\<lambda>_. ''2024-01-01'') 20 ''p1'' g = Inr (f, UPDATE_GOLDEN_PROFILE 20 ''p1'' f g)
     \<and> gp_profile_completeness_score f \<noteq> 0"
proof (rule sample_golden_computed)
  fix f g assume run: "compute_golden_profile (\<lambda>_. ''2024-01-01'') 10 ''p1'' sample_person_graph = Inr (f, g)"
    "gp_preferred_full_name f = Some ''tan ah kow''"
  from golden_profile_stable [OF run(1), of 20] run show ?thesis by auto
qed

end
