(* ===== verification/PersonMerge.thy ===== *)
theory PersonMerge
  imports GoldenProfile
begin

text \<open>
  Merging one person into another inside the ingestion transaction (\<open>pipeline_person_merge.py\<close> with
  the statements of \<open>graph/queries/merge.py\<close>, \<open>knows.py\<close>, \<open>sales.py\<close>, \<open>person_merge.py\<close>,
  \<open>crm_deal_count.py\<close> and \<open>profile_analysis_dirty.py\<close>): the survivor is selected, a merge event is
  written, every relationship of the absorbed person moves to the survivor and leaves a
  \<open>MOVED_RELATIONSHIP\<close> behind for an unmerge, the lineage is compressed, open review cases are closed
  or redirected, and the derived fields of the survivor are recomputed. The ids that the database
  draws are arguments. The two persons are distinct.
\<close>

section \<open>Selecting the survivor\<close>

record pair_person_attrs =
  pa_person_id :: string
  pa_status :: string
  pa_profile_completeness_score :: f64
  pa_created_at :: string

text \<open>\<open>toString(created_at)\<close>: \<open>isof\<close> on date-times, the identity on strings.\<close>

fun to_string :: "(int \<Rightarrow> string) \<Rightarrow> json \<Rightarrow> json" where
  "to_string isof (JInt n) = JStr (isof n)"
| "to_string isof (JStr s) = JStr s"
| "to_string isof _ = JNull"

fun json_number :: "json \<Rightarrow> f64 option" where
  "json_number (JInt n) = Some (fl (of_int n))"
| "json_number (JFloat x) = Some x"
| "json_number (JBool b) = Some (if b then 1 else 0)"
| "json_number _ = None"

definition pair_attrs_of :: "(int \<Rightarrow> string) \<Rightarrow> graph \<Rightarrow> string \<Rightarrow> pair_person_attrs option" where
  "pair_attrs_of isof g p =
     (case (json_str (node_prop g (PersonN p) ''status''),
            json_number (node_prop g (PersonN p) ''profile_completeness_score''),
            json_str (to_string isof (node_prop g (PersonN p) ''created_at''))) of
        (Some status, Some score, Some created) \<Rightarrow>
          Some \<lparr>pa_person_id = p, pa_status = status, pa_profile_completeness_score = score,
                pa_created_at = created\<rparr>
      | _ \<Rightarrow> None)"

definition fetch_pair_attrs ::
    "(int \<Rightarrow> string) \<Rightarrow> graph \<Rightarrow> string \<Rightarrow> string \<Rightarrow> (pair_person_attrs \<times> pair_person_attrs) option" where
  "fetch_pair_attrs isof g left right =
     (if has_node g (PersonN left) \<and> has_node g (PersonN right)
      then (case (pair_attrs_of isof g left, pair_attrs_of isof g right) of
              (Some l, Some r) \<Rightarrow> Some (l, r) | _ \<Rightarrow> None)
      else None)"

definition select_survivor :: "pair_person_attrs \<Rightarrow> pair_person_attrs \<Rightarrow> string \<times> string" where
  "select_survivor left right =
     (let left_wins =
        (if pa_profile_completeness_score left \<noteq> pa_profile_completeness_score right
         then pa_profile_completeness_score right < pa_profile_completeness_score left
         else if pa_created_at left \<noteq> pa_created_at right
         then pa_created_at left < pa_created_at right
         else pa_person_id left < pa_person_id right)
      in if left_wins then (pa_person_id left, pa_person_id right)
         else (pa_person_id right, pa_person_id left))"

section \<open>The merge event\<close>

definition CREATE_MERGE_EVENT_AUTO_MERGE ::
    "int \<Rightarrow> string \<Rightarrow> string \<Rightarrow> string \<Rightarrow> string \<Rightarrow> graph \<Rightarrow> (graph \<times> bool)" where
  "CREATE_MERGE_EVENT_AUTO_MERGE now me from_id to_id reason g =
     (if has_node g (PersonN from_id) \<and> has_node g (PersonN to_id)
      then (create_edge \<lparr>e_type = SURVIVOR, e_src = MergeEventN me, e_dst = PersonN to_id, e_props = []\<rparr>
             (create_edge \<lparr>e_type = ABSORBED, e_src = MergeEventN me, e_dst = PersonN from_id, e_props = []\<rparr>
               (create_node (MergeEventN me)
                  [(''merge_event_id'', JStr me), (''event_type'', JStr ''auto_merge''),
                   (''actor_type'', JStr ''system''), (''actor_id'', JStr ''match_engine''),
                   (''reason'', JStr reason), (''metadata'', JStr ''{}''), (''created_at'', JInt now),
                   (''retention_expires_at'', JNull)] g)), True)
      else (g, False))"

definition LINK_MERGE_EVENT_TRIGGERED_BY :: "string \<Rightarrow> string \<Rightarrow> graph \<Rightarrow> graph" where
  "LINK_MERGE_EVENT_TRIGGERED_BY me md g =
     (if has_node g (MergeEventN me) \<and> has_node g (MatchDecisionN md)
      then create_edge \<lparr>e_type = TRIGGERED_BY, e_src = MergeEventN me, e_dst = MatchDecisionN md,
                        e_props = []\<rparr> g
      else g)"

definition LINK_MERGE_EVENT_AFFECTED_RECORD :: "string \<Rightarrow> string \<Rightarrow> graph \<Rightarrow> graph" where
  "LINK_MERGE_EVENT_AFFECTED_RECORD me pk g =
     (if has_node g (MergeEventN me) \<and> has_node g (SourceRecordN pk)
      then create_edge \<lparr>e_type = AFFECTED_RECORD, e_src = MergeEventN me, e_dst = SourceRecordN pk,
                        e_props = []\<rparr> g
      else g)"

fun source_record_pk_of :: "node \<Rightarrow> json" where
  "source_record_pk_of (SourceRecordN pk) = JStr pk"
| "source_record_pk_of _ = JNull"

text \<open>The records linked to a person and those named by its relationships, as the strings the caller keeps.\<close>

definition GET_AFFECTED_SOURCE_RECORDS :: "graph \<Rightarrow> string \<Rightarrow> string list" where
  "GET_AFFECTED_SOURCE_RECORDS g p =
     (if has_node g (PersonN p)
      then sorted_set [pk.
        v \<leftarrow> [source_record_pk_of (e_src e). e \<leftarrow> in_edges g LINKED_TO (PersonN p)]
             @ [edge_prop e ''source_record_pk''. e \<leftarrow> g_edges g, e_src e = PersonN p]
             @ [edge_prop e ''source_record_pk''. e \<leftarrow> g_edges g, e_dst e = PersonN p],
        pk \<leftarrow> (case json_str v of None \<Rightarrow> [] | Some pk \<Rightarrow> [pk]), pk \<noteq> []]
      else [])"

section \<open>Moving relationships\<close>

definition origin_of :: "string \<Rightarrow> json_obj \<Rightarrow> json" where
  "origin_of absorbed props = coalesce (json_get props ''merge_origin_person_id'') (JStr absorbed)"

definition moved_edge ::
    "string \<Rightarrow> node \<Rightarrow> string \<Rightarrow> string \<Rightarrow> string \<Rightarrow> bool \<Rightarrow> json_obj \<Rightarrow> edge" where
  "moved_edge me target rtype direction absorbed created props =
     \<lparr>e_type = MOVED_RELATIONSHIP, e_src = MergeEventN me, e_dst = target,
      e_props = json_sets [(''relationship_type'', JStr rtype), (''direction'', JStr direction),
                           (''origin_person_id'', origin_of absorbed props),
                           (''created_on_survivor'', JBool created)] props\<rparr>"

text \<open>The survivor and the merge event are matched by every statement; without them there are no rows.\<close>

definition rewirable :: "graph \<Rightarrow> string \<Rightarrow> string \<Rightarrow> string \<Rightarrow> bool" where
  "rewirable g absorbed survivor me =
     (has_node g (PersonN absorbed) \<and> has_node g (PersonN survivor) \<and> has_node g (MergeEventN me))"

definition REWIRE_LINKED_TO :: "int \<Rightarrow> string \<Rightarrow> string \<Rightarrow> string \<Rightarrow> graph \<Rightarrow> graph" where
  "REWIRE_LINKED_TO now absorbed survivor me g =
     (if rewirable g absorbed survivor me
      then rewire_create
        (\<lambda>old. e_type old = LINKED_TO \<and> e_dst old = PersonN absorbed \<and> is_source_record (e_src old))
        (\<lambda>old. [moved_edge me (e_src old) ''LINKED_TO'' ''incoming'' absorbed True (e_props old),
                \<lparr>e_type = LINKED_TO, e_src = e_src old, e_dst = PersonN survivor,
                 e_props = json_sets [(''linked_at'', JInt now),
                   (''merge_origin_person_id'', origin_of absorbed (e_props old))] (e_props old)\<rparr>]) g
      else g)"

definition REWIRE_HAS_FACT :: "string \<Rightarrow> string \<Rightarrow> string \<Rightarrow> graph \<Rightarrow> graph" where
  "REWIRE_HAS_FACT absorbed survivor me g =
     (if rewirable g absorbed survivor me
      then rewire_create
        (\<lambda>old. e_type old = HAS_FACT \<and> e_src old = PersonN absorbed \<and> is_source_record (e_dst old))
        (\<lambda>old. [moved_edge me (e_dst old) ''HAS_FACT'' ''outgoing'' absorbed True (e_props old),
                \<lparr>e_type = HAS_FACT, e_src = PersonN survivor, e_dst = e_dst old,
                 e_props = json_sets
                   [(''merge_origin_person_id'', origin_of absorbed (e_props old))] (e_props old)\<rparr>]) g
      else g)"

fun is_person :: "node \<Rightarrow> bool" where
  "is_person (PersonN _) = True"
| "is_person _ = False"

definition REWIRE_KNOWS_OUT :: "string \<Rightarrow> string \<Rightarrow> string \<Rightarrow> graph \<Rightarrow> graph" where
  "REWIRE_KNOWS_OUT absorbed survivor me g =
     (if rewirable g absorbed survivor me
      then rewire_create
        (\<lambda>old. e_type old = KNOWS \<and> e_src old = PersonN absorbed \<and> is_person (e_dst old)
               \<and> e_dst old \<noteq> PersonN survivor)
        (\<lambda>old. [moved_edge me (e_dst old) ''KNOWS_OUT'' ''outgoing'' absorbed True (e_props old),
                \<lparr>e_type = KNOWS, e_src = PersonN survivor, e_dst = e_dst old,
                 e_props = json_sets [(''declared_by_person_id'', JStr survivor),
                   (''merge_origin_person_id'', origin_of absorbed (e_props old))] (e_props old)\<rparr>]) g
      else g)"

definition REWIRE_KNOWS_IN :: "string \<Rightarrow> string \<Rightarrow> string \<Rightarrow> graph \<Rightarrow> graph" where
  "REWIRE_KNOWS_IN absorbed survivor me g =
     (if rewirable g absorbed survivor me
      then rewire_create
        (\<lambda>old. e_type old = KNOWS \<and> e_dst old = PersonN absorbed \<and> is_person (e_src old)
               \<and> e_src old \<noteq> PersonN survivor)
        (\<lambda>old. [moved_edge me (e_src old) ''KNOWS_IN'' ''incoming'' absorbed True (e_props old),
                \<lparr>e_type = KNOWS, e_src = e_src old, e_dst = PersonN survivor,
                 e_props = json_sets
                   [(''merge_origin_person_id'', origin_of absorbed (e_props old))] (e_props old)\<rparr>]) g
      else g)"

text \<open>
  The other statements merge: a relationship of the survivor to the same node with the same key
  absorbs the moved one.
\<close>

definition key_of :: "string list \<Rightarrow> edge \<Rightarrow> json_obj" where
  "key_of keys e = map (\<lambda>k. (k, edge_prop e k)) keys"

text \<open>\<open>created_on_survivor\<close> of the rows of one relationship: one row for each existing match, or one without.\<close>

definition created_flags :: "rel_type \<Rightarrow> string list \<Rightarrow> string \<Rightarrow> graph \<Rightarrow> edge \<Rightarrow> bool list" where
  "created_flags t keys survivor g old =
     (let existing = [x \<leftarrow> g_edges g. edge_between t (PersonN survivor) (e_dst old) x
                        \<and> has_props (key_of keys old) x]
      in if existing = [] then [True] else map (\<lambda>x. False) existing)"

definition rewire_rows ::
    "rel_type \<Rightarrow> string list \<Rightarrow> (node \<Rightarrow> bool) \<Rightarrow> string \<Rightarrow> string \<Rightarrow> graph \<Rightarrow> (edge \<times> bool) list" where
  "rewire_rows t keys target absorbed survivor g =
     [(old, created). old \<leftarrow> g_edges g,
        e_type old = t \<and> e_src old = PersonN absorbed \<and> target (e_dst old),
        created \<leftarrow> created_flags t keys survivor g old]"

definition rewire_merge ::
    "rel_type \<Rightarrow> string \<Rightarrow> string list \<Rightarrow> (node \<Rightarrow> bool) \<Rightarrow> (json_obj \<Rightarrow> json_obj \<Rightarrow> json_obj)
     \<Rightarrow> (json_obj \<Rightarrow> json_obj) \<Rightarrow> string \<Rightarrow> string \<Rightarrow> string \<Rightarrow> graph \<Rightarrow> graph result" where
  "rewire_merge t rtype keys target on_create on_match absorbed survivor me g =
     (if rewirable g absorbed survivor me
      then let rows = rewire_rows t keys target absorbed survivor g;
               kept = [e \<leftarrow> g_edges g. \<not> (e_type e = t \<and> e_src e = PersonN absorbed \<and> target (e_dst e))];
               moved = map (\<lambda>(old, created).
                 moved_edge me (e_dst old) rtype ''outgoing'' absorbed created (e_props old)) rows
           in fold_result (\<lambda>(old, created).
                merge_edge t (PersonN survivor) (e_dst old) (key_of keys old)
                  (\<lambda>d. json_set ''merge_origin_person_id'' (origin_of absorbed (e_props old))
                         (on_create (e_props old) d)) on_match)
              rows (g\<lparr>g_edges := kept @ moved\<rparr>)
      else ok g)"

definition REWIRE_IDENTIFIED_BY :: "int \<Rightarrow> string \<Rightarrow> string \<Rightarrow> string \<Rightarrow> graph \<Rightarrow> graph result" where
  "REWIRE_IDENTIFIED_BY now =
     rewire_merge IDENTIFIED_BY ''IDENTIFIED_BY'' [''source_system_key'', ''source_record_pk''] is_identifier
       (\<lambda>props d. props) (json_sets [(''last_seen_at'', JInt now), (''last_confirmed_at'', JInt now)])"

definition REWIRE_LIVES_AT :: "int \<Rightarrow> string \<Rightarrow> string \<Rightarrow> string \<Rightarrow> graph \<Rightarrow> graph result" where
  "REWIRE_LIVES_AT now =
     rewire_merge LIVES_AT ''LIVES_AT'' [''source_system_key'', ''source_record_pk''] is_address
       (\<lambda>props d. props) (json_sets [(''last_seen_at'', JInt now), (''last_confirmed_at'', JInt now)])"

fun is_order :: "node \<Rightarrow> bool" where
  "is_order (OrderN _) = True"
| "is_order _ = False"

fun is_vehicle :: "node \<Rightarrow> bool" where
  "is_vehicle (VehicleN _) = True"
| "is_vehicle _ = False"

definition REWIRE_PURCHASED :: "string \<Rightarrow> string \<Rightarrow> string \<Rightarrow> graph \<Rightarrow> graph result" where
  "REWIRE_PURCHASED =
     rewire_merge PURCHASED ''PURCHASED'' [''source_system_key'', ''source_order_id''] is_order json_sets id"

definition REWIRE_BOUGHT_VEHICLE :: "string \<Rightarrow> string \<Rightarrow> string \<Rightarrow> graph \<Rightarrow> graph result" where
  "REWIRE_BOUGHT_VEHICLE =
     rewire_merge BOUGHT_VEHICLE ''BOUGHT_VEHICLE'' [''source_system_key'', ''source_order_id''] is_vehicle
       json_sets id"

definition REWIRE_OWNS_VEHICLE :: "string \<Rightarrow> string \<Rightarrow> string \<Rightarrow> graph \<Rightarrow> graph result" where
  "REWIRE_OWNS_VEHICLE =
     rewire_merge OWNS_VEHICLE ''OWNS_VEHICLE'' [''source_system_key'', ''source_record_pk''] is_vehicle
       json_sets id"

section \<open>Lineage\<close>

definition MARK_PERSON_MERGED :: "int \<Rightarrow> string \<Rightarrow> graph \<Rightarrow> graph" where
  "MARK_PERSON_MERGED now absorbed g =
     set_node (PersonN absorbed) (\<lambda>_. [(''status'', JStr ''merged''), (''updated_at'', JInt now)]) g"

definition CREATE_MERGED_INTO :: "int \<Rightarrow> string \<Rightarrow> string \<Rightarrow> string \<Rightarrow> graph \<Rightarrow> graph" where
  "CREATE_MERGED_INTO now absorbed survivor me g =
     (if has_node g (PersonN absorbed) \<and> has_node g (PersonN survivor)
      then create_edge \<lparr>e_type = MERGED_INTO, e_src = PersonN absorbed, e_dst = PersonN survivor,
             e_props = [(''merge_event_id'', JStr me), (''actor'', JStr ''match_engine''),
                        (''timestamp'', JInt now)]\<rparr> g
      else g)"

definition moved_lineage :: "string \<Rightarrow> string \<Rightarrow> string \<Rightarrow> edge \<Rightarrow> edge" where
  "moved_lineage me absorbed survivor old =
     \<lparr>e_type = MOVED_MERGE_LINEAGE, e_src = MergeEventN me, e_dst = e_src old,
      e_props = json_sets [(''prior_survivor_person_id'', JStr absorbed),
                           (''compressed_survivor_person_id'', JStr survivor)] (e_props old)\<rparr>"

definition PATH_COMPRESS_MERGED_INTO :: "string \<Rightarrow> string \<Rightarrow> string \<Rightarrow> graph \<Rightarrow> graph" where
  "PATH_COMPRESS_MERGED_INTO absorbed survivor me g =
     (if rewirable g absorbed survivor me
      then rewire_create
        (\<lambda>old. e_type old = MERGED_INTO \<and> e_dst old = PersonN absorbed \<and> is_person (e_src old))
        (\<lambda>old. [moved_lineage me absorbed survivor old, old\<lparr>e_dst := PersonN survivor\<rparr>]) g
      else g)"

section \<open>Review cases\<close>

definition about_person :: "edge \<Rightarrow> bool" where
  "about_person e = (edge_prop e ''entity_type'' = JStr ''person'')"

definition open_case :: "graph \<Rightarrow> node \<Rightarrow> bool" where
  "open_case g rc = (node_prop g rc ''queue_state'' \<in> {JStr ''open'', JStr ''assigned'', JStr ''deferred''})"

text \<open>The pattern \<open>(rc)-[:FOR_DECISION]->(md), (md)-[left]->(), (md)-[right]->()\<close> over person ends.\<close>

definition case_rows :: "graph \<Rightarrow> (node \<times> edge \<times> edge) list" where
  "case_rows g =
     [(e_src f, l, r). f \<leftarrow> g_edges g, e_type f = FOR_DECISION,
        l \<leftarrow> g_edges g, e_type l = ABOUT_LEFT \<and> e_src l = e_dst f \<and> about_person l \<and> is_person (e_dst l),
        r \<leftarrow> g_edges g, e_type r = ABOUT_RIGHT \<and> e_src r = e_dst f \<and> about_person r \<and> is_person (e_dst r)]"

definition set_nodes :: "node list \<Rightarrow> json_obj \<Rightarrow> graph \<Rightarrow> graph" where
  "set_nodes ns kvs g = fold (\<lambda>n. set_node n (\<lambda>_. kvs)) (remdups ns) g"

definition CLOSE_PERSON_PAIR_CASES_FOR_ABSORBED ::
    "int \<Rightarrow> string \<Rightarrow> string \<Rightarrow> string \<Rightarrow> graph \<Rightarrow> graph" where
  "CLOSE_PERSON_PAIR_CASES_FOR_ABSORBED now absorbed survivor me g =
     set_nodes [rc. (rc, l, r) \<leftarrow> case_rows g, open_case g rc
                  \<and> ((e_dst l = PersonN absorbed \<and> e_dst r = PersonN survivor)
                     \<or> (e_dst r = PersonN absorbed \<and> e_dst l = PersonN survivor))]
       [(''queue_state'', JStr ''cancelled''), (''resolution'', JStr ''cancelled_superseded''),
        (''resolved_at'', JInt now), (''closed_by_merge_event_id'', JStr me),
        (''updated_at'', JInt now)] g"

text \<open>A redirect replaces the matched relationships by ones to the survivor, one for each row.\<close>

definition redirect ::
    "(node \<times> edge) list \<Rightarrow> string \<Rightarrow> json_obj \<Rightarrow> graph \<Rightarrow> graph" where
  "redirect rows survivor kvs g =
     (if has_node g (PersonN survivor)
      then set_nodes (map fst rows) kvs
        (g\<lparr>g_edges := [e \<leftarrow> g_edges g. e \<notin> set (map snd rows)]
             @ map (\<lambda>(rc, old). \<lparr>e_type = e_type old, e_src = e_src old, e_dst = PersonN survivor,
                                 e_props = [(''entity_type'', JStr ''person'')]\<rparr>) rows\<rparr>)
      else g)"

definition REDIRECT_PERSON_PAIR_CASES_ABSORBED_LEFT ::
    "int \<Rightarrow> string \<Rightarrow> string \<Rightarrow> string \<Rightarrow> graph \<Rightarrow> graph" where
  "REDIRECT_PERSON_PAIR_CASES_ABSORBED_LEFT now absorbed survivor me g =
     redirect [(rc, l). (rc, l, r) \<leftarrow> case_rows g,
                 open_case g rc \<and> e_dst l = PersonN absorbed \<and> e_dst r \<noteq> PersonN survivor]
       survivor
       [(''redirected_pair_by_merge_event_id'', JStr me),
        (''redirected_pair_from_person_id'', JStr absorbed),
        (''redirected_pair_side'', JStr ''left''), (''updated_at'', JInt now)] g"

definition REDIRECT_PERSON_PAIR_CASES_ABSORBED_RIGHT ::
    "int \<Rightarrow> string \<Rightarrow> string \<Rightarrow> string \<Rightarrow> graph \<Rightarrow> graph" where
  "REDIRECT_PERSON_PAIR_CASES_ABSORBED_RIGHT now absorbed survivor me g =
     redirect [(rc, r). (rc, l, r) \<leftarrow> case_rows g,
                 open_case g rc \<and> e_dst r = PersonN absorbed \<and> e_dst l \<noteq> PersonN survivor]
       survivor
       [(''redirected_pair_by_merge_event_id'', JStr me),
        (''redirected_pair_from_person_id'', JStr absorbed),
        (''redirected_pair_side'', JStr ''right''), (''updated_at'', JInt now)] g"

definition REDIRECT_RECORD_PERSON_CASES_FOR_ABSORBED ::
    "int \<Rightarrow> string \<Rightarrow> string \<Rightarrow> string \<Rightarrow> graph \<Rightarrow> graph" where
  "REDIRECT_RECORD_PERSON_CASES_FOR_ABSORBED now absorbed survivor me g =
     redirect [(e_src f, r). f \<leftarrow> g_edges g, e_type f = FOR_DECISION \<and> open_case g (e_src f),
                 r \<leftarrow> g_edges g, e_type r = ABOUT_RIGHT \<and> e_src r = e_dst f \<and> about_person r
                                \<and> e_dst r = PersonN absorbed,
                 l \<leftarrow> g_edges g, e_type l = ABOUT_LEFT \<and> e_src l = e_dst f
                                \<and> edge_prop l ''entity_type'' = JStr ''source_record''
                                \<and> is_source_record (e_dst l)]
       survivor
       [(''redirected_by_merge_event_id'', JStr me), (''redirected_from_person_id'', JStr absorbed),
        (''updated_at'', JInt now)] g"

section \<open>Derived counters\<close>

text \<open>\<open>coalesce(n.k, 0) + 1\<close>; the counters only ever hold integers.\<close>

fun json_incr :: "json \<Rightarrow> json" where
  "json_incr (JInt n) = JInt (n + 1)"
| "json_incr _ = JInt 1"

definition authority_deals :: "graph \<Rightarrow> string \<Rightarrow> node list" where
  "authority_deals g p =
     remdups [deal. link \<leftarrow> in_edges g LINKED_TO (PersonN p), rel_active link,
        deal \<leftarrow> [e_src link], is_source_record deal \<and> node_prop g deal ''record_type'' = JStr ''crm_deal''
          \<and> node_prop g deal ''history_family'' \<in> {JNull, JStr ''activity''}
          \<and> (node_prop g deal ''lifecycle_status'' = JStr ''active''
             \<or> (node_prop g deal ''lifecycle_status'' = JNull
                \<and> node_prop g deal ''is_latest'' = JBool True))
          \<and> list_ex (edge_between FROM_SOURCE deal (SourceSystemN ''bitrix_chat'')) (g_edges g)]"

definition RECOMPUTE_PERSON_CRM_DEAL_COUNTS :: "int \<Rightarrow> string list \<Rightarrow> graph \<Rightarrow> graph" where
  "RECOMPUTE_PERSON_CRM_DEAL_COUNTS now ids g =
     fold (\<lambda>p. set_node (PersonN p) (\<lambda>d.
             [(''crm_deal_count_lock_version'', json_incr (json_get d ''crm_deal_count_lock_version'')),
              (''crm_deal_count'', JInt (int (length (authority_deals g p)))),
              (''crm_deal_count_updated_at'', JInt now)])) ids g"

definition recompute_person_crm_deal_counts :: "int \<Rightarrow> string list \<Rightarrow> graph \<Rightarrow> graph" where
  "recompute_person_crm_deal_counts now person_ids g =
     RECOMPUTE_PERSON_CRM_DEAL_COUNTS now (sorted_set person_ids) g"

definition names_record :: "string \<Rightarrow> edge \<Rightarrow> bool" where
  "names_record pk e = (edge_prop e ''source_record_pk'' = JStr pk \<and> rel_active e)"

fun person_ids_of :: "node \<Rightarrow> string list" where
  "person_ids_of (PersonN p) = [p]"
| "person_ids_of _ = []"

text \<open>The persons a changed source record touches: by its link, by the relationships that name it,
  by the customer record it points to, and both ends of the acquaintances it declares.\<close>

definition touched_by_record :: "graph \<Rightarrow> string \<Rightarrow> string list" where
  "touched_by_record g pk =
     [p. e \<leftarrow> g_edges g,
         p \<leftarrow> (if e_type e = LINKED_TO \<and> e_src e = SourceRecordN pk \<and> rel_active e
               then person_ids_of (e_dst e)
               else if e_type e \<in> {IDENTIFIED_BY, LIVES_AT, HAS_FACT, PURCHASED, BOUGHT_VEHICLE, OWNS_VEHICLE}
                       \<and> names_record pk e
               then person_ids_of (e_src e)
               else if e_type e = FOR_CUSTOMER_RECORD \<and> e_src e = SourceRecordN pk
               then [q. l \<leftarrow> g_edges g, e_type l = LINKED_TO \<and> e_src l = e_dst e \<and> rel_active l,
                        q \<leftarrow> person_ids_of (e_dst l)]
               else if e_type e = KNOWS \<and> names_record pk e
               then person_ids_of (e_src e) @ person_ids_of (e_dst e)
               else [])]"

definition MARK_PROFILE_ANALYSIS_DIRTY :: "int \<Rightarrow> string list \<Rightarrow> string list \<Rightarrow> graph \<Rightarrow> graph" where
  "MARK_PROFILE_ANALYSIS_DIRTY now source_record_pks person_ids g =
     fold (\<lambda>p. set_node (PersonN p) (\<lambda>d.
             [(''analysis_input_revision'', json_incr (json_get d ''analysis_input_revision'')),
              (''analysis_dirty_at'', JInt now)]))
       [p \<leftarrow> remdups (person_ids @ concat (map (touched_by_record g) source_record_pks)).
          active_person g (PersonN p)] g"

definition mark_profile_analysis_dirty :: "int \<Rightarrow> string list \<Rightarrow> string list \<Rightarrow> graph \<Rightarrow> graph" where
  "mark_profile_analysis_dirty now source_record_pks person_ids g =
     (let source_keys = sorted_set [s \<leftarrow> source_record_pks. s \<noteq> []];
          direct_ids = sorted_set [p \<leftarrow> person_ids. p \<noteq> []]
      in if source_keys = [] \<and> direct_ids = [] then g
         else MARK_PROFILE_ANALYSIS_DIRTY now source_keys direct_ids g)"

definition FIND_PROFILE_ANALYSIS_MERGE_AFFECTED_PERSON_IDS ::
    "graph \<Rightarrow> string \<Rightarrow> string \<Rightarrow> string list option" where
  "FIND_PROFILE_ANALYSIS_MERGE_AFFECTED_PERSON_IDS g absorbed survivor =
     (if has_node g (PersonN absorbed)
      then Some (remdups [q. e \<leftarrow> g_edges g, e_type e = KNOWS \<and> rel_active e,
                    q \<leftarrow> (if e_src e = PersonN absorbed then person_ids_of (e_dst e) else [])
                       @ (if e_dst e = PersonN absorbed then person_ids_of (e_src e) else []),
                    active_person g (PersonN q)] @ [survivor])
      else None)"

definition profile_analysis_merge_person_ids :: "graph \<Rightarrow> string \<Rightarrow> string \<Rightarrow> string list" where
  "profile_analysis_merge_person_ids g absorbed survivor =
     (case FIND_PROFILE_ANALYSIS_MERGE_AFFECTED_PERSON_IDS g absorbed survivor of
        None \<Rightarrow> [survivor]
      | Some values \<Rightarrow> (let person_ids = [v \<leftarrow> values. v \<noteq> []]
                        in if person_ids = [] then [survivor] else person_ids))"

section \<open>The merge\<close>

definition rewire_relationships ::
    "int \<Rightarrow> string \<Rightarrow> string \<Rightarrow> string \<Rightarrow> graph \<Rightarrow> graph result" where
  "rewire_relationships now absorbed survivor me g =
     try_bind (REWIRE_IDENTIFIED_BY now absorbed survivor me
                 (REWIRE_LINKED_TO now absorbed survivor me g)) (\<lambda>g.
     try_bind (REWIRE_LIVES_AT now absorbed survivor me g) (\<lambda>g.
     try_bind (REWIRE_PURCHASED absorbed survivor me
                 (REWIRE_KNOWS_IN absorbed survivor me
                   (REWIRE_KNOWS_OUT absorbed survivor me
                     (REWIRE_HAS_FACT absorbed survivor me g)))) (\<lambda>g.
     try_bind (REWIRE_BOUGHT_VEHICLE absorbed survivor me g) (\<lambda>g.
     REWIRE_OWNS_VEHICLE absorbed survivor me g))))"

definition record_lineage :: "int \<Rightarrow> string \<Rightarrow> string \<Rightarrow> string \<Rightarrow> graph \<Rightarrow> graph" where
  "record_lineage now absorbed survivor me g =
     PATH_COMPRESS_MERGED_INTO absorbed survivor me
       (CREATE_MERGED_INTO now absorbed survivor me (MARK_PERSON_MERGED now absorbed g))"

definition settle_review_cases :: "int \<Rightarrow> string \<Rightarrow> string \<Rightarrow> string \<Rightarrow> graph \<Rightarrow> graph" where
  "settle_review_cases now absorbed survivor me g =
     REDIRECT_RECORD_PERSON_CASES_FOR_ABSORBED now absorbed survivor me
       (REDIRECT_PERSON_PAIR_CASES_ABSORBED_RIGHT now absorbed survivor me
         (REDIRECT_PERSON_PAIR_CASES_ABSORBED_LEFT now absorbed survivor me
           (CLOSE_PERSON_PAIR_CASES_FOR_ABSORBED now absorbed survivor me g)))"

definition merge_person_pair ::
    "(int \<Rightarrow> string) \<Rightarrow> int \<Rightarrow> string \<Rightarrow> string \<Rightarrow> string \<Rightarrow> string \<Rightarrow> string \<Rightarrow> graph \<Rightarrow> graph result" where
  "merge_person_pair isof now me absorbed survivor md reason g =
     (let affected_person_ids = profile_analysis_merge_person_ids g absorbed survivor;
          affected_pks = GET_AFFECTED_SOURCE_RECORDS g absorbed;
          (g, created) = CREATE_MERGE_EVENT_AUTO_MERGE now me absorbed survivor reason g
      in if \<not> created
         then raise (AssertionError ''CREATE_MERGE_EVENT_AUTO_MERGE must return a row'')
         else try_bind (rewire_relationships now absorbed survivor me
                (fold (LINK_MERGE_EVENT_AFFECTED_RECORD me) affected_pks
                  (LINK_MERGE_EVENT_TRIGGERED_BY me md g))) (\<lambda>g.
              try_bind (compute_golden_profile isof now survivor
                (recompute_person_crm_deal_counts now [absorbed, survivor]
                  (settle_review_cases now absorbed survivor me
                    (record_lineage now absorbed survivor me g)))) (\<lambda>(profile, g).
              ok (mark_profile_analysis_dirty now [] affected_person_ids g))))"

section \<open>What a statement does to the links of each type\<close>

definition links :: "graph \<Rightarrow> rel_type \<Rightarrow> (node \<times> node) set" where
  "links g t = {(x, y). \<exists>e \<in> set (g_edges g). edge_between t x y e}"

lemma links_iff: "(x, y) \<in> links g t \<longleftrightarrow> (\<exists>e \<in> set (g_edges g). e_type e = t \<and> e_src e = x \<and> e_dst e = y)"
  by (simp add: links_def edge_between_def)

lemma links_set_node [simp]: "links (set_node n f g) t = links g t"
  by (simp add: links_def)

lemma links_create_node [simp]: "links (create_node n p g) t = links g t"
  by (simp add: links_def)

lemma links_create_edge [simp]:
  "links (create_edge e g) t = (if e_type e = t then insert (e_src e, e_dst e) (links g t) else links g t)"
  by (auto simp: links_iff)

lemma links_set_nodes [simp]: "links (set_nodes ns kvs g) t = links g t"
  by (simp add: links_def set_nodes_def fold_invariant [where P = "\<lambda>x. g_edges x = g_edges g"])

lemma links_rewire_create:
  assumes "\<And>e. old e \<Longrightarrow> e_type e = u"
    and "\<And>e e'. old e \<Longrightarrow> e' \<in> set (created e) \<Longrightarrow> e_type e' = u \<or> e_type e' = MOVED_RELATIONSHIP \<or> e_type e' = MOVED_MERGE_LINEAGE"
    and "t \<noteq> MOVED_RELATIONSHIP" "t \<noteq> MOVED_MERGE_LINEAGE" "t \<noteq> u"
  shows "links (rewire_create old created g) t = links g t"
proof -
  have "(x, y) \<in> links (rewire_create old created g) t \<longleftrightarrow> (x, y) \<in> links g t" for x y
    unfolding links_iff using assms by (simp add: Bex_def) blast
  then show ?thesis by auto
qed

lemma links_same_ends:
  assumes "\<And>e. e_type (f e) = e_type e \<and> e_src (f e) = e_src e \<and> e_dst (f e) = e_dst e"
  shows "links (g\<lparr>g_edges := map f (g_edges g)\<rparr>) t = links g t"
  using assms by (auto simp: links_def edge_between_def)

lemma merge_edge_run:
  assumes "merge_edge u a b kvs on_create on_match g = Inr g'"
  shows "g_nodes g' = g_nodes g \<and> links g' t = (if t = u then insert (a, b) (links g t) else links g t)"
proof (cases "list_ex (\<lambda>e. edge_between u a b e \<and> has_props kvs e) (g_edges g)")
  case True
  let ?f = "\<lambda>e. if edge_between u a b e \<and> has_props kvs e then e\<lparr>e_props := on_match (e_props e)\<rparr> else e"
  from True assms have "g' = g\<lparr>g_edges := map ?f (g_edges g)\<rparr>"
    by (simp add: merge_edge_def split: if_splits)
  moreover have "links (g\<lparr>g_edges := map ?f (g_edges g)\<rparr>) t = links g t" by (rule links_same_ends) simp
  moreover have "(a, b) \<in> links g u" using True by (auto simp: links_def list_ex_iff)
  ultimately show ?thesis by auto
next
  case False
  with assms have "g' = create_edge \<lparr>e_type = u, e_src = a, e_dst = b, e_props = on_create (json_sets kvs [])\<rparr> g"
    by (simp add: merge_edge_def split: if_splits)
  then show ?thesis by simp
qed

lemma links_rewire:
  assumes old: "\<And>e. old e \<longleftrightarrow> e_type e = u \<and> Q (e_src e, e_dst e)"
    and created: "\<And>e. created e = [m e, n e]"
    and m: "\<And>e. e_type (m e) = MOVED_RELATIONSHIP \<or> e_type (m e) = MOVED_MERGE_LINEAGE"
    and n: "\<And>e. old e \<Longrightarrow> e_type (n e) = u \<and> (e_src (n e), e_dst (n e)) = h (e_src e, e_dst e)"
    and t: "t \<noteq> MOVED_RELATIONSHIP" "t \<noteq> MOVED_MERGE_LINEAGE"
  shows "links (rewire_create old created g) t =
    (if t = u then {p \<in> links g u. \<not> Q p} \<union> h ` {p \<in> links g u. Q p} else links g t)"
proof (cases "t = u")
  case False
  have "links (rewire_create old created g) t = links g t"
    by (rule links_rewire_create [where u = u]) (use old created m n t False in auto)
  with False show ?thesis by simp
next
  case True
  have mem: "e \<in> set (g_edges (rewire_create old created g)) \<longleftrightarrow>
      (e \<in> set (g_edges g) \<and> \<not> old e) \<or> (\<exists>d \<in> set (g_edges g). old d \<and> (e = m d \<or> e = n d))" for e
    by (auto simp: created)
  have "(x, y) \<in> links (rewire_create old created g) u \<longleftrightarrow>
      ((x, y) \<in> links g u \<and> \<not> Q (x, y)) \<or> (\<exists>p \<in> links g u. Q p \<and> h p = (x, y))" for x y
  proof
    assume "(x, y) \<in> links (rewire_create old created g) u"
    then obtain e where e: "e \<in> set (g_edges (rewire_create old created g))" "e_type e = u" "e_src e = x" "e_dst e = y"
      unfolding links_iff by blast
    from e(1) consider "e \<in> set (g_edges g)" "\<not> old e" | d where "d \<in> set (g_edges g)" "old d" "e = m d \<or> e = n d"
      unfolding mem by blast
    then show "((x, y) \<in> links g u \<and> \<not> Q (x, y)) \<or> (\<exists>p \<in> links g u. Q p \<and> h p = (x, y))"
    proof cases
      case 1
      with e old show ?thesis by (auto simp: links_iff)
    next
      case 2
      with e(2) m [of d] t True have "e = n d" by auto
      moreover have "(e_src d, e_dst d) \<in> links g u" "Q (e_src d, e_dst d)"
        using 2 old by (auto simp: links_iff)
      ultimately show ?thesis using n [OF 2(2)] e by metis
    qed
  next
    assume "((x, y) \<in> links g u \<and> \<not> Q (x, y)) \<or> (\<exists>p \<in> links g u. Q p \<and> h p = (x, y))"
    then show "(x, y) \<in> links (rewire_create old created g) u"
    proof
      assume "(x, y) \<in> links g u \<and> \<not> Q (x, y)"
      then obtain e where e: "e \<in> set (g_edges g)" "e_type e = u" "e_src e = x" "e_dst e = y" "\<not> Q (x, y)"
        unfolding links_iff by blast
      then have "\<not> old e" using old by simp
      with e(1) have "e \<in> set (g_edges (rewire_create old created g))" using mem by blast
      with e show ?thesis unfolding links_iff by blast
    next
      assume "\<exists>p \<in> links g u. Q p \<and> h p = (x, y)"
      then obtain d where d: "d \<in> set (g_edges g)" "e_type d = u" "Q (e_src d, e_dst d)" "h (e_src d, e_dst d) = (x, y)"
        unfolding links_def edge_between_def by auto
      then have "old d" using old by simp
      from n [OF this] d have "e_type (n d) = u" "e_src (n d) = x" "e_dst (n d) = y" by auto
      moreover have "n d \<in> set (g_edges (rewire_create old created g))" using mem d(1) \<open>old d\<close> by blast
      ultimately show ?thesis unfolding links_iff by blast
    qed
  qed
  then have "p \<in> links (rewire_create old created g) u \<longleftrightarrow>
      p \<in> {p \<in> links g u. \<not> Q p} \<union> h ` {p \<in> links g u. Q p}" for p
    by (cases p) (simp add: image_iff Bex_def conj_ac eq_commute [of _ "h _"])
  then have "links (rewire_create old created g) u = {p \<in> links g u. \<not> Q p} \<union> h ` {p \<in> links g u. Q p}"
    by (rule set_eqI)
  with True show ?thesis by simp
qed

lemma merge_rows_run:
  assumes "fold_result (\<lambda>(old, created). merge_edge u a (e_dst old) (kvs old) (oc old) om) rows g = Inr g'"
  shows "g_nodes g' = g_nodes g
     \<and> links g' t = (if t = u then links g u \<union> {(a, e_dst old) |old created. (old, created) \<in> set rows} else links g t)"
  using assms
proof (induction rows arbitrary: g)
  case (Cons row rows)
  obtain old created where row: "row = (old, created)" by (cases row)
  with Cons.prems obtain h where h: "merge_edge u a (e_dst old) (kvs old) (oc old) om g = Inr h"
    "fold_result (\<lambda>(old, created). merge_edge u a (e_dst old) (kvs old) (oc old) om) rows h = Inr g'"
    by (auto simp: try_bind_Inr_iff)
  from Cons.IH [OF h(2)] merge_edge_run [OF h(1)] show ?case by (auto simp: row)
qed simp

lemma rewire_rows_old:
  "(\<exists>created. (old, created) \<in> set (rewire_rows u keys target a s g)) \<longleftrightarrow>
   old \<in> set (g_edges g) \<and> e_type old = u \<and> e_src old = PersonN a \<and> target (e_dst old)"
proof -
  have "\<exists>c. c \<in> set (created_flags u keys s g old)" for old
    by (auto simp: created_flags_def Let_def ex_in_conv)
  moreover have "(old, created) \<in> set (rewire_rows u keys target a s g) \<longleftrightarrow>
      (old \<in> set (g_edges g) \<and> e_type old = u \<and> e_src old = PersonN a \<and> target (e_dst old))
      \<and> created \<in> set (created_flags u keys s g old)" for created
    by (auto simp: rewire_rows_def)
  ultimately show ?thesis by simp
qed

lemma links_rewire_merge:
  assumes run: "rewire_merge u rtype keys target oc om a s me g = Inr g'" and able: "rewirable g a s me"
    and t: "t \<noteq> MOVED_RELATIONSHIP"
  shows "g_nodes g' = g_nodes g
    \<and> links g' t = (if t = u then {p \<in> links g u. \<not> (fst p = PersonN a \<and> target (snd p))}
         \<union> {(PersonN s, y) |y. (PersonN a, y) \<in> links g u \<and> target y} else links g t)"
proof -
  let ?rows = "rewire_rows u keys target a s g"
  let ?g1 = "g\<lparr>g_edges := [e \<leftarrow> g_edges g. \<not> (e_type e = u \<and> e_src e = PersonN a \<and> target (e_dst e))]
      @ map (\<lambda>(old, created). moved_edge me (e_dst old) rtype ''outgoing'' a created (e_props old)) ?rows\<rparr>"
  have g1: "links ?g1 t = (if t = u then {p \<in> links g u. \<not> (fst p = PersonN a \<and> target (snd p))} else links g t)"
    using t by (auto simp: links_def edge_between_def moved_edge_def)
  have rows: "{(PersonN s, e_dst old) |old created. (old, created) \<in> set ?rows}
      = {(PersonN s, y) |y. (PersonN a, y) \<in> links g u \<and> target y}"
    using rewire_rows_old [of _ u keys target a s g] by (auto simp: links_iff)
  from run able have "fold_result (\<lambda>(old, created). merge_edge u (PersonN s) (e_dst old) (key_of keys old)
      (\<lambda>d. json_set ''merge_origin_person_id'' (origin_of a (e_props old)) (oc (e_props old) d)) om) ?rows ?g1 = Inr g'"
    by (simp add: rewire_merge_def Let_def)
  from merge_rows_run [OF this, of t] g1 rows show ?thesis by auto
qed

section \<open>The merge as a quotient of the graph\<close>

text \<open>What the writers of the service keep: the kinds of nodes each relationship joins.\<close>

fun schema :: "rel_type \<Rightarrow> node \<times> node \<Rightarrow> bool" where
  "schema LINKED_TO p = (is_source_record (fst p) \<and> is_person (snd p))"
| "schema IDENTIFIED_BY p = (is_person (fst p) \<and> is_identifier (snd p))"
| "schema LIVES_AT p = (is_person (fst p) \<and> is_address (snd p))"
| "schema HAS_FACT p = (is_person (fst p) \<and> is_source_record (snd p))"
| "schema KNOWS p = (is_person (fst p) \<and> is_person (snd p) \<and> fst p \<noteq> snd p)"
| "schema PURCHASED p = (is_person (fst p) \<and> is_order (snd p))"
| "schema BOUGHT_VEHICLE p = (is_person (fst p) \<and> is_vehicle (snd p))"
| "schema OWNS_VEHICLE p = (is_person (fst p) \<and> is_vehicle (snd p))"
| "schema MERGED_INTO p = (is_person (fst p) \<and> is_person (snd p))"
| "schema _ p = True"

definition well_typed :: "graph \<Rightarrow> bool" where
  "well_typed g = list_all (\<lambda>e. schema (e_type e) (e_src e, e_dst e)) (g_edges g)"

lemma well_typed_iff: "well_typed g \<longleftrightarrow> (\<forall>t. \<forall>p \<in> links g t. schema t p)"
  by (auto simp: well_typed_def list_all_iff links_def edge_between_def)

definition into :: "string \<Rightarrow> string \<Rightarrow> node \<Rightarrow> node" where
  "into a s n = (if n = PersonN a then PersonN s else n)"

definition into2 :: "string \<Rightarrow> string \<Rightarrow> node \<times> node \<Rightarrow> node \<times> node" where
  "into2 a s p = (into a s (fst p), into a s (snd p))"

text \<open>Acquaintances between the two persons stay where they are.\<close>

definition knows_into :: "string \<Rightarrow> string \<Rightarrow> node \<times> node \<Rightarrow> node \<times> node" where
  "knows_into a s p = (if p \<in> {(PersonN a, PersonN s), (PersonN s, PersonN a)} then p else into2 a s p)"

definition OWNED :: "rel_type set" where
  "OWNED = {LINKED_TO, IDENTIFIED_BY, LIVES_AT, HAS_FACT, PURCHASED, BOUGHT_VEHICLE, OWNS_VEHICLE}"

definition plain_type :: "rel_type \<Rightarrow> bool" where
  "plain_type t = (t \<notin> {MOVED_RELATIONSHIP, MOVED_MERGE_LINEAGE})"

lemma split_image: "{p \<in> L. \<not> Q p} \<union> h ` {p \<in> L. Q p} = (\<lambda>p. if Q p then h p else p) ` L"
  by (auto simp: image_iff)

lemma rewirable_nodes: "g_nodes g = g_nodes h \<Longrightarrow> rewirable g a s me = rewirable h a s me"
  by (simp add: rewirable_def has_node_def)

lemma moved_edge_type [simp]: "e_type (moved_edge me n r d a c p) = MOVED_RELATIONSHIP"
  by (simp add: moved_edge_def)

lemma into_other: "n \<noteq> PersonN a \<Longrightarrow> into a s n = n"
  by (simp add: into_def)

lemma kinds_not_person [simp]:
  "is_source_record n \<Longrightarrow> n \<noteq> PersonN a" "is_identifier n \<Longrightarrow> n \<noteq> PersonN a"
  "is_address n \<Longrightarrow> n \<noteq> PersonN a" "is_order n \<Longrightarrow> n \<noteq> PersonN a" "is_vehicle n \<Longrightarrow> n \<noteq> PersonN a"
  by (cases n; simp)+

lemma linked_to_links:
  assumes "rewirable g a s me" "\<forall>p \<in> links g LINKED_TO. schema LINKED_TO p" "plain_type t"
  shows "g_nodes (REWIRE_LINKED_TO now a s me g) = g_nodes g
    \<and> links (REWIRE_LINKED_TO now a s me g) t = (if t = LINKED_TO then into2 a s ` links g t else links g t)"
proof -
  let ?Q = "\<lambda>p. snd p = PersonN a \<and> is_source_record (fst p)"
  let ?h = "\<lambda>p. (fst p, PersonN s)"
  have "links (REWIRE_LINKED_TO now a s me g) t =
      (if t = LINKED_TO then {p \<in> links g LINKED_TO. \<not> ?Q p} \<union> ?h ` {p \<in> links g LINKED_TO. ?Q p} else links g t)"
    unfolding REWIRE_LINKED_TO_def if_P [OF assms(1)]
    by (rule links_rewire [OF _ refl]) (use assms(3) in \<open>auto simp: plain_type_def\<close>)
  also have "{p \<in> links g LINKED_TO. \<not> ?Q p} \<union> ?h ` {p \<in> links g LINKED_TO. ?Q p} = into2 a s ` links g LINKED_TO"
    unfolding split_image using assms(2) by (intro image_cong refl) (auto simp: into2_def into_def)
  finally show ?thesis using assms(1) by (simp add: REWIRE_LINKED_TO_def)
qed

lemma has_fact_links:
  assumes "rewirable g a s me" "\<forall>p \<in> links g HAS_FACT. schema HAS_FACT p" "plain_type t"
  shows "g_nodes (REWIRE_HAS_FACT a s me g) = g_nodes g
    \<and> links (REWIRE_HAS_FACT a s me g) t = (if t = HAS_FACT then into2 a s ` links g t else links g t)"
proof -
  let ?Q = "\<lambda>p. fst p = PersonN a \<and> is_source_record (snd p)"
  let ?h = "\<lambda>p. (PersonN s, snd p)"
  have "links (REWIRE_HAS_FACT a s me g) t =
      (if t = HAS_FACT then {p \<in> links g HAS_FACT. \<not> ?Q p} \<union> ?h ` {p \<in> links g HAS_FACT. ?Q p} else links g t)"
    unfolding REWIRE_HAS_FACT_def if_P [OF assms(1)]
    by (rule links_rewire [OF _ refl]) (use assms(3) in \<open>auto simp: plain_type_def\<close>)
  also have "{p \<in> links g HAS_FACT. \<not> ?Q p} \<union> ?h ` {p \<in> links g HAS_FACT. ?Q p} = into2 a s ` links g HAS_FACT"
    unfolding split_image using assms(2) by (intro image_cong refl) (auto simp: into2_def into_def)
  finally show ?thesis using assms(1) by (simp add: REWIRE_HAS_FACT_def)
qed

lemma knows_links:
  assumes "rewirable g a s me" "\<forall>p \<in> links g KNOWS. schema KNOWS p" "plain_type t" "a \<noteq> s"
  defines "g' \<equiv> REWIRE_KNOWS_IN a s me (REWIRE_KNOWS_OUT a s me g)"
  shows "g_nodes g' = g_nodes g \<and> links g' t = (if t = KNOWS then knows_into a s ` links g t else links g t)"
proof -
  let ?Q = "\<lambda>p. fst p = PersonN a \<and> is_person (snd p) \<and> snd p \<noteq> PersonN s"
  let ?h = "\<lambda>p. (PersonN s, snd p)"
  let ?R = "\<lambda>p. snd p = PersonN a \<and> is_person (fst p) \<and> fst p \<noteq> PersonN s"
  let ?k = "\<lambda>p. (fst p, PersonN s)"
  let ?g1 = "REWIRE_KNOWS_OUT a s me g"
  have out: "links ?g1 t = (if t = KNOWS then (\<lambda>p. if ?Q p then ?h p else p) ` links g KNOWS else links g t)"
    unfolding split_image [symmetric] REWIRE_KNOWS_OUT_def if_P [OF assms(1)]
    by (rule links_rewire [OF _ refl]) (use assms(3) in \<open>auto simp: plain_type_def\<close>)
  have nodes: "g_nodes ?g1 = g_nodes g" using assms(1) by (simp add: REWIRE_KNOWS_OUT_def)
  have able: "rewirable ?g1 a s me" using assms(1) rewirable_nodes [OF nodes] by simp
  have "links g' t = (if t = KNOWS then (\<lambda>p. if ?R p then ?k p else p) ` links ?g1 KNOWS else links ?g1 t)"
    unfolding g'_def split_image [symmetric] REWIRE_KNOWS_IN_def if_P [OF able]
    by (rule links_rewire [OF _ refl]) (use assms(3) in \<open>auto simp: plain_type_def\<close>)
  moreover have "(\<lambda>p. if ?R p then ?k p else p) ` (\<lambda>p. if ?Q p then ?h p else p) ` links g KNOWS
      = knows_into a s ` links g KNOWS"
    unfolding image_image
  proof (intro image_cong refl)
    fix p assume "p \<in> links g KNOWS"
    with assms(2) have "is_person (fst p)" "is_person (snd p)" "fst p \<noteq> snd p" by auto
    with assms(4) show "(if ?R (if ?Q p then ?h p else p) then ?k (if ?Q p then ?h p else p)
          else (if ?Q p then ?h p else p)) = knows_into a s p"
      by (cases "fst p = PersonN a"; cases "snd p = PersonN a"; cases "fst p = PersonN s"; cases "snd p = PersonN s")
         (simp_all add: knows_into_def into2_def into_def prod_eq_iff)
  qed
  ultimately have "links g' t = (if t = KNOWS then knows_into a s ` links g t else links g t)"
    using out by (cases "t = KNOWS") simp_all
  then show ?thesis using nodes able by (simp add: g'_def REWIRE_KNOWS_IN_def)
qed

lemma merged_links:
  assumes "rewire_merge u rtype keys target oc om a s me g = Inr g'" "rewirable g a s me" "plain_type t"
    and "\<forall>p \<in> links g u. target (snd p) \<and> snd p \<noteq> PersonN a"
  shows "g_nodes g' = g_nodes g \<and> links g' t = (if t = u then into2 a s ` links g t else links g t)"
proof -
  let ?Q = "\<lambda>p. fst p = PersonN a \<and> target (snd p)"
  have t: "t \<noteq> MOVED_RELATIONSHIP" using assms(3) by (simp add: plain_type_def)
  have "{(PersonN s, y) |y. (PersonN a, y) \<in> links g u \<and> target y} = (\<lambda>p. (PersonN s, snd p)) ` {p \<in> links g u. ?Q p}"
    by (auto simp: image_iff)
  with links_rewire_merge [OF assms(1,2) t]
  have run: "g_nodes g' = g_nodes g" "links g' t = (if t = u then (\<lambda>p. if ?Q p then (PersonN s, snd p) else p) ` links g u
      else links g t)"
    unfolding split_image [symmetric] by simp_all
  have "(\<lambda>p. if ?Q p then (PersonN s, snd p) else p) ` links g u = into2 a s ` links g u"
    using assms(4) by (intro image_cong refl) (auto simp: into2_def into_def)
  with run show ?thesis by simp
qed


lemma rewire_relationships_links:
  assumes run: "rewire_relationships now a s me g = Inr g'" and able: "rewirable g a s me"
    and typed: "well_typed g" and "a \<noteq> s" and t: "plain_type t"
  shows "g_nodes g' = g_nodes g"
    "links g' t = (if t \<in> OWNED then into2 a s ` links g t
       else if t = KNOWS then knows_into a s ` links g t else links g t)"
proof -
  have ty: "\<forall>p \<in> links g u. schema u p" for u using typed by (simp add: well_typed_iff)
  have plain: "plain_type LINKED_TO" "plain_type IDENTIFIED_BY" "plain_type LIVES_AT" "plain_type HAS_FACT"
    "plain_type KNOWS" "plain_type PURCHASED" "plain_type BOUGHT_VEHICLE" "plain_type OWNS_VEHICLE"
    by (simp_all add: plain_type_def)
  let ?g1 = "REWIRE_LINKED_TO now a s me g"
  from run obtain g2 g3 g5 g6 where
    run2: "REWIRE_IDENTIFIED_BY now a s me ?g1 = Inr g2" and
    run3: "REWIRE_LIVES_AT now a s me g2 = Inr g3" and
    run5: "REWIRE_PURCHASED a s me (REWIRE_KNOWS_IN a s me (REWIRE_KNOWS_OUT a s me (REWIRE_HAS_FACT a s me g3))) = Inr g5" and
    run6: "REWIRE_BOUGHT_VEHICLE a s me g5 = Inr g6" and
    run7: "REWIRE_OWNS_VEHICLE a s me g6 = Inr g'"
    by (auto simp: rewire_relationships_def try_bind_Inr_iff)
  let ?g4 = "REWIRE_HAS_FACT a s me g3"
  let ?g4' = "REWIRE_KNOWS_IN a s me (REWIRE_KNOWS_OUT a s me ?g4)"
  note kinds = kinds_not_person
  have s1: "g_nodes ?g1 = g_nodes g" "links ?g1 u = (if u = LINKED_TO then into2 a s ` links g u else links g u)"
    if "plain_type u" for u using linked_to_links [OF able ty that] by simp_all
  have able1: "rewirable ?g1 a s me" using able rewirable_nodes [OF s1(1) [OF t]] by simp
  have s2: "g_nodes g2 = g_nodes ?g1" "links g2 u = (if u = IDENTIFIED_BY then into2 a s ` links ?g1 u else links ?g1 u)"
    if "plain_type u" for u
    using merged_links [OF run2 [unfolded REWIRE_IDENTIFIED_BY_def] able1 that] ty [of IDENTIFIED_BY] s1(2) [OF plain(2)]
    by auto
  have able2: "rewirable g2 a s me" using able1 rewirable_nodes [OF s2(1) [OF t]] by simp
  have s3: "g_nodes g3 = g_nodes g2" "links g3 u = (if u = LIVES_AT then into2 a s ` links g2 u else links g2 u)"
    if "plain_type u" for u
    using merged_links [OF run3 [unfolded REWIRE_LIVES_AT_def] able2 that] ty [of LIVES_AT] s1(2) [OF plain(3)] s2(2) [OF plain(3)]
    by auto
  have able3: "rewirable g3 a s me" using able2 rewirable_nodes [OF s3(1) [OF t]] by simp
  have s4: "g_nodes ?g4 = g_nodes g3" "links ?g4 u = (if u = HAS_FACT then into2 a s ` links g3 u else links g3 u)"
    if "plain_type u" for u
    using has_fact_links [OF able3 _ that] ty [of HAS_FACT] s1(2) [OF plain(4)] s2(2) [OF plain(4)] s3(2) [OF plain(4)]
    by auto
  have able4: "rewirable ?g4 a s me" using able3 rewirable_nodes [OF s4(1) [OF t]] by simp
  have s4': "g_nodes ?g4' = g_nodes ?g4" "links ?g4' u = (if u = KNOWS then knows_into a s ` links ?g4 u else links ?g4 u)"
    if "plain_type u" for u
    using knows_links [OF able4 _ that \<open>a \<noteq> s\<close>] ty [of KNOWS] s1(2) [OF plain(5)] s2(2) [OF plain(5)]
      s3(2) [OF plain(5)] s4(2) [OF plain(5)]
    by auto
  have able4': "rewirable ?g4' a s me" using able4 rewirable_nodes [OF s4'(1) [OF t]] by simp
  have s5: "g_nodes g5 = g_nodes ?g4'" "links g5 u = (if u = PURCHASED then into2 a s ` links ?g4' u else links ?g4' u)"
    if "plain_type u" for u
    using merged_links [OF run5 [unfolded REWIRE_PURCHASED_def] able4' that] ty [of PURCHASED] s1(2) [OF plain(6)]
      s2(2) [OF plain(6)] s3(2) [OF plain(6)] s4(2) [OF plain(6)] s4'(2) [OF plain(6)]
    by auto
  have able5: "rewirable g5 a s me" using able4' rewirable_nodes [OF s5(1) [OF t]] by simp
  have s6: "g_nodes g6 = g_nodes g5" "links g6 u = (if u = BOUGHT_VEHICLE then into2 a s ` links g5 u else links g5 u)"
    if "plain_type u" for u
    using merged_links [OF run6 [unfolded REWIRE_BOUGHT_VEHICLE_def] able5 that] ty [of BOUGHT_VEHICLE] s1(2) [OF plain(7)]
      s2(2) [OF plain(7)] s3(2) [OF plain(7)] s4(2) [OF plain(7)] s4'(2) [OF plain(7)] s5(2) [OF plain(7)]
    by auto
  have able6: "rewirable g6 a s me" using able5 rewirable_nodes [OF s6(1) [OF t]] by simp
  have s7: "g_nodes g' = g_nodes g6" "links g' u = (if u = OWNS_VEHICLE then into2 a s ` links g6 u else links g6 u)"
    if "plain_type u" for u
    using merged_links [OF run7 [unfolded REWIRE_OWNS_VEHICLE_def] able6 that] ty [of OWNS_VEHICLE] s1(2) [OF plain(8)]
      s2(2) [OF plain(8)] s3(2) [OF plain(8)] s4(2) [OF plain(8)] s4'(2) [OF plain(8)] s5(2) [OF plain(8)] s6(2) [OF plain(8)]
    by auto
  show "g_nodes g' = g_nodes g"
    using s1(1) [OF t] s2(1) [OF t] s3(1) [OF t] s4(1) [OF t] s4'(1) [OF t] s5(1) [OF t] s6(1) [OF t] s7(1) [OF t] by simp
  show "links g' t = (if t \<in> OWNED then into2 a s ` links g t
       else if t = KNOWS then knows_into a s ` links g t else links g t)"
    unfolding s7(2) [OF t] s6(2) [OF t] s5(2) [OF t] s4'(2) [OF t] s4(2) [OF t] s3(2) [OF t] s2(2) [OF t] s1(2) [OF t]
    by (cases t) (simp_all add: OWNED_def)
qed

section \<open>The other statements\<close>

lemma links_create_merge_event:
  assumes "CREATE_MERGE_EVENT_AUTO_MERGE now me a s reason g = (g', True)"
  shows "links g' t = (if t = ABSORBED then insert (MergeEventN me, PersonN a) (links g t)
      else if t = SURVIVOR then insert (MergeEventN me, PersonN s) (links g t) else links g t)"
    and "has_node g' n \<longleftrightarrow> n = MergeEventN me \<or> has_node g n"
    and "has_node g (PersonN a)" "has_node g (PersonN s)"
    and "n \<noteq> MergeEventN me \<Longrightarrow> node_prop g' n k = node_prop g n k"
  using assms by (auto simp: CREATE_MERGE_EVENT_AUTO_MERGE_def node_prop_create_other split: if_splits)

lemma link_event_simps [simp]:
  "g_nodes (LINK_MERGE_EVENT_TRIGGERED_BY me md g) = g_nodes g"
  "g_nodes (LINK_MERGE_EVENT_AFFECTED_RECORD me pk g) = g_nodes g"
  "t \<noteq> TRIGGERED_BY \<Longrightarrow> links (LINK_MERGE_EVENT_TRIGGERED_BY me md g) t = links g t"
  "t \<noteq> AFFECTED_RECORD \<Longrightarrow> links (LINK_MERGE_EVENT_AFFECTED_RECORD me pk g) t = links g t"
  by (simp_all add: LINK_MERGE_EVENT_TRIGGERED_BY_def LINK_MERGE_EVENT_AFFECTED_RECORD_def)

lemma link_records_simps [simp]:
  "g_nodes (fold (LINK_MERGE_EVENT_AFFECTED_RECORD me) pks g) = g_nodes g"
  "t \<noteq> AFFECTED_RECORD \<Longrightarrow> links (fold (LINK_MERGE_EVENT_AFFECTED_RECORD me) pks g) t = links g t"
  by (induction pks arbitrary: g) simp_all

lemma links_record_lineage:
  assumes "rewirable g a s me" "a \<noteq> s" "plain_type t" "\<forall>p \<in> links g MERGED_INTO. is_person (fst p)"
  shows "links (record_lineage now a s me g) t =
    (if t = MERGED_INTO then insert (PersonN a, PersonN s) ((\<lambda>p. (fst p, into a s (snd p))) ` links g t) else links g t)"
    and "has_node (record_lineage now a s me g) n = has_node g n"
    and "node_prop (record_lineage now a s me g) n ''status'' =
           (if n = PersonN a then JStr ''merged'' else node_prop g n ''status'')"
proof -
  let ?g1 = "CREATE_MERGED_INTO now a s me (MARK_PERSON_MERGED now a g)"
  have g1: "links ?g1 u = (if u = MERGED_INTO then insert (PersonN a, PersonN s) (links g u) else links g u)" for u
    using assms(1) by (simp add: CREATE_MERGED_INTO_def MARK_PERSON_MERGED_def rewirable_def)
  have able: "rewirable ?g1 a s me"
    using assms(1) by (simp add: CREATE_MERGED_INTO_def MARK_PERSON_MERGED_def rewirable_def)
  let ?Q = "\<lambda>p. snd p = PersonN a \<and> is_person (fst p)"
  let ?h = "\<lambda>p. (fst p, PersonN s)"
  have "links (record_lineage now a s me g) t =
      (if t = MERGED_INTO then {p \<in> links ?g1 MERGED_INTO. \<not> ?Q p} \<union> ?h ` {p \<in> links ?g1 MERGED_INTO. ?Q p} else links ?g1 t)"
    unfolding record_lineage_def PATH_COMPRESS_MERGED_INTO_def if_P [OF able]
    by (rule links_rewire [OF _ refl]) (use assms(3) in \<open>auto simp: plain_type_def moved_lineage_def\<close>)
  also have "{p \<in> links ?g1 MERGED_INTO. \<not> ?Q p} \<union> ?h ` {p \<in> links ?g1 MERGED_INTO. ?Q p}
      = (\<lambda>p. (fst p, into a s (snd p))) ` links ?g1 MERGED_INTO"
    unfolding split_image using assms(4) by (intro image_cong refl) (auto simp: g1 into_def)
  finally show "links (record_lineage now a s me g) t =
    (if t = MERGED_INTO then insert (PersonN a, PersonN s) ((\<lambda>p. (fst p, into a s (snd p))) ` links g t) else links g t)"
    using assms(2) by (simp add: g1 into_def)
  show "has_node (record_lineage now a s me g) n = has_node g n"
    by (simp add: record_lineage_def PATH_COMPRESS_MERGED_INTO_def CREATE_MERGED_INTO_def MARK_PERSON_MERGED_def)
  show "node_prop (record_lineage now a s me g) n ''status'' =
           (if n = PersonN a then JStr ''merged'' else node_prop g n ''status'')"
    using assms(1)
    by (simp add: record_lineage_def PATH_COMPRESS_MERGED_INTO_def CREATE_MERGED_INTO_def MARK_PERSON_MERGED_def
        node_prop_set_node rewirable_def)
qed

text \<open>The statements on review cases rewire only relationships of match decisions.\<close>

lemma set_nodes_keep:
  "has_node (set_nodes ns kvs g) n = has_node g n"
  "k \<notin> fst ` set kvs \<Longrightarrow> node_prop (set_nodes ns kvs g) n k = node_prop g n k"
proof -
  have "has_node (fold (\<lambda>n. set_node n (\<lambda>_. kvs)) ms g) n = has_node g n" for ms
    by (induction ms arbitrary: g) simp_all
  then show "has_node (set_nodes ns kvs g) n = has_node g n" by (simp add: set_nodes_def)
  have "k \<notin> fst ` set kvs \<Longrightarrow> node_prop (fold (\<lambda>n. set_node n (\<lambda>_. kvs)) ms g) n k = node_prop g n k" for ms
    by (induction ms arbitrary: g) (simp_all add: node_prop_set_node_other)
  then show "k \<notin> fst ` set kvs \<Longrightarrow> node_prop (set_nodes ns kvs g) n k = node_prop g n k" by (simp add: set_nodes_def)
qed

definition typed_edges :: "graph \<Rightarrow> rel_type \<Rightarrow> edge list" where
  "typed_edges g t = [e \<leftarrow> g_edges g. e_type e = t]"

lemma links_typed_edges: "typed_edges g t = typed_edges h t \<Longrightarrow> links g t = links h t"
proof -
  have "links k t = (\<lambda>e. (e_src e, e_dst e)) ` set (typed_edges k t)" for k
    by (auto simp: links_iff typed_edges_def image_iff)
  then show "typed_edges g t = typed_edges h t \<Longrightarrow> links g t = links h t" by simp
qed

lemma typed_edges_simps [simp]:
  "typed_edges (set_node n f g) t = typed_edges g t"
  "typed_edges (create_node n p g) t = typed_edges g t"
  "t \<noteq> e_type e \<Longrightarrow> typed_edges (create_edge e g) t = typed_edges g t"
  by (simp_all add: typed_edges_def)

lemma typed_edges_set_nodes [simp]: "typed_edges (set_nodes ns kvs g) t = typed_edges g t"
proof -
  have "typed_edges (fold (\<lambda>n. set_node n (\<lambda>_. kvs)) ms g) t = typed_edges g t" for ms
    by (induction ms arbitrary: g) simp_all
  then show ?thesis by (simp add: set_nodes_def)
qed

lemma redirect_keep:
  assumes "\<forall>(rc, old) \<in> set rows. e_type old \<in> {ABOUT_LEFT, ABOUT_RIGHT}"
  shows "has_node (redirect rows s kvs g) n = has_node g n"
    and "t \<notin> {ABOUT_LEFT, ABOUT_RIGHT} \<Longrightarrow> typed_edges (redirect rows s kvs g) t = typed_edges g t"

    and "k \<notin> fst ` set kvs \<Longrightarrow> node_prop (redirect rows s kvs g) n k = node_prop g n k"
proof -
  let ?rest = "g\<lparr>g_edges := [e \<leftarrow> g_edges g. e \<notin> set (map snd rows)]
      @ map (\<lambda>(rc, old). \<lparr>e_type = e_type old, e_src = e_src old, e_dst = PersonN s,
                           e_props = [(''entity_type'', JStr ''person'')]\<rparr>) rows\<rparr>"
  have red: "redirect rows s kvs g = (if has_node g (PersonN s) then set_nodes (map fst rows) kvs ?rest else g)"
    by (simp add: redirect_def)
  show "has_node (redirect rows s kvs g) n = has_node g n"
    by (simp add: red set_nodes_keep) (simp add: has_node_def)
  show "k \<notin> fst ` set kvs \<Longrightarrow> node_prop (redirect rows s kvs g) n k = node_prop g n k"
    by (simp add: red set_nodes_keep) (simp add: node_prop_def)
  assume t: "t \<notin> {ABOUT_LEFT, ABOUT_RIGHT}"
  then have "e \<notin> set (map snd rows)" if "e_type e = t" for e
    using assms that by fastforce
  then have "[e \<leftarrow> [e \<leftarrow> g_edges g. e \<notin> set (map snd rows)]. e_type e = t] = typed_edges g t"
    by (auto simp: typed_edges_def intro!: filter_cong)
  moreover have "[e \<leftarrow> map (\<lambda>(rc, old). \<lparr>e_type = e_type old, e_src = e_src old, e_dst = PersonN s,
      e_props = [(''entity_type'', JStr ''person'')]\<rparr>) rows. e_type e = t] = []"
    using assms t by (auto simp: filter_empty_conv)
  ultimately have "typed_edges ?rest t = typed_edges g t" by (simp add: typed_edges_def)
  then show "typed_edges (redirect rows s kvs g) t = typed_edges g t" by (simp add: red)
qed

lemma settle_keep:
  "t \<notin> {ABOUT_LEFT, ABOUT_RIGHT} \<Longrightarrow> typed_edges (settle_review_cases now a s me g) t = typed_edges g t"
  "has_node (settle_review_cases now a s me g) n = has_node g n"
  "node_prop (settle_review_cases now a s me g) n ''status'' = node_prop g n ''status''"
proof -
  have close: "typed_edges (CLOSE_PERSON_PAIR_CASES_FOR_ABSORBED now a s me h) t = typed_edges h t"
    "has_node (CLOSE_PERSON_PAIR_CASES_FOR_ABSORBED now a s me h) n = has_node h n"
    "node_prop (CLOSE_PERSON_PAIR_CASES_FOR_ABSORBED now a s me h) n ''status'' = node_prop h n ''status''" for h t
    by (simp_all add: CLOSE_PERSON_PAIR_CASES_FOR_ABSORBED_def set_nodes_keep)
  have left: "t \<notin> {ABOUT_LEFT, ABOUT_RIGHT} \<Longrightarrow> typed_edges (REDIRECT_PERSON_PAIR_CASES_ABSORBED_LEFT now a s me h) t = typed_edges h t"
    "has_node (REDIRECT_PERSON_PAIR_CASES_ABSORBED_LEFT now a s me h) n = has_node h n"
    "node_prop (REDIRECT_PERSON_PAIR_CASES_ABSORBED_LEFT now a s me h) n ''status'' = node_prop h n ''status''" for h t
    unfolding REDIRECT_PERSON_PAIR_CASES_ABSORBED_LEFT_def
    by (rule redirect_keep; auto simp: case_rows_def)+
  have right: "t \<notin> {ABOUT_LEFT, ABOUT_RIGHT} \<Longrightarrow> typed_edges (REDIRECT_PERSON_PAIR_CASES_ABSORBED_RIGHT now a s me h) t = typed_edges h t"
    "has_node (REDIRECT_PERSON_PAIR_CASES_ABSORBED_RIGHT now a s me h) n = has_node h n"
    "node_prop (REDIRECT_PERSON_PAIR_CASES_ABSORBED_RIGHT now a s me h) n ''status'' = node_prop h n ''status''" for h t
    unfolding REDIRECT_PERSON_PAIR_CASES_ABSORBED_RIGHT_def
    by (rule redirect_keep; auto simp: case_rows_def)+
  have person: "t \<notin> {ABOUT_LEFT, ABOUT_RIGHT} \<Longrightarrow> typed_edges (REDIRECT_RECORD_PERSON_CASES_FOR_ABSORBED now a s me h) t = typed_edges h t"
    "has_node (REDIRECT_RECORD_PERSON_CASES_FOR_ABSORBED now a s me h) n = has_node h n"
    "node_prop (REDIRECT_RECORD_PERSON_CASES_FOR_ABSORBED now a s me h) n ''status'' = node_prop h n ''status''" for h t
    unfolding REDIRECT_RECORD_PERSON_CASES_FOR_ABSORBED_def
    by (rule redirect_keep; auto)+
  show "t \<notin> {ABOUT_LEFT, ABOUT_RIGHT} \<Longrightarrow> typed_edges (settle_review_cases now a s me g) t = typed_edges g t"
    by (simp add: settle_review_cases_def close left right person)
  show "has_node (settle_review_cases now a s me g) n = has_node g n"
    "node_prop (settle_review_cases now a s me g) n ''status'' = node_prop g n ''status''"
    by (simp_all add: settle_review_cases_def close left right person)
qed

text \<open>Relationships of a type that no statement writes, such as the no-match locks, stay as they are.\<close>

lemma typed_edges_rewire_create:
  assumes "\<And>e. old e \<Longrightarrow> e_type e \<noteq> t" "\<And>e e'. e' \<in> set (created e) \<Longrightarrow> old e \<Longrightarrow> e_type e' \<noteq> t"
  shows "typed_edges (rewire_create old created g) t = typed_edges g t"
proof -
  have "[e \<leftarrow> [e \<leftarrow> g_edges g. \<not> old e]. e_type e = t] = typed_edges g t"
    using assms(1) by (auto simp: typed_edges_def intro!: filter_cong)
  moreover have "[e \<leftarrow> concat (map created [e \<leftarrow> g_edges g. old e]). e_type e = t] = []"
    using assms(2) by (auto simp: filter_empty_conv)
  ultimately show ?thesis by (simp add: typed_edges_def)
qed

lemma typed_edges_merge_edge:
  assumes "merge_edge u a b kvs oc om g = Inr g'" "t \<noteq> u"
  shows "typed_edges g' t = typed_edges g t"
proof -
  have "[e \<leftarrow> map (\<lambda>e. if edge_between u a b e \<and> has_props kvs e then e\<lparr>e_props := om (e_props e)\<rparr> else e) es. e_type e = t]
      = [e \<leftarrow> es. e_type e = t]" for es
    using assms(2) by (induction es) (auto simp: edge_between_def)
  then show ?thesis using assms
    by (auto simp: merge_edge_def typed_edges_def Let_def split: if_splits)
qed

lemma typed_edges_merge_rows:
  assumes "fold_result (\<lambda>(old, created). merge_edge u a (e_dst old) (kvs old) (oc old) om) rows g = Inr g'" "t \<noteq> u"
  shows "typed_edges g' t = typed_edges g t"
  using assms(1)
proof (induction rows arbitrary: g)
  case (Cons row rows)
  then show ?case using typed_edges_merge_edge [OF _ assms(2)]
    by (auto simp: try_bind_Inr_iff split: prod.splits)
qed simp

lemma typed_edges_rewire_merge:
  assumes "rewire_merge u rtype keys target oc om a s me g = Inr g'" "t \<noteq> u" "t \<noteq> MOVED_RELATIONSHIP"
  shows "typed_edges g' t = typed_edges g t"
proof (cases "rewirable g a s me")
  case True
  let ?g1 = "g\<lparr>g_edges := [e \<leftarrow> g_edges g. \<not> (e_type e = u \<and> e_src e = PersonN a \<and> target (e_dst e))]
      @ map (\<lambda>(old, created). moved_edge me (e_dst old) rtype ''outgoing'' a created (e_props old))
          (rewire_rows u keys target a s g)\<rparr>"
  from assms(1) True have "typed_edges g' t = typed_edges ?g1 t"
    by (intro typed_edges_merge_rows [OF _ assms(2)]) (simp add: rewire_merge_def Let_def)
  also have "[e \<leftarrow> [e \<leftarrow> g_edges g. \<not> (e_type e = u \<and> e_src e = PersonN a \<and> target (e_dst e))]. e_type e = t] = typed_edges g t"
    using assms(2) by (auto simp: typed_edges_def intro!: filter_cong)
  then have "typed_edges ?g1 t = typed_edges g t"
    using assms(3) by (simp add: typed_edges_def filter_empty_conv split_def)
  finally show ?thesis .
qed (use assms(1) in \<open>simp add: rewire_merge_def\<close>)

lemma typed_edges_rewire_relationships:
  assumes "rewire_relationships now a s me g = Inr g'" "t \<notin> OWNED" "t \<noteq> KNOWS" "t \<noteq> MOVED_RELATIONSHIP"
  shows "typed_edges g' t = typed_edges g t"
proof -
  have linked: "typed_edges (REWIRE_LINKED_TO now a s me h) t = typed_edges h t"
    and fact: "typed_edges (REWIRE_HAS_FACT a s me h) t = typed_edges h t"
    and out: "typed_edges (REWIRE_KNOWS_OUT a s me h) t = typed_edges h t"
    and kin: "typed_edges (REWIRE_KNOWS_IN a s me h) t = typed_edges h t" for h
    unfolding REWIRE_LINKED_TO_def REWIRE_HAS_FACT_def REWIRE_KNOWS_OUT_def REWIRE_KNOWS_IN_def
    using assms(2-4) by (auto simp: OWNED_def plain_type_def intro!: typed_edges_rewire_create)
  have merged: "rewire_merge u rtype keys target oc om a s me h = Inr h' \<Longrightarrow> u \<in> OWNED \<Longrightarrow>
      typed_edges h' t = typed_edges h t" for u rtype keys target oc om h h'
    using assms(2,4) typed_edges_rewire_merge [of u rtype keys target oc om a s me h h' t] by auto
  from assms(1) show ?thesis
    unfolding rewire_relationships_def REWIRE_IDENTIFIED_BY_def REWIRE_LIVES_AT_def REWIRE_PURCHASED_def
      REWIRE_BOUGHT_VEHICLE_def REWIRE_OWNS_VEHICLE_def try_bind_Inr_iff
    by (auto dest!: merged simp: OWNED_def linked fact out kin)
qed

lemma typed_edges_record_lineage:
  assumes "t \<noteq> MERGED_INTO" "plain_type t"
  shows "typed_edges (record_lineage now a s me g) t = typed_edges g t"
proof -
  have "typed_edges (PATH_COMPRESS_MERGED_INTO a s me h) t = typed_edges h t" for h
    using assms by (auto simp: PATH_COMPRESS_MERGED_INTO_def plain_type_def moved_lineage_def
        intro!: typed_edges_rewire_create)
  with assms(1) show ?thesis by (simp add: record_lineage_def CREATE_MERGED_INTO_def MARK_PERSON_MERGED_def)
qed

text \<open>The writes after the lineage touch derived properties of person nodes only.\<close>

lemma fold_set_person_keep:
  assumes "\<And>p d. k \<notin> fst ` set (f p d)"
  shows "g_edges (fold (\<lambda>p. set_node (PersonN p) (f p)) ps g) = g_edges g"
    "has_node (fold (\<lambda>p. set_node (PersonN p) (f p)) ps g) n = has_node g n"
    "node_prop (fold (\<lambda>p. set_node (PersonN p) (f p)) ps g) n k = node_prop g n k"
  using assms by (induction ps arbitrary: g) (simp_all add: node_prop_set_node_other)

lemma counters_keep:
  "g_edges (recompute_person_crm_deal_counts now ps g) = g_edges g"
  "has_node (recompute_person_crm_deal_counts now ps g) n = has_node g n"
  "k \<in> {''status'', ''created_at''} \<Longrightarrow> node_prop (recompute_person_crm_deal_counts now ps g) n k = node_prop g n k"
proof -
  note keep = fold_set_person_keep [where f = "\<lambda>p d.
      [(''crm_deal_count_lock_version'', json_incr (json_get d ''crm_deal_count_lock_version'')),
       (''crm_deal_count'', JInt (int (length (authority_deals g p)))), (''crm_deal_count_updated_at'', JInt now)]"
      and ps = "sorted_set ps" and g = g]
  show "g_edges (recompute_person_crm_deal_counts now ps g) = g_edges g"
    "has_node (recompute_person_crm_deal_counts now ps g) n = has_node g n"
    unfolding recompute_person_crm_deal_counts_def RECOMPUTE_PERSON_CRM_DEAL_COUNTS_def
    by (rule keep [where k = "''status''"]; simp)+
  show "k \<in> {''status'', ''created_at''} \<Longrightarrow> node_prop (recompute_person_crm_deal_counts now ps g) n k = node_prop g n k"
    unfolding recompute_person_crm_deal_counts_def RECOMPUTE_PERSON_CRM_DEAL_COUNTS_def
    by (rule keep(3)) auto
qed

lemma dirty_keep:
  "g_edges (mark_profile_analysis_dirty now pks ps g) = g_edges g"
  "has_node (mark_profile_analysis_dirty now pks ps g) n = has_node g n"
  "k \<in> {''status'', ''created_at''} \<Longrightarrow> node_prop (mark_profile_analysis_dirty now pks ps g) n k = node_prop g n k"
proof -
  note keep = fold_set_person_keep [where f = "\<lambda>p d.
      [(''analysis_input_revision'', json_incr (json_get d ''analysis_input_revision'')),
       (''analysis_dirty_at'', JInt now)]" and g = g]
  show "g_edges (mark_profile_analysis_dirty now pks ps g) = g_edges g"
    "has_node (mark_profile_analysis_dirty now pks ps g) n = has_node g n"
    unfolding mark_profile_analysis_dirty_def MARK_PROFILE_ANALYSIS_DIRTY_def Let_def
    using keep [where k = "''status''"] by simp_all
  show "k \<in> {''status'', ''created_at''} \<Longrightarrow> node_prop (mark_profile_analysis_dirty now pks ps g) n k = node_prop g n k"
    unfolding mark_profile_analysis_dirty_def MARK_PROFILE_ANALYSIS_DIRTY_def Let_def
    using keep(3) by auto
qed

lemma golden_keep:
  assumes "compute_golden_profile isof now p g = Inr (f, g')"
  shows "g_edges g' = g_edges g" "has_node g' n = has_node g n"
    "k \<in> {''status'', ''created_at''} \<Longrightarrow> node_prop g' n k = node_prop g n k"
proof -
  from assms have "g' = UPDATE_GOLDEN_PROFILE now p f g" by (rule compute_golden_profile_cases)
  then show "g_edges g' = g_edges g" "has_node g' n = has_node g n"
    "k \<in> {''status'', ''created_at''} \<Longrightarrow> node_prop g' n k = node_prop g n k"
    by (auto simp: UPDATE_GOLDEN_PROFILE_def intro!: node_prop_set_node_other)
qed

section \<open>The whole merge\<close>

lemma merge_person_pair_cases:
  assumes "merge_person_pair isof now me a s md reason g = Inr g'"
  obtains g1 g2 profile g3 where
    "CREATE_MERGE_EVENT_AUTO_MERGE now me a s reason g = (g1, True)"
    "rewire_relationships now a s me (fold (LINK_MERGE_EVENT_AFFECTED_RECORD me) (GET_AFFECTED_SOURCE_RECORDS g a)
       (LINK_MERGE_EVENT_TRIGGERED_BY me md g1)) = Inr g2"
    "compute_golden_profile isof now s (recompute_person_crm_deal_counts now [a, s]
       (settle_review_cases now a s me (record_lineage now a s me g2))) = Inr (profile, g3)"
    "g' = mark_profile_analysis_dirty now [] (profile_analysis_merge_person_ids g a s) g3"
proof -
  obtain g1 created where g1: "CREATE_MERGE_EVENT_AUTO_MERGE now me a s reason g = (g1, created)" by fastforce
  with assms have created by (auto simp: merge_person_pair_def Let_def split: if_splits)
  with assms g1 that show ?thesis
    by (auto simp: merge_person_pair_def Let_def try_bind_Inr_iff)
qed

definition WRITTEN :: "rel_type set" where
  "WRITTEN = {MOVED_RELATIONSHIP, MOVED_MERGE_LINEAGE, ABSORBED, SURVIVOR, TRIGGERED_BY, AFFECTED_RECORD,
     ABOUT_LEFT, ABOUT_RIGHT}"

lemma schema_WRITTEN: "t \<in> WRITTEN \<Longrightarrow> schema t p"
  by (auto simp: WRITTEN_def)

lemma same_edges_links: "g_edges g = g_edges h \<Longrightarrow> links g t = links h t"
  by (simp add: links_def)

lemma same_edges_typed: "g_edges g = g_edges h \<Longrightarrow> typed_edges g t = typed_edges h t"
  by (simp add: typed_edges_def)

lemma merge_effect:
  assumes merge: "merge_person_pair isof now me a s md reason g = Inr g'" and typed: "well_typed g" and "a \<noteq> s"
  shows "t \<notin> WRITTEN \<Longrightarrow> links g' t =
      (if t \<in> OWNED then into2 a s ` links g t
       else if t = KNOWS then knows_into a s ` links g t
       else if t = MERGED_INTO
            then insert (PersonN a, PersonN s) ((\<lambda>p. (fst p, into a s (snd p))) ` links g t)
       else links g t)"
    and "t \<notin> WRITTEN \<union> OWNED \<union> {KNOWS, MERGED_INTO} \<Longrightarrow> typed_edges g' t = typed_edges g t"
    and "node_prop g' (PersonN p) ''status'' =
           (if p = a then JStr ''merged'' else node_prop g (PersonN p) ''status'')"
    and "has_node g' n \<longleftrightarrow> n = MergeEventN me \<or> has_node g n"
    and "has_node g (PersonN a)" "has_node g (PersonN s)"
proof -
  from merge obtain g1 g2 profile g3 where
    g1: "CREATE_MERGE_EVENT_AUTO_MERGE now me a s reason g = (g1, True)" and
    g2: "rewire_relationships now a s me (fold (LINK_MERGE_EVENT_AFFECTED_RECORD me) (GET_AFFECTED_SOURCE_RECORDS g a)
       (LINK_MERGE_EVENT_TRIGGERED_BY me md g1)) = Inr g2" and
    g3: "compute_golden_profile isof now s (recompute_person_crm_deal_counts now [a, s]
       (settle_review_cases now a s me (record_lineage now a s me g2))) = Inr (profile, g3)" and
    g': "g' = mark_profile_analysis_dirty now [] (profile_analysis_merge_person_ids g a s) g3"
    by (rule merge_person_pair_cases)
  let ?h = "fold (LINK_MERGE_EVENT_AFFECTED_RECORD me) (GET_AFFECTED_SOURCE_RECORDS g a) (LINK_MERGE_EVENT_TRIGGERED_BY me md g1)"
  let ?l = "record_lineage now a s me g2"
  note ev = links_create_merge_event [OF g1]
  from ev show nodes: "has_node g (PersonN a)" "has_node g (PersonN s)" by blast+
  have h_nodes: "has_node ?h n \<longleftrightarrow> n = MergeEventN me \<or> has_node g n" for n
    using ev(2) by (simp add: has_node_def)
  then have able: "rewirable ?h a s me" using nodes by (simp add: rewirable_def)
  have h_links: "links ?h u = links g u" if "u \<notin> {ABSORBED, SURVIVOR, TRIGGERED_BY, AFFECTED_RECORD}" for u
    using that ev(1) by simp
  have h_schema: "well_typed ?h"
    unfolding well_typed_iff
  proof (intro allI ballI)
    fix u p assume "p \<in> links ?h u"
    then show "schema u p"
      using h_links [of u] typed by (cases "u \<in> WRITTEN") (auto simp: well_typed_iff schema_WRITTEN WRITTEN_def)
  qed
  note rew = rewire_relationships_links [OF g2 able h_schema \<open>a \<noteq> s\<close>]
  have able2: "rewirable g2 a s me"
    using able rew(1) [of KNOWS] rewirable_nodes [of g2 ?h] by (simp add: plain_type_def)
  have "\<forall>p \<in> links g MERGED_INTO. schema MERGED_INTO p" using typed unfolding well_typed_iff by blast
  then have persons: "\<forall>p \<in> links g2 MERGED_INTO. is_person (fst p)"
    using rew(2) [of MERGED_INTO] h_links [of MERGED_INTO] by (simp add: plain_type_def OWNED_def)
  note lin = links_record_lineage [OF able2 \<open>a \<noteq> s\<close> _ persons]
  have edges: "g_edges g' = g_edges (settle_review_cases now a s me ?l)"
    by (simp add: g' dirty_keep golden_keep [OF g3] counters_keep)
  show "links g' t = (if t \<in> OWNED then into2 a s ` links g t
       else if t = KNOWS then knows_into a s ` links g t
       else if t = MERGED_INTO then insert (PersonN a, PersonN s) ((\<lambda>p. (fst p, into a s (snd p))) ` links g t)
       else links g t)" if t: "t \<notin> WRITTEN"
  proof -
    have plain: "plain_type t" using t by (simp add: plain_type_def WRITTEN_def)
    have "links g' t = links ?l t"
      using same_edges_links [OF edges] links_typed_edges [OF settle_keep(1)] t by (auto simp: WRITTEN_def)
    also have "\<dots> = (if t = MERGED_INTO then insert (PersonN a, PersonN s) ((\<lambda>p. (fst p, into a s (snd p))) ` links g2 t)
        else links g2 t)" by (rule lin(1) [OF plain])
    also have "links g2 t = (if t \<in> OWNED then into2 a s ` links g t
        else if t = KNOWS then knows_into a s ` links g t else links g t)"
    proof -
      have "links ?h t = links g t" by (rule h_links) (use t in \<open>auto simp: WRITTEN_def\<close>)
      with rew(2) [OF plain] show ?thesis by (simp only:)
    qed
    finally show ?thesis by (simp add: OWNED_def)
  qed
  show "node_prop g' (PersonN p) ''status'' = (if p = a then JStr ''merged'' else node_prop g (PersonN p) ''status'')"
  proof -
    have "node_prop g' (PersonN p) ''status'' = node_prop ?l (PersonN p) ''status''"
      by (simp add: g' dirty_keep(3) golden_keep(3) [OF g3] counters_keep(3) settle_keep)
    also have "\<dots> = (if p = a then JStr ''merged'' else node_prop g2 (PersonN p) ''status'')"
      using lin(3) [of KNOWS] by (simp add: plain_type_def)
    also have "node_prop g2 (PersonN p) ''status'' = node_prop g (PersonN p) ''status''"
      using rew(1) [of KNOWS] ev(5) [of "PersonN p" "''status''"] by (simp add: plain_type_def node_prop_def)
    finally show ?thesis .
  qed
  show "has_node g' n \<longleftrightarrow> n = MergeEventN me \<or> has_node g n"
  proof -
    have "has_node g' n \<longleftrightarrow> has_node ?l n"
      by (simp only: g' dirty_keep golden_keep(2) [OF g3] counters_keep settle_keep)
    also have "\<dots> \<longleftrightarrow> has_node g2 n" using lin(2) [of KNOWS] by (simp add: plain_type_def)
    also have "\<dots> \<longleftrightarrow> has_node ?h n" using rew(1) [of KNOWS] by (simp only: has_node_def) (simp add: plain_type_def)
    finally show ?thesis using h_nodes by simp
  qed
  show "typed_edges g' t = typed_edges g t" if t: "t \<notin> WRITTEN \<union> OWNED \<union> {KNOWS, MERGED_INTO}"
  proof -
    have plain: "plain_type t" using t by (simp add: plain_type_def WRITTEN_def)
    have linked: "typed_edges (fold (LINK_MERGE_EVENT_AFFECTED_RECORD me) pks k) t = typed_edges k t" for pks k
      using t by (induction pks arbitrary: k) (simp_all add: LINK_MERGE_EVENT_AFFECTED_RECORD_def WRITTEN_def)
    have h: "typed_edges ?h t = typed_edges g t"
      using g1 t by (auto simp: linked LINK_MERGE_EVENT_TRIGGERED_BY_def CREATE_MERGE_EVENT_AUTO_MERGE_def WRITTEN_def
          split: if_splits)
    have "t \<noteq> MOVED_RELATIONSHIP" using plain by (simp add: plain_type_def)
    with typed_edges_rewire_relationships [OF g2, of t] typed_edges_record_lineage [OF _ plain] h t
    show ?thesis using same_edges_typed [OF edges] by (auto simp: settle_keep WRITTEN_def)
  qed
qed

section \<open>Properties\<close>

definition flat_lineage :: "graph \<Rightarrow> bool" where
  "flat_lineage g = (\<forall>p q. (p, q) \<in> links g MERGED_INTO \<longrightarrow>
     node_prop g p ''status'' = JStr ''merged'' \<and> node_prop g q ''status'' = JStr ''active''
     \<and> (\<forall>q'. (p, q') \<in> links g MERGED_INTO \<longrightarrow> q' = q))"

lemma flat_lineage_merge:
  assumes merge: "merge_person_pair isof now me a s md reason g = Inr g'" and typed: "well_typed g" and "a \<noteq> s"
    and flat: "flat_lineage g" and act: "active_person g (PersonN a)" "active_person g (PersonN s)"
  shows "flat_lineage g'"
proof -
  note eff = merge_effect [OF merge typed \<open>a \<noteq> s\<close>]
  have new: "links g' MERGED_INTO =
      insert (PersonN a, PersonN s) ((\<lambda>p. (fst p, into a s (snd p))) ` links g MERGED_INTO)"
    using eff(1) [of MERGED_INTO] by (simp add: WRITTEN_def OWNED_def)
  have persons: "is_person p" "is_person q" if "(p, q) \<in> links g MERGED_INTO" for p q
    using typed that unfolding well_typed_iff by fastforce+
  have status: "node_prop g' n ''status'' = (if n = PersonN a then JStr ''merged'' else node_prop g n ''status'')"
    if "is_person n" for n using eff(3) that by (cases n) simp_all
  have old: "node_prop g p ''status'' = JStr ''merged''" "node_prop g q ''status'' = JStr ''active''"
    "(p, q') \<in> links g MERGED_INTO \<Longrightarrow> q' = q" if "(p, q) \<in> links g MERGED_INTO" for p q q'
    using flat that unfolding flat_lineage_def by blast+
  have not_a: "p \<noteq> PersonN a" if "(p, q) \<in> links g MERGED_INTO" for p q
    using old(1) [OF that] act(1) by (auto simp: active_person_def)
  show ?thesis
    unfolding flat_lineage_def
  proof (intro allI impI)
    fix p q assume pq: "(p, q) \<in> links g' MERGED_INTO"
    show "node_prop g' p ''status'' = JStr ''merged'' \<and> node_prop g' q ''status'' = JStr ''active''
      \<and> (\<forall>q'. (p, q') \<in> links g' MERGED_INTO \<longrightarrow> q' = q)"
    proof (cases "p = PersonN a")
      case True
      have none: "(PersonN a, r) \<notin> links g MERGED_INTO" for r using not_a by blast
      have "q = PersonN s" "\<forall>q'. (p, q') \<in> links g' MERGED_INTO \<longrightarrow> q' = PersonN s"
        using pq True unfolding new by (auto simp: none)
      with True show ?thesis using act(2) \<open>a \<noteq> s\<close> by (simp add: status active_person_def)
    next
      case False
      with pq obtain r where r: "(p, r) \<in> links g MERGED_INTO" "q = into a s r" unfolding new by auto
      have "\<forall>q'. (p, q') \<in> links g' MERGED_INTO \<longrightarrow> q' = q"
        using False old(3) [OF r(1)] r(2) unfolding new by auto
      moreover have "node_prop g' q ''status'' = JStr ''active''"
        using old(2) [OF r(1)] act(2) \<open>a \<noteq> s\<close> persons(2) [OF r(1)] r(2)
        by (auto simp: into_def status active_person_def)
      moreover have "node_prop g' p ''status'' = JStr ''merged''"
        using old(1) [OF r(1)] persons(1) [OF r(1)] False by (simp add: status)
      ultimately show ?thesis by blast
    qed
  qed
qed

lemma well_typed_merge:
  assumes merge: "merge_person_pair isof now me a s md reason g = Inr g'" and typed: "well_typed g" and "a \<noteq> s"
  shows "well_typed g'"
  unfolding well_typed_iff
proof (intro allI ballI)
  fix t p assume p: "p \<in> links g' t"
  show "schema t p"
  proof (cases "t \<in> WRITTEN")
    case False
    have old: "schema t q" if "q \<in> links g t" for q using typed that by (simp add: well_typed_iff)
    have kinds: "is_source_record (into a s n) = is_source_record n" "is_identifier (into a s n) = is_identifier n"
      "is_address (into a s n) = is_address n" "is_order (into a s n) = is_order n"
      "is_vehicle (into a s n) = is_vehicle n" "is_person (into a s n) = is_person n" for n
      by (simp_all add: into_def)
    consider (owned) q where "t \<in> OWNED" "q \<in> links g t" "p = into2 a s q"
      | (knows) q where "t = KNOWS" "q \<in> links g t" "p = knows_into a s q"
      | (self) "t = MERGED_INTO" "p = (PersonN a, PersonN s)"
      | (lineage) q where "t = MERGED_INTO" "q \<in> links g t" "p = (fst q, into a s (snd q))"
      | (other) "p \<in> links g t"
      using p merge_effect(1) [OF merge typed \<open>a \<noteq> s\<close> False] by (auto split: if_splits)
    then show ?thesis
    proof cases
      case owned
      with old [OF owned(2)] show ?thesis by (auto simp: OWNED_def into2_def kinds)
    next
      case knows
      with old [OF knows(2)] show ?thesis
        by (cases q) (auto simp: knows_into_def into2_def kinds, auto simp: into_def split: if_splits)
    next
      case lineage
      with old [OF lineage(2)] show ?thesis by (simp add: kinds)
    qed (use old in auto)
  qed (rule schema_WRITTEN)
qed

text \<open>C14: merging a person into another is a renaming of the end points of relationships. Records,
  identifiers, addresses, facts, purchases and vehicles of the absorbed person are those of the survivor
  afterwards, acquaintances too except those between the two, which stay; persons merged into the
  absorbed one earlier point to the survivor, and so does the absorbed one. Every other relationship stays
  with its properties, apart from the log of the merge and the sides of decisions, which are redirected.
  The absorbed person is marked as merged, every other status is kept.\<close>

theorem merge_is_quotient:
  assumes "merge_person_pair isof now me a s md reason g = Inr g'" and "well_typed g" and "a \<noteq> s"
  shows "(\<forall>t \<in> OWNED. links g' t = into2 a s ` links g t)
     \<and> links g' KNOWS = knows_into a s ` links g KNOWS
     \<and> links g' MERGED_INTO = insert (PersonN a, PersonN s) ((\<lambda>(x, y). (x, into a s y)) ` links g MERGED_INTO)
     \<and> (\<forall>t \<in> - (OWNED \<union> {KNOWS, MERGED_INTO} \<union> WRITTEN). typed_edges g' t = typed_edges g t)
     \<and> (\<forall>p. node_prop g' (PersonN p) ''status'' =
              (if p = a then JStr ''merged'' else node_prop g (PersonN p) ''status''))"
proof -
  note eff = merge_effect [OF assms]
  have "links g' t = into2 a s ` links g t" if "t \<in> OWNED" for t
    using eff(1) [of t] that by (auto simp: OWNED_def WRITTEN_def)
  moreover have "links g' KNOWS = knows_into a s ` links g KNOWS"
    using eff(1) [of KNOWS] by (simp add: WRITTEN_def OWNED_def)
  moreover have "links g' MERGED_INTO = insert (PersonN a, PersonN s) ((\<lambda>(x, y). (x, into a s y)) ` links g MERGED_INTO)"
    using eff(1) [of MERGED_INTO] by (simp add: WRITTEN_def OWNED_def case_prod_beta)
  moreover have "typed_edges g' t = typed_edges g t" if "t \<in> - (OWNED \<union> {KNOWS, MERGED_INTO} \<union> WRITTEN)" for t
    using eff(2) [of t] that by blast
  ultimately show ?thesis using eff(3) by blast
qed

text \<open>The merge lineage stays flat: when every merged person points to exactly one active
  person, merging one active person into another keeps it so, persons merged earlier into the
  absorbed one included, and the graph stays well-typed.\<close>

theorem merge_keeps_lineage_flat:
  assumes "merge_person_pair isof now me a s md reason g = Inr g'" and "well_typed g" and "a \<noteq> s"
    and "flat_lineage g" and "active_person g (PersonN a)" and "active_person g (PersonN s)"
  shows "flat_lineage g' \<and> well_typed g'"
  using flat_lineage_merge [OF assms] well_typed_merge [OF assms(1-3)] by blast

lemma locked_pair_typed:
  "locked_pair h later p q = list_ex (\<lambda>lock. lock_active later lock
      \<and> ((e_src lock = PersonN p \<and> e_dst lock = PersonN q)
         \<or> (e_src lock = PersonN q \<and> e_dst lock = PersonN p))) (typed_edges h NO_MATCH_LOCK)"
  by (auto simp: locked_pair_def list_ex_iff typed_edges_def)

lemma merge_keeps_locks:
  assumes "merge_person_pair isof now me a s md reason g = Inr g'" and "well_typed g" and "a \<noteq> s"
  shows "CHECK_NO_MATCH_LOCK g' later p q = CHECK_NO_MATCH_LOCK g later p q"
proof -
  note eff = merge_effect [OF assms]
  have "typed_edges g' NO_MATCH_LOCK = typed_edges g NO_MATCH_LOCK"
    by (rule eff(2)) (simp add: WRITTEN_def OWNED_def)
  then show ?thesis using eff(4) by (simp add: CHECK_NO_MATCH_LOCK_def locked_pair_typed)
qed

text \<open>A merge does not carry the no-match locks of the absorbed person over: a third person that
  was locked against the absorbed person and not against the survivor may be merged with the
  survivor afterwards, although the survivor now stands for both.\<close>

theorem merge_forgets_locks:
  assumes "merge_person_pair isof now me a s md reason g = Inr g'" and "well_typed g" and "a \<noteq> s"
    and "CHECK_NO_MATCH_LOCK g later a c" and "\<not> CHECK_NO_MATCH_LOCK g later s c"
  shows "\<not> CHECK_NO_MATCH_LOCK g' later s c"
  using merge_keeps_locks [OF assms(1-3)] assms(5) by simp

text \<open>The survivor does not depend on the order of the pair; it is one of the two persons, the
  more complete profile, between equally complete ones the older, between those the smaller id.\<close>

theorem survivor_choice:
  assumes "pa_person_id l \<noteq> pa_person_id r"
  shows "select_survivor l r = select_survivor r l
     \<and> (case select_survivor l r of (survivor, absorbed) \<Rightarrow>
          \<exists>w x. {w, x} = {l, r} \<and> survivor = pa_person_id w \<and> absorbed = pa_person_id x
            \<and> (pa_profile_completeness_score x, pa_created_at w, pa_person_id w)
                < (pa_profile_completeness_score w, pa_created_at x, pa_person_id x))"
proof (intro conjI)
  show "select_survivor l r = select_survivor r l"
    using assms by (auto simp: select_survivor_def Let_def)
  have win: "pa_person_id v \<noteq> pa_person_id u \<Longrightarrow> select_survivor u v = (pa_person_id u, pa_person_id v) \<Longrightarrow>
      (pa_profile_completeness_score v, pa_created_at u, pa_person_id u)
        < (pa_profile_completeness_score u, pa_created_at v, pa_person_id v)" for u v
    by (auto simp: select_survivor_def Let_def split: if_splits)
  have "select_survivor l r = (pa_person_id l, pa_person_id r)
      \<or> select_survivor r l = (pa_person_id r, pa_person_id l)"
    using assms by (auto simp: select_survivor_def Let_def)
  then show "case select_survivor l r of (survivor, absorbed) \<Rightarrow>
          \<exists>w x. {w, x} = {l, r} \<and> survivor = pa_person_id w \<and> absorbed = pa_person_id x
            \<and> (pa_profile_completeness_score x, pa_created_at w, pa_person_id w)
                < (pa_profile_completeness_score w, pa_created_at x, pa_person_id x)"
  proof
    assume l: "select_survivor l r = (pa_person_id l, pa_person_id r)"
    from win [OF _ l] assms show ?thesis unfolding l prod.case by (intro exI [of _ l] exI [of _ r]) simp
  next
    assume r: "select_survivor r l = (pa_person_id r, pa_person_id l)"
    with \<open>select_survivor l r = select_survivor r l\<close> have e: "select_survivor l r = (pa_person_id r, pa_person_id l)" by simp
    from win [OF _ r] assms show ?thesis unfolding e prod.case
      by (intro exI [of _ r] exI [of _ l]) (simp add: insert_commute)
  qed
qed

definition pair_graph :: graph where
  "pair_graph =
     \<lparr>g_nodes = [(PersonN ''p1'', [(''status'', JStr ''active'')]),
                 (PersonN ''p2'', [(''status'', JStr ''active'')]),
                 (PersonN ''p3'', [(''status'', JStr ''merged'')]),
                 (PersonN ''p4'', [(''status'', JStr ''active'')]),
                 (IdentifierN ''phone'' ''global'' ''+6581234567'', []),
                 (SourceRecordN ''r1'', [(''record_type'', JStr ''identity'')])],
      g_edges = [\<lparr>e_type = IDENTIFIED_BY, e_src = PersonN ''p1'',
                  e_dst = IdentifierN ''phone'' ''global'' ''+6581234567'',
                  e_props = [(''source_record_pk'', JStr ''r1''), (''source_system_key'', JStr ''crm'')]\<rparr>,
                 \<lparr>e_type = LINKED_TO, e_src = SourceRecordN ''r1'', e_dst = PersonN ''p1'', e_props = []\<rparr>,
                 \<lparr>e_type = NO_MATCH_LOCK, e_src = PersonN ''p4'', e_dst = PersonN ''p1'', e_props = []\<rparr>,
                 \<lparr>e_type = MERGED_INTO, e_src = PersonN ''p3'', e_dst = PersonN ''p1'', e_props = []\<rparr>]\<rparr>"

lemma pair_graph_facts:
  "well_typed pair_graph" "active_person pair_graph (PersonN ''p1'')" "active_person pair_graph (PersonN ''p2'')"
  "CHECK_NO_MATCH_LOCK pair_graph 7 ''p1'' ''p4''" "\<not> CHECK_NO_MATCH_LOCK pair_graph 7 ''p2'' ''p4''"
  by code_simp+

lemma pair_graph_flat: "flat_lineage pair_graph"
proof -
  have "links pair_graph MERGED_INTO = {(PersonN ''p3'', PersonN ''p1'')}"
    by (auto simp: links_iff pair_graph_def)
  then show ?thesis by (simp add: flat_lineage_def node_prop_def pair_graph_def json_get_def)
qed

lemma pair_graph_merge:
  obtains g' where "merge_person_pair (\<lambda>_. ''2024'') 5 ''m1'' ''p1'' ''p2'' ''d1'' ''r'' pair_graph = Inr g'"
proof -
  obtain g1 where g1: "g1 = fst (CREATE_MERGE_EVENT_AUTO_MERGE 5 ''m1'' ''p1'' ''p2'' ''r'' pair_graph)" by blast
  let ?h = "LINK_MERGE_EVENT_AFFECTED_RECORD ''m1'' ''r1'' (LINK_MERGE_EVENT_TRIGGERED_BY ''m1'' ''d1'' g1)"
  let ?rest = "\<lambda>g. settle_review_cases 5 ''p1'' ''p2'' ''m1'' (record_lineage 5 ''p1'' ''p2'' ''m1'' g)"
  have "snd (CREATE_MERGE_EVENT_AUTO_MERGE 5 ''m1'' ''p1'' ''p2'' ''r'' pair_graph)" by code_simp
  then have ev: "CREATE_MERGE_EVENT_AUTO_MERGE 5 ''m1'' ''p1'' ''p2'' ''r'' pair_graph = (g1, True)"
    by (simp add: prod_eq_iff g1)
  have pks: "GET_AFFECTED_SOURCE_RECORDS pair_graph ''p1'' = [''r1'']"
    by (simp add: GET_AFFECTED_SOURCE_RECORDS_def pair_graph_def has_node_def in_edges_def edge_prop_def json_get_def
        sorted_set_def)
  have "case rewire_relationships 5 ''p1'' ''p2'' ''m1'' ?h of Inl e \<Rightarrow> False
      | Inr g \<Rightarrow> is_ok (fetch_person_evidence (\<lambda>_. ''2024'') (?rest g) ''p2'')"
    unfolding g1 by code_simp
  then obtain g2 where g2: "rewire_relationships 5 ''p1'' ''p2'' ''m1'' ?h = Inr g2"
    "is_ok (fetch_person_evidence (\<lambda>_. ''2024'') (?rest g2) ''p2'')"
    by (auto split: sum.splits)
  have "fetch_person_evidence (\<lambda>_. ''2024'') (recompute_person_crm_deal_counts 5 ps g) p
      = fetch_person_evidence (\<lambda>_. ''2024'') g p" for ps g p
  proof -
    have "fetch_person_evidence (\<lambda>_. ''2024'') (fold (\<lambda>p. set_node (PersonN p) (f p)) qs k) p
        = fetch_person_evidence (\<lambda>_. ''2024'') k p" for f qs k
      by (induction qs arbitrary: k) (simp_all add: evidence_set_person)
    then show ?thesis by (simp add: recompute_person_crm_deal_counts_def RECOMPUTE_PERSON_CRM_DEAL_COUNTS_def)
  qed
  with g2(2) obtain found where "fetch_person_evidence (\<lambda>_. ''2024'')
      (recompute_person_crm_deal_counts 5 [''p1'', ''p2''] (?rest g2)) ''p2'' = Inr found"
    by (cases "fetch_person_evidence (\<lambda>_. ''2024'') (?rest g2) ''p2''") auto
  then have "\<exists>f g3. compute_golden_profile (\<lambda>_. ''2024'') 5 ''p2''
      (recompute_person_crm_deal_counts 5 [''p1'', ''p2''] (?rest g2)) = Inr (f, g3)"
    by (cases found) (auto simp: compute_golden_profile_def Let_def)
  then show ?thesis using that ev g2(1) by (auto simp: merge_person_pair_def pks Let_def)
qed

theorem merge_is_quotient_witness:
  "\<exists>g'. links g' LINKED_TO = into2 ''p1'' ''p2'' ` links pair_graph LINKED_TO"
proof (rule pair_graph_merge)
  fix g' assume "merge_person_pair (\<lambda>_. ''2024'') 5 ''m1'' ''p1'' ''p2'' ''d1'' ''r'' pair_graph = Inr g'"
  from merge_is_quotient [OF this pair_graph_facts(1)] show ?thesis by (auto simp: OWNED_def)
qed

theorem merge_keeps_lineage_flat_witness:
  "\<exists>g'. merge_person_pair (\<lambda>_. ''2024'') 5 ''m1'' ''p1'' ''p2'' ''d1'' ''r'' pair_graph = Inr g' \<and> flat_lineage g'"
proof (rule pair_graph_merge)
  fix g' assume run: "merge_person_pair (\<lambda>_. ''2024'') 5 ''m1'' ''p1'' ''p2'' ''d1'' ''r'' pair_graph = Inr g'"
  from merge_keeps_lineage_flat [OF run pair_graph_facts(1) _ pair_graph_flat pair_graph_facts(2,3)] run
  show ?thesis by auto
qed

theorem merge_forgets_locks_witness:
  "\<exists>g'. merge_person_pair (\<lambda>_. ''2024'') 5 ''m1'' ''p1'' ''p2'' ''d1'' ''r'' pair_graph = Inr g'
     \<and> CHECK_NO_MATCH_LOCK pair_graph 7 ''p1'' ''p4'' \<and> \<not> CHECK_NO_MATCH_LOCK g' 7 ''p2'' ''p4''"
proof (rule pair_graph_merge)
  fix g' assume run: "merge_person_pair (\<lambda>_. ''2024'') 5 ''m1'' ''p1'' ''p2'' ''d1'' ''r'' pair_graph = Inr g'"
  from merge_forgets_locks [OF run pair_graph_facts(1) _ pair_graph_facts(4,5)] run pair_graph_facts(4)
  show ?thesis by auto
qed

theorem survivor_choice_witness:
  "select_survivor
     \<lparr>pa_person_id = ''p1'', pa_status = ''active'', pa_profile_completeness_score = 0, pa_created_at = ''2024''\<rparr>
     \<lparr>pa_person_id = ''p2'', pa_status = ''active'', pa_profile_completeness_score = 0, pa_created_at = ''2024''\<rparr>
   = select_survivor
     \<lparr>pa_person_id = ''p2'', pa_status = ''active'', pa_profile_completeness_score = 0, pa_created_at = ''2024''\<rparr>
     \<lparr>pa_person_id = ''p1'', pa_status = ''active'', pa_profile_completeness_score = 0, pa_created_at = ''2024''\<rparr>"
  by (rule survivor_choice [THEN conjunct1]) simp

text \<open>A merge can lose an active identifier: when the survivor has a retired relationship to the
  identifier from the same source record, the absorbed person's active one is folded into it and
  the survivor does not hold the identifier afterwards.\<close>

theorem merge_drops_active_identifier:
  "let g = \<lparr>g_nodes = [(PersonN ''p1'', [(''status'', JStr ''active'')]),
                       (PersonN ''p2'', [(''status'', JStr ''active'')]),
                       (IdentifierN ''phone'' ''global'' ''+6581234567'', []), (MergeEventN ''m1'', [])],
            g_edges = [\<lparr>e_type = IDENTIFIED_BY, e_src = PersonN ''p1'',
                        e_dst = IdentifierN ''phone'' ''global'' ''+6581234567'',
                        e_props = [(''source_record_pk'', JStr ''r1''), (''source_system_key'', JStr ''crm''),
                                   (''is_active'', JBool True)]\<rparr>,
                       \<lparr>e_type = IDENTIFIED_BY, e_src = PersonN ''p2'',
                        e_dst = IdentifierN ''phone'' ''global'' ''+6581234567'',
                        e_props = [(''source_record_pk'', JStr ''r1''), (''source_system_key'', JStr ''crm''),
                                   (''is_active'', JBool False)]\<rparr>]\<rparr>
   in PERSON_HAS_IDENTIFIER g ''p1'' ''phone'' ''+6581234567''
      \<and> (case rewire_relationships 5 ''p1'' ''p2'' ''m1'' g of
           Inl e \<Rightarrow> False
         | Inr g' \<Rightarrow> \<not> PERSON_HAS_IDENTIFIER g' ''p1'' ''phone'' ''+6581234567''
                    \<and> \<not> PERSON_HAS_IDENTIFIER g' ''p2'' ''phone'' ''+6581234567'')"
  by code_simp

end
