(* ===== verification/JsonText.thy ===== *)
theory JsonText
  imports Domain
begin

text \<open>
  The text of JSON values: \<open>repr\<close> of a float, which is the shortest decimal that rounds to it, and
  \<open>json.dumps\<close> with its default separators and ASCII escapes. Characters are those of Latin-1.
\<close>

section \<open>The shortest decimal of a float\<close>

text \<open>The decimal exponent of a positive number: \<open>10 powi k \<le> x < 10 powi (k + 1)\<close>.\<close>

definition ilog10 :: "rat \<Rightarrow> int" where
  "ilog10 x = (if 1 \<le> x then int (length (show_nat (nat \<lfloor>x\<rfloor>))) - 1
               else - int (length (show_nat (nat (\<lceil>1 / x\<rceil> - 1)))))"

text \<open>The digits of \<open>x\<close> at decimal position \<open>e\<close> that round back to \<open>x\<close>, the nearest first.\<close>

definition digits_at :: "f64 \<Rightarrow> int \<Rightarrow> nat option" where
  "digits_at x e =
     (let q = x / 10 powi e
      in map_option nat (first_where (\<lambda>c. fl (of_int c * 10 powi e) = x) [rhe q, \<lfloor>q\<rfloor>, \<lceil>q\<rceil>]))"

fun shortest_from :: "f64 \<Rightarrow> int \<Rightarrow> nat \<Rightarrow> nat \<times> int" where
  "shortest_from x e 0 = (case digits_at x e of Some d \<Rightarrow> (d, e) | None \<Rightarrow> (nat \<lfloor>x / 10 powi e\<rfloor>, e))"
| "shortest_from x e (Suc n) = (case digits_at x e of Some d \<Rightarrow> (d, e) | None \<Rightarrow> shortest_from x (e - 1) n)"

text \<open>Seventeen digits always suffice; the digits and the exponent of the leading one.\<close>

definition shortest :: "f64 \<Rightarrow> string \<times> int" where
  "shortest x = (let (d, e) = shortest_from x (ilog10 x) 16;
                     s = show_nat d
                 in (rev (dropWhile (\<lambda>c. c = CHR ''0'') (rev s)), e + int (length s) - 1))"

definition exponent_text :: "int \<Rightarrow> string" where
  "exponent_text k = (if k < 0 then ''-'' else ''+'')
     @ (if \<bar>k\<bar> < 10 then ''0'' else []) @ show_nat (nat \<bar>k\<bar>)"

definition zeros :: "int \<Rightarrow> string" where
  "zeros n = replicate (nat n) (CHR ''0'')"

definition positive_repr :: "f64 \<Rightarrow> string" where
  "positive_repr x =
     (let (s, k) = shortest x; n = int (length s)
      in if k < -4 \<or> 16 \<le> k
         then take 1 s @ (if 1 < n then ''.'' @ drop 1 s else []) @ ''e'' @ exponent_text k
         else if k < 0 then ''0.'' @ zeros (- k - 1) @ s
         else if n \<le> k + 1 then s @ zeros (k + 1 - n) @ ''.0''
         else take (nat (k + 1)) s @ ''.'' @ drop (nat (k + 1)) s)"

definition float_repr :: "f64 \<Rightarrow> string" where
  "float_repr x = (if x = 0 then ''0.0'' else if x < 0 then ''-'' @ positive_repr (- x) else positive_repr x)"

section \<open>\<open>json.dumps\<close>\<close>

definition hex_digit :: "nat \<Rightarrow> char" where
  "hex_digit n = char_of (if n < 10 then 48 + n else 87 + n)"

definition escape_char :: "char \<Rightarrow> string" where
  "escape_char c =
     (let n = of_char c :: nat; bs = CHR 0x5C
      in if c = CHR 0x22 \<or> c = bs then [bs, c]
         else if n = 10 then bs # ''n'' else if n = 13 then bs # ''r'' else if n = 9 then bs # ''t''
         else if n = 12 then bs # ''f'' else if n = 8 then bs # ''b''
         else if n < 32 \<or> 126 < n then bs # ''u00'' @ [hex_digit (n div 16), hex_digit (n mod 16)]
         else [c])"

definition json_string :: "string \<Rightarrow> string" where
  "json_string s = [CHR 0x22] @ concat (map escape_char s) @ [CHR 0x22]"

fun json_dumps :: "json \<Rightarrow> string" where
  "json_dumps JNull = ''null''"
| "json_dumps (JBool b) = (if b then ''true'' else ''false'')"
| "json_dumps (JInt i) = show_int i"
| "json_dumps (JFloat x) = float_repr x"
| "json_dumps (JStr s) = json_string s"
| "json_dumps (JList xs) = ''['' @ py_join '', '' (map json_dumps xs) @ '']''"
| "json_dumps (JObj d) =
     ''{'' @ py_join '', '' (map (\<lambda>(k, v). json_string k @ '': '' @ json_dumps v) d) @ ''}''"

text \<open>\<open>repr\<close> and \<open>str\<close> of the same values.\<close>

fun json_repr :: "json \<Rightarrow> string" where
  "json_repr JNull = ''None''"
| "json_repr (JBool b) = (if b then ''True'' else ''False'')"
| "json_repr (JInt i) = show_int i"
| "json_repr (JFloat x) = float_repr x"
| "json_repr (JStr s) = py_repr s"
| "json_repr (JList xs) = ''['' @ py_join '', '' (map json_repr xs) @ '']''"
| "json_repr (JObj d) =
     ''{'' @ py_join '', '' (map (\<lambda>(k, v). py_repr k @ '': '' @ json_repr v) d) @ ''}''"

lemma json_dumps_sample:
  "json_dumps (JObj [(''a'', JList [JInt 1, JBool True, JNull]), (''b'', JStr [CHR 0x22]), (''c'', JFloat 0)])
   = ''{'' @ json_string ''a'' @ '': [1, true, null], '' @ json_string ''b'' @ '': '' @ [CHR 0x22, CHR 0x5C, CHR 0x22, CHR 0x22]
     @ '', '' @ json_string ''c'' @ '': 0.0}''"
  by code_simp

end
