(* ===== verification/PersonPairs.thy ===== *)
theory PersonPairs
  imports PersonMerge Heuristic JsonText
begin

text \<open>
  The audit that runs after a record is linked (\<open>pipeline_person_pairs.py\<close>,
  \<open>graph/queries/person_pairs.py\<close>): every usable identifier of the record that connects several
  active persons proposes their pairs; a pair is merged, becomes a review case, or is left alone.
  The rows of the batched query are all read before the first pair is processed. \<open>uuid n\<close> is the
  n-th id that the database draws, and time is in microseconds.
\<close>

section \<open>Fan-out caps\<close>

definition DEFAULT_SOCIAL_FANOUT_CAP :: nat where "DEFAULT_SOCIAL_FANOUT_CAP = 25"

definition FANOUT_CAPS :: "(string \<times> nat) list" where
  "FANOUT_CAPS = [(''phone'', 50), (''email'', 100), (''nric'', 5), (''device_id'', 25),
     (''social:facebook'', DEFAULT_SOCIAL_FANOUT_CAP), (''social:google'', DEFAULT_SOCIAL_FANOUT_CAP),
     (''social:apple'', DEFAULT_SOCIAL_FANOUT_CAP)]"

definition fanout_cap_for :: "string \<Rightarrow> nat option" where
  "fanout_cap_for ty =
     (let cap = map_of FANOUT_CAPS ty
      in if cap = None \<and> starts_with ''social:'' ty then Some DEFAULT_SOCIAL_FANOUT_CAP else cap)"

section \<open>The statements\<close>

record identifier_input =
  ii_identifier_type :: string
  ii_identifier_scope :: string
  ii_normalized_value :: string

text \<open>The active holders of an identifier, for the fan-out and for the pairs.\<close>

definition active_holders :: "graph \<Rightarrow> identifier_input \<Rightarrow> (edge \<Rightarrow> bool) \<Rightarrow> string list" where
  "active_holders g input p =
     remdups [pid. rel \<leftarrow> g_edges g,
        e_type rel = IDENTIFIED_BY
        \<and> e_dst rel = IdentifierN (ii_identifier_type input) (ii_identifier_scope input)
                         (ii_normalized_value input)
        \<and> has_node g (e_dst rel) \<and> active_person g (e_src rel) \<and> rel_active rel \<and> p rel,
        pid \<leftarrow> person_ids_of (e_src rel)]"

record sharing_row =
  sr_ident :: normalized_identifier
  sr_fanout :: nat
  sr_person_ids :: "string list"

definition FIND_PERSONS_SHARING_IDENTIFIERS_BATCH ::
    "graph \<Rightarrow> (normalized_identifier \<times> identifier_input) list \<Rightarrow> sharing_row list" where
  "FIND_PERSONS_SHARING_IDENTIFIERS_BATCH g identifiers =
     [\<lparr>sr_ident = ident, sr_fanout = length (active_holders g input (\<lambda>rel. True)),
       sr_person_ids = active_holders g input quality_usable\<rparr>. (ident, input) \<leftarrow> identifiers]"

fun review_case_id_of :: "node \<Rightarrow> string option" where
  "review_case_id_of (ReviewCaseN i) = Some i"
| "review_case_id_of _ = None"

definition CHECK_OPEN_PERSON_PAIR_CASE :: "graph \<Rightarrow> string \<Rightarrow> string \<Rightarrow> string option" where
  "CHECK_OPEN_PERSON_PAIR_CASE g left right =
     (case [i. (rc, l, r) \<leftarrow> case_rows g, open_case g rc
              \<and> ((e_dst l = PersonN left \<and> e_dst r = PersonN right)
                 \<or> (e_dst l = PersonN right \<and> e_dst r = PersonN left)),
              i \<leftarrow> (case review_case_id_of rc of None \<Rightarrow> [] | Some i \<Rightarrow> [i])] of
        [] \<Rightarrow> None | i # _ \<Rightarrow> Some i)"

definition about :: "rel_type \<Rightarrow> node \<Rightarrow> string \<Rightarrow> edge" where
  "about t md p = \<lparr>e_type = t, e_src = md, e_dst = PersonN p, e_props = [(''entity_type'', JStr ''person'')]\<rparr>"

definition CREATE_PERSON_PAIR_REVIEW_CASE ::
    "int \<Rightarrow> string \<Rightarrow> string \<Rightarrow> string \<Rightarrow> string \<Rightarrow> int \<Rightarrow> int \<Rightarrow> string \<Rightarrow> string \<Rightarrow> f64 \<Rightarrow> string list \<Rightarrow> string
     \<Rightarrow> graph \<Rightarrow> graph \<times> string option" where
  "CREATE_PERSON_PAIR_REVIEW_CASE now md rc left right priority sla_due_at engine_version policy_version
      confidence reasons feature_snapshot g =
     (if has_node g (PersonN left) \<and> has_node g (PersonN right)
      then (create_edge \<lparr>e_type = FOR_DECISION, e_src = ReviewCaseN rc, e_dst = MatchDecisionN md, e_props = []\<rparr>
             (create_node (ReviewCaseN rc)
               [(''review_case_id'', JStr rc), (''priority'', JInt priority), (''queue_state'', JStr ''open''),
                (''assigned_to'', JNull), (''follow_up_at'', JNull), (''sla_due_at'', JInt sla_due_at),
                (''resolution'', JNull), (''resolved_at'', JNull), (''actions'', JList []),
                (''created_at'', JInt now), (''updated_at'', JInt now)]
               (create_edge (about ABOUT_RIGHT (MatchDecisionN md) right)
                 (create_edge (about ABOUT_LEFT (MatchDecisionN md) left)
                   (create_node (MatchDecisionN md)
                     [(''match_decision_id'', JStr md), (''engine_type'', JStr ''pair_audit''),
                      (''engine_version'', JStr engine_version), (''decision'', JStr ''review''),
                      (''confidence'', JFloat confidence), (''reasons'', JList (map JStr reasons)),
                      (''blocking_conflicts'', JList []), (''feature_snapshot'', JStr feature_snapshot),
                      (''policy_version'', JStr policy_version), (''created_at'', JInt now),
                      (''retention_expires_at'', JNull)] g)))), Some rc)
      else (g, None))"

definition CREATE_MATCH_DECISION ::
    "int \<Rightarrow> string \<Rightarrow> string \<Rightarrow> string \<Rightarrow> string \<Rightarrow> f64 \<Rightarrow> string list \<Rightarrow> string list \<Rightarrow> string list \<Rightarrow> string \<Rightarrow> string
     \<Rightarrow> graph \<Rightarrow> graph" where
  "CREATE_MATCH_DECISION now md engine_type engine_version decision confidence reasons blocking_conflicts
      review_candidate_person_ids feature_snapshot policy_version g =
     create_node (MatchDecisionN md)
       [(''match_decision_id'', JStr md), (''engine_type'', JStr engine_type),
        (''engine_version'', JStr engine_version), (''decision'', JStr decision),
        (''confidence'', JFloat confidence), (''reasons'', JList (map JStr reasons)),
        (''blocking_conflicts'', JList (map JStr blocking_conflicts)),
        (''review_candidate_person_ids'', JList (map JStr review_candidate_person_ids)),
        (''feature_snapshot'', JStr feature_snapshot), (''policy_version'', JStr policy_version),
        (''created_at'', JInt now), (''retention_expires_at'', JNull)] g"

definition LINK_MATCH_DECISION_LEFT_PERSON :: "string \<Rightarrow> string \<Rightarrow> graph \<Rightarrow> graph" where
  "LINK_MATCH_DECISION_LEFT_PERSON md p g =
     (if has_node g (MatchDecisionN md) \<and> has_node g (PersonN p)
      then create_edge (about ABOUT_LEFT (MatchDecisionN md) p) g else g)"

definition LINK_MATCH_DECISION_RIGHT_PERSON :: "string \<Rightarrow> string \<Rightarrow> graph \<Rightarrow> graph" where
  "LINK_MATCH_DECISION_RIGHT_PERSON md p g =
     (if has_node g (MatchDecisionN md) \<and> has_node g (PersonN p)
      then create_edge (about ABOUT_RIGHT (MatchDecisionN md) p) g else g)"

section \<open>One pair\<close>

definition ENGINE_VERSION :: string where "ENGINE_VERSION = ''v0.1.0''"
definition POLICY_VERSION :: string where "POLICY_VERSION = ''v0.1.0''"
definition PRIORITY :: int where "PRIORITY = 100"
definition SLA_DAYS :: int where "SLA_DAYS = 7"
definition DAY :: int where "DAY = 86400 * 10 ^ 6"

text \<open>The outcome of a pair with its \<open>kind\<close> and \<open>id\<close>.\<close>

datatype pair_outcome = ReviewOpened string | PairMerged string

record audit_state =
  au_graph :: graph
  au_drawn :: nat

definition pair_snapshot ::
    "normalized_identifier \<Rightarrow> match_result \<Rightarrow> record_type \<Rightarrow> json_obj" where
  "pair_snapshot ident score rt =
     (let (auto_merge, review) = thresholds_for rt
      in dict_of [] ([(''bridging_identifier_type'', JStr (ni_identifier_type ident)),
                      (''bridging_identifier_value'', JStr (ni_normalized_value ident)),
                      (''heuristic_band'', JStr (decision_value (mr_decision score)))]
           @ mr_feature_snapshot score
           @ [(''threshold_policy'', JStr (if rt = RELATIONSHIP then ''relationship'' else ''default'')),
              (''auto_merge_threshold'', JFloat auto_merge), (''review_threshold'', JFloat review)]))"

definition pair_reasons :: "normalized_identifier \<Rightarrow> string \<Rightarrow> string \<Rightarrow> match_result \<Rightarrow> string list" where
  "pair_reasons ident left right score =
     (''Shared '' @ ni_identifier_type ident @ '' links 2 active persons ('' @ left @ '', '' @ right @ '')'')
       # mr_reasons score"

definition auto_merge_pair ::
    "(int \<Rightarrow> string) \<Rightarrow> (nat \<Rightarrow> string) \<Rightarrow> int \<Rightarrow> string \<Rightarrow> string \<Rightarrow> pair_person_attrs \<Rightarrow> pair_person_attrs \<Rightarrow> f64
     \<Rightarrow> string list \<Rightarrow> string \<Rightarrow> audit_state \<Rightarrow> (pair_outcome \<times> audit_state) result" where
  "auto_merge_pair isof uuid now left right left_attrs right_attrs confidence reasons feature_snapshot st =
     (let md = uuid (au_drawn st);
          me = uuid (Suc (au_drawn st));
          g = LINK_MATCH_DECISION_RIGHT_PERSON md right (LINK_MATCH_DECISION_LEFT_PERSON md left
                (CREATE_MATCH_DECISION now md ''pair_audit'' ENGINE_VERSION ''merge'' confidence reasons []
                   [left, right] feature_snapshot POLICY_VERSION (au_graph st)));
          (survivor, absorbed) = select_survivor left_attrs right_attrs
      in try_bind (merge_person_pair isof now me absorbed survivor md (py_join ''; '' reasons) g) (\<lambda>g.
           ok (PairMerged me, \<lparr>au_graph = g, au_drawn = au_drawn st + 2\<rparr>)))"

definition open_review_case ::
    "(nat \<Rightarrow> string) \<Rightarrow> int \<Rightarrow> string \<Rightarrow> string \<Rightarrow> f64 \<Rightarrow> string list \<Rightarrow> string \<Rightarrow> audit_state
     \<Rightarrow> pair_outcome option \<times> audit_state" where
  "open_review_case uuid now left right confidence reasons feature_snapshot st =
     (case CREATE_PERSON_PAIR_REVIEW_CASE now (uuid (au_drawn st)) (uuid (Suc (au_drawn st))) left right PRIORITY
             (now + SLA_DAYS * DAY) ENGINE_VERSION POLICY_VERSION confidence reasons feature_snapshot (au_graph st) of
        (g, None) \<Rightarrow> (None, st)
      | (g, Some rc) \<Rightarrow> (Some (ReviewOpened rc), \<lparr>au_graph = g, au_drawn = au_drawn st + 2\<rparr>))"

definition process_pair ::
    "'n third_party \<Rightarrow> (int \<Rightarrow> string) \<Rightarrow> (nat \<Rightarrow> string) \<Rightarrow> int \<Rightarrow> string \<Rightarrow> string \<Rightarrow> normalized_identifier
     \<Rightarrow> record_type \<Rightarrow> audit_state \<Rightarrow> (pair_outcome option \<times> audit_state) result" where
  "process_pair tp isof uuid now left right ident rt st =
     (let g = au_graph st
      in if CHECK_NO_MATCH_LOCK g now left right then ok (None, st)
         else if CHECK_OPEN_PERSON_PAIR_CASE g left right \<noteq> None then ok (None, st)
         else case fetch_pair_attrs isof g left right of
           None \<Rightarrow> ok (None, st)
         | Some (left_attrs, right_attrs) \<Rightarrow>
             if pa_status left_attrs \<noteq> ''active'' \<or> pa_status right_attrs \<noteq> ''active'' then ok (None, st)
             else try_bind (score_person_pair tp g left right) (\<lambda>score.
               let feature_snapshot = json_dumps (JObj (pair_snapshot ident score rt));
                   reasons = pair_reasons ident left right score;
                   decision = classify_confidence (mr_confidence score) rt
                                (has_hard_conflict (mr_feature_snapshot score))
               in case decision of
                    MERGE \<Rightarrow> try_bind (auto_merge_pair isof uuid now left right left_attrs right_attrs
                               (mr_confidence score) reasons feature_snapshot st) (\<lambda>(out, st). ok (Some out, st))
                  | NO_MATCH \<Rightarrow> ok (None, st)
                  | REVIEW \<Rightarrow> ok (open_review_case uuid now left right (mr_confidence score) reasons
                               feature_snapshot st)))"

section \<open>The audit\<close>

text \<open>The nested index loops over a sorted list: the pairs in lexicographic order of the indices.\<close>

fun index_pairs :: "'a list \<Rightarrow> ('a \<times> 'a) list" where
  "index_pairs [] = []"
| "index_pairs (x # xs) = map (\<lambda>y. (x, y)) xs @ index_pairs xs"

record audit_run = audit_state +
  ar_seen :: "(string \<times> string) list"
  ar_created :: "string list"
  ar_merged :: "string list"

definition audit_pair ::
    "'n third_party \<Rightarrow> (int \<Rightarrow> string) \<Rightarrow> (nat \<Rightarrow> string) \<Rightarrow> int \<Rightarrow> record_type \<Rightarrow> normalized_identifier
     \<Rightarrow> string \<times> string \<Rightarrow> audit_run \<Rightarrow> audit_run result" where
  "audit_pair tp isof uuid now rt ident pair run =
     (if pair \<in> set (ar_seen run) then ok run
      else try_bind (process_pair tp isof uuid now (fst pair) (snd pair) ident rt (audit_state.truncate run))
        (\<lambda>(out, st).
          let run = run\<lparr>ar_seen := ar_seen run @ [pair], au_graph := au_graph st, au_drawn := au_drawn st\<rparr>
          in ok (case out of
                   None \<Rightarrow> run
                 | Some (ReviewOpened i) \<Rightarrow> run\<lparr>ar_created := ar_created run @ [i]\<rparr>
                 | Some (PairMerged i) \<Rightarrow> run\<lparr>ar_merged := ar_merged run @ [i]\<rparr>)))"

definition audit_row ::
    "'n third_party \<Rightarrow> (int \<Rightarrow> string) \<Rightarrow> (nat \<Rightarrow> string) \<Rightarrow> int \<Rightarrow> record_type \<Rightarrow> sharing_row
     \<Rightarrow> audit_run \<Rightarrow> audit_run result" where
  "audit_row tp isof uuid now rt row run =
     (case fanout_cap_for (ni_identifier_type (sr_ident row)) of
        Some cap \<Rightarrow>
          if cap < sr_fanout row then ok run
          else fold_result (audit_pair tp isof uuid now rt (sr_ident row))
                 (index_pairs (sorted_set (sr_person_ids row))) run
      | None \<Rightarrow> fold_result (audit_pair tp isof uuid now rt (sr_ident row))
                 (index_pairs (sorted_set (sr_person_ids row))) run)"

definition identifier_rows ::
    "normalized_identifier list \<Rightarrow> (normalized_identifier \<times> identifier_input) list result" where
  "identifier_rows identifiers =
     map_result (\<lambda>ident.
       try_bind (identifier_scope (ni_identifier_type ident) (ni_source_instance_id ident)) (\<lambda>scope.
         ok (ident, \<lparr>ii_identifier_type = ni_identifier_type ident, ii_identifier_scope = scope,
                     ii_normalized_value = ni_normalized_value ident\<rparr>)))
       [i \<leftarrow> identifiers. is_usable (ni_quality_flag i)]"

definition audit_person_pairs ::
    "'n third_party \<Rightarrow> (int \<Rightarrow> string) \<Rightarrow> (nat \<Rightarrow> string) \<Rightarrow> int \<Rightarrow> normalized_identifier list \<Rightarrow> record_type
     \<Rightarrow> audit_state \<Rightarrow> audit_run result" where
  "audit_person_pairs tp isof uuid now identifiers rt st =
     (let start = \<lparr>au_graph = au_graph st, au_drawn = au_drawn st, ar_seen = [], ar_created = [], ar_merged = []\<rparr>
      in try_bind (identifier_rows identifiers) (\<lambda>rows.
           if rows = [] then ok start
           else fold_result (audit_row tp isof uuid now rt)
                  (FIND_PERSONS_SHARING_IDENTIFIERS_BATCH (au_graph st) rows) start))"

section \<open>What the writes of a pair keep\<close>

text \<open>The statements around a merge: they add decisions and cases, and nothing about persons.\<close>

definition adds_decisions :: "graph \<Rightarrow> graph \<Rightarrow> bool" where
  "adds_decisions g g' =
     ((\<forall>t. t \<notin> WRITTEN \<union> {FOR_DECISION} \<longrightarrow> typed_edges g' t = typed_edges g t)
      \<and> (\<forall>p k. node_prop g' (PersonN p) k = node_prop g (PersonN p) k)
      \<and> (\<forall>p. has_node g' (PersonN p) = has_node g (PersonN p)))"

lemma adds_decisions_refl [simp]: "adds_decisions g g"
  by (simp add: adds_decisions_def)

lemma adds_decisions_trans [trans]: "adds_decisions g h \<Longrightarrow> adds_decisions h k \<Longrightarrow> adds_decisions g k"
  by (simp add: adds_decisions_def)

lemma adds_decisions_edge: "e_type e \<in> WRITTEN \<union> {FOR_DECISION} \<Longrightarrow> adds_decisions g (create_edge e g)"
  by (auto simp: adds_decisions_def create_edge_def node_prop_def has_node_def typed_edges_def)

lemma adds_decisions_node: "\<not> is_person n \<Longrightarrow> adds_decisions g (create_node n props g)"
  by (cases n) (simp_all add: adds_decisions_def node_prop_create_other)

lemma about_simps [simp]:
  "e_type (about t md p) = t" "e_src (about t md p) = md" "e_dst (about t md p) = PersonN p"
  "about_person (about t md p)"
  by (simp_all add: about_def about_person_def edge_prop_def json_get_def)

lemma adds_decisions_steps:
  "adds_decisions g (CREATE_MATCH_DECISION now md a b c d e f h i j g)"
  "adds_decisions g (LINK_MATCH_DECISION_LEFT_PERSON md p g)"
  "adds_decisions g (LINK_MATCH_DECISION_RIGHT_PERSON md p g)"
  by (simp_all add: CREATE_MATCH_DECISION_def LINK_MATCH_DECISION_LEFT_PERSON_def
      LINK_MATCH_DECISION_RIGHT_PERSON_def adds_decisions_node adds_decisions_edge WRITTEN_def)

lemma adds_decisions_case:
  "adds_decisions g (fst (CREATE_PERSON_PAIR_REVIEW_CASE now md rc l r pr sla ev pv c rs f g))"
  unfolding CREATE_PERSON_PAIR_REVIEW_CASE_def
  by (auto intro!: adds_decisions_trans [OF _ adds_decisions_edge] adds_decisions_trans [OF _ adds_decisions_node]
      simp: WRITTEN_def)

lemma adds_decisions_keeps:
  assumes "adds_decisions g g'"
  shows "well_typed g \<Longrightarrow> well_typed g'"
    and "well_typed g \<Longrightarrow> flat_lineage g \<Longrightarrow> flat_lineage g'"
    and "CHECK_NO_MATCH_LOCK g' later p q = CHECK_NO_MATCH_LOCK g later p q"
    and "active_person g' (PersonN p) = active_person g (PersonN p)"
proof -
  have same: "links g' t = links g t" if "t \<notin> WRITTEN \<union> {FOR_DECISION}" for t
    by (rule links_typed_edges) (use assms that in \<open>simp add: adds_decisions_def\<close>)
  show "well_typed g'" if "well_typed g"
    unfolding well_typed_iff
  proof (intro allI ballI)
    fix t q assume q: "q \<in> links g' t"
    show "schema t q"
    proof (cases "t \<in> WRITTEN \<union> {FOR_DECISION}")
      case True
      then show ?thesis using schema_WRITTEN [of t q] by auto
    next
      case False
      from q same [OF False] that show ?thesis by (auto simp: well_typed_iff)
    qed
  qed
  have kept: "node_prop g' n k = node_prop g n k" if "is_person n" for n k
    using assms that by (cases n) (simp_all add: adds_decisions_def)
  show "flat_lineage g'" if typed: "well_typed g" and flat: "flat_lineage g"
  proof -
    have l: "links g' MERGED_INTO = links g MERGED_INTO" by (rule same) (simp add: WRITTEN_def)
    have persons: "is_person p" "is_person q" if "(p, q) \<in> links g MERGED_INTO" for p q
      using typed that unfolding well_typed_iff by fastforce+
    show ?thesis using flat persons unfolding flat_lineage_def l by (simp add: kept)
  qed
  show "active_person g' (PersonN p) = active_person g (PersonN p)"
    by (simp add: active_person_def kept)
  have "typed_edges g' NO_MATCH_LOCK = typed_edges g NO_MATCH_LOCK"
    using assms by (simp add: adds_decisions_def WRITTEN_def)
  moreover have "has_node g' (PersonN p) = has_node g (PersonN p)" for p
    using assms by (simp add: adds_decisions_def)
  ultimately show "CHECK_NO_MATCH_LOCK g' later p q = CHECK_NO_MATCH_LOCK g later p q"
    by (simp add: CHECK_NO_MATCH_LOCK_def locked_pair_typed)
qed

section \<open>Processing a pair\<close>

lemma open_review_case_created:
  assumes "has_node (au_graph st) (PersonN left)" and "has_node (au_graph st) (PersonN right)"
  shows "open_review_case uuid now left right c reasons f st =
    (Some (ReviewOpened (uuid (Suc (au_drawn st)))),
     \<lparr>au_graph = fst (CREATE_PERSON_PAIR_REVIEW_CASE now (uuid (au_drawn st)) (uuid (Suc (au_drawn st))) left right
         PRIORITY (now + SLA_DAYS * DAY) ENGINE_VERSION POLICY_VERSION c reasons f (au_graph st)),
      au_drawn = au_drawn st + 2\<rparr>)"
  using assms by (simp add: open_review_case_def CREATE_PERSON_PAIR_REVIEW_CASE_def)

lemma fetched_ids:
  assumes "fetch_pair_attrs isof g left right = Some (l, r)"
  shows "pa_person_id l = left" "pa_person_id r = right"
    "node_prop g (PersonN left) ''status'' = JStr (pa_status l)"
    "node_prop g (PersonN right) ''status'' = JStr (pa_status r)"
proof -
  have json_str: "json_str v = Some w \<longleftrightarrow> v = JStr w" for v w by (cases v) auto
  show "pa_person_id l = left" "pa_person_id r = right" "node_prop g (PersonN left) ''status'' = JStr (pa_status l)"
    "node_prop g (PersonN right) ''status'' = JStr (pa_status r)"
    using assms by (auto simp: fetch_pair_attrs_def pair_attrs_of_def json_str split: if_splits option.splits)
qed

lemma process_pair_cases:
  assumes "process_pair tp isof uuid now left right ident rt st = Inr (out, st')"
  obtains (left_alone) "out = None" "st' = st"
  | (opened) score reasons f where
      "\<not> CHECK_NO_MATCH_LOCK (au_graph st) now left right" "CHECK_OPEN_PERSON_PAIR_CASE (au_graph st) left right = None"
      "has_node (au_graph st) (PersonN left)" "has_node (au_graph st) (PersonN right)"
      "out = Some (ReviewOpened (uuid (Suc (au_drawn st))))"
      "au_graph st' = fst (CREATE_PERSON_PAIR_REVIEW_CASE now (uuid (au_drawn st)) (uuid (Suc (au_drawn st))) left right
         PRIORITY (now + SLA_DAYS * DAY) ENGINE_VERSION POLICY_VERSION (mr_confidence score) reasons f (au_graph st))"
      "score_person_pair tp (au_graph st) left right = Inr score"
      "classify_confidence (mr_confidence score) rt (has_hard_conflict (mr_feature_snapshot score)) = REVIEW"
      "active_person (au_graph st) (PersonN left)" "active_person (au_graph st) (PersonN right)"
  | (merged) l r score f where
      "\<not> CHECK_NO_MATCH_LOCK (au_graph st) now left right" "CHECK_OPEN_PERSON_PAIR_CASE (au_graph st) left right = None"
      "fetch_pair_attrs isof (au_graph st) left right = Some (l, r)" "pa_status l = ''active''" "pa_status r = ''active''"
      "score_person_pair tp (au_graph st) left right = Inr score"
      "classify_confidence (mr_confidence score) rt (has_hard_conflict (mr_feature_snapshot score)) = MERGE"
      "auto_merge_pair isof uuid now left right l r (mr_confidence score)
         (pair_reasons ident left right score) f st = Inr (the out, st')" "out \<noteq> None"
proof -
  let ?g = "au_graph st"
  show ?thesis
  proof (cases "CHECK_NO_MATCH_LOCK ?g now left right \<or> CHECK_OPEN_PERSON_PAIR_CASE ?g left right \<noteq> None
      \<or> fetch_pair_attrs isof ?g left right = None")
    case True
    then have "process_pair tp isof uuid now left right ident rt st = Inr (None, st)"
      unfolding process_pair_def Let_def by (elim disjE) (auto split: if_split)
    with assms left_alone show ?thesis by simp
  next
    case False
    then obtain l r where free: "\<not> CHECK_NO_MATCH_LOCK ?g now left right" "CHECK_OPEN_PERSON_PAIR_CASE ?g left right = None"
      "fetch_pair_attrs isof ?g left right = Some (l, r)" by auto
    note eq = assms [unfolded process_pair_def Let_def, simplified free, simplified]
    show ?thesis
    proof (cases "pa_status l = ''active'' \<and> pa_status r = ''active''")
      case False
      with eq left_alone show ?thesis by auto
    next
      case True
      with eq obtain score where score: "score_person_pair tp ?g left right = Inr score"
        by (cases "score_person_pair tp ?g left right") simp_all
      note step = eq [simplified True score, simplified]
      show ?thesis
      proof (cases "classify_confidence (mr_confidence score) rt (has_hard_conflict (mr_feature_snapshot score))")
        case MERGE
        with step merged [OF free conjunct1 [OF True] conjunct2 [OF True] score MERGE] show ?thesis
          by (auto simp: try_bind_Inr_iff)
      next
        case REVIEW
        have nodes: "has_node ?g (PersonN left)" "has_node ?g (PersonN right)"
          using free(3) by (auto simp: fetch_pair_attrs_def split: if_splits)
        from step REVIEW have "out = Some (ReviewOpened (uuid (Suc (au_drawn st))))"
          by (simp add: open_review_case_created [OF nodes])
        moreover from step REVIEW have "au_graph st' = fst (CREATE_PERSON_PAIR_REVIEW_CASE now
            (uuid (au_drawn st)) (uuid (Suc (au_drawn st))) left right PRIORITY (now + SLA_DAYS * DAY) ENGINE_VERSION
            POLICY_VERSION (mr_confidence score) (pair_reasons ident left right score)
            (json_dumps (JObj (pair_snapshot ident score rt))) ?g)"
          by (auto simp: open_review_case_created [OF nodes] simp del: json_dumps.simps)
        moreover have "active_person ?g (PersonN left)" "active_person ?g (PersonN right)"
          using fetched_ids(3,4) [OF free(3)] True by (simp_all add: active_person_def)
        ultimately show ?thesis using opened [OF free(1,2) nodes _ _ score REVIEW] by blast
      next
        case NO_MATCH
        with step left_alone show ?thesis by simp
      qed
    qed
  qed
qed

lemma auto_merge_pair_cases:
  assumes "auto_merge_pair isof uuid now left right l r c reasons f st = Inr (out, st')"
    and "fetch_pair_attrs isof (au_graph st) left right = Some (l, r)" and "left \<noteq> right"
  obtains h absorbed survivor where "adds_decisions (au_graph st) h" "{absorbed, survivor} = {left, right}"
    "absorbed \<noteq> survivor"
    "merge_person_pair isof now (uuid (Suc (au_drawn st))) absorbed survivor (uuid (au_drawn st))
       (py_join ''; '' reasons) h = Inr (au_graph st')"
    "out = PairMerged (uuid (Suc (au_drawn st)))"
proof -
  let ?md = "uuid (au_drawn st)"
  let ?h = "LINK_MATCH_DECISION_RIGHT_PERSON ?md right (LINK_MATCH_DECISION_LEFT_PERSON ?md left
      (CREATE_MATCH_DECISION now ?md ''pair_audit'' ENGINE_VERSION ''merge'' c reasons [] [left, right] f
         POLICY_VERSION (au_graph st)))"
  have added: "adds_decisions (au_graph st) ?h"
    by (intro adds_decisions_trans [OF _ adds_decisions_steps(3)] adds_decisions_trans [OF _ adds_decisions_steps(2)]
        adds_decisions_steps(1))
  obtain survivor absorbed where sel: "select_survivor l r = (survivor, absorbed)" by fastforce
  have "{absorbed, survivor} = {left, right}" "absorbed \<noteq> survivor"
    using sel fetched_ids(1,2) [OF assms(2)] assms(3) by (auto simp: select_survivor_def Let_def split: if_splits)
  with added assms(1) sel that show ?thesis by (auto simp: auto_merge_pair_def Let_def try_bind_Inr_iff)
qed

text \<open>What a pair does to the persons: at most one active person becomes merged.\<close>

definition persons_evolve :: "graph \<Rightarrow> graph \<Rightarrow> bool" where
  "persons_evolve g g' =
     ((\<forall>p. node_prop g' (PersonN p) ''status'' = node_prop g (PersonN p) ''status''
          \<or> (active_person g (PersonN p) \<and> node_prop g' (PersonN p) ''status'' = JStr ''merged''))
      \<and> (\<forall>later p q. CHECK_NO_MATCH_LOCK g' later p q = CHECK_NO_MATCH_LOCK g later p q))"

definition sound_lineage :: "graph \<Rightarrow> bool" where
  "sound_lineage g = (well_typed g \<and> flat_lineage g)"

lemma persons_evolve_refl [simp]: "persons_evolve g g"
  by (simp add: persons_evolve_def)

lemma persons_evolve_trans:
  assumes "persons_evolve g h" and "persons_evolve h k"
  shows "persons_evolve g k"
proof -
  have "node_prop k (PersonN p) ''status'' = node_prop g (PersonN p) ''status''
      \<or> (active_person g (PersonN p) \<and> node_prop k (PersonN p) ''status'' = JStr ''merged'')" for p
    using assms [unfolded persons_evolve_def, THEN conjunct1, rule_format, of p]
    by (elim disjE conjE) (simp_all add: active_person_def)
  with assms show ?thesis by (simp add: persons_evolve_def)
qed

lemma adds_decisions_evolve: "adds_decisions g g' \<Longrightarrow> persons_evolve g g'"
  using adds_decisions_keeps(3) by (simp add: persons_evolve_def adds_decisions_def)

lemma adds_decisions_sound: "adds_decisions g g' \<Longrightarrow> sound_lineage g \<Longrightarrow> sound_lineage g'"
  using adds_decisions_keeps by (simp add: sound_lineage_def)

lemma process_pair_effect:
  assumes run: "process_pair tp isof uuid now left right ident rt st = Inr (out, st')" and "left \<noteq> right"
    and sound: "sound_lineage (au_graph st)"
  shows "sound_lineage (au_graph st') \<and> persons_evolve (au_graph st) (au_graph st')"
  using run
proof (cases rule: process_pair_cases)
  case left_alone
  with sound show ?thesis by simp
next
  case opened
  then have "adds_decisions (au_graph st) (au_graph st')" using adds_decisions_case by simp
  with adds_decisions_sound adds_decisions_evolve sound show ?thesis by blast
next
  case (merged l r score f)
  from auto_merge_pair_cases [OF merged(8) merged(3) \<open>left \<noteq> right\<close>] obtain h a s where
    h: "adds_decisions (au_graph st) h" and ends: "{a, s} = {left, right}" "a \<noteq> s" and
    merge: "merge_person_pair isof now (uuid (Suc (au_drawn st))) a s (uuid (au_drawn st)) (py_join ''; ''
      (pair_reasons ident left right score)) h = Inr (au_graph st')" by metis
  have act: "active_person h (PersonN a)" "active_person h (PersonN s)"
    using ends fetched_ids [OF merged(3)] merged(4,5) adds_decisions_keeps(4) [OF h]
    by (auto simp: active_person_def doubleton_eq_iff)
  from adds_decisions_sound [OF h sound] have h_sound: "well_typed h" "flat_lineage h" by (simp_all add: sound_lineage_def)
  have "sound_lineage (au_graph st')"
    using flat_lineage_merge [OF merge h_sound(1) ends(2) h_sound(2) act] well_typed_merge [OF merge h_sound(1) ends(2)]
    by (simp add: sound_lineage_def)
  moreover have "persons_evolve h (au_graph st')"
    using merge_effect(3) [OF merge h_sound(1) ends(2)] act(1) merge_keeps_locks [OF merge h_sound(1) ends(2)]
    by (simp add: persons_evolve_def)
  ultimately show ?thesis using adds_decisions_evolve [OF h] persons_evolve_trans by blast
qed

lemma set_case_rows:
  "(rc, l, r) \<in> set (case_rows g) \<longleftrightarrow>
   (\<exists>f \<in> set (g_edges g). e_type f = FOR_DECISION \<and> e_src f = rc \<and> l \<in> set (g_edges g) \<and> r \<in> set (g_edges g)
      \<and> e_type l = ABOUT_LEFT \<and> e_src l = e_dst f \<and> about_person l \<and> is_person (e_dst l)
      \<and> e_type r = ABOUT_RIGHT \<and> e_src r = e_dst f \<and> about_person r \<and> is_person (e_dst r))"
  by (auto simp: case_rows_def)

lemma open_pair_case_found:
  assumes "(ReviewCaseN i, l, r) \<in> set (case_rows g)" and "open_case g (ReviewCaseN i)"
    and "e_dst l = PersonN left" and "e_dst r = PersonN right"
  shows "CHECK_OPEN_PERSON_PAIR_CASE g left right \<noteq> None"
proof -
  let ?rows = "[i. (rc, l, r) \<leftarrow> case_rows g, open_case g rc
              \<and> ((e_dst l = PersonN left \<and> e_dst r = PersonN right)
                 \<or> (e_dst l = PersonN right \<and> e_dst r = PersonN left)),
              i \<leftarrow> (case review_case_id_of rc of None \<Rightarrow> [] | Some i \<Rightarrow> [i])]"
  have "i \<in> set ?rows" using assms by force
  then obtain x xs where "?rows = x # xs" by (cases ?rows) simp_all
  then show ?thesis by (simp only: CHECK_OPEN_PERSON_PAIR_CASE_def list.case option.distinct not_False_eq_True)
qed

lemma created_case_is_open:
  assumes "has_node g (PersonN left)" and "has_node g (PersonN right)" and "\<not> has_node g (ReviewCaseN rc)"
  shows "CHECK_OPEN_PERSON_PAIR_CASE
     (fst (CREATE_PERSON_PAIR_REVIEW_CASE now md rc left right pr sla ev pv c rs f g)) left right \<noteq> None"
    (is "CHECK_OPEN_PERSON_PAIR_CASE ?g left right \<noteq> None")
proof (rule open_pair_case_found)
  show "(ReviewCaseN rc, about ABOUT_LEFT (MatchDecisionN md) left, about ABOUT_RIGHT (MatchDecisionN md) right)
      \<in> set (case_rows ?g)"
    using assms(1,2) unfolding set_case_rows
    by (intro bexI [of _ "\<lparr>e_type = FOR_DECISION, e_src = ReviewCaseN rc, e_dst = MatchDecisionN md, e_props = []\<rparr>"])
       (simp_all add: CREATE_PERSON_PAIR_REVIEW_CASE_def create_edge_def create_node_def)
  have "node_prop ?g (ReviewCaseN rc) ''queue_state'' = JStr ''open''"
  proof -
    let ?h = "create_edge (about ABOUT_RIGHT (MatchDecisionN md) right)
                 (create_edge (about ABOUT_LEFT (MatchDecisionN md) left)
                   (create_node (MatchDecisionN md)
                     [(''match_decision_id'', JStr md), (''engine_type'', JStr ''pair_audit''),
                      (''engine_version'', JStr ev), (''decision'', JStr ''review''),
                      (''confidence'', JFloat c), (''reasons'', JList (map JStr rs)),
                      (''blocking_conflicts'', JList []), (''feature_snapshot'', JStr f),
                      (''policy_version'', JStr pv), (''created_at'', JInt now),
                      (''retention_expires_at'', JNull)] g))"
    have "\<not> has_node ?h (ReviewCaseN rc)"
      using assms(3) by (auto simp: create_edge_def has_node_def create_node_def)
    from node_prop_create_node [OF this] show ?thesis
      using assms(1,2) by (simp add: CREATE_PERSON_PAIR_REVIEW_CASE_def create_edge_def node_prop_def)
  qed
  then show "open_case ?g (ReviewCaseN rc)" by (simp add: open_case_def)
qed simp_all

lemma status_blocks_pair:
  assumes "\<not> active_person (au_graph st) (PersonN left) \<or> \<not> active_person (au_graph st) (PersonN right)"
  shows "process_pair tp isof uuid now left right ident rt st = Inr (None, st)"
proof (cases "fetch_pair_attrs isof (au_graph st) left right")
  case (Some lr)
  obtain l r where lr: "lr = (l, r)" by (cases lr)
  have "pa_status l \<noteq> ''active'' \<or> pa_status r \<noteq> ''active''"
    using fetched_ids(3,4) [OF Some [unfolded lr]] assms by (auto simp: active_person_def)
  with Some show ?thesis
    unfolding process_pair_def Let_def lr by (auto split: if_split)
qed (auto simp: process_pair_def Let_def)

lemma process_pair_settled:
  assumes run: "process_pair tp isof uuid now left right ident rt st = Inr (Some out, st')" and "left \<noteq> right"
    and sound: "sound_lineage (au_graph st)"
    and fresh: "\<not> has_node (au_graph st) (ReviewCaseN (uuid (Suc (au_drawn st))))"
  shows "process_pair tp isof uuid' now' left right ident' rt' st' = Inr (None, st')"
  using run
proof (cases rule: process_pair_cases)
  case (opened score reasons f)
  then have "CHECK_OPEN_PERSON_PAIR_CASE (au_graph st') left right \<noteq> None"
    using created_case_is_open [OF opened(3,4) fresh] by simp
  then show ?thesis unfolding process_pair_def Let_def by (auto split: if_split)
next
  case (merged l r score f)
  from auto_merge_pair_cases [OF merged(8) merged(3) \<open>left \<noteq> right\<close>] obtain h a s reason where
    h: "adds_decisions (au_graph st) h" and ends: "{a, s} = {left, right}" "a \<noteq> s" and
    merge: "merge_person_pair isof now (uuid (Suc (au_drawn st))) a s (uuid (au_drawn st)) reason h = Inr (au_graph st')"
    by metis
  have "well_typed h" using adds_decisions_sound [OF h sound] by (simp add: sound_lineage_def)
  from merge_effect(3) [OF merge this ends(2), of a] ends show ?thesis
    by (intro status_blocks_pair) (auto simp: active_person_def doubleton_eq_iff)
qed simp

section \<open>The audit as a whole\<close>

definition audit_sound :: "graph \<Rightarrow> audit_run \<Rightarrow> bool" where
  "audit_sound g run =
     (sound_lineage (au_graph run) \<and> persons_evolve g (au_graph run) \<and> distinct (ar_seen run)
      \<and> length (ar_created run) + length (ar_merged run) \<le> length (ar_seen run))"

lemma index_pairs_distinct: "distinct xs \<Longrightarrow> (x, y) \<in> set (index_pairs xs) \<Longrightarrow> x \<noteq> y"
  by (induction xs) auto

lemma audit_pair_sound:
  assumes "audit_pair tp isof uuid now rt ident pair run = Inr run'" and "fst pair \<noteq> snd pair"
    and "audit_sound g run"
  shows "audit_sound g run'"
proof (cases "pair \<in> set (ar_seen run)")
  case True
  with assms show ?thesis by (simp add: audit_pair_def)
next
  case False
  with assms(1) obtain out st where step:
      "process_pair tp isof uuid now (fst pair) (snd pair) ident rt (audit_state.truncate run) = Inr (out, st)"
    by (auto simp: audit_pair_def try_bind_Inr_iff)
  have trunc: "au_graph (audit_state.truncate run) = au_graph run" by (simp add: audit_state.truncate_def)
  have "sound_lineage (au_graph st) \<and> persons_evolve (au_graph run) (au_graph st)"
    using process_pair_effect [OF step assms(2)] assms(3) by (simp add: trunc audit_sound_def)
  moreover have "au_graph run' = au_graph st" "ar_seen run' = ar_seen run @ [pair]"
    "length (ar_created run') + length (ar_merged run') \<le> Suc (length (ar_created run) + length (ar_merged run))"
    using assms(1) False step by (auto simp: audit_pair_def Let_def split: option.splits pair_outcome.splits)
  ultimately show ?thesis
    using assms(3) False persons_evolve_trans unfolding audit_sound_def by auto
qed

lemma audit_row_sound:
  assumes "audit_row tp isof uuid now rt row run = Inr run'" and "audit_sound g run"
  shows "audit_sound g run'"
proof -
  have loop: "audit_sound g run'" if "fold_result (audit_pair tp isof uuid now rt (sr_ident row))
      (index_pairs (sorted_set (sr_person_ids row))) run = Inr run'"
    using that assms(2)
  proof (rule fold_result_invariant [rotated 1])
    fix pair a b assume "pair \<in> set (index_pairs (sorted_set (sr_person_ids row)))" "audit_sound g a"
      "audit_pair tp isof uuid now rt (sr_ident row) pair a = Inr b"
    then show "audit_sound g b"
      using audit_pair_sound index_pairs_distinct [of "sorted_set (sr_person_ids row)" "fst pair" "snd pair"] by simp
  qed
  with assms show ?thesis by (auto simp: audit_row_def split: option.splits if_splits)
qed

lemma audit_sound_run:
  assumes run: "audit_person_pairs tp isof uuid now identifiers rt st = Inr run" and "sound_lineage (au_graph st)"
  shows "audit_sound (au_graph st) run"
proof -
  let ?start = "\<lparr>au_graph = au_graph st, au_drawn = au_drawn st, ar_seen = [], ar_created = [], ar_merged = []\<rparr>"
  have start: "audit_sound (au_graph st) ?start" using assms(2) by (simp add: audit_sound_def)
  from run obtain rows where "rows = [] \<and> run = ?start \<or> fold_result (audit_row tp isof uuid now rt)
      (FIND_PERSONS_SHARING_IDENTIFIERS_BATCH (au_graph st) rows) ?start = Inr run"
    by (auto simp: audit_person_pairs_def Let_def try_bind_Inr_iff split: if_splits)
  then show ?thesis
  proof
    assume "fold_result (audit_row tp isof uuid now rt)
      (FIND_PERSONS_SHARING_IDENTIFIERS_BATCH (au_graph st) rows) ?start = Inr run"
    then show ?thesis by (rule fold_result_invariant [rotated 1]) (rule start, rule audit_row_sound)
  qed (use start in simp)
qed

section \<open>A concrete pair\<close>

definition shared_phone :: "string \<Rightarrow> edge" where
  "shared_phone p = \<lparr>e_type = IDENTIFIED_BY, e_src = PersonN p,
     e_dst = IdentifierN ''phone'' ''global'' ''+6591234567'',
     e_props = [(''quality_flag'', JStr ''valid''), (''source_record_pk'', JStr p), (''source_system_key'', JStr ''crm'')]\<rparr>"

definition shared_graph :: graph where
  "shared_graph = \<lparr>g_nodes =
       [(PersonN ''p1'', [(''status'', JStr ''active''), (''profile_completeness_score'', JFloat 0), (''created_at'', JInt 1)]),
        (PersonN ''p2'', [(''status'', JStr ''active''), (''profile_completeness_score'', JFloat 0), (''created_at'', JInt 2)]),
        (IdentifierN ''phone'' ''global'' ''+6591234567'', [])],
     g_edges = [shared_phone ''p1'', shared_phone ''p2'']\<rparr>"

definition phone_row :: ident_row where
  "phone_row = \<lparr>ir_identifier_type = ''phone'', ir_normalized_value = ''+6591234567'', ir_is_verified = False,
     ir_is_system_sourced = False\<rparr>"

lemmas shared_defs = shared_graph_def shared_phone_def edge_prop_def json_get_def node_prop_def has_node_def rel_active_def
  active_person_def out_edges_def

lemma shared_snapshots:
  "fetch_candidate_snapshot shared_graph ''p1'' = \<lparr>cs_idents = [phone_row], cs_facts = [], cs_addrs = []\<rparr>"
  "fetch_candidate_snapshot shared_graph ''p2'' = \<lparr>cs_idents = [phone_row], cs_facts = [], cs_addrs = []\<rparr>"
  by (simp_all add: fetch_candidate_snapshot_def FETCH_PERSON_MATCH_IDENTIFIERS_def match_ident_edges_def shared_defs
      phone_row_def system_sourced_edge_def FETCH_PERSON_MATCH_FACTS_def FETCH_PERSON_MATCH_ADDRESSES_def)

lemma shared_fanout: "CHECK_IDENTIFIER_FANOUT shared_graph ''phone'' GLOBAL_IDENTIFIER_SCOPE ''+6591234567'' = 2"
  by (simp add: CHECK_IDENTIFIER_FANOUT_def shared_defs GLOBAL_IDENTIFIER_SCOPE_def)

lemma shared_weights:
  "fadd (fadd 0 PHONE_UNVERIFIED_WEIGHT) 0 = DEFAULT_REVIEW"
  "fadd (fadd (fadd (fadd 0 (min DEFAULT_REVIEW IDENTIFIER_EVIDENCE_CAP)) 0) 0) 0 = DEFAULT_REVIEW"
  "\<not> IDENTIFIER_EVIDENCE_CAP < DEFAULT_REVIEW" "max 0 (min 1 DEFAULT_REVIEW) = DEFAULT_REVIEW"
  "classify_confidence DEFAULT_REVIEW IDENTITY c = REVIEW"
  by (simp_all add: PHONE_UNVERIFIED_WEIGHT_def fadd_def fl_eval threshold_values IDENTIFIER_EVIDENCE_CAP_def
      classify_confidence_def thresholds_for_def)

lemma shared_score:
  "\<exists>score. score_person_pair sample_tp shared_graph ''p1'' ''p2'' = Inr score \<and> mr_confidence score = DEFAULT_REVIEW"
proof -
  let ?snap = "\<lparr>cs_idents = [phone_row], cs_facts = [], cs_addrs = []\<rparr>"
  obtain st where st: "score_identifiers sample_tp shared_graph ?snap (snapshot_identifiers ?snap)
     \<lparr>sc_evidence = 0, sc_reasons = [], sc_signals = no_signals, sc_cache = Map.empty\<rparr> = Inr st"
    "sc_evidence st = fadd (fadd 0 PHONE_UNVERIFIED_WEIGHT) 0"
    by (simp add: score_identifiers_def score_identifier_def snapshot_identifiers_def phones_by_value_def phones_def
        phone_row_def mk_identifier_def score_phone_def scoring_defs Let_def phone_fanout_def shared_fanout
        PHONE_FANOUT_PENALTY_THRESHOLD_def score_approx_identifiers_def score_approx_def)
  show ?thesis
    unfolding score_person_pair_def Let_def shared_snapshots evaluate_heuristic_def evaluate_snapshot_def st(1)
    by (simp add: st(2) shared_weights cap_identifier_evidence_def scoring_defs score_dob_def dobs_def snapshot_attributes_def
        score_name_def incoming_names_def names_def score_name_band_def score_address_def promote_features band_result_simps
        snapshot_address_def Let_def)
qed

lemma shared_locks:
  "\<not> CHECK_NO_MATCH_LOCK shared_graph now ''p1'' ''p2''" "CHECK_OPEN_PERSON_PAIR_CASE shared_graph ''p1'' ''p2'' = None"
  by (simp_all add: CHECK_NO_MATCH_LOCK_def locked_pair_def CHECK_OPEN_PERSON_PAIR_CASE_def case_rows_def shared_defs)

lemma shared_sound: "sound_lineage shared_graph"
proof -
  have "links shared_graph MERGED_INTO = {}" by (auto simp: links_iff shared_defs)
  moreover have "well_typed shared_graph" by (simp add: well_typed_def shared_defs)
  ultimately show ?thesis by (simp add: sound_lineage_def flat_lineage_def)
qed

lemma shared_attrs:
  "fetch_pair_attrs (\<lambda>_. ''2024'') shared_graph ''p1'' ''p2'' =
     Some (\<lparr>pa_person_id = ''p1'', pa_status = ''active'', pa_profile_completeness_score = 0, pa_created_at = ''2024''\<rparr>,
           \<lparr>pa_person_id = ''p2'', pa_status = ''active'', pa_profile_completeness_score = 0, pa_created_at = ''2024''\<rparr>)"
  by (simp add: fetch_pair_attrs_def pair_attrs_of_def shared_defs)

lemma shared_run:
  obtains st where "process_pair sample_tp (\<lambda>_. ''2024'') (\<lambda>n. if n = 0 then ''d'' else ''c'') 5 ''p1'' ''p2''
     (mk_identifier ''phone'' ''+6591234567'') IDENTITY \<lparr>au_graph = shared_graph, au_drawn = 0\<rparr>
     = Inr (Some (ReviewOpened ''c''), st)"
proof -
  obtain score where score: "score_person_pair sample_tp shared_graph ''p1'' ''p2'' = Inr score"
    "mr_confidence score = DEFAULT_REVIEW" using shared_score by blast
  have nodes: "has_node shared_graph (PersonN ''p1'')" "has_node shared_graph (PersonN ''p2'')"
    by (simp_all add: shared_defs)
  have "\<exists>st. process_pair sample_tp (\<lambda>_. ''2024'') (\<lambda>n. if n = 0 then ''d'' else ''c'') 5 ''p1'' ''p2''
     (mk_identifier ''phone'' ''+6591234567'') IDENTITY \<lparr>au_graph = shared_graph, au_drawn = 0\<rparr>
     = Inr (Some (ReviewOpened ''c''), st)"
    by (simp add: process_pair_def Let_def shared_locks shared_attrs score shared_weights open_review_case_created nodes
        del: json_dumps.simps)
  then show ?thesis using that by blast
qed

section \<open>Properties\<close>

text \<open>C19: a pair is touched only when nothing forbids it: a review case is opened or a merge made only for
  a pair without an effective no-match lock and without an open review case, the score of the pair
  falls in the band of that outcome, and both persons are active; a merge marks exactly one of the two
  as merged, a review case changes no person and only relationships of decisions, cases and merge
  events, and any other outcome writes nothing.\<close>

theorem pair_outcomes:
  assumes run: "process_pair tp isof uuid now left right ident rt st = Inr (out, st')" and "left \<noteq> right"
    and "sound_lineage (au_graph st)"
  shows "(out = None \<and> st' = st)
     \<or> (\<not> CHECK_NO_MATCH_LOCK (au_graph st) now left right
        \<and> CHECK_OPEN_PERSON_PAIR_CASE (au_graph st) left right = None
        \<and> active_person (au_graph st) (PersonN left) \<and> active_person (au_graph st) (PersonN right)
        \<and> (\<exists>score decision. score_person_pair tp (au_graph st) left right = Inr score
             \<and> decision = classify_confidence (mr_confidence score) rt (has_hard_conflict (mr_feature_snapshot score))
             \<and> ((\<exists>rc. out = Some (ReviewOpened rc) \<and> decision = REVIEW \<and> adds_decisions (au_graph st) (au_graph st'))
                \<or> (\<exists>me absorbed. out = Some (PairMerged me) \<and> decision = MERGE \<and> absorbed \<in> {left, right}
                     \<and> (\<forall>p. node_prop (au_graph st') (PersonN p) ''status'' =
                              (if p = absorbed then JStr ''merged''
                               else node_prop (au_graph st) (PersonN p) ''status''))))))"
  using run
proof (cases rule: process_pair_cases)
  case (opened score reasons f)
  then have "adds_decisions (au_graph st) (au_graph st')" using adds_decisions_case by simp
  with opened show ?thesis by blast
next
  case (merged l r score f)
  from auto_merge_pair_cases [OF merged(8) merged(3) \<open>left \<noteq> right\<close>] obtain h a s reason where
    h: "adds_decisions (au_graph st) h" and ends: "{a, s} = {left, right}" "a \<noteq> s" and
    merge: "merge_person_pair isof now (uuid (Suc (au_drawn st))) a s (uuid (au_drawn st)) reason h = Inr (au_graph st')"
    and out: "the out = PairMerged (uuid (Suc (au_drawn st)))" by metis
  have "well_typed h" using adds_decisions_sound [OF h assms(3)] by (simp add: sound_lineage_def)
  then have "\<forall>p. node_prop (au_graph st') (PersonN p) ''status'' =
      (if p = a then JStr ''merged'' else node_prop (au_graph st) (PersonN p) ''status'')"
    using merge_effect(3) [OF merge _ ends(2)] h by (simp add: adds_decisions_def)
  moreover have "active_person (au_graph st) (PersonN left)" "active_person (au_graph st) (PersonN right)"
    using fetched_ids(3,4) [OF merged(3)] merged(4,5) by (simp_all add: active_person_def)
  moreover have "a \<in> {left, right}" using ends(1) by blast
  moreover have "out = Some (PairMerged (uuid (Suc (au_drawn st))))" using merged(9) out by auto
  ultimately show ?thesis using merged(1,2,6,7) by blast
qed simp

theorem pair_outcomes_witness:
  "\<exists>score. score_person_pair sample_tp shared_graph ''p1'' ''p2'' = Inr score
     \<and> classify_confidence (mr_confidence score) IDENTITY (has_hard_conflict (mr_feature_snapshot score)) = REVIEW"
proof (rule shared_run)
  fix st assume run: "process_pair sample_tp (\<lambda>_. ''2024'') (\<lambda>n. if n = 0 then ''d'' else ''c'') 5 ''p1'' ''p2''
     (mk_identifier ''phone'' ''+6591234567'') IDENTITY \<lparr>au_graph = shared_graph, au_drawn = 0\<rparr>
     = Inr (Some (ReviewOpened ''c''), st)"
  from pair_outcomes [OF run] shared_sound show ?thesis by auto
qed

text \<open>A pair that was merged or became a review case is settled: processing it again, at any later
  time, for any record and whatever the scores are, leaves everything as it is.\<close>

theorem pair_settled:
  assumes "process_pair tp isof uuid now left right ident rt st = Inr (Some out, st')" and "left \<noteq> right"
    and "sound_lineage (au_graph st)" and "\<not> has_node (au_graph st) (ReviewCaseN (uuid (Suc (au_drawn st))))"
  shows "process_pair tp isof uuid' later left right ident' rt' st' = Inr (None, st')"
  by (rule process_pair_settled [OF assms])

theorem pair_settled_witness:
  "\<exists>st. process_pair sample_tp (\<lambda>_. ''2024'') (\<lambda>n. ''x'') 9 ''p1'' ''p2''
     (mk_identifier ''email'' ''a@b.sg'') RELATIONSHIP st = Inr (None, st)
     \<and> CHECK_OPEN_PERSON_PAIR_CASE shared_graph ''p1'' ''p2'' = None"
proof (rule shared_run)
  fix st assume run: "process_pair sample_tp (\<lambda>_. ''2024'') (\<lambda>n. if n = 0 then ''d'' else ''c'') 5 ''p1'' ''p2''
     (mk_identifier ''phone'' ''+6591234567'') IDENTITY \<lparr>au_graph = shared_graph, au_drawn = 0\<rparr>
     = Inr (Some (ReviewOpened ''c''), st)"
  have "\<not> has_node shared_graph (ReviewCaseN ''c'')" by (simp add: shared_defs)
  then have "process_pair sample_tp (\<lambda>_. ''2024'') (\<lambda>n. ''x'') 9 ''p1'' ''p2''
     (mk_identifier ''email'' ''a@b.sg'') RELATIONSHIP st = Inr (None, st)"
    using shared_sound by (intro pair_settled [OF run]) simp_all
  with shared_locks(2) show ?thesis by blast
qed

text \<open>C18: the whole audit keeps the lineage flat and the graph well-typed, whatever chain of merges it
  makes: persons only go from active to merged, no no-match lock between two persons appears or
  disappears, every pair is processed at most once and gives at most one case or merge.\<close>

theorem audit_keeps_lineage:
  assumes "audit_person_pairs tp isof uuid now identifiers rt st = Inr run" and "sound_lineage (au_graph st)"
  shows "sound_lineage (au_graph run) \<and> persons_evolve (au_graph st) (au_graph run)
     \<and> distinct (ar_seen run) \<and> length (ar_created run) + length (ar_merged run) \<le> length (ar_seen run)"
  using audit_sound_run [OF assms] by (simp add: audit_sound_def)

theorem audit_keeps_lineage_witness:
  "\<exists>run. audit_person_pairs sample_tp (\<lambda>_. ''2024'') (\<lambda>n. if n = 0 then ''d'' else ''c'') 5
      [mk_identifier ''phone'' ''+6591234567''] IDENTITY \<lparr>au_graph = shared_graph, au_drawn = 0\<rparr> = Inr run
     \<and> ar_created run = [''c''] \<and> sound_lineage (au_graph run)"
proof (rule shared_run)
  fix st assume run: "process_pair sample_tp (\<lambda>_. ''2024'') (\<lambda>n. if n = 0 then ''d'' else ''c'') 5 ''p1'' ''p2''
     (mk_identifier ''phone'' ''+6591234567'') IDENTITY \<lparr>au_graph = shared_graph, au_drawn = 0\<rparr>
     = Inr (Some (ReviewOpened ''c''), st)"
  have row: "FIND_PERSONS_SHARING_IDENTIFIERS_BATCH shared_graph
      [(mk_identifier ''phone'' ''+6591234567'', \<lparr>ii_identifier_type = ''phone'', ii_identifier_scope = ''global'',
          ii_normalized_value = ''+6591234567''\<rparr>)]
      = [\<lparr>sr_ident = mk_identifier ''phone'' ''+6591234567'', sr_fanout = 2, sr_person_ids = [''p1'', ''p2'']\<rparr>]"
    by (simp add: FIND_PERSONS_SHARING_IDENTIFIERS_BATCH_def active_holders_def shared_defs quality_usable_def)
  have sorted: "sorted_set [''p1'', ''p2''] = [''p1'', ''p2'']" by (simp add: sorted_set_def)
  have "\<exists>run. audit_person_pairs sample_tp (\<lambda>_. ''2024'') (\<lambda>n. if n = 0 then ''d'' else ''c'') 5
      [mk_identifier ''phone'' ''+6591234567''] IDENTITY \<lparr>au_graph = shared_graph, au_drawn = 0\<rparr> = Inr run
      \<and> ar_created run = [''c'']"
    using run by (simp add: audit_person_pairs_def Let_def identifier_rows_def mk_identifier_def is_usable_def
        identifier_scope_def source_instance_for_identifier_def CRM_CANONICAL_IDENTIFIER_TYPES_def
        GLOBAL_IDENTIFIER_SCOPE_def row [unfolded mk_identifier_def] audit_row_def fanout_cap_for_def FANOUT_CAPS_def
        sorted audit_pair_def audit_state.truncate_def)
  with audit_keeps_lineage show ?thesis using shared_sound by fastforce
qed

end
