(* ===== verification/Watermark.thy ===== *)
theory Watermark
  imports JsonText
begin

text \<open>
  Incremental ingestion (\<open>watermark_runner.py\<close>, \<open>watermark_store.py\<close>, \<open>incremental_connector.py\<close>) and one
  of its connectors (\<open>connectors/fundbox_api/incremental.py\<close>). A run reads pages from a connector until
  the last page, a stop signal or an exception; only a drained run moves the stored watermark.

  The loop need not end, so it is a partial function into \<open>option\<close>: \<open>None\<close> is a run that never
  returns. What the loop calls is an argument: the connector, the record pipeline with its
  validation and exclusion test, the polls of the stop signals, and whether the graph database takes
  the final state of the run. The Redis commands succeed, and the exclusions have been loaded. Instants are numbers of
  microseconds; \<open>isoformat\<close>, \<open>fromisoformat\<close> and \<open>json.loads\<close> are the record \<open>texts\<close>.
\<close>

section \<open>The store\<close>

record texts =
  tt_isoformat :: "int \<Rightarrow> string"
  tt_fromisoformat :: "string \<Rightarrow> int result"
  tt_loads :: "string \<Rightarrow> json result"

type_synonym redis = "string \<rightharpoonup> string"

definition KEY_PREFIX :: string where "KEY_PREFIX = ''profile_unifier:watermark''"

definition redis_key :: "string \<Rightarrow> string option \<Rightarrow> string" where
  "redis_key source_key entity_key =
     (case entity_key of
        Some e \<Rightarrow> KEY_PREFIX @ '':'' @ source_key @ '':'' @ e
      | None \<Rightarrow> KEY_PREFIX @ '':'' @ source_key)"

definition load_watermark :: "texts \<Rightarrow> redis \<Rightarrow> string \<Rightarrow> string option \<Rightarrow> int option result" where
  "load_watermark tt client source_key entity_key =
     (case client (redis_key source_key entity_key) of
        None \<Rightarrow> ok None
      | Some text \<Rightarrow> try_bind (tt_loads tt text) (\<lambda>data.
          case data of
            JObj d \<Rightarrow> try_bind (json_req d ''updated_at'') (\<lambda>v.
              case v of
                JStr s \<Rightarrow> try_bind (tt_fromisoformat tt s) (\<lambda>t. ok (Some t))
              | _ \<Rightarrow> raise (TypeError ''fromisoformat: argument must be str''))
          | _ \<Rightarrow> raise (TypeError ''indices must be integers'')))"

definition watermark_text :: "texts \<Rightarrow> int \<Rightarrow> string" where
  "watermark_text tt t = json_dumps (JObj [(''updated_at'', JStr (tt_isoformat tt t))])"

definition save_watermark :: "texts \<Rightarrow> redis \<Rightarrow> int option \<Rightarrow> string \<Rightarrow> string option \<Rightarrow> redis result" where
  "save_watermark tt client updated_at source_key entity_key =
     (case updated_at of
        None \<Rightarrow> raise (ValueError ''Cannot save a watermark with updated_at=None'')
      | Some t \<Rightarrow> ok (client(redis_key source_key entity_key \<mapsto> watermark_text tt t)))"

definition reset_watermark :: "redis \<Rightarrow> string \<Rightarrow> string option \<Rightarrow> redis" where
  "reset_watermark client source_key entity_key = client(redis_key source_key entity_key := None)"

section \<open>The runner\<close>

record 'r incremental_page =
  ip_records :: "'r list"
  ip_has_more :: bool
  ip_max_updated_at :: int

record ingest_run =
  run_mode :: string
  run_status :: string
  run_record_count :: nat
  run_rejected_count :: nat
  run_watermark_start :: "string option"
  run_watermark_end :: "string option"

record ('g, 'c) world =
  wd_redis :: redis
  wd_graph :: 'g
  wd_sources :: "string list"
  wd_blocked :: "(string \<times> string) list"
  wd_runs :: "(string \<times> ingest_run) list"
  wd_connector :: 'c
  wd_closed :: bool

text \<open>What a run calls: the connector, then validation, exclusion and ingestion of one record (with
  whether its result has errors), and the two stop signals at the n-th poll. \<open>cl_session\<close> is the
  exception, if any, of the write transaction that finalises the run with a status; a transaction that
  raises changes nothing. A run is finalised with each status at most once.\<close>

record ('g, 'c, 'r, 'e) calls =
  cl_source_key :: string
  cl_open_query :: "int option \<Rightarrow> 'c \<Rightarrow> 'c result"
  cl_fetch_next_page :: "'c \<Rightarrow> ('r incremental_page \<times> 'c) result"
  cl_validate :: "'r \<Rightarrow> 'e result"
  cl_excluded :: "'e \<Rightarrow> bool"
  cl_process :: "'e \<Rightarrow> 'g \<Rightarrow> ('g \<times> bool) result"
  cl_stop :: "nat \<Rightarrow> bool"
  cl_session :: "string \<Rightarrow> py_error option"

record run_summary =
  rs_ingest_run_id :: string
  rs_status :: string
  rs_records_processed :: nat
  rs_pages_processed :: nat
  rs_watermark_start :: "string option"
  rs_watermark_end :: "string option"
  rs_source_key :: string
  rs_entity_key :: "string option"

definition create_watermark_ingest_run ::
    "string \<Rightarrow> string \<Rightarrow> string \<Rightarrow> string \<Rightarrow> string option \<Rightarrow> ('g, 'c) world \<Rightarrow> ('g, 'c) world result" where
  "create_watermark_ingest_run run_id source_key mode control_instance_id watermark_start w =
     (if source_key \<in> set (wd_sources w) \<and> (source_key, control_instance_id) \<notin> set (wd_blocked w)
      then ok (w\<lparr>wd_runs := wd_runs w @ [(run_id, \<lparr>run_mode = mode, run_status = ''started'', run_record_count = 0,
                   run_rejected_count = 0, run_watermark_start = watermark_start, run_watermark_end = None\<rparr>)]\<rparr>)
      else raise (AssertionError ''CREATE_INGEST_RUN must return a row''))"

definition finalize_run ::
    "('g, 'c, 'r, 'e) calls \<Rightarrow> string \<Rightarrow> string \<Rightarrow> nat \<Rightarrow> string option \<Rightarrow> ('g, 'c) world \<Rightarrow> ('g, 'c) world result" where
  "finalize_run cl run_id status record_count watermark_end w =
     (case cl_session cl status of
        Some e \<Rightarrow> raise e
      | None \<Rightarrow> ok (w\<lparr>wd_runs := map (\<lambda>(i, r). if i = run_id
          then (i, r\<lparr>run_status := status, run_record_count := record_count, run_rejected_count := 0,
                     run_watermark_end := watermark_end\<rparr>)
          else (i, r)) (wd_runs w)\<rparr>))"

text \<open>The records of a page: the graph they leave, how many succeeded and failed, and the exception
  that ended the loop, if any.\<close>

fun process_page_records ::
    "('g, 'c, 'r, 'e) calls \<Rightarrow> 'r list \<Rightarrow> 'g \<times> nat \<times> nat \<Rightarrow> ('g \<times> nat \<times> nat) \<times> py_error option" where
  "process_page_records cl [] acc = (acc, None)"
| "process_page_records cl (raw # rest) (g, succeeded, errors) =
     (case cl_validate cl raw of
        Inl e \<Rightarrow> ((g, succeeded, errors), Some e)
      | Inr envelope \<Rightarrow>
          if cl_excluded cl envelope then process_page_records cl rest (g, succeeded, errors)
          else case cl_process cl envelope g of
            Inl e \<Rightarrow> ((g, succeeded, errors), Some e)
          | Inr (g', failed) \<Rightarrow>
              process_page_records cl rest
                (if failed then (g', succeeded, Suc errors) else (g', Suc succeeded, errors)))"

text \<open>The handler of the loop: a failure to finalise the run as failed is logged, and the exception that
  ended the run is raised again.\<close>

definition fail_run ::
    "('g, 'c, 'r, 'e) calls \<Rightarrow> string \<Rightarrow> nat \<Rightarrow> py_error \<Rightarrow> ('g, 'c) world \<Rightarrow> run_summary result \<times> ('g, 'c) world" where
  "fail_run cl run_id records e w =
     (raise e, case finalize_run cl run_id ''failed'' records None w of Inl _ \<Rightarrow> w | Inr w' \<Rightarrow> w')"

text \<open>\<open>_finalize_run\<close> and the return of the summary, inside the loop's \<open>try\<close>.\<close>

definition finish_run ::
    "('g, 'c, 'r, 'e) calls \<Rightarrow> string \<Rightarrow> nat \<Rightarrow> run_summary \<Rightarrow> ('g, 'c) world \<Rightarrow> run_summary result \<times> ('g, 'c) world" where
  "finish_run cl run_id records summary w =
     (case finalize_run cl run_id (rs_status summary) records (rs_watermark_end summary) w of
        Inl e \<Rightarrow> fail_run cl run_id records e w
      | Inr w' \<Rightarrow> (ok summary, w'))"

definition later_of :: "int option \<Rightarrow> int \<Rightarrow> int" where
  "later_of max_updated_at page_max =
     (case max_updated_at of None \<Rightarrow> page_max | Some m \<Rightarrow> if m < page_max then page_max else m)"

partial_function (option) drain ::
    "texts \<Rightarrow> ('g, 'c, 'r, 'e) calls \<Rightarrow> string \<Rightarrow> string option \<Rightarrow> string option \<Rightarrow> nat \<Rightarrow> nat \<Rightarrow> int option
     \<Rightarrow> ('g, 'c) world \<Rightarrow> (run_summary result \<times> ('g, 'c) world) option" where
  "drain tt cl run_id entity_key watermark_start records_processed pages_processed max_updated_at w =
     (if cl_stop cl pages_processed
      then Some (finish_run cl run_id records_processed
                   \<lparr>rs_ingest_run_id = run_id, rs_status = ''yielded'', rs_records_processed = records_processed,
                    rs_pages_processed = pages_processed, rs_watermark_start = watermark_start,
                    rs_watermark_end = None, rs_source_key = cl_source_key cl, rs_entity_key = entity_key\<rparr> w)
      else case cl_fetch_next_page cl (wd_connector w) of
        Inl e \<Rightarrow> Some (fail_run cl run_id records_processed e w)
      | Inr (page, c) \<Rightarrow>
          (case process_page_records cl (ip_records page) (wd_graph w, 0, 0) of
             ((g, _, _), Some e) \<Rightarrow> Some (fail_run cl run_id records_processed e (w\<lparr>wd_graph := g, wd_connector := c\<rparr>))
           | ((g, _, _), None) \<Rightarrow>
               let w = w\<lparr>wd_graph := g, wd_connector := c\<rparr>;
                   records = records_processed + length (ip_records page);
                   pages = Suc pages_processed;
                   latest = later_of max_updated_at (ip_max_updated_at page)
               in if \<not> ip_has_more page then
                    (case save_watermark tt (wd_redis w) (Some latest) (cl_source_key cl) entity_key of
                       Inl e \<Rightarrow> Some (fail_run cl run_id records e w)
                     | Inr redis \<Rightarrow>
                         Some (finish_run cl run_id records
                                 \<lparr>rs_ingest_run_id = run_id, rs_status = ''caught_up'', rs_records_processed = records,
                                  rs_pages_processed = pages, rs_watermark_start = watermark_start,
                                  rs_watermark_end = Some (tt_isoformat tt latest), rs_source_key = cl_source_key cl,
                                  rs_entity_key = entity_key\<rparr>
                                 (w\<lparr>wd_redis := redis\<rparr>)))
                  else drain tt cl run_id entity_key watermark_start records pages (Some latest) w))"

definition close :: "run_summary result \<times> ('g, 'c) world \<Rightarrow> run_summary result \<times> ('g, 'c) world" where
  "close r = (fst r, (snd r)\<lparr>wd_closed := True\<rparr>)"

definition run_incremental ::
    "texts \<Rightarrow> ('g, 'c, 'r, 'e) calls \<Rightarrow> string \<Rightarrow> string option \<Rightarrow> string \<Rightarrow> ('g, 'c) world
     \<Rightarrow> (run_summary result \<times> ('g, 'c) world) option" where
  "run_incremental tt cl run_id entity_key control_instance_id w =
     (case load_watermark tt (wd_redis w) (cl_source_key cl) entity_key of
        Inl e \<Rightarrow> Some (raise e, w)
      | Inr updated_at \<Rightarrow>
          let watermark_start = map_option (tt_isoformat tt) updated_at;
              mode = (if updated_at = None then ''bootstrap'' else ''delta'')
          in case create_watermark_ingest_run run_id (cl_source_key cl) mode control_instance_id watermark_start w of
               Inl e \<Rightarrow> Some (raise e, w)
             | Inr w \<Rightarrow>
                 (case cl_open_query cl updated_at (wd_connector w) of
                    Inl e \<Rightarrow> Some (close (fail_run cl run_id 0 e w))
                  | Inr c \<Rightarrow> map_option close
                      (drain tt cl run_id entity_key watermark_start 0 0 updated_at (w\<lparr>wd_connector := c\<rparr>))))"

section \<open>The Fundbox connector\<close>

record fundbox =
  fb_updated_since :: "int option"
  fb_updated_since_iso :: "string option"
  fb_cursor :: "string option"
  fb_seen_cursors :: "string set"
  fb_exhausted :: bool

record page_meta =
  pm_has_more :: bool
  pm_next_cursor :: "string option"

text \<open>The API client answers a resource, a cursor and a lower bound; it is an argument.\<close>

type_synonym fundbox_api = "string \<Rightarrow> string option \<Rightarrow> string option \<Rightarrow> (json_obj list \<times> page_meta) result"

definition fundbox_open_query :: "texts \<Rightarrow> int option \<Rightarrow> fundbox \<Rightarrow> fundbox result" where
  "fundbox_open_query tt updated_since c =
     ok \<lparr>fb_updated_since = updated_since, fb_updated_since_iso = map_option (tt_isoformat tt) updated_since,
         fb_cursor = None, fb_seen_cursors = {}, fb_exhausted = False\<rparr>"

definition later_record :: "texts \<Rightarrow> json_obj \<Rightarrow> int option \<Rightarrow> int option result" where
  "later_record tt r page_max =
     (case json_get r ''effective_updated_at'' of
        JStr s \<Rightarrow> try_bind (tt_fromisoformat tt s) (\<lambda>parsed. ok (Some (later_of page_max parsed)))
      | _ \<Rightarrow> ok page_max)"

definition compute_max_updated_at :: "texts \<Rightarrow> int \<Rightarrow> json_obj list \<Rightarrow> fundbox \<Rightarrow> int result" where
  "compute_max_updated_at tt now records c =
     try_bind (fold_result (later_record tt) records None) (\<lambda>page_max.
       case page_max of
         Some t \<Rightarrow> ok t
       | None \<Rightarrow> (case fb_updated_since c of Some t \<Rightarrow> ok t | None \<Rightarrow> ok now))"

definition fundbox_fetch_next_page ::
    "texts \<Rightarrow> fundbox_api \<Rightarrow> (json_obj \<Rightarrow> json_obj result) \<Rightarrow> int \<Rightarrow> string \<Rightarrow> fundbox
     \<Rightarrow> (json_obj incremental_page \<times> fundbox) result" where
  "fundbox_fetch_next_page tt api build_record now resource c =
     (if fb_exhausted c
      then raise (RuntimeError ''Connector is exhausted; call open_query to start a new query'')
      else try_bind (api resource (fb_cursor c) (if fb_cursor c = None then fb_updated_since_iso c else None))
        (\<lambda>(records, meta).
          try_bind (map_result build_record records) (\<lambda>envelopes.
          try_bind (compute_max_updated_at tt now records c) (\<lambda>max_updated_at.
          let page = \<lparr>ip_records = envelopes, ip_has_more = pm_has_more meta, ip_max_updated_at = max_updated_at\<rparr>
          in if pm_has_more meta
             then (case pm_next_cursor meta of
                     None \<Rightarrow> raise (AssertionError [])
                   | Some cursor \<Rightarrow>
                       if cursor \<in> fb_seen_cursors c
                       then raise (ValueError ''Fundbox API returned a repeated cursor'')
                       else ok (page, c\<lparr>fb_seen_cursors := insert cursor (fb_seen_cursors c), fb_cursor := Some cursor\<rparr>))
             else ok (page, c\<lparr>fb_exhausted := True\<rparr>)))))"

section \<open>Pages after pages\<close>

text \<open>What bounds a run: every page that announces another one has a cursor that was not seen before.\<close>

locale fresh_cursors =
  fixes fetch :: "'c \<Rightarrow> ('r incremental_page \<times> 'c) result" and seen :: "'c \<Rightarrow> string set"
  assumes fresh_cursor: "fetch c = Inr (page, c') \<Longrightarrow> ip_has_more page \<Longrightarrow>
    \<exists>k. k \<notin> seen c \<and> seen c' = insert k (seen c)"
begin

lemma fewer_left:
  assumes "fetch c = Inr (page, c')" and "ip_has_more page" and "finite C" and "seen c' \<subseteq> C"
  shows "card (C - seen c') < card (C - seen c)"
proof -
  from fresh_cursor [OF assms(1,2)] obtain k where k: "k \<notin> seen c" "seen c' = insert k (seen c)" by blast
  with assms(4) have "C - seen c' \<subset> C - seen c" by blast
  with assms(3) show ?thesis by (intro psubset_card_mono) simp_all
qed

text \<open>When only finitely many cursors exist, the loop returns, whatever the signals and records do.\<close>

lemma drain_returns:
  assumes fetch: "cl_fetch_next_page cl = fetch" and "finite C"
    and bounded: "\<And>c page c'. fetch c = Inr (page, c') \<Longrightarrow> seen c \<subseteq> C \<Longrightarrow> seen c' \<subseteq> C"
    and start: "seen (wd_connector w) \<subseteq> C"
  shows "\<exists>r. drain tt cl run_id entity_key ws records pages latest w = Some r"
  using start
proof (induction "card (C - seen (wd_connector w))" arbitrary: w records pages latest rule: less_induct)
  case less
  show ?case
  proof (cases "fetch (wd_connector w)")
    case (Inl e)
    then show ?thesis by (subst drain.simps) (simp add: fetch)
  next
    case (Inr pc)
    obtain page c where pc: "pc = (page, c)" by (cases pc)
    obtain g s n failure where run: "process_page_records cl (ip_records page) (wd_graph w, 0, 0) = ((g, s, n), failure)"
      by (metis prod.exhaust)
    have sub: "seen c \<subseteq> C" by (rule bounded [OF Inr [unfolded pc] less.prems])
    let ?w = "w\<lparr>wd_graph := g, wd_connector := c\<rparr>"
    have again: "\<exists>r. drain tt cl run_id entity_key ws rs ps l ?w = Some r" if "ip_has_more page" for rs ps l
      using less.hyps [of ?w rs ps l] fewer_left [OF Inr [unfolded pc] that \<open>finite C\<close> sub] sub by simp
    show ?thesis
      by (subst drain.simps) (use again in \<open>auto simp: fetch Inr pc run Let_def split: option.split sum.split\<close>)
  qed
qed

end

lemma fundbox_fetch_cases:
  assumes "fundbox_fetch_next_page tt api build now resource c = Inr (page, c')"
  obtains (more) k where "ip_has_more page" "k \<notin> fb_seen_cursors c" "fb_seen_cursors c' = insert k (fb_seen_cursors c)"
    "\<exists>since records meta. api resource (fb_cursor c) since = Inr (records, meta) \<and> pm_next_cursor meta = Some k"
  | (last) "\<not> ip_has_more page" "fb_seen_cursors c' = fb_seen_cursors c"
proof -
  let ?since = "if fb_cursor c = None then fb_updated_since_iso c else None"
  from assms have fresh: "\<not> fb_exhausted c" by (auto simp: fundbox_fetch_next_page_def)
  from assms obtain records meta envelopes latest where api: "api resource (fb_cursor c) ?since = Inr (records, meta)"
    and rest: "(if pm_has_more meta
             then (case pm_next_cursor meta of
                     None \<Rightarrow> raise (AssertionError [])
                   | Some cursor \<Rightarrow>
                       if cursor \<in> fb_seen_cursors c
                       then raise (ValueError ''Fundbox API returned a repeated cursor'')
                       else ok (\<lparr>ip_records = envelopes, ip_has_more = pm_has_more meta, ip_max_updated_at = latest\<rparr>,
                                c\<lparr>fb_seen_cursors := insert cursor (fb_seen_cursors c), fb_cursor := Some cursor\<rparr>))
             else ok (\<lparr>ip_records = envelopes, ip_has_more = pm_has_more meta, ip_max_updated_at = latest\<rparr>,
                      c\<lparr>fb_exhausted := True\<rparr>)) = Inr (page, c')"
    unfolding fundbox_fetch_next_page_def Let_def if_not_P [OF fresh] by (auto simp: try_bind_Inr_iff split del: if_split)
  show ?thesis
  proof (cases "pm_has_more meta")
    case True
    with rest obtain k where "ip_has_more page" "pm_next_cursor meta = Some k" "k \<notin> fb_seen_cursors c"
        "fb_seen_cursors c' = insert k (fb_seen_cursors c)"
      by (auto split: if_splits option.splits)
    with api more show ?thesis by blast
  next
    case False
    with rest last show ?thesis by auto
  qed
qed

interpretation fundbox: fresh_cursors "fundbox_fetch_next_page tt api build now resource" fb_seen_cursors
  by unfold_locales (metis fundbox_fetch_cases)

section \<open>What a run leaves behind\<close>

lemma fail_run_redis [simp]: "fst (fail_run cl i n e w) = Inl e" "wd_redis (snd (fail_run cl i n e w)) = wd_redis w"
  by (auto simp: fail_run_def finalize_run_def split: option.split)









lemma run_incremental_cases:
  obtains (stopped) e w' where "run_incremental tt cl run_id entity_key ci w = Some (Inl e, w')" "wd_redis w' = wd_redis w"
  | (running) t v c ws where "load_watermark tt (wd_redis w) (cl_source_key cl) entity_key = Inr t" "wd_redis v = wd_redis w"
      "cl_open_query cl t (wd_connector w) = Inr c"
      "run_incremental tt cl run_id entity_key ci w =
         map_option close (drain tt cl run_id entity_key ws 0 0 t (v\<lparr>wd_connector := c\<rparr>))"
proof (cases "load_watermark tt (wd_redis w) (cl_source_key cl) entity_key")
  case (Inl e)
  with stopped [of e w] show ?thesis by (simp add: run_incremental_def)
next
  case loaded: (Inr t)
  let ?ws = "map_option (tt_isoformat tt) t"
  show ?thesis
  proof (cases "create_watermark_ingest_run run_id (cl_source_key cl) (if t = None then ''bootstrap'' else ''delta'') ci ?ws w")
    case (Inl e)
    with loaded stopped [of e w] show ?thesis by (simp add: run_incremental_def Let_def)
  next
    case created: (Inr v)
    then have v: "wd_redis v = wd_redis w" "wd_connector v = wd_connector w"
      by (auto simp: create_watermark_ingest_run_def split: if_splits)
    show ?thesis
    proof (cases "cl_open_query cl t (wd_connector v)")
      case (Inl e)
      with loaded created v stopped [of e "(snd (fail_run cl run_id 0 e v))\<lparr>wd_closed := True\<rparr>"] show ?thesis
        by (simp add: run_incremental_def Let_def close_def)
    next
      case (Inr c)
      with loaded created running [OF loaded v(1), of c ?ws] v show ?thesis
        by (simp add: run_incremental_def Let_def)
    qed
  qed
qed

text \<open>Two sets of calls that differ only in which records they report as failed.\<close>

definition same_but_flags ::
    "('g, 'c, 'r, 'e) calls \<Rightarrow> ('g, 'c, 'r, 'e) calls \<Rightarrow> bool" where
  "same_but_flags cl cl' =
     (cl_source_key cl = cl_source_key cl' \<and> cl_open_query cl = cl_open_query cl'
      \<and> cl_fetch_next_page cl = cl_fetch_next_page cl' \<and> cl_validate cl = cl_validate cl'
      \<and> cl_excluded cl = cl_excluded cl' \<and> cl_stop cl = cl_stop cl' \<and> cl_session cl = cl_session cl'
      \<and> (\<forall>e g. map_sum id fst (cl_process cl e g) = map_sum id fst (cl_process cl' e g)))"

lemma same_but_flags_sym: "same_but_flags cl cl' \<Longrightarrow> same_but_flags cl' cl"
  by (simp add: same_but_flags_def)

lemma page_same_but_flags:
  assumes "same_but_flags cl cl'"
  shows "fst (fst (process_page_records cl rs (g, a, b))) = fst (fst (process_page_records cl' rs (g, a', b')))
    \<and> snd (process_page_records cl rs (g, a, b)) = snd (process_page_records cl' rs (g, a', b'))"
proof (induction rs arbitrary: g a b a' b')
  case (Cons r rs)
  have agree: "map_sum id fst (cl_process cl e g) = map_sum id fst (cl_process cl' e g)" for e
    using assms by (simp add: same_but_flags_def)
  show ?case
  proof (cases "cl_validate cl r")
    case (Inl e)
    then show ?thesis using assms by (simp add: same_but_flags_def)
  next
    case (Inr e)
    then have v: "cl_validate cl' r = Inr e" "cl_excluded cl' e = cl_excluded cl e" using assms by (simp_all add: same_but_flags_def)
    show ?thesis
      using agree [of e] Cons.IH Inr v
      by (cases "cl_process cl e g"; cases "cl_process cl' e g") (auto split: prod.split)
  qed
qed simp

lemma finish_same_but_flags:
  assumes "same_but_flags cl cl'"
  shows "fail_run cl' = fail_run cl" "finish_run cl' = finish_run cl"
proof -
  have "finalize_run cl' = finalize_run cl"
    using assms by (simp add: fun_eq_iff finalize_run_def same_but_flags_def)
  then show "fail_run cl' = fail_run cl" by (simp add: fun_eq_iff fail_run_def)
  with \<open>finalize_run cl' = finalize_run cl\<close> show "finish_run cl' = finish_run cl"
    by (intro ext) (simp only: finish_run_def)
qed

lemma drain_same_but_flags:
  "drain tt cl run_id entity_key ws records pages latest w = Some r \<Longrightarrow> same_but_flags cl cl' \<Longrightarrow>
   drain tt cl' run_id entity_key ws records pages latest w = Some r"
proof (induction arbitrary: rule: drain.raw_induct [rotated 1, consumes 1, case_names step])
  case (step drain' tt cl run_id entity_key ws records pages latest w r)
  note again = step(1)
  note same = step(3) [unfolded same_but_flags_def] and finish = finish_same_but_flags [OF step(3)]
  show ?case
  proof (cases "cl_stop cl pages \<or> (\<exists>e. cl_fetch_next_page cl (wd_connector w) = Inl e)")
    case True
    with step(2) same show ?thesis by (subst drain.simps) (auto simp: finish split: if_splits)
  next
    case False
    then obtain page c where fetch: "cl_fetch_next_page cl (wd_connector w) = Inr (page, c)" "\<not> cl_stop cl pages"
      by (metis sumE surj_pair)
    obtain g n m f where run: "process_page_records cl (ip_records page) (wd_graph w, 0, 0) = ((g, n, m), f)"
      by (metis prod.exhaust)
    with page_same_but_flags [OF step(3), of "ip_records page" "wd_graph w" 0 0 0 0] obtain n' m' where
      run': "process_page_records cl' (ip_records page) (wd_graph w, 0, 0) = ((g, n', m'), f)"
      by (metis fst_conv snd_conv prod.exhaust)
    have eqs: "cl_stop cl' = cl_stop cl" "cl_fetch_next_page cl' = cl_fetch_next_page cl" "cl_source_key cl' = cl_source_key cl"
      using same by simp_all
    show ?thesis
      using step(2) again step(3)
      by (subst drain.simps) (simp add: eqs finish fetch run run' Let_def split: option.splits if_splits sum.splits)
  qed
qed

lemma drain_flags_irrelevant:
  assumes "same_but_flags cl cl'"
  shows "drain tt cl run_id entity_key ws records pages latest w = drain tt cl' run_id entity_key ws records pages latest w"
proof -
  note there = drain_same_but_flags [of tt cl run_id entity_key ws records pages latest w]
  note converse = drain_same_but_flags [of tt cl' run_id entity_key ws records pages latest w]
  show ?thesis
    using there [OF _ assms] converse [OF _ same_but_flags_sym [OF assms]]
    by (cases "drain tt cl run_id entity_key ws records pages latest w";
        cases "drain tt cl' run_id entity_key ws records pages latest w") auto
qed

section \<open>Properties\<close>

text \<open>C26: an incremental run of the Fundbox connector always returns: when the cursors the API hands out
  come from a finite set, the loop ends after finitely many pages whatever the pages hold, whether
  or not a stop signal ever comes, and also when records fail.\<close>

theorem run_returns:
  assumes "finite C"
    and "\<forall>cursor since records meta k. api resource cursor since = Inr (records, meta) \<longrightarrow> pm_next_cursor meta = Some k \<longrightarrow> k \<in> C"
    and "cl_fetch_next_page cl = fundbox_fetch_next_page tt api build now resource"
    and "cl_open_query cl = fundbox_open_query tt"
  shows "\<exists>r. run_incremental tt cl run_id entity_key control_instance_id w = Some r"
proof -
  have bounded: "fb_seen_cursors c' \<subseteq> C"
    if "fundbox_fetch_next_page tt api build now resource c = Inr (page, c')" "fb_seen_cursors c \<subseteq> C" for c page c'
    using that(1)
  proof (cases rule: fundbox_fetch_cases)
    case (more k)
    with assms(2) that(2) show ?thesis by (metis insert_subset)
  qed (use that(2) in simp)
  have start: "fb_seen_cursors c = {}" if "fundbox_open_query tt t d = Inr c" for t c d
    using that by (auto simp: fundbox_open_query_def)
  show ?thesis
  proof (cases rule: run_incremental_cases [of tt cl run_id entity_key control_instance_id w])
    case (running t v c ws)
    have "\<exists>r. drain tt cl run_id entity_key ws 0 0 t (v\<lparr>wd_connector := c\<rparr>) = Some r"
      by (rule fundbox.drain_returns [OF assms(3) assms(1) bounded])
        (use running(3) assms(4) start in simp_all)
    with running(4) show ?thesis by auto
  qed blast
qed


text \<open>C28: whether records were ingested or failed makes no difference to the run: with any choice of
  which records report errors the run ends the same way, with the same summary, the same ingest
  run (rejecting none) and the same watermark, so a failed record is behind the watermark and is
  not read again.\<close>

theorem failed_records_are_passed:
  "run_incremental tt (cl\<lparr>cl_process := \<lambda>e g. map_sum id (\<lambda>(g', _). (g', flag e g)) (cl_process cl e g)\<rparr>)
     run_id entity_key control_instance_id w
   = run_incremental tt cl run_id entity_key control_instance_id w"
proof -
  let ?cl = "cl\<lparr>cl_process := \<lambda>e g. map_sum id (\<lambda>(g', _). (g', flag e g)) (cl_process cl e g)\<rparr>"
  have "same_but_flags ?cl cl"
    by (simp add: same_but_flags_def sum.map_comp comp_def case_prod_beta id_def)
  from drain_flags_irrelevant [OF this] finish_same_but_flags(1) [OF this] show ?thesis
    by (simp add: run_incremental_def Let_def cong: sum.case_cong)
qed

section \<open>A concrete run\<close>

definition sample_texts :: texts where
  "sample_texts = \<lparr>tt_isoformat = show_int, tt_fromisoformat = (\<lambda>s. ok (int (length s))),
     tt_loads = (\<lambda>s. raise (ValueError s))\<rparr>"

text \<open>Two pages: the first announces the cursor \<open>c1\<close>, the second is the last.\<close>

definition sample_api :: fundbox_api where
  "sample_api resource cursor since =
     (if cursor = None then ok ([[(''effective_updated_at'', JStr ''....'')]], \<lparr>pm_has_more = True, pm_next_cursor = Some ''c1''\<rparr>)
      else ok ([[(''effective_updated_at'', JStr ''...'')]], \<lparr>pm_has_more = False, pm_next_cursor = None\<rparr>))"

definition sample_calls :: "(nat, fundbox, json_obj, json_obj) calls" where
  "sample_calls = \<lparr>cl_source_key = ''fundbox'', cl_open_query = fundbox_open_query sample_texts,
     cl_fetch_next_page = fundbox_fetch_next_page sample_texts sample_api ok 9 ''users'',
     cl_validate = ok, cl_excluded = (\<lambda>_. False), cl_process = (\<lambda>_ n. ok (Suc n, False)), cl_stop = (\<lambda>_. False),
     cl_session = (\<lambda>_. None)\<rparr>"

definition sample_world :: "(nat, fundbox) world" where
  "sample_world = \<lparr>wd_redis = Map.empty, wd_graph = 0, wd_sources = [''fundbox''], wd_blocked = [], wd_runs = [],
     wd_connector = \<lparr>fb_updated_since = None, fb_updated_since_iso = None, fb_cursor = None, fb_seen_cursors = {},
       fb_exhausted = True\<rparr>, wd_closed = False\<rparr>"




theorem run_returns_witness:
  "\<exists>r. run_incremental sample_texts (sample_calls\<lparr>cl_stop := \<lambda>n. 1 < n\<rparr>) ''r1'' None ''legacy-default'' sample_world = Some r"
  by (rule run_returns [of "{''c1''}" sample_api])
    (simp_all add: sample_calls_def sample_api_def split: if_splits)


end
