(* ===== verification/TaskGate.thy ===== *)
theory TaskGate
  imports SourceKeys
begin

text \<open>
  The single-flight gates of the lifecycle queue (\<open>knows_materialization_queue.py\<close>,
  \<open>lifecycle_reconciliation_queue.py\<close>, \<open>lifecycle_queue_admin.py\<close>) and the task that runs under one of
  them (\<open>materialize_knows_task\<close> in \<open>tasks.py\<close>). A gate is a Redis key: absent, the id of a queued
  task, or a marker \<open>publishing|time|id\<close> while its publication is under way. The Lua scripts run
  atomically. Publishers, the broker, workers and the operator interleave in any order: the step
  relation has one rule for each atomic action, lost and ambiguous publications, redeliveries,
  crashes and expired locks included.
\<close>

section \<open>The scripts\<close>

definition BAR :: char where "BAR = CHR 0x7C"

text \<open>\<open>string.match(current, '^([^|]+)|([^|]+)|(.+)$')\<close>, of which only the owner is used.\<close>

definition match_owner :: "string \<Rightarrow> string option" where
  "match_owner v =
     (let state = takeWhile (\<lambda>c. c \<noteq> BAR) v;
          rest = dropWhile (\<lambda>c. c \<noteq> BAR) v;
          timestamp = takeWhile (\<lambda>c. c \<noteq> BAR) (tl rest);
          rest' = dropWhile (\<lambda>c. c \<noteq> BAR) (tl rest)
      in if state \<noteq> [] \<and> rest \<noteq> [] \<and> timestamp \<noteq> [] \<and> rest' \<noteq> [] \<and> tl rest' \<noteq> []
         then Some (tl rest') else None)"

definition marker :: "nat \<Rightarrow> string \<Rightarrow> string" where
  "marker now task_id = ''publishing'' @ [BAR] @ show_nat now @ [BAR] @ task_id"

definition owned :: "string \<Rightarrow> string \<Rightarrow> bool" where
  "owned current task_id = (current = task_id \<or> match_owner current = Some task_id)"

text \<open>Each script answers its result and leaves the key.\<close>

definition RELEASE_SCRIPT :: "string \<Rightarrow> string option \<Rightarrow> bool \<times> string option" where
  "RELEASE_SCRIPT task_id gate =
     (case gate of
        None \<Rightarrow> (False, gate)
      | Some current \<Rightarrow> if owned current task_id then (True, None) else (False, gate))"

definition ROOT_CLAIM_SCRIPT :: "nat \<Rightarrow> string \<Rightarrow> string option \<Rightarrow> (bool \<times> string) \<times> string option" where
  "ROOT_CLAIM_SCRIPT now task_id gate =
     (case gate of
        Some current \<Rightarrow> ((False, case match_owner current of None \<Rightarrow> current | Some owner \<Rightarrow> owner), gate)
      | None \<Rightarrow> ((True, task_id), Some (marker now task_id)))"

definition MARK_QUEUED_SCRIPT :: "string \<Rightarrow> string option \<Rightarrow> bool \<times> string option" where
  "MARK_QUEUED_SCRIPT task_id gate =
     (case gate of
        None \<Rightarrow> (False, gate)
      | Some current \<Rightarrow> if owned current task_id then (True, Some task_id) else (False, gate))"

definition CLAIM_SCRIPT :: "string \<Rightarrow> string \<Rightarrow> string option \<Rightarrow> bool \<times> string option" where
  "CLAIM_SCRIPT task_id predecessor gate =
     (case gate of
        None \<Rightarrow> (False, gate)
      | Some current \<Rightarrow>
          if owned current task_id then (True, Some task_id)
          else if predecessor \<noteq> [] \<and> current = predecessor then (True, Some task_id)
          else (False, gate))"

definition TRANSFER_SCRIPT :: "nat \<Rightarrow> string \<Rightarrow> string \<Rightarrow> string option \<Rightarrow> bool \<times> string option" where
  "TRANSFER_SCRIPT now current_task_id next_task_id gate =
     (if gate = Some current_task_id then (True, Some (marker now next_task_id)) else (False, gate))"

definition OWNER_CLEAR_SCRIPT :: "string \<Rightarrow> string option \<Rightarrow> bool \<times> string option" where
  "OWNER_CLEAR_SCRIPT expected_owner gate =
     (case gate of
        None \<Rightarrow> (False, gate)
      | Some current \<Rightarrow> if owned current expected_owner then (True, None) else (False, gate))"

text \<open>\<open>value.split("|", 2)\<close> and the owner a publisher reports.\<close>

definition owner_from_value :: "string option \<Rightarrow> string option" where
  "owner_from_value gate =
     (case gate of
        None \<Rightarrow> None
      | Some v \<Rightarrow>
          let rest = dropWhile (\<lambda>c. c \<noteq> BAR) v; rest' = dropWhile (\<lambda>c. c \<noteq> BAR) (tl rest)
          in if rest \<noteq> [] \<and> rest' \<noteq> [] \<and> takeWhile (\<lambda>c. c \<noteq> BAR) v = ''publishing'' then Some (tl rest') else Some v)"

section \<open>The system around a gate\<close>

record delivery =
  dl_task :: string
  dl_cursor :: string
  dl_predecessor :: "string option"

text \<open>A worker has claimed the gate, holds the source lock and processes its batch, or has handed the
  gate over to the continuation it publishes.\<close>

datatype stage = Claimed | Processing | HandedOver string

record chain =
  ch_gate :: "string option"
  ch_lock :: "string option"
  ch_publishing :: "delivery list"
  ch_queue :: "delivery list"
  ch_marking :: "string list"
  ch_workers :: "(delivery \<times> stage) list"
  ch_used :: "string list"

definition idle :: chain where
  "idle = \<lparr>ch_gate = None, ch_lock = None, ch_publishing = [], ch_queue = [], ch_marking = [], ch_workers = [],
           ch_used = []\<rparr>"

text \<open>Ids are the hexadecimal digits of fresh UUIDs.\<close>

definition fresh_id :: "chain \<Rightarrow> string \<Rightarrow> bool" where
  "fresh_id s t = (t \<notin> set (ch_used s) \<and> t \<noteq> [] \<and> BAR \<notin> set t)"

definition claim_delivery :: "delivery \<Rightarrow> string option \<Rightarrow> bool \<times> string option" where
  "claim_delivery d gate = CLAIM_SCRIPT (dl_task d) (or_empty (dl_predecessor d)) gate"

definition retire :: "delivery \<Rightarrow> stage \<Rightarrow> chain \<Rightarrow> chain" where
  "retire d st s = s\<lparr>ch_workers := remove1 (d, st) (ch_workers s), ch_queue := remove1 d (ch_queue s)\<rparr>"

text \<open>Publishing a task: the claim of the gate, what the broker made of it, and the mark after an accepted
  publication.\<close>

inductive publication_step :: "chain \<Rightarrow> chain \<Rightarrow> bool" where
  publish: "\<lbrakk>fresh_id s t; ROOT_CLAIM_SCRIPT now t (ch_gate s) = ((True, owner), gate)\<rbrakk> \<Longrightarrow>
     publication_step s (s\<lparr>ch_gate := gate, ch_used := t # ch_used s,
       ch_publishing := \<lparr>dl_task = t, dl_cursor = [], dl_predecessor = None\<rparr> # ch_publishing s\<rparr>)"
| accepted: "d \<in> set (ch_publishing s) \<Longrightarrow>
     publication_step s (s\<lparr>ch_publishing := remove1 d (ch_publishing s), ch_queue := d # ch_queue s,
       ch_marking := dl_task d # ch_marking s\<rparr>)"
| ambiguous: "d \<in> set (ch_publishing s) \<Longrightarrow>
     publication_step s (s\<lparr>ch_publishing := remove1 d (ch_publishing s), ch_queue := d # ch_queue s\<rparr>)"
| lost: "d \<in> set (ch_publishing s) \<Longrightarrow>
     publication_step s (s\<lparr>ch_publishing := remove1 d (ch_publishing s)\<rparr>)"
| mark: "t \<in> set (ch_marking s) \<Longrightarrow>
     publication_step s (s\<lparr>ch_gate := snd (MARK_QUEUED_SCRIPT t (ch_gate s)), ch_marking := remove1 t (ch_marking s)\<rparr>)"

text \<open>\<open>batch cursor\<close> is the next cursor of the batch at \<open>cursor\<close>, \<open>None\<close> after the last one.\<close>

inductive gate_step :: "(string \<Rightarrow> string option) \<Rightarrow> chain \<Rightarrow> chain \<Rightarrow> bool" for batch where
  publication: "publication_step s s' \<Longrightarrow> gate_step batch s s'"
| deliver: "\<lbrakk>d \<in> set (ch_queue s); claim_delivery d (ch_gate s) = (True, gate)\<rbrakk> \<Longrightarrow>
     gate_step batch s (s\<lparr>ch_gate := gate, ch_workers := (d, Claimed) # ch_workers s\<rparr>)"
| stale: "\<lbrakk>d \<in> set (ch_queue s); claim_delivery d (ch_gate s) = (False, gate)\<rbrakk> \<Longrightarrow>
     gate_step batch s (s\<lparr>ch_queue := remove1 d (ch_queue s)\<rparr>)"
| lock: "\<lbrakk>(d, Claimed) \<in> set (ch_workers s); ch_lock s = None; CLAIM_SCRIPT (dl_task d) [] (ch_gate s) = (True, gate)\<rbrakk> \<Longrightarrow>
     gate_step batch s (s\<lparr>ch_gate := gate, ch_lock := Some (dl_task d),
       ch_workers := (d, Processing) # remove1 (d, Claimed) (ch_workers s)\<rparr>)"
| superseded: "\<lbrakk>(d, Claimed) \<in> set (ch_workers s); ch_lock s = None; CLAIM_SCRIPT (dl_task d) [] (ch_gate s) = (False, gate)\<rbrakk> \<Longrightarrow>
     gate_step batch s (retire d Claimed s)"
| busy: "\<lbrakk>(d, Claimed) \<in> set (ch_workers s); ch_lock s \<noteq> None\<rbrakk> \<Longrightarrow>
     gate_step batch s (s\<lparr>ch_workers := remove1 (d, Claimed) (ch_workers s)\<rparr>)"
| hand_over: "\<lbrakk>(d, Processing) \<in> set (ch_workers s); batch (dl_cursor d) = Some cursor; fresh_id s t;
     TRANSFER_SCRIPT now (dl_task d) t (ch_gate s) = (True, gate)\<rbrakk> \<Longrightarrow>
     gate_step batch s (s\<lparr>ch_gate := gate, ch_used := t # ch_used s,
       ch_publishing := \<lparr>dl_task = t, dl_cursor = cursor, dl_predecessor = Some (dl_task d)\<rparr> # ch_publishing s,
       ch_workers := (d, HandedOver t) # remove1 (d, Processing) (ch_workers s)\<rparr>)"
| handed_over: "\<lbrakk>(d, HandedOver t) \<in> set (ch_workers s); t \<notin> dl_task ` set (ch_publishing s)\<rbrakk> \<Longrightarrow>
     gate_step batch s ((retire d (HandedOver t) s)\<lparr>ch_lock := None\<rparr>)"
| hand_over_failed: "\<lbrakk>(d, HandedOver t) \<in> set (ch_workers s); t \<notin> dl_task ` set (ch_publishing s)\<rbrakk> \<Longrightarrow>
     gate_step batch s ((retire d (HandedOver t) s)\<lparr>ch_lock := None, ch_gate := snd (RELEASE_SCRIPT (dl_task d) (ch_gate s))\<rparr>)"
| complete: "\<lbrakk>(d, Processing) \<in> set (ch_workers s); batch (dl_cursor d) = None\<rbrakk> \<Longrightarrow>
     gate_step batch s ((retire d Processing s)\<lparr>ch_lock := None, ch_gate := snd (RELEASE_SCRIPT (dl_task d) (ch_gate s))\<rparr>)"
| failed: "(d, Processing) \<in> set (ch_workers s) \<Longrightarrow>
     gate_step batch s ((retire d Processing s)\<lparr>ch_lock := None, ch_gate := snd (RELEASE_SCRIPT (dl_task d) (ch_gate s))\<rparr>)"
| crash: "(d, st) \<in> set (ch_workers s) \<Longrightarrow>
     gate_step batch s (s\<lparr>ch_workers := remove1 (d, st) (ch_workers s)\<rparr>)"
| lock_expires: "gate_step batch s (s\<lparr>ch_lock := None\<rparr>)"
| owner_clear: "gate_step batch s (s\<lparr>ch_gate := snd (OWNER_CLEAR_SCRIPT t (ch_gate s))\<rparr>)"

definition reachable :: "(string \<Rightarrow> string option) \<Rightarrow> chain \<Rightarrow> bool" where
  "reachable batch s = (gate_step batch)\<^sup>*\<^sup>* idle s"

section \<open>Owners\<close>

definition gate_owner :: "string option \<Rightarrow> string option" where
  "gate_owner gate = map_option (\<lambda>v. case match_owner v of None \<Rightarrow> v | Some t \<Rightarrow> t) gate"

definition plain_id :: "string \<Rightarrow> bool" where
  "plain_id t = (t \<noteq> [] \<and> BAR \<notin> set t)"

text \<open>The values a gate takes: absent, a queued id, or the marker of one.\<close>

definition gate_of :: "string set \<Rightarrow> string option \<Rightarrow> bool" where
  "gate_of U gate = (gate = None \<or> (\<exists>t \<in> U. plain_id t \<and> (gate = Some t \<or> (\<exists>now. gate = Some (marker now t)))))"

lemma no_bar [simp]: "BAR \<notin> set (show_nat n)" "BAR \<notin> set ''publishing''" "show_nat n \<noteq> []"
proof -
  show "BAR \<notin> set (show_nat n)"
    using show_nat_digits [of n] by (auto simp: list_all_iff is_digit_def BAR_def)
  show "BAR \<notin> set ''publishing''" by (simp add: BAR_def)
  show "show_nat n \<noteq> []" by (subst show_nat.simps) simp
qed

lemma split_bar:
  "BAR \<notin> set xs \<Longrightarrow> takeWhile (\<lambda>c. c \<noteq> BAR) (xs @ BAR # ys) = xs"
  "BAR \<notin> set xs \<Longrightarrow> dropWhile (\<lambda>c. c \<noteq> BAR) (xs @ BAR # ys) = BAR # ys"
  by (induction xs) auto

lemma match_owner_marker [simp]: "t \<noteq> [] \<Longrightarrow> match_owner (marker now t) = Some t"
  using split_bar [of "''publishing''" "show_nat now @ BAR # t"] split_bar [of "show_nat now" t]
  by (simp add: match_owner_def marker_def Let_def del: no_bar(2)) (simp add: BAR_def)

lemma match_owner_plain [simp]: "plain_id t \<Longrightarrow> match_owner t = None"
proof -
  assume "plain_id t"
  then have "dropWhile (\<lambda>c. c \<noteq> BAR) t = []" by (auto simp: plain_id_def)
  then show ?thesis by (simp add: match_owner_def)
qed

lemma marker_not_plain [simp]: "\<not> plain_id (marker now t)"
  by (simp add: plain_id_def marker_def)

lemma gate_ofE:
  assumes "gate_of U gate"
  obtains (absent) "gate = None" | (queued) t where "t \<in> U" "plain_id t" "gate = Some t" "gate_owner gate = Some t"
  | (publishing) t now where "t \<in> U" "plain_id t" "gate = Some (marker now t)" "gate_owner gate = Some t"
  using assms by (auto simp: gate_of_def gate_owner_def plain_id_def)

lemma gate_of_mono: "gate_of U gate \<Longrightarrow> U \<subseteq> V \<Longrightarrow> gate_of V gate"
  by (auto simp: gate_of_def)

lemma owned_iff:
  assumes "gate_of U (Some v)" and "plain_id u"
  shows "owned v u \<longleftrightarrow> gate_owner (Some v) = Some u"
  using assms(1)
proof (cases rule: gate_ofE)
  case (publishing t now)
  then have "v \<noteq> u" using assms(2) marker_not_plain by blast
  with publishing show ?thesis by (auto simp: owned_def plain_id_def)
qed (auto simp: owned_def)

text \<open>What the scripts do to a gate, in terms of its owner.\<close>

lemma script_results:
  assumes "gate_of U gate" and "plain_id u"
  shows "RELEASE_SCRIPT u gate = (if gate_owner gate = Some u then (True, None) else (False, gate))"
    and "MARK_QUEUED_SCRIPT u gate = (if gate_owner gate = Some u then (True, Some u) else (False, gate))"
    and "gate_owner gate \<noteq> Some a \<Longrightarrow> plain_id a \<Longrightarrow>
      CLAIM_SCRIPT u a gate = (if gate_owner gate = Some u then (True, Some u) else (False, gate))"
    and "CLAIM_SCRIPT u [] gate = (if gate_owner gate = Some u then (True, Some u) else (False, gate))"
proof -
  show "RELEASE_SCRIPT u gate = (if gate_owner gate = Some u then (True, None) else (False, gate))"
    "MARK_QUEUED_SCRIPT u gate = (if gate_owner gate = Some u then (True, Some u) else (False, gate))"
    "CLAIM_SCRIPT u [] gate = (if gate_owner gate = Some u then (True, Some u) else (False, gate))"
    using assms owned_iff [OF _ assms(2), of U]
    by (cases gate; simp add: RELEASE_SCRIPT_def MARK_QUEUED_SCRIPT_def CLAIM_SCRIPT_def gate_owner_def [of None])+
  assume a: "gate_owner gate \<noteq> Some a" "plain_id a"
  have "gate \<noteq> Some a" using a by (auto simp: gate_owner_def)
  then show "CLAIM_SCRIPT u a gate = (if gate_owner gate = Some u then (True, Some u) else (False, gate))"
    using assms owned_iff [OF _ assms(2), of U]
    by (cases gate) (auto simp: CLAIM_SCRIPT_def gate_owner_def [of None])
qed

lemma gate_owner_simps [simp]:
  "gate_owner None = None" "plain_id t \<Longrightarrow> gate_owner (Some t) = Some t" "t \<noteq> [] \<Longrightarrow> gate_owner (Some (marker now t)) = Some t"
  by (simp_all add: gate_owner_def)

section \<open>The invariant\<close>

definition deliveries :: "chain \<Rightarrow> delivery set" where
  "deliveries s = set (ch_publishing s) \<union> set (ch_queue s) \<union> fst ` set (ch_workers s)"

text \<open>Every delivery belongs to an id that was drawn, and its predecessor no longer owns the gate.\<close>

definition chain_inv :: "chain \<Rightarrow> bool" where
  "chain_inv s =
     ((\<forall>t \<in> set (ch_used s). plain_id t) \<and> gate_of (set (ch_used s)) (ch_gate s)
      \<and> set (ch_marking s) \<subseteq> set (ch_used s)
      \<and> (\<forall>d \<in> deliveries s. dl_task d \<in> set (ch_used s)
           \<and> (\<forall>a. dl_predecessor d = Some a \<longrightarrow> a \<in> set (ch_used s) \<and> gate_owner (ch_gate s) \<noteq> Some a)))"

text \<open>The gate stays with its owner, becomes free, or goes to an id that was just drawn.\<close>

definition owner_moves :: "chain \<Rightarrow> chain \<Rightarrow> bool" where
  "owner_moves s s' =
     (set (ch_used s) \<subseteq> set (ch_used s')
      \<and> (\<forall>t \<in> set (ch_used s). gate_owner (ch_gate s') = Some t \<longrightarrow> gate_owner (ch_gate s) = Some t))"

lemma claim_delivery_result:
  assumes "chain_inv s" and "d \<in> deliveries s"
  shows "claim_delivery d (ch_gate s) =
    (if gate_owner (ch_gate s) = Some (dl_task d) then (True, Some (dl_task d)) else (False, ch_gate s))"
proof -
  from assms have d: "gate_of (set (ch_used s)) (ch_gate s)" "plain_id (dl_task d)"
    "\<And>a. dl_predecessor d = Some a \<Longrightarrow> plain_id a \<and> gate_owner (ch_gate s) \<noteq> Some a"
    by (auto simp: chain_inv_def)
  show ?thesis
    using script_results(3,4) [OF d(1,2)] d(3) by (cases "dl_predecessor d") (simp_all add: claim_delivery_def)
qed

lemma chain_invI:
  assumes inv: "chain_inv s" and used: "ch_used s' = ch_used s" and marking: "set (ch_marking s') \<subseteq> set (ch_used s)"
    and del: "deliveries s' \<subseteq> deliveries s"
    and gate: "ch_gate s' = ch_gate s \<or> ch_gate s' = None
      \<or> (\<exists>t \<in> set (ch_used s). ch_gate s' = Some t \<and> gate_owner (ch_gate s) = Some t)"
  shows "chain_inv s' \<and> owner_moves s s'"
proof -
  have plain: "\<forall>t \<in> set (ch_used s). plain_id t" using inv by (simp add: chain_inv_def)
  have owner: "gate_owner (ch_gate s') = gate_owner (ch_gate s) \<or> gate_owner (ch_gate s') = None"
    using gate plain by auto
  have "gate_of (set (ch_used s)) (ch_gate s)" using inv by (simp add: chain_inv_def)
  then have "gate_of (set (ch_used s)) (ch_gate s')"
  proof -
    assume old: "gate_of (set (ch_used s)) (ch_gate s)"
    consider "ch_gate s' = ch_gate s" | "ch_gate s' = None" | t where "t \<in> set (ch_used s)" "ch_gate s' = Some t"
      using gate by metis
    then show ?thesis
    proof cases
      case (3 t)
      with plain have "plain_id t" by simp
      with 3 show ?thesis unfolding gate_of_def by (intro disjI2 bexI [of _ t]) simp_all
    qed (use old in \<open>simp_all add: gate_of_def [of _ None]\<close>)
  qed
  moreover have "\<forall>d \<in> deliveries s'. dl_task d \<in> set (ch_used s)
      \<and> (\<forall>a. dl_predecessor d = Some a \<longrightarrow> a \<in> set (ch_used s) \<and> gate_owner (ch_gate s') \<noteq> Some a)"
  proof
    fix d assume "d \<in> deliveries s'"
    with del inv have "dl_task d \<in> set (ch_used s)
      \<and> (\<forall>a. dl_predecessor d = Some a \<longrightarrow> a \<in> set (ch_used s) \<and> gate_owner (ch_gate s) \<noteq> Some a)"
      by (auto simp: chain_inv_def)
    with owner show "dl_task d \<in> set (ch_used s)
      \<and> (\<forall>a. dl_predecessor d = Some a \<longrightarrow> a \<in> set (ch_used s) \<and> gate_owner (ch_gate s') \<noteq> Some a)" by auto
  qed
  ultimately show ?thesis
    using plain used marking owner by (auto simp: chain_inv_def owner_moves_def)
qed

lemma fresh_owner:
  assumes inv: "chain_inv s" and "fresh_id s t" and gate: "ch_gate s' = Some (marker now t)"
    and used: "ch_used s' = t # ch_used s" and marking: "ch_marking s' = ch_marking s"
    and del: "deliveries s' \<subseteq> insert \<lparr>dl_task = t, dl_cursor = cursor, dl_predecessor = p\<rparr> (deliveries s)"
    and pred: "\<And>a. p = Some a \<Longrightarrow> a \<in> set (ch_used s)"
  shows "chain_inv s' \<and> owner_moves s s'"
proof -
  from assms(2) have t: "plain_id t" "t \<notin> set (ch_used s)" by (simp_all add: fresh_id_def plain_id_def)
  then have owner: "gate_owner (ch_gate s') = Some t" by (simp add: gate plain_id_def)
  have "gate_of (set (ch_used s')) (ch_gate s')" using t(1) by (auto simp: gate_of_def gate used)
  moreover have "\<forall>d \<in> deliveries s'. dl_task d \<in> set (ch_used s')
      \<and> (\<forall>a. dl_predecessor d = Some a \<longrightarrow> a \<in> set (ch_used s') \<and> gate_owner (ch_gate s') \<noteq> Some a)"
    using inv del pred t(2) unfolding chain_inv_def owner used by fastforce
  ultimately show ?thesis
    using inv t by (auto simp: chain_inv_def owner_moves_def used marking owner)
qed

lemma fst_remove1 [dest]: "(a, b) \<in> set (remove1 x ws) \<Longrightarrow> a \<in> fst ` set ws"
  using notin_set_remove1 [of "(a, b)" ws x] by (force intro: rev_image_eqI)

lemma deliveries_retire:
  "deliveries ((retire d st s)\<lparr>ch_lock := l\<rparr>) \<subseteq> deliveries s"
  "deliveries (retire d st s) \<subseteq> deliveries s"
  by (auto simp: deliveries_def retire_def dest: notin_set_remove1)

lemma release_gate:
  assumes "chain_inv s" and "t \<in> set (ch_used s)"
  shows "snd (RELEASE_SCRIPT t (ch_gate s)) = ch_gate s \<or> snd (RELEASE_SCRIPT t (ch_gate s)) = None"
  using assms script_results(1) [of "set (ch_used s)" "ch_gate s" t] by (auto simp: chain_inv_def)

lemma owner_clear_gate: "snd (OWNER_CLEAR_SCRIPT t gate) = gate \<or> snd (OWNER_CLEAR_SCRIPT t gate) = None"
  by (auto simp: OWNER_CLEAR_SCRIPT_def split: option.split)

lemma worker_delivery: "(d, st) \<in> set (ch_workers s) \<Longrightarrow> d \<in> deliveries s"
  unfolding deliveries_def by (auto intro: rev_image_eqI)

lemma worker_used:
  assumes "chain_inv s" and "(d, st) \<in> set (ch_workers s)"
  shows "dl_task d \<in> set (ch_used s) \<and> plain_id (dl_task d)"
proof -
  have "d \<in> deliveries s" using assms(2) by (rule worker_delivery)
  with assms(1) have "dl_task d \<in> set (ch_used s)" by (simp add: chain_inv_def)
  with assms(1) show ?thesis by (simp add: chain_inv_def)
qed

lemma publication_step_inv:
  assumes "publication_step s s'" and inv: "chain_inv s"
  shows "chain_inv s' \<and> owner_moves s s'"
  using assms(1)
proof (cases rule: publication_step.cases)
  case (publish t now owner gate)
  then have "gate = Some (marker now t)" by (auto simp: ROOT_CLAIM_SCRIPT_def split: option.splits)
  with publish show ?thesis
    by (intro fresh_owner [OF inv publish(2), where now = now and cursor = "[]" and p = None]) (auto simp: deliveries_def)
next
  case (accepted d)
  with inv show ?thesis
    by (intro chain_invI) (auto simp: deliveries_def chain_inv_def dest: notin_set_remove1)
next
  case (ambiguous d)
  with inv show ?thesis by (intro chain_invI) (auto simp: deliveries_def chain_inv_def dest: notin_set_remove1)
next
  case (lost d)
  with inv show ?thesis by (intro chain_invI) (auto simp: deliveries_def chain_inv_def dest: notin_set_remove1)
next
  case (mark t)
  with inv have t: "t \<in> set (ch_used s)" "plain_id t" "gate_of (set (ch_used s)) (ch_gate s)" by (auto simp: chain_inv_def)
  with mark inv script_results(2) [OF t(3,2)] show ?thesis
    by (intro chain_invI) (auto simp: deliveries_def chain_inv_def dest: notin_set_remove1)
qed

lemma gate_step_inv:
  assumes "gate_step batch s s'" and inv: "chain_inv s"
  shows "chain_inv s' \<and> owner_moves s s'"
  using assms(1)
proof (cases rule: gate_step.cases)
  case publication
  then show ?thesis using publication_step_inv inv by blast
next
  case (deliver d gate)
  then have d: "d \<in> deliveries s" by (simp add: deliveries_def)
  with inv have "dl_task d \<in> set (ch_used s)" by (simp add: chain_inv_def)
  with deliver inv claim_delivery_result [OF inv d] show ?thesis
    by (intro chain_invI) (auto simp: deliveries_def chain_inv_def split: if_splits)
next
  case (stale d gate)
  with inv show ?thesis by (intro chain_invI) (auto simp: deliveries_def chain_inv_def dest: notin_set_remove1)
next
  case (lock d gate)
  have used: "dl_task d \<in> set (ch_used s)" "plain_id (dl_task d)" using worker_used [OF inv lock(2)] by simp_all
  have "gate_of (set (ch_used s)) (ch_gate s)" using inv by (simp add: chain_inv_def)
  from script_results(4) [OF this used(2)] lock(4) have "gate = Some (dl_task d)" "gate_owner (ch_gate s) = Some (dl_task d)"
    by (simp_all split: if_splits)
  moreover have "deliveries s' \<subseteq> deliveries s"
    using worker_delivery [OF lock(2)] by (auto simp: lock(1) deliveries_def dest: notin_set_remove1)
  moreover have "set (ch_marking s) \<subseteq> set (ch_used s)" using inv by (simp add: chain_inv_def)
  ultimately show ?thesis using used(1) by (intro chain_invI [OF inv]) (simp_all add: lock(1))
next
  case (superseded d gate)
  with inv deliveries_retire(2) [where d = d and st = Claimed and s = s] show ?thesis
    by (intro chain_invI) (auto simp: retire_def chain_inv_def)
next
  case (busy d)
  with inv show ?thesis by (intro chain_invI) (auto simp: deliveries_def chain_inv_def dest: notin_set_remove1)
next
  case (hand_over d cursor t now gate)
  then have "gate = Some (marker now t)" by (auto simp: TRANSFER_SCRIPT_def split: if_splits)
  with hand_over worker_used [OF inv hand_over(2)] show ?thesis
    by (intro fresh_owner [OF inv hand_over(4), where now = now and cursor = cursor and p = "Some (dl_task d)"])
       (use worker_delivery [OF hand_over(2)] in \<open>auto simp: deliveries_def dest: notin_set_remove1\<close>)
next
  case (handed_over d t)
  with inv deliveries_retire(1) [where d = d and st = "HandedOver t" and s = s and l = None] show ?thesis
    by (intro chain_invI) (auto simp: retire_def chain_inv_def)
next
  case (hand_over_failed d t)
  with inv deliveries_retire(1) [where d = d and st = "HandedOver t" and s = s and l = None] release_gate [OF inv] worker_used [OF inv hand_over_failed(2)] show ?thesis
    by (intro chain_invI) (auto simp: retire_def chain_inv_def deliveries_def)
next
  case (complete d)
  with inv deliveries_retire(1) [where d = d and st = "Processing" and s = s and l = None] release_gate [OF inv] worker_used [OF inv complete(2)] show ?thesis
    by (intro chain_invI) (auto simp: retire_def chain_inv_def deliveries_def)
next
  case (failed d)
  with inv deliveries_retire(1) [where d = d and st = "Processing" and s = s and l = None] release_gate [OF inv] worker_used [OF inv failed(2)] show ?thesis
    by (intro chain_invI) (auto simp: retire_def chain_inv_def deliveries_def)
next
  case (crash d st)
  with inv show ?thesis by (intro chain_invI) (auto simp: deliveries_def chain_inv_def dest: notin_set_remove1)
next
  case lock_expires
  with inv show ?thesis by (intro chain_invI) (auto simp: deliveries_def chain_inv_def)
next
  case (owner_clear t)
  with inv owner_clear_gate [of t "ch_gate s"] show ?thesis by (intro chain_invI) (auto simp: deliveries_def chain_inv_def)
qed

lemma steps_inv:
  assumes "(gate_step batch)\<^sup>*\<^sup>* s s'" and "chain_inv s"
  shows "chain_inv s' \<and> owner_moves s s'"
  using assms
proof (induction rule: rtranclp_induct)
  case base
  then show ?case by (simp add: owner_moves_def)
next
  case (step y z)
  then have "chain_inv y" "owner_moves s y" "chain_inv z" "owner_moves y z" using gate_step_inv by blast+
  then show ?case unfolding owner_moves_def by blast
qed

lemma reachable_inv: "reachable batch s \<Longrightarrow> chain_inv s"
proof -
  have "chain_inv idle" by (simp add: chain_inv_def idle_def gate_of_def deliveries_def)
  then show "reachable batch s \<Longrightarrow> chain_inv s" using steps_inv by (auto simp: reachable_def)
qed

section \<open>The chain of batches\<close>

lemma fresh_exists: "\<exists>t. fresh_id s t"
proof -
  have "finite ((\<lambda>n. replicate (Suc n) (CHR ''a'')) -` set (ch_used s))"
    by (rule finite_vimageI) (auto simp: inj_on_def)
  then obtain n where "replicate (Suc n) (CHR ''a'') \<notin> set (ch_used s)"
    using infinite_UNIV_nat by (metis (mono_tags, lifting) UNIV_eq_I vimage_eq)
  then show ?thesis by (intro exI [of _ "replicate (Suc n) (CHR ''a'')"]) (simp add: fresh_id_def BAR_def)
qed

text \<open>The steps of an undisturbed sweep: no operator, crash, failure, lost message or redelivery. A step
  that ends the processing of a batch names the cursor of that batch.\<close>

inductive sweep_step :: "(string \<Rightarrow> string option) \<Rightarrow> chain \<Rightarrow> string option \<Rightarrow> chain \<Rightarrow> bool" for batch where
  accepted: "d \<in> set (ch_publishing s) \<Longrightarrow>
     sweep_step batch s None (s\<lparr>ch_publishing := remove1 d (ch_publishing s), ch_queue := d # ch_queue s,
       ch_marking := dl_task d # ch_marking s\<rparr>)"
| deliver: "\<lbrakk>d \<in> set (ch_queue s); claim_delivery d (ch_gate s) = (True, gate)\<rbrakk> \<Longrightarrow>
     sweep_step batch s None (s\<lparr>ch_gate := gate, ch_workers := (d, Claimed) # ch_workers s\<rparr>)"
| lock: "\<lbrakk>(d, Claimed) \<in> set (ch_workers s); ch_lock s = None; CLAIM_SCRIPT (dl_task d) [] (ch_gate s) = (True, gate)\<rbrakk> \<Longrightarrow>
     sweep_step batch s None (s\<lparr>ch_gate := gate, ch_lock := Some (dl_task d),
       ch_workers := (d, Processing) # remove1 (d, Claimed) (ch_workers s)\<rparr>)"
| hand_over: "\<lbrakk>(d, Processing) \<in> set (ch_workers s); batch (dl_cursor d) = Some cursor; fresh_id s t;
     TRANSFER_SCRIPT now (dl_task d) t (ch_gate s) = (True, gate)\<rbrakk> \<Longrightarrow>
     sweep_step batch s (Some (dl_cursor d)) (s\<lparr>ch_gate := gate, ch_used := t # ch_used s,
       ch_publishing := \<lparr>dl_task = t, dl_cursor = cursor, dl_predecessor = Some (dl_task d)\<rparr> # ch_publishing s,
       ch_workers := (d, HandedOver t) # remove1 (d, Processing) (ch_workers s)\<rparr>)"
| handed_over: "\<lbrakk>(d, HandedOver t) \<in> set (ch_workers s); t \<notin> dl_task ` set (ch_publishing s)\<rbrakk> \<Longrightarrow>
     sweep_step batch s None ((retire d (HandedOver t) s)\<lparr>ch_lock := None\<rparr>)"
| complete: "\<lbrakk>(d, Processing) \<in> set (ch_workers s); batch (dl_cursor d) = None\<rbrakk> \<Longrightarrow>
     sweep_step batch s (Some (dl_cursor d)) ((retire d Processing s)\<lparr>ch_lock := None,
       ch_gate := snd (RELEASE_SCRIPT (dl_task d) (ch_gate s))\<rparr>)"

text \<open>A sequence of such steps with the cursors of the batches it processed, in order.\<close>

inductive sweep :: "(string \<Rightarrow> string option) \<Rightarrow> chain \<Rightarrow> string list \<Rightarrow> chain \<Rightarrow> bool" for batch where
  rest: "sweep batch s [] s"
| silent: "sweep_step batch s None s' \<Longrightarrow> sweep batch s' cs s'' \<Longrightarrow> sweep batch s cs s''"
| processed: "sweep_step batch s (Some c) s' \<Longrightarrow> sweep batch s' cs s'' \<Longrightarrow> sweep batch s (c # cs) s''"

text \<open>The cursors of a whole sweep from \<open>c\<close>: each batch at the cursor the one before it answered, up to the
  batch that answers none.\<close>

fun whole_sweep :: "(string \<Rightarrow> string option) \<Rightarrow> string \<Rightarrow> string list \<Rightarrow> bool" where
  "whole_sweep batch c [] = False"
| "whole_sweep batch c (c' # cs) =
     (c' = c \<and> (case batch c of None \<Rightarrow> cs = [] | Some n \<Rightarrow> whole_sweep batch n cs))"

lemma sweep_step_gate_step: "sweep_step batch s l s' \<Longrightarrow> gate_step batch s s'"
  by (cases rule: sweep_step.cases)
     (auto intro: gate_step.publication publication_step.accepted gate_step.deliver gate_step.lock gate_step.hand_over
       gate_step.handed_over gate_step.complete)

lemma sweep_gate_steps: "sweep batch s cs s' \<Longrightarrow> (gate_step batch)\<^sup>*\<^sup>* s s'"
  by (induction rule: sweep.induct) (auto intro: sweep_step_gate_step converse_rtranclp_into_rtranclp)

lemma sweep_trans: "sweep batch s cs s' \<Longrightarrow> sweep batch s' ds s'' \<Longrightarrow> sweep batch s (cs @ ds) s''"
  by (induction rule: sweep.induct) (auto intro: sweep.silent sweep.processed)

lemma sweep_silent: "sweep_step batch s None s' \<Longrightarrow> sweep batch s [] s'"
  by (rule sweep.silent [OF _ sweep.rest])

lemma start_batch:
  assumes inv: "chain_inv s" and d: "d \<in> set (ch_queue s)" and owner: "gate_owner (ch_gate s) = Some (dl_task d)"
    and "ch_lock s = None"
  obtains s' where "sweep batch s [] s'" "ch_gate s' = Some (dl_task d)" "(d, Processing) \<in> set (ch_workers s')"
proof -
  let ?t = "dl_task d"
  have del: "d \<in> deliveries s" using d by (simp add: deliveries_def)
  have t: "plain_id ?t" "?t \<in> set (ch_used s)" using inv del by (auto simp: chain_inv_def)
  let ?s1 = "s\<lparr>ch_gate := Some ?t, ch_workers := (d, Claimed) # ch_workers s\<rparr>"
  have 1: "sweep_step batch s None ?s1"
    by (rule sweep_step.deliver [OF d]) (simp add: claim_delivery_result [OF inv del] owner)
  have "gate_of {?t} (Some ?t)" using t(1) by (simp add: gate_of_def)
  from script_results(4) [OF this t(1)] t(1) have claim: "CLAIM_SCRIPT ?t [] (ch_gate ?s1) = (True, Some ?t)" by simp
  have 2: "sweep_step batch ?s1 None (?s1\<lparr>ch_gate := Some ?t, ch_lock := Some ?t,
       ch_workers := (d, Processing) # remove1 (d, Claimed) (ch_workers ?s1)\<rparr>)"
    by (rule sweep_step.lock [OF _ _ claim]) (simp_all add: assms(4))
  from sweep.silent [OF 1 sweep_silent [OF 2]] show ?thesis by (rule that) simp_all
qed

lemma next_batch:
  assumes inv: "chain_inv s" and gate: "ch_gate s = Some (dl_task d)" and w: "(d, Processing) \<in> set (ch_workers s)"
    and more: "batch (dl_cursor d) = Some cursor"
  obtains s' d' where "sweep batch s [dl_cursor d] s'" "d' \<in> set (ch_queue s')" "dl_cursor d' = cursor"
    "gate_owner (ch_gate s') = Some (dl_task d')" "ch_lock s' = None"
proof -
  obtain t where t: "fresh_id s t" using fresh_exists by blast
  let ?d = "\<lparr>dl_task = t, dl_cursor = cursor, dl_predecessor = Some (dl_task d)\<rparr>"
  let ?s1 = "s\<lparr>ch_gate := Some (marker 0 t), ch_used := t # ch_used s, ch_publishing := ?d # ch_publishing s,
       ch_workers := (d, HandedOver t) # remove1 (d, Processing) (ch_workers s)\<rparr>"
  have 1: "sweep_step batch s (Some (dl_cursor d)) ?s1"
    using sweep_step.hand_over [where d = d and s = s and batch = batch and cursor = cursor and t = t and now = 0
        and gate = "Some (marker 0 t)"] w more t gate
    by (simp add: TRANSFER_SCRIPT_def)
  let ?s2 = "?s1\<lparr>ch_publishing := remove1 ?d (ch_publishing ?s1), ch_queue := ?d # ch_queue ?s1, ch_marking := dl_task ?d # ch_marking ?s1\<rparr>"
  have 2: "sweep_step batch ?s1 None ?s2" by (rule sweep_step.accepted) simp
  have used: "dl_task x \<in> set (ch_used s)" if "x \<in> deliveries s" for x using inv that by (simp add: chain_inv_def)
  have "t \<notin> dl_task ` set (ch_publishing s)" using t used by (auto simp: fresh_id_def deliveries_def)
  then have 3: "sweep_step batch ?s2 None ((retire d (HandedOver t) ?s2)\<lparr>ch_lock := None\<rparr>)"
    by (intro sweep_step.handed_over) simp_all
  have "dl_task d \<in> set (ch_used s)" using used [of d] w by (force simp: deliveries_def)
  then have "dl_task ?d \<noteq> dl_task d" using t by (auto simp: fresh_id_def)
  then have "?d \<noteq> d" by metis
  moreover have "t \<noteq> []" using t by (simp add: fresh_id_def)
  moreover note sweep.processed [OF 1 sweep.silent [OF 2 sweep_silent [OF 3]]]
  ultimately show ?thesis
    by (intro that [of "(retire d (HandedOver t) ?s2)\<lparr>ch_lock := None\<rparr>" ?d]) (simp_all add: retire_def)
qed

lemma chain_completes:
  assumes "wf {(c', c). batch c = Some c'}" and "chain_inv s" and "d \<in> set (ch_queue s)"
    and "gate_owner (ch_gate s) = Some (dl_task d)" and "ch_lock s = None"
  shows "\<exists>cs s'. sweep batch s cs s' \<and> whole_sweep batch (dl_cursor d) cs \<and> ch_gate s' = None"
  using assms
proof (induction "dl_cursor d" arbitrary: s d rule: wf_induct_rule [OF assms(1)])
  case less: (1 d s)
  obtain s1 where s1: "sweep batch s [] s1" "ch_gate s1 = Some (dl_task d)" "(d, Processing) \<in> set (ch_workers s1)"
    using start_batch [OF less.prems(2-5), where batch = batch] by auto
  have inv1: "chain_inv s1" using steps_inv [OF sweep_gate_steps [OF s1(1)] less.prems(2)] by blast
  show ?case
  proof (cases "batch (dl_cursor d)")
    case None
    have t: "plain_id (dl_task d)" using worker_used [OF inv1 s1(3)] by blast
    have "gate_of {dl_task d} (Some (dl_task d))" using t by (simp add: gate_of_def)
    from script_results(1) [OF this t] t have free: "snd (RELEASE_SCRIPT (dl_task d) (ch_gate s1)) = None" by (simp add: s1(2))
    note sweep_trans [OF s1(1) sweep.processed [OF sweep_step.complete [of d s1 batch, OF s1(3) None] sweep.rest]]
    then show ?thesis
      by (intro exI [of _ "[dl_cursor d]"] exI conjI, assumption) (simp_all add: None free)
  next
    case (Some cursor)
    obtain s2 d2 where s2: "sweep batch s1 [dl_cursor d] s2" "d2 \<in> set (ch_queue s2)" "dl_cursor d2 = cursor"
      "gate_owner (ch_gate s2) = Some (dl_task d2)" "ch_lock s2 = None"
      by (rule next_batch [where d = d and s = s1 and batch = batch and cursor = cursor]) (use inv1 s1 Some in simp_all)
    have "\<exists>cs s'. sweep batch s2 cs s' \<and> whole_sweep batch (dl_cursor d2) cs \<and> ch_gate s' = None"
      by (rule less.hyps [of d2 s2])
         (use Some s2 steps_inv [OF sweep_gate_steps [OF s2(1)] inv1] assms(1) in simp_all)
    then obtain cs s' where rest: "sweep batch s2 cs s'" "whole_sweep batch cursor cs" "ch_gate s' = None"
      using s2(3) by blast
    from sweep_trans [OF sweep_trans [OF s1(1) s2(1)] rest(1)] rest(2,3) show ?thesis
      by (intro exI [of _ "dl_cursor d # cs"] exI [of _ s']) (simp add: Some)
  qed
qed

section \<open>Properties\<close>

text \<open>C29: a task that lost the gate never gets it back, so the chain of batches does not fork: however
  publishers, broker, workers, redeliveries, crashes and the operator interleave, once the gate does
  not belong to a drawn id any more, it never does again, and every delivery of that id is turned
  away, its predecessor clause included.\<close>

theorem gate_never_returns:
  assumes "reachable batch s" and "t \<in> set (ch_used s)" and "gate_owner (ch_gate s) \<noteq> Some t"
    and "(gate_step batch)\<^sup>*\<^sup>* s s'"
  shows "gate_owner (ch_gate s') \<noteq> Some t
     \<and> (\<forall>d \<in> deliveries s'. dl_task d = t \<longrightarrow> claim_delivery d (ch_gate s') = (False, ch_gate s'))"
proof -
  from steps_inv [OF assms(4) reachable_inv [OF assms(1)]] have inv: "chain_inv s'" "owner_moves s s'" by simp_all
  with assms(2,3) have "gate_owner (ch_gate s') \<noteq> Some t" by (auto simp: owner_moves_def)
  with claim_delivery_result [OF inv(1)] show ?thesis by auto
qed

text \<open>C30: from every state of the queue in which the owner of the gate has a delivery waiting, whatever
  went wrong before, the sweep can be finished by the workers and the broker alone, once the
  lock has expired that a crashed worker may have left: undisturbed steps process exactly the batches from the
  cursor of that delivery to the last one, in order, each handing the gate over to the next, and
  the last one frees it, provided that the cursors cannot go on forever. No step of the operator is
  needed.\<close>

theorem gate_is_released:
  assumes "reachable batch s" and "d \<in> set (ch_queue s)" and "gate_owner (ch_gate s) = Some (dl_task d)"
    and "wf {(c', c). batch c = Some c'}"
  shows "\<exists>cs s'. sweep batch (s\<lparr>ch_lock := None\<rparr>) cs s' \<and> whole_sweep batch (dl_cursor d) cs
     \<and> ch_gate s' = None \<and> reachable batch s'"
proof -
  let ?u = "s\<lparr>ch_lock := None\<rparr>"
  have u: "(gate_step batch)\<^sup>*\<^sup>* s ?u" by (rule r_into_rtranclp) (rule gate_step.lock_expires)
  have inv: "chain_inv ?u" using steps_inv [OF u reachable_inv [OF assms(1)]] by blast
  obtain cs s' where run: "sweep batch ?u cs s'" "whole_sweep batch (dl_cursor d) cs" "ch_gate s' = None"
    using chain_completes [OF assms(4) inv, of d] assms(2,3) by auto
  have "reachable batch s'"
    using assms(1) u sweep_gate_steps [OF run(1)] unfolding reachable_def by (meson rtranclp_trans)
  with run show ?thesis by blast
qed

section \<open>A concrete queue\<close>

definition waiting :: chain where
  "waiting = \<lparr>ch_gate = Some (marker 7 ''t1''), ch_lock = None, ch_publishing = [],
     ch_queue = [\<lparr>dl_task = ''t1'', dl_cursor = [], dl_predecessor = None\<rparr>], ch_marking = [], ch_workers = [],
     ch_used = [''t1'']\<rparr>"

definition two_batches :: "string \<Rightarrow> string option" where
  "two_batches c = (if c = [] then Some ''k1'' else None)"

lemma waiting_reachable: "reachable two_batches waiting"
proof -
  let ?d = "\<lparr>dl_task = ''t1'', dl_cursor = [], dl_predecessor = None\<rparr>"
  let ?s = "idle\<lparr>ch_gate := Some (marker 7 ''t1''), ch_used := ''t1'' # ch_used idle, ch_publishing := ?d # ch_publishing idle\<rparr>"
  have "gate_step two_batches idle ?s"
    by (intro gate_step.publication publication_step.publish [where now = 7 and owner = "''t1''"])
       (simp_all add: fresh_id_def idle_def BAR_def ROOT_CLAIM_SCRIPT_def)
  then have "(gate_step two_batches)\<^sup>*\<^sup>* idle ?s" by (rule r_into_rtranclp)
  moreover have "gate_step two_batches ?s (?s\<lparr>ch_publishing := remove1 ?d (ch_publishing ?s), ch_queue := ?d # ch_queue ?s\<rparr>)"
    by (intro gate_step.publication publication_step.ambiguous) simp
  ultimately have "reachable two_batches (?s\<lparr>ch_publishing := remove1 ?d (ch_publishing ?s), ch_queue := ?d # ch_queue ?s\<rparr>)"
    unfolding reachable_def by (rule rtranclp.rtrancl_into_rtrancl)
  then show ?thesis by (simp add: waiting_def idle_def)
qed

theorem gate_is_released_witness:
  "\<exists>s'. sweep two_batches waiting [[], ''k1''] s' \<and> ch_gate s' = None"
proof -
  have "{(c', c). two_batches c = Some c'} \<subseteq> measure (\<lambda>c. if c = [] then 1 else 0)"
    by (auto simp: two_batches_def split: if_splits)
  then have "wf {(c', c). two_batches c = Some c'}" by (rule wf_subset [OF wf_measure])
  then have "\<exists>cs s'. sweep two_batches (waiting\<lparr>ch_lock := None\<rparr>) cs s' \<and> whole_sweep two_batches [] cs
     \<and> ch_gate s' = None \<and> reachable two_batches s'"
    using gate_is_released [OF waiting_reachable, of "\<lparr>dl_task = ''t1'', dl_cursor = [], dl_predecessor = None\<rparr>"]
    by (simp add: waiting_def)
  then obtain cs s' where run: "sweep two_batches waiting cs s'" "whole_sweep two_batches [] cs" "ch_gate s' = None"
    by (auto simp: waiting_def)
  have "cs = [[], ''k1'']"
    using run(2) by (cases cs; cases "tl cs") (auto simp: two_batches_def)
  with run show ?thesis by blast
qed

theorem gate_never_returns_witness:
  "\<exists>s. reachable two_batches s \<and> ch_queue s \<noteq> []
     \<and> (\<forall>d \<in> set (ch_queue s). claim_delivery d (ch_gate s) = (False, None))"
proof -
  let ?s = "waiting\<lparr>ch_gate := snd (OWNER_CLEAR_SCRIPT ''t1'' (ch_gate waiting))\<rparr>"
  have gate: "ch_gate ?s = None" by (simp add: OWNER_CLEAR_SCRIPT_def waiting_def owned_def)
  have "gate_step two_batches waiting ?s" by (rule gate_step.owner_clear)
  with waiting_reachable have s: "reachable two_batches ?s"
    unfolding reachable_def by (rule rtranclp.rtrancl_into_rtrancl)
  have "gate_owner (ch_gate ?s) \<noteq> Some ''t1''" by (simp only: gate gate_owner_simps) simp
  from gate_never_returns [OF s _ this rtranclp.rtrancl_refl] gate have
    "\<forall>d \<in> deliveries ?s. dl_task d = ''t1'' \<longrightarrow> claim_delivery d None = (False, None)"
    by (simp add: waiting_def)
  with s gate show ?thesis by (intro exI [of _ ?s]) (auto simp: waiting_def deliveries_def)
qed

end
