(* ===== verification/IdentityLinks.thy ===== *)
theory IdentityLinks
  imports SourceKeys Graph
begin

text \<open>
  The identity-link revision stream of the API service: which external CRM record is which person, as
  an append-only stream with one head for each link (\<open>identity_link_types.py\<close>,
  \<open>identity_link_revisions.py\<close> of both services, \<open>graph/queries/identity_link_revisions.py\<close>), and the
  pages machine clients read (\<open>repositories/neo4j/identity_link_revision.py\<close>,
  \<open>routes/identity_link_revisions.py\<close>).

  The ids the database draws are \<open>uuid 0, uuid 1, ...\<close>; \<open>valid_iso\<close> tells which texts
  \<open>datetime.fromisoformat\<close> reads. The time stamps of the nodes are left out. Appends are serialized
  by the write lock on the counter, so a history is a sequence of appends.
\<close>

section \<open>Rows\<close>

record desired_revision =
  dr_source_system :: string
  dr_source_instance_id :: string
  dr_source_entity_type :: string
  dr_source_entity_id :: string
  dr_identity_policy_version :: string
  dr_link_status :: string
  dr_hyperp_person_id :: "string option"
  dr_resolution_kind :: string
  dr_effective_at :: string
  dr_cause_key :: string
  dr_match_decision_id :: "string option"
  dr_review_case_id :: "string option"

definition blank :: "string \<Rightarrow> bool" where
  "blank s = (py_strip s = [])"

definition provenance :: "desired_revision \<Rightarrow> string list" where
  "provenance r = [dr_source_system r, dr_source_instance_id r, dr_source_entity_type r,
                   dr_source_entity_id r, dr_identity_policy_version r]"

definition identity_link_key :: "string list \<Rightarrow> string result" where
  "identity_link_key parts =
     (if list_ex blank parts
      then raise (ValueError ''identity-link provenance fields must not be blank'')
      else ok (''ilk1:'' @ concat (map key_component parts)))"

definition ENTITY_TYPES :: "string list" where
  "ENTITY_TYPES = [''deal'', ''contact'', ''lead'', ''company'']"

text \<open>The policies of the standalone entities.\<close>

definition expected_policy :: "string \<Rightarrow> string option" where
  "expected_policy = map_of [(''contact'', ''crm_contact_identity_v1''), (''lead'', ''crm_lead_identity_v1''),
                             (''company'', ''crm_company_reference_v1'')]"

text \<open>\<open>s.replace("Z", "+00:00")\<close>.\<close>

definition replace_zulu :: "string \<Rightarrow> string" where
  "replace_zulu s = concat (map (\<lambda>c. if c = CHR ''Z'' then ''+00:00'' else [c]) s)"

definition validate_desired_revision :: "(string \<Rightarrow> bool) \<Rightarrow> desired_revision \<Rightarrow> desired_revision result" where
  "validate_desired_revision valid_iso r =
     (if dr_source_system r \<noteq> ''bitrix_chat''
      then raise (ValueError ''identity-link source system is not exportable'')
      else if dr_source_entity_type r \<notin> set ENTITY_TYPES
      then raise (ValueError ''identity-link source entity type is not exportable'')
      else if dr_source_entity_type r = ''deal'' \<and> dr_identity_policy_version r \<noteq> ''crm_deal_identity_v2''
      then raise (ValueError ''CRM deal identity policy is invalid'')
      else if expected_policy (dr_source_entity_type r) \<notin> {None, Some (dr_identity_policy_version r)}
      then raise (ValueError ''standalone CRM identity policy is invalid'')
      else if dr_link_status r = ''resolved'' \<and> \<not> truthy (dr_hyperp_person_id r)
      then raise (ValueError ''resolved identity links require hyperp_person_id'')
      else if dr_link_status r \<noteq> ''resolved'' \<and> dr_hyperp_person_id r \<noteq> None
      then raise (ValueError ''only resolved identity links may contain hyperp_person_id'')
      else if \<not> valid_iso (replace_zulu (dr_effective_at r))
      then raise (ValueError ''identity-link effective_at must be ISO-8601'')
      else if blank (dr_cause_key r)
      then raise (ValueError ''identity-link cause_key must not be blank'')
      else ok r)"

text \<open>The weaker check of the ingestion service.\<close>

definition ingestion_validate :: "desired_revision \<Rightarrow> desired_revision result" where
  "ingestion_validate r =
     (if dr_source_system r \<noteq> ''bitrix_chat'' \<or> dr_source_entity_type r \<notin> set ENTITY_TYPES
      then raise (ValueError ''identity-link source is not exportable'')
      else if (dr_link_status r = ''resolved'') \<noteq> (dr_hyperp_person_id r \<noteq> None)
      then raise (ValueError ''only resolved link state may contain a Person'')
      else if blank (dr_cause_key r)
      then raise (ValueError ''identity-link cause_key must not be blank'')
      else ok r)"

section \<open>The stream\<close>

record revision =
  rv_event_id :: string
  rv_global_revision :: int
  rv_link_key :: string
  rv_row :: desired_revision
  rv_resolution_revision :: int
  rv_supersedes_event_id :: "string option"

record link_head =
  hd_link_key :: string
  hd_provenance :: "string list"
  hd_first_global_revision :: int
  hd_latest_global_revision :: int
  hd_latest_resolution_revision :: int
  hd_latest_event_id :: string

text \<open>The counter node is merged with the value 0, so a missing one counts as 0.\<close>

record stream =
  st_current_revision :: int
  st_revisions :: "revision list"
  st_heads :: "link_head list"

definition empty_stream :: stream where
  "empty_stream = \<lparr>st_current_revision = 0, st_revisions = [], st_heads = []\<rparr>"

definition find_head :: "stream \<Rightarrow> string \<Rightarrow> link_head option" where
  "find_head st k = first_where (\<lambda>h. hd_link_key h = k) (st_heads st)"

definition find_event :: "stream \<Rightarrow> string \<Rightarrow> revision option" where
  "find_event st i = first_where (\<lambda>r. rv_event_id r = i) (st_revisions st)"

definition fresh_row :: "stream \<Rightarrow> bool \<Rightarrow> string \<times> desired_revision \<Rightarrow> bool" where
  "fresh_row st skip_existing_heads row =
     (dr_cause_key (snd row) \<notin> (\<lambda>r. dr_cause_key (rv_row r)) ` set (st_revisions st)
      \<and> (\<not> skip_existing_heads \<or> find_head st (fst row) = None))"

definition new_revision :: "stream \<Rightarrow> (nat \<Rightarrow> string) \<Rightarrow> int \<Rightarrow> nat \<times> string \<times> desired_revision \<Rightarrow> revision" where
  "new_revision st uuid first_global_revision = (\<lambda>(offset, link_key, row).
     \<lparr>rv_event_id = uuid (length (st_revisions st) + offset),
      rv_global_revision = first_global_revision + int offset,
      rv_link_key = link_key, rv_row = row,
      rv_resolution_revision = (case find_head st link_key of None \<Rightarrow> 0 | Some h \<Rightarrow> hd_latest_resolution_revision h) + 1,
      rv_supersedes_event_id = map_option hd_latest_event_id (find_head st link_key)\<rparr>)"

text \<open>\<open>MERGE (head {link_key})\<close> with its \<open>ON CREATE SET\<close> and \<open>SET\<close>.\<close>

definition latest_from :: "revision \<Rightarrow> link_head \<Rightarrow> link_head" where
  "latest_from r h = h\<lparr>hd_latest_global_revision := rv_global_revision r,
     hd_latest_resolution_revision := rv_resolution_revision r, hd_latest_event_id := rv_event_id r\<rparr>"

definition merge_head :: "revision \<Rightarrow> link_head list \<Rightarrow> link_head list" where
  "merge_head r hs =
     (if rv_link_key r \<in> hd_link_key ` set hs
      then map (\<lambda>h. if hd_link_key h = rv_link_key r then latest_from r h else h) hs
      else hs @ [latest_from r \<lparr>hd_link_key = rv_link_key r, hd_provenance = provenance (rv_row r),
                   hd_first_global_revision = rv_global_revision r, hd_latest_global_revision = 0,
                   hd_latest_resolution_revision = 0, hd_latest_event_id = []\<rparr>])"

definition APPEND_IDENTITY_LINK_REVISIONS ::
    "(nat \<Rightarrow> string) \<Rightarrow> bool \<Rightarrow> (string \<times> desired_revision) list \<Rightarrow> stream \<Rightarrow> (string \<times> int \<times> int) list \<times> stream" where
  "APPEND_IDENTITY_LINK_REVISIONS uuid skip_existing_heads input_rows st =
     (let rows = [row \<leftarrow> input_rows. fresh_row st skip_existing_heads row];
          current_revision = (if rows = [] then st_current_revision st
                              else st_current_revision st + int (length rows));
          first_global_revision = current_revision - int (length rows);
          created = map (new_revision st uuid first_global_revision) (enumerate 0 rows)
      in (map (\<lambda>r. (rv_event_id r, rv_global_revision r, rv_resolution_revision r)) created,
          \<lparr>st_current_revision = current_revision, st_revisions = st_revisions st @ created,
           st_heads = fold merge_head created (st_heads st)\<rparr>))"

section \<open>Appending\<close>

text \<open>The loop over the rows of a batch: the states by link key, and the causes seen.\<close>

type_synonym batch = "(string \<times> desired_revision) list \<times> string list"

definition collect_api :: "(string \<Rightarrow> bool) \<Rightarrow> desired_revision \<Rightarrow> batch \<Rightarrow> batch result" where
  "collect_api valid_iso desired b =
     try_bind (validate_desired_revision valid_iso desired) (\<lambda>_.
     try_bind (identity_link_key (provenance desired)) (\<lambda>link_key.
       if dr_cause_key desired \<in> set (snd b) then ok b
       else if link_key \<in> fst ` set (fst b)
       then raise (ValueError ''one identity-link append batch cannot contain multiple states for one link'')
       else ok (fst b @ [(link_key, desired)], snd b @ [dr_cause_key desired])))"

definition collect_ingestion :: "desired_revision \<Rightarrow> batch \<Rightarrow> batch result" where
  "collect_ingestion row b =
     try_bind (ingestion_validate row) (\<lambda>_.
       if dr_cause_key row \<in> set (snd b) then ok b
       else try_bind (identity_link_key (provenance row)) (\<lambda>key.
         if key \<in> fst ` set (fst b) then raise (ValueError ''multiple states for one identity link'')
         else ok (fst b @ [(key, row)], snd b @ [dr_cause_key row])))"

definition append_rows ::
    "(desired_revision \<Rightarrow> batch \<Rightarrow> batch result) \<Rightarrow> (nat \<Rightarrow> string) \<Rightarrow> bool \<Rightarrow> desired_revision list \<Rightarrow> stream
     \<Rightarrow> ((string \<times> int \<times> int) list \<times> stream) result" where
  "append_rows collect uuid skip_existing_heads rows st =
     try_bind (fold_result collect rows ([], [])) (\<lambda>(unique, causes).
       if unique = [] then ok ([], st)
       else ok (APPEND_IDENTITY_LINK_REVISIONS uuid skip_existing_heads (sort_key fst unique) st))"

definition append_identity_link_revisions ::
    "(string \<Rightarrow> bool) \<Rightarrow> (nat \<Rightarrow> string) \<Rightarrow> bool \<Rightarrow> desired_revision list \<Rightarrow> stream
     \<Rightarrow> ((string \<times> int \<times> int) list \<times> stream) result" where
  "append_identity_link_revisions valid_iso = append_rows (collect_api valid_iso)"

definition ingestion_append ::
    "(nat \<Rightarrow> string) \<Rightarrow> bool \<Rightarrow> desired_revision list \<Rightarrow> stream \<Rightarrow> ((string \<times> int \<times> int) list \<times> stream) result" where
  "ingestion_append = append_rows collect_ingestion"

section \<open>Merges, unmerges and retirements\<close>

definition record_provenance :: "graph \<Rightarrow> node \<Rightarrow> json list" where
  "record_provenance g n = map (node_prop g n)
     [''source_instance_id'', ''source_entity_type'', ''source_entity_id'', ''identity_policy_version'']"

text \<open>A head with its latest revision.\<close>

definition latest_of :: "stream \<Rightarrow> link_head \<Rightarrow> revision option" where
  "latest_of st h = find_event st (hd_latest_event_id h)"

definition GET_AFFECTED_IDENTITY_LINK_HEADS ::
    "graph \<Rightarrow> stream \<Rightarrow> string \<Rightarrow> string \<Rightarrow> string \<Rightarrow> string \<Rightarrow> (link_head \<times> revision) list" where
  "GET_AFFECTED_IDENTITY_LINK_HEADS g st merge_event_id absorbed_person_id operation merge_cause_prefix =
     sort_key (\<lambda>(h, r). take 4 (hd_provenance h))
       (remdups [(h, r). e \<leftarrow> g_edges g, e_type e = AFFECTED_RECORD \<and> e_src e = MergeEventN merge_event_id,
          h \<leftarrow> st_heads st, take 1 (hd_provenance h) = [''bitrix_chat'']
            \<and> map JStr (drop 1 (hd_provenance h)) = record_provenance g (e_dst e),
          r \<leftarrow> (case latest_of st h of None \<Rightarrow> [] | Some r \<Rightarrow> [r]),
          (operation = ''merge'' \<and> dr_link_status (rv_row r) = ''resolved''
             \<and> dr_hyperp_person_id (rv_row r) = Some absorbed_person_id)
          \<or> (operation = ''unmerge'' \<and> dr_cause_key (rv_row r) = merge_cause_prefix @ hd_link_key h)])"

text \<open>A row for the link of a head.\<close>

definition desired_for ::
    "link_head \<Rightarrow> string \<Rightarrow> string option \<Rightarrow> string \<Rightarrow> string \<Rightarrow> string \<Rightarrow> revision \<Rightarrow> desired_revision" where
  "desired_for h link_status person kind effective_at cause_key r =
     \<lparr>dr_source_system = hd_provenance h ! 0, dr_source_instance_id = hd_provenance h ! 1,
      dr_source_entity_type = hd_provenance h ! 2, dr_source_entity_id = hd_provenance h ! 3,
      dr_identity_policy_version = hd_provenance h ! 4, dr_link_status = link_status,
      dr_hyperp_person_id = person, dr_resolution_kind = kind, dr_effective_at = effective_at,
      dr_cause_key = cause_key, dr_match_decision_id = dr_match_decision_id (rv_row r),
      dr_review_case_id = dr_review_case_id (rv_row r)\<rparr>"

definition merge_affected_row ::
    "string \<Rightarrow> string option \<Rightarrow> string \<Rightarrow> string \<Rightarrow> link_head \<times> revision \<Rightarrow> desired_revision result" where
  "merge_affected_row resolution_kind survivor cause_prefix effective_at = (\<lambda>(h, r).
     try_bind (identity_link_key (hd_provenance h)) (\<lambda>link_key.
       if hd_link_key h \<noteq> link_key then raise (RuntimeError ''identity-link affected-head key mismatch'')
       else let status = (if resolution_kind = ''person_merge'' then ''resolved'' else ''pending_review'')
            in ok (desired_for h status (if status = ''resolved'' then survivor else None) resolution_kind
                     effective_at (cause_prefix @ '':'' @ link_key) r)))"

definition append_merge_affected_revisions ::
    "(string \<Rightarrow> bool) \<Rightarrow> (nat \<Rightarrow> string) \<Rightarrow> graph \<Rightarrow> string \<Rightarrow> string \<Rightarrow> string option \<Rightarrow> string \<Rightarrow> string \<Rightarrow> string
     \<Rightarrow> stream \<Rightarrow> ((string \<times> int \<times> int) list \<times> stream) result" where
  "append_merge_affected_revisions valid_iso uuid g merge_event_id absorbed survivor resolution_kind
      cause_prefix effective_at st =
     (if resolution_kind \<notin> {''person_merge'', ''person_unmerge''}
      then raise (ValueError ''invalid merge identity-link resolution kind'')
      else let operation = (if resolution_kind = ''person_merge'' then ''merge'' else ''unmerge'')
           in try_bind (map_result (merge_affected_row resolution_kind survivor cause_prefix effective_at)
                (GET_AFFECTED_IDENTITY_LINK_HEADS g st merge_event_id absorbed operation
                   (''person-merge:'' @ merge_event_id @ '':''))) (\<lambda>rows.
              append_identity_link_revisions valid_iso uuid False rows st))"

definition GET_RESOLVED_IDENTITY_LINK_HEADS_FOR_PERSON :: "stream \<Rightarrow> string \<Rightarrow> (link_head \<times> revision) list" where
  "GET_RESOLVED_IDENTITY_LINK_HEADS_FOR_PERSON st pid =
     sort_key (\<lambda>(h, r). hd_link_key h)
       [(h, r). h \<leftarrow> st_heads st, r \<leftarrow> (case latest_of st h of None \<Rightarrow> [] | Some r \<Rightarrow> [r]),
          dr_link_status (rv_row r) = ''resolved'' \<and> dr_hyperp_person_id (rv_row r) = Some pid]"

definition append_person_retirement_revisions ::
    "(string \<Rightarrow> bool) \<Rightarrow> (nat \<Rightarrow> string) \<Rightarrow> string \<Rightarrow> string \<Rightarrow> string \<Rightarrow> stream
     \<Rightarrow> ((string \<times> int \<times> int) list \<times> stream) result" where
  "append_person_retirement_revisions valid_iso uuid pid cause_prefix effective_at st =
     append_identity_link_revisions valid_iso uuid False
       (map (\<lambda>(h, r). desired_for h ''retired'' None ''person_retirement'' effective_at
               (cause_prefix @ '':'' @ hd_provenance h ! 2 @ '':'' @ hd_provenance h ! 3) r)
            (GET_RESOLVED_IDENTITY_LINK_HEADS_FOR_PERSON st pid)) st"

section \<open>Reading the stream\<close>

definition LINK_STATUSES :: "string list" where
  "LINK_STATUSES = [''resolved'', ''unresolved'', ''pending_review'', ''blocked'', ''rejected'', ''retired'']"

definition RESOLUTION_KINDS :: "string list" where
  "RESOLUTION_KINDS = [''baseline'', ''automatic_activation'', ''reviewed_activation'', ''review_rejection'',
     ''manual_no_match'', ''source_supersession'', ''person_merge'', ''person_unmerge'', ''person_retirement'',
     ''source_retirement'']"

text \<open>The public model \<open>IdentityLinkRevision\<close> accepts a stored revision.\<close>

definition valid_revision :: "revision \<Rightarrow> bool" where
  "valid_revision r =
     (let d = rv_row r
      in 1 \<le> rv_global_revision r \<and> dr_source_system d \<noteq> [] \<and> dr_source_instance_id d \<noteq> []
         \<and> dr_source_entity_type d \<in> set ENTITY_TYPES \<and> dr_source_entity_id d \<noteq> []
         \<and> dr_identity_policy_version d \<noteq> [] \<and> dr_link_status d \<in> set LINK_STATUSES
         \<and> dr_resolution_kind d \<in> set RESOLUTION_KINDS \<and> 1 \<le> rv_resolution_revision r
         \<and> (if dr_link_status d = ''resolved'' then truthy (dr_hyperp_person_id d)
            else dr_hyperp_person_id d = None))"






text \<open>A link at a revision: the latest of its revisions up to there.\<close>

definition revision_at :: "int \<Rightarrow> stream \<Rightarrow> string \<Rightarrow> revision option" where
  "revision_at snapshot_revision st link_key =
     py_max rv_global_revision
       [r \<leftarrow> st_revisions st. rv_link_key r = link_key \<and> rv_global_revision r \<le> snapshot_revision]"

definition LIST_IDENTITY_LINK_SNAPSHOT ::
    "int \<Rightarrow> string \<Rightarrow> nat \<Rightarrow> stream \<Rightarrow> (string \<times> revision option) list" where
  "LIST_IDENTITY_LINK_SNAPSHOT snapshot_revision after_link_key limit st =
     take limit (map (\<lambda>h. (hd_link_key h, revision_at snapshot_revision st (hd_link_key h)))
       (sort_key hd_link_key
          [h \<leftarrow> st_heads st. hd_first_global_revision h \<le> snapshot_revision \<and> after_link_key < hd_link_key h]))"

definition snapshot_item :: "string \<times> revision option \<Rightarrow> revision result" where
  "snapshot_item row =
     (case snd row of
        None \<Rightarrow> raise (RuntimeError ''identity-link snapshot corruption'')
      | Some r \<Rightarrow>
          if fst row = [] \<or> \<not> valid_revision r then raise (RuntimeError ''identity-link snapshot corruption'')
          else ok r)"

definition snapshot_page :: "int \<Rightarrow> string \<Rightarrow> nat \<Rightarrow> stream \<Rightarrow> (revision list \<times> string option) result" where
  "snapshot_page snapshot_revision after_link_key limit st =
     (let rows = LIST_IDENTITY_LINK_SNAPSHOT snapshot_revision after_link_key (limit + 1) st;
          has_more = limit < length rows;
          page = take limit rows
      in try_bind (map_result snapshot_item page) (\<lambda>revisions.
           ok (revisions, if has_more \<and> page \<noteq> [] then Some (fst (last page)) else None)))"

section \<open>The events endpoint\<close>





section \<open>Histories\<close>

definition cause :: "revision \<Rightarrow> string" where
  "cause r = dr_cause_key (rv_row r)"

definition history :: "stream \<Rightarrow> string \<Rightarrow> revision list" where
  "history st k = [r \<leftarrow> st_revisions st. rv_link_key r = k]"

text \<open>What the head of a link knows about the revisions of the link.\<close>

definition head_agrees :: "revision list \<Rightarrow> link_head option \<Rightarrow> bool" where
  "head_agrees rs head =
     (case head of
        None \<Rightarrow> rs = []
      | Some h \<Rightarrow> rs \<noteq> [] \<and> hd_first_global_revision h = rv_global_revision (hd rs)
          \<and> hd_latest_global_revision h = rv_global_revision (last rs)
          \<and> hd_latest_resolution_revision h = int (length rs)
          \<and> hd_latest_event_id h = rv_event_id (last rs))"

text \<open>The revisions of one link count from 1 and each names its predecessor.\<close>

definition chained :: "revision list \<Rightarrow> bool" where
  "chained rs = (\<forall>i < length rs. rv_resolution_revision (rs ! i) = int i + 1
     \<and> rv_supersedes_event_id (rs ! i) = (if i = 0 then None else Some (rv_event_id (rs ! (i - 1)))))"

definition storable :: "string \<Rightarrow> desired_revision \<Rightarrow> bool" where
  "storable k d = (identity_link_key (provenance d) = Inr k \<and> dr_source_entity_type d \<in> set ENTITY_TYPES
     \<and> (if dr_link_status d = ''resolved'' then truthy (dr_hyperp_person_id d) else dr_hyperp_person_id d = None)
     \<and> dr_link_status d \<in> set LINK_STATUSES \<and> dr_resolution_kind d \<in> set RESOLUTION_KINDS)"

definition stream_ok :: "(nat \<Rightarrow> string) \<Rightarrow> stream \<Rightarrow> bool" where
  "stream_ok uuid st =
     (let n = length (st_revisions st)
      in st_current_revision st = int n
         \<and> map rv_global_revision (st_revisions st) = map int [0..<n]
         \<and> map rv_event_id (st_revisions st) = map uuid [0..<n]
         \<and> distinct (map cause (st_revisions st))
         \<and> distinct (map hd_link_key (st_heads st))
         \<and> (\<forall>k. head_agrees (history st k) (find_head st k) \<and> chained (history st k))
         \<and> (\<forall>r \<in> set (st_revisions st). storable (rv_link_key r) (rv_row r)))"

section \<open>One row at a time\<close>

definition append_one :: "(nat \<Rightarrow> string) \<Rightarrow> string \<times> desired_revision \<Rightarrow> stream \<Rightarrow> stream" where
  "append_one uuid row st =
     (let r = new_revision st uuid (st_current_revision st) (0, row)
      in \<lparr>st_current_revision = st_current_revision st + 1, st_revisions = st_revisions st @ [r],
          st_heads = merge_head r (st_heads st)\<rparr>)"

lemma first_where_map:
  "(\<And>h. hd_link_key (f h) = hd_link_key h) \<Longrightarrow>
   first_where (\<lambda>h. hd_link_key h = k) (map f hs) = map_option f (first_where (\<lambda>h. hd_link_key h = k) hs)"
  by (induction hs) auto

lemma first_where_append:
  "first_where p (xs @ ys) = (case first_where p xs of None \<Rightarrow> first_where p ys | Some x \<Rightarrow> Some x)"
  by (induction xs) auto

lemma head_keys_merge:
  "map hd_link_key (merge_head r hs) =
     (if rv_link_key r \<in> hd_link_key ` set hs then map hd_link_key hs else map hd_link_key hs @ [rv_link_key r])"
proof -
  have "map hd_link_key (map (\<lambda>h. if hd_link_key h = k then latest_from r h else h) xs) = map hd_link_key xs" for k xs
    by (induction xs) (simp_all add: latest_from_def)
  then show ?thesis by (simp add: merge_head_def latest_from_def)
qed

definition head_after :: "revision \<Rightarrow> link_head option \<Rightarrow> link_head" where
  "head_after r h = latest_from r (case h of Some h \<Rightarrow> h
     | None \<Rightarrow> \<lparr>hd_link_key = rv_link_key r, hd_provenance = provenance (rv_row r),
          hd_first_global_revision = rv_global_revision r, hd_latest_global_revision = 0,
          hd_latest_resolution_revision = 0, hd_latest_event_id = []\<rparr>)"

lemma find_head_append_one:
  "find_head (append_one uuid row st) k =
     (if k = fst row
      then Some (head_after (new_revision st uuid (st_current_revision st) (0, row)) (find_head st k))
      else find_head st k)"
proof -
  let ?r = "new_revision st uuid (st_current_revision st) (0, row)"
  have k: "rv_link_key ?r = fst row" by (cases row) (simp add: new_revision_def)
  have none: "first_where (\<lambda>h. hd_link_key h = j) (st_heads st) = None \<longleftrightarrow> j \<notin> hd_link_key ` set (st_heads st)" for j
    by auto
  have keep: "first_where (\<lambda>h. hd_link_key h = k) (map (\<lambda>h. if hd_link_key h = fst row then latest_from ?r h else h) (st_heads st))
      = map_option (\<lambda>h. if hd_link_key h = fst row then latest_from ?r h else h) (find_head st k)"
    unfolding find_head_def by (rule first_where_map) (simp add: latest_from_def)
  have key: "hd_link_key h = k" if "find_head st k = Some h" for h
    using that by (auto simp: find_head_def dest: first_where_Some)
  have heads: "find_head (append_one uuid row st) k = first_where (\<lambda>h. hd_link_key h = k) (merge_head ?r (st_heads st))"
    by (simp add: find_head_def append_one_def Let_def)
  show ?thesis
  proof (cases "fst row \<in> hd_link_key ` set (st_heads st)")
    case True
    then have merged: "merge_head ?r (st_heads st) = map (\<lambda>h. if hd_link_key h = fst row then latest_from ?r h else h) (st_heads st)"
      by (simp add: merge_head_def k)
    have "find_head (append_one uuid row st) k
        = map_option (\<lambda>h. if hd_link_key h = fst row then latest_from ?r h else h) (find_head st k)"
      by (simp only: heads merged keep)
    moreover have "k = fst row \<Longrightarrow> find_head st k \<noteq> None" using True none [of k] by (simp add: find_head_def)
    ultimately show ?thesis using key by (cases "find_head st k") (auto simp: head_after_def)
  next
    case False
    then have "find_head st (fst row) = None" using none [of "fst row"] by (simp add: find_head_def)
    with False show ?thesis unfolding heads
      by (simp add: merge_head_def k first_where_append head_after_def latest_from_def flip: find_head_def
          split: option.split)
  qed
qed

definition created_by :: "(nat \<Rightarrow> string) \<Rightarrow> (string \<times> desired_revision) list \<Rightarrow> stream \<Rightarrow> revision list" where
  "created_by uuid rows st = map (new_revision st uuid (st_current_revision st)) (enumerate 0 rows)"

lemma append_rows_fold:
  assumes "distinct (map fst rows)"
  shows "fold (append_one uuid) rows st =
    \<lparr>st_current_revision = st_current_revision st + int (length rows), st_revisions = st_revisions st @ created_by uuid rows st,
     st_heads = fold merge_head (created_by uuid rows st) (st_heads st)\<rparr>
    \<and> (\<forall>k. k \<notin> fst ` set rows \<longrightarrow> find_head (fold (append_one uuid) rows st) k = find_head st k)"
  using assms
proof (induction rows rule: rev_induct)
  case (snoc row rows)
  let ?created = "created_by uuid rows st"
  let ?st = "fold (append_one uuid) rows st"
  obtain k d where row: "row = (k, d)" by (cases row)
  have st: "?st = \<lparr>st_current_revision = st_current_revision st + int (length rows),
      st_revisions = st_revisions st @ ?created, st_heads = fold merge_head ?created (st_heads st)\<rparr>"
    and heads: "\<forall>k. k \<notin> fst ` set rows \<longrightarrow> find_head ?st k = find_head st k"
    by (rule snoc.IH [THEN conjunct1], use snoc.prems in simp) (rule snoc.IH [THEN conjunct2], use snoc.prems in simp)
  have same: "find_head ?st k = find_head st k" using heads snoc.prems row by (force simp: image_iff)
  have len: "length (st_revisions ?st) = length (st_revisions st) + length rows"
    by (simp add: st created_by_def)
  have r: "new_revision ?st uuid (st_current_revision ?st) (0, k, d)
      = new_revision st uuid (st_current_revision st) (length rows, k, d)"
    using same len by (simp add: new_revision_def) (simp add: st)
  have all: "created_by uuid (rows @ [row]) st = ?created @ [new_revision st uuid (st_current_revision st) (length rows, k, d)]"
    by (simp add: created_by_def enumerate_append_eq row)
  have "fold (append_one uuid) (rows @ [row]) st = append_one uuid row ?st" by simp
  also have "\<dots> = \<lparr>st_current_revision = st_current_revision ?st + 1,
      st_revisions = st_revisions ?st @ [new_revision st uuid (st_current_revision st) (length rows, k, d)],
      st_heads = merge_head (new_revision st uuid (st_current_revision st) (length rows, k, d)) (st_heads ?st)\<rparr>"
    unfolding append_one_def Let_def row r by simp
  finally have run: "fold (append_one uuid) (rows @ [row]) st = \<dots>" .
  have "find_head (fold (append_one uuid) (rows @ [row]) st) j = find_head st j" if "j \<notin> fst ` set (rows @ [row])" for j
    using heads that by (simp add: find_head_append_one)
  then show ?case unfolding run by (simp add: st all)
qed (simp add: created_by_def)

section \<open>What an append keeps\<close>

lemma history_append_one:
  "history (append_one uuid row st) k =
     history st k @ (if k = fst row then [new_revision st uuid (st_current_revision st) (0, row)] else [])"
  by (cases row) (simp add: history_def append_one_def Let_def new_revision_def)

lemma chained_snoc:
  assumes "chained rs" and "rv_resolution_revision r = int (length rs) + 1"
    and "rv_supersedes_event_id r = (if rs = [] then None else Some (rv_event_id (last rs)))"
  shows "chained (rs @ [r])"
  unfolding chained_def
proof (intro allI impI)
  fix i assume i: "i < length (rs @ [r])"
  show "rv_resolution_revision ((rs @ [r]) ! i) = int i + 1
      \<and> rv_supersedes_event_id ((rs @ [r]) ! i) = (if i = 0 then None else Some (rv_event_id ((rs @ [r]) ! (i - 1))))"
  proof (cases "i < length rs")
    case True
    with assms(1) show ?thesis by (simp add: chained_def nth_append less_imp_diff_less)
  next
    case False
    with i have "i = length rs" by simp
    with assms(2,3) show ?thesis by (auto simp: nth_append last_conv_nth)
  qed
qed

lemma append_one_ok:
  assumes ok: "stream_ok uuid st" and key: "storable (fst row) (snd row)"
    and fresh: "dr_cause_key (snd row) \<notin> cause ` set (st_revisions st)"
  shows "stream_ok uuid (append_one uuid row st)"
proof -
  let ?r = "new_revision st uuid (st_current_revision st) (0, row)"
  let ?st = "append_one uuid row st"
  obtain k d where row: "row = (k, d)" by (cases row)
  note ok' = ok [unfolded stream_ok_def Let_def]
  have r: "rv_link_key ?r = k" "rv_row ?r = d" "rv_global_revision ?r = int (length (st_revisions st))"
    "rv_event_id ?r = uuid (length (st_revisions st))" "cause ?r = dr_cause_key d"
    using ok' by (simp_all add: new_revision_def row cause_def)
  have agree: "head_agrees (history st j) (find_head st j)" "chained (history st j)" for j using ok' by blast+
  have res: "rv_resolution_revision ?r = int (length (history st k)) + 1"
    "rv_supersedes_event_id ?r = (if history st k = [] then None else Some (rv_event_id (last (history st k))))"
    using agree(1) [of k] by (auto simp: new_revision_def row head_agrees_def split: option.splits)
  have "head_agrees (history ?st j) (find_head ?st j) \<and> chained (history ?st j)" for j
  proof (cases "j = k")
    case True
    have "chained (history st k @ [?r])" by (rule chained_snoc [OF agree(2) res])
    moreover have "head_agrees (history st k @ [?r]) (Some (head_after ?r (find_head st k)))"
      using agree(1) [of k] res(1)
      by (cases "find_head st k") (auto simp: head_agrees_def head_after_def latest_from_def)
    ultimately show ?thesis by (simp add: True history_append_one find_head_append_one row)
  next
    case False
    then show ?thesis using agree [of j] by (simp add: history_append_one find_head_append_one row)
  qed
  moreover have "distinct (map hd_link_key (st_heads ?st))"
    using ok' by (simp add: append_one_def Let_def head_keys_merge)
  moreover have "st_revisions ?st = st_revisions st @ [?r]" "st_current_revision ?st = st_current_revision st + 1"
    by (simp_all add: append_one_def Let_def)
  ultimately show ?thesis
    using ok' key fresh r by (auto simp: stream_ok_def Let_def row)
qed

lemma append_many_ok:
  assumes "stream_ok uuid st" "\<forall>row \<in> set rows. storable (fst row) (snd row)"
    and "distinct (map (dr_cause_key \<circ> snd) rows)"
    and "\<forall>row \<in> set rows. dr_cause_key (snd row) \<notin> cause ` set (st_revisions st)"
  shows "stream_ok uuid (fold (append_one uuid) rows st)"
  using assms
proof (induction rows arbitrary: st)
  case (Cons row rows)
  have "stream_ok uuid (append_one uuid row st)" by (rule append_one_ok) (use Cons.prems in simp_all)
  moreover have "cause ` set (st_revisions (append_one uuid row st)) = insert (dr_cause_key (snd row)) (cause ` set (st_revisions st))"
    by (cases row) (simp add: append_one_def Let_def new_revision_def cause_def)
  ultimately have "stream_ok uuid (fold (append_one uuid) rows (append_one uuid row st))"
    using Cons.prems by (intro Cons.IH) (auto simp: image_iff)
  then show ?case by simp
qed simp

lemma APPEND_fold:
  assumes "distinct (map fst rows)"
  shows "snd (APPEND_IDENTITY_LINK_REVISIONS uuid skip rows st)
     = fold (append_one uuid) [row \<leftarrow> rows. fresh_row st skip row] st"
proof -
  have "distinct (map fst [row \<leftarrow> rows. fresh_row st skip row])" using assms by (simp add: distinct_map_filter)
  from append_rows_fold [OF this, of uuid st]
  show ?thesis by (auto simp: APPEND_IDENTITY_LINK_REVISIONS_def Let_def created_by_def)
qed

section \<open>The contract of a collector\<close>

text \<open>What the two services check of a row, and how a row enters a batch.\<close>

definition typed_row :: "desired_revision \<Rightarrow> bool" where
  "typed_row r = (dr_link_status r \<in> set LINK_STATUSES \<and> dr_resolution_kind r \<in> set RESOLUTION_KINDS
     \<and> dr_hyperp_person_id r \<noteq> Some [])"

definition checked_row :: "desired_revision \<Rightarrow> bool" where
  "checked_row r = (dr_source_entity_type r \<in> set ENTITY_TYPES
     \<and> (dr_link_status r = ''resolved'') = (dr_hyperp_person_id r \<noteq> None))"

definition batch_ok :: "batch \<Rightarrow> bool" where
  "batch_ok b = (distinct (map fst (fst b)) \<and> distinct (snd b) \<and> map (dr_cause_key \<circ> snd) (fst b) = snd b
     \<and> (\<forall>(k, r) \<in> set (fst b). identity_link_key (provenance r) = Inr k \<and> checked_row r))"

locale collector =
  fixes collect :: "desired_revision \<Rightarrow> batch \<Rightarrow> batch result"
  assumes collect_step: "collect r b = Inr b' \<Longrightarrow>
    checked_row r \<and> (b' = b \<and> dr_cause_key r \<in> set (snd b)
      \<or> (\<exists>k. identity_link_key (provenance r) = Inr k \<and> k \<notin> fst ` set (fst b) \<and> dr_cause_key r \<notin> set (snd b)
           \<and> b' = (fst b @ [(k, r)], snd b @ [dr_cause_key r])))"
begin

lemma collect_batch_ok: "collect r b = Inr b' \<Longrightarrow> batch_ok b \<Longrightarrow> batch_ok b'"
  by (drule collect_step) (auto simp: batch_ok_def)

lemma collected:
  assumes "fold_result collect rows ([], []) = Inr (unique, causes)"
  shows "batch_ok (unique, causes)" "snd ` set unique \<subseteq> set rows"
proof -
  have "batch_ok (unique, causes) \<and> snd ` set (fst (unique, causes)) \<subseteq> set rows"
  proof (rule fold_result_invariant [OF _ assms])
    fix r b b' assume "r \<in> set rows" "batch_ok b \<and> snd ` set (fst b) \<subseteq> set rows" "collect r b = Inr b'"
    then show "batch_ok b' \<and> snd ` set (fst b') \<subseteq> set rows"
      using collect_batch_ok collect_step [of r b b'] by (auto simp: image_subset_iff)
  qed (simp add: batch_ok_def)
  then show "batch_ok (unique, causes)" "snd ` set unique \<subseteq> set rows" by simp_all
qed

lemma append_rows_run:
  assumes "append_rows collect uuid skip rows st = Inr (out, st')"
  obtains unique where "distinct (map fst unique)" "distinct (map (dr_cause_key \<circ> snd) unique)"
    "\<forall>(k, r) \<in> set unique. identity_link_key (provenance r) = Inr k \<and> checked_row r \<and> r \<in> set rows"
    "(out, st') = APPEND_IDENTITY_LINK_REVISIONS uuid skip unique st"
proof -
  from assms obtain unique causes where run: "fold_result collect rows ([], []) = Inr (unique, causes)"
    and st': "(out, st') = (if unique = [] then ([], st)
      else APPEND_IDENTITY_LINK_REVISIONS uuid skip (sort_key fst unique) st)"
    by (auto simp: append_rows_def try_bind_Inr_iff split: if_splits)
  have "APPEND_IDENTITY_LINK_REVISIONS uuid skip [] st = ([], st)"
    by (simp add: APPEND_IDENTITY_LINK_REVISIONS_def)
  with st' have "(out, st') = APPEND_IDENTITY_LINK_REVISIONS uuid skip (sort_key fst unique) st"
    by (auto split: if_splits)
  moreover from collected [OF run] have ok: "distinct (map fst unique)" "distinct (map (dr_cause_key \<circ> snd) unique)"
    "\<forall>(k, r) \<in> set unique. identity_link_key (provenance r) = Inr k \<and> checked_row r \<and> r \<in> set rows"
    by (auto simp: batch_ok_def)
  moreover have "distinct (map f (sort_key fst unique)) = distinct (map f unique)" for f :: "string \<times> desired_revision \<Rightarrow> string"
    by (simp add: distinct_map)
  ultimately show ?thesis using that [of "sort_key fst unique"] by simp
qed

lemma append_rows_ok:
  assumes "append_rows collect uuid skip rows st = Inr (out, st')" "stream_ok uuid st" "list_all typed_row rows"
  shows "stream_ok uuid st'"
proof -
  from append_rows_run [OF assms(1)] obtain unique where u: "distinct (map fst unique)"
    "distinct (map (dr_cause_key \<circ> snd) unique)"
    "\<forall>(k, r) \<in> set unique. identity_link_key (provenance r) = Inr k \<and> checked_row r \<and> r \<in> set rows"
    "(out, st') = APPEND_IDENTITY_LINK_REVISIONS uuid skip unique st" by blast
  let ?fresh = "[row \<leftarrow> unique. fresh_row st skip row]"
  have "st' = fold (append_one uuid) ?fresh st" using APPEND_fold [OF u(1)] u(4) by (metis snd_conv)
  moreover have "storable k r" if "(k, r) \<in> set unique" for k r
  proof -
    from that u(3) have "identity_link_key (provenance r) = Inr k" "checked_row r" "r \<in> set rows" by blast+
    with assms(3) show ?thesis by (auto simp: storable_def checked_row_def typed_row_def list_all_iff truthy_def split: option.splits)
  qed
  moreover have "distinct (map (dr_cause_key \<circ> snd) ?fresh)" using u(2) by (simp add: distinct_map_filter)
  ultimately show ?thesis using assms(2)
    by (simp only:) (rule append_many_ok; auto simp: fresh_row_def cause_def)
qed

end

lemma valid_row_checked:
  "validate_desired_revision valid_iso r = Inr r' \<Longrightarrow> checked_row r"
  "ingestion_validate r = Inr r' \<Longrightarrow> checked_row r"
  by (auto simp: validate_desired_revision_def ingestion_validate_def checked_row_def truthy_def
      split: if_splits option.splits)

interpretation api: collector "collect_api valid_iso"
  by unfold_locales (auto simp: collect_api_def try_bind_Inr_iff valid_row_checked split: if_splits)

interpretation ingestion: collector collect_ingestion
  by unfold_locales (auto simp: collect_ingestion_def try_bind_Inr_iff valid_row_checked split: if_splits)

section \<open>Histories of appends\<close>

text \<open>Both services append to the one stream; the literal types of the rows are those the code declares.\<close>

inductive stream_step :: "(nat \<Rightarrow> string) \<Rightarrow> stream \<Rightarrow> stream \<Rightarrow> bool" for uuid where
  api: "\<lbrakk>append_identity_link_revisions valid_iso uuid skip rows st = Inr (out, st'); list_all typed_row rows\<rbrakk> \<Longrightarrow>
     stream_step uuid st st'"
| ingestion: "\<lbrakk>ingestion_append uuid skip rows st = Inr (out, st'); list_all typed_row rows\<rbrakk> \<Longrightarrow> stream_step uuid st st'"

definition reachable_stream :: "(nat \<Rightarrow> string) \<Rightarrow> stream \<Rightarrow> bool" where
  "reachable_stream uuid st = (stream_step uuid)\<^sup>*\<^sup>* empty_stream st"

lemma empty_stream_ok: "stream_ok uuid empty_stream"
  by (simp add: stream_ok_def empty_stream_def history_def find_head_def head_agrees_def chained_def)

lemma stream_step_ok: "stream_step uuid st st' \<Longrightarrow> stream_ok uuid st \<Longrightarrow> stream_ok uuid st'"
  by (induction rule: stream_step.induct)
     (simp_all add: append_identity_link_revisions_def ingestion_append_def api.append_rows_ok ingestion.append_rows_ok)

lemma reachable_ok: "reachable_stream uuid st \<Longrightarrow> stream_ok uuid st"
  unfolding reachable_stream_def
  by (induction rule: rtranclp_induct) (simp_all add: empty_stream_ok stream_step_ok)

text \<open>Causes and heads only accumulate.\<close>

definition grows :: "stream \<Rightarrow> stream \<Rightarrow> bool" where
  "grows st st' = (cause ` set (st_revisions st) \<subseteq> cause ` set (st_revisions st')
     \<and> (\<forall>k. find_head st k \<noteq> None \<longrightarrow> find_head st' k \<noteq> None))"

lemma grows_append_one: "grows st (append_one uuid row st)"
proof -
  have "st_revisions (append_one uuid row st) = st_revisions st @ [new_revision st uuid (st_current_revision st) (0, row)]"
    by (simp add: append_one_def Let_def)
  then show ?thesis by (auto simp: grows_def find_head_append_one)
qed

lemma grows_trans: "grows a b \<Longrightarrow> grows b c \<Longrightarrow> grows a c"
  unfolding grows_def by (meson subset_trans)

lemma grows_fold: "grows st (fold (append_one uuid) rows st)"
proof (induction rows arbitrary: st)
  case (Cons row rows)
  from grows_trans [OF grows_append_one Cons.IH] show ?case by simp
qed (simp add: grows_def)

lemma stream_step_grows:
  assumes "stream_step uuid st st'"
  shows "grows st st'"
proof -
  have run: "grows st st'" if "(out, st') = APPEND_IDENTITY_LINK_REVISIONS uuid skip u st" "distinct (map fst u)"
    for out skip u st st'
    using that grows_fold APPEND_fold by (metis snd_conv)
  from assms show ?thesis
  proof cases
    case (api valid_iso skip rows out)
    from api(1) show ?thesis unfolding append_identity_link_revisions_def
      by (rule api.append_rows_run) (rule run)
  next
    case (ingestion skip rows out)
    from ingestion(1) show ?thesis unfolding ingestion_append_def
      by (rule ingestion.append_rows_run) (rule run)
  qed
qed

lemma fold_causes: "cause ` set (st_revisions (fold (append_one uuid) rows st))
   = cause ` set (st_revisions st) \<union> (dr_cause_key \<circ> snd) ` set rows"
proof (induction rows arbitrary: st)
  case (Cons row rows)
  have "cause ` set (st_revisions (append_one uuid row st)) = insert (dr_cause_key (snd row)) (cause ` set (st_revisions st))"
    by (cases row) (simp add: append_one_def Let_def new_revision_def cause_def)
  then show ?case using Cons.IH [of "append_one uuid row st"] by simp
qed simp

text \<open>After a batch none of its rows is fresh.\<close>

lemma APPEND_stale:
  assumes "(out, st') = APPEND_IDENTITY_LINK_REVISIONS uuid skip rows st" "distinct (map fst rows)" "grows st' st''"
  shows "APPEND_IDENTITY_LINK_REVISIONS uuid skip rows st'' = ([], st'')"
proof -
  have st': "st' = fold (append_one uuid) [row \<leftarrow> rows. fresh_row st skip row] st"
    using APPEND_fold [OF assms(2)] assms(1) by (metis snd_conv)
  have "\<not> fresh_row st'' skip row" if "row \<in> set rows" for row
  proof (cases "fresh_row st skip row")
    case True
    then have "dr_cause_key (snd row) \<in> cause ` set (st_revisions st')"
      using that unfolding st' fold_causes by auto
    with assms(3) show ?thesis by (auto simp: fresh_row_def grows_def cause_def)
  next
    case False
    have "grows st st''" using grows_trans grows_fold assms(3) st' by metis
    with False show ?thesis by (auto simp: fresh_row_def grows_def cause_def)
  qed
  then have "[row \<leftarrow> rows. fresh_row st'' skip row] = []" by (simp add: filter_empty_conv)
  then show ?thesis by (simp add: APPEND_IDENTITY_LINK_REVISIONS_def)
qed

section \<open>Pages of events\<close>

lemma numbered:
  "map f rs = map int [0..<length rs] \<Longrightarrow> i < length rs \<Longrightarrow> f (rs ! i) = int i"
  by (metis nth_map length_map length_upt add_0 nth_upt minus_nat.diff_0)







section \<open>Properties\<close>

text \<open>C31: after any history of appends of both services the stream is dense and its heads agree with
  it: the revisions are numbered without gaps from 0 up to the counter, no cause is recorded twice,
  the revisions of each link count from 1 and each names its predecessor, and the head of a link
  tells its first and its latest revision.\<close>

theorem stream_is_dense:
  assumes "reachable_stream uuid st"
  shows "st_current_revision st = int (length (st_revisions st))
     \<and> map rv_global_revision (st_revisions st) = map int [0..<length (st_revisions st)]
     \<and> distinct (map cause (st_revisions st))
     \<and> (\<forall>k. head_agrees (history st k) (find_head st k) \<and> chained (history st k))"
  using reachable_ok [OF assms] by (simp add: stream_ok_def Let_def)

text \<open>An append is idempotent: repeated at any later time, whatever was appended in between, the
  same batch adds nothing and reports nothing.\<close>

theorem append_is_idempotent:
  assumes "append_identity_link_revisions valid_iso uuid skip rows st = Inr (out, st')"
    and "(stream_step uuid)\<^sup>*\<^sup>* st' st''"
  shows "append_identity_link_revisions valid_iso uuid skip rows st'' = Inr ([], st'')"
proof -
  from assms(2) have grown: "grows st' st''"
    by (induction rule: rtranclp_induct) (use grows_trans stream_step_grows in \<open>auto simp: grows_def\<close>)
  from assms(1) obtain unique causes where run: "fold_result (collect_api valid_iso) rows ([], []) = Inr (unique, causes)"
    and st': "(out, st') = (if unique = [] then ([], st) else APPEND_IDENTITY_LINK_REVISIONS uuid skip (sort_key fst unique) st)"
    by (auto simp: append_identity_link_revisions_def append_rows_def try_bind_Inr_iff split: if_splits)
  have "distinct (map fst (sort_key fst unique))"
    using api.collected(1) [OF run] by (simp add: batch_ok_def distinct_map)
  with st' grown have "unique \<noteq> [] \<Longrightarrow> APPEND_IDENTITY_LINK_REVISIONS uuid skip (sort_key fst unique) st'' = ([], st'')"
    by (intro APPEND_stale [where st = st and out = out]) simp_all
  with run show ?thesis by (auto simp: append_identity_link_revisions_def append_rows_def)
qed


text \<open>A snapshot is not fixed: the first revision that an append adds has the number the snapshot
  was taken at, so the pages of the snapshot that are read afterwards contain it, although the
  stream reported that number before the revision existed.\<close>

theorem snapshot_moves:
  assumes "reachable_stream uuid st" and "append_identity_link_revisions valid_iso uuid skip rows st = Inr (out, st')"
    and "list_all typed_row rows" and "out \<noteq> []"
  shows "\<exists>k r. revision_at (st_current_revision st) st' k = Some r \<and> r \<notin> set (st_revisions st)"
proof -
  let ?n = "length (st_revisions st)"
  from reachable_ok [OF assms(1)] have ok: "st_current_revision st = int ?n"
      "map rv_global_revision (st_revisions st) = map int [0..<?n]"
    by (simp_all add: stream_ok_def Let_def)
  have "stream_step uuid st st'" using assms(2,3) by (rule stream_step.api)
  with assms(1) have "reachable_stream uuid st'"
    unfolding reachable_stream_def by (rule rtranclp.rtrancl_into_rtrancl)
  then have ok': "map rv_global_revision (st_revisions st') = map int [0..<length (st_revisions st')]"
    using reachable_ok by (auto simp: stream_ok_def Let_def)
  from assms(2) obtain unique where "(out, st') = APPEND_IDENTITY_LINK_REVISIONS uuid skip unique st"
    unfolding append_identity_link_revisions_def by (rule api.append_rows_run)
  with assms(4) obtain rs where rs: "st_revisions st' = st_revisions st @ rs" "rs \<noteq> []"
    by (auto simp: APPEND_IDENTITY_LINK_REVISIONS_def Let_def)
  let ?r = "st_revisions st' ! ?n"
  have len: "?n < length (st_revisions st')" using rs by simp
  have g: "rv_global_revision ?r = int ?n" by (rule numbered [OF ok' len])
  have only: "r = ?r" if "r \<in> set (st_revisions st')" "rv_global_revision r = int ?n" for r
    using that numbered [OF ok'] by (metis in_set_conv_nth of_nat_eq_iff)
  let ?rows = "[r \<leftarrow> st_revisions st'. rv_link_key r = rv_link_key ?r \<and> rv_global_revision r \<le> st_current_revision st]"
  have mem: "?r \<in> set ?rows" using len g ok(1) by simp
  then have "?rows \<noteq> []" by (auto simp: filter_empty_conv)
  then obtain m where m: "py_max rv_global_revision ?rows = Some m" by (cases "py_max rv_global_revision ?rows") simp_all
  have "m \<in> set (st_revisions st')" "rv_global_revision m = int ?n"
    using py_max_mem [OF m] py_max_ge [OF m mem] g ok(1) by simp_all
  then have "m = ?r" by (rule only)
  moreover have "?r \<notin> set (st_revisions st)"
    using g numbered [OF ok(2)] by (metis in_set_conv_nth of_nat_eq_iff less_irrefl_nat)
  ultimately show ?thesis using m by (auto simp: revision_at_def)
qed

section \<open>A concrete stream\<close>

definition contact_row :: "string \<Rightarrow> string \<Rightarrow> desired_revision" where
  "contact_row inst cause_key = \<lparr>dr_source_system = ''bitrix_chat'', dr_source_instance_id = inst,
     dr_source_entity_type = ''contact'', dr_source_entity_id = ''7'',
     dr_identity_policy_version = ''crm_contact_identity_v1'', dr_link_status = ''resolved'',
     dr_hyperp_person_id = Some ''p1'', dr_resolution_kind = ''baseline'', dr_effective_at = ''2026-01-01'',
     dr_cause_key = cause_key, dr_match_decision_id = None, dr_review_case_id = None\<rparr>"

definition sample_append :: "desired_revision list \<Rightarrow> stream \<Rightarrow> (string \<times> int \<times> int) list \<times> stream" where
  "sample_append rows st =
     (case append_identity_link_revisions (\<lambda>_. True) show_nat False rows st of Inl e \<Rightarrow> ([], st) | Inr r \<Rightarrow> r)"

definition two_contacts :: "desired_revision list" where
  "two_contacts = [contact_row ''north'' ''c1'', contact_row ''south'' ''c2'']"

lemma sample_append_runs:
  "is_ok (append_identity_link_revisions (\<lambda>_. True) show_nat False two_contacts empty_stream)"
  "list_all typed_row two_contacts"
  "fst (sample_append two_contacts empty_stream) = [(''0'', 0, 1), (''1'', 1, 1)]"
  "length (st_revisions (snd (sample_append two_contacts empty_stream))) = 2"
  by code_simp+

lemma sample_append_run:
  "append_identity_link_revisions (\<lambda>_. True) show_nat False two_contacts empty_stream
     = Inr (sample_append two_contacts empty_stream)"
  using sample_append_runs(1) by (auto simp: sample_append_def is_ok_def split: sum.splits)

lemma sample_append_run_pair:
  "append_identity_link_revisions (\<lambda>_. True) show_nat False two_contacts empty_stream
     = Inr (fst (sample_append two_contacts empty_stream), snd (sample_append two_contacts empty_stream))"
  by (simp add: sample_append_run)

lemma sample_reachable: "reachable_stream show_nat (snd (sample_append two_contacts empty_stream))"
  unfolding reachable_stream_def by (rule r_into_rtranclp, rule stream_step.api [OF sample_append_run_pair sample_append_runs(2)])

theorem stream_is_dense_witness:
  "st_current_revision (snd (sample_append two_contacts empty_stream)) = 2"
  using stream_is_dense [OF sample_reachable] sample_append_runs(4) by simp

theorem append_is_idempotent_witness:
  "append_identity_link_revisions (\<lambda>_. True) show_nat False two_contacts (snd (sample_append two_contacts empty_stream))
     = Inr ([], snd (sample_append two_contacts empty_stream))"
  by (rule append_is_idempotent [OF sample_append_run_pair rtranclp.rtrancl_refl])


theorem snapshot_moves_witness:
  "\<exists>k r. revision_at 0 (snd (sample_append two_contacts empty_stream)) k = Some r"
proof -
  have "reachable_stream show_nat empty_stream" by (simp add: reachable_stream_def)
  moreover have "fst (sample_append two_contacts empty_stream) \<noteq> []" unfolding sample_append_runs(3) by simp
  ultimately have "\<exists>k r. revision_at (st_current_revision empty_stream) (snd (sample_append two_contacts empty_stream)) k = Some r
      \<and> r \<notin> set (st_revisions empty_stream)"
    using snapshot_moves [OF _ sample_append_run_pair sample_append_runs(2)] by blast
  then show ?thesis by (auto simp: empty_stream_def)
qed

text \<open>Retiring a person can leave one of its links resolved to it: the causes of the retirement name
  the type and the id of an external record and not the instance it belongs to, so of two records
  with the same id in two instances only the first is retired, the other is dropped as a repetition.\<close>

theorem retirement_leaves_link:
  "let st = snd (sample_append two_contacts empty_stream)
   in length (GET_RESOLVED_IDENTITY_LINK_HEADS_FOR_PERSON st ''p1'') = 2
      \<and> (case append_person_retirement_revisions (\<lambda>_. True) show_nat ''p1'' ''person-retirement:p1'' ''2026-01-02'' st of
           Inl e \<Rightarrow> False
         | Inr (out, st') \<Rightarrow> length out = 1
             \<and> length (GET_RESOLVED_IDENTITY_LINK_HEADS_FOR_PERSON st' ''p1'') = 1)"
  by code_simp

end
