(* ===== verification/Unmerge.thy ===== *)
theory Unmerge
  imports PersonMerge IdentityLinks JsonText
begin

text \<open>
  Manual merges and their reversal in the API service (\<open>repositories/neo4j/merge.py\<close>,
  \<open>_merge_side_effects.py\<close> with the statements of \<open>graph/queries/merge.py\<close>), and the locks between two
  persons. A merge leaves a \<open>MOVED_RELATIONSHIP\<close> for each relationship it takes from the absorbed
  person; an unmerge reads them and gives every relationship back.

  The statements on counters and review cases are those of the ingestion service (\<open>PersonMerge\<close>). The
  drawn ids are arguments; a merge event merges its person once, so the pattern of the reversal has at
  most one row. The recomputation of the golden profiles that follows both transactions is not part of
  this theory.
\<close>

section \<open>Moving the relationships of a person\<close>

definition holder :: "bool \<Rightarrow> edge \<Rightarrow> node" where
  "holder incoming e = (if incoming then e_dst e else e_src e)"

definition other_end :: "bool \<Rightarrow> edge \<Rightarrow> node" where
  "other_end incoming e = (if incoming then e_src e else e_dst e)"

definition edge_at :: "rel_type \<Rightarrow> bool \<Rightarrow> node \<Rightarrow> node \<Rightarrow> json_obj \<Rightarrow> edge" where
  "edge_at t incoming p other props =
     \<lparr>e_type = t, e_src = (if incoming then other else p), e_dst = (if incoming then p else other), e_props = props\<rparr>"

text \<open>The relationships of a person that a fragment of the merge matches.\<close>

definition held :: "rel_type \<Rightarrow> bool \<Rightarrow> (node \<Rightarrow> bool) \<Rightarrow> string \<Rightarrow> edge \<Rightarrow> bool" where
  "held t incoming target p e = (e_type e = t \<and> holder incoming e = PersonN p \<and> target (other_end incoming e))"

definition direction :: "bool \<Rightarrow> string" where
  "direction incoming = (if incoming then ''incoming'' else ''outgoing'')"

definition moved_copy :: "bool \<Rightarrow> json_obj \<Rightarrow> string \<Rightarrow> string \<Rightarrow> edge \<Rightarrow> edge" where
  "moved_copy incoming stamps absorbed survivor old =
     edge_at (e_type old) incoming (PersonN survivor) (other_end incoming old)
       (json_sets (stamps @ [(''merge_origin_person_id'', origin_of absorbed (e_props old))]) (e_props old))"

definition move_rel ::
    "rel_type \<Rightarrow> string \<Rightarrow> bool \<Rightarrow> (node \<Rightarrow> bool) \<Rightarrow> json_obj \<Rightarrow> string \<Rightarrow> string \<Rightarrow> string \<Rightarrow> graph \<Rightarrow> graph" where
  "move_rel t rtype incoming target stamps absorbed survivor me g =
     rewire_create (held t incoming target absorbed)
       (\<lambda>old. [moved_edge me (other_end incoming old) rtype (direction incoming) absorbed True (e_props old),
               moved_copy incoming stamps absorbed survivor old]) g"

text \<open>\<open>MERGE (me)-[:AFFECTED_RECORD]->(sr)\<close> for the source records that the moved relationships name.\<close>

definition affected_edge :: "string \<Rightarrow> string \<Rightarrow> edge" where
  "affected_edge me pk = \<lparr>e_type = AFFECTED_RECORD, e_src = MergeEventN me, e_dst = SourceRecordN pk, e_props = []\<rparr>"

definition mark_affected :: "string \<Rightarrow> string list \<Rightarrow> graph \<Rightarrow> graph" where
  "mark_affected me pks g =
     fold (\<lambda>pk g. if has_node g (SourceRecordN pk)
                     \<and> \<not> list_ex (edge_between AFFECTED_RECORD (MergeEventN me) (SourceRecordN pk)) (g_edges g)
                  then create_edge (affected_edge me pk) g else g) pks g"

fun pks_of :: "json \<Rightarrow> string list" where
  "pks_of (JStr pk) = [pk]"
| "pks_of _ = []"

definition named_sources :: "rel_type \<Rightarrow> bool \<Rightarrow> (node \<Rightarrow> bool) \<Rightarrow> string \<Rightarrow> graph \<Rightarrow> string list" where
  "named_sources t incoming target absorbed g =
     [pk. e \<leftarrow> g_edges g, held t incoming target absorbed e, pk \<leftarrow> pks_of (edge_prop e ''source_record_pk'')]"

definition end_sources :: "rel_type \<Rightarrow> bool \<Rightarrow> string \<Rightarrow> graph \<Rightarrow> string list" where
  "end_sources t incoming absorbed g =
     [pk. e \<leftarrow> g_edges g, held t incoming is_source_record absorbed e,
          pk \<leftarrow> pks_of (source_record_pk_of (other_end incoming e))]"

definition manual_linked_to :: "int \<Rightarrow> string \<Rightarrow> string \<Rightarrow> string \<Rightarrow> graph \<Rightarrow> graph" where
  "manual_linked_to now absorbed survivor me g =
     fold (\<lambda>pk. create_edge (affected_edge me pk)) (end_sources LINKED_TO True absorbed g)
       (move_rel LINKED_TO ''LINKED_TO'' True is_source_record [(''linked_at'', JInt now)] absorbed survivor me g)"

definition manual_move ::
    "rel_type \<Rightarrow> string \<Rightarrow> bool \<Rightarrow> (node \<Rightarrow> bool) \<Rightarrow> json_obj \<Rightarrow> string \<Rightarrow> string \<Rightarrow> string \<Rightarrow> graph \<Rightarrow> graph" where
  "manual_move t rtype incoming target stamps absorbed survivor me g =
     mark_affected me (named_sources t incoming target absorbed g)
       (move_rel t rtype incoming target stamps absorbed survivor me g)"

definition knows_target :: "string \<Rightarrow> node \<Rightarrow> bool" where
  "knows_target p n = (is_person n \<and> n \<noteq> PersonN p)"

definition manual_facts :: "string \<Rightarrow> string \<Rightarrow> string \<Rightarrow> graph \<Rightarrow> graph" where
  "manual_facts absorbed survivor me g =
     mark_affected me (end_sources HAS_FACT False absorbed g)
       (move_rel HAS_FACT ''HAS_FACT'' False is_source_record [] absorbed survivor me g)"

text \<open>The contexts of sales: an existing relationship of the survivor with the same key takes the moved one in.\<close>

definition manual_context ::
    "rel_type \<Rightarrow> (node \<Rightarrow> bool) \<Rightarrow> (string \<Rightarrow> string \<Rightarrow> string \<Rightarrow> graph \<Rightarrow> graph result)
     \<Rightarrow> string \<Rightarrow> string \<Rightarrow> string \<Rightarrow> graph \<Rightarrow> graph result" where
  "manual_context t target rewire absorbed survivor me g =
     try_bind (rewire absorbed survivor me g) (\<lambda>g'.
       ok (mark_affected me (named_sources t False target absorbed g) g'))"

definition manual_rewire :: "int \<Rightarrow> string \<Rightarrow> string \<Rightarrow> string \<Rightarrow> graph \<Rightarrow> graph result" where
  "manual_rewire now absorbed survivor me g =
     (let g = manual_linked_to now absorbed survivor me g;
          g = manual_move IDENTIFIED_BY ''IDENTIFIED_BY'' False is_identifier [] absorbed survivor me g;
          g = manual_move LIVES_AT ''LIVES_AT'' False is_address [] absorbed survivor me g;
          g = manual_move KNOWS ''KNOWS_OUT'' False (knows_target survivor)
                [(''declared_by_person_id'', JStr survivor), (''updated_at'', JInt now)] absorbed survivor me g;
          g = manual_move KNOWS ''KNOWS_IN'' True (knows_target survivor) [(''updated_at'', JInt now)]
                absorbed survivor me g;
          g = manual_facts absorbed survivor me g
      in try_bind (manual_context PURCHASED is_order REWIRE_PURCHASED absorbed survivor me g) (\<lambda>g.
         try_bind (manual_context BOUGHT_VEHICLE is_vehicle REWIRE_BOUGHT_VEHICLE absorbed survivor me g) (\<lambda>g.
         manual_context OWNS_VEHICLE is_vehicle REWIRE_OWNS_VEHICLE absorbed survivor me g)))"

section \<open>The merge\<close>

definition CHECK_BOTH_PERSONS_ACTIVE :: "graph \<Rightarrow> string \<Rightarrow> string \<Rightarrow> bool" where
  "CHECK_BOTH_PERSONS_ACTIVE g from_id to_id = (active_person g (PersonN from_id) \<and> active_person g (PersonN to_id))"

definition bump_lock_version :: "string \<Rightarrow> graph \<Rightarrow> graph" where
  "bump_lock_version p = set_node (PersonN p)
     (\<lambda>d. [(''merge_lock_version'', json_incr (json_get d ''merge_lock_version''))])"

definition manual_event :: "int \<Rightarrow> string \<Rightarrow> string \<Rightarrow> string \<Rightarrow> string \<Rightarrow> string \<Rightarrow> string \<Rightarrow> graph \<Rightarrow> graph" where
  "manual_event now me event_type actor_id reason absorbed survivor g =
     create_edge \<lparr>e_type = SURVIVOR, e_src = MergeEventN me, e_dst = PersonN survivor, e_props = []\<rparr>
       (create_edge \<lparr>e_type = ABSORBED, e_src = MergeEventN me, e_dst = PersonN absorbed, e_props = []\<rparr>
         (create_node (MergeEventN me)
            [(''merge_event_id'', JStr me), (''event_type'', JStr event_type), (''actor_type'', JStr ''admin''),
             (''actor_id'', JStr actor_id), (''reason'', JStr reason), (''created_at'', JInt now)] g))"

definition merged_into :: "int \<Rightarrow> string \<Rightarrow> string \<Rightarrow> string \<Rightarrow> string \<Rightarrow> edge" where
  "merged_into now me actor_id absorbed survivor =
     \<lparr>e_type = MERGED_INTO, e_src = PersonN absorbed, e_dst = PersonN survivor,
      e_props = [(''merge_event_id'', JStr me), (''actor'', JStr actor_id), (''timestamp'', JInt now)]\<rparr>"

text \<open>The active persons acquainted with one of the given persons, and the mark that their analysis is stale.\<close>

definition acquainted :: "graph \<Rightarrow> string list \<Rightarrow> string list" where
  "acquainted g ps =
     remdups [q. e \<leftarrow> g_edges g, e_type e = KNOWS,
        q \<leftarrow> (if e_src e \<in> PersonN ` set ps then person_ids_of (e_dst e) else [])
           @ (if e_dst e \<in> PersonN ` set ps then person_ids_of (e_src e) else []),
        active_person g (PersonN q)]"

definition mark_dirty :: "int \<Rightarrow> string \<Rightarrow> graph \<Rightarrow> graph" where
  "mark_dirty now p = set_node (PersonN p) (\<lambda>d.
     [(''analysis_input_revision'', json_incr (json_get d ''analysis_input_revision'')),
      (''analysis_dirty_at'', JInt now)])"

definition EXECUTE_MANUAL_MERGE ::
    "int \<Rightarrow> string \<Rightarrow> string \<Rightarrow> string \<Rightarrow> string \<Rightarrow> string \<Rightarrow> string \<Rightarrow> string \<Rightarrow> graph \<Rightarrow> (graph \<times> bool) result" where
  "EXECUTE_MANUAL_MERGE now me from_id to_id left right reason actor_id g =
     (if \<not> (has_node g (PersonN left) \<and> has_node g (PersonN right) \<and> left \<noteq> right) then ok (g, False)
      else let g = bump_lock_version right (bump_lock_version left g)
           in if \<not> CHECK_BOTH_PERSONS_ACTIVE g from_id to_id then ok (g, False)
              else try_bind (manual_rewire now from_id to_id me
                     (set_node (MergeEventN me) (\<lambda>_. [(''metadata'', JStr ''{}'')])
                       (manual_event now me ''manual_merge'' actor_id reason from_id to_id g))) (\<lambda>g.
                   let g = PATH_COMPRESS_MERGED_INTO from_id to_id me
                             (create_edge (merged_into now me actor_id from_id to_id) (MARK_PERSON_MERGED now from_id g));
                       g = fold (mark_dirty now) (acquainted g [to_id]) g
                   in ok (set_node (PersonN to_id) (\<lambda>_. [(''updated_at'', JInt now)]) (mark_dirty now to_id g), True)))"

section \<open>The reversal\<close>

definition GET_UNMERGE_TARGET :: "graph \<Rightarrow> string \<Rightarrow> (string \<times> string) option" where
  "GET_UNMERGE_TARGET g me =
     (case [(a, s). has_node g (MergeEventN me), e \<leftarrow> g_edges g, e_type e = ABSORBED \<and> e_src e = MergeEventN me,
              a \<leftarrow> person_ids_of (e_dst e), node_prop g (PersonN a) ''status'' = JStr ''merged'',
              f \<leftarrow> g_edges g, e_type f = SURVIVOR \<and> e_src f = MergeEventN me, s \<leftarrow> person_ids_of (e_dst f)] of
        [] \<Rightarrow> None | r # _ \<Rightarrow> Some r)"

definition merged_on :: "graph \<Rightarrow> node \<Rightarrow> node list" where
  "merged_on g n = [e_dst e. e \<leftarrow> g_edges g, e_type e = MERGED_INTO \<and> e_src e = n \<and> is_person (e_dst e)]"

text \<open>The rows of the pattern: the lineage of the absorbed person by this event, and where it ends now.\<close>

definition unmerge_rows :: "graph \<Rightarrow> string \<Rightarrow> string \<Rightarrow> (edge \<times> string) list" where
  "unmerge_rows g absorbed me =
     [(mi, c). has_node g (MergeEventN me), mi \<leftarrow> g_edges g,
        e_type mi = MERGED_INTO \<and> e_src mi = PersonN absorbed \<and> edge_prop mi ''merge_event_id'' = JStr me,
        n \<leftarrow> e_dst mi # merged_on g (e_dst mi), merged_on g n = [], c \<leftarrow> person_ids_of n]"

definition optional :: "'a list \<Rightarrow> 'a option list" where
  "optional xs = (if xs = [] then [None] else map Some xs)"

text \<open>Lineages that the merge compressed go back to the absorbed person.\<close>

definition compressed :: "graph \<Rightarrow> string \<Rightarrow> edge \<Rightarrow> edge list" where
  "compressed g current m =
     [x \<leftarrow> g_edges g. edge_between MERGED_INTO (e_dst m) (PersonN current) x
        \<and> edge_prop m ''merge_event_id'' \<noteq> JNull
        \<and> edge_prop x ''merge_event_id'' = edge_prop m ''merge_event_id'']"

definition revert_lineage :: "string \<Rightarrow> string \<Rightarrow> string \<Rightarrow> graph \<Rightarrow> graph" where
  "revert_lineage absorbed current me g =
     (let rows = [(m, x). m \<leftarrow> g_edges g, e_type m = MOVED_MERGE_LINEAGE \<and> e_src m = MergeEventN me \<and> is_person (e_dst m),
                    edge_prop m ''prior_survivor_person_id'' = JStr absorbed
                      \<and> node_prop g (e_dst m) ''status'' = JStr ''merged'',
                    x \<leftarrow> compressed g current m]
      in g\<lparr>g_edges := [e \<leftarrow> g_edges g. e \<notin> set (map snd rows)]
            @ map (\<lambda>(m, x). \<lparr>e_type = MERGED_INTO, e_src = e_dst m, e_dst = PersonN absorbed,
                     e_props = json_sets [(''prior_survivor_person_id'', JNull), (''compressed_survivor_person_id'', JNull)]
                                 (e_props m)\<rparr>) rows\<rparr>)"

definition survivor_edge :: "rel_type \<Rightarrow> bool \<Rightarrow> string list \<Rightarrow> string \<Rightarrow> edge \<Rightarrow> edge \<Rightarrow> bool" where
  "survivor_edge t incoming keys current m x =
     (held t incoming (\<lambda>n. n = e_dst m) current x
      \<and> edge_prop m ''origin_person_id'' \<noteq> JNull
      \<and> edge_prop x ''merge_origin_person_id'' = edge_prop m ''origin_person_id''
      \<and> list_all (\<lambda>k. edge_prop m k \<noteq> JNull \<and> edge_prop x k = edge_prop m k) keys)"

definition move_of :: "string \<Rightarrow> string \<Rightarrow> (node \<Rightarrow> bool) \<Rightarrow> edge \<Rightarrow> bool" where
  "move_of me rtype target m =
     (e_type m = MOVED_RELATIONSHIP \<and> e_src m = MergeEventN me \<and> target (e_dst m)
      \<and> edge_prop m ''relationship_type'' = JStr rtype)"

definition revert_rows ::
    "rel_type \<Rightarrow> string \<Rightarrow> bool \<Rightarrow> (node \<Rightarrow> bool) \<Rightarrow> string list \<Rightarrow> string \<Rightarrow> string \<Rightarrow> graph \<Rightarrow> (edge \<times> edge option) list" where
  "revert_rows t rtype incoming target keys current me g =
     [(m, x). m \<leftarrow> g_edges g, move_of me rtype target m,
        x \<leftarrow> optional [x \<leftarrow> g_edges g. survivor_edge t incoming keys current m x]]"

text \<open>The origin of a moved relationship is the absorbed person or is merged still.\<close>

definition restorable :: "graph \<Rightarrow> string \<Rightarrow> edge \<Rightarrow> bool" where
  "restorable g absorbed m =
     (case json_str (edge_prop m ''origin_person_id'') of
        None \<Rightarrow> False
      | Some origin \<Rightarrow> has_node g (PersonN origin)
          \<and> (origin = absorbed \<or> node_prop g (PersonN origin) ''status'' = JStr ''merged''))"

definition restored_props :: "json_obj \<Rightarrow> edge \<Rightarrow> json_obj" where
  "restored_props stamps m =
     json_sets ([(''relationship_type'', JNull), (''direction'', JNull), (''origin_person_id'', JNull),
                 (''created_on_survivor'', JNull), (''merge_origin_person_id'', edge_prop m ''origin_person_id'')] @ stamps)
       (e_props m)"

definition drop_edges :: "edge list \<Rightarrow> graph \<Rightarrow> graph" where
  "drop_edges xs g = g\<lparr>g_edges := [e \<leftarrow> g_edges g. e \<notin> set xs]\<rparr>"

text \<open>
  The relationships of the survivor that go: those the merge had created there. The contexts of sales
  have to come from the same source record as well.
\<close>

definition dropped_edges :: "graph \<Rightarrow> string \<Rightarrow> (edge \<Rightarrow> edge \<Rightarrow> bool) \<Rightarrow> (edge \<times> edge option) list \<Rightarrow> edge list" where
  "dropped_edges g absorbed same rows =
     [x. (m, y) \<leftarrow> rows, edge_prop m ''created_on_survivor'' = JBool True \<and> restorable g absorbed m,
         x \<leftarrow> (case y of None \<Rightarrow> [] | Some x \<Rightarrow> [x]), same m x]"

definition same_record :: "edge \<Rightarrow> edge \<Rightarrow> bool" where
  "same_record m x =
     (edge_prop m ''source_record_pk'' \<noteq> JNull \<and> edge_prop x ''source_record_pk'' = edge_prop m ''source_record_pk'')"

definition revert_create ::
    "rel_type \<Rightarrow> string \<Rightarrow> bool \<Rightarrow> (node \<Rightarrow> bool) \<Rightarrow> string list \<Rightarrow> json_obj \<Rightarrow> string \<Rightarrow> string \<Rightarrow> string \<Rightarrow> graph \<Rightarrow> graph" where
  "revert_create t rtype incoming target keys stamps absorbed current me g =
     (let rows = revert_rows t rtype incoming target keys current me g
      in drop_edges (dropped_edges g absorbed (\<lambda>m x. True) rows) (g\<lparr>g_edges := g_edges g
           @ [edge_at t incoming (PersonN absorbed) (e_dst m) (restored_props stamps m).
                (m, x) \<leftarrow> rows, restorable g absorbed m \<and> (t = KNOWS \<longrightarrow> e_dst m \<noteq> PersonN absorbed)]\<rparr>))"

definition revert_merge ::
    "rel_type \<Rightarrow> string \<Rightarrow> (node \<Rightarrow> bool) \<Rightarrow> string list \<Rightarrow> (edge \<Rightarrow> edge \<Rightarrow> bool) \<Rightarrow> string \<Rightarrow> string \<Rightarrow> string
     \<Rightarrow> graph \<Rightarrow> graph result" where
  "revert_merge t rtype target keys same absorbed current me g =
     (let rows = revert_rows t rtype False target keys current me g
      in try_bind (fold_result (\<lambda>(m, x) g'.
             if restorable g absorbed m
             then merge_edge t (PersonN absorbed) (e_dst m) (key_of keys m)
                    (\<lambda>_. restored_props [] m) (\<lambda>_. restored_props [] m) g'
             else ok g') rows g) (\<lambda>g'.
           ok (drop_edges (dropped_edges g absorbed same rows) g')))"

definition RECORD_KEYS :: "string list" where
  "RECORD_KEYS = [''source_system_key'', ''source_record_pk'']"

definition ORDER_KEYS :: "string list" where
  "ORDER_KEYS = [''source_system_key'', ''source_order_id'']"

definition revert_relationships :: "int \<Rightarrow> string \<Rightarrow> string \<Rightarrow> string \<Rightarrow> graph \<Rightarrow> graph result" where
  "revert_relationships now absorbed current me g =
     (let g = revert_create LINKED_TO ''LINKED_TO'' True is_source_record [] [] absorbed current me g
      in try_bind (revert_merge IDENTIFIED_BY ''IDENTIFIED_BY'' is_identifier RECORD_KEYS (\<lambda>m x. True)
                     absorbed current me g) (\<lambda>g.
         try_bind (revert_merge LIVES_AT ''LIVES_AT'' is_address RECORD_KEYS (\<lambda>m x. True) absorbed current me g) (\<lambda>g.
         let g = revert_create HAS_FACT ''HAS_FACT'' False is_source_record [''attribute_name''] [] absorbed current me g;
             g = revert_create KNOWS ''KNOWS_OUT'' False is_person [''source_record_pk'']
                   [(''declared_by_person_id'', JStr absorbed), (''updated_at'', JInt now)] absorbed current me g;
             g = revert_create KNOWS ''KNOWS_IN'' True is_person [''source_record_pk'']
                   [(''updated_at'', JInt now)] absorbed current me g
         in try_bind (revert_merge PURCHASED ''PURCHASED'' is_order ORDER_KEYS same_record absorbed current me g) (\<lambda>g.
            try_bind (revert_merge BOUGHT_VEHICLE ''BOUGHT_VEHICLE'' is_vehicle ORDER_KEYS same_record
                        absorbed current me g) (\<lambda>g.
            revert_merge OWNS_VEHICLE ''OWNS_VEHICLE'' is_vehicle RECORD_KEYS same_record absorbed current me g)))))"

definition reactivate :: "int \<Rightarrow> string \<Rightarrow> string \<Rightarrow> edge \<Rightarrow> graph \<Rightarrow> graph" where
  "reactivate now absorbed current mi g =
     (let g = set_node (PersonN absorbed) (\<lambda>_. [(''status'', JStr ''active''), (''updated_at'', JInt now)])
                (drop_edges [mi] g);
          neighbours = [q \<leftarrow> acquainted g [absorbed, current]. q \<noteq> absorbed \<and> q \<noteq> current]
      in mark_dirty now current (mark_dirty now absorbed (fold (mark_dirty now) neighbours g)))"

definition REVERT_MERGE :: "int \<Rightarrow> string \<Rightarrow> string \<Rightarrow> graph \<Rightarrow> (graph \<times> string option) result" where
  "REVERT_MERGE now absorbed me g =
     (case unmerge_rows g absorbed me of
        [] \<Rightarrow> ok (g, None)
      | (mi, current) # _ \<Rightarrow>
          try_bind (revert_relationships now absorbed current me (revert_lineage absorbed current me g)) (\<lambda>g.
            ok (reactivate now absorbed current mi g, Some current)))"

definition CREATE_UNMERGE_AUDIT ::
    "int \<Rightarrow> string \<Rightarrow> string \<Rightarrow> string \<Rightarrow> string \<Rightarrow> string \<Rightarrow> string \<Rightarrow> graph \<Rightarrow> graph \<times> bool" where
  "CREATE_UNMERGE_AUDIT now ume absorbed survivor reason metadata actor_id g =
     (if has_node g (PersonN absorbed) \<and> has_node g (PersonN survivor)
      then (set_node (MergeEventN ume) (\<lambda>_. [(''metadata'', JStr metadata)])
              (manual_event now ume ''unmerge'' actor_id reason absorbed survivor g), True)
      else (g, False))"

definition FLAG_AFFECTED_RECORDS_FOR_REVIEW :: "string \<Rightarrow> graph \<Rightarrow> graph" where
  "FLAG_AFFECTED_RECORDS_FOR_REVIEW me g =
     set_nodes [e_dst e. e \<leftarrow> g_edges g, e_type e = AFFECTED_RECORD \<and> e_src e = MergeEventN me
                  \<and> is_source_record (e_dst e)]
       [(''link_status'', JStr ''pending_review'')] g"

section \<open>Review cases\<close>

fun review_case_ids_of :: "node \<Rightarrow> string list" where
  "review_case_ids_of (ReviewCaseN rc) = [rc]"
| "review_case_ids_of _ = []"

text \<open>The ids that the two redirects of a merge return.\<close>

definition redirected_left_ids :: "graph \<Rightarrow> string \<Rightarrow> string \<Rightarrow> string list" where
  "redirected_left_ids g absorbed survivor =
     (if has_node g (PersonN survivor)
      then [cid. (rc, l, r) \<leftarrow> case_rows g, open_case g rc \<and> e_dst l = PersonN absorbed \<and> e_dst r \<noteq> PersonN survivor,
                cid \<leftarrow> review_case_ids_of rc]
      else [])"

definition redirected_right_ids :: "graph \<Rightarrow> string \<Rightarrow> string \<Rightarrow> string list" where
  "redirected_right_ids g absorbed survivor =
     (if has_node g (PersonN survivor)
      then [cid. (rc, l, r) \<leftarrow> case_rows g, open_case g rc \<and> e_dst r = PersonN absorbed \<and> e_dst l \<noteq> PersonN survivor,
                cid \<leftarrow> review_case_ids_of rc]
      else [])"

definition apply_merge_review_side_effects ::
    "int \<Rightarrow> string \<Rightarrow> string \<Rightarrow> string \<Rightarrow> graph \<Rightarrow> graph \<times> string list" where
  "apply_merge_review_side_effects now me absorbed survivor g =
     (let closed = CLOSE_PERSON_PAIR_CASES_FOR_ABSORBED now absorbed survivor me g;
          left = REDIRECT_PERSON_PAIR_CASES_ABSORBED_LEFT now absorbed survivor me closed;
          right = REDIRECT_PERSON_PAIR_CASES_ABSORBED_RIGHT now absorbed survivor me left
      in (REDIRECT_RECORD_PERSON_CASES_FOR_ABSORBED now absorbed survivor me right,
          redirected_left_ids closed absorbed survivor @ redirected_right_ids left absorbed survivor))"

text \<open>
  The cases that a merge redirected, with the relationship of the given side and the person it came
  from; a revert replaces the relationship by one to that person.
\<close>

definition redirected_rows :: "rel_type \<Rightarrow> json_obj \<Rightarrow> string \<Rightarrow> graph \<Rightarrow> (node \<times> edge \<times> string) list" where
  "redirected_rows side stamps from_key g =
     [(e_src f, c, p). f \<leftarrow> g_edges g, e_type f = FOR_DECISION \<and> open_case g (e_src f)
          \<and> list_all (\<lambda>(k, v). node_prop g (e_src f) k = v) stamps,
        c \<leftarrow> g_edges g, e_type c = side \<and> e_src c = e_dst f \<and> about_person c \<and> is_person (e_dst c),
        p \<leftarrow> pks_of (node_prop g (e_src f) from_key), has_node g (PersonN p)]"

definition revert_redirect :: "(node \<times> edge \<times> string) list \<Rightarrow> json_obj \<Rightarrow> graph \<Rightarrow> graph" where
  "revert_redirect rows kvs g =
     set_nodes (map fst rows) kvs
       (g\<lparr>g_edges := [e \<leftarrow> g_edges g. e \<notin> set (map (fst \<circ> snd) rows)]
            @ map (\<lambda>(rc, old, p). \<lparr>e_type = e_type old, e_src = e_src old, e_dst = PersonN p,
                                   e_props = [(''entity_type'', JStr ''person'')]\<rparr>) rows\<rparr>)"

definition REVERT_PERSON_PAIR_REDIRECTS :: "rel_type \<Rightarrow> string \<Rightarrow> int \<Rightarrow> string \<Rightarrow> graph \<Rightarrow> graph \<times> string list" where
  "REVERT_PERSON_PAIR_REDIRECTS about side now me g =
     (let rows = redirected_rows about [(''redirected_pair_by_merge_event_id'', JStr me), (''redirected_pair_side'', JStr side)]
                   ''redirected_pair_from_person_id'' g
      in (revert_redirect rows
            [(''redirected_pair_by_merge_event_id'', JNull), (''redirected_pair_from_person_id'', JNull),
             (''redirected_pair_side'', JNull), (''updated_at'', JInt now)] g,
          [cid. (rc, c, p) \<leftarrow> rows, cid \<leftarrow> review_case_ids_of rc]))"

definition REVERT_PERSON_PAIR_REDIRECTS_LEFT :: "int \<Rightarrow> string \<Rightarrow> graph \<Rightarrow> graph \<times> string list" where
  "REVERT_PERSON_PAIR_REDIRECTS_LEFT = REVERT_PERSON_PAIR_REDIRECTS ABOUT_LEFT ''left''"

definition REVERT_PERSON_PAIR_REDIRECTS_RIGHT :: "int \<Rightarrow> string \<Rightarrow> graph \<Rightarrow> graph \<times> string list" where
  "REVERT_PERSON_PAIR_REDIRECTS_RIGHT = REVERT_PERSON_PAIR_REDIRECTS ABOUT_RIGHT ''right''"

definition REVERT_RECORD_PERSON_CASE_REDIRECTS :: "int \<Rightarrow> string \<Rightarrow> graph \<Rightarrow> graph" where
  "REVERT_RECORD_PERSON_CASE_REDIRECTS now me g =
     revert_redirect (redirected_rows ABOUT_RIGHT [(''redirected_by_merge_event_id'', JStr me)] ''redirected_from_person_id'' g)
       [(''redirected_by_merge_event_id'', JNull), (''redirected_from_person_id'', JNull), (''updated_at'', JInt now)] g"

fun is_review_case :: "node \<Rightarrow> bool" where
  "is_review_case (ReviewCaseN _) = True"
| "is_review_case _ = False"

definition REVERT_PERSON_PAIR_CASE_CLOSURES :: "int \<Rightarrow> string \<Rightarrow> graph \<Rightarrow> graph" where
  "REVERT_PERSON_PAIR_CASE_CLOSURES now me g =
     set_nodes [n. (n, d) \<leftarrow> g_nodes g, is_review_case n \<and> json_get d ''closed_by_merge_event_id'' = JStr me
                  \<and> json_get d ''queue_state'' = JStr ''cancelled''
                  \<and> json_get d ''resolution'' = JStr ''cancelled_superseded'']
       [(''queue_state'', JStr ''open''), (''resolution'', JNull), (''resolved_at'', JNull),
        (''closed_by_merge_event_id'', JNull), (''updated_at'', JInt now)] g"

definition revert_merge_review_side_effects :: "int \<Rightarrow> string \<Rightarrow> graph \<Rightarrow> graph \<times> string list" where
  "revert_merge_review_side_effects now me g =
     (let (g, left) = REVERT_PERSON_PAIR_REDIRECTS_LEFT now me (REVERT_RECORD_PERSON_CASE_REDIRECTS now me g);
          (g, right) = REVERT_PERSON_PAIR_REDIRECTS_RIGHT now me g
      in (REVERT_PERSON_PAIR_CASE_CLOSURES now me g, left @ right))"

section \<open>The transactions\<close>

definition ordered_pair :: "string \<Rightarrow> string \<Rightarrow> string \<times> string" where
  "ordered_pair left right = (if left < right then (left, right) else (right, left))"

text \<open>The manual check asks for the type of the lock.\<close>

definition CHECK_MANUAL_NO_MATCH_LOCK :: "graph \<Rightarrow> int \<Rightarrow> string \<Rightarrow> string \<Rightarrow> bool" where
  "CHECK_MANUAL_NO_MATCH_LOCK g now left right =
     (has_node g (PersonN left) \<and> has_node g (PersonN right)
      \<and> list_ex (\<lambda>lock. e_type lock = NO_MATCH_LOCK \<and> edge_prop lock ''lock_type'' = JStr ''manual_no_match''
           \<and> lock_active now lock
           \<and> ((e_src lock = PersonN left \<and> e_dst lock = PersonN right)
              \<or> (e_src lock = PersonN right \<and> e_dst lock = PersonN left))) (g_edges g))"

datatype merge_outcome = Blocked | NotFound | Merged string "string list"

definition manual_merge_tx ::
    "(string \<Rightarrow> bool) \<Rightarrow> (nat \<Rightarrow> string) \<Rightarrow> (int \<Rightarrow> string) \<Rightarrow> int \<Rightarrow> string \<Rightarrow> string \<Rightarrow> string \<Rightarrow> string \<Rightarrow> string
     \<Rightarrow> graph \<times> stream \<Rightarrow> (merge_outcome \<times> graph \<times> stream) result" where
  "manual_merge_tx valid_iso uuid isof now me from_id to_id reason actor_id = (\<lambda>(g, st).
     let (left, right) = ordered_pair from_id to_id
     in if CHECK_MANUAL_NO_MATCH_LOCK g now left right then ok (Blocked, g, st)
        else if \<not> CHECK_BOTH_PERSONS_ACTIVE g from_id to_id then ok (NotFound, g, st)
        else try_bind (EXECUTE_MANUAL_MERGE now me from_id to_id left right reason actor_id g) (\<lambda>(g, merged).
             if \<not> merged then ok (NotFound, g, st)
             else let g = recompute_person_crm_deal_counts now [from_id, to_id] g;
                      (g, redirected) = apply_merge_review_side_effects now me from_id to_id g
                  in try_bind (append_merge_affected_revisions valid_iso uuid g me from_id (Some to_id)
                       ''person_merge'' (''person-merge:'' @ me) (isof now) st) (\<lambda>(appended, st).
                     ok (Merged me redirected, g, st))))"

record unmerge_result =
  ur_absorbed_id :: string
  ur_current_survivor_id :: string
  ur_reverted_review_case_ids :: "string list"

definition unmerge_tx ::
    "(string \<Rightarrow> bool) \<Rightarrow> (nat \<Rightarrow> string) \<Rightarrow> (int \<Rightarrow> string) \<Rightarrow> int \<Rightarrow> string \<Rightarrow> string \<Rightarrow> string \<Rightarrow> string
     \<Rightarrow> graph \<times> stream \<Rightarrow> (unmerge_result option \<times> graph \<times> stream) result" where
  "unmerge_tx valid_iso uuid isof now ume me reason actor_id = (\<lambda>(g, st).
     case GET_UNMERGE_TARGET g me of
       None \<Rightarrow> ok (None, g, st)
     | Some (absorbed, survivor) \<Rightarrow>
         try_bind (REVERT_MERGE now absorbed me g) (\<lambda>(g, current).
           case current of
             None \<Rightarrow> ok (None, g, st)
           | Some current \<Rightarrow>
               let g = recompute_person_crm_deal_counts now [absorbed, current] g;
                   (g, audited) = CREATE_UNMERGE_AUDIT now ume absorbed survivor reason
                      (json_dumps (JObj [(''original_merge_event_id'', JStr me)])) actor_id g
               in if \<not> audited then raise (RuntimeError ''unmerge audit was not created'')
                  else let g = FLAG_AFFECTED_RECORDS_FOR_REVIEW me g
                       in try_bind (append_merge_affected_revisions valid_iso uuid g me absorbed None
                            ''person_unmerge'' (''person-unmerge:'' @ ume) (isof now) st) (\<lambda>(appended, st).
                          let (g, reverted) = revert_merge_review_side_effects now me g
                          in ok (Some \<lparr>ur_absorbed_id = absorbed, ur_current_survivor_id = current,
                                       ur_reverted_review_case_ids = reverted\<rparr>, g, st))))"

section \<open>Locks\<close>

definition CHECK_EXISTING_LOCK :: "graph \<Rightarrow> int \<Rightarrow> string \<Rightarrow> string \<Rightarrow> json option" where
  "CHECK_EXISTING_LOCK g now left right =
     (case [lock \<leftarrow> g_edges g. e_type lock = NO_MATCH_LOCK \<and> lock_active now lock
              \<and> has_node g (PersonN left) \<and> has_node g (PersonN right)
              \<and> ((e_src lock = PersonN left \<and> e_dst lock = PersonN right)
                 \<or> (e_src lock = PersonN right \<and> e_dst lock = PersonN left))] of
        [] \<Rightarrow> None | lock # _ \<Rightarrow> Some (edge_prop lock ''lock_id''))"

text \<open>\<open>datetime($expires_at)\<close> is the argument \<open>datetime\<close>; it raises on a text it cannot read.\<close>

definition CREATE_PERSON_PAIR_LOCK ::
    "(string \<Rightarrow> int option) \<Rightarrow> int \<Rightarrow> string \<Rightarrow> string \<Rightarrow> string \<Rightarrow> string \<Rightarrow> string \<Rightarrow> string option \<Rightarrow> string
     \<Rightarrow> graph \<Rightarrow> (graph \<times> string option) result" where
  "CREATE_PERSON_PAIR_LOCK datetime now lock_id left right lock_type reason expires_at actor_id g =
     (if has_node g (PersonN left) \<and> has_node g (PersonN right)
      then try_bind (case expires_at of None \<Rightarrow> ok JNull
                     | Some text \<Rightarrow> (case datetime text of None \<Rightarrow> raise (ValueError ''datetime'') | Some n \<Rightarrow> ok (JInt n)))
             (\<lambda>expires. ok (create_edge \<lparr>e_type = NO_MATCH_LOCK, e_src = PersonN left, e_dst = PersonN right,
                e_props = json_sets [(''lock_id'', JStr lock_id), (''lock_type'', JStr lock_type),
                  (''reason'', JStr reason), (''actor_type'', JStr ''admin''), (''actor_id'', JStr actor_id),
                  (''expires_at'', expires), (''created_at'', JInt now)] []\<rparr> g, Some lock_id))
      else ok (g, None))"

fun to_str :: "json \<Rightarrow> string" where
  "to_str (JStr s) = s"
| "to_str JNull = []"
| "to_str v = json_repr v"

datatype lock_outcome = LockConflict string | LockNotFound | LockCreated string

definition create_lock_tx ::
    "(string \<Rightarrow> int option) \<Rightarrow> int \<Rightarrow> string \<Rightarrow> string \<Rightarrow> string \<Rightarrow> string \<Rightarrow> string \<Rightarrow> string option \<Rightarrow> string
     \<Rightarrow> graph \<Rightarrow> (lock_outcome \<times> graph) result" where
  "create_lock_tx datetime now lock_id left right lock_type reason expires_at actor_id g =
     (case CHECK_EXISTING_LOCK g now left right of
        Some v \<Rightarrow> ok (LockConflict (to_str v), g)
      | None \<Rightarrow>
          try_bind (CREATE_PERSON_PAIR_LOCK datetime now lock_id left right lock_type reason expires_at actor_id g)
            (\<lambda>(g, created). case created of None \<Rightarrow> ok (LockNotFound, g) | Some new_id \<Rightarrow> ok (LockCreated new_id, g)))"

definition DELETE_LOCK :: "string \<Rightarrow> graph \<Rightarrow> graph \<times> bool" where
  "DELETE_LOCK lock_id g =
     (let locks = [e \<leftarrow> g_edges g. e_type e = NO_MATCH_LOCK \<and> edge_prop e ''lock_id'' = JStr lock_id]
      in (drop_edges locks g, locks \<noteq> []))"

section \<open>Selected fields of the golden profile\<close>

record golden_profile_selection =
  gs_source_kind :: string
  gs_field_name :: string
  gs_identifier_type :: "string option"
  gs_source_record_pk :: "string option"
  gs_selected_value :: string

definition IDENTIFIER_FIELD_BY_TYPE :: "(string \<times> string) list" where
  "IDENTIFIER_FIELD_BY_TYPE =
     [(''phone'', ''preferred_phone''), (''mobile'', ''preferred_phone''), (''email'', ''preferred_email''),
      (''nric'', ''preferred_nric'')]"

definition VALID_LITERAL_GOLDEN_FIELDS :: "string list" where
  "VALID_LITERAL_GOLDEN_FIELDS =
     [''preferred_full_name'', ''preferred_dob'', ''preferred_phone'', ''preferred_email'', ''preferred_nric'']"

definition FACT_FIELDS :: "string list" where
  "FACT_FIELDS = [''preferred_full_name'', ''preferred_dob'', ''preferred_phone'', ''preferred_email'']"

definition is_valid_golden_profile_selection :: "golden_profile_selection \<Rightarrow> bool" where
  "is_valid_golden_profile_selection s =
     (if gs_source_kind s = ''identifier''
      then (case gs_identifier_type s of None \<Rightarrow> False
            | Some ty \<Rightarrow> map_of IDENTIFIER_FIELD_BY_TYPE (py_lower ty) = Some (gs_field_name s))
      else if gs_source_kind s = ''source_record_fact''
      then gs_field_name s \<in> set FACT_FIELDS \<and> gs_source_record_pk s \<noteq> None
      else if gs_source_kind s = ''address''
      then gs_field_name s = ''preferred_address'' \<and> py_strip (gs_selected_value s) \<noteq> []
      else if gs_source_kind s = ''literal''
      then gs_field_name s \<in> set VALID_LITERAL_GOLDEN_FIELDS \<and> py_strip (gs_selected_value s) \<noteq> []
      else False)"

definition are_valid_golden_profile_selections :: "golden_profile_selection list \<Rightarrow> bool" where
  "are_valid_golden_profile_selections = list_all is_valid_golden_profile_selection"

end
