(* ===== verification/UnmergeRestores.thy ===== *)
theory UnmergeRestores
  imports Unmerge "HOL-Library.Multiset"
begin

text \<open>
  An unmerge takes a merge back: what the manual merge does to the relationships of each type and the
  \<open>MOVED_RELATIONSHIP\<close>s it leaves, what the reversal makes of them, and that the two together restore the
  relationships, the lineage and the statuses.
\<close>

section \<open>What each statement does to the relationships of a type\<close>

lemma typed_edges_append [simp]:
  "typed_edges (g\<lparr>g_edges := xs @ ys\<rparr>) t = [e \<leftarrow> xs. e_type e = t] @ [e \<leftarrow> ys. e_type e = t]"
  by (simp add: typed_edges_def)

lemma typed_edges_type: "e \<in> set (typed_edges g t) \<Longrightarrow> e_type e = t"
  by (simp add: typed_edges_def)

lemma set_typed_edges: "e \<in> set (typed_edges g t) \<longleftrightarrow> e \<in> set (g_edges g) \<and> e_type e = t"
  by (auto simp: typed_edges_def)

lemma filter_typed_edges: "(\<And>e. P e \<Longrightarrow> e_type e = t) \<Longrightarrow> [e \<leftarrow> typed_edges g t. P e] = [e \<leftarrow> g_edges g. P e]"
  by (auto simp: typed_edges_def intro!: filter_cong)

lemma filter_pair_map:
  assumes "\<And>x. x \<in> set xs \<Longrightarrow> P (f x) \<and> \<not> P (h x)"
  shows "filter P (concat (map (\<lambda>x. [f x, h x]) xs)) = map f xs"
    and "filter (\<lambda>y. \<not> P y) (concat (map (\<lambda>x. [f x, h x]) xs)) = map h xs"
  using assms by (induction xs) auto

lemma filter_pair_none:
  assumes "\<And>x. x \<in> set xs \<Longrightarrow> \<not> P (f x) \<and> \<not> P (h x)"
  shows "filter P (concat (map (\<lambda>x. [f x, h x]) xs)) = []"
  using assms by (induction xs) auto

lemma edge_at_simps [simp]:
  "e_type (edge_at t inc p n d) = t"
  "e_props (edge_at t inc p n d) = d"
  "holder inc (edge_at t inc p n d) = p"
  "other_end inc (edge_at t inc p n d) = n"
  by (simp_all add: edge_at_def holder_def other_end_def)

lemma moved_edge_simps [simp]:
  "e_src (moved_edge me n r d a c p) = MergeEventN me"
  "e_dst (moved_edge me n r d a c p) = n"
  by (simp_all add: moved_edge_def)

definition MOVE_KEYS :: "string list" where
  "MOVE_KEYS = [''relationship_type'', ''direction'', ''origin_person_id'', ''created_on_survivor'']"

lemma moved_edge_props:
  "edge_prop (moved_edge me n r d a c p) ''relationship_type'' = JStr r"
  "edge_prop (moved_edge me n r d a c p) ''origin_person_id'' = origin_of a p"
  "edge_prop (moved_edge me n r d a c p) ''created_on_survivor'' = JBool c"
  "k \<notin> set MOVE_KEYS \<Longrightarrow> edge_prop (moved_edge me n r d a c p) k = json_get p k"
  by (simp_all add: moved_edge_def edge_prop_def MOVE_KEYS_def)

text \<open>The relationships a merge event has moved under a name.\<close>

definition moves :: "graph \<Rightarrow> string \<Rightarrow> string \<Rightarrow> edge list" where
  "moves g me rtype =
     [m \<leftarrow> typed_edges g MOVED_RELATIONSHIP. e_src m = MergeEventN me \<and> edge_prop m ''relationship_type'' = JStr rtype]"

lemma move_rel_effect:
  assumes t: "t \<noteq> MOVED_RELATIONSHIP" and H_def: "H = [e \<leftarrow> typed_edges g t. held t inc target a e]"
  shows "typed_edges (move_rel t rtype inc target stamps a s me g) u =
      (if u = t then [e \<leftarrow> typed_edges g t. \<not> held t inc target a e] @ map (moved_copy inc stamps a s) H
       else if u = MOVED_RELATIONSHIP
       then typed_edges g u @ map (\<lambda>e. moved_edge me (other_end inc e) rtype (direction inc) a True (e_props e)) H
       else typed_edges g u)"
    and "g_nodes (move_rel t rtype inc target stamps a s me g) = g_nodes g"
proof -
  let ?held = "held t inc target a"
  let ?m = "\<lambda>e. moved_edge me (other_end inc e) rtype (direction inc) a True (e_props e)"
  let ?c = "moved_copy inc stamps a s"
  have H: "[e \<leftarrow> g_edges g. ?held e] = H"
    unfolding H_def by (rule filter_typed_edges [symmetric]) (simp add: held_def)
  have types: "e_type (?m e) = MOVED_RELATIONSHIP \<and> (e \<in> set H \<longrightarrow> e_type (?c e) = t)" for e
    by (auto simp: moved_copy_def H_def typed_edges_def)
  have new: "[x \<leftarrow> concat (map (\<lambda>e. [?m e, ?c e]) H). e_type x = u]
      = (if u = t then map ?c H else if u = MOVED_RELATIONSHIP then map ?m H else [])"
  proof (cases "u = t")
    case True
    then have "[x \<leftarrow> concat (map (\<lambda>e. [?m e, ?c e]) H). \<not> (e_type x \<noteq> u)] = map ?c H"
      by (intro filter_pair_map(2)) (use types t in auto)
    then show ?thesis using True by simp
  next
    case False
    show ?thesis
    proof (cases "u = MOVED_RELATIONSHIP")
      case True
      then have "[x \<leftarrow> concat (map (\<lambda>e. [?m e, ?c e]) H). e_type x = u] = map ?m H"
        by (intro filter_pair_map(1)) (use False types in auto)
      then show ?thesis using True False by simp
    next
      case other: False
      then show ?thesis using False types by (simp add: filter_pair_none [where P = "\<lambda>x. e_type x = u"])
    qed
  qed
  have rest: "[e \<leftarrow> [e \<leftarrow> g_edges g. \<not> ?held e]. e_type e = u]
      = (if u = t then [e \<leftarrow> typed_edges g t. \<not> ?held e] else typed_edges g u)"
    by (auto simp: typed_edges_def held_def conj_commute intro!: filter_cong)
  show "typed_edges (move_rel t rtype inc target stamps a s me g) u =
      (if u = t then [e \<leftarrow> typed_edges g t. \<not> ?held e] @ map ?c H
       else if u = MOVED_RELATIONSHIP then typed_edges g u @ map ?m H else typed_edges g u)"
    unfolding move_rel_def rewire_create_def typed_edges_append H rest new using t by simp
  show "g_nodes (move_rel t rtype inc target stamps a s me g) = g_nodes g"
    by (simp add: move_rel_def)
qed

lemma mark_affected_keep [simp]:
  "g_nodes (mark_affected me pks g) = g_nodes g"
  "u \<noteq> AFFECTED_RECORD \<Longrightarrow> typed_edges (mark_affected me pks g) u = typed_edges g u"
  "g_nodes (fold (\<lambda>pk. create_edge (affected_edge me pk)) pks g) = g_nodes g"
  "u \<noteq> AFFECTED_RECORD \<Longrightarrow> typed_edges (fold (\<lambda>pk. create_edge (affected_edge me pk)) pks g) u = typed_edges g u"
  unfolding mark_affected_def
  by (induction pks arbitrary: g; simp add: affected_edge_def)+

text \<open>A sequence of \<open>MERGE\<close>s between one person and several nodes.\<close>

definition merge_hit :: "rel_type \<Rightarrow> node \<Rightarrow> node \<Rightarrow> json_obj \<Rightarrow> edge \<Rightarrow> bool" where
  "merge_hit t p n kvs e = (edge_between t p n e \<and> has_props kvs e)"

lemma has_props_key_of:
  "has_props (key_of keys e) x \<longleftrightarrow> list_all (\<lambda>k. edge_prop e k \<noteq> JNull \<and> edge_prop x k = edge_prop e k) keys"
  by (simp add: has_props_def key_of_def list_all_iff)

lemma merge_edge_cases:
  assumes "\<not> list_ex (\<lambda>(k, v). v = JNull) kvs"
  shows "merge_edge t p n kvs oc om g = Inr (if list_ex (merge_hit t p n kvs) (g_edges g)
      then g\<lparr>g_edges := map (\<lambda>e. if merge_hit t p n kvs e then e\<lparr>e_props := om (e_props e)\<rparr> else e) (g_edges g)\<rparr>
      else create_edge \<lparr>e_type = t, e_src = p, e_dst = n, e_props = oc (json_sets kvs [])\<rparr> g)"
  using assms by (simp add: merge_edge_def merge_hit_def [abs_def] Let_def)

lemma merge_edges_run:
  assumes "\<And>i. i \<in> set items \<Longrightarrow> \<not> list_ex (\<lambda>(k, v). v = JNull) (kvs i)"
    and "\<And>i. i \<in> set items \<Longrightarrow> list_ex (merge_hit t p (dst i) (kvs i)) (g_edges g) \<Longrightarrow> om i = id"
    and "sorted_wrt (\<lambda>i j. \<not> merge_hit t p (dst j) (kvs j) (new i)) items"
    and "\<And>i. new i = \<lparr>e_type = t, e_src = p, e_dst = dst i, e_props = oc i (json_sets (kvs i) [])\<rparr>"
  shows "fold_result (\<lambda>i. merge_edge t p (dst i) (kvs i) (oc i) (om i)) items g =
     Inr (g\<lparr>g_edges := g_edges g @ map new [i \<leftarrow> items. \<not> list_ex (merge_hit t p (dst i) (kvs i)) (g_edges g)]\<rparr>)"
  using assms(1-3)
proof (induction items arbitrary: g)
  case (Cons i items)
  note step = merge_edge_cases [OF Cons.prems(1) [of i], simplified, of t p "dst i" "oc i" "om i" g]
  show ?case
  proof (cases "list_ex (merge_hit t p (dst i) (kvs i)) (g_edges g)")
    case True
    with Cons.prems(2) [of i] have om: "om i x = x" for x by simp
    from True step have "merge_edge t p (dst i) (kvs i) (oc i) (om i) g = Inr g" by (simp add: om cong: if_cong)
    with True Cons.IH [of g] Cons.prems show ?thesis by simp
  next
    case False
    let ?g = "create_edge (new i) g"
    from False step assms(4) [of i] have run: "merge_edge t p (dst i) (kvs i) (oc i) (om i) g = Inr ?g" by simp
    have same: "list_ex (merge_hit t p (dst j) (kvs j)) (g_edges ?g) = list_ex (merge_hit t p (dst j) (kvs j)) (g_edges g)"
      if "j \<in> set items" for j using Cons.prems(3) that by simp
    then have "[j \<leftarrow> items. \<not> list_ex (merge_hit t p (dst j) (kvs j)) (g_edges ?g)]
        = [j \<leftarrow> items. \<not> list_ex (merge_hit t p (dst j) (kvs j)) (g_edges g)]"
      by (intro filter_cong) simp_all
    moreover have "fold_result (\<lambda>i. merge_edge t p (dst i) (kvs i) (oc i) (om i)) items ?g =
        Inr (?g\<lparr>g_edges := g_edges ?g @ map new [i \<leftarrow> items. \<not> list_ex (merge_hit t p (dst i) (kvs i)) (g_edges ?g)]\<rparr>)"
      using Cons.prems same by (intro Cons.IH) auto
    ultimately show ?thesis using False run by simp
  qed
qed simp

lemma sorted_wrt_keys:
  "distinct (map f xs) \<Longrightarrow> (\<And>x y. x \<in> set xs \<Longrightarrow> y \<in> set xs \<Longrightarrow> f x \<noteq> f y \<Longrightarrow> P x y) \<Longrightarrow> sorted_wrt P xs"
proof (induction xs)
  case (Cons x xs)
  have "P x y" if "y \<in> set xs" for y
  proof (rule Cons.prems(2))
    show "f x \<noteq> f y" using Cons.prems(1) that by (auto simp: image_iff)
  qed (use that in simp_all)
  moreover have "sorted_wrt P xs" using Cons by simp
  ultimately show ?case by simp
qed simp

lemma filter_one_key:
  "distinct (map f xs) \<Longrightarrow> y \<in> set xs \<Longrightarrow> (\<And>x. x \<in> set xs \<Longrightarrow> P x \<longleftrightarrow> f x = f y) \<Longrightarrow> filter P xs = [y]"
proof (induction xs)
  case (Cons x xs)
  show ?case
  proof (cases "x = y")
    case True
    with Cons.prems have "f z \<noteq> f y" if "z \<in> set xs" for z using that by (force simp: image_iff)
    then have "filter P xs = []" using Cons.prems(3) by (auto simp: filter_empty_conv)
    then show ?thesis using True Cons.prems(3) [of x] by simp
  next
    case False
    with Cons.prems have y: "y \<in> set xs" by simp
    with Cons.prems(1) have "f x \<noteq> f y" by (force simp: image_iff)
    then show ?thesis using Cons y by simp
  qed
qed simp

text \<open>What tells the relationships of a person apart: the other end and the values of the keys.\<close>

definition edge_key :: "bool \<Rightarrow> string list \<Rightarrow> edge \<Rightarrow> node \<times> json list" where
  "edge_key inc keys e = (other_end inc e, map (edge_prop e) keys)"

definition has_keys :: "string list \<Rightarrow> edge \<Rightarrow> bool" where
  "has_keys keys e = list_all (\<lambda>k. edge_prop e k \<noteq> JNull) keys"

lemma no_null_keys: "has_keys keys e \<Longrightarrow> \<not> list_ex (\<lambda>(k, v). v = JNull) (key_of keys e)"
  by (auto simp: has_keys_def key_of_def list_all_iff list_ex_iff)

lemma merge_hit_key:
  assumes "has_keys keys e"
  shows "merge_hit t p (e_dst e) (key_of keys e) x \<longleftrightarrow> e_type x = t \<and> e_src x = p \<and> edge_key False keys x = edge_key False keys e"
  using assms
  by (auto simp: merge_hit_def edge_between_def has_props_key_of edge_key_def other_end_def has_keys_def list_all_iff)

section \<open>The contexts of sales\<close>

text \<open>The survivor's relationships that take a moved context in, and the relationship that is created otherwise.\<close>

definition context_twin :: "rel_type \<Rightarrow> string list \<Rightarrow> string \<Rightarrow> graph \<Rightarrow> edge \<Rightarrow> bool" where
  "context_twin t keys s g old = list_ex (merge_hit t (PersonN s) (e_dst old) (key_of keys old)) (g_edges g)"

definition context_copy :: "rel_type \<Rightarrow> string list \<Rightarrow> string \<Rightarrow> string \<Rightarrow> edge \<Rightarrow> edge" where
  "context_copy t keys a s old =
     \<lparr>e_type = t, e_src = PersonN s, e_dst = e_dst old,
      e_props = json_set ''merge_origin_person_id'' (origin_of a (e_props old))
                  (json_sets (e_props old) (json_sets (key_of keys old) []))\<rparr>"

lemma json_get_copied:
  assumes "distinct (map fst (e_props e))"
  shows "json_get (json_sets (e_props e) (json_sets (key_of keys e) [])) k = edge_prop e k"
proof (cases "map_of (e_props e) k")
  case (Some v)
  then have "edge_prop e k = v" by (simp add: edge_prop_def json_get_def)
  with Some show ?thesis by (simp add: json_get_sets [OF assms])
next
  case None
  have "json_get (json_sets (key_of ks e) d) k = json_get d k \<or> json_get (json_sets (key_of ks e) d) k = edge_prop e k" for ks d
  proof (induction ks arbitrary: d)
    case (Cons b ks)
    from Cons [of "json_set b (edge_prop e b) d"] show ?case by (auto simp: key_of_def split: if_splits)
  qed (simp add: key_of_def)
  moreover have "edge_prop e k = JNull" using None by (simp add: edge_prop_def json_get_def)
  ultimately show ?thesis using None by (metis json_get_sets [OF assms] option.simps(4) json_get_Nil)
qed

lemma context_copy_props:
  assumes "distinct (map fst (e_props e))"
  shows "edge_prop (context_copy t keys a s e) k =
     (if k = ''merge_origin_person_id'' then origin_of a (e_props e) else edge_prop e k)"
  using json_get_copied [OF assms, of keys k] by (simp add: context_copy_def edge_prop_def)

lemma filter_le_one: "length (filter P xs) \<le> 1 \<Longrightarrow> filter P xs = (if list_ex P xs then [hd (filter P xs)] else [])"
proof (cases "filter P xs")
  case (Cons y ys)
  then have "y \<in> set (filter P xs)" by simp
  then have "list_ex P xs" by (auto simp: list_ex_iff)
  with Cons show "length (filter P xs) \<le> 1 \<Longrightarrow> ?thesis" by simp
qed (auto simp: filter_empty_conv list_ex_iff)

lemma rewire_rows_single:
  assumes "\<And>h. h \<in> set [e \<leftarrow> g_edges g. e_type e = t \<and> e_src e = PersonN a \<and> target (e_dst e)] \<Longrightarrow>
      length [x \<leftarrow> g_edges g. merge_hit t (PersonN s) (e_dst h) (key_of keys h) x] \<le> 1"
  shows "rewire_rows t keys target a s g =
     map (\<lambda>h. (h, \<not> context_twin t keys s g h)) [e \<leftarrow> g_edges g. e_type e = t \<and> e_src e = PersonN a \<and> target (e_dst e)]"
proof -
  have flags: "created_flags t keys s g h = [\<not> context_twin t keys s g h]"
    if h: "h \<in> set [e \<leftarrow> g_edges g. e_type e = t \<and> e_src e = PersonN a \<and> target (e_dst e)]" for h
  proof -
    let ?hit = "merge_hit t (PersonN s) (e_dst h) (key_of keys h)"
    obtain r where "filter ?hit (g_edges g) = (if list_ex ?hit (g_edges g) then [r] else [])"
      using filter_le_one [OF assms [OF h]] by blast
    then have "(if filter ?hit (g_edges g) = [] then [True] else map (\<lambda>x. False) (filter ?hit (g_edges g)))
        = [\<not> list_ex ?hit (g_edges g)]" by simp
    then show ?thesis unfolding created_flags_def context_twin_def Let_def merge_hit_def [abs_def] .
  qed
  have "concat (map (\<lambda>old. if Q old then map (Pair old) (f old) else []) xs) = map (\<lambda>h. (h, c h)) (filter Q xs)"
    if "\<And>h. h \<in> set (filter Q xs) \<Longrightarrow> f h = [c h]" for Q f c and xs :: "edge list"
    using that by (induction xs) auto
  from this [of "\<lambda>e. e_type e = t \<and> e_src e = PersonN a \<and> target (e_dst e)", OF flags]
  show ?thesis by (simp add: rewire_rows_def)
qed

lemma context_effect:
  assumes able: "rewirable g a s me" and "a \<noteq> s" and t: "t \<noteq> MOVED_RELATIONSHIP"
    and H: "H = [e \<leftarrow> g_edges g. e_type e = t \<and> e_src e = PersonN a \<and> target (e_dst e)]"
    and keys: "\<And>h. h \<in> set H \<Longrightarrow> has_keys keys h \<and> distinct (map fst (e_props h))" "''merge_origin_person_id'' \<notin> set keys"
    and dist: "distinct (map (edge_key False keys) H)"
    and one: "\<And>h. h \<in> set H \<Longrightarrow> length [x \<leftarrow> g_edges g. merge_hit t (PersonN s) (e_dst h) (key_of keys h) x] \<le> 1"
  shows "rewire_merge t rtype keys target json_sets id a s me g = Inr (g\<lparr>g_edges :=
      ([e \<leftarrow> g_edges g. \<not> (e_type e = t \<and> e_src e = PersonN a \<and> target (e_dst e))]
        @ map (\<lambda>h. moved_edge me (e_dst h) rtype ''outgoing'' a (\<not> context_twin t keys s g h) (e_props h)) H)
      @ map (context_copy t keys a s) [h \<leftarrow> H. \<not> context_twin t keys s g h]\<rparr>)"
proof -
  let ?twin = "context_twin t keys s g"
  let ?kept = "[e \<leftarrow> g_edges g. \<not> (e_type e = t \<and> e_src e = PersonN a \<and> target (e_dst e))]"
  let ?moved = "map (\<lambda>h. moved_edge me (e_dst h) rtype ''outgoing'' a (\<not> ?twin h) (e_props h)) H"
  let ?g1 = "g\<lparr>g_edges := ?kept @ ?moved\<rparr>"
  let ?rows = "map (\<lambda>h. (h, \<not> ?twin h)) H"
  let ?hit = "\<lambda>h. merge_hit t (PersonN s) (e_dst h) (key_of keys h)"
  have rows: "rewire_rows t keys target a s g = ?rows"
    unfolding H by (rule rewire_rows_single) (use one H in blast)
  have hits: "list_ex (?hit h) (g_edges ?g1) = ?twin h" for h
  proof -
    have "list_ex (?hit h) ?moved = False" using t by (auto simp: list_ex_iff merge_hit_def edge_between_def)
    moreover have "list_ex (?hit h) ?kept = ?twin h"
      using \<open>a \<noteq> s\<close> by (auto simp: context_twin_def list_ex_iff merge_hit_def edge_between_def)
    ultimately show ?thesis by simp
  qed
  have "rewire_merge t rtype keys target json_sets id a s me g
      = fold_result (\<lambda>i. merge_edge t (PersonN s) (e_dst (fst i)) (key_of keys (fst i))
          (\<lambda>d. json_set ''merge_origin_person_id'' (origin_of a (e_props (fst i))) (json_sets (e_props (fst i)) d)) id) ?rows ?g1"
    using able by (simp add: rewire_merge_def rows Let_def split_def comp_def)
  also have "\<dots> = Inr (?g1\<lparr>g_edges := g_edges ?g1 @ map (\<lambda>i. context_copy t keys a s (fst i))
      [i \<leftarrow> ?rows. \<not> list_ex (?hit (fst i)) (g_edges ?g1)]\<rparr>)"
  proof (rule merge_edges_run)
    fix i assume "i \<in> set ?rows"
    then have "fst i \<in> set H" by auto
    then show "\<not> list_ex (\<lambda>(k, v). v = JNull) (key_of keys (fst i))" using keys(1) no_null_keys by blast
  next
    have "sorted_wrt (\<lambda>h h'. \<not> ?hit h' (context_copy t keys a s h)) H"
    proof (rule sorted_wrt_keys [OF dist])
      fix h h' assume h: "h \<in> set H" "h' \<in> set H" "edge_key False keys h \<noteq> edge_key False keys h'"
      have "edge_key False keys (context_copy t keys a s h) = edge_key False keys h"
        using context_copy_props [of h t keys a s] keys h(1)
        by (auto simp: edge_key_def other_end_def context_copy_def intro!: map_cong)
      with h merge_hit_key [of keys h' t "PersonN s" "context_copy t keys a s h"] keys(1)
      show "\<not> ?hit h' (context_copy t keys a s h)" by simp
    qed
    then show "sorted_wrt (\<lambda>i j. \<not> ?hit (fst j) (context_copy t keys a s (fst i))) ?rows"
      by (simp add: sorted_wrt_map)
  qed (simp_all add: context_copy_def)
  also have "map (\<lambda>i. context_copy t keys a s (fst i)) [i \<leftarrow> ?rows. \<not> list_ex (?hit (fst i)) (g_edges ?g1)]
      = map (context_copy t keys a s) [h \<leftarrow> H. \<not> ?twin h]"
    unfolding hits by (simp add: filter_map comp_def)
  finally show ?thesis by (simp add: id_def)
qed

section \<open>What the reversal does to the relationships of a type\<close>

definition listed :: "'a option \<Rightarrow> 'a list" where
  "listed x = (case x of None \<Rightarrow> [] | Some y \<Rightarrow> [y])"

lemma optional_listed: "optional (listed x) = [x]"
  by (cases x) (simp_all add: optional_def listed_def)

lemma revert_rows_single:
  assumes "M = [m \<leftarrow> g_edges g. move_of me rtype target m]"
    and "\<And>m. m \<in> set M \<Longrightarrow> [x \<leftarrow> g_edges g. survivor_edge t inc keys s m x] = listed (cp m)"
  shows "revert_rows t rtype inc target keys s me g = map (\<lambda>m. (m, cp m)) M"
proof -
  have gen: "concat (map (\<lambda>m. if Q m then map (Pair m) (optional (f m)) else []) xs) = map (\<lambda>m. (m, c m)) (filter Q xs)"
    if "\<And>m. m \<in> set (filter Q xs) \<Longrightarrow> f m = listed (c m)" for Q f c and xs :: "edge list"
    using that by (induction xs) (auto simp: optional_listed)
  show ?thesis unfolding assms(1) revert_rows_def
    by (rule gen) (rule assms(2) [unfolded assms(1)])
qed

definition given_back :: "rel_type \<Rightarrow> bool \<Rightarrow> string \<Rightarrow> json_obj \<Rightarrow> edge \<Rightarrow> edge" where
  "given_back t inc a stamps m = edge_at t inc (PersonN a) (e_dst m) (restored_props stamps m)"

text \<open>
  The effect of reversing one type: the copies of the moves \<open>M\<close> that the merge created go, and every move
  comes back as a relationship of the absorbed person.
\<close>

definition reverted ::
    "rel_type \<Rightarrow> bool \<Rightarrow> string \<Rightarrow> json_obj \<Rightarrow> edge list \<Rightarrow> (edge \<Rightarrow> edge option) \<Rightarrow> graph \<Rightarrow> graph \<Rightarrow> bool" where
  "reverted t inc a stamps M cp g g' =
     (g_nodes g' = g_nodes g
      \<and> (\<forall>u. typed_edges g' u =
           (if u = t
            then [e \<leftarrow> typed_edges g t. \<forall>m \<in> set M. edge_prop m ''created_on_survivor'' = JBool True \<longrightarrow> cp m \<noteq> Some e]
                 @ map (given_back t inc a stamps) M
            else typed_edges g u)))"

lemma copies_of_survivor:
  assumes "[x \<leftarrow> g_edges g. survivor_edge t inc keys s m x] = listed (Some x)"
  shows "x \<in> set (g_edges g)" "survivor_edge t inc keys s m x" "e_type x = t" "holder inc x = PersonN s"
proof -
  have "x \<in> set [x \<leftarrow> g_edges g. survivor_edge t inc keys s m x]" using assms by (simp add: listed_def)
  then show "x \<in> set (g_edges g)" and s: "survivor_edge t inc keys s m x" by auto
  then show "e_type x = t" "holder inc x = PersonN s" by (auto simp: survivor_edge_def held_def)
qed

lemma revert_create_effect:
  assumes M: "M = [m \<leftarrow> g_edges g. move_of me rtype target m]"
    and cp: "\<And>m. m \<in> set M \<Longrightarrow> [x \<leftarrow> g_edges g. survivor_edge t inc keys s m x] = listed (cp m)"
    and ok: "\<And>m. m \<in> set M \<Longrightarrow> restorable g a m \<and> (t = KNOWS \<longrightarrow> e_dst m \<noteq> PersonN a)"
    and "a \<noteq> s"
  shows "reverted t inc a stamps M cp g (revert_create t rtype inc target keys stamps a s me g)"
proof -
  let ?rows = "map (\<lambda>m. (m, cp m)) M"
  let ?D = "dropped_edges g a (\<lambda>m x. True) ?rows"
  have rows: "revert_rows t rtype inc target keys s me g = ?rows"
    by (rule revert_rows_single [OF M]) (rule cp)
  have D: "x \<in> set ?D \<longleftrightarrow> (\<exists>m \<in> set M. edge_prop m ''created_on_survivor'' = JBool True \<and> cp m = Some x)" for x
    using ok by (force simp: dropped_edges_def split: option.splits)
  have gave: "[edge_at t inc (PersonN a) (e_dst m) (restored_props stamps m).
      (m, x) \<leftarrow> ?rows, restorable g a m \<and> (t = KNOWS \<longrightarrow> e_dst m \<noteq> PersonN a)] = map (given_back t inc a stamps) M"
    using ok by (induction M) (simp_all add: given_back_def)
  have new: "e \<notin> set ?D" if "e \<in> set (map (given_back t inc a stamps) M)" for e
  proof
    assume "e \<in> set ?D"
    then obtain m where m: "m \<in> set M" "cp m = Some e" unfolding D by blast
    have "holder inc e = PersonN s" by (rule copies_of_survivor(4) [OF cp [OF m(1), unfolded m(2)]])
    with that \<open>a \<noteq> s\<close> show False by (auto simp: given_back_def)
  qed
  have "revert_create t rtype inc target keys stamps a s me g
      = drop_edges ?D (g\<lparr>g_edges := g_edges g @ map (given_back t inc a stamps) M\<rparr>)"
    unfolding revert_create_def rows Let_def gave ..
  also have "\<dots> = g\<lparr>g_edges := [e \<leftarrow> g_edges g. e \<notin> set ?D] @ map (given_back t inc a stamps) M\<rparr>"
    using new by (simp add: drop_edges_def filter_id_conv)
  finally have run: "revert_create t rtype inc target keys stamps a s me g
      = g\<lparr>g_edges := [e \<leftarrow> g_edges g. e \<notin> set ?D] @ map (given_back t inc a stamps) M\<rparr>" .
  have types: "[e \<leftarrow> map (given_back t inc a stamps) M. e_type e = u] = (if u = t then map (given_back t inc a stamps) M else [])" for u
    by (auto simp: given_back_def filter_empty_conv filter_id_conv)
  have kept: "[e \<leftarrow> [e \<leftarrow> g_edges g. e \<notin> set ?D]. e_type e = u] = [e \<leftarrow> typed_edges g u. e \<notin> set ?D]" for u
    by (simp add: typed_edges_def conj_commute)
  have other: "[e \<leftarrow> typed_edges g u. e \<notin> set ?D] = typed_edges g u" if "u \<noteq> t" for u
  proof -
    have "e_type e = t" if "m \<in> set M" "cp m = Some e" for m e
      by (rule copies_of_survivor(3) [OF cp [OF that(1), unfolded that(2)]])
    then have "e \<notin> set ?D" if "e \<in> set (typed_edges g u)" for e
      using typed_edges_type [OF that] \<open>u \<noteq> t\<close> unfolding D by metis
    then show ?thesis by simp
  qed
  show ?thesis
    unfolding reverted_def run typed_edges_append types kept using other by (auto simp: D intro!: filter_cong)
qed

lemma try_bind_cong: "r = r' \<Longrightarrow> (\<And>x. r' = Inr x \<Longrightarrow> f x = f' x) \<Longrightarrow> try_bind r f = try_bind r' f'"
  by (cases r') (simp_all add: try_bind_def)

lemma given_back_simps [simp]:
  "e_type (given_back t inc a stamps m) = t"
  "holder inc (given_back t inc a stamps m) = PersonN a"
  "other_end inc (given_back t inc a stamps m) = e_dst m"
  by (simp_all add: given_back_def)

lemma given_back_props:
  "k \<notin> fst ` set stamps \<Longrightarrow> edge_prop (given_back t inc a stamps m) k =
     (if k \<in> set MOVE_KEYS then JNull
      else if k = ''merge_origin_person_id'' then edge_prop m ''origin_person_id'' else edge_prop m k)"
  by (auto simp: given_back_def restored_props_def edge_prop_def MOVE_KEYS_def json_get_sets_other)

text \<open>After the moves the survivor's copies are gone and the others are as before.\<close>

lemma revert_merge_effect:
  assumes M: "M = [m \<leftarrow> g_edges g. move_of me rtype target m]"
    and cp: "\<And>m. m \<in> set M \<Longrightarrow> [x \<leftarrow> g_edges g. survivor_edge t False keys s m x] = listed (cp m)"
    and ok: "\<And>m. m \<in> set M \<Longrightarrow> restorable g a m \<and> has_keys keys m"
    and none: "\<And>m. m \<in> set M \<Longrightarrow> \<not> list_ex (merge_hit t (PersonN a) (e_dst m) (key_of keys m)) (g_edges g)"
    and same: "\<And>m x. m \<in> set M \<Longrightarrow> edge_prop m ''created_on_survivor'' = JBool True \<Longrightarrow> cp m = Some x \<Longrightarrow> same m x"
    and dist: "distinct (map (edge_key False keys) M)"
    and keys: "set keys \<inter> insert ''merge_origin_person_id'' (set MOVE_KEYS) = {}"
    and "a \<noteq> s"
  shows "\<exists>g'. revert_merge t rtype target keys same a s me g = Inr g' \<and> reverted t False a [] M cp g g'"
proof -
  let ?rows = "map (\<lambda>m. (m, cp m)) M"
  let ?given = "given_back t False a []"
  let ?D = "dropped_edges g a same ?rows"
  let ?hit = "\<lambda>m. merge_hit t (PersonN a) (e_dst m) (key_of keys m)"
  have rows: "revert_rows t rtype False target keys s me g = ?rows"
    by (rule revert_rows_single [OF M]) (rule cp)
  have D: "x \<in> set ?D \<longleftrightarrow> (\<exists>m \<in> set M. edge_prop m ''created_on_survivor'' = JBool True \<and> cp m = Some x)" for x
    using ok same by (force simp: dropped_edges_def split: option.splits)
  have created: "?given m = \<lparr>e_type = t, e_src = PersonN a, e_dst = e_dst m, e_props = restored_props [] m\<rparr>" for m
    by (simp add: given_back_def edge_at_def)
  have "fold_result (\<lambda>(m, x) g'. if restorable g a m
             then merge_edge t (PersonN a) (e_dst m) (key_of keys m)
                    (\<lambda>_. restored_props [] m) (\<lambda>_. restored_props [] m) g'
             else ok g') ?rows g
      = fold_result (\<lambda>m. merge_edge t (PersonN a) (e_dst m) (key_of keys m)
             (\<lambda>_. restored_props [] m) (\<lambda>_. restored_props [] m)) M g"
  proof -
    have gen: "fold_result (\<lambda>(m, x) g'. if restorable g a m then f m g' else ok g') (map (\<lambda>m. (m, cp m)) ms) h
        = fold_result f ms h" if "\<And>m. m \<in> set ms \<Longrightarrow> restorable g a m" for f ms and h :: graph
      using that by (induction ms arbitrary: h) (simp_all cong: try_bind_cong)
    show ?thesis by (rule gen) (use ok in blast)
  qed
  also have "\<dots> = Inr (g\<lparr>g_edges := g_edges g @ map ?given [m \<leftarrow> M. \<not> list_ex (?hit m) (g_edges g)]\<rparr>)"
  proof (rule merge_edges_run)
    show "sorted_wrt (\<lambda>m m'. \<not> ?hit m' (?given m)) M"
    proof (rule sorted_wrt_keys [OF dist])
      fix m m' assume m: "m \<in> set M" "m' \<in> set M" "edge_key False keys m \<noteq> edge_key False keys m'"
      have "edge_prop (?given m) k = edge_prop m k" if "k \<in> set keys" for k
        using keys that by (auto simp: given_back_props)
      then have "edge_key False keys (?given m) = edge_key False keys m"
        by (simp add: edge_key_def other_end_def created)
      then show "\<not> ?hit m' (?given m)" using m merge_hit_key [of keys m'] ok by auto
    qed
  next
    fix m assume "m \<in> set M"
    then show "\<not> list_ex (\<lambda>(k, v). v = JNull) (key_of keys m)" using ok no_null_keys by blast
  next
    fix m assume "m \<in> set M" "list_ex (?hit m) (g_edges g)"
    then show "(\<lambda>_. restored_props [] m) = id" using none by blast
  qed (simp add: created)
  also have "[m \<leftarrow> M. \<not> list_ex (?hit m) (g_edges g)] = M"
    using none by (simp add: filter_id_conv)
  finally have run: "revert_merge t rtype target keys same a s me g
      = Inr (drop_edges ?D (g\<lparr>g_edges := g_edges g @ map ?given M\<rparr>))"
    unfolding revert_merge_def rows Let_def by simp
  have from_s: "e_type e = t \<and> holder False e = PersonN s" if "e \<in> set ?D" for e
  proof -
    from that obtain m where m: "m \<in> set M" "cp m = Some e" unfolding D by blast
    show ?thesis using copies_of_survivor(3,4) [OF cp [OF m(1), unfolded m(2)]] by blast
  qed
  have "e \<notin> set ?D" if "e \<in> set (map ?given M)" for e
    using from_s [of e] that \<open>a \<noteq> s\<close> by auto
  then have drop: "drop_edges ?D (g\<lparr>g_edges := g_edges g @ map ?given M\<rparr>)
      = g\<lparr>g_edges := [e \<leftarrow> g_edges g. e \<notin> set ?D] @ map ?given M\<rparr>"
    by (simp add: drop_edges_def filter_id_conv)
  have types: "[e \<leftarrow> map ?given M. e_type e = u] = (if u = t then map ?given M else [])" for u
    by (auto simp: filter_empty_conv filter_id_conv)
  have kept: "[e \<leftarrow> [e \<leftarrow> g_edges g. e \<notin> set ?D]. e_type e = u] = [e \<leftarrow> typed_edges g u. e \<notin> set ?D]" for u
    by (simp add: typed_edges_def conj_commute)
  have other: "[e \<leftarrow> typed_edges g u. e \<notin> set ?D] = typed_edges g u" if "u \<noteq> t" for u
  proof -
    have "e \<notin> set ?D" if "e \<in> set (typed_edges g u)" for e
      using typed_edges_type [OF that] \<open>u \<noteq> t\<close> from_s by metis
    then show ?thesis by simp
  qed
  have "reverted t False a [] M cp g (drop_edges ?D (g\<lparr>g_edges := g_edges g @ map ?given M\<rparr>))"
    unfolding reverted_def drop typed_edges_append types kept using other by (auto simp: D intro!: filter_cong)
  with run show ?thesis by blast
qed

section \<open>A type there and back\<close>

definition copy_of :: "rel_type \<Rightarrow> bool \<Rightarrow> string list \<Rightarrow> string \<Rightarrow> string \<Rightarrow> edge \<Rightarrow> edge \<Rightarrow> bool" where
  "copy_of t inc keys a s h x =
     (e_type x = t \<and> holder inc x = PersonN s \<and> other_end inc x = other_end inc h
      \<and> edge_prop x ''merge_origin_person_id'' = origin_of a (e_props h)
      \<and> (\<forall>k \<in> set keys. edge_prop x k = edge_prop h k))"

definition mover :: "bool \<Rightarrow> string \<Rightarrow> string \<Rightarrow> string \<Rightarrow> (edge \<Rightarrow> bool) \<Rightarrow> edge \<Rightarrow> edge" where
  "mover inc me rtype a c h = moved_edge me (other_end inc h) rtype (direction inc) a (c h) (e_props h)"

lemma mover_simps [simp]:
  "e_type (mover inc me rtype a c h) = MOVED_RELATIONSHIP"
  "e_src (mover inc me rtype a c h) = MergeEventN me"
  "e_dst (mover inc me rtype a c h) = other_end inc h"
  "edge_prop (mover inc me rtype a c h) ''relationship_type'' = JStr rtype"
  "edge_prop (mover inc me rtype a c h) ''origin_person_id'' = origin_of a (e_props h)"
  "edge_prop (mover inc me rtype a c h) ''created_on_survivor'' = JBool (c h)"
  "k \<notin> set MOVE_KEYS \<Longrightarrow> edge_prop (mover inc me rtype a c h) k = edge_prop h k"
  by (simp_all add: mover_def moved_edge_props edge_prop_def [of h])

lemma origin_not_null [simp]: "origin_of a d \<noteq> JNull"
  by (simp add: origin_of_def coalesce_def)

text \<open>
  The relationships \<open>H\<close> were taken from the absorbed person, leaving their moves; \<open>copy\<close> made those with \<open>c\<close>
  new relationships of the survivor, and nothing else in the graph looks like a copy.
\<close>

definition taken ::
    "rel_type \<Rightarrow> bool \<Rightarrow> string list \<Rightarrow> string \<Rightarrow> string \<Rightarrow> string \<Rightarrow> string \<Rightarrow> (edge \<Rightarrow> bool) \<Rightarrow> (edge \<Rightarrow> edge)
     \<Rightarrow> edge list \<Rightarrow> edge list \<Rightarrow> edge list \<Rightarrow> graph \<Rightarrow> bool" where
  "taken t inc keys a s me rtype c copy H A B g =
     (typed_edges g t = A @ map copy (filter c H) @ B \<and> moves g me rtype = map (mover inc me rtype a c) H
      \<and> (\<forall>h \<in> set H. has_keys keys h \<and> copy_of t inc keys a s h (copy h))
      \<and> distinct (map (edge_key inc keys) H) \<and> set keys \<inter> insert ''merge_origin_person_id'' (set MOVE_KEYS) = {}
      \<and> (\<forall>h \<in> set H. \<forall>x \<in> set A \<union> set B. \<not> survivor_edge t inc keys s (mover inc me rtype a c h) x)
      \<and> a \<noteq> s)"

lemma taken_keys:
  assumes "taken t inc keys a s me rtype c copy H A B g" "k \<in> set keys"
  shows "edge_prop (mover inc' me' rtype' a' c' h) k = edge_prop h k"
proof -
  have "k \<notin> set MOVE_KEYS" using assms by (auto simp: taken_def)
  then show ?thesis by simp
qed

lemma survivor_edge_copy:
  assumes "taken t inc keys a s me rtype c copy H A B g" "h \<in> set H" "h' \<in> set H"
  shows "survivor_edge t inc keys s (mover inc me rtype a c h) (copy h') \<longleftrightarrow> edge_key inc keys h' = edge_key inc keys h"
proof -
  have keys: "edge_prop (mover inc me rtype a c h) k = edge_prop h k" if "k \<in> set keys" for k
    by (rule taken_keys [OF assms(1) that])
  have copy: "copy_of t inc keys a s h' (copy h')" and nonnull: "has_keys keys h" using assms by (auto simp: taken_def)
  have same: "h' = h" if "edge_key inc keys h' = edge_key inc keys h"
    using assms that by (auto simp: taken_def distinct_map inj_on_def)
  show ?thesis
  proof
    assume s: "survivor_edge t inc keys s (mover inc me rtype a c h) (copy h')"
    then have "other_end inc (copy h') = other_end inc h" "\<forall>k \<in> set keys. edge_prop (copy h') k = edge_prop h k"
      using keys by (auto simp: survivor_edge_def held_def list_all_iff)
    with copy show "edge_key inc keys h' = edge_key inc keys h" by (simp add: edge_key_def copy_of_def)
  next
    assume "edge_key inc keys h' = edge_key inc keys h"
    with same copy keys nonnull show "survivor_edge t inc keys s (mover inc me rtype a c h) (copy h')"
      by (simp add: survivor_edge_def held_def copy_of_def has_keys_def list_all_iff)
  qed
qed

definition survivor_copy :: "rel_type \<Rightarrow> bool \<Rightarrow> string list \<Rightarrow> string \<Rightarrow> graph \<Rightarrow> edge \<Rightarrow> edge option" where
  "survivor_copy t inc keys s g m =
     (case [x \<leftarrow> g_edges g. survivor_edge t inc keys s m x] of [] \<Rightarrow> None | x # _ \<Rightarrow> Some x)"

lemma survivor_matches:
  assumes "taken t inc keys a s me rtype c copy H A B g" "h \<in> set H"
  shows "[x \<leftarrow> g_edges g. survivor_edge t inc keys s (mover inc me rtype a c h) x]
    = listed (if c h then Some (copy h) else None)"
proof -
  let ?S = "survivor_edge t inc keys s (mover inc me rtype a c h)"
  have none: "\<not> ?S x" if "x \<in> set A \<union> set B" for x using assms that by (simp add: taken_def)
  have "[x \<leftarrow> g_edges g. ?S x] = [x \<leftarrow> typed_edges g t. ?S x]"
    by (rule filter_typed_edges [symmetric]) (simp add: survivor_edge_def held_def)
  also have "typed_edges g t = A @ map copy (filter c H) @ B" using assms(1) by (simp add: taken_def)
  also have "[x \<leftarrow> A @ map copy (filter c H) @ B. ?S x] = map copy [h' \<leftarrow> filter c H. ?S (copy h')]"
    using none by (simp add: filter_map comp_def filter_empty_conv)
  also have "[h' \<leftarrow> filter c H. ?S (copy h')] = (if c h then [h] else [])"
  proof -
    have S: "?S (copy h') \<longleftrightarrow> edge_key inc keys h' = edge_key inc keys h" if "h' \<in> set H" for h'
      by (rule survivor_edge_copy [OF assms that])
    have dist: "distinct (map (edge_key inc keys) H)" using assms(1) by (simp add: taken_def)
    have "[h' \<leftarrow> H. ?S (copy h')] = [h]" by (rule filter_one_key [OF dist assms(2)]) (rule S)
    moreover have "[h' \<leftarrow> filter c H. ?S (copy h')] = filter c [h' \<leftarrow> H. ?S (copy h')]" by (simp add: conj_commute)
    ultimately show ?thesis by simp
  qed
  finally show ?thesis by (simp add: listed_def)
qed

lemma survivor_copy_taken:
  assumes "taken t inc keys a s me rtype c copy H A B g" "m \<in> set (map (mover inc me rtype a c) H)"
  shows "[x \<leftarrow> g_edges g. survivor_edge t inc keys s m x] = listed (survivor_copy t inc keys s g m)"
  using assms survivor_matches [OF assms(1)] by (auto simp: survivor_copy_def listed_def)

lemma taken_reverted:
  assumes tk: "taken t inc keys a s me rtype c copy H A B g"
    and rev: "reverted t inc a stamps (map (mover inc me rtype a c) H) (survivor_copy t inc keys s g) g g'"
  shows "typed_edges g' u = (if u = t then A @ B @ map (\<lambda>h. given_back t inc a stamps (mover inc me rtype a c h)) H
      else typed_edges g u)" and "g_nodes g' = g_nodes g"
proof -
  let ?mv = "mover inc me rtype a c"
  have cp: "survivor_copy t inc keys s g (?mv h) = (if c h then Some (copy h) else None)" if "h \<in> set H" for h
    unfolding survivor_copy_def survivor_matches [OF tk that] by (simp add: listed_def)
  have gone: "(\<forall>m \<in> set (map ?mv H). edge_prop m ''created_on_survivor'' = JBool True
      \<longrightarrow> survivor_copy t inc keys s g m \<noteq> Some e) \<longleftrightarrow> e \<notin> copy ` set (filter c H)" for e
    using cp by auto
  have "x \<notin> copy ` set (filter c H)" if "x \<in> set A \<union> set B" for x
  proof
    assume "x \<in> copy ` set (filter c H)"
    then obtain h where "h \<in> set H" "x = copy h" by auto
    with survivor_edge_copy [OF tk, of h h] tk that show False by (auto simp: taken_def)
  qed
  then have "[e \<leftarrow> A @ map copy (filter c H) @ B. e \<notin> copy ` set (filter c H)] = A @ B"
    by (simp add: filter_empty_conv filter_id_conv)
  with rev gone tk show "typed_edges g' u = (if u = t then A @ B @ map (\<lambda>h. given_back t inc a stamps (?mv h)) H
      else typed_edges g u)"
    by (simp add: reverted_def taken_def comp_def)
  show "g_nodes g' = g_nodes g" using rev by (simp add: reverted_def)
qed

lemma moves_filter:
  assumes "moves g me rtype = map (mover inc me rtype a c) H" "\<And>h. h \<in> set H \<Longrightarrow> target (other_end inc h)"
  shows "map (mover inc me rtype a c) H = [m \<leftarrow> g_edges g. move_of me rtype target m]"
proof -
  have "[m \<leftarrow> g_edges g. move_of me rtype target m] = [m \<leftarrow> moves g me rtype. target (e_dst m)]"
    by (auto simp: moves_def typed_edges_def move_of_def intro!: filter_cong)
  also have "\<dots> = moves g me rtype" unfolding assms(1) using assms(2) by (simp add: filter_id_conv)
  finally show ?thesis using assms(1) by simp
qed

text \<open>The origin of a relationship of the absorbed person: the person itself or one that was merged into it.\<close>

definition origin_known :: "graph \<Rightarrow> string \<Rightarrow> edge \<Rightarrow> bool" where
  "origin_known g a h =
     (case json_str (origin_of a (e_props h)) of
        None \<Rightarrow> False
      | Some p \<Rightarrow> has_node g (PersonN p) \<and> (p = a \<or> node_prop g (PersonN p) ''status'' = JStr ''merged''))"

lemma restorable_mover: "restorable g a (mover inc me rtype a c h) = origin_known g a h"
  by (simp add: restorable_def origin_known_def)

lemma revert_create_taken:
  assumes tk: "taken t inc keys a s me rtype (\<lambda>h. True) copy H A B g"
    and ok: "\<And>h. h \<in> set H \<Longrightarrow> target (other_end inc h) \<and> origin_known g a h \<and> (t = KNOWS \<longrightarrow> other_end inc h \<noteq> PersonN a)"
  shows "typed_edges (revert_create t rtype inc target keys stamps a s me g) u =
     (if u = t then A @ B @ map (\<lambda>h. given_back t inc a stamps (mover inc me rtype a (\<lambda>h. True) h)) H
      else typed_edges g u)"
    and "g_nodes (revert_create t rtype inc target keys stamps a s me g) = g_nodes g"
proof -
  have M: "map (mover inc me rtype a (\<lambda>h. True)) H = [m \<leftarrow> g_edges g. move_of me rtype target m]"
    by (rule moves_filter) (use tk ok in \<open>auto simp: taken_def\<close>)
  have "reverted t inc a stamps (map (mover inc me rtype a (\<lambda>h. True)) H) (survivor_copy t inc keys s g) g
      (revert_create t rtype inc target keys stamps a s me g)"
    by (rule revert_create_effect [OF M survivor_copy_taken [OF tk]])
       (use ok tk in \<open>auto simp: taken_def restorable_mover\<close>)
  from taken_reverted [OF tk this] show "typed_edges (revert_create t rtype inc target keys stamps a s me g) u =
     (if u = t then A @ B @ map (\<lambda>h. given_back t inc a stamps (mover inc me rtype a (\<lambda>h. True) h)) H
      else typed_edges g u)" "g_nodes (revert_create t rtype inc target keys stamps a s me g) = g_nodes g" by auto
qed

lemma revert_merge_taken:
  assumes tk: "taken t False keys a s me rtype c copy H A B g"
    and ok: "\<And>h. h \<in> set H \<Longrightarrow> target (e_dst h) \<and> origin_known g a h"
    and gone: "\<And>x. x \<in> set A \<union> set B \<Longrightarrow> e_src x \<noteq> PersonN a \<or> \<not> target (e_dst x)"
    and same: "\<And>h. h \<in> set H \<Longrightarrow> c h \<Longrightarrow> same (mover False me rtype a c h) (copy h)"
  shows "\<exists>g'. revert_merge t rtype target keys same a s me g = Inr g' \<and> g_nodes g' = g_nodes g
     \<and> (\<forall>u. typed_edges g' u =
          (if u = t then A @ B @ map (\<lambda>h. given_back t False a [] (mover False me rtype a c h)) H
           else typed_edges g u))"
proof -
  let ?mv = "mover False me rtype a c"
  have M: "map ?mv H = [m \<leftarrow> g_edges g. move_of me rtype target m]"
    by (rule moves_filter) (use tk ok in \<open>auto simp: taken_def other_end_def\<close>)
  have keys: "edge_prop (?mv h) k = edge_prop h k" if "k \<in> set keys" for h k
    by (rule taken_keys [OF tk that])
  have key: "edge_key False keys (?mv h) = edge_key False keys h" for h
    using keys by (simp add: edge_key_def other_end_def)
  have "\<exists>g'. revert_merge t rtype target keys same a s me g = Inr g'
      \<and> reverted t False a [] (map ?mv H) (survivor_copy t False keys s g) g g'"
  proof (rule revert_merge_effect [OF M survivor_copy_taken [OF tk]])
    fix m assume "m \<in> set (map ?mv H)"
    then obtain h where h: "h \<in> set H" "m = ?mv h" by auto
    then show "restorable g a m \<and> has_keys keys m"
      using ok tk keys by (auto simp: restorable_mover taken_def has_keys_def list_all_iff)
    show "\<not> list_ex (merge_hit t (PersonN a) (e_dst m) (key_of keys m)) (g_edges g)"
    proof
      assume "list_ex (merge_hit t (PersonN a) (e_dst m) (key_of keys m)) (g_edges g)"
      then obtain x where x: "x \<in> set (typed_edges g t)" "e_src x = PersonN a" "e_dst x = e_dst h"
        unfolding h(2) by (auto simp: list_ex_iff merge_hit_def edge_between_def set_typed_edges other_end_def)
      then have "x \<in> set A \<union> set B \<or> x \<in> copy ` set H" using tk by (auto simp: taken_def)
      then show False
      proof
        assume "x \<in> set A \<union> set B"
        with gone x ok h show False by fastforce
      next
        assume "x \<in> copy ` set H"
        then have "holder False x = PersonN s" using tk by (auto simp: taken_def copy_of_def)
        with x tk show False by (simp add: holder_def taken_def)
      qed
    qed
    fix x assume "edge_prop m ''created_on_survivor'' = JBool True" "survivor_copy t False keys s g m = Some x"
    then have "c h" "x = copy h" unfolding h(2) survivor_copy_def survivor_matches [OF tk h(1)] by (simp_all add: listed_def)
    with same h show "same m x" by simp
  qed (use tk in \<open>auto simp: taken_def comp_def key\<close>)
  then obtain g' where "revert_merge t rtype target keys same a s me g = Inr g'"
    and rev: "reverted t False a [] (map ?mv H) (survivor_copy t False keys s g) g g'" by blast
  with taken_reverted [OF tk rev] show ?thesis by blast
qed

section \<open>What the manual merge takes\<close>

text \<open>How the relationships of each type hang on a person, and what tells them apart.\<close>

definition points_in :: "rel_type \<Rightarrow> bool" where
  "points_in t = (t = LINKED_TO)"

fun far_end :: "rel_type \<Rightarrow> node \<Rightarrow> bool" where
  "far_end LINKED_TO n = is_source_record n"
| "far_end HAS_FACT n = is_source_record n"
| "far_end IDENTIFIED_BY n = is_identifier n"
| "far_end LIVES_AT n = is_address n"
| "far_end PURCHASED n = is_order n"
| "far_end BOUGHT_VEHICLE n = is_vehicle n"
| "far_end OWNS_VEHICLE n = is_vehicle n"
| "far_end _ n = False"

lemma far_end_eqs:
  "far_end LINKED_TO = is_source_record" "far_end HAS_FACT = is_source_record" "far_end IDENTIFIED_BY = is_identifier"
  "far_end LIVES_AT = is_address" "far_end PURCHASED = is_order" "far_end BOUGHT_VEHICLE = is_vehicle"
  "far_end OWNS_VEHICLE = is_vehicle"
  by (rule ext, simp)+

fun move_name :: "rel_type \<Rightarrow> string" where
  "move_name LINKED_TO = ''LINKED_TO''"
| "move_name HAS_FACT = ''HAS_FACT''"
| "move_name IDENTIFIED_BY = ''IDENTIFIED_BY''"
| "move_name LIVES_AT = ''LIVES_AT''"
| "move_name PURCHASED = ''PURCHASED''"
| "move_name BOUGHT_VEHICLE = ''BOUGHT_VEHICLE''"
| "move_name OWNS_VEHICLE = ''OWNS_VEHICLE''"
| "move_name _ = ''''"

fun match_keys :: "rel_type \<Rightarrow> string list" where
  "match_keys IDENTIFIED_BY = RECORD_KEYS"
| "match_keys LIVES_AT = RECORD_KEYS"
| "match_keys OWNS_VEHICLE = RECORD_KEYS"
| "match_keys PURCHASED = ORDER_KEYS"
| "match_keys BOUGHT_VEHICLE = ORDER_KEYS"
| "match_keys HAS_FACT = [''attribute_name'']"
| "match_keys KNOWS = [''source_record_pk'']"
| "match_keys _ = []"

definition is_context :: "rel_type \<Rightarrow> bool" where
  "is_context t = (t \<in> {PURCHASED, BOUGHT_VEHICLE, OWNS_VEHICLE})"

definition held_edges :: "rel_type \<Rightarrow> bool \<Rightarrow> (node \<Rightarrow> bool) \<Rightarrow> string \<Rightarrow> graph \<Rightarrow> edge list" where
  "held_edges t inc target a g = [e \<leftarrow> typed_edges g t. held t inc target a e]"

definition other_edges :: "rel_type \<Rightarrow> bool \<Rightarrow> (node \<Rightarrow> bool) \<Rightarrow> string \<Rightarrow> graph \<Rightarrow> edge list" where
  "other_edges t inc target a g = [e \<leftarrow> typed_edges g t. \<not> held t inc target a e]"

definition new_on_survivor :: "rel_type \<Rightarrow> string \<Rightarrow> graph \<Rightarrow> edge \<Rightarrow> bool" where
  "new_on_survivor t s g h = (is_context t \<longrightarrow> \<not> context_twin t (match_keys t) s g h)"

definition survivor_stamps :: "int \<Rightarrow> rel_type \<Rightarrow> json_obj" where
  "survivor_stamps now t = (if t = LINKED_TO then [(''linked_at'', JInt now)] else [])"

definition copied :: "int \<Rightarrow> string \<Rightarrow> string \<Rightarrow> rel_type \<Rightarrow> edge \<Rightarrow> edge" where
  "copied now a s t h =
     (if is_context t then context_copy t (match_keys t) a s h
      else moved_copy (points_in t) (survivor_stamps now t) a s h)"

text \<open>
  A relationship can be told apart after the merge: its keys are set, no other one of the person has them,
  its origin is known, and no relationship of the survivor looks like the copy of it.
\<close>

definition like_copy :: "rel_type \<Rightarrow> bool \<Rightarrow> string list \<Rightarrow> string \<Rightarrow> string \<Rightarrow> edge \<Rightarrow> edge \<Rightarrow> bool" where
  "like_copy t inc keys a s h x =
     (held t inc (\<lambda>n. n = other_end inc h) s x
      \<and> edge_prop x ''merge_origin_person_id'' = origin_of a (e_props h)
      \<and> list_all (\<lambda>k. edge_prop x k = edge_prop h k) keys)"

definition separable :: "rel_type \<Rightarrow> bool \<Rightarrow> (node \<Rightarrow> bool) \<Rightarrow> string \<Rightarrow> string \<Rightarrow> graph \<Rightarrow> bool" where
  "separable t inc target a s g =
     (let H = held_edges t inc target a g; keys = match_keys t
      in distinct (map (edge_key inc keys) H)
         \<and> list_all (\<lambda>h. has_keys keys h \<and> distinct (map fst (e_props h)) \<and> origin_known g a h
              \<and> \<not> list_ex (like_copy t inc keys a s h) (g_edges g)
              \<and> (is_context t \<longrightarrow> edge_prop h ''source_record_pk'' \<noteq> JNull
                   \<and> length [x \<leftarrow> g_edges g. merge_hit t (PersonN s) (e_dst h) (key_of keys h) x] \<le> 1)) H)"

lemma moves_typed: "typed_edges g MOVED_RELATIONSHIP = typed_edges k MOVED_RELATIONSHIP \<Longrightarrow> moves g me rtype = moves k me rtype"
  by (simp add: moves_def)

lemma moves_append:
  assumes "typed_edges k' MOVED_RELATIONSHIP = typed_edges k MOVED_RELATIONSHIP @ map (mover inc me rtype a c) H"
  shows "moves k' me r = moves k me r @ (if r = rtype then map (mover inc me rtype a c) H else [])"
  using assms by (simp add: moves_def filter_map comp_def)

lemma context_twin_typed: "typed_edges g t = typed_edges k t \<Longrightarrow> context_twin t keys s g h = context_twin t keys s k h"
proof -
  have "context_twin t keys s g h = list_ex (merge_hit t (PersonN s) (e_dst h) (key_of keys h)) (typed_edges g t)" for g
    by (auto simp: context_twin_def list_ex_iff typed_edges_def merge_hit_def edge_between_def)
  then show "typed_edges g t = typed_edges k t \<Longrightarrow> ?thesis" by simp
qed

lemma owned_step:
  assumes "t \<noteq> MOVED_RELATIONSHIP" "t \<noteq> AFFECTED_RECORD"
    and k': "k' = mark_affected me pks (move_rel t rtype inc target stamps a s me k)
           \<or> k' = fold (\<lambda>pk. create_edge (affected_edge me pk)) pks (move_rel t rtype inc target stamps a s me k)"
  shows "g_nodes k' = g_nodes k"
    and "u \<notin> {t, MOVED_RELATIONSHIP, AFFECTED_RECORD} \<Longrightarrow> typed_edges k' u = typed_edges k u"
    and "typed_edges k' t = other_edges t inc target a k @ map (moved_copy inc stamps a s) (held_edges t inc target a k)"
    and "moves k' me r = moves k me r @
           (if r = rtype then map (mover inc me rtype a (\<lambda>h. True)) (held_edges t inc target a k) else [])"
proof -
  note move = move_rel_effect [OF assms(1) refl, of rtype inc target stamps a s me k]
  have typed: "typed_edges k' v = typed_edges (move_rel t rtype inc target stamps a s me k) v" if "v \<noteq> AFFECTED_RECORD" for v
    using k' that by auto
  show "g_nodes k' = g_nodes k" using k' move(2) by auto
  show "u \<notin> {t, MOVED_RELATIONSHIP, AFFECTED_RECORD} \<Longrightarrow> typed_edges k' u = typed_edges k u"
    by (simp add: typed move(1))
  show "typed_edges k' t = other_edges t inc target a k @ map (moved_copy inc stamps a s) (held_edges t inc target a k)"
    using assms(2) by (simp add: typed move(1) held_edges_def other_edges_def)
  have "typed_edges k' MOVED_RELATIONSHIP = typed_edges k MOVED_RELATIONSHIP
      @ map (mover inc me rtype a (\<lambda>h. True)) (held_edges t inc target a k)"
    using assms(1) by (simp add: typed move(1) held_edges_def mover_def)
  then show "moves k' me r = moves k me r @
           (if r = rtype then map (mover inc me rtype a (\<lambda>h. True)) (held_edges t inc target a k) else [])"
    by (rule moves_append)
qed

lemma context_step:
  assumes able: "rewirable k a s me" and "a \<noteq> s" and t: "is_context t"
    and sep: "separable t False (far_end t) a s g" and same: "typed_edges k t = typed_edges g t"
    and rewire: "rewire a s me = rewire_merge t rtype (match_keys t) (far_end t) json_sets id a s me"
  defines "H \<equiv> held_edges t False (far_end t) a g" and "new \<equiv> new_on_survivor t s g"
  shows "\<exists>k'. manual_context t (far_end t) rewire a s me k = Inr k' \<and> g_nodes k' = g_nodes k
     \<and> (\<forall>u. u \<notin> {t, MOVED_RELATIONSHIP, AFFECTED_RECORD} \<longrightarrow> typed_edges k' u = typed_edges k u)
     \<and> typed_edges k' t = other_edges t False (far_end t) a g @ map (context_copy t (match_keys t) a s) (filter new H)
     \<and> (\<forall>r. moves k' me r = moves k me r @ (if r = rtype then map (mover False me rtype a new) H else []))"
proof -
  let ?keys = "match_keys t"
  have ty: "t \<noteq> MOVED_RELATIONSHIP" "t \<noteq> AFFECTED_RECORD" using t by (auto simp: is_context_def)
  have held: "held t False (far_end t) a e \<longleftrightarrow> e_type e = t \<and> e_src e = PersonN a \<and> far_end t (e_dst e)" for e
    by (simp add: held_def holder_def other_end_def)
  have H: "H = [e \<leftarrow> g_edges k. e_type e = t \<and> e_src e = PersonN a \<and> far_end t (e_dst e)]"
    unfolding H_def held_edges_def same [symmetric] held by (rule filter_typed_edges) simp
  have sepH: "has_keys ?keys h \<and> distinct (map fst (e_props h))"
    "length [x \<leftarrow> g_edges g. merge_hit t (PersonN s) (e_dst h) (key_of ?keys h) x] \<le> 1" if "h \<in> set H" for h
    using sep t that by (auto simp: separable_def Let_def H_def list_all_iff)
  have hits: "[x \<leftarrow> g_edges k. merge_hit t (PersonN s) n kvs x] = [x \<leftarrow> g_edges g. merge_hit t (PersonN s) n kvs x]" for n kvs
  proof -
    have "[x \<leftarrow> g_edges g'. merge_hit t (PersonN s) n kvs x] = [x \<leftarrow> typed_edges g' t. merge_hit t (PersonN s) n kvs x]" for g'
      by (rule filter_typed_edges [symmetric]) (simp add: merge_hit_def edge_between_def)
    then show ?thesis by (simp add: same)
  qed
  have new: "(\<not> context_twin t ?keys s k h) = new h" for h
    using t context_twin_typed [OF same] by (simp add: new_def new_on_survivor_def)
  have kcopy: "''merge_origin_person_id'' \<notin> set ?keys"
    using t by (auto simp: is_context_def RECORD_KEYS_def ORDER_KEYS_def)
  have "rewire a s me k = Inr (k\<lparr>g_edges :=
      ([e \<leftarrow> g_edges k. \<not> (e_type e = t \<and> e_src e = PersonN a \<and> far_end t (e_dst e))]
        @ map (\<lambda>h. moved_edge me (e_dst h) rtype ''outgoing'' a (\<not> context_twin t ?keys s k h) (e_props h)) H)
      @ map (context_copy t ?keys a s) [h \<leftarrow> H. \<not> context_twin t ?keys s k h]\<rparr>)"
    unfolding rewire
  proof (rule context_effect [OF able \<open>a \<noteq> s\<close> ty(1) H _ kcopy])
    show "distinct (map (edge_key False ?keys) H)" using sep by (simp add: separable_def Let_def H_def)
  qed (use sepH in \<open>auto simp: hits\<close>)
  moreover have "map (\<lambda>h. moved_edge me (e_dst h) rtype ''outgoing'' a (new h) (e_props h)) H = map (mover False me rtype a new) H"
    by (simp add: mover_def other_end_def direction_def)
  ultimately have run: "rewire a s me k = Inr (k\<lparr>g_edges :=
      ([e \<leftarrow> g_edges k. \<not> (e_type e = t \<and> e_src e = PersonN a \<and> far_end t (e_dst e))]
        @ map (mover False me rtype a new) H) @ map (context_copy t ?keys a s) (filter new H)\<rparr>)" (is "_ = Inr ?k1")
    by (simp add: new)
  have kept: "[e \<leftarrow> [e \<leftarrow> g_edges k. \<not> (e_type e = t \<and> e_src e = PersonN a \<and> far_end t (e_dst e))]. e_type e = u]
      = (if u = t then other_edges t False (far_end t) a g else typed_edges k u)" for u
    unfolding other_edges_def same [symmetric] held
    by (auto simp: typed_edges_def conj_commute intro!: filter_cong)
  have moved: "[e \<leftarrow> map (mover False me rtype a new) H. e_type e = u]
      = (if u = MOVED_RELATIONSHIP then map (mover False me rtype a new) H else [])" for u
    by (auto simp: filter_empty_conv)
  have copies: "[e \<leftarrow> map (context_copy t ?keys a s) (filter new H). e_type e = u]
      = (if u = t then map (context_copy t ?keys a s) (filter new H) else [])" for u
    by (auto simp: filter_empty_conv context_copy_def)
  obtain k1 where run: "rewire a s me k = Inr k1" and nodes: "g_nodes k1 = g_nodes k"
    and typed: "\<And>u. typed_edges k1 u =
      (if u = t then other_edges t False (far_end t) a g @ map (context_copy t ?keys a s) (filter new H)
       else if u = MOVED_RELATIONSHIP then typed_edges k u @ map (mover False me rtype a new) H else typed_edges k u)"
  proof (rule that [OF run])
    fix u show "typed_edges ?k1 u =
      (if u = t then other_edges t False (far_end t) a g @ map (context_copy t ?keys a s) (filter new H)
       else if u = MOVED_RELATIONSHIP then typed_edges k u @ map (mover False me rtype a new) H else typed_edges k u)"
      unfolding typed_edges_append filter_append kept moved copies using ty by simp
  qed simp
  let ?k' = "mark_affected me (named_sources t False (far_end t) a k) k1"
  have "moves ?k' me r = moves k me r @ (if r = rtype then map (mover False me rtype a new) H else [])" for r
    by (rule moves_append) (use ty in \<open>simp add: typed\<close>)
  moreover have "manual_context t (far_end t) rewire a s me k = Inr ?k'" by (simp add: manual_context_def run)
  ultimately show ?thesis using ty by (intro exI [of _ ?k']) (simp add: typed nodes)
qed

definition knows_copy :: "int \<Rightarrow> string \<Rightarrow> string \<Rightarrow> bool \<Rightarrow> edge \<Rightarrow> edge" where
  "knows_copy now a s inc =
     moved_copy inc ((if inc then [] else [(''declared_by_person_id'', JStr s)]) @ [(''updated_at'', JInt now)]) a s"

definition knows_name :: "bool \<Rightarrow> string" where
  "knows_name inc = (if inc then ''KNOWS_IN'' else ''KNOWS_OUT'')"

definition knows_held :: "bool \<Rightarrow> string \<Rightarrow> string \<Rightarrow> graph \<Rightarrow> edge list" where
  "knows_held inc a s g = held_edges KNOWS inc (knows_target s) a g"

definition knows_rest :: "string \<Rightarrow> string \<Rightarrow> graph \<Rightarrow> edge list" where
  "knows_rest a s g = [e \<leftarrow> typed_edges g KNOWS.
     \<not> held KNOWS False (knows_target s) a e \<and> \<not> held KNOWS True (knows_target s) a e]"

definition no_loops :: "graph \<Rightarrow> bool" where
  "no_loops g = list_all (\<lambda>e. e_src e \<noteq> e_dst e) (typed_edges g KNOWS)"

lemma knows_steps:
  assumes loops: "no_loops g" and same: "typed_edges k KNOWS = typed_edges g KNOWS"
    and k1: "k1 = manual_move KNOWS ''KNOWS_OUT'' False (knows_target s)
                [(''declared_by_person_id'', JStr s), (''updated_at'', JInt now)] a s me k"
    and k2: "k2 = manual_move KNOWS ''KNOWS_IN'' True (knows_target s) [(''updated_at'', JInt now)] a s me k1"
  shows "g_nodes k2 = g_nodes k"
    and "u \<notin> {KNOWS, MOVED_RELATIONSHIP, AFFECTED_RECORD} \<Longrightarrow> typed_edges k2 u = typed_edges k u"
    and "typed_edges k2 KNOWS = knows_rest a s g @ map (knows_copy now a s False) (knows_held False a s g)
           @ map (knows_copy now a s True) (knows_held True a s g)"
    and "moves k2 me r = moves k me r
           @ (if r = ''KNOWS_OUT'' then map (mover False me r a (\<lambda>h. True)) (knows_held False a s g)
              else if r = ''KNOWS_IN'' then map (mover True me r a (\<lambda>h. True)) (knows_held True a s g) else [])"
proof -
  note step1 = owned_step [OF _ _ disjI1 [OF k1 [unfolded manual_move_def]], simplified]
  note step2 = owned_step [OF _ _ disjI1 [OF k2 [unfolded manual_move_def]], simplified]
  have loop: "e_src e \<noteq> e_dst e" if "e \<in> set (typed_edges g KNOWS)" for e
    using loops that by (simp add: no_loops_def list_all_iff)
  have out: "typed_edges k1 KNOWS = other_edges KNOWS False (knows_target s) a g
      @ map (knows_copy now a s False) (knows_held False a s g)"
    unfolding step1(3) by (simp add: other_edges_def held_edges_def same knows_copy_def knows_held_def)
  have copy: "\<not> held KNOWS True (knows_target s) a (knows_copy now a s False h)" if "h \<in> set (knows_held False a s g)" for h
  proof -
    have "e_src h = PersonN a" "h \<in> set (typed_edges g KNOWS)"
      using that by (auto simp: knows_held_def held_edges_def held_def holder_def)
    with loop show ?thesis
      by (auto simp: knows_copy_def moved_copy_def held_def holder_def other_end_def edge_at_def knows_target_def)
  qed
  have both: "held KNOWS True (knows_target s) a e \<Longrightarrow> \<not> held KNOWS False (knows_target s) a e"
    if "e \<in> set (typed_edges g KNOWS)" for e
    using loop [OF that] by (simp add: held_def holder_def)
  have in_copies: "[e \<leftarrow> map (knows_copy now a s False) (knows_held False a s g). held KNOWS True (knows_target s) a e] = []"
    "[e \<leftarrow> map (knows_copy now a s False) (knows_held False a s g). \<not> held KNOWS True (knows_target s) a e]
       = map (knows_copy now a s False) (knows_held False a s g)"
    using copy by (auto simp: filter_empty_conv filter_id_conv)
  have "[e \<leftarrow> other_edges KNOWS False (knows_target s) a g. held KNOWS True (knows_target s) a e] = knows_held True a s g"
    using both by (auto simp: other_edges_def knows_held_def held_edges_def intro!: filter_cong)
  then have held: "held_edges KNOWS True (knows_target s) a k1 = knows_held True a s g"
    unfolding held_edges_def [of KNOWS True _ _ k1] out filter_append in_copies by simp
  have "[e \<leftarrow> other_edges KNOWS False (knows_target s) a g. \<not> held KNOWS True (knows_target s) a e] = knows_rest a s g"
    by (simp add: other_edges_def knows_rest_def)
  then have rest: "other_edges KNOWS True (knows_target s) a k1 = knows_rest a s g @ map (knows_copy now a s False) (knows_held False a s g)"
    unfolding other_edges_def [of KNOWS True _ _ k1] out filter_append in_copies by simp
  show "g_nodes k2 = g_nodes k" using step1(1) step2(1) by simp
  show "u \<notin> {KNOWS, MOVED_RELATIONSHIP, AFFECTED_RECORD} \<Longrightarrow> typed_edges k2 u = typed_edges k u"
    using step1(2) [of u] step2(2) [of u] by simp
  show "typed_edges k2 KNOWS = knows_rest a s g @ map (knows_copy now a s False) (knows_held False a s g)
           @ map (knows_copy now a s True) (knows_held True a s g)"
    unfolding step2(3) held rest by (simp add: knows_copy_def)
  have "held_edges KNOWS False (knows_target s) a k = knows_held False a s g"
    by (simp add: held_edges_def knows_held_def same)
  then show "moves k2 me r = moves k me r
           @ (if r = ''KNOWS_OUT'' then map (mover False me r a (\<lambda>h. True)) (knows_held False a s g)
              else if r = ''KNOWS_IN'' then map (mover True me r a (\<lambda>h. True)) (knows_held True a s g) else [])"
    using step1(4) [of r] step2(4) [of r] by (simp add: held)
qed

definition moved_owned :: "int \<Rightarrow> string \<Rightarrow> string \<Rightarrow> string \<Rightarrow> rel_type \<Rightarrow> graph \<Rightarrow> graph \<Rightarrow> bool" where
  "moved_owned now a s me t g g' =
     (let H = held_edges t (points_in t) (far_end t) a g; new = new_on_survivor t s g
      in typed_edges g' t = other_edges t (points_in t) (far_end t) a g @ map (copied now a s t) (filter new H)
         \<and> moves g' me (move_name t) = map (mover (points_in t) me (move_name t) a new) H)"

definition moved_knows :: "int \<Rightarrow> string \<Rightarrow> string \<Rightarrow> string \<Rightarrow> graph \<Rightarrow> graph \<Rightarrow> bool" where
  "moved_knows now a s me g g' =
     (typed_edges g' KNOWS = knows_rest a s g @ map (knows_copy now a s False) (knows_held False a s g)
        @ map (knows_copy now a s True) (knows_held True a s g)
      \<and> (\<forall>inc. moves g' me (knows_name inc) = map (mover inc me (knows_name inc) a (\<lambda>h. True)) (knows_held inc a s g)))"

text \<open>All relationships of the absorbed person are moved, and the rewiring does not fail.\<close>

lemma manual_rewire_effect:
  assumes able: "rewirable g a s me" and "a \<noteq> s" and loops: "no_loops g" and fresh: "\<And>r. moves g me r = []"
    and sep: "\<And>t. is_context t \<Longrightarrow> separable t False (far_end t) a s g"
  shows "\<exists>g'. manual_rewire now a s me g = Inr g' \<and> g_nodes g' = g_nodes g
     \<and> (\<forall>t \<in> OWNED. moved_owned now a s me t g g') \<and> moved_knows now a s me g g'
     \<and> (\<forall>u. u \<notin> OWNED \<union> {KNOWS, MOVED_RELATIONSHIP, AFFECTED_RECORD} \<longrightarrow> typed_edges g' u = typed_edges g u)"
proof -
  define g1 where "g1 = manual_linked_to now a s me g"
  define g2 where "g2 = manual_move IDENTIFIED_BY ''IDENTIFIED_BY'' False is_identifier [] a s me g1"
  define g3 where "g3 = manual_move LIVES_AT ''LIVES_AT'' False is_address [] a s me g2"
  define g4 where "g4 = manual_move KNOWS ''KNOWS_OUT'' False (knows_target s)
    [(''declared_by_person_id'', JStr s), (''updated_at'', JInt now)] a s me g3"
  define g5 where "g5 = manual_move KNOWS ''KNOWS_IN'' True (knows_target s) [(''updated_at'', JInt now)] a s me g4"
  define g6 where "g6 = manual_facts a s me g5"
  note s1 = owned_step [OF _ _ disjI2 [OF g1_def [unfolded manual_linked_to_def]], simplified]
  note s2 = owned_step [OF _ _ disjI1 [OF g2_def [unfolded manual_move_def]], simplified]
  note s3 = owned_step [OF _ _ disjI1 [OF g3_def [unfolded manual_move_def]], simplified]
  have k3: "typed_edges g3 KNOWS = typed_edges g KNOWS" by (simp add: s1(2) s2(2) s3(2))
  note s5 = knows_steps [OF loops k3 g4_def g5_def]
  note s6 = owned_step [OF _ _ disjI1 [OF g6_def [unfolded manual_facts_def]], simplified]
  have typed6: "typed_edges g6 u = typed_edges g u"
    if "u \<notin> {LINKED_TO, IDENTIFIED_BY, LIVES_AT, KNOWS, HAS_FACT, MOVED_RELATIONSHIP, AFFECTED_RECORD}" for u
    using that by (simp add: s6(2) s5(2) s3(2) s2(2) s1(2))
  have nodes6: "g_nodes g6 = g_nodes g" by (simp add: s6(1) s5(1) s3(1) s2(1) s1(1))
  have able6: "rewirable g6 a s me" using able rewirable_nodes [OF nodes6] by simp
  obtain g7 where run7: "manual_context PURCHASED is_order REWIRE_PURCHASED a s me g6 = Inr g7"
    and s7: "g_nodes g7 = g_nodes g6"
      "\<And>u. u \<notin> {PURCHASED, MOVED_RELATIONSHIP, AFFECTED_RECORD} \<Longrightarrow> typed_edges g7 u = typed_edges g6 u"
      "typed_edges g7 PURCHASED = other_edges PURCHASED False is_order a g @ map (context_copy PURCHASED ORDER_KEYS a s)
         (filter (new_on_survivor PURCHASED s g) (held_edges PURCHASED False is_order a g))"
      "\<And>r. moves g7 me r = moves g6 me r @ (if r = ''PURCHASED''
         then map (mover False me ''PURCHASED'' a (new_on_survivor PURCHASED s g)) (held_edges PURCHASED False is_order a g) else [])"
    using context_step [OF able6 \<open>a \<noteq> s\<close> _ sep [of PURCHASED] typed6 [of PURCHASED], of REWIRE_PURCHASED "''PURCHASED''"]
    unfolding far_end_eqs match_keys.simps by (auto simp: is_context_def REWIRE_PURCHASED_def ORDER_KEYS_def)
  have able7: "rewirable g7 a s me" using able6 rewirable_nodes [OF s7(1)] by simp
  have b7: "typed_edges g7 BOUGHT_VEHICLE = typed_edges g BOUGHT_VEHICLE" by (simp add: s7(2) typed6)
  obtain g8 where run8: "manual_context BOUGHT_VEHICLE is_vehicle REWIRE_BOUGHT_VEHICLE a s me g7 = Inr g8"
    and s8: "g_nodes g8 = g_nodes g7"
      "\<And>u. u \<notin> {BOUGHT_VEHICLE, MOVED_RELATIONSHIP, AFFECTED_RECORD} \<Longrightarrow> typed_edges g8 u = typed_edges g7 u"
      "typed_edges g8 BOUGHT_VEHICLE = other_edges BOUGHT_VEHICLE False is_vehicle a g @ map (context_copy BOUGHT_VEHICLE ORDER_KEYS a s)
         (filter (new_on_survivor BOUGHT_VEHICLE s g) (held_edges BOUGHT_VEHICLE False is_vehicle a g))"
      "\<And>r. moves g8 me r = moves g7 me r @ (if r = ''BOUGHT_VEHICLE''
         then map (mover False me ''BOUGHT_VEHICLE'' a (new_on_survivor BOUGHT_VEHICLE s g)) (held_edges BOUGHT_VEHICLE False is_vehicle a g)
         else [])"
    using context_step [OF able7 \<open>a \<noteq> s\<close> _ sep [of BOUGHT_VEHICLE] b7, of REWIRE_BOUGHT_VEHICLE "''BOUGHT_VEHICLE''"]
    unfolding far_end_eqs match_keys.simps by (auto simp: is_context_def REWIRE_BOUGHT_VEHICLE_def ORDER_KEYS_def)
  have able8: "rewirable g8 a s me" using able7 rewirable_nodes [OF s8(1)] by simp
  have b8: "typed_edges g8 OWNS_VEHICLE = typed_edges g OWNS_VEHICLE" by (simp add: s8(2) s7(2) typed6)
  obtain g9 where run9: "manual_context OWNS_VEHICLE is_vehicle REWIRE_OWNS_VEHICLE a s me g8 = Inr g9"
    and s9: "g_nodes g9 = g_nodes g8"
      "\<And>u. u \<notin> {OWNS_VEHICLE, MOVED_RELATIONSHIP, AFFECTED_RECORD} \<Longrightarrow> typed_edges g9 u = typed_edges g8 u"
      "typed_edges g9 OWNS_VEHICLE = other_edges OWNS_VEHICLE False is_vehicle a g @ map (context_copy OWNS_VEHICLE RECORD_KEYS a s)
         (filter (new_on_survivor OWNS_VEHICLE s g) (held_edges OWNS_VEHICLE False is_vehicle a g))"
      "\<And>r. moves g9 me r = moves g8 me r @ (if r = ''OWNS_VEHICLE''
         then map (mover False me ''OWNS_VEHICLE'' a (new_on_survivor OWNS_VEHICLE s g)) (held_edges OWNS_VEHICLE False is_vehicle a g)
         else [])"
    using context_step [OF able8 \<open>a \<noteq> s\<close> _ sep [of OWNS_VEHICLE] b8, of REWIRE_OWNS_VEHICLE "''OWNS_VEHICLE''"]
    unfolding far_end_eqs match_keys.simps by (auto simp: is_context_def REWIRE_OWNS_VEHICLE_def RECORD_KEYS_def)
  have run: "manual_rewire now a s me g = Inr g9"
    unfolding manual_rewire_def Let_def g1_def [symmetric] g2_def [symmetric] g3_def [symmetric] g4_def [symmetric]
      g5_def [symmetric] g6_def [symmetric] by (simp add: run7 run8 run9)
  note typed = s1(2,3) s2(2,3) s3(2,3) s5(2,3) s6(2,3) s7(2,3) s8(2,3) s9(2,3) typed6
  note moves = s1(4) s2(4) s3(4) s5(4) s6(4) s7(4) s8(4) s9(4) fresh
  have plain: "new_on_survivor t s g = (\<lambda>h. True)" if "\<not> is_context t" for t
    using that by (intro ext) (simp add: new_on_survivor_def)
  have same: "held_edges t inc f a k = held_edges t inc f a g" "other_edges t inc f a k = other_edges t inc f a g"
    if "typed_edges k t = typed_edges g t" for t inc f k using that by (simp_all add: held_edges_def other_edges_def)
  have owned: "moved_owned now a s me t g g9" if "t \<in> OWNED" for t
  proof -
    have same_k: "typed_edges g1 IDENTIFIED_BY = typed_edges g IDENTIFIED_BY" "typed_edges g2 LIVES_AT = typed_edges g LIVES_AT"
      "typed_edges g5 HAS_FACT = typed_edges g HAS_FACT" by (simp_all add: typed)
    note shape = moved_owned_def Let_def points_in_def copied_def survivor_stamps_def is_context_def plain
      far_end_eqs same [OF same_k(1)] same [OF same_k(2)] same [OF same_k(3)]
    from that consider "t = LINKED_TO" | "t = IDENTIFIED_BY" | "t = LIVES_AT" | "t = HAS_FACT" | "t = PURCHASED"
      | "t = BOUGHT_VEHICLE" | "t = OWNS_VEHICLE" by (auto simp: OWNED_def)
    then show ?thesis
      by cases (simp_all add: shape typed moves)
  qed
  have knows: "moved_knows now a s me g g9"
    by (auto simp: moved_knows_def knows_name_def typed moves)
  show ?thesis
  proof (intro exI conjI allI impI ballI)
    show "manual_rewire now a s me g = Inr g9" by (rule run)
    show "g_nodes g9 = g_nodes g" by (simp add: s9(1) s8(1) s7(1) nodes6)
    fix u assume "u \<notin> OWNED \<union> {KNOWS, MOVED_RELATIONSHIP, AFFECTED_RECORD}"
    then show "typed_edges g9 u = typed_edges g u" by (simp add: OWNED_def typed)
  qed (use owned knows in auto)
qed

section \<open>What the merge leaves behind\<close>

definition lineage_into :: "string \<Rightarrow> graph \<Rightarrow> edge list" where
  "lineage_into a g = [e \<leftarrow> typed_edges g MERGED_INTO. e_dst e = PersonN a \<and> is_person (e_src e)]"

definition lineage_rest :: "string \<Rightarrow> graph \<Rightarrow> edge list" where
  "lineage_rest a g = [e \<leftarrow> typed_edges g MERGED_INTO. \<not> (e_dst e = PersonN a \<and> is_person (e_src e))]"

definition log_of :: "graph \<Rightarrow> string \<Rightarrow> edge list" where
  "log_of g me = [m \<leftarrow> typed_edges g MOVED_MERGE_LINEAGE. e_src m = MergeEventN me]"

lemma compress_effect:
  assumes "rewirable g a s me"
  defines "g' \<equiv> PATH_COMPRESS_MERGED_INTO a s me g"
  shows "g_nodes g' = g_nodes g"
    and "u \<notin> {MERGED_INTO, MOVED_MERGE_LINEAGE} \<Longrightarrow> typed_edges g' u = typed_edges g u"
    and "typed_edges g' MERGED_INTO = lineage_rest a g @ map (\<lambda>e. e\<lparr>e_dst := PersonN s\<rparr>) (lineage_into a g)"
    and "typed_edges g' MOVED_MERGE_LINEAGE = typed_edges g MOVED_MERGE_LINEAGE @ map (moved_lineage me a s) (lineage_into a g)"
proof -
  let ?old = "\<lambda>e. e_type e = MERGED_INTO \<and> e_dst e = PersonN a \<and> is_person (e_src e)"
  let ?m = "moved_lineage me a s"
  let ?c = "\<lambda>e. e\<lparr>e_dst := PersonN s\<rparr>"
  have g': "g' = rewire_create ?old (\<lambda>e. [?m e, ?c e]) g" using assms(1) by (simp add: g'_def PATH_COMPRESS_MERGED_INTO_def)
  then show "g_nodes g' = g_nodes g" by simp
  have P: "[e \<leftarrow> g_edges g. ?old e] = lineage_into a g"
    by (simp add: lineage_into_def typed_edges_def conj_commute)
  have type_P: "e_type e = MERGED_INTO" if "e \<in> set (lineage_into a g)" for e
    using that by (auto simp: lineage_into_def typed_edges_def)
  have m: "e_type (?m e) = MOVED_MERGE_LINEAGE" for e by (simp add: moved_lineage_def)
  have rest: "[e \<leftarrow> [e \<leftarrow> g_edges g. \<not> ?old e]. e_type e = u] = (if u = MERGED_INTO then lineage_rest a g else typed_edges g u)" for u
    by (auto simp: lineage_rest_def typed_edges_def intro!: filter_cong)
  have typed: "typed_edges g' u = (if u = MERGED_INTO then lineage_rest a g else typed_edges g u)
      @ [x \<leftarrow> concat (map (\<lambda>e. [?m e, ?c e]) (lineage_into a g)). e_type x = u]" for u
    unfolding g' rewire_create_def typed_edges_append rest P ..
  show "typed_edges g' u = typed_edges g u" if "u \<notin> {MERGED_INTO, MOVED_MERGE_LINEAGE}"
  proof -
    have "[x \<leftarrow> concat (map (\<lambda>e. [?m e, ?c e]) (lineage_into a g)). e_type x = u] = []"
      by (rule filter_pair_none) (use that type_P m in auto)
    with that show ?thesis by (simp add: typed)
  qed
  have "[x \<leftarrow> concat (map (\<lambda>e. [?m e, ?c e]) (lineage_into a g)). e_type x = MOVED_MERGE_LINEAGE] = map ?m (lineage_into a g)"
    by (rule filter_pair_map(1)) (use type_P m in auto)
  then show "typed_edges g' MOVED_MERGE_LINEAGE = typed_edges g MOVED_MERGE_LINEAGE @ map ?m (lineage_into a g)"
    by (simp add: typed)
  have "[x \<leftarrow> concat (map (\<lambda>e. [?m e, ?c e]) (lineage_into a g)). \<not> (e_type x \<noteq> MERGED_INTO)] = map ?c (lineage_into a g)"
    by (rule filter_pair_map(2)) (use type_P m in auto)
  then show "typed_edges g' MERGED_INTO = lineage_rest a g @ map ?c (lineage_into a g)"
    by (simp add: typed)
qed

text \<open>
  Every merged person points to one active person, by the event that merged it; the log of compressed
  lineages names every person once per event, and never the person it was taken from.
\<close>

definition lineage_ok :: "graph \<Rightarrow> bool" where
  "lineage_ok g =
     (distinct (map e_src (typed_edges g MERGED_INTO))
      \<and> list_all (\<lambda>e. node_prop g (e_src e) ''status'' = JStr ''merged'' \<and> active_person g (e_dst e)
           \<and> edge_prop e ''merge_event_id'' \<noteq> JNull) (typed_edges g MERGED_INTO)
      \<and> distinct (map (\<lambda>m. (e_src m, e_dst m)) (typed_edges g MOVED_MERGE_LINEAGE))
      \<and> list_all (\<lambda>m. has_node g (e_src m) \<and> e_dst m \<notin> PersonN ` set (pks_of (edge_prop m ''prior_survivor_person_id'')))
           (typed_edges g MOVED_MERGE_LINEAGE))"

text \<open>
  When a merge can be taken back without loss: both persons are active, the event is new, and the
  relationships of the absorbed person can be told apart from each other and from the survivor's.
\<close>

definition revertible :: "graph \<Rightarrow> string \<Rightarrow> string \<Rightarrow> string \<Rightarrow> bool" where
  "revertible g a s me =
     (a \<noteq> s \<and> active_person g (PersonN a) \<and> active_person g (PersonN s)
      \<and> \<not> has_node g (MergeEventN me) \<and> list_all (\<lambda>e. e_src e \<noteq> MergeEventN me) (g_edges g)
      \<and> well_typed g \<and> lineage_ok g
      \<and> list_all (\<lambda>t. separable t (points_in t) (far_end t) a s g)
          [LINKED_TO, IDENTIFIED_BY, LIVES_AT, HAS_FACT, PURCHASED, BOUGHT_VEHICLE, OWNS_VEHICLE]
      \<and> separable KNOWS False (knows_target s) a s g \<and> separable KNOWS True (knows_target s) a s g)"

lemma separable_owned: "revertible g a s me \<Longrightarrow> t \<in> OWNED \<Longrightarrow> separable t (points_in t) (far_end t) a s g"
  by (auto simp: revertible_def OWNED_def)

lemma no_loops_typed: "well_typed g \<Longrightarrow> no_loops g"
  by (auto simp: well_typed_def no_loops_def list_all_iff typed_edges_def)

lemma active_has_node: "active_person g n \<Longrightarrow> has_node g n"
  by (auto simp: active_person_def node_prop_def has_node_map_of split: option.splits)

definition event_end :: "rel_type \<Rightarrow> string \<Rightarrow> string \<Rightarrow> edge" where
  "event_end t me p = \<lparr>e_type = t, e_src = MergeEventN me, e_dst = PersonN p, e_props = []\<rparr>"

definition event_edges :: "graph \<Rightarrow> rel_type \<Rightarrow> string \<Rightarrow> edge list" where
  "event_edges g t me = [e \<leftarrow> typed_edges g t. e_src e = MergeEventN me]"

text \<open>The state after a merge, as far as its reversal reads it.\<close>

definition merged_away :: "int \<Rightarrow> string \<Rightarrow> string \<Rightarrow> string \<Rightarrow> string \<Rightarrow> graph \<Rightarrow> graph \<Rightarrow> bool" where
  "merged_away now actor_id a s me g g1 =
     (has_node g1 (MergeEventN me)
      \<and> (\<forall>p. has_node g (PersonN p) \<longrightarrow> has_node g1 (PersonN p)
           \<and> node_prop g1 (PersonN p) ''status'' = (if p = a then JStr ''merged'' else node_prop g (PersonN p) ''status''))
      \<and> (\<forall>t \<in> OWNED. moved_owned now a s me t g g1) \<and> moved_knows now a s me g g1
      \<and> typed_edges g1 MERGED_INTO = lineage_rest a g @ [merged_into now me actor_id a s]
           @ map (\<lambda>e. e\<lparr>e_dst := PersonN s\<rparr>) (lineage_into a g)
      \<and> log_of g1 me = map (moved_lineage me a s) (lineage_into a g)
      \<and> event_edges g1 ABSORBED me = [event_end ABSORBED me a]
      \<and> event_edges g1 SURVIVOR me = [event_end SURVIVOR me s])"

definition REVERTED_TYPES :: "rel_type set" where
  "REVERTED_TYPES = OWNED \<union> {KNOWS, MERGED_INTO, MOVED_RELATIONSHIP, MOVED_MERGE_LINEAGE, ABSORBED, SURVIVOR}"

text \<open>Two graphs that an unmerge does not tell apart; other persons and other relationships may be new.\<close>

definition agrees :: "graph \<Rightarrow> graph \<Rightarrow> bool" where
  "agrees g1 g2 =
     ((\<forall>t \<in> REVERTED_TYPES. typed_edges g2 t = typed_edges g1 t)
      \<and> (\<forall>n. has_node g1 n \<longrightarrow> has_node g2 n \<and> node_prop g2 n ''status'' = node_prop g1 n ''status''))"

lemma moved_owned_typed:
  "typed_edges g2 t = typed_edges g1 t \<Longrightarrow> typed_edges g2 MOVED_RELATIONSHIP = typed_edges g1 MOVED_RELATIONSHIP \<Longrightarrow>
   moved_owned now a s me t g g2 = moved_owned now a s me t g g1"
  by (simp add: moved_owned_def moves_def Let_def)

lemma moved_knows_typed:
  "typed_edges g2 KNOWS = typed_edges g1 KNOWS \<Longrightarrow> typed_edges g2 MOVED_RELATIONSHIP = typed_edges g1 MOVED_RELATIONSHIP \<Longrightarrow>
   moved_knows now a s me g g2 = moved_knows now a s me g g1"
  by (simp add: moved_knows_def moves_def)

lemma merged_away_agrees:
  assumes "merged_away now actor_id a s me g g1" "agrees g1 g2"
  shows "merged_away now actor_id a s me g g2"
proof -
  have typed: "typed_edges g2 t = typed_edges g1 t" if "t \<in> REVERTED_TYPES" for t
    using assms(2) that by (simp add: agrees_def)
  have moved: "typed_edges g2 MOVED_RELATIONSHIP = typed_edges g1 MOVED_RELATIONSHIP"
    and log: "log_of g2 me = log_of g1 me" and lin: "typed_edges g2 MERGED_INTO = typed_edges g1 MERGED_INTO"
    and ends: "event_edges g2 ABSORBED me = event_edges g1 ABSORBED me" "event_edges g2 SURVIVOR me = event_edges g1 SURVIVOR me"
    using typed by (simp_all add: REVERTED_TYPES_def log_of_def event_edges_def)
  have owned: "moved_owned now a s me t g g2 = moved_owned now a s me t g g1" if "t \<in> OWNED" for t
    by (rule moved_owned_typed [OF typed moved]) (use that in \<open>simp add: REVERTED_TYPES_def\<close>)
  have knows: "moved_knows now a s me g g2 = moved_knows now a s me g g1"
    by (rule moved_knows_typed [OF typed moved]) (simp add: REVERTED_TYPES_def)
  show ?thesis
    using assms unfolding merged_away_def log lin ends by (simp add: owned knows agrees_def)
qed

lemma mark_dirty_keep [simp]:
  "g_edges (mark_dirty now p g) = g_edges g"
  "has_node (mark_dirty now p g) n = has_node g n"
  "node_prop (mark_dirty now p g) n ''status'' = node_prop g n ''status''"
  "typed_edges (mark_dirty now p g) t = typed_edges g t"
  by (simp_all add: mark_dirty_def node_prop_set_node_other)

lemma mark_dirty_fold [simp]:
  "g_edges (fold (mark_dirty now) ps g) = g_edges g"
  "has_node (fold (mark_dirty now) ps g) n = has_node g n"
  "node_prop (fold (mark_dirty now) ps g) n ''status'' = node_prop g n ''status''"
  "typed_edges (fold (mark_dirty now) ps g) t = typed_edges g t"
  by (induction ps arbitrary: g) simp_all

lemma bump_lock_version_keep [simp]:
  "has_node (bump_lock_version p g) n = has_node g n"
  "node_prop (bump_lock_version p g) n ''status'' = node_prop g n ''status''"
  "typed_edges (bump_lock_version p g) t = typed_edges g t"
  by (simp_all add: bump_lock_version_def node_prop_set_node_other)

lemma manual_event_keep:
  "has_node (manual_event now me ty actor reason a s g) n \<longleftrightarrow> n = MergeEventN me \<or> has_node g n"
  "n \<noteq> MergeEventN me \<Longrightarrow> node_prop (manual_event now me ty actor reason a s g) n k = node_prop g n k"
  "t \<notin> {ABSORBED, SURVIVOR} \<Longrightarrow> typed_edges (manual_event now me ty actor reason a s g) t = typed_edges g t"
  by (simp_all add: manual_event_def node_prop_create_other)

lemma like_copy_type: "like_copy t inc keys a s h x \<Longrightarrow> e_type x = t"
  by (simp add: like_copy_def held_def)

lemma separable_cong:
  assumes same: "typed_edges k t = typed_edges g t"
    and nodes: "\<And>p. has_node k (PersonN p) = has_node g (PersonN p)"
      "\<And>p. node_prop k (PersonN p) ''status'' = node_prop g (PersonN p) ''status''"
  shows "separable t inc target a s k = separable t inc target a s g"
proof -
  have held: "held_edges t inc target a k = held_edges t inc target a g" by (simp add: held_edges_def same)
  have known: "origin_known k a h = origin_known g a h" for h by (simp add: origin_known_def nodes cong: option.case_cong)
  have ex: "list_ex P (g_edges g') = list_ex P (typed_edges g' t)" if "\<And>x. P x \<Longrightarrow> e_type x = t" for P g'
    using that by (auto simp: list_ex_iff typed_edges_def)
  have fl: "filter P (g_edges g') = filter P (typed_edges g' t)" if "\<And>x. P x \<Longrightarrow> e_type x = t" for P g'
    by (rule filter_typed_edges [symmetric]) (rule that)
  have like: "list_ex (like_copy t inc (match_keys t) a s h) (g_edges k) = list_ex (like_copy t inc (match_keys t) a s h) (g_edges g)" for h
    by (simp add: ex [where P = "like_copy t inc (match_keys t) a s h", OF like_copy_type] same)
  have hit: "e_type x = t" if "merge_hit t p n kvs x" for p n kvs x using that by (simp add: merge_hit_def edge_between_def)
  have hits: "[x \<leftarrow> g_edges k. merge_hit t p n kvs x] = [x \<leftarrow> g_edges g. merge_hit t p n kvs x]" for p n kvs
    by (simp add: fl [where P = "merge_hit t p n kvs", OF hit] same)
  show ?thesis unfolding separable_def Let_def held known like hits ..
qed

lemma moved_owned_cong:
  assumes "typed_edges k t = typed_edges g t"
  shows "moved_owned now a s me t k g' = moved_owned now a s me t g g'"
proof -
  have "new_on_survivor t s k = new_on_survivor t s g"
    using context_twin_typed [OF assms] by (intro ext) (simp add: new_on_survivor_def)
  then show ?thesis by (simp add: moved_owned_def held_edges_def other_edges_def assms Let_def)
qed

lemma moved_knows_cong:
  "typed_edges k KNOWS = typed_edges g KNOWS \<Longrightarrow> moved_knows now a s me k g' = moved_knows now a s me g g'"
  by (simp add: moved_knows_def knows_rest_def knows_held_def held_edges_def)

lemma execute_effect:
  assumes rev: "revertible g a s me" and pair: "(left, right) \<in> {(a, s), (s, a)}"
  shows "\<exists>g1. EXECUTE_MANUAL_MERGE now me a s left right reason actor_id g = Inr (g1, True)
     \<and> merged_away now actor_id a s me g g1"
proof -
  have "a \<noteq> s" and act: "active_person g (PersonN a)" "active_person g (PersonN s)"
    and fresh: "\<not> has_node g (MergeEventN me)" "\<And>e. e \<in> set (g_edges g) \<Longrightarrow> e_src e \<noteq> MergeEventN me"
    and typed: "well_typed g" using rev by (auto simp: revertible_def list_all_iff)
  have nodes: "has_node g (PersonN a)" "has_node g (PersonN s)" using act active_has_node by blast+
  define gb where "gb = bump_lock_version right (bump_lock_version left g)"
  define ge where "ge = set_node (MergeEventN me) (\<lambda>_. [(''metadata'', JStr ''{}'')])
    (manual_event now me ''manual_merge'' actor_id reason a s gb)"
  have ge_nodes: "has_node ge n \<longleftrightarrow> n = MergeEventN me \<or> has_node g n" for n
    by (simp add: ge_def manual_event_keep gb_def)
  have ge_status: "node_prop ge (PersonN p) ''status'' = node_prop g (PersonN p) ''status''" for p
    by (simp add: ge_def node_prop_set_node_other manual_event_keep(2) gb_def)
  have ge_typed: "typed_edges ge t = typed_edges g t" if "t \<notin> {ABSORBED, SURVIVOR}" for t
    using that by (simp add: ge_def manual_event_keep(3) gb_def)
  have able: "rewirable ge a s me" using nodes by (simp add: rewirable_def ge_nodes)
  have loops: "no_loops ge" using no_loops_typed [OF typed] by (simp add: no_loops_def ge_typed)
  have none: "[m \<leftarrow> typed_edges g t. e_src m = MergeEventN me \<and> Q m] = []" for t Q
    using fresh(2) by (auto simp: filter_empty_conv typed_edges_def)
  then have moves: "moves ge me r = []" for r by (simp add: moves_def ge_typed)
  have sep: "separable t False (far_end t) a s ge" if "is_context t" for t
  proof -
    have t: "t \<in> OWNED" "\<not> points_in t" "t \<notin> {ABSORBED, SURVIVOR}" using that by (auto simp: is_context_def OWNED_def points_in_def)
    from separable_owned [OF rev t(1)] t(2) show ?thesis
      by (subst separable_cong [OF ge_typed [OF t(3)]]) (simp_all add: ge_nodes ge_status)
  qed
  from manual_rewire_effect [OF able \<open>a \<noteq> s\<close> loops moves sep, of now]
  obtain gr where run: "manual_rewire now a s me ge = Inr gr" and gr_nodes: "g_nodes gr = g_nodes ge"
    and owned: "\<forall>t \<in> OWNED. moved_owned now a s me t ge gr" and knows: "moved_knows now a s me ge gr"
    and gr_typed: "\<And>u. u \<notin> OWNED \<union> {KNOWS, MOVED_RELATIONSHIP, AFFECTED_RECORD} \<Longrightarrow> typed_edges gr u = typed_edges ge u"
    by blast
  define gm where "gm = create_edge (merged_into now me actor_id a s) (MARK_PERSON_MERGED now a gr)"
  define gp where "gp = PATH_COMPRESS_MERGED_INTO a s me gm"
  define g1 where "g1 = set_node (PersonN s) (\<lambda>_. [(''updated_at'', JInt now)])
    (mark_dirty now s (fold (mark_dirty now) (acquainted gp [s]) gp))"
  have mi: "e_type (merged_into now me actor_id a s) = MERGED_INTO" by (simp add: merged_into_def)
  have gm_able: "rewirable gm a s me"
    using nodes by (simp add: gm_def rewirable_def MARK_PERSON_MERGED_def) (simp add: has_node_def gr_nodes ge_nodes [unfolded has_node_def])
  have gm_typed: "typed_edges gm u = typed_edges gr u @ (if u = MERGED_INTO then [merged_into now me actor_id a s] else [])" for u
    by (simp add: gm_def MARK_PERSON_MERGED_def mi typed_edges_def)
  note gp = compress_effect [OF gm_able, folded gp_def]
  have g1_typed: "typed_edges g1 u = typed_edges gp u" for u by (simp add: g1_def)
  have exec: "EXECUTE_MANUAL_MERGE now me a s left right reason actor_id g = Inr (g1, True)"
  proof -
    have "has_node g (PersonN left)" "has_node g (PersonN right)" "left \<noteq> right" using pair nodes \<open>a \<noteq> s\<close> by auto
    moreover have "CHECK_BOTH_PERSONS_ACTIVE gb a s"
      using act by (simp add: CHECK_BOTH_PERSONS_ACTIVE_def active_person_def gb_def)
    ultimately show ?thesis
      unfolding EXECUTE_MANUAL_MERGE_def Let_def gb_def [symmetric] ge_def [symmetric]
      by (simp add: run gm_def [symmetric] gp_def [symmetric] g1_def [symmetric])
  qed
  have persons: "has_node g1 n = has_node ge n"
    "node_prop g1 (PersonN p) ''status'' = (if p = a then JStr ''merged'' else node_prop ge (PersonN p) ''status'')" for n p
  proof -
    have n: "has_node gr m = has_node ge m" "node_prop gr m k = node_prop ge m k" for m k
      by (simp_all add: has_node_def node_prop_def gr_nodes)
    have gpn: "has_node gp m = has_node gm m" "node_prop gp m k = node_prop gm m k" for m k
      by (simp_all add: has_node_def node_prop_def gp(1))
    show "has_node g1 n = has_node ge n" by (simp add: g1_def gpn gm_def MARK_PERSON_MERGED_def n)
    show "node_prop g1 (PersonN p) ''status'' = (if p = a then JStr ''merged'' else node_prop ge (PersonN p) ''status'')"
      using nodes by (simp add: g1_def node_prop_set_node gpn gm_def MARK_PERSON_MERGED_def n ge_nodes
          node_prop_node_props [symmetric])
  qed
  have "merged_away now actor_id a s me g g1"
    unfolding merged_away_def
  proof (intro conjI allI impI ballI)
    show "has_node g1 (MergeEventN me)" by (simp add: persons ge_nodes)
    fix p assume "has_node g (PersonN p)"
    then show "has_node g1 (PersonN p)" by (simp add: persons ge_nodes)
    show "node_prop g1 (PersonN p) ''status'' = (if p = a then JStr ''merged'' else node_prop g (PersonN p) ''status'')"
      by (simp add: persons ge_status)
  next
    have same: "typed_edges g1 u = typed_edges gr u" if "u \<notin> {MERGED_INTO, MOVED_MERGE_LINEAGE}" for u
      using that by (simp add: g1_typed gp(2) gm_typed)
    have moved: "typed_edges g1 MOVED_RELATIONSHIP = typed_edges gr MOVED_RELATIONSHIP" by (simp add: same)
    show "moved_owned now a s me t g g1" if t: "t \<in> OWNED" for t
    proof -
      have "t \<notin> {MERGED_INTO, MOVED_MERGE_LINEAGE}" "t \<notin> {ABSORBED, SURVIVOR}" using t by (auto simp: OWNED_def)
      then show ?thesis
        using owned t moved_owned_typed [OF same moved] moved_owned_cong [OF ge_typed] by blast
    qed
    show "moved_knows now a s me g g1"
      using knows moved_knows_typed [OF same moved] moved_knows_cong [OF ge_typed] by simp
    have lin: "typed_edges gr MERGED_INTO = typed_edges g MERGED_INTO"
      "typed_edges gr MOVED_MERGE_LINEAGE = typed_edges g MOVED_MERGE_LINEAGE"
      by (simp_all add: gr_typed ge_typed OWNED_def)
    have "lineage_rest a gm = lineage_rest a g @ [merged_into now me actor_id a s]" "lineage_into a gm = lineage_into a g"
      using \<open>a \<noteq> s\<close> by (simp_all add: lineage_rest_def lineage_into_def gm_typed lin merged_into_def)
    then show "typed_edges g1 MERGED_INTO = lineage_rest a g @ [merged_into now me actor_id a s]
           @ map (\<lambda>e. e\<lparr>e_dst := PersonN s\<rparr>) (lineage_into a g)"
      and "log_of g1 me = map (moved_lineage me a s) (lineage_into a g)"
      using none [where t = MOVED_MERGE_LINEAGE and Q = "\<lambda>m. True"]
      by (simp_all add: g1_typed gp(3,4) gm_typed lin log_of_def moved_lineage_def filter_id_conv)
    have ends: "typed_edges ge ABSORBED = typed_edges g ABSORBED @ [event_end ABSORBED me a]"
      "typed_edges ge SURVIVOR = typed_edges g SURVIVOR @ [event_end SURVIVOR me s]"
      by (simp_all add: ge_def manual_event_def event_end_def typed_edges_def gb_def bump_lock_version_def)
    have gr_ends: "typed_edges gr ABSORBED = typed_edges ge ABSORBED" "typed_edges gr SURVIVOR = typed_edges ge SURVIVOR"
      by (simp_all add: gr_typed OWNED_def)
    show "event_edges g1 ABSORBED me = [event_end ABSORBED me a]" "event_edges g1 SURVIVOR me = [event_end SURVIVOR me s]"
      using none [where Q = "\<lambda>m. True"] by (simp_all add: event_edges_def same gr_ends ends event_end_def)
  qed
  with exec show ?thesis by blast
qed

section \<open>What the reversal gives back\<close>

text \<open>A relationship without the properties a merge stamps on it.\<close>

definition bookkeeping :: "rel_type \<Rightarrow> string list" where
  "bookkeeping t = MOVE_KEYS @ [''merge_origin_person_id'']
     @ (if t = KNOWS then [''declared_by_person_id'', ''updated_at''] else [])
     @ (if t = MERGED_INTO then [''prior_survivor_person_id'', ''compressed_survivor_person_id''] else [])"

definition content :: "edge \<Rightarrow> rel_type \<times> node \<times> node \<times> (string \<Rightarrow> json)" where
  "content e = (e_type e, e_src e, e_dst e,
     \<lambda>k. if k \<in> set (bookkeeping (e_type e)) then JNull else edge_prop e k)"

definition contents :: "graph \<Rightarrow> rel_type \<Rightarrow> (rel_type \<times> node \<times> node \<times> (string \<Rightarrow> json)) multiset" where
  "contents g t = mset (map content (typed_edges g t))"

lemma content_given_back:
  assumes "h \<in> set (held_edges t inc target a g)"
    and "fst ` set stamps \<subseteq> (if t = KNOWS then {''declared_by_person_id'', ''updated_at''} else {})"
  shows "content (given_back t inc a stamps (mover inc me rtype a c h)) = content h"
proof -
  let ?x = "given_back t inc a stamps (mover inc me rtype a c h)"
  have h: "e_type h = t" "holder inc h = PersonN a" using assms(1) by (auto simp: held_edges_def held_def)
  have ends: "e_src ?x = e_src h" "e_dst ?x = e_dst h"
    using h by (auto simp: given_back_def edge_at_def holder_def other_end_def split: if_splits)
  have "edge_prop ?x k = edge_prop h k" if "k \<notin> set (bookkeeping t)" for k
  proof -
    have "k \<notin> fst ` set stamps" using assms(2) that by (auto simp: bookkeeping_def split: if_splits)
    then show ?thesis using that by (simp add: given_back_props bookkeeping_def)
  qed
  with ends h show ?thesis by (auto simp: content_def)
qed

lemma content_back_list:
  assumes "fst ` set stamps \<subseteq> (if t = KNOWS then {''declared_by_person_id'', ''updated_at''} else {})"
  shows "map content (map (\<lambda>h. given_back t inc a stamps (mover inc me rtype a c h)) (held_edges t inc target a g))
     = map content (held_edges t inc target a g)"
  using content_given_back [OF _ assms] by simp

lemma mset_map_split: "mset (map f (filter (\<lambda>x. \<not> P x) xs)) + mset (map f (filter P xs)) = mset (map f xs)"
  by (induction xs) simp_all

lemma survivor_like_copy:
  assumes "survivor_edge t inc keys s (mover inc me rtype a c h) x" "set keys \<inter> set MOVE_KEYS = {}"
  shows "like_copy t inc keys a s h x"
proof -
  have "edge_prop x k = edge_prop h k" if "k \<in> set keys" for k
  proof -
    have "k \<notin> set MOVE_KEYS" using assms(2) that by blast
    with assms(1) that show ?thesis by (simp add: survivor_edge_def list_all_iff)
  qed
  with assms(1) show ?thesis by (simp add: survivor_edge_def like_copy_def list_all_iff)
qed

lemma match_keys_plain: "set (match_keys t) \<inter> insert ''merge_origin_person_id'' (set MOVE_KEYS) = {}"
  by (cases t) (simp_all add: RECORD_KEYS_def ORDER_KEYS_def MOVE_KEYS_def)

lemma moved_copy_props:
  "k \<notin> fst ` set stamps \<Longrightarrow> edge_prop (moved_copy inc stamps a s h) k =
     (if k = ''merge_origin_person_id'' then origin_of a (e_props h) else edge_prop h k)"
proof -
  have "json_sets (stamps @ [(m, v)]) d = json_set m v (json_sets stamps d)" for m v d
    by (simp add: json_sets_def)
  then show "k \<notin> fst ` set stamps \<Longrightarrow> ?thesis"
    by (simp add: moved_copy_def edge_prop_def json_get_sets_other)
qed

lemma moved_copy_of:
  assumes "e_type h = t" "fst ` set stamps \<inter> insert ''merge_origin_person_id'' (set keys) = {}"
    "''merge_origin_person_id'' \<notin> set keys"
  shows "copy_of t inc keys a s h (moved_copy inc stamps a s h)"
proof -
  have "k \<notin> fst ` set stamps" if "k \<in> insert ''merge_origin_person_id'' (set keys)" for k using assms(2) that by blast
  with assms(3) have "edge_prop (moved_copy inc stamps a s h) k = edge_prop h k" if "k \<in> set keys" for k
    using that moved_copy_props [of k stamps inc a s h] by auto
  moreover have "edge_prop (moved_copy inc stamps a s h) ''merge_origin_person_id'' = origin_of a (e_props h)"
    using assms(2) moved_copy_props [of "''merge_origin_person_id''" stamps inc a s h] by auto
  ultimately show ?thesis using assms(1) by (simp add: copy_of_def) (simp add: moved_copy_def)
qed

lemma separableD:
  assumes "separable t inc target a s g" "h \<in> set (held_edges t inc target a g)"
  shows "has_keys (match_keys t) h" "distinct (map fst (e_props h))" "origin_known g a h"
    "x \<in> set (g_edges g) \<Longrightarrow> \<not> like_copy t inc (match_keys t) a s h x"
    "is_context t \<Longrightarrow> edge_prop h ''source_record_pk'' \<noteq> JNull"
  using assms by (auto simp: separable_def Let_def list_all_iff list_ex_iff)

lemma taken_owned:
  assumes moved: "moved_owned now a s me t g r" and sep: "separable t (points_in t) (far_end t) a s g"
    and "a \<noteq> s" "t \<in> OWNED"
  shows "taken t (points_in t) (match_keys t) a s me (move_name t) (new_on_survivor t s g) (copied now a s t)
     (held_edges t (points_in t) (far_end t) a g) (other_edges t (points_in t) (far_end t) a g) [] r"
  unfolding taken_def
proof (intro conjI ballI)
  let ?H = "held_edges t (points_in t) (far_end t) a g"
  show "typed_edges r t = other_edges t (points_in t) (far_end t) a g
      @ map (copied now a s t) (filter (new_on_survivor t s g) ?H) @ []"
    and "moves r me (move_name t) = map (mover (points_in t) me (move_name t) a (new_on_survivor t s g)) ?H"
    using moved by (simp_all add: moved_owned_def Let_def)
  show "distinct (map (edge_key (points_in t) (match_keys t)) ?H)" using sep by (simp add: separable_def Let_def)
  show "set (match_keys t) \<inter> insert ''merge_origin_person_id'' (set MOVE_KEYS) = {}" by (rule match_keys_plain)
  fix h assume h: "h \<in> set ?H"
  show "has_keys (match_keys t) h" by (rule separableD [OF sep h])
  have ty: "e_type h = t" "holder (points_in t) h = PersonN a" using h by (auto simp: held_edges_def held_def)
  show "copy_of t (points_in t) (match_keys t) a s h (copied now a s t h)"
  proof (cases "is_context t")
    case True
    then have "\<not> points_in t" by (auto simp: is_context_def points_in_def)
    moreover have "''merge_origin_person_id'' \<notin> set (match_keys t)" using match_keys_plain by blast
    ultimately show ?thesis
      using context_copy_props [OF separableD(2) [OF sep h], of t "match_keys t" a s] True
      by (auto simp: copied_def copy_of_def context_copy_def holder_def other_end_def)
  next
    case False
    have stamps: "fst ` set (survivor_stamps now t) \<inter> insert ''merge_origin_person_id'' (set (match_keys t)) = {}"
      by (auto simp: survivor_stamps_def)
    have "copied now a s t h = moved_copy (points_in t) (survivor_stamps now t) a s h" using False by (simp add: copied_def)
    moreover have "''merge_origin_person_id'' \<notin> set (match_keys t)" using match_keys_plain by blast
    ultimately show ?thesis using moved_copy_of [OF ty(1) stamps] by simp
  qed
  fix x assume "x \<in> set (other_edges t (points_in t) (far_end t) a g) \<union> set []"
  then have "x \<in> set (g_edges g)" by (auto simp: other_edges_def typed_edges_def)
  from separableD(4) [OF sep h this]
  show "\<not> survivor_edge t (points_in t) (match_keys t) s (mover (points_in t) me (move_name t) a (new_on_survivor t s g) h) x"
    using survivor_like_copy match_keys_plain [of t] by blast
qed (rule assms(3))

lemma knows_copy_of:
  assumes "h \<in> set (knows_held inc a s g)"
  shows "copy_of KNOWS inc (match_keys KNOWS) a s h (knows_copy now a s inc h)"
  unfolding knows_copy_def
  by (rule moved_copy_of) (use assms in \<open>auto simp: knows_held_def held_edges_def held_def\<close>)

text \<open>What stands in the graph beside the copies of one direction: the rest, and relationships of the other direction.\<close>

lemma taken_knows:
  assumes typed: "typed_edges r KNOWS = knows_rest a s g @ map (knows_copy now a s inc) (knows_held inc a s g) @ B"
    and moved: "moves r me (knows_name inc) = map (mover inc me (knows_name inc) a (\<lambda>h. True)) (knows_held inc a s g)"
    and sep: "separable KNOWS inc (knows_target s) a s g" and "a \<noteq> s"
    and B: "\<And>x. x \<in> set B \<Longrightarrow> holder inc x \<noteq> PersonN s"
  shows "taken KNOWS inc (match_keys KNOWS) a s me (knows_name inc) (\<lambda>h. True) (knows_copy now a s inc)
     (knows_held inc a s g) (knows_rest a s g) B r"
  unfolding taken_def
proof (intro conjI ballI)
  let ?H = "knows_held inc a s g"
  show "typed_edges r KNOWS = knows_rest a s g @ map (knows_copy now a s inc) (filter (\<lambda>h. True) ?H) @ B"
    using typed by simp
  show "moves r me (knows_name inc) = map (mover inc me (knows_name inc) a (\<lambda>h. True)) ?H" by (rule moved)
  show "distinct (map (edge_key inc (match_keys KNOWS)) ?H)" using sep by (simp add: separable_def Let_def knows_held_def)
  show "set (match_keys KNOWS) \<inter> insert ''merge_origin_person_id'' (set MOVE_KEYS) = {}" by (rule match_keys_plain)
  fix h assume h: "h \<in> set ?H"
  show "has_keys (match_keys KNOWS) h" by (rule separableD [OF sep h [unfolded knows_held_def]])
  show "copy_of KNOWS inc (match_keys KNOWS) a s h (knows_copy now a s inc h)" by (rule knows_copy_of [OF h])
  fix x assume x: "x \<in> set (knows_rest a s g) \<union> set B"
  show "\<not> survivor_edge KNOWS inc (match_keys KNOWS) s (mover inc me (knows_name inc) a (\<lambda>h. True) h) x"
  proof (cases "x \<in> set B")
    case True
    with B show ?thesis by (auto simp: survivor_edge_def held_def)
  next
    case False
    with x have "x \<in> set (g_edges g)" by (auto simp: knows_rest_def typed_edges_def)
    from separableD(4) [OF sep h [unfolded knows_held_def] this] show ?thesis
      using survivor_like_copy match_keys_plain [of KNOWS] by blast
  qed
qed (rule assms(4))

lemma origin_known_nodes: "g_nodes r' = g_nodes r \<Longrightarrow> origin_known r' a h = origin_known r a h"
  by (simp add: origin_known_def has_node_def node_prop_def cong: option.case_cong)

lemma contents_back:
  assumes "typed_edges r' t = other_edges t inc target a g
      @ map (\<lambda>h. given_back t inc a [] (mover inc me rtype a c h)) (held_edges t inc target a g)"
  shows "contents r' t = contents g t"
proof -
  have "contents r' t = mset (map content (other_edges t inc target a g)) + mset (map content (held_edges t inc target a g))"
    unfolding contents_def assms map_append mset_append by (subst content_back_list) simp_all
  then show ?thesis unfolding contents_def held_edges_def other_edges_def mset_map_split .
qed

lemma give_back_create:
  assumes moved: "moved_owned now a s me t g r" and sep: "separable t (points_in t) (far_end t) a s g"
    and "a \<noteq> s" and t: "t \<in> {LINKED_TO, HAS_FACT}"
    and known: "\<And>h. h \<in> set (held_edges t (points_in t) (far_end t) a g) \<Longrightarrow> origin_known r a h"
  defines "r' \<equiv> revert_create t (move_name t) (points_in t) (far_end t) (match_keys t) [] a s me r"
  shows "g_nodes r' = g_nodes r" and "u \<noteq> t \<Longrightarrow> typed_edges r' u = typed_edges r u" and "contents r' t = contents g t"
proof -
  have owned: "t \<in> OWNED" and new: "new_on_survivor t s g = (\<lambda>h. True)"
    using t by (auto simp: OWNED_def new_on_survivor_def is_context_def)
  note tk = taken_owned [OF moved sep \<open>a \<noteq> s\<close> owned, unfolded new]
  have "far_end t (other_end (points_in t) h)" if "h \<in> set (held_edges t (points_in t) (far_end t) a g)" for h
    using that by (auto simp: held_edges_def held_def)
  with revert_create_taken [OF tk, of "far_end t" "[]"] known t
  have typed: "typed_edges r' u = (if u = t then other_edges t (points_in t) (far_end t) a g @ []
      @ map (\<lambda>h. given_back t (points_in t) a [] (mover (points_in t) me (move_name t) a (\<lambda>h. True) h))
          (held_edges t (points_in t) (far_end t) a g) else typed_edges r u)"
    and nodes: "g_nodes r' = g_nodes r" for u by (auto simp: r'_def)
  show "g_nodes r' = g_nodes r" by (rule nodes)
  show "u \<noteq> t \<Longrightarrow> typed_edges r' u = typed_edges r u" by (simp add: typed)
  show "contents r' t = contents g t" by (rule contents_back) (simp add: typed)
qed

lemma give_back_merge:
  assumes moved: "moved_owned now a s me t g r" and sep: "separable t (points_in t) (far_end t) a s g"
    and "a \<noteq> s" and t: "t \<in> {IDENTIFIED_BY, LIVES_AT, PURCHASED, BOUGHT_VEHICLE, OWNS_VEHICLE}"
    and known: "\<And>h. h \<in> set (held_edges t (points_in t) (far_end t) a g) \<Longrightarrow> origin_known r a h"
    and same: "same = (if is_context t then same_record else (\<lambda>m x. True))"
  shows "\<exists>r'. revert_merge t (move_name t) (far_end t) (match_keys t) same a s me r = Inr r' \<and> g_nodes r' = g_nodes r
     \<and> (\<forall>u. u \<noteq> t \<longrightarrow> typed_edges r' u = typed_edges r u) \<and> contents r' t = contents g t"
proof -
  have owned: "t \<in> OWNED" and inc: "points_in t = False" using t by (auto simp: OWNED_def points_in_def)
  let ?H = "held_edges t False (far_end t) a g"
  note tk = taken_owned [OF moved sep \<open>a \<noteq> s\<close> owned, unfolded inc]
  have "\<exists>r'. revert_merge t (move_name t) (far_end t) (match_keys t) same a s me r = Inr r' \<and> g_nodes r' = g_nodes r
     \<and> (\<forall>u. typed_edges r' u = (if u = t then other_edges t False (far_end t) a g @ []
          @ map (\<lambda>h. given_back t False a [] (mover False me (move_name t) a (new_on_survivor t s g) h)) ?H
        else typed_edges r u))"
  proof (rule revert_merge_taken [OF tk])
    fix h assume h: "h \<in> set ?H"
    then show "far_end t (e_dst h) \<and> origin_known r a h"
      using known [unfolded inc] by (auto simp: held_edges_def held_def other_end_def)
    have pk: "''source_record_pk'' \<notin> set MOVE_KEYS" by (simp add: MOVE_KEYS_def)
    show "same (mover False me (move_name t) a (new_on_survivor t s g) h) (copied now a s t h)"
      using separableD(5) [OF sep [unfolded inc] h] context_copy_props [OF separableD(2) [OF sep [unfolded inc] h]] pk
      by (simp add: same same_record_def copied_def)
  next
    fix x assume "x \<in> set (other_edges t False (far_end t) a g) \<union> set []"
    then show "e_src x \<noteq> PersonN a \<or> \<not> far_end t (e_dst x)"
      by (auto simp: other_edges_def held_def holder_def other_end_def typed_edges_def)
  qed
  then obtain r' where run: "revert_merge t (move_name t) (far_end t) (match_keys t) same a s me r = Inr r'"
    "g_nodes r' = g_nodes r"
    and typed: "\<And>u. typed_edges r' u = (if u = t then other_edges t False (far_end t) a g
          @ map (\<lambda>h. given_back t False a [] (mover False me (move_name t) a (new_on_survivor t s g) h)) ?H
        else typed_edges r u)" by auto
  have "contents r' t = contents g t" by (rule contents_back) (simp add: typed)
  with run typed show ?thesis by auto
qed

lemma give_back_knows:
  assumes moved: "moved_knows now a s me g r" and "a \<noteq> s"
    and sep: "\<And>inc. separable KNOWS inc (knows_target s) a s g"
    and known: "\<And>h inc. h \<in> set (knows_held inc a s g) \<Longrightarrow> origin_known r a h"
    and loops: "no_loops g"
    and r1: "r1 = revert_create KNOWS ''KNOWS_OUT'' False is_person [''source_record_pk'']
                   [(''declared_by_person_id'', JStr a), (''updated_at'', JInt later)] a s me r"
    and r2: "r2 = revert_create KNOWS ''KNOWS_IN'' True is_person [''source_record_pk'']
                   [(''updated_at'', JInt later)] a s me r1"
  shows "g_nodes r2 = g_nodes r" and "u \<noteq> KNOWS \<Longrightarrow> typed_edges r2 u = typed_edges r u" and "contents r2 KNOWS = contents g KNOWS"
proof -
  let ?mv = "\<lambda>inc. mover inc me (knows_name inc) a (\<lambda>h. True)"
  let ?out = "map (\<lambda>h. given_back KNOWS False a [(''declared_by_person_id'', JStr a), (''updated_at'', JInt later)] (?mv False h))
    (knows_held False a s g)"
  let ?in = "map (\<lambda>h. given_back KNOWS True a [(''updated_at'', JInt later)] (?mv True h)) (knows_held True a s g)"
  have far: "is_person (other_end inc h) \<and> other_end inc h \<noteq> PersonN s \<and> other_end inc h \<noteq> PersonN a"
    if h: "h \<in> set (knows_held inc a s g)" for inc h
  proof -
    have "e_src h \<noteq> e_dst h" "holder inc h = PersonN a" "knows_target s (other_end inc h)"
      using h loops by (auto simp: knows_held_def held_edges_def held_def no_loops_def list_all_iff)
    then show ?thesis by (auto simp: knows_target_def holder_def other_end_def split: if_splits)
  qed
  have typed: "typed_edges r KNOWS = knows_rest a s g @ map (knows_copy now a s False) (knows_held False a s g)
        @ map (knows_copy now a s True) (knows_held True a s g)"
    and mv: "moves r me (knows_name inc) = map (?mv inc) (knows_held inc a s g)" for inc
    using moved by (auto simp: moved_knows_def)
  have tk1: "taken KNOWS False (match_keys KNOWS) a s me (knows_name False) (\<lambda>h. True) (knows_copy now a s False)
     (knows_held False a s g) (knows_rest a s g) (map (knows_copy now a s True) (knows_held True a s g)) r"
  proof (rule taken_knows [OF typed mv sep \<open>a \<noteq> s\<close>])
    fix x assume "x \<in> set (map (knows_copy now a s True) (knows_held True a s g))"
    then show "holder False x \<noteq> PersonN s"
      using far [of _ True] by (auto simp: knows_copy_def moved_copy_def edge_at_def holder_def)
  qed
  have ok1: "is_person (other_end False h) \<and> origin_known r a h \<and> (KNOWS = KNOWS \<longrightarrow> other_end False h \<noteq> PersonN a)"
    if "h \<in> set (knows_held False a s g)" for h using far [OF that] known [OF that] by simp
  have typed1: "typed_edges r1 u = (if u = KNOWS
      then knows_rest a s g @ map (knows_copy now a s True) (knows_held True a s g) @ ?out else typed_edges r u)"
    and nodes1: "g_nodes r1 = g_nodes r" for u
    using revert_create_taken [OF tk1 ok1] by (simp_all add: r1 knows_name_def)
  have moves1: "moves r1 me (knows_name True) = map (?mv True) (knows_held True a s g)"
    using mv [of True] moves_typed [of r1 r] by (simp add: typed1)
  have tk2: "taken KNOWS True (match_keys KNOWS) a s me (knows_name True) (\<lambda>h. True) (knows_copy now a s True)
     (knows_held True a s g) (knows_rest a s g) ?out r1"
  proof (rule taken_knows [OF _ moves1 sep \<open>a \<noteq> s\<close>])
    show "typed_edges r1 KNOWS = knows_rest a s g @ map (knows_copy now a s True) (knows_held True a s g) @ ?out"
      by (simp add: typed1)
    fix x assume "x \<in> set ?out"
    then show "holder True x \<noteq> PersonN s"
      using far [of _ False] by (auto simp: given_back_def edge_at_def holder_def)
  qed
  have ok2: "is_person (other_end True h) \<and> origin_known r1 a h \<and> (KNOWS = KNOWS \<longrightarrow> other_end True h \<noteq> PersonN a)"
    if "h \<in> set (knows_held True a s g)" for h using far [OF that] known [OF that] by (simp add: origin_known_nodes [OF nodes1])
  have typed2: "typed_edges r2 u = (if u = KNOWS then knows_rest a s g @ ?out @ ?in else typed_edges r1 u)"
    and nodes2: "g_nodes r2 = g_nodes r1" for u
    using revert_create_taken [OF tk2 ok2] by (simp_all add: r2 knows_name_def)
  show "g_nodes r2 = g_nodes r" by (simp add: nodes1 nodes2)
  show "u \<noteq> KNOWS \<Longrightarrow> typed_edges r2 u = typed_edges r u" by (simp add: typed1 typed2)
  have gave: "map content ?out = map content (knows_held False a s g)" "map content ?in = map content (knows_held True a s g)"
    unfolding knows_held_def by (rule content_back_list; simp)+
  let ?O = "held KNOWS False (knows_target s) a" and ?I = "held KNOWS True (knows_target s) a"
  have both: "\<not> (?O e \<and> ?I e)" if "e \<in> set (typed_edges g KNOWS)" for e
    using loops that by (auto simp: no_loops_def list_all_iff held_def holder_def)
  have three: "mset (map f (filter (\<lambda>x. \<not> P x \<and> \<not> Q x) xs)) + (mset (map f (filter P xs)) + mset (map f (filter Q xs)))
      = mset (map f xs)" if "\<And>x. x \<in> set xs \<Longrightarrow> \<not> (P x \<and> Q x)" for P Q and f :: "edge \<Rightarrow> _" and xs
    using that by (induction xs) auto
  show "contents r2 KNOWS = contents g KNOWS"
  proof -
    have "contents r2 KNOWS = mset (map content (knows_rest a s g))
        + (mset (map content (knows_held False a s g)) + mset (map content (knows_held True a s g)))"
      unfolding contents_def typed2 if_P [OF refl] map_append mset_append gave ..
    also have "\<dots> = contents g KNOWS"
      unfolding knows_rest_def knows_held_def held_edges_def contents_def by (rule three [OF both])
    finally show ?thesis .
  qed
qed

lemma revert_relationships_effect:
  assumes owned: "\<And>t. t \<in> OWNED \<Longrightarrow> moved_owned now a s me t g r" and knows: "moved_knows now a s me g r"
    and rev: "revertible g a s me" and known: "\<And>h. origin_known g a h \<Longrightarrow> origin_known r a h"
  shows "\<exists>r'. revert_relationships later a s me r = Inr r' \<and> g_nodes r' = g_nodes r
     \<and> (\<forall>t \<in> insert KNOWS OWNED. contents r' t = contents g t)
     \<and> (\<forall>u. u \<notin> insert KNOWS OWNED \<longrightarrow> typed_edges r' u = typed_edges r u)"
proof -
  have ne: "a \<noteq> s" and loops: "no_loops g" using rev no_loops_typed by (auto simp: revertible_def)
  have sep: "separable t (points_in t) (far_end t) a s g" if "t \<in> OWNED" for t by (rule separable_owned [OF rev that])
  have sepk: "separable KNOWS inc (knows_target s) a s g" for inc using rev by (cases inc) (auto simp: revertible_def)
  have origin: "origin_known r a h" if "h \<in> set (held_edges t (points_in t) (far_end t) a g)" "t \<in> OWNED" for t h
    by (rule known [OF separableD(3) [OF sep [OF that(2)] that(1)]])
  have origink: "origin_known r a h" if "h \<in> set (knows_held inc a s g)" for h inc
    by (rule known [OF separableD(3) [OF sepk that [unfolded knows_held_def]]])
  have still: "moved_owned now a s me t g k" if "t \<in> OWNED" "typed_edges k t = typed_edges r t"
      "typed_edges k MOVED_RELATIONSHIP = typed_edges r MOVED_RELATIONSHIP" for t k
    using moved_owned_typed [OF that(2,3)] owned [OF that(1)] by simp
  have originn: "origin_known k a h" if "g_nodes k = g_nodes r" "h \<in> set (held_edges t (points_in t) (far_end t) a g)" "t \<in> OWNED" for k t h
    using origin [OF that(2,3)] origin_known_nodes [OF that(1)] by simp
  have create: "g_nodes k' = g_nodes k \<and> (\<forall>u. u \<noteq> t \<longrightarrow> typed_edges k' u = typed_edges k u) \<and> contents k' t = contents g t"
    if "k' = revert_create t (move_name t) (points_in t) (far_end t) (match_keys t) [] a s me k" "t \<in> {LINKED_TO, HAS_FACT}"
      "g_nodes k = g_nodes r" "typed_edges k t = typed_edges r t" "typed_edges k MOVED_RELATIONSHIP = typed_edges r MOVED_RELATIONSHIP" for t k k'
  proof -
    have t: "t \<in> OWNED" using that(2) by (auto simp: OWNED_def)
    show ?thesis unfolding that(1)
      using give_back_create [OF still [OF t that(4,5)] sep [OF t] ne that(2) originn [OF that(3) _ t]] by simp
  qed
  have merge: "\<exists>k'. revert_merge t (move_name t) (far_end t) (match_keys t) (if is_context t then same_record else (\<lambda>m x. True)) a s me k = Inr k'
      \<and> g_nodes k' = g_nodes k \<and> (\<forall>u. u \<noteq> t \<longrightarrow> typed_edges k' u = typed_edges k u) \<and> contents k' t = contents g t"
    if "t \<in> {IDENTIFIED_BY, LIVES_AT, PURCHASED, BOUGHT_VEHICLE, OWNS_VEHICLE}"
      "g_nodes k = g_nodes r" "typed_edges k t = typed_edges r t" "typed_edges k MOVED_RELATIONSHIP = typed_edges r MOVED_RELATIONSHIP" for t k
  proof -
    have t: "t \<in> OWNED" using that(1) by (auto simp: OWNED_def)
    show ?thesis by (rule give_back_merge [OF still [OF t that(3,4)] sep [OF t] ne that(1) originn [OF that(2) _ t] refl])
  qed
  define r1 where "r1 = revert_create LINKED_TO ''LINKED_TO'' True is_source_record [] [] a s me r"
  have s1: "g_nodes r1 = g_nodes r" "\<And>u. u \<noteq> LINKED_TO \<Longrightarrow> typed_edges r1 u = typed_edges r u" "contents r1 LINKED_TO = contents g LINKED_TO"
    using create [of r1 LINKED_TO r] by (auto simp: r1_def points_in_def far_end_eqs)
  obtain r2 where run2: "revert_merge IDENTIFIED_BY ''IDENTIFIED_BY'' is_identifier RECORD_KEYS (\<lambda>m x. True) a s me r1 = Inr r2"
    and s2: "g_nodes r2 = g_nodes r1" "\<And>u. u \<noteq> IDENTIFIED_BY \<Longrightarrow> typed_edges r2 u = typed_edges r1 u"
      "contents r2 IDENTIFIED_BY = contents g IDENTIFIED_BY"
    using merge [of IDENTIFIED_BY r1] by (auto simp: s1 far_end_eqs is_context_def)
  obtain r3 where run3: "revert_merge LIVES_AT ''LIVES_AT'' is_address RECORD_KEYS (\<lambda>m x. True) a s me r2 = Inr r3"
    and s3: "g_nodes r3 = g_nodes r2" "\<And>u. u \<noteq> LIVES_AT \<Longrightarrow> typed_edges r3 u = typed_edges r2 u"
      "contents r3 LIVES_AT = contents g LIVES_AT"
    using merge [of LIVES_AT r2] by (auto simp: s1 s2 far_end_eqs is_context_def)
  define r4 where "r4 = revert_create HAS_FACT ''HAS_FACT'' False is_source_record [''attribute_name''] [] a s me r3"
  have s4: "g_nodes r4 = g_nodes r3" "\<And>u. u \<noteq> HAS_FACT \<Longrightarrow> typed_edges r4 u = typed_edges r3 u" "contents r4 HAS_FACT = contents g HAS_FACT"
    using create [of r4 HAS_FACT r3] by (auto simp: r4_def points_in_def far_end_eqs s1 s2 s3)
  define r5 where "r5 = revert_create KNOWS ''KNOWS_OUT'' False is_person [''source_record_pk'']
                   [(''declared_by_person_id'', JStr a), (''updated_at'', JInt later)] a s me r4"
  define r6 where "r6 = revert_create KNOWS ''KNOWS_IN'' True is_person [''source_record_pk'']
                   [(''updated_at'', JInt later)] a s me r5"
  have typed4: "typed_edges r4 u = typed_edges r u" if "u \<notin> {LINKED_TO, IDENTIFIED_BY, LIVES_AT, HAS_FACT}" for u
    using that by (simp add: s1 s2 s3 s4)
  have nodes4: "g_nodes r4 = g_nodes r" by (simp add: s1 s2 s3 s4)
  have knows4: "moved_knows now a s me g r4"
    using knows moved_knows_typed [of r4 r] by (simp add: typed4)
  have origin4: "origin_known r4 a h" if "h \<in> set (knows_held inc a s g)" for h inc
    using origink [OF that] origin_known_nodes [OF nodes4] by simp
  note s6 = give_back_knows [OF knows4 ne sepk origin4 loops r5_def r6_def]
  obtain r7 where run7: "revert_merge PURCHASED ''PURCHASED'' is_order ORDER_KEYS same_record a s me r6 = Inr r7"
    and s7: "g_nodes r7 = g_nodes r6" "\<And>u. u \<noteq> PURCHASED \<Longrightarrow> typed_edges r7 u = typed_edges r6 u"
      "contents r7 PURCHASED = contents g PURCHASED"
    using merge [of PURCHASED r6] by (auto simp: s6(1,2) typed4 nodes4 far_end_eqs is_context_def)
  obtain r8 where run8: "revert_merge BOUGHT_VEHICLE ''BOUGHT_VEHICLE'' is_vehicle ORDER_KEYS same_record a s me r7 = Inr r8"
    and s8: "g_nodes r8 = g_nodes r7" "\<And>u. u \<noteq> BOUGHT_VEHICLE \<Longrightarrow> typed_edges r8 u = typed_edges r7 u"
      "contents r8 BOUGHT_VEHICLE = contents g BOUGHT_VEHICLE"
    using merge [of BOUGHT_VEHICLE r7] by (auto simp: s7 s6(1,2) typed4 nodes4 far_end_eqs is_context_def)
  obtain r9 where run9: "revert_merge OWNS_VEHICLE ''OWNS_VEHICLE'' is_vehicle RECORD_KEYS same_record a s me r8 = Inr r9"
    and s9: "g_nodes r9 = g_nodes r8" "\<And>u. u \<noteq> OWNS_VEHICLE \<Longrightarrow> typed_edges r9 u = typed_edges r8 u"
      "contents r9 OWNS_VEHICLE = contents g OWNS_VEHICLE"
    using merge [of OWNS_VEHICLE r8] by (auto simp: s8 s7 s6(1,2) typed4 nodes4 far_end_eqs is_context_def)
  have "revert_relationships later a s me r = Inr r9"
    unfolding revert_relationships_def Let_def r1_def [symmetric]
    by (simp add: run2 run3 r4_def [symmetric] r5_def [symmetric] r6_def [symmetric] run7 run8 run9)
  moreover have "g_nodes r9 = g_nodes r" by (simp add: s9 s8 s7 s6(1) nodes4)
  moreover have "contents r9 t = contents g t" if "t \<in> insert KNOWS OWNED" for t
  proof -
    note frames = s9(2) s8(2) s7(2) s6(2) s4(2) s3(2) s2(2)
    from that consider "t = LINKED_TO" | "t = IDENTIFIED_BY" | "t = LIVES_AT" | "t = HAS_FACT" | "t = KNOWS" | "t = PURCHASED"
      | "t = BOUGHT_VEHICLE" | "t = OWNS_VEHICLE" by (auto simp: OWNED_def)
    then show ?thesis
    proof cases
      case 1 then show ?thesis using s1(3) by (simp add: frames contents_def)
    next
      case 2 then show ?thesis using s2(3) by (simp add: frames contents_def)
    next
      case 3 then show ?thesis using s3(3) by (simp add: frames contents_def)
    next
      case 4 then show ?thesis using s4(3) by (simp add: frames contents_def)
    next
      case 5 then show ?thesis using s6(3) by (simp add: frames contents_def)
    next
      case 6 then show ?thesis using s7(3) by (simp add: frames contents_def)
    next
      case 7 then show ?thesis using s8(3) by (simp add: frames contents_def)
    next
      case 8 then show ?thesis using s9(3) by simp
    qed
  qed
  moreover have "typed_edges r9 u = typed_edges r u" if "u \<notin> insert KNOWS OWNED" for u
    using that by (simp add: OWNED_def s9(2) s8(2) s7(2) s6(2) typed4)
  ultimately show ?thesis by blast
qed

section \<open>The lineage\<close>

definition lineage_back :: "string \<Rightarrow> string \<Rightarrow> string \<Rightarrow> edge \<Rightarrow> edge" where
  "lineage_back me a s p = \<lparr>e_type = MERGED_INTO, e_src = e_src p, e_dst = PersonN a,
     e_props = json_sets [(''prior_survivor_person_id'', JNull), (''compressed_survivor_person_id'', JNull)]
                 (e_props (moved_lineage me a s p))\<rparr>"

lemma content_lineage_back:
  assumes "p \<in> set (lineage_into a g)"
  shows "content (lineage_back me a s p) = content p"
  using assms
  by (auto simp: lineage_back_def lineage_into_def typed_edges_def content_def bookkeeping_def moved_lineage_def edge_prop_def fun_eq_iff)

lemma lineage_sources:
  assumes "revertible g a s me"
  shows "distinct (map e_src (lineage_rest a g @ lineage_into a g))"
    and "e \<in> set (typed_edges g MERGED_INTO) \<Longrightarrow> \<exists>c. e_src e = PersonN c \<and> c \<noteq> a \<and> c \<noteq> s \<and> has_node g (PersonN c)
           \<and> node_prop g (PersonN c) ''status'' = JStr ''merged'' \<and> edge_prop e ''merge_event_id'' \<noteq> JNull"
proof -
  have ok: "lineage_ok g" and typed: "well_typed g" and act: "active_person g (PersonN a)" "active_person g (PersonN s)"
    using assms by (auto simp: revertible_def)
  have "mset (map e_src (lineage_rest a g @ lineage_into a g)) = mset (map e_src (typed_edges g MERGED_INTO))"
    using mset_map_split [of e_src "\<lambda>e. e_dst e = PersonN a \<and> is_person (e_src e)" "typed_edges g MERGED_INTO"]
    by (simp add: lineage_rest_def lineage_into_def del: mset_map mset_filter)
  then show "distinct (map e_src (lineage_rest a g @ lineage_into a g))"
    using ok mset_eq_imp_distinct_iff unfolding lineage_ok_def by blast
  show "\<exists>c. e_src e = PersonN c \<and> c \<noteq> a \<and> c \<noteq> s \<and> has_node g (PersonN c)
           \<and> node_prop g (PersonN c) ''status'' = JStr ''merged'' \<and> edge_prop e ''merge_event_id'' \<noteq> JNull"
    if e: "e \<in> set (typed_edges g MERGED_INTO)"
  proof -
    have "is_person (e_src e)" using typed e by (auto simp: well_typed_def list_all_iff typed_edges_def)
    then obtain c where c: "e_src e = PersonN c" by (cases "e_src e") auto
    have st: "node_prop g (PersonN c) ''status'' = JStr ''merged''" "edge_prop e ''merge_event_id'' \<noteq> JNull"
      using ok e c by (auto simp: lineage_ok_def list_all_iff)
    then have "has_node g (PersonN c)" by (auto simp: node_prop_def has_node_map_of split: option.splits)
    with st act c show ?thesis by (auto simp: active_person_def)
  qed
qed

lemma concat_if: "concat (map (\<lambda>m. if A m then f m else []) xs) = concat (map f (filter A xs))"
  by (induction xs) simp_all

lemma shifted_unique:
  assumes rev: "revertible g a s me" and merged: "merged_away now actor_id a s me g r" and p: "p \<in> set (lineage_into a g)"
  shows "[x \<leftarrow> typed_edges r MERGED_INTO. e_src x = e_src p] = [p\<lparr>e_dst := PersonN s\<rparr>]"
proof -
  let ?shift = "\<lambda>e. e\<lparr>e_dst := PersonN s\<rparr>"
  let ?new = "merged_into now me actor_id a s"
  have typed: "typed_edges r MERGED_INTO = lineage_rest a g @ [?new] @ map ?shift (lineage_into a g)"
    using merged by (simp add: merged_away_def)
  have dist: "distinct (map e_src (lineage_rest a g @ lineage_into a g))" by (rule lineage_sources(1) [OF rev])
  have new: "e_src ?new = PersonN a" by (simp add: merged_into_def)
  have src: "e_src e \<noteq> PersonN a" if "e \<in> set (lineage_rest a g @ lineage_into a g)" for e
    using lineage_sources(2) [OF rev, of e] that by (auto simp: lineage_rest_def lineage_into_def)
  have "PersonN a \<notin> e_src ` set (lineage_rest a g @ lineage_into a g)" using src by force
  then have "distinct (map e_src (typed_edges r MERGED_INTO))"
    unfolding typed using dist new by (simp add: comp_def) blast
  from filter_one_key [OF this, of "?shift p" "\<lambda>x. e_src x = e_src p"] p show ?thesis
    unfolding typed by simp
qed

lemma unmerge_rows_merged:
  assumes rev: "revertible g a s me" and merged: "merged_away now actor_id a s me g r"
  shows "unmerge_rows r a me = [(merged_into now me actor_id a s, s)]"
proof -
  let ?new = "merged_into now me actor_id a s"
  have typed: "typed_edges r MERGED_INTO = lineage_rest a g @ [?new] @ map (\<lambda>e. e\<lparr>e_dst := PersonN s\<rparr>) (lineage_into a g)"
    and me: "has_node r (MergeEventN me)" using merged by (auto simp: merged_away_def)
  have src: "e_src e \<noteq> PersonN a \<and> e_src e \<noteq> PersonN s" if "e \<in> set (lineage_rest a g @ lineage_into a g)" for e
    using lineage_sources(2) [OF rev, of e] that by (auto simp: lineage_rest_def lineage_into_def)
  have "a \<noteq> s" using rev by (simp add: revertible_def)
  have from_a: "[e \<leftarrow> g_edges r. e_type e = MERGED_INTO \<and> e_src e = PersonN a \<and> edge_prop e ''merge_event_id'' = JStr me] = [?new]"
  proof -
    have "[e \<leftarrow> g_edges r. e_type e = MERGED_INTO \<and> e_src e = PersonN a \<and> edge_prop e ''merge_event_id'' = JStr me]
        = [e \<leftarrow> typed_edges r MERGED_INTO. e_src e = PersonN a \<and> edge_prop e ''merge_event_id'' = JStr me]"
      by (simp add: typed_edges_def conj_commute conj_left_commute)
    then show ?thesis unfolding typed using src
      by (auto simp: filter_empty_conv merged_into_def edge_prop_def json_get_def)
  qed
  have none: "merged_on r (PersonN s) = []"
  proof -
    have "e_src e \<noteq> PersonN s" if "e \<in> set (typed_edges r MERGED_INTO)" for e
      using that src \<open>a \<noteq> s\<close> unfolding typed by (auto simp: merged_into_def)
    then show ?thesis by (auto simp: merged_on_def typed_edges_def filter_empty_conv)
  qed
  have dst: "e_dst ?new = PersonN s" by (simp add: merged_into_def)
  have "unmerge_rows r a me = concat (map (\<lambda>mi. map (Pair mi)
      [c. n \<leftarrow> e_dst mi # merged_on r (e_dst mi), merged_on r n = [], c \<leftarrow> person_ids_of n])
      [e \<leftarrow> g_edges r. e_type e = MERGED_INTO \<and> e_src e = PersonN a \<and> edge_prop e ''merge_event_id'' = JStr me])"
    unfolding concat_if [symmetric] unmerge_rows_def if_P [OF me]
    by (intro arg_cong [where f = concat] map_cong refl) (auto simp: map_concat comp_def intro!: arg_cong [where f = concat])
  then show ?thesis unfolding from_a by (simp add: none dst)
qed

lemma revert_lineage_effect:
  assumes rev: "revertible g a s me" and merged: "merged_away now actor_id a s me g r"
  defines "r' \<equiv> revert_lineage a s me r"
  shows "g_nodes r' = g_nodes r"
    and "u \<noteq> MERGED_INTO \<Longrightarrow> typed_edges r' u = typed_edges r u"
    and "typed_edges r' MERGED_INTO = lineage_rest a g @ [merged_into now me actor_id a s] @ map (lineage_back me a s) (lineage_into a g)"
proof -
  let ?P = "lineage_into a g" and ?ml = "moved_lineage me a s" and ?shift = "\<lambda>e. e\<lparr>e_dst := PersonN s\<rparr>"
  let ?new = "merged_into now me actor_id a s"
  have typed: "typed_edges r MERGED_INTO = lineage_rest a g @ [?new] @ map ?shift ?P"
    and log: "log_of r me = map ?ml ?P" using merged by (auto simp: merged_away_def)
  have P: "\<exists>c. e_src p = PersonN c \<and> node_prop r (PersonN c) ''status'' = JStr ''merged'' \<and> edge_prop p ''merge_event_id'' \<noteq> JNull"
    if "p \<in> set ?P" for p
  proof -
    have "p \<in> set (typed_edges g MERGED_INTO)" using that by (simp add: lineage_into_def)
    from lineage_sources(2) [OF rev this] merged show ?thesis by (auto simp: merged_away_def)
  qed
  have comp: "compressed r s (?ml p) = [?shift p]" if p: "p \<in> set ?P" for p
  proof -
    let ?id = "\<lambda>e. edge_prop e ''merge_event_id''"
    have ml: "e_dst (?ml p) = e_src p" "?id (?ml p) = ?id p" by (simp_all add: moved_lineage_def edge_prop_def)
    have "compressed r s (?ml p) = [x \<leftarrow> [x \<leftarrow> typed_edges r MERGED_INTO. e_src x = e_src p].
        e_dst x = PersonN s \<and> ?id p \<noteq> JNull \<and> ?id x = ?id p]"
      by (simp add: compressed_def ml edge_between_def typed_edges_def conj_commute conj_left_commute)
    also have "\<dots> = [?shift p]" unfolding shifted_unique [OF rev merged p] using P [OF p] by (auto simp: edge_prop_def)
    finally show ?thesis .
  qed
  let ?F = "\<lambda>m. if is_person (e_dst m) \<and> edge_prop m ''prior_survivor_person_id'' = JStr a
      \<and> node_prop r (e_dst m) ''status'' = JStr ''merged'' then map (Pair m) (compressed r s m) else []"
  have F: "?F (?ml p) = [(?ml p, ?shift p)]" if "p \<in> set ?P" for p
    using comp [OF that] P [OF that] by (auto simp: moved_lineage_def edge_prop_def)
  have rows: "[(m, x). m \<leftarrow> g_edges r, e_type m = MOVED_MERGE_LINEAGE \<and> e_src m = MergeEventN me \<and> is_person (e_dst m),
       edge_prop m ''prior_survivor_person_id'' = JStr a \<and> node_prop r (e_dst m) ''status'' = JStr ''merged'',
       x \<leftarrow> compressed r s m] = map (\<lambda>p. (?ml p, ?shift p)) ?P"
  proof -
    have "[(m, x). m \<leftarrow> g_edges r, e_type m = MOVED_MERGE_LINEAGE \<and> e_src m = MergeEventN me \<and> is_person (e_dst m),
       edge_prop m ''prior_survivor_person_id'' = JStr a \<and> node_prop r (e_dst m) ''status'' = JStr ''merged'',
       x \<leftarrow> compressed r s m]
      = concat (map (\<lambda>m. if e_type m = MOVED_MERGE_LINEAGE \<and> e_src m = MergeEventN me then ?F m else []) (g_edges r))"
      by (intro arg_cong [where f = concat] map_cong refl) auto
    also have "\<dots> = concat (map ?F (log_of r me))"
      unfolding concat_if by (simp add: log_of_def typed_edges_def conj_commute)
    also have "\<dots> = concat (map (\<lambda>p. [(?ml p, ?shift p)]) ?P)"
      unfolding log map_map comp_def by (intro arg_cong [where f = concat] map_cong refl) (rule F)
    finally show ?thesis by (simp add: concat_map_singleton)
  qed
  have r': "r' = r\<lparr>g_edges := [e \<leftarrow> g_edges r. e \<notin> set (map ?shift ?P)] @ map (lineage_back me a s) ?P\<rparr>"
    unfolding r'_def revert_lineage_def rows Let_def
    by (simp add: comp_def lineage_back_def moved_lineage_def)
  then show "g_nodes r' = g_nodes r" by simp
  have shift: "e_type e = MERGED_INTO" if "e \<in> set (map ?shift ?P)" for e
    using that by (auto simp: lineage_into_def typed_edges_def)
  have typed': "typed_edges r' u = [e \<leftarrow> typed_edges r u. e \<notin> set (map ?shift ?P)]
      @ (if u = MERGED_INTO then map (lineage_back me a s) ?P else [])" for u
  proof -
    have "[e \<leftarrow> [e \<leftarrow> g_edges r. e \<notin> set (map ?shift ?P)]. e_type e = u] = [e \<leftarrow> typed_edges r u. e \<notin> set (map ?shift ?P)]"
      by (simp only: typed_edges_def filter_filter conj_commute)
    moreover have "[e \<leftarrow> map (lineage_back me a s) ?P. e_type e = u] = (if u = MERGED_INTO then map (lineage_back me a s) ?P else [])"
      by (auto simp: lineage_back_def filter_empty_conv)
    ultimately show ?thesis unfolding r' typed_edges_append by simp
  qed
  show "typed_edges r' u = typed_edges r u" if "u \<noteq> MERGED_INTO"
  proof -
    have "e \<notin> set (map ?shift ?P)" if "e \<in> set (typed_edges r u)" for e
      using shift [of e] typed_edges_type [OF that] \<open>u \<noteq> MERGED_INTO\<close> by metis
    then show ?thesis using that by (simp add: typed' del: set_map)
  qed
  have dist: "distinct (map e_src (lineage_rest a g @ ?P))" by (rule lineage_sources(1) [OF rev])
  have "e \<notin> set (map ?shift ?P)" if "e \<in> set (lineage_rest a g @ [?new])" for e
  proof
    assume "e \<in> set (map ?shift ?P)"
    then obtain p where p: "p \<in> set ?P" "e_src e = e_src p" by auto
    have "e_src p \<noteq> PersonN a" using lineage_sources(2) [OF rev, of p] p(1) by (auto simp: lineage_into_def)
    with that p have "e \<in> set (lineage_rest a g)" by (auto simp: merged_into_def)
    with dist p show False by (auto simp: image_iff)
  qed
  then have keep: "[e \<leftarrow> lineage_rest a g @ [?new]. e \<notin> set (map ?shift ?P)] = lineage_rest a g @ [?new]"
    by (simp add: filter_id_conv del: set_map filter_append filter.simps)
  have "[e \<leftarrow> map ?shift ?P. e \<notin> set (map ?shift ?P)] = []" by (simp add: filter_empty_conv)
  with keep have "[e \<leftarrow> (lineage_rest a g @ [?new]) @ map ?shift ?P. e \<notin> set (map ?shift ?P)] = lineage_rest a g @ [?new]"
    by (simp only: filter_append [of _ "lineage_rest a g @ [?new]"] append_Nil2)
  then show "typed_edges r' MERGED_INTO = lineage_rest a g @ [?new] @ map (lineage_back me a s) ?P"
    unfolding typed' typed append_assoc by simp
qed

section \<open>The reversal of a merge\<close>

definition restored :: "graph \<Rightarrow> graph \<Rightarrow> bool" where
  "restored g g' =
     ((\<forall>t \<in> OWNED \<union> {KNOWS, MERGED_INTO}. contents g' t = contents g t)
      \<and> (\<forall>p. has_node g (PersonN p) \<longrightarrow> node_prop g' (PersonN p) ''status'' = node_prop g (PersonN p) ''status''))"

lemma drop_edge_typed: "typed_edges (drop_edges [e] g) t = [x \<leftarrow> typed_edges g t. x \<noteq> e]"
  by (simp add: drop_edges_def typed_edges_def conj_commute)

lemma reactivate_keep:
  "typed_edges (reactivate now a s mi g) t = [x \<leftarrow> typed_edges g t. x \<noteq> mi]"
  "has_node g (PersonN a) \<Longrightarrow> node_prop (reactivate now a s mi g) n ''status'' =
     (if n = PersonN a then JStr ''active'' else node_prop g n ''status'')"
  by (simp_all add: reactivate_def Let_def drop_edge_typed node_prop_set_node)
     (simp_all add: drop_edges_def has_node_def node_prop_def)

lemma origin_known_merged:
  assumes "merged_away now actor_id a s me g r" "origin_known g a h"
  shows "origin_known r a h"
  using assms by (auto simp: origin_known_def merged_away_def split: option.splits)

lemma REVERT_MERGE_restores:
  assumes rev: "revertible g a s me" and merged: "merged_away now actor_id a s me g r"
  shows "\<exists>g'. REVERT_MERGE later a me r = Inr (g', Some s) \<and> restored g g'"
proof -
  let ?new = "merged_into now me actor_id a s"
  define r0 where "r0 = revert_lineage a s me r"
  note lin = revert_lineage_effect [OF rev merged, folded r0_def]
  have act: "active_person g (PersonN a)" using rev by (simp add: revertible_def)
  have owned: "moved_owned now a s me t g r0" if "t \<in> OWNED" for t
  proof -
    have "t \<noteq> MERGED_INTO" using that by (auto simp: OWNED_def)
    with moved_owned_typed [OF lin(2) lin(2)] merged that show ?thesis by (simp add: merged_away_def)
  qed
  have knows: "moved_knows now a s me g r0"
    using moved_knows_typed [OF lin(2) lin(2)] merged by (simp add: merged_away_def)
  have known: "origin_known r0 a h" if "origin_known g a h" for h
    using origin_known_merged [OF merged that] origin_known_nodes [OF lin(1)] by simp
  from revert_relationships_effect [OF owned knows rev known, of later]
  obtain r9 where run: "revert_relationships later a s me r0 = Inr r9" and nodes: "g_nodes r9 = g_nodes r0"
    and gave: "\<And>t. t \<in> insert KNOWS OWNED \<Longrightarrow> contents r9 t = contents g t"
    and same: "\<And>u. u \<notin> insert KNOWS OWNED \<Longrightarrow> typed_edges r9 u = typed_edges r0 u" by blast
  let ?g' = "reactivate later a s ?new r9"
  have exec: "REVERT_MERGE later a me r = Inr (?g', Some s)"
    unfolding REVERT_MERGE_def unmerge_rows_merged [OF rev merged] by (simp add: r0_def [symmetric] run)
  have "contents ?g' t = contents g t" if "t \<in> insert KNOWS OWNED" for t
  proof -
    have "e_type ?new \<noteq> t" using that by (auto simp: merged_into_def OWNED_def)
    then have "x \<noteq> ?new" if "x \<in> set (typed_edges r9 t)" for x using typed_edges_type [OF that] by auto
    then have "typed_edges ?g' t = typed_edges r9 t" by (simp add: reactivate_keep filter_id_conv)
    then show ?thesis using gave [OF that] by (simp add: contents_def)
  qed
  moreover have "contents ?g' MERGED_INTO = contents g MERGED_INTO"
  proof -
    have src: "e_src e \<noteq> PersonN a" if "e \<in> set (lineage_rest a g @ lineage_into a g)" for e
      using lineage_sources(2) [OF rev, of e] that by (auto simp: lineage_rest_def lineage_into_def)
    have typed: "typed_edges r9 MERGED_INTO = lineage_rest a g @ [?new] @ map (lineage_back me a s) (lineage_into a g)"
      using same [of MERGED_INTO] lin(3) by (simp add: OWNED_def)
    have "e_src ?new = PersonN a" "e_src (lineage_back me a s p) = e_src p" for p
      by (simp_all add: merged_into_def lineage_back_def)
    then have "x \<noteq> ?new" if "x \<in> set (lineage_rest a g @ map (lineage_back me a s) (lineage_into a g))" for x
      using that src by force
    then have "typed_edges ?g' MERGED_INTO = lineage_rest a g @ map (lineage_back me a s) (lineage_into a g)"
      unfolding reactivate_keep typed by (simp add: filter_id_conv)
    moreover have "map content (map (lineage_back me a s) (lineage_into a g)) = map content (lineage_into a g)"
      using content_lineage_back by simp
    ultimately have "contents ?g' MERGED_INTO = mset (map content (lineage_rest a g)) + mset (map content (lineage_into a g))"
      unfolding contents_def by (simp only: map_append mset_append)
    then show ?thesis unfolding contents_def lineage_rest_def lineage_into_def mset_map_split .
  qed
  moreover have "node_prop ?g' (PersonN p) ''status'' = node_prop g (PersonN p) ''status''" if p: "has_node g (PersonN p)" for p
  proof -
    have "has_node g (PersonN a)" using act active_has_node by blast
    with merged have a: "has_node r9 (PersonN a)" by (simp add: merged_away_def has_node_def nodes lin(1))
    have "node_prop r9 (PersonN p) ''status'' = node_prop r (PersonN p) ''status''" by (simp add: node_prop_def nodes lin(1))
    with p merged act show ?thesis by (simp add: reactivate_keep(2) [OF a] merged_away_def active_person_def)
  qed
  ultimately show ?thesis using exec by (auto simp: restored_def)
qed

section \<open>The transactions\<close>

lemma restored_keep:
  assumes "restored g h" "\<And>t. t \<in> OWNED \<union> {KNOWS, MERGED_INTO} \<Longrightarrow> typed_edges h' t = typed_edges h t"
    "\<And>p. node_prop h' (PersonN p) ''status'' = node_prop h (PersonN p) ''status''"
  shows "restored g h'"
  using assms by (simp add: restored_def contents_def)

lemma counters_typed: "typed_edges (recompute_person_crm_deal_counts now ps g) t = typed_edges g t"
  by (simp add: typed_edges_def counters_keep)

lemma audit_keep:
  assumes "CREATE_UNMERGE_AUDIT now ume a s reason metadata actor_id g = (g', audited)"
  shows "t \<notin> {ABSORBED, SURVIVOR} \<Longrightarrow> typed_edges g' t = typed_edges g t"
    and "node_prop g' (PersonN p) ''status'' = node_prop g (PersonN p) ''status''"
    and "audited = (has_node g (PersonN a) \<and> has_node g (PersonN s))"
  using assms
  by (auto simp: CREATE_UNMERGE_AUDIT_def manual_event_keep node_prop_set_node_other split: if_splits)

lemma flag_keep:
  "typed_edges (FLAG_AFFECTED_RECORDS_FOR_REVIEW me g) t = typed_edges g t"
  "node_prop (FLAG_AFFECTED_RECORDS_FOR_REVIEW me g) n ''status'' = node_prop g n ''status''"
  by (simp_all add: FLAG_AFFECTED_RECORDS_FOR_REVIEW_def set_nodes_keep)

lemma revert_redirect_keep:
  assumes "\<forall>(rc, old, p) \<in> set rows. e_type old \<in> {ABOUT_LEFT, ABOUT_RIGHT}"
  shows "t \<notin> {ABOUT_LEFT, ABOUT_RIGHT} \<Longrightarrow> typed_edges (revert_redirect rows kvs g) t = typed_edges g t"
    and "k \<notin> fst ` set kvs \<Longrightarrow> node_prop (revert_redirect rows kvs g) n k = node_prop g n k"
proof -
  let ?new = "map (\<lambda>(rc, old, p). \<lparr>e_type = e_type old, e_src = e_src old, e_dst = PersonN p,
      e_props = [(''entity_type'', JStr ''person'')]\<rparr>) rows"
  let ?old = "set (map (fst \<circ> snd) rows)"
  show "typed_edges (revert_redirect rows kvs g) t = typed_edges g t" if t: "t \<notin> {ABOUT_LEFT, ABOUT_RIGHT}"
  proof -
    have "[e \<leftarrow> [e \<leftarrow> g_edges g. e \<notin> ?old]. e_type e = t] = typed_edges g t"
    proof -
      have "e \<notin> ?old" if "e_type e = t" for e using assms t that by fastforce
      then show ?thesis by (auto simp: typed_edges_def simp del: set_map intro!: filter_cong)
    qed
    moreover have "[e \<leftarrow> ?new. e_type e = t] = []" using assms t by (auto simp: filter_empty_conv)
    ultimately show ?thesis unfolding revert_redirect_def typed_edges_set_nodes typed_edges_append by simp
  qed
  assume "k \<notin> fst ` set kvs"
  then have "node_prop (revert_redirect rows kvs g) n k
      = node_prop (g\<lparr>g_edges := [e \<leftarrow> g_edges g. e \<notin> ?old] @ ?new\<rparr>) n k"
    unfolding revert_redirect_def by (rule set_nodes_keep(2))
  then show "node_prop (revert_redirect rows kvs g) n k = node_prop g n k" by (simp add: node_prop_def)
qed

lemma redirected_rows_types:
  "side \<in> {ABOUT_LEFT, ABOUT_RIGHT} \<Longrightarrow>
   \<forall>(rc, old, p) \<in> set (redirected_rows side stamps from_key g). e_type old \<in> {ABOUT_LEFT, ABOUT_RIGHT}"
  by (auto simp: redirected_rows_def split: if_splits)

lemma revert_side_effects_keep:
  assumes "revert_merge_review_side_effects now me g = (g', ids)"
  shows "t \<notin> {ABOUT_LEFT, ABOUT_RIGHT} \<Longrightarrow> typed_edges g' t = typed_edges g t"
    and "node_prop g' n ''status'' = node_prop g n ''status''"
proof -
  have pair: "(t \<notin> {ABOUT_LEFT, ABOUT_RIGHT} \<longrightarrow> typed_edges (fst (REVERT_PERSON_PAIR_REDIRECTS side name now me h)) t = typed_edges h t)
      \<and> node_prop (fst (REVERT_PERSON_PAIR_REDIRECTS side name now me h)) n ''status'' = node_prop h n ''status''"
    if "side \<in> {ABOUT_LEFT, ABOUT_RIGHT}" for side name h t
    using revert_redirect_keep [OF redirected_rows_types [OF that]]
    by (simp add: REVERT_PERSON_PAIR_REDIRECTS_def Let_def)
  have recordp: "(t \<notin> {ABOUT_LEFT, ABOUT_RIGHT} \<longrightarrow> typed_edges (REVERT_RECORD_PERSON_CASE_REDIRECTS now me h) t = typed_edges h t)
      \<and> node_prop (REVERT_RECORD_PERSON_CASE_REDIRECTS now me h) n ''status'' = node_prop h n ''status''" for h t
    unfolding REVERT_RECORD_PERSON_CASE_REDIRECTS_def
    using revert_redirect_keep [OF redirected_rows_types] by simp
  have closures: "typed_edges (REVERT_PERSON_PAIR_CASE_CLOSURES now me h) t = typed_edges h t"
    "node_prop (REVERT_PERSON_PAIR_CASE_CLOSURES now me h) n ''status'' = node_prop h n ''status''" for h t
    by (simp_all add: REVERT_PERSON_PAIR_CASE_CLOSURES_def set_nodes_keep)
  have g': "g' = REVERT_PERSON_PAIR_CASE_CLOSURES now me (fst (REVERT_PERSON_PAIR_REDIRECTS_RIGHT now me
      (fst (REVERT_PERSON_PAIR_REDIRECTS_LEFT now me (REVERT_RECORD_PERSON_CASE_REDIRECTS now me g)))))"
    using assms by (auto simp: revert_merge_review_side_effects_def Let_def split: prod.splits)
  show "t \<notin> {ABOUT_LEFT, ABOUT_RIGHT} \<Longrightarrow> typed_edges g' t = typed_edges g t"
    "node_prop g' n ''status'' = node_prop g n ''status''"
    unfolding g' closures REVERT_PERSON_PAIR_REDIRECTS_RIGHT_def REVERT_PERSON_PAIR_REDIRECTS_LEFT_def
    using pair recordp by simp_all
qed

lemma side_effects_settle: "fst (apply_merge_review_side_effects now me a s g) = settle_review_cases now a s me g"
  by (simp add: apply_merge_review_side_effects_def settle_review_cases_def Let_def)

lemma manual_merge_cases:
  assumes "manual_merge_tx valid_iso uuid isof now me a s reason actor_id (g, st) = Inr (Merged me' ids, g1, st1)"
  obtains ge left right where "(left, right) = ordered_pair a s"
    "EXECUTE_MANUAL_MERGE now me a s left right reason actor_id g = Inr (ge, True)" "agrees ge g1"
    "\<not> CHECK_MANUAL_NO_MATCH_LOCK g now left right"
proof -
  obtain left right where pair: "ordered_pair a s = (left, right)" by fastforce
  from assms obtain ge where exec: "EXECUTE_MANUAL_MERGE now me a s left right reason actor_id g = Inr (ge, True)"
    and g1: "g1 = fst (apply_merge_review_side_effects now me a s (recompute_person_crm_deal_counts now [a, s] ge))"
    and lock: "\<not> CHECK_MANUAL_NO_MATCH_LOCK g now left right"
    by (auto simp: manual_merge_tx_def pair try_bind_Inr_iff Let_def split: if_splits prod.splits)
  have "agrees ge g1"
    unfolding g1 side_effects_settle
    by (auto simp: agrees_def REVERTED_TYPES_def OWNED_def settle_keep counters_typed counters_keep)
  with exec lock pair [symmetric] that show ?thesis by blast
qed

lemma agrees_trans: "agrees g h \<Longrightarrow> agrees h k \<Longrightarrow> agrees g k"
  by (simp add: agrees_def)

lemma unmerge_target_merged:
  assumes "merged_away now actor_id a s me g r" "has_node g (PersonN a)"
  shows "GET_UNMERGE_TARGET r me = Some (a, s)"
proof -
  have me: "has_node r (MergeEventN me)" and a: "node_prop r (PersonN a) ''status'' = JStr ''merged''"
    and ends: "event_edges r ABSORBED me = [event_end ABSORBED me a]" "event_edges r SURVIVOR me = [event_end SURVIVOR me s]"
    using assms by (auto simp: merged_away_def)
  have "[(b, t). has_node r (MergeEventN me), e \<leftarrow> g_edges r, e_type e = ABSORBED \<and> e_src e = MergeEventN me,
              b \<leftarrow> person_ids_of (e_dst e), node_prop r (PersonN b) ''status'' = JStr ''merged'',
              f \<leftarrow> g_edges r, e_type f = SURVIVOR \<and> e_src f = MergeEventN me, t \<leftarrow> person_ids_of (e_dst f)]
      = concat (map (\<lambda>e. concat (map (\<lambda>b. if node_prop r (PersonN b) ''status'' = JStr ''merged''
          then concat (map (\<lambda>f. map (Pair b) (person_ids_of (e_dst f))) (event_edges r SURVIVOR me)) else [])
          (person_ids_of (e_dst e)))) (event_edges r ABSORBED me))"
    unfolding event_edges_def typed_edges_def filter_filter concat_if [symmetric] if_P [OF me] ..
  then show ?thesis unfolding GET_UNMERGE_TARGET_def ends by (simp add: event_end_def a)
qed

text \<open>C15: an unmerge takes a manual merge back. Whatever happened in between outside the relationships it
  reads, the reversal runs and finds the survivor, the absorbed person has its relationships and its
  lineage again as it had them, up to the properties that merges stamp on them, the survivor has its own,
  and the two are active; and so they stay to the end of the transaction.\<close>

theorem unmerge_restores:
  assumes "revertible g a s me"
    and "manual_merge_tx valid_iso uuid isof now me a s reason actor_id (g, st) = Inr (Merged me ids, g1, st1)"
    and "agrees g1 g2"
  shows "(\<exists>g3. REVERT_MERGE later a me g2 = Inr (g3, Some s) \<and> restored g g3)
     \<and> (unmerge_tx valid_iso uuid isof later ume me reason' actor_id' (g2, st2) = Inr (r, g4, st4) \<longrightarrow>
          restored g g4 \<and> (\<exists>u. r = Some u \<and> ur_absorbed_id u = a \<and> ur_current_survivor_id u = s))"
proof -
  from assms(2) obtain ge left right where pair: "(left, right) = ordered_pair a s"
    and exec: "EXECUTE_MANUAL_MERGE now me a s left right reason actor_id g = Inr (ge, True)" and ge: "agrees ge g1"
    by (rule manual_merge_cases)
  have "(left, right) \<in> {(a, s), (s, a)}" using pair by (auto simp: ordered_pair_def split: if_splits)
  with exec execute_effect [OF assms(1), of left right now reason actor_id] have "merged_away now actor_id a s me g ge" by auto
  then have merged: "merged_away now actor_id a s me g g2"
    using merged_away_agrees agrees_trans [OF ge assms(3)] by blast
  obtain g3 where g3: "REVERT_MERGE later a me g2 = Inr (g3, Some s)" "restored g g3"
    using REVERT_MERGE_restores [OF assms(1) merged] by blast
  have nodes: "has_node g (PersonN a)" "has_node g (PersonN s)"
    using assms(1) active_has_node by (auto simp: revertible_def)
  have "restored g g4 \<and> (\<exists>u. r = Some u \<and> ur_absorbed_id u = a \<and> ur_current_survivor_id u = s)"
    if tx: "unmerge_tx valid_iso uuid isof later ume me reason' actor_id' (g2, st2) = Inr (r, g4, st4)"
  proof -
    let ?gc = "recompute_person_crm_deal_counts later [a, s] g3"
    obtain ga audited where audit: "CREATE_UNMERGE_AUDIT later ume a s reason'
        (json_dumps (JObj [(''original_merge_event_id'', JStr me)])) actor_id' ?gc = (ga, audited)" by fastforce
    obtain gr ids' where rr: "revert_merge_review_side_effects later me (FLAG_AFFECTED_RECORDS_FOR_REVIEW me ga) = (gr, ids')"
      by fastforce
    from tx audit rr have "g4 = gr" and r: "r = Some \<lparr>ur_absorbed_id = a, ur_current_survivor_id = s, ur_reverted_review_case_ids = ids'\<rparr>"
      by (auto simp: unmerge_tx_def unmerge_target_merged [OF merged nodes(1)] g3 Let_def try_bind_Inr_iff split: if_splits)
    have "restored g ?gc" by (rule restored_keep [OF g3(2)]) (simp_all add: counters_typed counters_keep)
    then have "restored g ga" by (rule restored_keep) (use audit_keep [OF audit] in \<open>auto simp: OWNED_def\<close>)
    then have "restored g (FLAG_AFFECTED_RECORDS_FOR_REVIEW me ga)" by (rule restored_keep) (simp_all add: flag_keep)
    then have "restored g gr" by (rule restored_keep) (use revert_side_effects_keep [OF rr] in \<open>auto simp: OWNED_def\<close>)
    with \<open>g4 = gr\<close> r show ?thesis by simp
  qed
  with g3 show ?thesis by blast
qed

section \<open>A merge and its reversal\<close>

definition sample_person :: "string \<Rightarrow> string \<Rightarrow> node \<times> json_obj" where
  "sample_person p status = (PersonN p, [(''status'', JStr status)])"

definition sample_key :: "string \<Rightarrow> json_obj" where
  "sample_key pk = [(''source_system_key'', JStr ''crm''), (''source_record_pk'', JStr pk)]"

definition sample_order :: "json_obj" where
  "sample_order = (''source_order_id'', JStr ''7'') # sample_key ''r2''"

text \<open>Anna, who once took in Cleo, knows Kim and shares an order with Ben.\<close>

definition two_persons :: graph where
  "two_persons =
     \<lparr>g_nodes = [sample_person ''anna'' ''active'', sample_person ''ben'' ''active'', sample_person ''cleo'' ''merged'',
                 sample_person ''kim'' ''active'', (SourceRecordN ''r1'', []), (IdentifierN ''phone'' ''g'' ''1'', []),
                 (OrderN ''o'', [])],
      g_edges =
        [\<lparr>e_type = LINKED_TO, e_src = SourceRecordN ''r1'', e_dst = PersonN ''anna'', e_props = []\<rparr>,
         \<lparr>e_type = IDENTIFIED_BY, e_src = PersonN ''anna'', e_dst = IdentifierN ''phone'' ''g'' ''1'',
          e_props = (''merge_origin_person_id'', JStr ''cleo'') # sample_key ''r1''\<rparr>,
         \<lparr>e_type = IDENTIFIED_BY, e_src = PersonN ''ben'', e_dst = IdentifierN ''phone'' ''g'' ''1'', e_props = sample_key ''r1''\<rparr>,
         \<lparr>e_type = KNOWS, e_src = PersonN ''anna'', e_dst = PersonN ''kim'', e_props = sample_key ''r1''\<rparr>,
         \<lparr>e_type = PURCHASED, e_src = PersonN ''anna'', e_dst = OrderN ''o'', e_props = sample_order\<rparr>,
         \<lparr>e_type = PURCHASED, e_src = PersonN ''ben'', e_dst = OrderN ''o'', e_props = sample_order\<rparr>,
         \<lparr>e_type = MERGED_INTO, e_src = PersonN ''cleo'', e_dst = PersonN ''anna'',
          e_props = [(''merge_event_id'', JStr ''m0'')]\<rparr>]\<rparr>"

definition sample_merge :: "(merge_outcome \<times> graph \<times> stream) result" where
  "sample_merge = manual_merge_tx (\<lambda>_. True) (\<lambda>_. ''u'') (\<lambda>_. ''t'') 5 ''m1'' ''anna'' ''ben'' ''same'' ''admin''
     (two_persons, empty_stream)"

lemma sample_revertible: "revertible two_persons ''anna'' ''ben'' ''m1''"
  by code_simp

lemma sample_merge_runs:
  "(case sample_merge of Inl _ \<Rightarrow> False | Inr (out, g, st) \<Rightarrow> (case out of Merged m ids \<Rightarrow> m = ''m1'' | _ \<Rightarrow> False))"
  by code_simp

theorem unmerge_restores_witness:
  "revertible two_persons ''anna'' ''ben'' ''m1''
   \<and> (\<exists>ids g1 st1. sample_merge = Inr (Merged ''m1'' ids, g1, st1)
        \<and> (\<exists>g3. REVERT_MERGE 9 ''anna'' ''m1'' g1 = Inr (g3, Some ''ben'') \<and> restored two_persons g3))"
proof -
  obtain ids g1 st1 where run: "sample_merge = Inr (Merged ''m1'' ids, g1, st1)"
    using sample_merge_runs by (auto split: sum.splits merge_outcome.splits)
  have "agrees g1 g1" by (simp add: agrees_def)
  with unmerge_restores [OF sample_revertible run [unfolded sample_merge_def]] have
    "\<exists>g3. REVERT_MERGE 9 ''anna'' ''m1'' g1 = Inr (g3, Some ''ben'') \<and> restored two_persons g3" by blast
  with run sample_revertible show ?thesis by blast
qed

end
