(* ===== verification/MergeHistory.thy ===== *)
theory MergeHistory
  imports UnmergeRestores PersonPairs
begin

text \<open>
  Histories of automatic merges, manual merges and unmerges. Each keeps the graph well-typed and the
  lineage flat: every merged person points to exactly one active person.
\<close>

section \<open>Well-typed graphs\<close>

lemma well_typed_edges: "well_typed g \<longleftrightarrow> (\<forall>e \<in> set (g_edges g). schema (e_type e) (e_src e, e_dst e))"
  by (simp add: well_typed_def list_all_iff)

lemma well_typed_same_edges: "g_edges g' = g_edges g \<Longrightarrow> well_typed g' = well_typed g"
  by (simp add: well_typed_def)

lemma well_typed_nodes [simp]:
  "well_typed (set_node n f g) = well_typed g" "well_typed (create_node n ps g) = well_typed g"
  "well_typed (set_nodes ns kvs g) = well_typed g" "well_typed (mark_dirty now p g) = well_typed g"
  by (simp_all add: well_typed_iff mark_dirty_def)

lemma well_typed_fold_dirty [simp]: "well_typed (fold (mark_dirty now) ps g) = well_typed g"
  by (induction ps arbitrary: g) simp_all

lemma well_typed_create_edge [simp]: "well_typed (create_edge e g) = (well_typed g \<and> schema (e_type e) (e_src e, e_dst e))"
  by (auto simp: well_typed_def)

lemma well_typed_sub: "well_typed g \<Longrightarrow> set es \<subseteq> set (g_edges g) \<Longrightarrow> well_typed (g\<lparr>g_edges := es\<rparr>)"
  by (auto simp: well_typed_edges)

lemma well_typed_append:
  "well_typed (g\<lparr>g_edges := xs @ ys\<rparr>) = (well_typed (g\<lparr>g_edges := xs\<rparr>) \<and> (\<forall>e \<in> set ys. schema (e_type e) (e_src e, e_dst e)))"
  by (auto simp: well_typed_edges)

lemma well_typed_redirects:
  assumes "well_typed g"
  shows "\<forall>(rc, old) \<in> set rows. e_type old \<in> {ABOUT_LEFT, ABOUT_RIGHT} \<Longrightarrow> well_typed (redirect rows s kvs g)"
    and "\<forall>(rc, old, p) \<in> set rows'. e_type old \<in> {ABOUT_LEFT, ABOUT_RIGHT} \<Longrightarrow> well_typed (revert_redirect rows' kvs g)"
  using assms
  by (fastforce simp: redirect_def revert_redirect_def well_typed_append intro!: well_typed_sub)+

lemma well_typed_settle:
  assumes "well_typed g"
  shows "well_typed (settle_review_cases now a s me g)"
proof -
  have close: "well_typed (CLOSE_PERSON_PAIR_CASES_FOR_ABSORBED now a s me h) = well_typed h" for h
    by (simp add: CLOSE_PERSON_PAIR_CASES_FOR_ABSORBED_def)
  have left: "well_typed h \<Longrightarrow> well_typed (REDIRECT_PERSON_PAIR_CASES_ABSORBED_LEFT now a s me h)" for h
    unfolding REDIRECT_PERSON_PAIR_CASES_ABSORBED_LEFT_def
    by (rule well_typed_redirects(1)) (auto simp: case_rows_def)
  have right: "well_typed h \<Longrightarrow> well_typed (REDIRECT_PERSON_PAIR_CASES_ABSORBED_RIGHT now a s me h)" for h
    unfolding REDIRECT_PERSON_PAIR_CASES_ABSORBED_RIGHT_def
    by (rule well_typed_redirects(1)) (auto simp: case_rows_def)
  have both: "well_typed h \<Longrightarrow> well_typed (REDIRECT_RECORD_PERSON_CASES_FOR_ABSORBED now a s me h)" for h
    unfolding REDIRECT_RECORD_PERSON_CASES_FOR_ABSORBED_def
    by (rule well_typed_redirects(1)) auto
  show ?thesis unfolding settle_review_cases_def using assms by (intro both right left) (simp add: close)
qed

lemma well_typed_counters: "well_typed (recompute_person_crm_deal_counts now ps g) = well_typed g"
  by (rule well_typed_same_edges) (rule counters_keep)

section \<open>The lineage after a merge\<close>

lemma lineage_ok_merge:
  assumes ok: "lineage_ok g" and typed: "well_typed g" and act: "active_person g (PersonN a)" "active_person g (PersonN s)"
    and "a \<noteq> s" and fresh: "\<not> has_node g (MergeEventN me)"
    and mi: "mset (typed_edges g' MERGED_INTO) = mset (lineage_rest a g @ [new] @ map (\<lambda>e. e\<lparr>e_dst := PersonN s\<rparr>) (lineage_into a g))"
    and new: "e_src new = PersonN a" "e_dst new = PersonN s" "edge_prop new ''merge_event_id'' \<noteq> JNull"
    and log: "typed_edges g' MOVED_MERGE_LINEAGE = typed_edges g MOVED_MERGE_LINEAGE @ map (moved_lineage me a s) (lineage_into a g)"
    and nodes: "has_node g' (MergeEventN me)" "\<And>n. has_node g n \<Longrightarrow> has_node g' n"
    and status: "\<And>p. node_prop g' (PersonN p) ''status'' = (if p = a then JStr ''merged'' else node_prop g (PersonN p) ''status'')"
  shows "lineage_ok g'"
proof -
  let ?shift = "\<lambda>e. e\<lparr>e_dst := PersonN s\<rparr>"
  let ?L = "typed_edges g MERGED_INTO"
  have persons: "is_person (e_src e)" "is_person (e_dst e)" if "e \<in> set ?L" for e
    using typed that by (auto simp: well_typed_edges typed_edges_def)
  have old: "node_prop g (e_src e) ''status'' = JStr ''merged''" "active_person g (e_dst e)"
      "edge_prop e ''merge_event_id'' \<noteq> JNull" if "e \<in> set ?L" for e
    using ok that by (auto simp: lineage_ok_def list_all_iff)
  have src: "e_src e \<noteq> PersonN a" if "e \<in> set ?L" for e using old(1) [OF that] act(1) by (auto simp: active_person_def)
  have "mset (map e_src (lineage_rest a g @ lineage_into a g)) = mset (map e_src ?L)"
    using mset_map_split [of e_src "\<lambda>e. e_dst e = PersonN a \<and> is_person (e_src e)" ?L]
    by (simp add: lineage_rest_def lineage_into_def del: mset_map mset_filter)
  then have dist: "distinct (map e_src (lineage_rest a g @ lineage_into a g))"
    using ok mset_eq_imp_distinct_iff unfolding lineage_ok_def by blast
  have sub: "set (lineage_rest a g) \<subseteq> set ?L" "set (lineage_into a g) \<subseteq> set ?L"
    by (auto simp: lineage_rest_def lineage_into_def)
  have "PersonN a \<notin> e_src ` set (lineage_rest a g @ lineage_into a g)" using src sub by force
  then have "distinct (map e_src (lineage_rest a g @ [new] @ map ?shift (lineage_into a g)))"
    using dist new(1) by (simp add: comp_def) blast
  moreover have "mset (map e_src (typed_edges g' MERGED_INTO)) = mset (map e_src (lineage_rest a g @ [new] @ map ?shift (lineage_into a g)))"
    by (simp only: mset_map mi)
  ultimately have "distinct (map e_src (typed_edges g' MERGED_INTO))" using mset_eq_imp_distinct_iff by blast
  moreover have "node_prop g' (e_src e) ''status'' = JStr ''merged'' \<and> active_person g' (e_dst e) \<and> edge_prop e ''merge_event_id'' \<noteq> JNull"
    if "e \<in> set (typed_edges g' MERGED_INTO)" for e
  proof -
    have st: "node_prop g' n ''status'' = (if n = PersonN a then JStr ''merged'' else node_prop g n ''status'')"
      if "is_person n" for n using status that by (cases n) simp_all
    have "set (typed_edges g' MERGED_INTO) = set (lineage_rest a g @ [new] @ map ?shift (lineage_into a g))"
      using mi by (rule mset_eq_setD)
    with that consider "e \<in> set (lineage_rest a g)" | "e = new" | p where "p \<in> set (lineage_into a g)" "e = ?shift p" by auto
    then show ?thesis
    proof cases
      case 1
      then have e: "e \<in> set ?L" "e_dst e \<noteq> PersonN a" using persons by (auto simp: lineage_rest_def)
      with st persons old src show ?thesis by (simp add: active_person_def)
    next
      case 2
      with new st act(2) \<open>a \<noteq> s\<close> show ?thesis by (simp add: active_person_def)
    next
      case 3
      then have p: "p \<in> set ?L" using sub by blast
      with 3 st persons(1) [OF p] old(1,3) [OF p] src [OF p] act(2) \<open>a \<noteq> s\<close> show ?thesis
        by (simp add: active_person_def edge_prop_def)
    qed
  qed
  moreover have "distinct (map (\<lambda>m. (e_src m, e_dst m)) (typed_edges g' MOVED_MERGE_LINEAGE))"
  proof -
    have "distinct (map (\<lambda>p. (MergeEventN me, e_src p)) (lineage_into a g))"
      using dist by (auto simp: distinct_map inj_on_def)
    moreover have "e_src m \<noteq> MergeEventN me" if "m \<in> set (typed_edges g MOVED_MERGE_LINEAGE)" for m
      using ok that fresh by (auto simp: lineage_ok_def list_all_iff)
    ultimately show ?thesis unfolding log using ok
      by (auto simp: lineage_ok_def moved_lineage_def comp_def)
  qed
  moreover have "has_node g' (e_src m) \<and> e_dst m \<notin> PersonN ` set (pks_of (edge_prop m ''prior_survivor_person_id''))"
    if "m \<in> set (typed_edges g' MOVED_MERGE_LINEAGE)" for m
  proof -
    from that consider "m \<in> set (typed_edges g MOVED_MERGE_LINEAGE)" | p where "p \<in> set (lineage_into a g)" "m = moved_lineage me a s p"
      unfolding log by auto
    then show ?thesis
    proof cases
      case 1 then show ?thesis using ok nodes(2) by (auto simp: lineage_ok_def list_all_iff)
    next
      case 2
      then have "e_src p \<noteq> PersonN a" using src sub by blast
      with 2 nodes(1) show ?thesis by (simp add: moved_lineage_def edge_prop_def)
    qed
  qed
  ultimately show ?thesis by (auto simp: lineage_ok_def list_all_iff)
qed

lemma lineage_parts_append:
  assumes "typed_edges k MERGED_INTO = typed_edges g MERGED_INTO @ [new]" "e_dst new \<noteq> PersonN a"
  shows "lineage_rest a k = lineage_rest a g @ [new]" "lineage_into a k = lineage_into a g"
  using assms by (simp_all add: lineage_rest_def lineage_into_def)

lemma auto_merge_lineage:
  assumes merge: "merge_person_pair isof now me a s md reason g = Inr g'" and typed: "well_typed g" and ok: "lineage_ok g"
    and "a \<noteq> s" and act: "active_person g (PersonN a)" "active_person g (PersonN s)" and fresh: "\<not> has_node g (MergeEventN me)"
  shows "lineage_ok g'"
proof -
  from merge obtain g1 g2 profile g3 where
    g1: "CREATE_MERGE_EVENT_AUTO_MERGE now me a s reason g = (g1, True)" and
    g2: "rewire_relationships now a s me (fold (LINK_MERGE_EVENT_AFFECTED_RECORD me) (GET_AFFECTED_SOURCE_RECORDS g a)
       (LINK_MERGE_EVENT_TRIGGERED_BY me md g1)) = Inr g2" and
    g3: "compute_golden_profile isof now s (recompute_person_crm_deal_counts now [a, s]
       (settle_review_cases now a s me (record_lineage now a s me g2))) = Inr (profile, g3)" and
    g': "g' = mark_profile_analysis_dirty now [] (profile_analysis_merge_person_ids g a s) g3"
    by (rule merge_person_pair_cases)
  let ?h = "fold (LINK_MERGE_EVENT_AFFECTED_RECORD me) (GET_AFFECTED_SOURCE_RECORDS g a) (LINK_MERGE_EVENT_TRIGGERED_BY me md g1)"
  let ?log = "{MERGED_INTO, MOVED_MERGE_LINEAGE}"
  note eff = merge_effect [OF merge typed \<open>a \<noteq> s\<close>]
  have linked: "typed_edges (fold (LINK_MERGE_EVENT_AFFECTED_RECORD me) pks k) t = typed_edges k t" if "t \<in> ?log" for pks k t
    using that by (induction pks arbitrary: k) (auto simp: LINK_MERGE_EVENT_AFFECTED_RECORD_def)
  have h: "typed_edges ?h t = typed_edges g t" if "t \<in> ?log" for t
    using g1 that by (auto simp: linked [OF that] LINK_MERGE_EVENT_TRIGGERED_BY_def CREATE_MERGE_EVENT_AUTO_MERGE_def split: if_splits)
  have t2: "typed_edges g2 t = typed_edges g t" if "t \<in> ?log" for t
    using typed_edges_rewire_relationships [OF g2, of t] h [OF that] that by (auto simp: OWNED_def)
  let ?new = "\<lparr>e_type = MERGED_INTO, e_src = PersonN a, e_dst = PersonN s,
      e_props = [(''merge_event_id'', JStr me), (''actor'', JStr ''match_engine''), (''timestamp'', JInt now)]\<rparr>"
  define gm where "gm = CREATE_MERGED_INTO now a s me (MARK_PERSON_MERGED now a g2)"
  have nodes2: "has_node g2 n \<longleftrightarrow> n = MergeEventN me \<or> has_node g n" for n
  proof -
    have "well_typed ?h \<and> rewirable ?h a s me"
      unfolding well_typed_iff
    proof (intro conjI allI ballI)
      show "schema u p" if "p \<in> links ?h u" for u p
      proof (cases "u \<in> {ABSORBED, SURVIVOR, TRIGGERED_BY, AFFECTED_RECORD}")
        case False
        with that links_create_merge_event(1) [OF g1, of u] have "p \<in> links g u" by simp
        with typed show ?thesis by (auto simp: well_typed_iff)
      qed auto
      show "rewirable ?h a s me"
        using links_create_merge_event(2) [OF g1] eff(5,6) by (auto simp: rewirable_def has_node_def)
    qed
    then have "g_nodes g2 = g_nodes ?h"
      using rewire_relationships_links(1) [OF g2 _ _ \<open>a \<noteq> s\<close>, of KNOWS] by (simp add: plain_type_def)
    then show ?thesis using links_create_merge_event(2) [OF g1, of n] by (simp add: has_node_def)
  qed
  have able: "rewirable gm a s me"
    using nodes2 eff(5,6) by (simp add: gm_def rewirable_def CREATE_MERGED_INTO_def MARK_PERSON_MERGED_def)
  have tm: "typed_edges gm MERGED_INTO = typed_edges g MERGED_INTO @ [?new]"
      "typed_edges gm MOVED_MERGE_LINEAGE = typed_edges g MOVED_MERGE_LINEAGE"
    using nodes2 eff(5,6) t2
    by (simp_all add: gm_def CREATE_MERGED_INTO_def MARK_PERSON_MERGED_def typed_edges_def create_edge_def)
  note parts = lineage_parts_append [OF tm(1), of a]
  have edges: "g_edges g' = g_edges (settle_review_cases now a s me (PATH_COMPRESS_MERGED_INTO a s me gm))"
    by (simp add: g' dirty_keep golden_keep [OF g3] counters_keep record_lineage_def gm_def)
  have t': "typed_edges g' t = typed_edges (PATH_COMPRESS_MERGED_INTO a s me gm) t" if "t \<in> ?log" for t
    using same_edges_typed [OF edges, of t] settle_keep(1) [of t] that by auto
  show ?thesis
  proof (rule lineage_ok_merge [OF ok typed act \<open>a \<noteq> s\<close> fresh])
    show "mset (typed_edges g' MERGED_INTO) = mset (lineage_rest a g @ [?new] @ map (\<lambda>e. e\<lparr>e_dst := PersonN s\<rparr>) (lineage_into a g))"
      using t' compress_effect(3) [OF able] parts \<open>a \<noteq> s\<close> by simp
    show "typed_edges g' MOVED_MERGE_LINEAGE = typed_edges g MOVED_MERGE_LINEAGE @ map (moved_lineage me a s) (lineage_into a g)"
      using t' compress_effect(4) [OF able] parts tm(2) \<open>a \<noteq> s\<close> by simp
  qed (use eff(3,4) in \<open>auto simp: edge_prop_def json_get_def\<close>)
qed

section \<open>Manual merges\<close>

lemma move_rel_keep:
  assumes "t \<noteq> MOVED_RELATIONSHIP" "u \<notin> {t, MOVED_RELATIONSHIP}"
  shows "typed_edges (move_rel t rtype inc target stamps a s me g) u = typed_edges g u"
  using move_rel_effect(1) [OF assms(1) refl] assms(2) by simp

lemma well_typed_move:
  assumes "well_typed g" "\<And>n. target n \<Longrightarrow> schema t (if inc then (n, PersonN s) else (PersonN s, n))"
  shows "well_typed (move_rel t rtype inc target stamps a s me g)"
proof -
  have "schema (e_type e) (e_src e, e_dst e)" if "e \<in> set (g_edges (move_rel t rtype inc target stamps a s me g))" for e
  proof -
    from that consider "e \<in> set (g_edges g)" | old where "held t inc target a old" "e = moved_copy inc stamps a s old"
      | "e_type e = MOVED_RELATIONSHIP"
      by (auto simp: move_rel_def)
    then show ?thesis
    proof cases
      case 2
      then show ?thesis using assms(2) [of "other_end inc old"] by (auto simp: held_def moved_copy_def edge_at_def)
    qed (use assms(1) in \<open>auto simp: well_typed_edges\<close>)
  qed
  then show ?thesis by (simp add: well_typed_edges)
qed

lemma well_typed_affected [simp]:
  "well_typed (mark_affected me pks g) = well_typed g"
  "well_typed (fold (\<lambda>pk. create_edge (affected_edge me pk)) pks g) = well_typed g"
  unfolding mark_affected_def by (induction pks arbitrary: g; simp add: affected_edge_def)+

lemma rewire_merge_keep:
  assumes "rewire_merge t rtype keys target oc om a s me g = Inr g'"
  shows "g_nodes g' = g_nodes g" and "u \<notin> {t, MOVED_RELATIONSHIP} \<Longrightarrow> typed_edges g' u = typed_edges g u"
    and "well_typed g \<Longrightarrow> (\<And>n. target n \<Longrightarrow> schema t (PersonN s, n)) \<Longrightarrow> well_typed g'"
proof -
  show "g_nodes g' = g_nodes g"
    using assms links_rewire_merge [OF assms, of KNOWS] by (cases "rewirable g a s me") (auto simp: rewire_merge_def)
  show "u \<notin> {t, MOVED_RELATIONSHIP} \<Longrightarrow> typed_edges g' u = typed_edges g u"
    using typed_edges_rewire_merge [OF assms] by simp
  assume typed: "well_typed g" and target: "\<And>n. target n \<Longrightarrow> schema t (PersonN s, n)"
  show "well_typed g'"
  proof (cases "rewirable g a s me")
    case True
    have "schema u p" if p: "p \<in> links g' u" for u p
    proof (cases "u = MOVED_RELATIONSHIP")
      case False
      have old: "schema u q" if "q \<in> links g u" for q using typed that by (simp add: well_typed_iff)
      from p links_rewire_merge [OF assms True False] show ?thesis
        using old target by (cases p) (auto split: if_splits)
    qed simp
    then show ?thesis by (simp add: well_typed_iff)
  next
    case False
    with assms have "g' = g" by (simp add: rewire_merge_def)
    with typed show ?thesis by simp
  qed
qed

lemma manual_rewire_keep:
  assumes "manual_rewire now a s me g = Inr g'"
  shows "g_nodes g' = g_nodes g"
    and "u \<notin> OWNED \<union> {KNOWS, MOVED_RELATIONSHIP, AFFECTED_RECORD} \<Longrightarrow> typed_edges g' u = typed_edges g u"
    and "well_typed g \<Longrightarrow> well_typed g'"
proof -
  let ?g1 = "manual_linked_to now a s me g"
  let ?g3 = "manual_move LIVES_AT ''LIVES_AT'' False is_address [] a s me
    (manual_move IDENTIFIED_BY ''IDENTIFIED_BY'' False is_identifier [] a s me ?g1)"
  let ?g5 = "manual_move KNOWS ''KNOWS_IN'' True (knows_target s) [(''updated_at'', JInt now)] a s me
    (manual_move KNOWS ''KNOWS_OUT'' False (knows_target s) [(''declared_by_person_id'', JStr s), (''updated_at'', JInt now)] a s me ?g3)"
  let ?g6 = "manual_facts a s me ?g5"
  obtain g7 h7 g8 h8 h9 where
    r7: "REWIRE_PURCHASED a s me ?g6 = Inr h7" and g7: "g7 = mark_affected me (named_sources PURCHASED False is_order a ?g6) h7" and
    r8: "REWIRE_BOUGHT_VEHICLE a s me g7 = Inr h8" and g8: "g8 = mark_affected me (named_sources BOUGHT_VEHICLE False is_vehicle a g7) h8" and
    r9: "REWIRE_OWNS_VEHICLE a s me g8 = Inr h9" and g9: "g' = mark_affected me (named_sources OWNS_VEHICLE False is_vehicle a g8) h9"
    using assms by (auto simp: manual_rewire_def Let_def manual_context_def try_bind_Inr_iff)
  note r = r7 [unfolded REWIRE_PURCHASED_def] r8 [unfolded REWIRE_BOUGHT_VEHICLE_def] r9 [unfolded REWIRE_OWNS_VEHICLE_def]
  note k7 = rewire_merge_keep [OF r(1)] and k8 = rewire_merge_keep [OF r(2)] and k9 = rewire_merge_keep [OF r(3)]
  note defs = manual_linked_to_def manual_move_def manual_facts_def
  show "g_nodes g' = g_nodes g"
    by (simp add: g7 g8 g9 k7(1) k8(1) k9(1) defs move_rel_effect(2))
  show "typed_edges g' u = typed_edges g u" if "u \<notin> OWNED \<union> {KNOWS, MOVED_RELATIONSHIP, AFFECTED_RECORD}"
    using that by (simp add: OWNED_def g7 g8 g9 k7(2) k8(2) k9(2) defs move_rel_keep)
  assume typed: "well_typed g"
  have "well_typed ?g6"
    unfolding defs well_typed_affected
    by (intro well_typed_move typed) (auto simp: knows_target_def defs well_typed_affected intro!: well_typed_move typed)
  then have "well_typed g7" using k7(3) by (simp add: g7)
  then have "well_typed g8" using k8(3) by (simp add: g8)
  then show "well_typed g'" using k9(3) by (simp add: g9)
qed

text \<open>No merged person is without a lineage.\<close>

definition lineage_total :: "graph \<Rightarrow> bool" where
  "lineage_total g = (\<forall>p. node_prop g (PersonN p) ''status'' = JStr ''merged'' \<longrightarrow> PersonN p \<in> e_src ` set (typed_edges g MERGED_INTO))"

definition history_ok :: "graph \<Rightarrow> bool" where
  "history_ok g = (well_typed g \<and> lineage_ok g \<and> lineage_total g)"

lemma lineage_total_merge:
  assumes "lineage_total g"
    and mi: "mset (typed_edges g' MERGED_INTO) = mset (lineage_rest a g @ [new] @ map (\<lambda>e. e\<lparr>e_dst := PersonN s\<rparr>) (lineage_into a g))"
    and "e_src new = PersonN a"
    and status: "\<And>p. node_prop g' (PersonN p) ''status'' = (if p = a then JStr ''merged'' else node_prop g (PersonN p) ''status'')"
  shows "lineage_total g'"
proof -
  have "set (typed_edges g' MERGED_INTO) = set (lineage_rest a g @ [new] @ map (\<lambda>e. e\<lparr>e_dst := PersonN s\<rparr>) (lineage_into a g))"
    using mi by (rule mset_eq_setD)
  then have "e_src ` set (typed_edges g' MERGED_INTO) = insert (PersonN a) (e_src ` (set (lineage_rest a g) \<union> set (lineage_into a g)))"
    using assms(3) by (simp add: image_Un image_image)
  moreover have "set (lineage_rest a g) \<union> set (lineage_into a g) = set (typed_edges g MERGED_INTO)"
    by (auto simp: lineage_rest_def lineage_into_def)
  ultimately show ?thesis using assms(1) status by (auto simp: lineage_total_def split: if_splits)
qed

text \<open>What later transactions keep: the lineage and its log, the nodes and the statuses; nobody is merged.\<close>

definition same_lineage :: "graph \<Rightarrow> graph \<Rightarrow> bool" where
  "same_lineage g h =
     (typed_edges h MERGED_INTO = typed_edges g MERGED_INTO
      \<and> typed_edges h MOVED_MERGE_LINEAGE = typed_edges g MOVED_MERGE_LINEAGE
      \<and> (\<forall>n. has_node g n \<longrightarrow> has_node h n)
      \<and> (\<forall>n. has_node g n \<longrightarrow> node_prop h n ''status'' = node_prop g n ''status'')
      \<and> (\<forall>p. node_prop h (PersonN p) ''status'' = JStr ''merged'' \<longrightarrow> node_prop g (PersonN p) ''status'' = JStr ''merged''))"

lemma status_has_node: "node_prop g n k = JStr v \<Longrightarrow> has_node g n"
  by (auto simp: node_prop_def has_node_map_of split: option.splits)

lemma same_lineage_ok:
  assumes "lineage_ok g" "same_lineage g h"
  shows "lineage_ok h"
proof -
  have st: "node_prop h n ''status'' = JStr v" if "node_prop g n ''status'' = JStr v" for n v
    using assms(2) that status_has_node [OF that] by (simp add: same_lineage_def)
  from assms show ?thesis
    by (auto simp: lineage_ok_def same_lineage_def list_all_iff active_person_def st)
qed

lemma same_lineage_history:
  assumes "history_ok g" "same_lineage g h" "well_typed h"
  shows "history_ok h"
  using assms same_lineage_ok [of g h] by (simp add: history_ok_def lineage_total_def same_lineage_def)

lemma execute_lineage:
  assumes exec: "EXECUTE_MANUAL_MERGE now me a s left right reason actor_id g = Inr (g1, merged)" and ok: "history_ok g"
    and "a \<noteq> s" and fresh: "\<not> has_node g (MergeEventN me)"
  shows "history_ok g1" and "has_node g n \<Longrightarrow> has_node g1 n"
    and "node_prop g1 (PersonN p) ''status'' = (if merged \<and> p = a then JStr ''merged'' else node_prop g (PersonN p) ''status'')"
proof -
  have typed: "well_typed g" and lin: "lineage_ok g" and total: "lineage_total g" using ok by (auto simp: history_ok_def)
  let ?gb = "bump_lock_version right (bump_lock_version left g)"
  have bump: "same_lineage g ?gb" "well_typed ?gb"
    using typed by (simp_all add: same_lineage_def) (simp add: bump_lock_version_def)
  have "history_ok g1 \<and> (has_node g n \<longrightarrow> has_node g1 n)
     \<and> node_prop g1 (PersonN p) ''status'' = (if merged \<and> p = a then JStr ''merged'' else node_prop g (PersonN p) ''status'')" for n p
  proof (cases merged)
    case False
    with exec have "g1 = g \<or> g1 = ?gb" by (auto simp: EXECUTE_MANUAL_MERGE_def Let_def try_bind_Inr_iff split: if_splits)
    with False ok bump same_lineage_history [OF ok bump] show ?thesis by auto
  next
    case True
    define ge where "ge = set_node (MergeEventN me) (\<lambda>_. [(''metadata'', JStr ''{}'')])
      (manual_event now me ''manual_merge'' actor_id reason a s ?gb)"
    from exec True obtain gr where act: "CHECK_BOTH_PERSONS_ACTIVE ?gb a s" and run: "manual_rewire now a s me ge = Inr gr"
      and g1: "g1 = (let g = PATH_COMPRESS_MERGED_INTO a s me
                     (create_edge (merged_into now me actor_id a s) (MARK_PERSON_MERGED now a gr));
                   g = fold (mark_dirty now) (acquainted g [s]) g
               in set_node (PersonN s) (\<lambda>_. [(''updated_at'', JInt now)]) (mark_dirty now s g))"
      by (auto simp: EXECUTE_MANUAL_MERGE_def Let_def try_bind_Inr_iff ge_def [symmetric] split: if_splits)
    from act have active: "active_person g (PersonN a)" "active_person g (PersonN s)"
      by (simp_all add: CHECK_BOTH_PERSONS_ACTIVE_def active_person_def)
    then have nodes: "has_node g (PersonN a)" "has_node g (PersonN s)" using active_has_node by blast+
    let ?gm = "create_edge (merged_into now me actor_id a s) (MARK_PERSON_MERGED now a gr)"
    let ?gp = "PATH_COMPRESS_MERGED_INTO a s me ?gm"
    note keep = manual_rewire_keep [OF run]
    have ge_nodes: "has_node ge n \<longleftrightarrow> n = MergeEventN me \<or> has_node g n" for n by (simp add: ge_def manual_event_keep)
    have gr_nodes: "has_node gr n = has_node ge n" "node_prop gr n k = node_prop ge n k" for n k
      by (simp_all add: has_node_def node_prop_def keep(1))
    have ge_status: "node_prop ge (PersonN p) ''status'' = node_prop g (PersonN p) ''status''" for p
      by (simp add: ge_def node_prop_set_node_other manual_event_keep(2))
    have ge_typed: "typed_edges ge t = typed_edges g t" if "t \<in> {MERGED_INTO, MOVED_MERGE_LINEAGE}" for t
      using that by (auto simp: ge_def manual_event_keep(3))
    have gm_typed: "typed_edges ?gm MERGED_INTO = typed_edges g MERGED_INTO @ [merged_into now me actor_id a s]"
      "typed_edges ?gm MOVED_MERGE_LINEAGE = typed_edges g MOVED_MERGE_LINEAGE"
      using keep(2) [of MERGED_INTO] keep(2) [of MOVED_MERGE_LINEAGE] ge_typed
      by (simp_all add: OWNED_def MARK_PERSON_MERGED_def merged_into_def typed_edges_def)
    have able: "rewirable ?gm a s me" using nodes by (simp add: rewirable_def MARK_PERSON_MERGED_def gr_nodes ge_nodes)
    note parts = lineage_parts_append [OF gm_typed(1), of a]
    note comp = compress_effect [OF able]
    have dst: "e_dst (merged_into now me actor_id a s) \<noteq> PersonN a" using \<open>a \<noteq> s\<close> by (simp add: merged_into_def)
    have gp_nodes: "has_node ?gp n = has_node ?gm n" "node_prop ?gp n k = node_prop ?gm n k" for n k
      by (simp_all add: has_node_def node_prop_def comp(1))
    have g1_nodes: "has_node g1 n \<longleftrightarrow> n = MergeEventN me \<or> has_node g n" for n
      by (simp add: g1 Let_def gp_nodes) (simp add: MARK_PERSON_MERGED_def gr_nodes ge_nodes)
    have g1_status: "node_prop g1 (PersonN p) ''status'' = (if p = a then JStr ''merged'' else node_prop g (PersonN p) ''status'')" for p
      using nodes
      by (simp add: g1 Let_def node_prop_set_node_other gp_nodes)
         (simp add: MARK_PERSON_MERGED_def node_prop_set_node gr_nodes ge_nodes ge_status node_prop_node_props [symmetric])
    have g1_typed: "typed_edges g1 t = typed_edges ?gp t" for t by (simp add: g1 Let_def)
    have mi: "mset (typed_edges g1 MERGED_INTO) = mset (lineage_rest a g @ [merged_into now me actor_id a s]
          @ map (\<lambda>e. e\<lparr>e_dst := PersonN s\<rparr>) (lineage_into a g))"
      unfolding g1_typed comp(3) parts(1) [OF dst] parts(2) [OF dst] by simp
    have "lineage_total g1"
      by (rule lineage_total_merge [OF total mi _ g1_status]) (simp add: merged_into_def)
    moreover have "lineage_ok g1"
    proof (rule lineage_ok_merge [OF lin typed active \<open>a \<noteq> s\<close> fresh mi])
      show "typed_edges g1 MOVED_MERGE_LINEAGE = typed_edges g MOVED_MERGE_LINEAGE @ map (moved_lineage me a s) (lineage_into a g)"
        unfolding g1_typed comp(4) gm_typed(2) parts(2) [OF dst] ..
    qed (use g1_nodes g1_status in \<open>auto simp: merged_into_def edge_prop_def json_get_def\<close>)
    moreover have "well_typed g1"
    proof -
      have "well_typed ge" using bump(2) by (simp add: ge_def manual_event_def)
      then have gr: "well_typed gr" by (rule keep(3))
      then have gm: "well_typed ?gm" by (simp add: MARK_PERSON_MERGED_def merged_into_def)
      have "schema (e_type e) (e_src e, e_dst e)" if "e \<in> set (g_edges ?gp)" for e
        using that gm able by (auto simp: PATH_COMPRESS_MERGED_INTO_def well_typed_edges moved_lineage_def split: if_splits)
      then have "well_typed ?gp" by (simp add: well_typed_edges)
      then show ?thesis by (simp add: g1 Let_def)
    qed
    ultimately show ?thesis using True g1_nodes g1_status by (simp add: history_ok_def)
  qed
  then show "history_ok g1" and "has_node g n \<Longrightarrow> has_node g1 n"
    and "node_prop g1 (PersonN p) ''status'' = (if merged \<and> p = a then JStr ''merged'' else node_prop g (PersonN p) ''status'')"
    by blast+
qed

lemma manual_merge_lineage:
  assumes tx: "manual_merge_tx valid_iso uuid isof now me a s reason actor_id (g, st) = Inr (out, g', st')"
    and ok: "history_ok g" and "a \<noteq> s" and fresh: "\<not> has_node g (MergeEventN me)"
  shows "history_ok g'"
proof -
  obtain left right where pair: "ordered_pair a s = (left, right)" by fastforce
  from tx consider "g' = g" | ge merged where "EXECUTE_MANUAL_MERGE now me a s left right reason actor_id g = Inr (ge, merged)"
      "g' = ge \<or> g' = settle_review_cases now a s me (recompute_person_crm_deal_counts now [a, s] ge)"
    by (auto simp: manual_merge_tx_def pair try_bind_Inr_iff Let_def side_effects_settle [symmetric]
        split: if_splits prod.splits)
  then show ?thesis
  proof cases
    case 2
    note ge = execute_lineage(1) [OF 2(1) ok \<open>a \<noteq> s\<close> fresh]
    let ?gs = "settle_review_cases now a s me (recompute_person_crm_deal_counts now [a, s] ge)"
    have "same_lineage ge ?gs"
      by (simp add: same_lineage_def settle_keep counters_typed counters_keep)
    moreover have "well_typed ?gs" using ge well_typed_settle well_typed_counters by (simp add: history_ok_def)
    ultimately have "history_ok ?gs" by (rule same_lineage_history [OF ge])
    with ge 2(2) show ?thesis by auto
  qed (use ok in simp)
qed

section \<open>Unmerges\<close>

lemma dropped_edges_type:
  assumes "x \<in> set (dropped_edges g a same (revert_rows t rtype inc target keys s me g))"
  shows "e_type x = t"
  using assms by (auto simp: dropped_edges_def revert_rows_def optional_def survivor_edge_def held_def split: option.splits if_splits)

lemma drop_edges_keep:
  "g_nodes (drop_edges xs g) = g_nodes g"
  "(\<And>x. x \<in> set xs \<Longrightarrow> e_type x \<noteq> u) \<Longrightarrow> typed_edges (drop_edges xs g) u = typed_edges g u"
  "well_typed g \<Longrightarrow> well_typed (drop_edges xs g)"
proof -
  assume "\<And>x. x \<in> set xs \<Longrightarrow> e_type x \<noteq> u"
  then have "x \<notin> set xs" if "e_type x = u" for x using that by blast
  then show "typed_edges (drop_edges xs g) u = typed_edges g u"
    by (auto simp: drop_edges_def typed_edges_def intro!: filter_cong)
qed (auto simp: drop_edges_def intro!: well_typed_sub)

lemma revert_create_keep:
  "g_nodes (revert_create t rtype inc target keys stamps a s me g) = g_nodes g"
  "u \<noteq> t \<Longrightarrow> typed_edges (revert_create t rtype inc target keys stamps a s me g) u = typed_edges g u"
  "\<lbrakk>well_typed g; \<And>n. target n \<Longrightarrow> (t = KNOWS \<longrightarrow> n \<noteq> PersonN a) \<Longrightarrow> schema t (if inc then (n, PersonN a) else (PersonN a, n))\<rbrakk>
     \<Longrightarrow> well_typed (revert_create t rtype inc target keys stamps a s me g)"
proof -
  let ?rows = "revert_rows t rtype inc target keys s me g"
  let ?new = "[edge_at t inc (PersonN a) (e_dst m) (restored_props stamps m).
      (m, x) \<leftarrow> ?rows, restorable g a m \<and> (t = KNOWS \<longrightarrow> e_dst m \<noteq> PersonN a)]"
  have run: "revert_create t rtype inc target keys stamps a s me g
      = drop_edges (dropped_edges g a (\<lambda>m x. True) ?rows) (g\<lparr>g_edges := g_edges g @ ?new\<rparr>)"
    by (simp add: revert_create_def Let_def)
  show "g_nodes (revert_create t rtype inc target keys stamps a s me g) = g_nodes g"
    by (simp add: run drop_edges_keep(1))
  have type_new: "e_type e = t" if "e \<in> set ?new" for e using that by (auto split: if_splits)
  show "typed_edges (revert_create t rtype inc target keys stamps a s me g) u = typed_edges g u" if "u \<noteq> t"
  proof -
    have "[e \<leftarrow> ?new. e_type e = u] = []" unfolding filter_empty_conv using type_new that by blast
    then have "typed_edges (g\<lparr>g_edges := g_edges g @ ?new\<rparr>) u = typed_edges g u"
      unfolding typed_edges_append by (simp only: typed_edges_def append_Nil2)
    moreover have "typed_edges (drop_edges (dropped_edges g a (\<lambda>m x. True) ?rows) h) u = typed_edges h u" for h
      by (rule drop_edges_keep(2)) (use dropped_edges_type \<open>u \<noteq> t\<close> in blast)
    ultimately show ?thesis unfolding run by (simp only:)
  qed
  assume typed: "well_typed g" and target: "\<And>n. target n \<Longrightarrow> (t = KNOWS \<longrightarrow> n \<noteq> PersonN a) \<Longrightarrow> schema t (if inc then (n, PersonN a) else (PersonN a, n))"
  have "schema (e_type e) (e_src e, e_dst e)" if e: "e \<in> set ?new" for e
  proof -
    from e obtain m x where m: "(m, x) \<in> set ?rows" "t = KNOWS \<longrightarrow> e_dst m \<noteq> PersonN a"
      "e = edge_at t inc (PersonN a) (e_dst m) (restored_props stamps m)" by (auto split: if_splits)
    from m(1) have "target (e_dst m)" by (auto simp: revert_rows_def move_of_def split: if_splits)
    with target [of "e_dst m"] m show ?thesis by (auto simp: edge_at_def)
  qed
  then show "well_typed (revert_create t rtype inc target keys stamps a s me g)"
    unfolding run using typed by (intro drop_edges_keep(3)) (simp add: well_typed_append)
qed

lemma merge_edge_keep:
  assumes "merge_edge t p n kvs oc om g = Inr g'"
  shows "g_nodes g' = g_nodes g" "u \<noteq> t \<Longrightarrow> typed_edges g' u = typed_edges g u"
    "well_typed g \<Longrightarrow> schema t (p, n) \<Longrightarrow> well_typed g'"
proof -
  show "g_nodes g' = g_nodes g" using merge_edge_run [OF assms] by blast
  show "u \<noteq> t \<Longrightarrow> typed_edges g' u = typed_edges g u" using typed_edges_merge_edge [OF assms] by simp
  have "links g' v = (if v = t then insert (p, n) (links g v) else links g v)" for v
    using merge_edge_run [OF assms] by blast
  then show "well_typed g \<Longrightarrow> schema t (p, n) \<Longrightarrow> well_typed g'" by (simp add: well_typed_iff)
qed

lemma revert_merge_keep:
  assumes run: "revert_merge t rtype target keys same a s me g = Inr g'"
  shows "g_nodes g' = g_nodes g" "u \<noteq> t \<Longrightarrow> typed_edges g' u = typed_edges g u"
    "\<lbrakk>well_typed g; \<And>n. target n \<Longrightarrow> schema t (PersonN a, n)\<rbrakk> \<Longrightarrow> well_typed g'"
proof -
  let ?rows = "revert_rows t rtype False target keys s me g"
  let ?step = "\<lambda>(m, x) k. if restorable g a m
      then merge_edge t (PersonN a) (e_dst m) (key_of keys m) (\<lambda>_. restored_props [] m) (\<lambda>_. restored_props [] m) k
      else ok k"
  from run obtain h where h: "fold_result ?step ?rows g = Inr h" and g': "g' = drop_edges (dropped_edges g a same ?rows) h"
    by (auto simp: revert_merge_def Let_def try_bind_Inr_iff)
  have "g_nodes h = g_nodes g \<and> (\<forall>u. u \<noteq> t \<longrightarrow> typed_edges h u = typed_edges g u)
      \<and> (well_typed g \<longrightarrow> (\<forall>n. target n \<longrightarrow> schema t (PersonN a, n)) \<longrightarrow> well_typed h)"
  proof (rule fold_result_invariant [OF _ h])
    fix row k k'
    assume row: "row \<in> set ?rows" and inv: "g_nodes k = g_nodes g \<and> (\<forall>u. u \<noteq> t \<longrightarrow> typed_edges k u = typed_edges g u)
      \<and> (well_typed g \<longrightarrow> (\<forall>n. target n \<longrightarrow> schema t (PersonN a, n)) \<longrightarrow> well_typed k)" and step: "?step row k = Inr k'"
    obtain m x where mx: "row = (m, x)" by fastforce
    with row have "target (e_dst m)" by (auto simp: revert_rows_def move_of_def split: if_splits)
    with step inv mx show "g_nodes k' = g_nodes g \<and> (\<forall>u. u \<noteq> t \<longrightarrow> typed_edges k' u = typed_edges g u)
      \<and> (well_typed g \<longrightarrow> (\<forall>n. target n \<longrightarrow> schema t (PersonN a, n)) \<longrightarrow> well_typed k')"
      using merge_edge_keep [of t "PersonN a" "e_dst m" "key_of keys m" _ _ k k'] by (auto split: if_splits)
  qed simp
  then show "g_nodes g' = g_nodes g" "u \<noteq> t \<Longrightarrow> typed_edges g' u = typed_edges g u"
    "\<lbrakk>well_typed g; \<And>n. target n \<Longrightarrow> schema t (PersonN a, n)\<rbrakk> \<Longrightarrow> well_typed g'"
    unfolding g' using dropped_edges_type drop_edges_keep by (metis, metis, metis)
qed

lemma revert_relationships_keep:
  assumes "revert_relationships now a s me g = Inr g'"
  shows "g_nodes g' = g_nodes g" "u \<notin> insert KNOWS OWNED \<Longrightarrow> typed_edges g' u = typed_edges g u" "well_typed g \<Longrightarrow> well_typed g'"
proof -
  let ?g1 = "revert_create LINKED_TO ''LINKED_TO'' True is_source_record [] [] a s me g"
  from assms obtain g2 g3 g7 g8 where
    r2: "revert_merge IDENTIFIED_BY ''IDENTIFIED_BY'' is_identifier RECORD_KEYS (\<lambda>m x. True) a s me ?g1 = Inr g2" and
    r3: "revert_merge LIVES_AT ''LIVES_AT'' is_address RECORD_KEYS (\<lambda>m x. True) a s me g2 = Inr g3" and
    r7: "revert_merge PURCHASED ''PURCHASED'' is_order ORDER_KEYS same_record a s me
      (revert_create KNOWS ''KNOWS_IN'' True is_person [''source_record_pk''] [(''updated_at'', JInt now)] a s me
        (revert_create KNOWS ''KNOWS_OUT'' False is_person [''source_record_pk'']
          [(''declared_by_person_id'', JStr a), (''updated_at'', JInt now)] a s me
          (revert_create HAS_FACT ''HAS_FACT'' False is_source_record [''attribute_name''] [] a s me g3))) = Inr g7" and
    r8: "revert_merge BOUGHT_VEHICLE ''BOUGHT_VEHICLE'' is_vehicle ORDER_KEYS same_record a s me g7 = Inr g8" and
    r9: "revert_merge OWNS_VEHICLE ''OWNS_VEHICLE'' is_vehicle RECORD_KEYS same_record a s me g8 = Inr g'"
    by (auto simp: revert_relationships_def Let_def try_bind_Inr_iff)
  note keep = revert_merge_keep [OF r2] revert_merge_keep [OF r3] revert_merge_keep [OF r7]
    revert_merge_keep [OF r8] revert_merge_keep [OF r9]
  show "g_nodes g' = g_nodes g" by (simp add: keep(1,4,7,10,13) revert_create_keep(1))
  show "typed_edges g' u = typed_edges g u" if "u \<notin> insert KNOWS OWNED"
    using that by (simp add: OWNED_def keep(2,5,8,11,14) revert_create_keep(2))
  assume "well_typed g"
  then have "well_typed ?g1" by (intro revert_create_keep(3)) auto
  then have "well_typed g2" by (rule keep(3)) auto
  then have g3: "well_typed g3" by (rule keep(6)) auto
  have "well_typed g7"
  proof (rule keep(9))
    show "schema PURCHASED (PersonN a, n)" if "is_order n" for n using that by simp
  qed (intro revert_create_keep(3) g3; auto)
  then have "well_typed g8" by (rule keep(12)) auto
  then show "well_typed g'" by (rule keep(15)) auto
qed

lemma map_first_concat:
  assumes "\<And>m. m \<in> set ms \<Longrightarrow> length (f m) \<le> 1"
  shows "map (h \<circ> fst) (concat (map (\<lambda>m. map (Pair m) (f m)) ms)) = map h [m \<leftarrow> ms. f m \<noteq> []]"
  using assms
proof (induction ms)
  case (Cons m ms)
  then have "length (f m) \<le> 1" by simp
  then consider "f m = []" | y where "f m = [y]" by (cases "f m") auto
  then show ?case using Cons by cases simp_all
qed simp

lemma concat_if2:
  "concat (map (\<lambda>m. if A m then if C m then map (Pair m) (f m) else [] else []) xs)
     = concat (map (\<lambda>m. map (Pair m) (f m)) [m \<leftarrow> xs. A m \<and> C m])"
  by (induction xs) simp_all

lemma distinct_length_one: "distinct (map f xs) \<Longrightarrow> (\<And>x. P x \<Longrightarrow> f x = c) \<Longrightarrow> length (filter P xs) \<le> 1"
proof (induction xs)
  case (Cons x xs)
  show ?case
  proof (cases "P x")
    case True
    with Cons.prems have "\<not> P y" if "y \<in> set xs" for y using that by (metis distinct.simps(2) image_eqI list.simps(9) set_map)
    then have "filter P xs = []" by (simp add: filter_empty_conv)
    with True show ?thesis by simp
  qed (use Cons in simp)
qed simp

lemma revert_lineage_ok:
  assumes ok: "history_ok g" and mi: "mi \<in> set (typed_edges g MERGED_INTO)" "e_src mi = PersonN a"
    and r_def: "r = revert_lineage a current me g"
  shows "g_nodes r = g_nodes g" "u \<noteq> MERGED_INTO \<Longrightarrow> typed_edges r u = typed_edges g u" "well_typed r"
    and "distinct (map e_src (typed_edges r MERGED_INTO))"
    and "e \<in> set (typed_edges r MERGED_INTO) \<Longrightarrow> e \<noteq> mi \<Longrightarrow>
      e_src e \<noteq> PersonN a \<and> node_prop g (e_src e) ''status'' = JStr ''merged''
      \<and> (e_dst e = PersonN a \<or> active_person g (e_dst e)) \<and> edge_prop e ''merge_event_id'' \<noteq> JNull"
    and "mi \<in> set (typed_edges r MERGED_INTO)" "e_src ` set (typed_edges r MERGED_INTO) = e_src ` set (typed_edges g MERGED_INTO)"
proof -
  let ?L = "typed_edges g MERGED_INTO" and ?G = "typed_edges g MOVED_MERGE_LINEAGE"
  have lin: "lineage_ok g" and typed: "well_typed g" using ok by (auto simp: history_ok_def)
  define A where "A m = (e_type m = MOVED_MERGE_LINEAGE \<and> e_src m = MergeEventN me \<and> is_person (e_dst m))" for m :: edge
  define C where "C m = (edge_prop m ''prior_survivor_person_id'' = JStr a \<and> node_prop g (e_dst m) ''status'' = JStr ''merged'')" for m :: edge
  define ms where "ms = [m \<leftarrow> g_edges g. A m \<and> C m]"
  define rows where "rows = concat (map (\<lambda>m. map (Pair m) (compressed g current m)) ms)"
  define new :: "edge \<times> edge \<Rightarrow> edge" where "new = (\<lambda>(m, x). \<lparr>e_type = MERGED_INTO, e_src = e_dst m, e_dst = PersonN a,
      e_props = json_sets [(''prior_survivor_person_id'', JNull), (''compressed_survivor_person_id'', JNull)] (e_props m)\<rparr>)"
  have r: "r = g\<lparr>g_edges := [e \<leftarrow> g_edges g. e \<notin> set (map snd rows)] @ map new rows\<rparr>"
    unfolding r_def revert_lineage_def concat_if2 [where A = "\<lambda>m. e_type m = MOVED_MERGE_LINEAGE \<and> e_src m = MergeEventN me \<and> is_person (e_dst m)"]
      rows_def ms_def A_def C_def new_def Let_def by simp
  have dist: "distinct (map e_src ?L)" using lin by (simp add: lineage_ok_def)
  have row: "m \<in> set ?G" "e_src m = MergeEventN me" "is_person (e_dst m)" "edge_prop m ''prior_survivor_person_id'' = JStr a"
      "node_prop g (e_dst m) ''status'' = JStr ''merged''" "x \<in> set ?L" "e_src x = e_dst m"
      "edge_prop m ''merge_event_id'' \<noteq> JNull" "e_dst m \<noteq> PersonN a"
    if "(m, x) \<in> set rows" for m x
  proof -
    show m: "m \<in> set ?G" "e_src m = MergeEventN me" "is_person (e_dst m)" "edge_prop m ''prior_survivor_person_id'' = JStr a"
      "node_prop g (e_dst m) ''status'' = JStr ''merged''" "x \<in> set ?L" "e_src x = e_dst m" "edge_prop m ''merge_event_id'' \<noteq> JNull"
      using that by (auto simp: rows_def ms_def A_def C_def typed_edges_def compressed_def edge_between_def)
    have "e_dst m \<notin> PersonN ` set (pks_of (edge_prop m ''prior_survivor_person_id''))"
      using lin m(1) by (auto simp: lineage_ok_def list_all_iff)
    with m(4) show "e_dst m \<noteq> PersonN a" by simp
  qed
  have new_simps: "e_type (new y) = MERGED_INTO" "e_src (new y) = e_dst (fst y)" "e_dst (new y) = PersonN a"
      "edge_prop (new y) ''merge_event_id'' = edge_prop (fst y) ''merge_event_id''" for y
    by (simp_all add: new_def edge_prop_def split: prod.splits)
  show "g_nodes r = g_nodes g" by (simp add: r)
  have tr: "typed_edges r u = [e \<leftarrow> typed_edges g u. e \<notin> set (map snd rows)] @ (if u = MERGED_INTO then map new rows else [])" for u
  proof -
    have "[e \<leftarrow> [e \<leftarrow> g_edges g. e \<notin> set (map snd rows)]. e_type e = u] = [e \<leftarrow> typed_edges g u. e \<notin> set (map snd rows)]"
      by (simp only: typed_edges_def filter_filter conj_commute)
    moreover have "[e \<leftarrow> map new rows. e_type e = u] = (if u = MERGED_INTO then map new rows else [])"
      by (auto simp: new_simps filter_empty_conv)
    ultimately show ?thesis unfolding r typed_edges_append by simp
  qed
  show "typed_edges r u = typed_edges g u" if "u \<noteq> MERGED_INTO"
  proof -
    have "e \<notin> set (map snd rows)" if e: "e \<in> set (typed_edges g u)" for e
    proof
      assume "e \<in> set (map snd rows)"
      then obtain m where "(m, e) \<in> set rows" by auto
      from typed_edges_type [OF row(6) [OF this]] typed_edges_type [OF e] \<open>u \<noteq> MERGED_INTO\<close> show False by simp
    qed
    with that show ?thesis by (simp add: tr filter_id_conv del: set_map)
  qed
  show "well_typed r"
    unfolding r well_typed_append
    by (intro conjI well_typed_sub typed) (use row(3) in \<open>auto simp: new_simps\<close>)
  have one: "length (compressed g current m) \<le> 1" for m
  proof -
    have "compressed g current m = [x \<leftarrow> ?L. e_src x = e_dst m \<and> e_dst x = PersonN current
        \<and> edge_prop m ''merge_event_id'' \<noteq> JNull \<and> edge_prop x ''merge_event_id'' = edge_prop m ''merge_event_id'']"
      by (simp add: compressed_def edge_between_def typed_edges_def conj_commute conj_left_commute)
    then show ?thesis by (simp only:) (rule distinct_length_one [OF dist, of _ "e_dst m"], blast)
  qed
  have dist_new: "distinct (map e_src (map new rows))"
  proof -
    have "map e_src (map new rows) = map (e_dst \<circ> fst) rows" by (simp add: new_simps comp_def)
    also have "\<dots> = map e_dst [m \<leftarrow> ms. compressed g current m \<noteq> []]"
      unfolding rows_def by (rule map_first_concat) (rule one)
    finally have eq: "map e_src (map new rows) = map e_dst [m \<leftarrow> ms. compressed g current m \<noteq> []]" .
    have "ms = [m \<leftarrow> ?G. e_src m = MergeEventN me \<and> is_person (e_dst m) \<and> C m]"
      by (simp add: ms_def A_def typed_edges_def conj_commute conj_left_commute)
    moreover have "distinct (map (\<lambda>m. (e_src m, e_dst m)) ?G)" using lin by (simp add: lineage_ok_def)
    ultimately have "distinct (map e_dst ms)" by (auto simp: distinct_map inj_on_def)
    then show ?thesis unfolding eq by (simp add: distinct_map_filter)
  qed
  have apart: "e_src e \<noteq> e_src (new y)" if "e \<in> set ?L" "e \<notin> set (map snd rows)" "y \<in> set rows" for e y
  proof
    assume eq: "e_src e = e_src (new y)"
    obtain m x where y: "y = (m, x)" by fastforce
    with that(3) eq have "x \<in> set ?L" "e_src x = e_src e" using row(6,7) by (auto simp: new_simps)
    with dist that(1) have "x = e" by (auto simp: distinct_map inj_on_def)
    with that(2,3) y show False by force
  qed
  show "distinct (map e_src (typed_edges r MERGED_INTO))"
    unfolding tr using dist dist_new apart by (auto simp: distinct_map_filter)
  show "mi \<in> set (typed_edges r MERGED_INTO)"
  proof -
    have "mi \<notin> set (map snd rows)"
    proof
      assume "mi \<in> set (map snd rows)"
      then obtain m where "(m, mi) \<in> set rows" by auto
      with row(7,9) mi(2) show False by auto
    qed
    with mi(1) show ?thesis by (simp add: tr)
  qed
  show "e_src ` set (typed_edges r MERGED_INTO) = e_src ` set ?L"
  proof (intro equalityI subsetI)
    fix n assume "n \<in> e_src ` set (typed_edges r MERGED_INTO)"
    then consider e where "e \<in> set ?L" "n = e_src e" | m x where "(m, x) \<in> set rows" "n = e_src (new (m, x))"
      unfolding tr by (auto split: prod.splits)
    then show "n \<in> e_src ` set ?L"
    proof cases
      case (2 m x)
      then have "x \<in> set ?L" "n = e_src x" using row(6,7) by (simp_all add: new_simps)
      then show ?thesis by blast
    qed blast
  next
    fix n assume "n \<in> e_src ` set ?L"
    then obtain e where e: "e \<in> set ?L" "n = e_src e" by blast
    show "n \<in> e_src ` set (typed_edges r MERGED_INTO)"
    proof (cases "e \<in> set (map snd rows)")
      case True
      then obtain m where m: "(m, e) \<in> set rows" by auto
      then have "n = e_src (new (m, e))" using e(2) row(7) by (simp add: new_simps)
      with m show ?thesis unfolding tr by force
    qed (use e in \<open>auto simp: tr\<close>)
  qed
  show "e_src e \<noteq> PersonN a \<and> node_prop g (e_src e) ''status'' = JStr ''merged''
      \<and> (e_dst e = PersonN a \<or> active_person g (e_dst e)) \<and> edge_prop e ''merge_event_id'' \<noteq> JNull"
    if e: "e \<in> set (typed_edges r MERGED_INTO)" "e \<noteq> mi"
  proof -
    from e(1) consider "e \<in> set ?L" | y where "y \<in> set rows" "e = new y" unfolding tr by auto
    then show ?thesis
    proof cases
      case 1
      have "e_src e \<noteq> PersonN a" using 1 mi e(2) dist by (metis distinct_map inj_onD)
      with 1 lin show ?thesis by (auto simp: lineage_ok_def list_all_iff)
    next
      case 2
      then show ?thesis using row(5,8,9) [of "fst y" "snd y"] by (simp add: new_simps)
    qed
  qed
qed

lemma REVERT_MERGE_lineage:
  assumes run: "REVERT_MERGE now a me g = Inr (g', found)" and ok: "history_ok g"
  shows "history_ok g'" and "has_node g n \<Longrightarrow> has_node g' n"
    and "node_prop g' n ''status'' = (if found \<noteq> None \<and> n = PersonN a then JStr ''active'' else node_prop g n ''status'')"
proof -
  have lin: "lineage_ok g" and typed: "well_typed g" and total: "lineage_total g" using ok by (auto simp: history_ok_def)
  have "history_ok g' \<and> (has_node g n \<longrightarrow> has_node g' n)
    \<and> node_prop g' n ''status'' = (if found \<noteq> None \<and> n = PersonN a then JStr ''active'' else node_prop g n ''status'')" for n
  proof (cases "unmerge_rows g a me")
    case Nil
    with run ok show ?thesis by (simp add: REVERT_MERGE_def)
  next
    case (Cons hd_row rest)
    obtain mi current where hd: "hd_row = (mi, current)" by fastforce
    define r where "r = revert_lineage a current me g"
    from run Cons hd obtain r9 where run9: "revert_relationships now a current me r = Inr r9"
      and g': "g' = reactivate now a current mi r9" and found: "found = Some current"
      by (auto simp: REVERT_MERGE_def try_bind_Inr_iff r_def)
    have "(mi, current) \<in> set (unmerge_rows g a me)" using Cons hd by simp
    then have mi: "mi \<in> set (typed_edges g MERGED_INTO)" "e_src mi = PersonN a"
      by (auto simp: unmerge_rows_def typed_edges_def split: if_splits)
    note rl = revert_lineage_ok [OF ok mi r_def]
    note keep = revert_relationships_keep [OF run9]
    have "node_prop g (PersonN a) ''status'' = JStr ''merged''" using lin mi by (auto simp: lineage_ok_def list_all_iff)
    then have "has_node g (PersonN a)" by (rule status_has_node)
    then have a9: "has_node r9 (PersonN a)" by (simp add: has_node_def keep(1) rl(1))
    have nodes: "has_node g' n = has_node g n" for n
      by (simp add: g' reactivate_def Let_def) (simp add: drop_edges_def has_node_def keep(1) rl(1))
    have status: "node_prop g' n ''status'' = (if n = PersonN a then JStr ''active'' else node_prop g n ''status'')" for n
      by (simp add: g' reactivate_keep(2) [OF a9]) (simp add: node_prop_def keep(1) rl(1))
    have t9: "typed_edges r9 MERGED_INTO = typed_edges r MERGED_INTO" "typed_edges r9 MOVED_MERGE_LINEAGE = typed_edges r MOVED_MERGE_LINEAGE"
      using keep(2) by (simp_all add: OWNED_def)
    have t': "typed_edges g' MERGED_INTO = [x \<leftarrow> typed_edges r MERGED_INTO. x \<noteq> mi]" by (simp add: g' reactivate_keep(1) t9)
    have log: "typed_edges g' MOVED_MERGE_LINEAGE = typed_edges g MOVED_MERGE_LINEAGE"
    proof -
      have "x \<noteq> mi" if "x \<in> set (typed_edges g MOVED_MERGE_LINEAGE)" for x
        using typed_edges_type [OF that] typed_edges_type [OF mi(1)] by auto
      then show ?thesis by (simp add: g' reactivate_keep(1) t9 rl(2) filter_id_conv)
    qed
    have "lineage_ok g'"
      unfolding lineage_ok_def list_all_iff
    proof (intro conjI ballI)
      show "distinct (map e_src (typed_edges g' MERGED_INTO))" using rl(4) by (simp add: t' distinct_map_filter)
      show "distinct (map (\<lambda>m. (e_src m, e_dst m)) (typed_edges g' MOVED_MERGE_LINEAGE))" using lin by (simp add: log lineage_ok_def)
      fix m assume "m \<in> set (typed_edges g' MOVED_MERGE_LINEAGE)"
      then show "has_node g' (e_src m)" "e_dst m \<notin> PersonN ` set (pks_of (edge_prop m ''prior_survivor_person_id''))"
        using lin by (auto simp: log nodes lineage_ok_def list_all_iff)
    next
      fix e assume "e \<in> set (typed_edges g' MERGED_INTO)"
      then have "e \<in> set (typed_edges r MERGED_INTO)" "e \<noteq> mi" by (auto simp: t')
      from rl(5) [OF this]
      show "node_prop g' (e_src e) ''status'' = JStr ''merged''" "active_person g' (e_dst e)" "edge_prop e ''merge_event_id'' \<noteq> JNull"
        by (auto simp: status active_person_def)
    qed
    moreover have "lineage_total g'"
      unfolding lineage_total_def
    proof (intro allI impI)
      fix p assume merged: "node_prop g' (PersonN p) ''status'' = JStr ''merged''"
      then have "p \<noteq> a" "node_prop g (PersonN p) ''status'' = JStr ''merged''" by (auto simp: status split: if_splits)
      then have "PersonN p \<in> e_src ` set (typed_edges r MERGED_INTO)" unfolding rl(7) using total by (simp add: lineage_total_def)
      then show "PersonN p \<in> e_src ` set (typed_edges g' MERGED_INTO)" using \<open>p \<noteq> a\<close> mi(2) by (auto simp: t')
    qed
    moreover have "well_typed g'"
      using keep(3) [OF rl(3)] drop_edges_keep(3) by (simp add: g' reactivate_def Let_def)
    ultimately show ?thesis using nodes status found by (simp add: history_ok_def)
  qed
  then show "history_ok g'" and "has_node g n \<Longrightarrow> has_node g' n"
    and "node_prop g' n ''status'' = (if found \<noteq> None \<and> n = PersonN a then JStr ''active'' else node_prop g n ''status'')"
    by blast+
qed


section \<open>Unmerges\<close>

lemma revert_redirect_nodes: "has_node (revert_redirect rows kvs g) n = has_node g n"
  by (simp add: revert_redirect_def set_nodes_keep(1)) (simp add: has_node_def)

lemma revert_side_effects_lineage:
  assumes "revert_merge_review_side_effects now me g = (g', ids)"
  shows "same_lineage g g'" and "well_typed g \<Longrightarrow> well_typed g'"
proof -
  have g': "g' = REVERT_PERSON_PAIR_CASE_CLOSURES now me (fst (REVERT_PERSON_PAIR_REDIRECTS_RIGHT now me
      (fst (REVERT_PERSON_PAIR_REDIRECTS_LEFT now me (REVERT_RECORD_PERSON_CASE_REDIRECTS now me g)))))"
    using assms by (auto simp: revert_merge_review_side_effects_def Let_def split: prod.splits)
  note defs = REVERT_PERSON_PAIR_CASE_CLOSURES_def REVERT_PERSON_PAIR_REDIRECTS_RIGHT_def
    REVERT_PERSON_PAIR_REDIRECTS_LEFT_def REVERT_RECORD_PERSON_CASE_REDIRECTS_def REVERT_PERSON_PAIR_REDIRECTS_def
  show "same_lineage g g'"
    using revert_side_effects_keep [OF assms]
    by (simp add: same_lineage_def) (simp add: g' defs Let_def set_nodes_keep(1) revert_redirect_nodes)
  have redirects: "well_typed h \<Longrightarrow> well_typed (revert_redirect (redirected_rows side stamps from_key k) kvs h)"
    if "side \<in> {ABOUT_LEFT, ABOUT_RIGHT}" for side stamps from_key k kvs h
    by (rule well_typed_redirects(2) [OF _ redirected_rows_types [OF that]])
  show "well_typed g \<Longrightarrow> well_typed g'"
    unfolding g' defs Let_def fst_conv well_typed_nodes by (intro redirects) auto
qed

lemma audit_lineage:
  assumes audit: "CREATE_UNMERGE_AUDIT now ume a s reason metadata actor_id g = (g', audited)"
    and fresh: "\<not> has_node g (MergeEventN ume)"
  shows "same_lineage g g'" and "well_typed g \<Longrightarrow> well_typed g'"
proof -
  show "same_lineage g g'"
  proof (cases "has_node g (PersonN a) \<and> has_node g (PersonN s)")
    case True
    have other: "n \<noteq> MergeEventN ume" if "has_node g n" for n using that fresh by auto
    from True audit have g': "g' = set_node (MergeEventN ume) (\<lambda>_. [(''metadata'', JStr metadata)])
        (manual_event now ume ''unmerge'' actor_id reason a s g)" by (simp add: CREATE_UNMERGE_AUDIT_def)
    have "node_prop g' n ''status'' = node_prop g n ''status''" if "has_node g n" for n
      using other [OF that] by (simp add: g' node_prop_set_node_other manual_event_keep(2))
    moreover have "node_prop g' (PersonN p) k = node_prop g (PersonN p) k" for p k
      by (simp add: g' node_prop_set_node_other manual_event_keep(2))
    ultimately show ?thesis
      by (simp add: same_lineage_def audit_keep(1) [OF audit]) (simp add: g' manual_event_keep)
  next
    case False
    with audit show ?thesis by (auto simp: same_lineage_def CREATE_UNMERGE_AUDIT_def)
  qed
  show "well_typed g \<Longrightarrow> well_typed g'"
    using audit by (auto simp: CREATE_UNMERGE_AUDIT_def manual_event_def split: if_splits)
qed

lemma flag_lineage:
  "same_lineage g (FLAG_AFFECTED_RECORDS_FOR_REVIEW me g)" "well_typed (FLAG_AFFECTED_RECORDS_FOR_REVIEW me g) = well_typed g"
  by (simp_all add: same_lineage_def flag_keep) (simp_all add: FLAG_AFFECTED_RECORDS_FOR_REVIEW_def set_nodes_keep(1))

lemma counters_lineage: "same_lineage g (recompute_person_crm_deal_counts now ps g)"
  by (simp add: same_lineage_def counters_typed counters_keep)

lemma REVERT_MERGE_nodes:
  assumes run: "REVERT_MERGE now a me g = Inr (g', found)" and ok: "history_ok g"
  shows "has_node g' n = has_node g n"
proof (cases "unmerge_rows g a me")
  case Nil
  with run show ?thesis by (simp add: REVERT_MERGE_def)
next
  case (Cons hd_row rest)
  obtain mi current where hd: "hd_row = (mi, current)" by fastforce
  from run Cons hd obtain r9 where run9: "revert_relationships now a current me (revert_lineage a current me g) = Inr r9"
    and g': "g' = reactivate now a current mi r9"
    by (auto simp: REVERT_MERGE_def try_bind_Inr_iff)
  have "(mi, current) \<in> set (unmerge_rows g a me)" using Cons hd by simp
  then have mi: "mi \<in> set (typed_edges g MERGED_INTO)" "e_src mi = PersonN a"
    by (auto simp: unmerge_rows_def typed_edges_def split: if_splits)
  show ?thesis
    by (simp add: g' reactivate_def Let_def)
      (simp add: drop_edges_def has_node_def revert_relationships_keep(1) [OF run9] revert_lineage_ok(1) [OF ok mi refl])
qed

lemma unmerge_cases:
  assumes tx: "unmerge_tx valid_iso uuid isof now ume me reason actor_id (g, st) = Inr (out, g', st')"
  obtains (nothing) "g' = g" "st' = st"
    | (lost) a where "REVERT_MERGE now a me g = Inr (g', None)" "st' = st"
    | (reverted) a s gr current ga ids appended where "REVERT_MERGE now a me g = Inr (gr, Some current)"
        "CREATE_UNMERGE_AUDIT now ume a s reason (json_dumps (JObj [(''original_merge_event_id'', JStr me)])) actor_id
           (recompute_person_crm_deal_counts now [a, current] gr) = (ga, True)"
        "append_merge_affected_revisions valid_iso uuid (FLAG_AFFECTED_RECORDS_FOR_REVIEW me ga) me a None
           ''person_unmerge'' (''person-unmerge:'' @ ume) (isof now) st = Inr (appended, st')"
        "revert_merge_review_side_effects now me (FLAG_AFFECTED_RECORDS_FOR_REVIEW me ga) = (g', ids)"
proof (cases "GET_UNMERGE_TARGET g me")
  case None
  with tx have "g' = g" "st' = st" by (simp_all add: unmerge_tx_def)
  then show ?thesis by (rule nothing)
next
  case (Some target)
  obtain a s where target: "target = (a, s)" by fastforce
  from tx Some target obtain gr found where revert: "REVERT_MERGE now a me g = Inr (gr, found)"
    by (auto simp: unmerge_tx_def try_bind_Inr_iff)
  show ?thesis
  proof (cases found)
    case None
    with tx Some target revert have "g' = gr" "st' = st" by (simp_all add: unmerge_tx_def)
    with revert None lost show ?thesis by blast
  next
    case (Some current)
    let ?gc = "recompute_person_crm_deal_counts now [a, current] gr"
    obtain ga audited where audit: "CREATE_UNMERGE_AUDIT now ume a s reason
        (json_dumps (JObj [(''original_merge_event_id'', JStr me)])) actor_id ?gc = (ga, audited)" by fastforce
    obtain gl ids where rr: "revert_merge_review_side_effects now me (FLAG_AFFECTED_RECORDS_FOR_REVIEW me ga) = (gl, ids)"
      by fastforce
    from tx \<open>GET_UNMERGE_TARGET g me = Some target\<close> target revert Some audit rr obtain appended where
      "audited" "g' = gl" "append_merge_affected_revisions valid_iso uuid (FLAG_AFFECTED_RECORDS_FOR_REVIEW me ga) me a None
           ''person_unmerge'' (''person-unmerge:'' @ ume) (isof now) st = Inr (appended, st')"
      by (auto simp: unmerge_tx_def Let_def try_bind_Inr_iff simp del: json_dumps.simps split: if_splits)
    with reverted [of a gr current s ga appended ids] revert Some audit rr show ?thesis by simp
  qed
qed

lemma unmerge_lineage:
  assumes tx: "unmerge_tx valid_iso uuid isof now ume me reason actor_id (g, st) = Inr (out, g', st')"
    and ok: "history_ok g" and fresh: "\<not> has_node g (MergeEventN ume)"
  shows "history_ok g'"
  using tx
proof (cases rule: unmerge_cases)
  case nothing
  with ok show ?thesis by simp
next
  case (lost a)
  then show ?thesis using REVERT_MERGE_lineage(1) [OF _ ok] by blast
next
  case (reverted a s gr current ga ids appended)
  note gr = REVERT_MERGE_lineage(1) [OF reverted(1) ok]
  let ?gc = "recompute_person_crm_deal_counts now [a, current] gr"
  have gc: "history_ok ?gc"
    by (rule same_lineage_history [OF gr counters_lineage]) (use gr in \<open>simp add: well_typed_counters history_ok_def\<close>)
  have "\<not> has_node ?gc (MergeEventN ume)" using fresh by (simp add: counters_keep REVERT_MERGE_nodes [OF reverted(1) ok])
  note audit = audit_lineage [OF reverted(2) this]
  have ga: "history_ok ga"
    by (rule same_lineage_history [OF gc audit(1)]) (use gc audit(2) in \<open>simp add: history_ok_def\<close>)
  have "history_ok (FLAG_AFFECTED_RECORDS_FOR_REVIEW me ga)"
    by (rule same_lineage_history [OF ga flag_lineage(1)]) (use ga in \<open>simp add: flag_lineage history_ok_def\<close>)
  then show ?thesis
    using same_lineage_history [OF _ revert_side_effects_lineage(1) [OF reverted(4)]] revert_side_effects_lineage(2) [OF reverted(4)]
    by (simp add: history_ok_def)
qed

section \<open>The revisions of merges and unmerges\<close>

lemma merge_revisions_step:
  assumes "append_merge_affected_revisions valid_iso uuid g me a survivor kind pre effective st = Inr (out, st')"
    and "survivor \<noteq> Some []"
  shows "stream_step uuid st st'"
proof -
  from assms(1) obtain rows where rows: "map_result (merge_affected_row kind survivor pre effective)
      (GET_AFFECTED_IDENTITY_LINK_HEADS g st me a (if kind = ''person_merge'' then ''merge'' else ''unmerge'')
        (''person-merge:'' @ me @ '':'')) = Inr rows"
    and kind: "kind \<in> {''person_merge'', ''person_unmerge''}"
    and run: "append_identity_link_revisions valid_iso uuid False rows st = Inr (out, st')"
    by (auto simp: append_merge_affected_revisions_def Let_def try_bind_Inr_iff split: if_splits)
  have row: "typed_row r" if "merge_affected_row kind survivor pre effective x = Inr r" for x r
    using that kind assms(2)
    by (cases x) (auto simp: merge_affected_row_def desired_for_def typed_row_def LINK_STATUSES_def RESOLUTION_KINDS_def
        try_bind_Inr_iff Let_def split: if_splits)
  have "list_all typed_row rs" if "map_result (merge_affected_row kind survivor pre effective) xs = Inr rs" for xs rs
    using that
  proof (induction xs arbitrary: rs)
    case (Cons x xs)
    then obtain r rs' where "merge_affected_row kind survivor pre effective x = Inr r" "rs = r # rs'" "list_all typed_row rs'"
      by (auto simp: try_bind_Inr_iff)
    with row show ?case by simp
  qed simp
  with rows run show ?thesis by (blast intro: stream_step.api)
qed

section \<open>Histories\<close>

text \<open>
  The transactions that touch lineages, on the graph and the stream: an automatic merge, a manual
  merge, an unmerge. In between anything may be written that leaves the lineages, their log and the
  statuses, and revisions may be appended. Merge events are new.
\<close>

inductive history_step :: "(nat \<Rightarrow> string) \<Rightarrow> graph \<times> stream \<Rightarrow> graph \<times> stream \<Rightarrow> bool" for uuid where
  auto_merge: "\<lbrakk>merge_person_pair isof now me a s md reason g = Inr g'; a \<noteq> s;
     active_person g (PersonN a); active_person g (PersonN s); \<not> has_node g (MergeEventN me)\<rbrakk> \<Longrightarrow>
     history_step uuid (g, st) (g', st)"
| manual_merge: "\<lbrakk>manual_merge_tx valid_iso uuid isof now me a s reason actor_id (g, st) = Inr (out, h); s \<noteq> [];
     \<not> has_node g (MergeEventN me)\<rbrakk> \<Longrightarrow> history_step uuid (g, st) h"
| unmerge: "\<lbrakk>unmerge_tx valid_iso uuid isof now ume me reason actor_id (g, st) = Inr (r, h);
     \<not> has_node g (MergeEventN ume)\<rbrakk> \<Longrightarrow> history_step uuid (g, st) h"
| revisions: "stream_step uuid st st' \<Longrightarrow> history_step uuid (g, st) (g, st')"
| writes: "\<lbrakk>same_lineage g h; well_typed h\<rbrakk> \<Longrightarrow> history_step uuid (g, st) (h, st)"

lemma manual_merge_same:
  assumes "manual_merge_tx valid_iso uuid isof now me a a reason actor_id (g, st) = Inr (out, g', st')"
  shows "g' = g"
  using assms by (auto simp: manual_merge_tx_def ordered_pair_def EXECUTE_MANUAL_MERGE_def Let_def split: if_splits)

lemma manual_merge_stream:
  assumes "manual_merge_tx valid_iso uuid isof now me a s reason actor_id (g, st) = Inr (out, g', st')" "s \<noteq> []"
  shows "(stream_step uuid)\<^sup>=\<^sup>= st st'"
proof -
  have step: "stream_step uuid st st'" if "append_merge_affected_revisions valid_iso uuid k me a (Some s)
      ''person_merge'' (''person-merge:'' @ me) (isof now) st = Inr (appended, st')" for k appended
    by (rule merge_revisions_step [OF that]) (simp add: assms(2))
  from assms(1) consider "st' = st" | k appended where "append_merge_affected_revisions valid_iso uuid k me a (Some s)
      ''person_merge'' (''person-merge:'' @ me) (isof now) st = Inr (appended, st')"
    by (auto simp: manual_merge_tx_def Let_def try_bind_Inr_iff split: if_splits prod.splits)
  then show ?thesis using step by cases auto
qed

lemma unmerge_stream:
  assumes tx: "unmerge_tx valid_iso uuid isof now ume me reason actor_id (g, st) = Inr (r, g', st')"
  shows "(stream_step uuid)\<^sup>=\<^sup>= st st'"
  using tx
proof (cases rule: unmerge_cases)
  case (reverted a s gr current ga ids appended)
  have "stream_step uuid st st'" by (rule merge_revisions_step [OF reverted(3)]) simp
  then show ?thesis by simp
qed simp_all

definition consistent :: "(nat \<Rightarrow> string) \<Rightarrow> graph \<times> stream \<Rightarrow> bool" where
  "consistent uuid h = (history_ok (fst h) \<and> stream_ok uuid (snd h))"

lemma stream_steps_ok: "(stream_step uuid)\<^sup>=\<^sup>= st st' \<Longrightarrow> stream_ok uuid st \<Longrightarrow> stream_ok uuid st'"
  using stream_step_ok by auto

lemma sources_links: "e_src ` set (typed_edges g t) = fst ` links g t"
proof (intro equalityI subsetI)
  fix n assume "n \<in> e_src ` set (typed_edges g t)"
  then obtain e where "e \<in> set (g_edges g)" "e_type e = t" "n = e_src e" by (auto simp: typed_edges_def)
  then have "(n, e_dst e) \<in> links g t" by (auto simp: links_iff)
  then show "n \<in> fst ` links g t" by force
next
  fix n assume "n \<in> fst ` links g t"
  then show "n \<in> e_src ` set (typed_edges g t)" by (auto simp: links_iff typed_edges_def)
qed

lemma history_step_consistent:
  assumes "history_step uuid h h'" and "consistent uuid h"
  shows "consistent uuid h'"
  using assms
proof (induction rule: history_step.induct)
  case (auto_merge isof now me a s md reason g g' st)
  then have ok: "well_typed g" "lineage_ok g" "lineage_total g" by (simp_all add: consistent_def history_ok_def)
  note eff = merge_effect [OF auto_merge(1) ok(1) auto_merge(2)]
  have "lineage_total g'"
    unfolding lineage_total_def sources_links
    using ok(3) eff(1) [of MERGED_INTO] eff(3)
    by (auto simp: lineage_total_def sources_links WRITTEN_def OWNED_def image_image)
  with auto_merge ok show ?case
    using auto_merge_lineage well_typed_merge by (auto simp: consistent_def history_ok_def)
next
  case (manual_merge valid_iso isof now me a s reason actor_id g st out h)
  obtain g' st' where h: "h = (g', st')" by fastforce
  note tx = manual_merge(1) [unfolded h]
  have "history_ok g'"
  proof (cases "a = s")
    case True
    have "g' = g" by (rule manual_merge_same) (rule tx [unfolded True])
    with manual_merge(4) show ?thesis by (simp add: consistent_def)
  next
    case False
    with manual_merge_lineage [OF tx] manual_merge(3,4) show ?thesis by (simp add: consistent_def)
  qed
  with stream_steps_ok [OF manual_merge_stream [OF tx manual_merge(2)]] manual_merge(4) show ?case
    by (simp add: consistent_def h)
next
  case (unmerge valid_iso isof now ume me reason actor_id g st r h)
  obtain g' st' where h: "h = (g', st')" by fastforce
  note tx = unmerge(1) [unfolded h]
  from unmerge_lineage [OF tx] stream_steps_ok [OF unmerge_stream [OF tx]] unmerge(2,3) show ?case
    by (simp add: consistent_def h)
next
  case (revisions st st' g)
  then show ?case using stream_step_ok by (auto simp: consistent_def)
next
  case (writes g h st)
  then show ?case using same_lineage_history by (auto simp: consistent_def)
qed

definition reachable_history :: "(nat \<Rightarrow> string) \<Rightarrow> graph \<times> stream \<Rightarrow> bool" where
  "reachable_history uuid h = (history_step uuid)\<^sup>*\<^sup>* (\<lparr>g_nodes = [], g_edges = []\<rparr>, empty_stream) h"

lemma reachable_consistent: "reachable_history uuid h \<Longrightarrow> consistent uuid h"
  unfolding reachable_history_def
proof (induction rule: rtranclp_induct)
  case base
  have "history_ok \<lparr>g_nodes = [], g_edges = []\<rparr>"
    by (simp add: history_ok_def well_typed_def lineage_ok_def lineage_total_def typed_edges_def node_prop_def)
  then show ?case by (simp add: consistent_def empty_stream_ok)
qed (rule history_step_consistent)

section \<open>Properties\<close>

text \<open>C16: after any history of automatic merges, manual merges and unmerges, with any writes in between
  that leave the lineages and merge nobody and any appends of revisions, every merged person has exactly
  one lineage, which ends at an active person, no other person has one, the graph has the relationships
  its schema allows, and the revisions of the stream are numbered without gaps.\<close>

theorem histories_keep_lineage:
  assumes "reachable_history uuid (g, st)"
  shows "(\<forall>p. if node_prop g (PersonN p) ''status'' = JStr ''merged''
           then \<exists>e. [e \<leftarrow> typed_edges g MERGED_INTO. e_src e = PersonN p] = [e] \<and> active_person g (e_dst e)
           else [e \<leftarrow> typed_edges g MERGED_INTO. e_src e = PersonN p] = [])
     \<and> well_typed g
     \<and> map rv_global_revision (st_revisions st) = map int [0..<length (st_revisions st)]"
proof -
  from reachable_consistent [OF assms] have ok: "well_typed g" "lineage_ok g" "lineage_total g" "stream_ok uuid st"
    by (simp_all add: consistent_def history_ok_def)
  let ?of = "\<lambda>p. [e \<leftarrow> typed_edges g MERGED_INTO. e_src e = PersonN p]"
  have edge: "node_prop g (e_src e) ''status'' = JStr ''merged''" "active_person g (e_dst e)"
    if "e \<in> set (typed_edges g MERGED_INTO)" for e
    using ok(2) that by (auto simp: lineage_ok_def list_all_iff)
  have "\<exists>e. ?of p = [e] \<and> active_person g (e_dst e)" if "node_prop g (PersonN p) ''status'' = JStr ''merged''" for p
  proof -
    have "length (?of p) \<le> 1" using ok(2) by (intro distinct_length_one [where f = e_src]) (auto simp: lineage_ok_def)
    moreover have "?of p \<noteq> []" using ok(3) that by (fastforce simp: lineage_total_def filter_empty_conv)
    ultimately obtain e where e: "?of p = [e]" by (cases "?of p") auto
    then have "e \<in> set (?of p)" by simp
    then have "e \<in> set (typed_edges g MERGED_INTO)" by simp
    from e edge(2) [OF this] show ?thesis by blast
  qed
  moreover have "?of p = []" if "node_prop g (PersonN p) ''status'' \<noteq> JStr ''merged''" for p
    using edge(1) that by (fastforce simp: filter_empty_conv)
  ultimately show ?thesis using ok(1,4) by (auto simp: stream_ok_def Let_def)
qed

text \<open>C17: a lock of type manual_no_match stops the pair as long as it is in force: manual merges in both
  directions are blocked and change nothing, the matching and the audit find the lock, and no second
  lock of any type can be set.\<close>

theorem manual_lock_blocks:
  assumes "create_lock_tx datetime now lock_id left right ''manual_no_match'' reason expires_at actor_id g
      = Inr (LockCreated new_id, h)"
    and "\<forall>text. expires_at = Some text \<longrightarrow> (\<exists>n. datetime text = Some n \<and> later < n)"
    and "set (typed_edges h NO_MATCH_LOCK) \<subseteq> set (typed_edges k NO_MATCH_LOCK)"
    and "has_node k (PersonN left)" and "has_node k (PersonN right)"
  shows "manual_merge_tx valid_iso uuid isof later me left right reason' actor' (k, st) = Inr (Blocked, k, st)
     \<and> manual_merge_tx valid_iso uuid isof later me right left reason' actor' (k, st) = Inr (Blocked, k, st)
     \<and> CHECK_NO_MATCH_LOCK k later left right \<and> CHECK_NO_MATCH_LOCK k later right left
     \<and> (\<exists>other. create_lock_tx datetime later id2 left right type2 reason' expires2 actor' k = Inr (LockConflict other, k))"
proof -
  from assms(1) obtain expires where expires: "(case expires_at of None \<Rightarrow> expires = JNull
      | Some text \<Rightarrow> (\<exists>n. datetime text = Some n \<and> expires = JInt n))"
    and h: "h = create_edge \<lparr>e_type = NO_MATCH_LOCK, e_src = PersonN left, e_dst = PersonN right,
                e_props = json_sets [(''lock_id'', JStr lock_id), (''lock_type'', JStr ''manual_no_match''),
                  (''reason'', JStr reason), (''actor_type'', JStr ''admin''), (''actor_id'', JStr actor_id),
                  (''expires_at'', expires), (''created_at'', JInt now)] []\<rparr> g" (is "h = create_edge ?lock g")
    by (auto simp: create_lock_tx_def CREATE_PERSON_PAIR_LOCK_def try_bind_Inr_iff split: option.splits if_splits)
  have "?lock \<in> set (typed_edges k NO_MATCH_LOCK)" using assms(3) by (auto simp: h typed_edges_def)
  then have lock: "?lock \<in> set (g_edges k)" by (auto simp: typed_edges_def)
  have active: "lock_active later ?lock"
    using expires assms(2) by (auto simp: lock_active_def edge_prop_def json_get_set split: option.splits)
  have type: "edge_prop ?lock ''lock_type'' = JStr ''manual_no_match''" by (simp add: edge_prop_def json_get_set)
  have blocked: "CHECK_MANUAL_NO_MATCH_LOCK k later left right" "CHECK_MANUAL_NO_MATCH_LOCK k later right left"
    unfolding CHECK_MANUAL_NO_MATCH_LOCK_def list_ex_iff
    using lock active type assms(4,5) by (auto intro!: bexI [of _ ?lock])
  moreover have "CHECK_NO_MATCH_LOCK k later left right" "CHECK_NO_MATCH_LOCK k later right left"
    unfolding CHECK_NO_MATCH_LOCK_def locked_pair_def list_ex_iff
    using lock active assms(4,5) by (auto intro!: bexI [of _ ?lock])
  moreover have "CHECK_EXISTING_LOCK k later left right \<noteq> None"
  proof -
    let ?found = "[l \<leftarrow> g_edges k. e_type l = NO_MATCH_LOCK \<and> lock_active later l
              \<and> has_node k (PersonN left) \<and> has_node k (PersonN right)
              \<and> ((e_src l = PersonN left \<and> e_dst l = PersonN right) \<or> (e_src l = PersonN right \<and> e_dst l = PersonN left))]"
    have "?lock \<in> set ?found" using lock active assms(4,5) by simp
    then have "?found \<noteq> []" by force
    then show ?thesis unfolding CHECK_EXISTING_LOCK_def by (cases ?found) simp_all
  qed
  ultimately show ?thesis
    by (auto simp: manual_merge_tx_def ordered_pair_def create_lock_tx_def)
qed

section \<open>Witnesses\<close>

text \<open>Two persons who share nothing.\<close>

definition plain_persons :: graph where
  "plain_persons = \<lparr>g_nodes = [sample_person ''anna'' ''active'', sample_person ''ben'' ''active''], g_edges = []\<rparr>"

definition plain_merge :: "(merge_outcome \<times> graph \<times> stream) result" where
  "plain_merge = manual_merge_tx (\<lambda>_. True) (\<lambda>_. ''u'') (\<lambda>_. ''t'') 5 ''m1'' ''anna'' ''ben'' ''same'' ''admin''
     (plain_persons, empty_stream)"

lemma plain_merge_runs:
  "(case plain_merge of Inl _ \<Rightarrow> False | Inr (out, g, st) \<Rightarrow> map e_src (typed_edges g MERGED_INTO) = [PersonN ''anna''])"
  by code_simp

lemma plain_persons_reachable: "reachable_history uuid (plain_persons, empty_stream)"
proof -
  have "same_lineage \<lparr>g_nodes = [], g_edges = []\<rparr> plain_persons"
    by (simp add: same_lineage_def plain_persons_def typed_edges_def has_node_def node_prop_def sample_person_def json_get_def)
  moreover have "well_typed plain_persons" by (simp add: plain_persons_def well_typed_def)
  ultimately show ?thesis
    unfolding reachable_history_def by (blast intro: r_into_rtranclp history_step.writes)
qed

theorem histories_keep_lineage_witness:
  "\<exists>out g st. plain_merge = Inr (out, g, st) \<and> map e_src (typed_edges g MERGED_INTO) = [PersonN ''anna'']
     \<and> (\<exists>e. [e \<leftarrow> typed_edges g MERGED_INTO. e_src e = PersonN ''anna''] = [e] \<and> active_person g (e_dst e))"
proof -
  obtain out g st where run: "plain_merge = Inr (out, g, st)" and into: "map e_src (typed_edges g MERGED_INTO) = [PersonN ''anna'']"
    using plain_merge_runs by (auto split: sum.splits)
  have "history_step (\<lambda>_. ''u'') (plain_persons, empty_stream) (g, st)"
    by (rule history_step.manual_merge [OF run [unfolded plain_merge_def]]) (simp_all add: plain_persons_def has_node_def sample_person_def)
  then have "reachable_history (\<lambda>_. ''u'') (g, st)"
    using plain_persons_reachable [of "\<lambda>_. ''u''"] unfolding reachable_history_def by (rule rtranclp.rtrancl_into_rtrancl [rotated])
  note lineage = histories_keep_lineage [OF this, THEN conjunct1, rule_format, of "''anna''"]
  have "[e \<leftarrow> typed_edges g MERGED_INTO. e_src e = PersonN ''anna''] \<noteq> []"
  proof -
    have "PersonN ''anna'' \<in> set (map e_src (typed_edges g MERGED_INTO))" unfolding into by simp
    then show ?thesis by (auto simp: filter_empty_conv)
  qed
  with lineage have "\<exists>e. [e \<leftarrow> typed_edges g MERGED_INTO. e_src e = PersonN ''anna''] = [e] \<and> active_person g (e_dst e)"
    by (auto split: if_splits)
  with run into show ?thesis by (intro exI [of _ out] exI [of _ g] exI [of _ st] conjI)
qed

definition sample_lock :: "(lock_outcome \<times> graph) result" where
  "sample_lock = create_lock_tx (\<lambda>_. None) 5 ''l1'' ''anna'' ''ben'' ''manual_no_match'' ''no'' None ''admin'' plain_persons"

lemma sample_lock_run: "\<exists>h. sample_lock = Inr (LockCreated ''l1'', h) \<and> has_node h (PersonN ''anna'') \<and> has_node h (PersonN ''ben'')"
  by (simp add: sample_lock_def create_lock_tx_def CREATE_PERSON_PAIR_LOCK_def CHECK_EXISTING_LOCK_def plain_persons_def
      has_node_def create_edge_def sample_person_def)

theorem manual_lock_blocks_witness:
  "\<exists>h. sample_lock = Inr (LockCreated ''l1'', h)
     \<and> manual_merge_tx (\<lambda>_. True) (\<lambda>_. ''u'') (\<lambda>_. ''t'') 9 ''m1'' ''ben'' ''anna'' ''same'' ''admin'' (h, empty_stream)
         = Inr (Blocked, h, empty_stream)"
proof -
  obtain h where h: "sample_lock = Inr (LockCreated ''l1'', h)" "has_node h (PersonN ''anna'')" "has_node h (PersonN ''ben'')"
    using sample_lock_run by blast
  from manual_lock_blocks [OF h(1) [unfolded sample_lock_def] _ subset_refl h(2,3), of 9] have
    "manual_merge_tx (\<lambda>_. True) (\<lambda>_. ''u'') (\<lambda>_. ''t'') 9 ''m1'' ''ben'' ''anna'' ''same'' ''admin'' (h, empty_stream)
       = Inr (Blocked, h, empty_stream)" by simp
  with h(1) show ?thesis by blast
qed

end
