(* ===== verification/PyRegex.thy ===== *)
theory PyRegex
  imports Prelude
begin

text \<open>
  The regular expressions the code uses, with the matcher of Python's \<open>re\<close> module: a backtracking
  search that tries the alternatives in order, a greedy repetition from long to short, a lazy one from
  short to long. The result is the list of all ways to match at the start of a text, in the order
  of the search, so \<open>re.match\<close> is its head. A way is the rest of the text and the captured groups.
\<close>

datatype regex =
    Chars "char \<Rightarrow> bool"
  | Then regex regex
  | Or regex regex
  | Maybe regex
  | Times "char \<Rightarrow> bool" nat "nat option"
  | Lazily "char \<Rightarrow> bool" nat
  | Star regex
  | Group string regex
  | AtEnd

type_synonym way = "string \<times> (string \<times> string) list"

section \<open>The search\<close>

text \<open>How many characters a repetition may take.\<close>

definition counts :: "(char \<Rightarrow> bool) \<Rightarrow> nat \<Rightarrow> nat option \<Rightarrow> string \<Rightarrow> nat list" where
  "counts p lo hi s =
     (let n = length (takeWhile p s); top = (case hi of None \<Rightarrow> n | Some h \<Rightarrow> min h n)
      in [lo..<Suc top])"

text \<open>The repetition of a group; an empty repetition ends it. The bound is the length of the text.\<close>

fun star :: "(way \<Rightarrow> way list) \<Rightarrow> nat \<Rightarrow> way \<Rightarrow> way list" where
  "star f 0 w = [w]"
| "star f (Suc n) w = concat (map (star f n) [v \<leftarrow> f w. length (fst v) < length (fst w)]) @ [w]"

primrec ways :: "regex \<Rightarrow> way \<Rightarrow> way list" where
  "ways (Chars p) = (\<lambda>(s, c). case s of [] \<Rightarrow> [] | x # xs \<Rightarrow> if p x then [(xs, c)] else [])"
| "ways (Then a b) = (\<lambda>w. concat (map (ways b) (ways a w)))"
| "ways (Or a b) = (\<lambda>w. ways a w @ ways b w)"
| "ways (Maybe a) = (\<lambda>w. ways a w @ [w])"
| "ways (Times p lo hi) = (\<lambda>(s, c). map (\<lambda>k. (drop k s, c)) (rev (counts p lo hi s)))"
| "ways (Lazily p lo) = (\<lambda>(s, c). map (\<lambda>k. (drop k s, c)) (counts p lo None s))"
| "ways (Star a) = (\<lambda>w. star (ways a) (length (fst w)) w)"
| "ways (Group n a) = (\<lambda>w. map (\<lambda>v. (fst v, (n, take (length (fst w) - length (fst v)) (fst w)) # snd v)) (ways a w))"
| "ways AtEnd = (\<lambda>(s, c). if s = [] \<or> s = [CHR 0x0A] then [(s, c)] else [])"

definition re_match :: "regex \<Rightarrow> string \<Rightarrow> (string \<times> string) list option" where
  "re_match r s = (case ways r (s, []) of [] \<Rightarrow> None | w # _ \<Rightarrow> Some (snd w))"

definition literal :: "string \<Rightarrow> regex" where
  "literal s = foldr (\<lambda>c r. Then (Chars (\<lambda>x. x = c)) r) (butlast s) (Chars (\<lambda>x. x = last s))"

text \<open>\<open>re.IGNORECASE\<close>.\<close>

definition literal_ci :: "string \<Rightarrow> regex" where
  "literal_ci s = foldr (\<lambda>c r. Then (Chars (\<lambda>x. lower_char x = lower_char c)) r) (butlast s)
     (Chars (\<lambda>x. lower_char x = lower_char (last s)))"

definition in_order :: "regex list \<Rightarrow> regex" where
  "in_order rs = foldr Then (butlast rs) (last rs)"

section \<open>What a match is\<close>

text \<open>The texts of an expression, without the search and the groups; \<open>AtEnd\<close> is left to the context.\<close>

inductive taken :: "regex \<Rightarrow> string \<Rightarrow> bool" where
  taken_chars: "p x \<Longrightarrow> taken (Chars p) [x]"
| taken_then: "taken a s \<Longrightarrow> taken b t \<Longrightarrow> taken (Then a b) (s @ t)"
| taken_left: "taken a s \<Longrightarrow> taken (Or a b) s"
| taken_right: "taken b s \<Longrightarrow> taken (Or a b) s"
| taken_none: "taken (Maybe a) []"
| taken_some: "taken a s \<Longrightarrow> taken (Maybe a) s"
| taken_times: "list_all p s \<Longrightarrow> lo \<le> length s \<Longrightarrow> (\<forall>h. hi = Some h \<longrightarrow> length s \<le> h) \<Longrightarrow> taken (Times p lo hi) s"
| taken_lazily: "list_all p s \<Longrightarrow> lo \<le> length s \<Longrightarrow> taken (Lazily p lo) s"
| taken_stop: "taken (Star a) []"
| taken_more: "taken a s \<Longrightarrow> s \<noteq> [] \<Longrightarrow> taken (Star a) t \<Longrightarrow> taken (Star a) (s @ t)"
| taken_group: "taken a s \<Longrightarrow> taken (Group n a) s"
| taken_end: "taken AtEnd []"

inductive_simps taken_simps:
  "taken (Chars p) s" "taken (Then a b) s" "taken (Or a b) s" "taken (Maybe a) s" "taken (Times p lo hi) s"
  "taken (Lazily p lo) s" "taken (Group n a) s" "taken AtEnd s"

inductive_cases taken_starE: "taken (Star a) s"

lemma in_counts: "k \<in> set (counts p lo hi s) \<longleftrightarrow> lo \<le> k \<and> k \<le> length (takeWhile p s) \<and> (\<forall>h. hi = Some h \<longrightarrow> k \<le> h)"
  by (auto simp: counts_def Let_def split: option.splits)

lemma take_takeWhile:
  assumes "k \<le> length (takeWhile p s)"
  shows "list_all p (take k s)"
proof -
  have "take k s = take k (takeWhile p s @ dropWhile p s)" by simp
  also have "\<dots> = take k (takeWhile p s)" using assms by (simp only: take_append) simp
  finally show ?thesis by (auto simp: list_all_iff dest!: in_set_takeD set_takeWhileD)
qed

lemma star_sound:
  assumes "\<And>w v. v \<in> set (f w) \<Longrightarrow> \<exists>u. fst w = u @ fst v \<and> taken a u"
    and "v \<in> set (star f n w)"
  shows "\<exists>u. fst w = u @ fst v \<and> taken (Star a) u"
  using assms(2)
proof (induction n arbitrary: w)
  case 0
  then show ?case by (auto intro: taken.intros)
next
  case (Suc n)
  then consider "v = w" | w' where "w' \<in> set (f w)" "length (fst w') < length (fst w)" "v \<in> set (star f n w')" by auto
  then show ?case
  proof cases
    case 1
    then show ?thesis by (auto intro: taken.intros)
  next
    case 2
    from assms(1) [OF 2(1)] obtain u where u: "fst w = u @ fst w'" "taken a u" by blast
    from Suc.IH [OF 2(3)] obtain u' where u': "fst w' = u' @ fst v" "taken (Star a) u'" by blast
    have "u \<noteq> []" using u 2(2) by auto
    with u u' have "taken (Star a) (u @ u')" by (blast intro: taken.intros)
    with u u' show ?thesis by (intro exI [of _ "u @ u'"]) simp
  qed
qed

lemma ways_sound: "v \<in> set (ways r w) \<Longrightarrow> \<exists>u. fst w = u @ fst v \<and> taken r u"
proof (induction r arbitrary: v w)
  case (Chars p)
  then show ?case by (cases w; cases "fst w") (auto simp: taken_simps split: if_splits)
next
  case (Then a b)
  then obtain w' where w': "w' \<in> set (ways a w)" "v \<in> set (ways b w')" by auto
  from Then.IH(1) [OF w'(1)] Then.IH(2) [OF w'(2)] obtain u u' where
    "fst w = u @ fst w'" "taken a u" "fst w' = u' @ fst v" "taken b u'" by blast
  then show ?case by (intro exI [of _ "u @ u'"]) (auto simp: taken_simps)
next
  case (Times p lo hi)
  then obtain k where k: "k \<in> set (counts p lo hi (fst w))" "v = (drop k (fst w), snd w)" by (cases w) auto
  then have "k \<le> length (fst w)" using length_takeWhile_le [of p "fst w"] by (auto simp: in_counts)
  with k show ?case by (intro exI [of _ "take k (fst w)"]) (auto simp: taken_simps in_counts take_takeWhile)
next
  case (Lazily p lo)
  then obtain k where k: "k \<in> set (counts p lo None (fst w))" "v = (drop k (fst w), snd w)" by (cases w) auto
  then have "k \<le> length (fst w)" using length_takeWhile_le [of p "fst w"] by (auto simp: in_counts)
  with k show ?case by (intro exI [of _ "take k (fst w)"]) (auto simp: taken_simps in_counts take_takeWhile)
next
  case (Star a)
  then show ?case using star_sound [of "ways a" a] by auto
next
  case AtEnd
  then show ?case by (cases w) (auto simp: taken_simps split: if_splits)
qed (fastforce simp: taken_simps)+

primrec end_free :: "regex \<Rightarrow> bool" where
  "end_free (Chars p) = True"
| "end_free (Then a b) = (end_free a \<and> end_free b)"
| "end_free (Or a b) = (end_free a \<and> end_free b)"
| "end_free (Maybe a) = end_free a"
| "end_free (Times p lo hi) = True"
| "end_free (Lazily p lo) = True"
| "end_free (Star a) = end_free a"
| "end_free (Group n a) = end_free a"
| "end_free AtEnd = False"

lemma takeWhile_prefix: "list_all p u \<Longrightarrow> length u \<le> length (takeWhile p (u @ t))"
  by (simp add: list_all_iff)

lemma star_self: "w \<in> set (star f n w)"
  by (cases n) simp_all

lemma star_complete:
  assumes f: "\<And>u t c. taken a u \<Longrightarrow> \<exists>c'. (t, c') \<in> set (f (u @ t, c))"
    and "taken (Star a) u" and "length u \<le> n"
  shows "\<exists>c'. (t, c') \<in> set (star f n (u @ t, c))"
  using assms(2,3)
proof (induction n arbitrary: u c)
  case 0
  then show ?case by simp
next
  case (Suc n)
  from Suc.prems(1) consider "u = []" | s s' where "u = s @ s'" "taken a s" "s \<noteq> []" "taken (Star a) s'"
    by (auto elim: taken_starE)
  then show ?case
  proof cases
    case 1
    then have "(u @ t, c) = (t, c)" by simp
    then show ?thesis using star_self [of "(t, c)"] by metis
  next
    case 2
    from f [OF 2(2)] obtain c1 where c1: "(s' @ t, c1) \<in> set (f (s @ s' @ t, c))" by blast
    have "length s' \<le> n" using 2 Suc.prems(2) by (cases s) auto
    from Suc.IH [OF 2(4) this] obtain c2 where "(t, c2) \<in> set (star f n (s' @ t, c1))" by blast
    moreover have "length (s' @ t) < length (u @ t)" using 2(1,3) by simp
    moreover have "(s' @ t, c1) \<in> set (f (u @ t, c))" using c1 2(1) by simp
    ultimately show ?thesis by (intro exI [of _ c2]) force
  qed
qed

lemma ways_complete: "end_free r \<Longrightarrow> taken r u \<Longrightarrow> \<exists>c'. (t, c') \<in> set (ways r (u @ t, c))"
proof (induction r arbitrary: u t c)
  case (Then a b)
  from Then.prems obtain x y where xy: "u = x @ y" "taken a x" "taken b y" by (auto simp: taken_simps)
  from Then.IH(1) [OF _ xy(2)] Then.prems(1) obtain c1 where "(y @ t, c1) \<in> set (ways a (x @ y @ t, c))" by force
  moreover from Then.IH(2) [OF _ xy(3)] Then.prems(1) obtain c2 where "(t, c2) \<in> set (ways b (y @ t, c1))" by force
  ultimately show ?case using xy(1) by (intro exI [of _ c2]) (auto intro!: bexI [of _ "(y @ t, c1)"])
next
  case (Or a b)
  then show ?case by (fastforce simp: taken_simps)
next
  case (Maybe a)
  then show ?case by (fastforce simp: taken_simps)
next
  case (Times p lo hi)
  then have "length u \<in> set (counts p lo hi (u @ t))" using takeWhile_prefix by (auto simp: in_counts taken_simps)
  then show ?case by (auto intro!: exI [of _ c] image_eqI [of _ _ "length u"])
next
  case (Lazily p lo)
  then have "length u \<in> set (counts p lo None (u @ t))" using takeWhile_prefix by (auto simp: in_counts taken_simps)
  then show ?case by (auto intro!: exI [of _ c] image_eqI [of _ _ "length u"])
next
  case (Star a)
  then show ?case using star_complete [of a "ways a" u] by simp
next
  case (Group n a)
  then have "\<exists>c'. (t, c') \<in> set (ways a (u @ t, c))" by (auto simp: taken_simps)
  then show ?case by force
qed (auto simp: taken_simps)

lemma re_match_end:
  assumes "end_free r"
  shows "re_match (Then r AtEnd) s \<noteq> None \<longleftrightarrow> (\<exists>u. taken r u \<and> s \<in> {u, u @ [CHR 0x0A]})"
proof
  assume "re_match (Then r AtEnd) s \<noteq> None"
  then have some: "ways (Then r AtEnd) (s, []) \<noteq> []" by (metis re_match_def list.simps(4))
  have "\<exists>w \<in> set (ways r (s, [])). ways AtEnd w \<noteq> []" 
  proof (rule ccontr)
    assume "\<not> ?thesis"
    then have "ways AtEnd w = []" if "w \<in> set (ways r (s, []))" for w using that by blast
    then have "ways (Then r AtEnd) (s, []) = []" unfolding ways.simps(2) concat_eq_Nil_conv set_map by blast
    with some show False ..
  qed
  then obtain w where "w \<in> set (ways r (s, []))" "ways AtEnd w \<noteq> []" by blast
  with ways_sound [of w r "(s, [])"] show "\<exists>u. taken r u \<and> s \<in> {u, u @ [CHR 0x0A]}"
    by (cases w) (auto split: if_splits)
next
  assume "\<exists>u. taken r u \<and> s \<in> {u, u @ [CHR 0x0A]}"
  then obtain u t where u: "taken r u" "s = u @ t" "t \<in> {[], [CHR 0x0A]}" by force
  from ways_complete [OF assms u(1)] obtain c where "(t, c) \<in> set (ways r (s, []))" using u(2) by blast
  moreover have "ways AtEnd (t, c) \<noteq> []" using u(3) by auto
  ultimately have "\<exists>w \<in> set (ways r (s, [])). ways AtEnd w \<noteq> []" by blast
  then have "ways (Then r AtEnd) (s, []) \<noteq> []" unfolding ways.simps(2) concat_eq_Nil_conv set_map by blast
  then show "re_match (Then r AtEnd) s \<noteq> None" by (auto simp: re_match_def split: list.splits)
qed

end
