(* ===== verification/Normalizers.thy ===== *)
theory Normalizers
  imports PyRegex Similarity
begin

text \<open>
  The normalizers of names, emails, phones, government identifiers and addresses (\<open>normalizers/\<close>). Each
  answers a normalised text, if there is one, and a quality flag.
\<close>

section \<open>Markers (\<open>clean.py\<close>)\<close>

definition x_marker :: "char \<Rightarrow> bool" where
  "x_marker c = (c = CHR ''x'' \<or> c = CHR ''X'')"

definition strip_leading_x_markers :: "string \<Rightarrow> string" where
  "strip_leading_x_markers s = dropWhile x_marker (py_strip s)"

definition strip_edge_x_markers :: "string \<Rightarrow> string" where
  "strip_edge_x_markers s = rev (dropWhile x_marker (rev (dropWhile x_marker (py_strip s))))"

section \<open>Names\<close>

definition NAME_PLACEHOLDERS :: "string list" where
  "NAME_PLACEHOLDERS =
     [''na'', ''n/a'', ''-'', ''unknown'', ''nil'', ''none'', ''test'', ''tbc'', ''tba'', ''customer'', ''guest'',
      ''walk-in'', ''walkin'', ''walk in'', ''no name'']"

definition normalize_name :: "string \<Rightarrow> string option \<times> quality_flag" where
  "normalize_name raw =
     (if raw = [] \<or> py_strip raw = [] then (None, INVALID_FORMAT)
      else let collapsed = py_strip (collapse_ws raw)
           in if collapsed = [] then (None, INVALID_FORMAT)
              else if py_lower collapsed \<in> set NAME_PLACEHOLDERS then (None, PLACEHOLDER_VALUE)
              else (Some collapsed, VALID))"

section \<open>Government identifiers\<close>

definition normalize_nric :: "string \<Rightarrow> string option \<times> quality_flag" where
  "normalize_nric raw =
     (let cleaned = py_upper (strip_leading_x_markers raw)
      in if cleaned = [] then (None, INVALID_FORMAT) else (Some cleaned, VALID))"

section \<open>Emails\<close>

definition local_char :: "char \<Rightarrow> bool" where
  "local_char c = (is_letter c \<or> is_digit c \<or> c \<in> set ''.!#$%&*+/=?^_`{|}~-'' \<or> c = CHR 0x27)"

definition label_char :: "char \<Rightarrow> bool" where
  "label_char c = (is_letter c \<or> is_digit c \<or> c = CHR ''-'')"

definition EMAIL_BODY :: regex where
  "EMAIL_BODY = in_order
     [Times local_char 1 None, Chars (\<lambda>c. c = CHR ''@''), Times label_char 1 None,
      Star (Then (Chars (\<lambda>c. c = CHR ''.'')) (Times label_char 1 None)),
      Chars (\<lambda>c. c = CHR ''.''), Times is_letter 2 None]"

definition EMAIL_RE :: regex where
  "EMAIL_RE = Then EMAIL_BODY AtEnd"

definition EMAIL_PLACEHOLDERS :: "string list" where
  "EMAIL_PLACEHOLDERS =
     [''test@test.com'', ''na@na.com'', ''noreply@noreply.com'', ''unknown@unknown.com'', ''test@example.com'',
      ''null@null.com'']"

definition GMAIL_DOMAINS :: "string list" where
  "GMAIL_DOMAINS = [''gmail.com'', ''googlemail.com'']"

definition canonicalize_gmail :: "string \<Rightarrow> string \<Rightarrow> string \<times> string" where
  "canonicalize_gmail local domain =
     (if domain \<notin> set GMAIL_DOMAINS then (local, domain)
      else let canonical_local = [c \<leftarrow> takeWhile (\<lambda>c. c \<noteq> CHR ''+'') local. c \<noteq> CHR ''.'']
           in if canonical_local = [] then (local, domain) else (canonical_local, ''gmail.com''))"

text \<open>After the match there is an \<open>@\<close>; \<open>str.rpartition\<close> without one would leave the local part empty.\<close>

definition normalize_email :: "string \<Rightarrow> string option \<times> quality_flag" where
  "normalize_email raw =
     (let stripped = py_lower (py_strip raw)
      in if stripped = [] then (None, INVALID_FORMAT)
         else if stripped \<in> set EMAIL_PLACEHOLDERS then (None, PLACEHOLDER_VALUE)
         else if re_match EMAIL_RE stripped = None then (None, INVALID_FORMAT)
         else let (local, domain) = (case rpartition CHR ''@'' stripped of None \<Rightarrow> ([], stripped) | Some p \<Rightarrow> p)
              in if domain = ''g.us'' then (None, INVALID_FORMAT)
                 else let (local, domain) = canonicalize_gmail local domain
                      in (Some (local @ ''@'' @ domain), VALID))"

section \<open>Phones\<close>

definition DEFAULT_REGION :: string where
  "DEFAULT_REGION = ''SG''"

definition PHONE_PLACEHOLDERS :: "string list" where
  "PHONE_PLACEHOLDERS = [''00000000'', ''11111111'', ''12345678'', ''99999999'', ''0000000000'']"

definition normalize_phone :: "'n third_party \<Rightarrow> string \<Rightarrow> string \<Rightarrow> string option \<times> quality_flag" where
  "normalize_phone tp raw region =
     (let stripped = strip_edge_x_markers raw
      in if stripped = [] then (None, INVALID_FORMAT)
         else if filter is_digit stripped \<in> set PHONE_PLACEHOLDERS then (None, PLACEHOLDER_VALUE)
         else case pn_parse tp stripped (Some region) of
                None \<Rightarrow> (None, INVALID_FORMAT)
              | Some parsed \<Rightarrow>
                  if \<not> pn_is_valid tp parsed then (None, INVALID_FORMAT)
                  else (Some (pn_format_e164 tp parsed), VALID))"

section \<open>Addresses\<close>

text \<open>\<open>(?:#?(?P<unit>\d{1,3}-\d{1,4})\s+)?\<close> and the other parts of the pattern of Singapore addresses.\<close>

definition UNIT_PART :: regex where
  "UNIT_PART = Maybe (in_order
     [Maybe (Chars (\<lambda>c. c = CHR ''#'')),
      Group ''unit'' (in_order [Times is_digit 1 (Some 3), Chars (\<lambda>c. c = CHR ''-''), Times is_digit 1 (Some 4)]),
      Times is_space 1 None])"

definition STREET_NUM_PART :: regex where
  "STREET_NUM_PART = Group ''street_num'' (Then (Times is_digit 1 None) (Maybe (Chars is_letter)))"

definition CITY_PART :: regex where
  "CITY_PART = Maybe (in_order
     [Times is_space 0 None, Maybe (Chars (\<lambda>c. c = CHR '','')), Times is_space 0 None,
      Or (literal_ci ''Singapore'') (literal_ci ''SG'')])"

definition SG_ADDRESS_BODY :: regex where
  "SG_ADDRESS_BODY = in_order
     [UNIT_PART,
      Maybe (Then (Or (literal_ci ''Blk'') (literal_ci ''Block'')) (Times is_space 1 None)),
      STREET_NUM_PART, Times is_space 1 None,
      Group ''street_name'' (Lazily (\<lambda>c. c \<noteq> CHR 0x0A) 1),
      CITY_PART, Times is_space 1 None,
      Group ''postal'' (Times is_digit 6 (Some 6)),
      Times is_space 0 None]"

definition SG_ADDRESS_RE :: regex where
  "SG_ADDRESS_RE = Then SG_ADDRESS_BODY AtEnd"

definition ADDRESS_PLACEHOLDERS :: "string list" where
  "ADDRESS_PLACEHOLDERS = [''na'', ''n/a'', ''-'', ''unknown'', ''nil'', ''none'', ''test'', ''tbc'', ''tba'']"

text \<open>\<open>re.search(r"\b(\d{6})\b", raw)\<close>; the flag tells whether a word character precedes.\<close>

definition word_char :: "char \<Rightarrow> bool" where
  "word_char c = (is_letter c \<or> is_digit c \<or> c = CHR ''_'')"

fun search_postal :: "bool \<Rightarrow> string \<Rightarrow> string option" where
  "search_postal after_word [] = None"
| "search_postal after_word (c # cs) =
     (let s = c # cs
      in if \<not> after_word \<and> 6 \<le> length s \<and> list_all is_digit (take 6 s)
            \<and> (case drop 6 s of [] \<Rightarrow> True | d # _ \<Rightarrow> \<not> word_char d)
         then Some (take 6 s) else search_postal (word_char c) cs)"

definition partial_parse :: "string \<Rightarrow> string \<Rightarrow> string \<Rightarrow> normalized_address option \<times> quality_flag" where
  "partial_parse raw default_country default_city =
     (case search_postal False raw of
        None \<Rightarrow> (None, INVALID_FORMAT)
      | Some postal \<Rightarrow>
          (let full = py_lower (py_strip (collapse_ws raw))
           in (Some \<lparr>na_unit_number = None, na_street_number = [], na_street_name = full, na_building_name = None,
                     na_city = py_lower default_city, na_state_province = None, na_postal_code = postal,
                     na_country_code = py_upper default_country, na_normalized_full = full,
                     na_quality_flag = PARTIAL_PARSE\<rparr>, PARTIAL_PARSE)))"

definition full_parse :: "(string \<times> string) list \<Rightarrow> string \<Rightarrow> string \<Rightarrow> normalized_address" where
  "full_parse groups default_country default_city =
     (let unit = map_of groups ''unit'';
          street_num = py_lower (py_strip (or_empty (map_of groups ''street_num'')));
          street_name = py_lower (py_strip (collapse_ws (or_empty (map_of groups ''street_name''))));
          postal = or_empty (map_of groups ''postal'');
          city = py_lower default_city;
          country = py_upper default_country;
          parts = (if truthy unit then [''#'' @ or_empty unit] else []) @ [street_num, street_name]
                  @ [city @ '' '' @ postal] @ [py_lower country]
      in \<lparr>na_unit_number = unit, na_street_number = street_num, na_street_name = street_name,
          na_building_name = None, na_city = city, na_state_province = None, na_postal_code = postal,
          na_country_code = country, na_normalized_full = py_join '', '' parts, na_quality_flag = VALID\<rparr>)"

definition normalize_address_in :: "string \<Rightarrow> string \<Rightarrow> string \<Rightarrow> normalized_address option \<times> quality_flag" where
  "normalize_address_in default_country default_city raw =
     (let stripped = py_strip raw
      in if stripped = [] then (None, INVALID_FORMAT)
         else if py_lower stripped \<in> set ADDRESS_PLACEHOLDERS then (None, PLACEHOLDER_VALUE)
         else case re_match SG_ADDRESS_RE stripped of
                None \<Rightarrow> partial_parse stripped default_country default_city
              | Some groups \<Rightarrow> (Some (full_parse groups default_country default_city), VALID))"

definition normalize_address :: "string \<Rightarrow> normalized_address option \<times> quality_flag" where
  "normalize_address = normalize_address_in ''SG'' ''Singapore''"

definition raw_parts :: "raw_address \<Rightarrow> string option list" where
  "raw_parts a = [ra_unit_number a, ra_street_number a, ra_street_name a, ra_building_name a, ra_city a,
     ra_state_province a, ra_postal_code a, ra_country_code a]"

definition has_structured_location :: "raw_address \<Rightarrow> bool" where
  "has_structured_location a =
     list_ex (\<lambda>v. truthy v \<and> py_strip (or_empty v) \<noteq> [])
       [ra_unit_number a, ra_street_number a, ra_street_name a, ra_building_name a]"

definition raw_address_text :: "raw_address \<Rightarrow> string option" where
  "raw_address_text a =
     (let joined = py_join '', '' (map (py_strip \<circ> or_empty) (filter truthy (raw_parts a)))
      in if joined \<noteq> [] \<and> has_structured_location a then Some joined
         else if truthy (ra_raw a) then Some (py_strip (or_empty (ra_raw a)))
         else if joined \<noteq> [] then Some joined else None)"

type_synonym dedupe_key = "string \<times> string \<times> string \<times> string \<times> string option"

definition address_dedupe_key :: "normalized_address \<Rightarrow> dedupe_key" where
  "address_dedupe_key a =
     (let full = py_lower (py_strip (collapse_ws (na_normalized_full a)))
      in if full \<noteq> [] then (na_country_code a, na_postal_code a, full, [], None)
         else (na_country_code a, na_postal_code a, na_street_number a, na_street_name a, na_unit_number a))"

definition append_unique ::
    "normalized_address \<times> quality_flag \<Rightarrow> (normalized_address \<times> quality_flag) list \<times> dedupe_key set
     \<Rightarrow> (normalized_address \<times> quality_flag) list \<times> dedupe_key set" where
  "append_unique row st =
     (let key = address_dedupe_key (fst row)
      in if key \<in> snd st then st else (fst st @ [row], insert key (snd st)))"

definition normalize_raw_addresses :: "raw_address list \<Rightarrow> (normalized_address \<times> quality_flag) list" where
  "normalize_raw_addresses addresses =
     fst (fold (\<lambda>a st. case raw_address_text a of
                  None \<Rightarrow> st
                | Some text \<Rightarrow> (case normalize_address text of
                    (None, _) \<Rightarrow> st
                  | (Some n, flag) \<Rightarrow> append_unique (n, flag) st)) addresses ([], {}))"

section \<open>White space, case and markers\<close>

lemma space_blank [simp]: "is_space CHR '' ''"
  by (simp add: is_space_def)

lemma py_strip_id:
  assumes "s \<noteq> [] \<Longrightarrow> \<not> is_space (hd s) \<and> \<not> is_space (last s)"
  shows "py_strip s = s"
proof (cases s rule: rev_cases)
  case (snoc ys y)
  then have "\<not> is_space (hd (ys @ [y]))" "\<not> is_space y" using assms by auto
  then have "dropWhile is_space s = s" unfolding snoc by (cases ys) auto
  then show ?thesis using \<open>\<not> is_space y\<close> by (simp add: py_strip_def py_lstrip_def py_rstrip_def snoc)
qed (simp add: py_strip_def py_lstrip_def py_rstrip_def)

lemma py_strip_split: "\<exists>pre post. s = pre @ py_strip s @ post \<and> list_all is_space pre \<and> list_all is_space post"
proof -
  let ?t = "dropWhile is_space s"
  have "s = takeWhile is_space s @ ?t" by simp
  moreover have "?t = rev (dropWhile is_space (rev ?t)) @ rev (takeWhile is_space (rev ?t))"
    by (metis rev_append rev_rev_ident takeWhile_dropWhile_id)
  ultimately have "s = takeWhile is_space s @ py_strip s @ rev (takeWhile is_space (rev ?t))"
    by (simp add: py_strip_def py_lstrip_def py_rstrip_def)
  moreover have "list_all is_space (takeWhile is_space s)" "list_all is_space (rev (takeWhile is_space (rev ?t)))"
    by (auto simp: list_all_iff dest: set_takeWhileD)
  ultimately show ?thesis by blast
qed

lemma py_strip_ends:
  assumes "py_strip s \<noteq> []"
  shows "\<not> is_space (hd (py_strip s))" "\<not> is_space (last (py_strip s))"
proof -
  let ?t = "dropWhile is_space s"
  have ne: "dropWhile is_space (rev ?t) \<noteq> []" using assms by (simp add: py_strip_def py_lstrip_def py_rstrip_def)
  then show "\<not> is_space (last (py_strip s))"
    using hd_dropWhile [OF ne] by (simp add: py_strip_def py_lstrip_def py_rstrip_def last_rev)
  obtain c cs where t: "?t = c # cs" using ne by (cases ?t) auto
  then have c: "\<not> is_space c" by (metis hd_dropWhile list.distinct(1) list.sel(1))
  have "dropWhile is_space (rev cs @ [c]) = dropWhile is_space (rev cs) @ [c]"
    using c by (induction "rev cs" rule: rev_induct) (auto simp: dropWhile_append)
  then show "\<not> is_space (hd (py_strip s))" using c by (simp add: py_strip_def py_lstrip_def py_rstrip_def t)
qed

lemma py_strip_idem [simp]: "py_strip (py_strip s) = py_strip s"
  by (rule py_strip_id) (simp add: py_strip_ends)

lemma no_space_strip: "list_all (\<lambda>c. \<not> is_space c) s \<Longrightarrow> py_strip s = s"
  by (rule py_strip_id) (auto simp: list_all_iff)

lemma lower_char_idem [simp]: "lower_char (lower_char c) = lower_char c"
  by (simp add: lower_char_def is_upper_letter_def Let_def of_char_of)

lemma upper_char_idem [simp]: "upper_char (upper_char c) = upper_char c"
  by (auto simp: upper_char_def is_lower_letter_def Let_def of_char_of)

lemma py_lower_idem [simp]: "py_lower (py_lower s) = py_lower s"
  by (simp add: py_lower_def)

lemma py_upper_idem [simp]: "py_upper (py_upper s) = py_upper s"
  by (simp add: py_upper_def)

lemma py_lower_append [simp]: "py_lower (s @ t) = py_lower s @ py_lower t"
  by (simp add: py_lower_def)

lemma lower_char_space [simp]: "is_space (lower_char c) = is_space c"
  by (auto simp: lower_char_def is_upper_letter_def is_space_def Let_def of_char_of)

lemma upper_char_space [simp]: "is_space (upper_char c) = is_space c"
  by (auto simp: upper_char_def is_lower_letter_def is_space_def Let_def of_char_of)

lemma py_lower_fixed: "list_all (\<lambda>c. \<not> is_upper_letter c) s \<Longrightarrow> py_lower s = s"
  by (induction s) (simp_all add: py_lower_def lower_char_def)

text \<open>Texts in which white space is single blanks.\<close>

fun collapsed :: "string \<Rightarrow> bool" where
  "collapsed (c # d # cs) = ((is_space c \<longrightarrow> c = CHR '' '' \<and> \<not> is_space d) \<and> collapsed (d # cs))"
| "collapsed [c] = (is_space c \<longrightarrow> c = CHR '' '')"
| "collapsed [] = True"

lemma collapse_ws_Nil [simp]: "collapse_ws s = [] \<longleftrightarrow> s = []"
  by (induction s rule: collapse_ws.induct) (auto split: list.splits)

lemma hd_collapse_ws: "s \<noteq> [] \<Longrightarrow> hd (collapse_ws s) = (if is_space (hd s) then CHR '' '' else hd s)"
  by (induction s rule: collapse_ws.induct) (auto split: list.splits)

lemma collapsed_Cons: "collapsed (c # s) \<longleftrightarrow> (is_space c \<longrightarrow> c = CHR '' '' \<and> (s \<noteq> [] \<longrightarrow> \<not> is_space (hd s))) \<and> collapsed s"
  by (cases s) auto

lemma collapsed_collapse: "collapsed (collapse_ws s)"
proof (induction s rule: collapse_ws.induct)
  case (2 c cs)
  show ?case
  proof (cases "is_space c")
    case True
    with 2 show ?thesis by (cases cs) (auto simp: collapsed_Cons hd_collapse_ws)
  next
    case False
    with 2 show ?thesis by (auto simp: collapsed_Cons)
  qed
qed simp

lemma collapse_collapsed: "collapsed s \<Longrightarrow> collapse_ws s = s"
  by (induction s rule: collapsed.induct) auto

lemma collapsed_append: "collapsed (s @ t) \<Longrightarrow> collapsed s \<and> collapsed t"
  by (induction s) (auto simp: collapsed_Cons hd_append split: if_splits)

lemma collapsed_strip: "collapsed s \<Longrightarrow> collapsed (py_strip s)"
  using py_strip_split [of s] by (metis collapsed_append)

lemma collapsed_lower: "collapsed (py_lower s) = collapsed s"
proof -
  have blank: "lower_char c = CHR '' '' \<longleftrightarrow> c = CHR '' ''" for c
    by (auto simp: lower_char_def is_upper_letter_def Let_def dest: arg_cong [of _ _ "of_char :: char \<Rightarrow> nat"] simp: of_char_of)
  show ?thesis by (induction s) (auto simp: py_lower_def collapsed_Cons blank hd_map)
qed

section \<open>The shape of an email\<close>

definition labels_ok :: "string list \<Rightarrow> bool" where
  "labels_ok ls = list_all (\<lambda>l. l \<noteq> [] \<and> list_all label_char l) ls"

definition dotted :: "string list \<Rightarrow> string" where
  "dotted ls = concat (map (\<lambda>l. CHR ''.'' # l) ls)"

text \<open>A local part, an at sign, labels between dots, and a last label of two letters or more.\<close>

definition is_email :: "string \<Rightarrow> string \<Rightarrow> bool" where
  "is_email local domain =
     (local \<noteq> [] \<and> list_all local_char local
      \<and> (\<exists>l ls tld. domain = l @ dotted ls @ ''.'' @ tld \<and> labels_ok (l # ls) \<and> 2 \<le> length tld \<and> list_all is_letter tld))"

lemma taken_labels:
  "taken (Star (Then (Chars (\<lambda>c. c = CHR ''.'')) (Times label_char 1 None))) s \<longleftrightarrow> (\<exists>ls. s = dotted ls \<and> labels_ok ls)"
  (is "taken (Star ?r) s \<longleftrightarrow> _")
proof
  assume "taken (Star ?r) s"
  then show "\<exists>ls. s = dotted ls \<and> labels_ok ls"
  proof (induction "Star ?r" s rule: taken.induct)
    case taken_stop
    show ?case by (intro exI [of _ "[]"]) (simp add: dotted_def labels_ok_def)
  next
    case (taken_more s t)
    then obtain ls l where "t = dotted ls" "labels_ok ls" "s = CHR ''.'' # l" "l \<noteq> []" "list_all label_char l"
      by (auto simp: taken_simps Suc_le_eq)
    then show ?case by (intro exI [of _ "l # ls"]) (simp add: dotted_def labels_ok_def)
  qed
next
  assume "\<exists>ls. s = dotted ls \<and> labels_ok ls"
  then obtain ls where "s = dotted ls" "labels_ok ls" by blast
  then show "taken (Star ?r) s"
  proof (induction ls arbitrary: s)
    case (Cons l ls)
    have "taken ?r (CHR ''.'' # l)" using Cons.prems(2)
      by (auto simp: taken_simps labels_ok_def Suc_le_eq intro!: exI [of _ "''.''"])
    moreover have "taken (Star ?r) (dotted ls)" using Cons by (simp add: labels_ok_def)
    ultimately have "taken (Star ?r) ((CHR ''.'' # l) @ dotted ls)" by (intro taken_more) simp_all
    then show ?case using Cons.prems(1) by (simp add: dotted_def)
  qed (auto simp: dotted_def intro: taken.intros)
qed

lemma taken_email: "taken EMAIL_BODY s \<longleftrightarrow> (\<exists>local domain. s = local @ ''@'' @ domain \<and> is_email local domain)"
proof
  assume "taken EMAIL_BODY s"
  then obtain local l m tld where "s = local @ ''@'' @ l @ m @ ''.'' @ tld" "local \<noteq> []" "list_all local_char local"
    "l \<noteq> []" "list_all label_char l" "2 \<le> length tld" "list_all is_letter tld"
    "taken (Star (Then (Chars (\<lambda>c. c = CHR ''.'')) (Times label_char 1 None))) m"
    unfolding EMAIL_BODY_def in_order_def by (auto simp: taken_simps Suc_le_eq)
  then show "\<exists>local domain. s = local @ ''@'' @ domain \<and> is_email local domain"
    by (fastforce simp: taken_labels [simplified] is_email_def labels_ok_def)
next
  assume "\<exists>local domain. s = local @ ''@'' @ domain \<and> is_email local domain"
  then obtain local l ls tld where parts: "s = local @ ''@'' @ l @ dotted ls @ ''.'' @ tld" "local \<noteq> []" "list_all local_char local"
    "labels_ok (l # ls)" "2 \<le> length tld" "list_all is_letter tld" by (auto simp: is_email_def)
  then have "labels_ok ls" by (simp add: labels_ok_def)
  then have star: "taken (Star (Then (Chars (\<lambda>c. c = CHR ''.'')) (Times label_char 1 None))) (dotted ls)"
    unfolding taken_labels by blast
  have body: "EMAIL_BODY = Then (Times local_char 1 None) (Then (Chars (\<lambda>c. c = CHR ''@'')) (Then (Times label_char 1 None)
      (Then (Star (Then (Chars (\<lambda>c. c = CHR ''.'')) (Times label_char 1 None)))
        (Then (Chars (\<lambda>c. c = CHR ''.'')) (Times is_letter 2 None)))))"
    by (simp add: EMAIL_BODY_def in_order_def)
  show "taken EMAIL_BODY s"
    unfolding body parts(1) using parts(2-6)
    by (intro taken_then taken_chars taken_times star) (simp_all add: labels_ok_def Suc_le_eq)
qed

lemma email_match:
  assumes "last s \<noteq> CHR 0x0A"
  shows "re_match EMAIL_RE s \<noteq> None \<longleftrightarrow> (\<exists>local domain. s = local @ ''@'' @ domain \<and> is_email local domain)"
proof -
  have "end_free EMAIL_BODY" by (simp add: EMAIL_BODY_def in_order_def)
  from re_match_end [OF this] have "re_match EMAIL_RE s \<noteq> None \<longleftrightarrow> (\<exists>u. taken EMAIL_BODY u \<and> s \<in> {u, u @ [CHR 0x0A]})"
    by (simp add: EMAIL_RE_def)
  also have "\<dots> \<longleftrightarrow> taken EMAIL_BODY s" using assms by auto
  finally show ?thesis by (simp add: taken_email)
qed

section \<open>Normalised emails\<close>

lemma rpartition_last: "c \<notin> set r \<Longrightarrow> rpartition c (l @ c # r) = Some (l, r)"
proof (induction l)
  case Nil
  then have "rpartition c r = None" by (induction r) auto
  then show ?case by simp
qed simp

lemma letter_facts: "is_letter c \<Longrightarrow> \<not> is_space c" "is_digit c \<Longrightarrow> \<not> is_space c"
  by (auto simp: is_letter_def is_upper_letter_def is_lower_letter_def is_digit_def is_space_def Let_def)

lemma local_char_not: "local_char c \<Longrightarrow> \<not> is_space c \<and> c \<noteq> CHR ''@''" "label_char c \<Longrightarrow> \<not> is_space c \<and> c \<noteq> CHR ''@''"
  using letter_facts
  by (auto simp: local_char_def label_char_def is_space_def is_letter_def is_upper_letter_def is_lower_letter_def is_digit_def)

lemma email_domain_chars:
  assumes "is_email local domain"
  shows "list_all (\<lambda>c. \<not> is_space c \<and> c \<noteq> CHR ''@'') domain" "domain \<noteq> []"
proof -
  from assms obtain l ls tld where d: "domain = l @ dotted ls @ ''.'' @ tld" "labels_ok (l # ls)" "list_all is_letter tld"
    by (auto simp: is_email_def)
  have "labels_ok ms \<Longrightarrow> list_all (\<lambda>c. \<not> is_space c \<and> c \<noteq> CHR ''@'') (dotted ms)" for ms
  proof (induction ms)
    case (Cons m ms)
    then have "list_all (\<lambda>c. \<not> is_space c \<and> c \<noteq> CHR ''@'') m"
      using local_char_not(2) by (auto simp: labels_ok_def list_all_iff)
    with Cons show ?case by (simp add: dotted_def labels_ok_def is_space_def)
  qed (simp add: dotted_def)
  then have "list_all (\<lambda>c. \<not> is_space c \<and> c \<noteq> CHR ''@'') (dotted ls)" using d(2) by (simp add: labels_ok_def)
  moreover have "list_all (\<lambda>c. \<not> is_space c \<and> c \<noteq> CHR ''@'') l"
    using d(2) local_char_not(2) by (auto simp: labels_ok_def list_all_iff)
  moreover have "label_char c" if "is_letter c" for c using that by (simp add: label_char_def)
  then have "list_all (\<lambda>c. \<not> is_space c \<and> c \<noteq> CHR ''@'') tld"
    using d(3) local_char_not(2) by (auto simp: list_all_iff)
  ultimately show "list_all (\<lambda>c. \<not> is_space c \<and> c \<noteq> CHR ''@'') domain" by (simp add: d(1) is_space_def)
  show "domain \<noteq> []" using d(1) by simp
qed

lemma is_email_parts:
  assumes "is_email local domain"
  shows "rpartition CHR ''@'' (local @ ''@'' @ domain) = Some (local, domain)"
    and "list_all (\<lambda>c. \<not> is_space c) (local @ ''@'' @ domain)"
proof -
  show "rpartition CHR ''@'' (local @ ''@'' @ domain) = Some (local, domain)"
    using email_domain_chars(1) [OF assms] rpartition_last [of "CHR ''@''" domain local] by (auto simp: list_all_iff)
  have "list_all local_char local" using assms by (simp add: is_email_def)
  then show "list_all (\<lambda>c. \<not> is_space c) (local @ ''@'' @ domain)"
    using email_domain_chars(1) [OF assms] local_char_not(1) by (auto simp: list_all_iff is_space_def)
qed

lemma email_end: "list_all (\<lambda>c. \<not> is_space c) s \<Longrightarrow> s \<noteq> [] \<Longrightarrow> last s \<noteq> CHR 0x0A"
  by (auto simp: list_all_iff is_space_def dest!: last_in_set)

lemma normalize_email_of:
  assumes "is_email local domain" and "py_lower (local @ ''@'' @ domain) = local @ ''@'' @ domain"
    and "local @ ''@'' @ domain \<notin> set EMAIL_PLACEHOLDERS" and "domain \<noteq> ''g.us''"
  shows "normalize_email (local @ ''@'' @ domain)
    = (Some (fst (canonicalize_gmail local domain) @ ''@'' @ snd (canonicalize_gmail local domain)), VALID)"
proof -
  let ?s = "local @ ''@'' @ domain"
  note parts = is_email_parts [OF assms(1)]
  have strip: "py_strip ?s = ?s" using parts(2) by (rule no_space_strip)
  have "last ?s \<noteq> CHR 0x0A" by (rule email_end [OF parts(2)]) simp
  then have "re_match EMAIL_RE ?s \<noteq> None" using email_match assms(1) by blast
  with parts(1) assms(2-4) show ?thesis
    by (simp only: normalize_email_def Let_def strip) (auto split: prod.splits)
qed

lemma normalize_email_cases:
  assumes "normalize_email raw = (Some v, f)"
  obtains local domain where "py_lower (py_strip raw) = local @ ''@'' @ domain" "is_email local domain"
    "local @ ''@'' @ domain \<notin> set EMAIL_PLACEHOLDERS" "domain \<noteq> ''g.us''"
    "v = fst (canonicalize_gmail local domain) @ ''@'' @ snd (canonicalize_gmail local domain)" "f = VALID"
proof -
  let ?s = "py_lower (py_strip raw)"
  from assms have s: "?s \<noteq> []" "?s \<notin> set EMAIL_PLACEHOLDERS" "re_match EMAIL_RE ?s \<noteq> None"
    by (auto simp: normalize_email_def Let_def split: if_splits)
  have "py_strip raw \<noteq> []" using s(1) by (auto simp: py_lower_def)
  then have "\<not> is_space (last ?s)" using py_strip_ends(2) [of raw] by (simp add: py_lower_def last_map)
  then have "last ?s \<noteq> CHR 0x0A" by (auto simp: is_space_def)
  from s(3) email_match [OF this] obtain local domain where ld: "?s = local @ ''@'' @ domain" "is_email local domain" by blast
  from assms s is_email_parts(1) [OF ld(2)] have "domain \<noteq> ''g.us''" "f = VALID"
    "v = fst (canonicalize_gmail local domain) @ ''@'' @ snd (canonicalize_gmail local domain)"
    unfolding normalize_email_def Let_def ld(1) by (auto split: if_splits prod.splits)
  with that ld s(2) show ?thesis by metis
qed

lemma gmail_domain: "is_email local ''gmail.com'' \<longleftrightarrow> local \<noteq> [] \<and> list_all local_char local"
proof -
  have "\<exists>l ls tld. ''gmail.com'' = l @ dotted ls @ ''.'' @ tld \<and> labels_ok (l # ls) \<and> 2 \<le> length tld \<and> list_all is_letter tld"
    by (rule exI [of _ "''gmail''"], rule exI [of _ "[]"], rule exI [of _ "''com''"])
      (simp add: dotted_def labels_ok_def label_char_def is_letter_def is_lower_letter_def is_upper_letter_def)
  then show ?thesis by (auto simp: is_email_def)
qed

lemma gmail_not_placeholder: "local @ ''@gmail.com'' \<notin> set EMAIL_PLACEHOLDERS"
proof -
  have "list_all (\<lambda>p. map_option snd (rpartition CHR ''@'' p) \<noteq> Some ''gmail.com'') EMAIL_PLACEHOLDERS"
    by (simp add: EMAIL_PLACEHOLDERS_def)
  moreover have "map_option snd (rpartition CHR ''@'' (local @ ''@gmail.com'')) = Some ''gmail.com''"
    using rpartition_last [of "CHR ''@''" "''gmail.com''" local] by simp
  ultimately show ?thesis by (auto simp: list_all_iff)
qed

lemma canonicalize_idem: "canonicalize_gmail (fst (canonicalize_gmail l d)) (snd (canonicalize_gmail l d)) = canonicalize_gmail l d"
proof -
  define c where "c = [c \<leftarrow> takeWhile (\<lambda>c. c \<noteq> CHR ''+'') l. c \<noteq> CHR ''.'']"
  have tw: "takeWhile (\<lambda>c. c \<noteq> CHR ''+'') c = c" by (auto simp: c_def takeWhile_eq_all_conv dest: set_takeWhileD)
  have fl: "[x \<leftarrow> c. x \<noteq> CHR ''.''] = c" by (simp add: c_def)
  have again: "canonicalize_gmail c ''gmail.com'' = (c, ''gmail.com'')"
    unfolding canonicalize_gmail_def Let_def tw fl by simp
  have eq: "canonicalize_gmail l d = (if d \<notin> set GMAIL_DOMAINS \<or> c = [] then (l, d) else (c, ''gmail.com''))"
    by (simp add: canonicalize_gmail_def c_def Let_def)
  show ?thesis
  proof (cases "d \<notin> set GMAIL_DOMAINS \<or> c = []")
    case True
    then have "canonicalize_gmail l d = (l, d)" using eq by simp
    then show ?thesis by simp
  next
    case False
    then have "canonicalize_gmail l d = (c, ''gmail.com'')" using eq by simp
    with again show ?thesis by simp
  qed
qed

lemma email_is_canonical:
  assumes "normalize_email raw = (Some v, f)"
  shows "f = VALID" "py_lower v = v" "normalize_email v = (Some v, VALID)"
    "\<exists>local domain. v = local @ ''@'' @ domain \<and> is_email local domain"
proof -
  from normalize_email_cases [OF assms] obtain local domain where ld: "py_lower (py_strip raw) = local @ ''@'' @ domain"
    "is_email local domain" "local @ ''@'' @ domain \<notin> set EMAIL_PLACEHOLDERS" "domain \<noteq> ''g.us''"
    and v: "v = fst (canonicalize_gmail local domain) @ ''@'' @ snd (canonicalize_gmail local domain)" and f: "f = VALID" by metis
  obtain l d where c: "canonicalize_gmail local domain = (l, d)" by fastforce
  have lower: "py_lower local = local" "py_lower domain = domain"
  proof -
    have "py_lower (local @ ''@'' @ domain) = local @ ''@'' @ domain" by (metis ld(1) py_lower_idem)
    then show "py_lower local = local" "py_lower domain = domain" by (simp_all add: py_lower_def append_eq_append_conv)
  qed
  have at: "py_lower (x @ ''@'' @ y) = py_lower x @ ''@'' @ py_lower y" for x y
    by (simp add: py_lower_def lower_char_def is_upper_letter_def)
  have "is_email l d \<and> py_lower (l @ ''@'' @ d) = l @ ''@'' @ d \<and> l @ ''@'' @ d \<notin> set EMAIL_PLACEHOLDERS \<and> d \<noteq> ''g.us''"
  proof (cases "canonicalize_gmail local domain = (local, domain)")
    case True
    with c have "l = local" "d = domain" by auto
    with ld(2-4) lower show ?thesis by (simp only: at simp_thms)
  next
    case False
    then have ne: "l \<noteq> []" "d = ''gmail.com''" and l: "l = [c \<leftarrow> takeWhile (\<lambda>c. c \<noteq> CHR ''+'') local. c \<noteq> CHR ''.'']"
      using c by (auto simp: canonicalize_gmail_def Let_def split: if_splits)
    have sub: "set l \<subseteq> set local" unfolding l by (auto dest: set_takeWhileD)
    have "list_all local_char l" using ld(2) sub by (auto simp: is_email_def list_all_iff)
    moreover have "py_lower l = l"
    proof -
      have "lower_char x = x" if "x \<in> set l" for x
        using lower(1) that sub unfolding py_lower_def by (metis map_eq_conv list.map_ident subsetD)
      then show ?thesis by (simp add: py_lower_def map_idI)
    qed
    moreover have "py_lower ''gmail.com'' = ''gmail.com''" by (simp add: py_lower_def lower_char_def is_upper_letter_def)
    moreover have "''gmail.com'' \<noteq> ''g.us''" by simp
    moreover have "l @ ''@'' @ d \<notin> set EMAIL_PLACEHOLDERS" using gmail_not_placeholder [of l] ne(2) by simp
    ultimately show ?thesis using ne gmail_domain [of l] by (simp only: at simp_thms)
  qed
  then have email: "is_email l d" and low: "py_lower (l @ ''@'' @ d) = l @ ''@'' @ d" and np: "l @ ''@'' @ d \<notin> set EMAIL_PLACEHOLDERS"
    and us: "d \<noteq> ''g.us''" by blast+
  have v': "v = l @ ''@'' @ d" using v c by simp
  show "f = VALID" by (rule f)
  show "py_lower v = v" unfolding v' by (rule low)
  show "normalize_email v = (Some v, VALID)"
    unfolding v' normalize_email_of [OF email low np us] using canonicalize_idem [of local domain] c by simp
  show "\<exists>local domain. v = local @ ''@'' @ domain \<and> is_email local domain" using v' email by blast
qed

section \<open>Normalised names and government identifiers\<close>

lemma name_is_canonical:
  assumes "normalize_name raw = (Some v, f)"
  shows "f = VALID" "collapsed v" "normalize_name v = (Some v, VALID)"
proof -
  from assms have v: "v = py_strip (collapse_ws raw)" "v \<noteq> []" "py_lower v \<notin> set NAME_PLACEHOLDERS" and f: "f = VALID"
    by (auto simp: normalize_name_def Let_def split: if_splits)
  have c: "collapsed v" using collapsed_collapse collapsed_strip v(1) by simp
  have "py_strip v = v" by (simp add: v(1))
  with v c show "normalize_name v = (Some v, VALID)" by (simp add: normalize_name_def collapse_collapsed)
  show "f = VALID" "collapsed v" by (rule f, rule c)
qed

lemma x_marker_code: "x_marker c \<longleftrightarrow> of_char c \<in> {88, 120 :: nat}"
proof -
  have "of_char (CHR ''X'') = (88 :: nat)" "of_char (CHR ''x'') = (120 :: nat)" by simp_all
  then show ?thesis unfolding x_marker_def by (metis insert_iff of_char_eq_iff singletonD)
qed

lemma upper_marker: "x_marker (upper_char c) \<Longrightarrow> x_marker c"
  by (auto simp: x_marker_code upper_char_def is_lower_letter_def Let_def of_char_of split: if_splits)

lemma nric_is_canonical:
  assumes "normalize_nric raw = (Some v, f)"
  shows "f = VALID" "py_upper v = v" "v \<noteq> []" "\<not> x_marker (hd v)"
    and "\<not> is_space (hd v) \<Longrightarrow> normalize_nric v = (Some v, VALID)"
proof -
  let ?d = "dropWhile x_marker (py_strip raw)"
  from assms have v: "v = py_upper ?d" "v \<noteq> []" and f: "f = VALID"
    by (auto simp: normalize_nric_def strip_leading_x_markers_def Let_def split: if_splits)
  then have ne: "?d \<noteq> []" by (auto simp: py_upper_def)
  have "\<not> x_marker (hd ?d)" using hd_dropWhile [OF ne] .
  then have hd: "\<not> x_marker (hd v)" using ne upper_marker by (auto simp: v(1) py_upper_def hd_map)
  show "f = VALID" "py_upper v = v" "v \<noteq> []" "\<not> x_marker (hd v)" using f v(2) hd by (simp_all add: v(1))
  assume "\<not> is_space (hd v)"
  moreover have "\<not> is_space (last v)"
  proof -
    have "py_strip raw \<noteq> []" using ne by auto
    moreover have "last ?d = last (py_strip raw)" using ne by (metis last_appendR takeWhile_dropWhile_id)
    ultimately show ?thesis using py_strip_ends(2) [of raw] ne by (simp add: v(1) py_upper_def last_map)
  qed
  ultimately have "py_strip v = v" using py_strip_id by blast
  moreover have "dropWhile x_marker v = v" using hd v(2) by (cases v) auto
  ultimately show "normalize_nric v = (Some v, VALID)"
    using v(2) by (simp add: normalize_nric_def strip_leading_x_markers_def v(1) Let_def)
qed

section \<open>Addresses with structure\<close>

definition first_word :: "string \<Rightarrow> string" where
  "first_word s = takeWhile (\<lambda>c. \<not> is_space c) s"

definition alnum_char :: "char \<Rightarrow> bool" where
  "alnum_char c = (is_letter c \<or> is_digit c)"

lemma alnum_not_space: "alnum_char c \<Longrightarrow> \<not> is_space c"
  using letter_facts by (auto simp: alnum_char_def)

lemma first_word_spaces:
  "list_all (\<lambda>c. \<not> is_space c) x \<Longrightarrow> ws \<noteq> [] \<Longrightarrow> list_all is_space ws \<Longrightarrow> first_word (x @ ws @ rest) = x"
  by (cases ws) (auto simp: first_word_def list_all_iff takeWhile_append2)

lemma lower_letter: "is_letter (lower_char c) = is_letter c"
  by (auto simp: lower_char_def is_letter_def is_upper_letter_def is_lower_letter_def Let_def of_char_of)

lemma taken_literal_ci:
  "taken (literal_ci [a, b, c]) s \<Longrightarrow> py_lower s = py_lower [a, b, c]"
  "taken (literal_ci [a, b, c, d, e]) s \<Longrightarrow> py_lower s = py_lower [a, b, c, d, e]"
  by (auto simp: literal_ci_def taken_simps py_lower_def)

lemma lower_alnum: "list_all is_letter (py_lower s) \<Longrightarrow> list_all alnum_char s"
  by (simp add: py_lower_def list_all_iff alnum_char_def lower_letter)

lemma taken_maybe3:
  assumes "taken (Maybe (Then a (Then (Group n b) c))) s" "s \<noteq> []"
  obtains x y z where "s = x @ y @ z" "taken a x" "taken b y" "taken c z"
  using assms by (auto simp: taken_simps)

lemma address_first_word:
  assumes "taken SG_ADDRESS_BODY s"
  shows "first_word s \<noteq> [] \<and> alnum_char (last (first_word s))"
proof -
  from assms obtain u b n ws rest where s: "s = u @ b @ n @ ws @ rest" and u: "taken UNIT_PART u"
    and b: "taken (Maybe (Then (Or (literal_ci ''Blk'') (literal_ci ''Block'')) (Times is_space 1 None))) b"
    and n: "taken STREET_NUM_PART n" and ws: "taken (Times is_space 1 None) ws"
    unfolding SG_ADDRESS_BODY_def in_order_def by (auto simp: taken_simps(2))
  have goal: ?thesis if "list_all (\<lambda>c. \<not> is_space c) x" "x \<noteq> []" "alnum_char (last x)" "w \<noteq> []" "list_all is_space w"
      "s = x @ w @ r" for x w r
    using first_word_spaces [OF that(1,4,5), of r] that by simp
  from n obtain ds l where n': "n = ds @ l" "list_all is_digit ds" "ds \<noteq> []" "l = [] \<or> (\<exists>c. l = [c] \<and> is_letter c)"
    by (auto simp: STREET_NUM_PART_def taken_simps Suc_le_eq)
  then have num: "list_all alnum_char n" "n \<noteq> []" by (auto simp: list_all_iff alnum_char_def)
  have nospace: "list_all (\<lambda>c. \<not> is_space c) x" if "list_all alnum_char x" for x
    using that alnum_not_space by (auto simp: list_all_iff)
  have lst: "alnum_char (last x)" if "list_all alnum_char x" "x \<noteq> []" for x
    using that by (auto simp: list_all_iff)
  have ws': "ws \<noteq> []" "list_all is_space ws" using ws by (auto simp: taken_simps Suc_le_eq)
  show ?thesis
  proof (cases "u = []")
    case False
    let ?unit = "Then (Times is_digit 1 (Some 3)) (Then (Chars (\<lambda>c. c = CHR ''-'')) (Times is_digit 1 (Some 4)))"
    have "UNIT_PART = Maybe (Then (Maybe (Chars (\<lambda>c. c = CHR ''#''))) (Then (Group ''unit'' ?unit) (Times is_space 1 None)))"
      by (simp add: UNIT_PART_def in_order_def)
    from taken_maybe3 [OF u [unfolded this] False] obtain h m w where hmw: "u = h @ m @ w"
      "taken (Maybe (Chars (\<lambda>c. c = CHR ''#''))) h" "taken ?unit m" "taken (Times is_space 1 None) w" .
    from hmw(3) obtain d1 d2 where m: "m = d1 @ ''-'' @ d2" "list_all is_digit d1" "list_all is_digit d2" "d2 \<noteq> []"
      by (auto simp: taken_simps Suc_le_eq)
    from hmw(2,4) have hw: "h = [] \<or> h = ''#''" "w \<noteq> []" "list_all is_space w" by (auto simp: taken_simps Suc_le_eq)
    have uu: "u = h @ (d1 @ ''-'' @ d2) @ w" by (simp add: hmw(1) m(1))
    note uu = uu hw(1) m(2-4) hw(2,3)
    show ?thesis
    proof (rule goal)
      show "s = (h @ d1 @ ''-'' @ d2) @ w @ (b @ n @ ws @ rest)" by (simp add: s uu(1))
      show "list_all (\<lambda>c. \<not> is_space c) (h @ d1 @ ''-'' @ d2)" using uu letter_facts by (auto simp: list_all_iff is_space_def)
      show "alnum_char (last (h @ d1 @ ''-'' @ d2))" using uu by (auto simp: list_all_iff alnum_char_def)
    qed (use uu in auto)
  next
    case True
    show ?thesis
    proof (cases "b = []")
      case True
      show ?thesis by (rule goal [of n ws rest]) (use s True \<open>u = []\<close> num ws' nospace lst in auto)
    next
      case False
      with b obtain k w where bb: "b = k @ w" "w \<noteq> []" "list_all is_space w" "taken (literal_ci ''Blk'') k \<or> taken (literal_ci ''Block'') k"
        by (auto simp: taken_simps Suc_le_eq)
      from bb(4) have "py_lower k \<in> {py_lower ''Blk'', py_lower ''Block''}" using taken_literal_ci by blast
      then have "list_all is_letter (py_lower k)" "k \<noteq> []"
        by (auto simp: py_lower_def lower_char_def is_upper_letter_def is_letter_def is_lower_letter_def)
      then have "list_all alnum_char k" "k \<noteq> []" using lower_alnum by auto
      then show ?thesis by (intro goal [of k w "n @ ws @ rest"]) (use s bb \<open>u = []\<close> nospace lst in auto)
    qed
  qed
qed

lemma first_word_before_spaces: "list_all is_space post \<Longrightarrow> first_word (s @ post) = first_word s"
proof -
  assume post: "list_all is_space post"
  then have none: "first_word post = []" by (cases post) (auto simp: first_word_def)
  show ?thesis using none by (induction s) (auto simp: first_word_def)
qed

lemma address_not_parsed:
  assumes "stripped = py_strip s" and "stripped \<noteq> []" and "\<not> alnum_char (last (first_word stripped))"
  shows "re_match SG_ADDRESS_RE stripped = None"
proof (rule ccontr)
  have free: "end_free SG_ADDRESS_BODY"
    by (simp add: SG_ADDRESS_BODY_def UNIT_PART_def STREET_NUM_PART_def CITY_PART_def in_order_def literal_ci_def)
  assume "re_match SG_ADDRESS_RE stripped \<noteq> None"
  then obtain u where u: "taken SG_ADDRESS_BODY u" "stripped \<in> {u, u @ [CHR 0x0A]}"
    using re_match_end [OF free] by (auto simp: SG_ADDRESS_RE_def)
  have "\<not> is_space (last stripped)" using assms(1,2) py_strip_ends(2) by simp
  then have "stripped = u" using u(2) by (auto simp: is_space_def)
  with address_first_word [OF u(1)] assms(3) show False by simp
qed

lemma structured_not_parsed:
  assumes "raw_address_text a = Some text" and "has_structured_location a"
    and parts: "filter truthy (raw_parts a) = Some p # q # ps"
    and p: "py_strip p \<noteq> []" "list_all (\<lambda>c. \<not> is_space c) (py_strip p)"
  shows "normalize_address text = partial_parse (py_strip text) ''SG'' ''Singapore''
    \<or> normalize_address text = (None, PLACEHOLDER_VALUE)"
proof -
  let ?w = "py_strip p"
  obtain rest where joined: "py_join '', '' (map (py_strip \<circ> or_empty) (filter truthy (raw_parts a))) = ?w @ '', '' @ rest"
    by (simp add: parts)
  then have joined_eq: "text = (?w @ '','') @ '' '' @ rest" using assms(1,2) p(1) by (simp add: raw_address_text_def)
  have start: "\<not> is_space (hd text)" using p by (cases ?w) (auto simp: joined_eq)
  obtain pre post where split: "text = pre @ py_strip text @ post" "list_all is_space pre" "list_all is_space post"
    using py_strip_split by blast
  have "pre = []" using start split(1,2) by (metis append_Cons list.exhaust list.pred_inject(2) list.sel(1))
  then have "first_word (py_strip text) = first_word text" using split first_word_before_spaces by (metis append_Nil)
  also have "\<dots> = ?w @ '',''"
    unfolding joined_eq using p by (simp add: first_word_def list_all_iff is_space_def takeWhile_append2)
  finally have "last (first_word (py_strip text)) = CHR '',''" by simp
  moreover have "\<not> alnum_char CHR '',''"
    by (simp add: alnum_char_def is_letter_def is_upper_letter_def is_lower_letter_def is_digit_def)
  moreover have ne: "py_strip text \<noteq> []"
  proof
    assume "py_strip text = []"
    with split have "list_all is_space text" by (metis append_Nil list_all_append)
    with start joined_eq show False by (cases ?w) auto
  qed
  ultimately have "re_match SG_ADDRESS_RE (py_strip text) = None" using address_not_parsed [OF refl ne] by simp
  with ne show ?thesis by (simp add: normalize_address_def normalize_address_in_def Let_def)
qed

section \<open>Lists of addresses\<close>

lemma search_postal_digits: "search_postal w s = Some v \<Longrightarrow> length v = 6 \<and> list_all is_digit v \<and> (\<exists>pre post. s = pre @ v @ post)"
proof (induction w s rule: search_postal.induct)
  case (2 w c cs)
  show ?case
  proof (cases "\<not> w \<and> 6 \<le> length (c # cs) \<and> list_all is_digit (take 6 (c # cs))
            \<and> (case drop 6 (c # cs) of [] \<Rightarrow> True | d # _ \<Rightarrow> \<not> word_char d)")
    case True
    then have "v = take 6 (c # cs)" using 2(2) by (simp add: Let_def)
    moreover have "c # cs = [] @ take 6 (c # cs) @ drop 6 (c # cs)" by (metis append_Nil append_take_drop_id)
    ultimately show ?thesis using True by (metis length_take min.absorb2)
  next
    case False
    then have "search_postal (word_char c) cs = Some v" using 2(2) by (simp only: search_postal.simps Let_def if_False)
    with 2(1) False show ?thesis by (metis append_Cons)
  qed
qed simp

end
