(* ===== verification/Normalization.thy ===== *)
theory Normalization
  imports Normalizers SourceKeys JsonText
begin

text \<open>
  From the envelope of a source record to its normalised identifiers, addresses and attributes
  (\<open>pipeline_normalization.py\<close>). Of the envelope only the fields these functions read are kept. The
  addresses carry the source's two types in one record: the quality flag is stored by \<open>to_model\<close>.
\<close>

record envelope =
  en_source_instance_id :: "string option"
  en_identifiers :: "raw_identifier list"
  en_addresses :: "raw_address list"
  en_attributes :: json_obj

section \<open>Identifiers\<close>

definition passthrough_normalize :: "string \<Rightarrow> string option \<times> quality_flag" where
  "passthrough_normalize raw =
     (let v = py_strip raw in if v \<noteq> [] then (Some v, VALID) else (None, INVALID_FORMAT))"

definition normalize_phone_with_hint ::
    "'n third_party \<Rightarrow> string \<Rightarrow> string option \<Rightarrow> string option \<times> quality_flag" where
  "normalize_phone_with_hint tp v region_hint =
     (case region_hint of
        None \<Rightarrow> normalize_phone tp v DEFAULT_REGION
      | Some region \<Rightarrow>
          (let hinted = normalize_phone tp v region
           in if snd hinted \<noteq> INVALID_FORMAT then hinted else normalize_phone tp v DEFAULT_REGION))"

definition identifier_normalizer :: "'n third_party \<Rightarrow> string \<Rightarrow> raw_identifier \<Rightarrow> string option \<times> quality_flag" where
  "identifier_normalizer tp id_type raw =
     (if id_type = ''phone'' then normalize_phone_with_hint tp (ri_value raw) (ri_region_hint raw)
      else if id_type = ''email'' then normalize_email (ri_value raw)
      else if id_type = ''nric'' then normalize_nric (ri_value raw)
      else passthrough_normalize (ri_value raw))"

type_synonym identifier_key = "string \<times> string option \<times> string"

text \<open>One identifier in the dictionary of the results; an empty text counts as no text.\<close>

definition add_identifier ::
    "'n third_party \<Rightarrow> envelope \<Rightarrow> raw_identifier \<Rightarrow> (identifier_key \<times> normalized_identifier) list
     \<Rightarrow> (identifier_key \<times> normalized_identifier) list result" where
  "add_identifier tp env raw results =
     (let id_type = py_strip (py_lower (ri_type raw))
      in try_bind (source_instance_for_identifier id_type
                     (str_or (ri_source_instance_id raw) (en_source_instance_id env))) (\<lambda>inst.
           let (normalized, flag) = identifier_normalizer tp id_type raw
           in if \<not> truthy normalized then ok results
              else let v = or_empty normalized; key = (id_type, inst, v)
                   in case map_of results key of
                        None \<Rightarrow> ok (AList.update key
                          \<lparr>ni_identifier_type = id_type, ni_normalized_value = v, ni_source_instance_id = inst,
                           ni_is_verified = ri_is_verified raw, ni_quality_flag = flag\<rparr> results)
                      | Some existing \<Rightarrow> ok (AList.update key
                          (existing\<lparr>ni_is_verified := ni_is_verified existing \<or> ri_is_verified raw,
                             ni_quality_flag := (if VALID \<in> {ni_quality_flag existing, flag} then VALID
                                                 else ni_quality_flag existing)\<rparr>) results)))"

definition normalize_envelope_identifiers ::
    "'n third_party \<Rightarrow> envelope \<Rightarrow> normalized_identifier list result" where
  "normalize_envelope_identifiers tp env =
     try_bind (fold_result (add_identifier tp env) (en_identifiers env) []) (\<lambda>results. ok (map snd results))"

section \<open>Addresses\<close>

definition to_model :: "normalized_address \<times> quality_flag \<Rightarrow> normalized_address" where
  "to_model = (\<lambda>(address, flag). address\<lparr>na_quality_flag := flag\<rparr>)"

definition normalize_envelope_addresses :: "envelope \<Rightarrow> normalized_address list" where
  "normalize_envelope_addresses env =
     (case (en_addresses env, json_get (en_attributes env) ''address'') of
        ([], JStr raw) \<Rightarrow>
          (if raw = [] then []
           else case normalize_address raw of (None, _) \<Rightarrow> [] | (Some parsed, flag) \<Rightarrow> [to_model (parsed, flag)])
      | _ \<Rightarrow> map to_model (normalize_raw_addresses (en_addresses env)))"

definition normalize_envelope_address :: "envelope \<Rightarrow> normalized_address option" where
  "normalize_envelope_address env =
     (case normalize_envelope_addresses env of [] \<Rightarrow> None | a # _ \<Rightarrow> Some a)"

section \<open>Attributes\<close>

definition NAME_ATTRIBUTES :: "string list" where
  "NAME_ATTRIBUTES = [''full_name'', ''preferred_name'', ''legal_name'']"

definition normalize_envelope_attributes :: "envelope \<Rightarrow> normalized_attribute list" where
  "normalize_envelope_attributes env =
     [\<lparr>nt_attribute_name = name, nt_attribute_value = v, nt_quality_flag = flag\<rparr>.
        (name, raw) \<leftarrow> en_attributes env, name \<noteq> ''address'',
        (normalized, flag) \<leftarrow> [let t = (case raw of JStr s \<Rightarrow> s | _ \<Rightarrow> json_repr raw)
                               in if name \<in> set NAME_ATTRIBUTES then normalize_name t else passthrough_normalize t],
        v \<leftarrow> (case normalized of None \<Rightarrow> [] | Some s \<Rightarrow> if s = [] then [] else [s])]"

section \<open>What the identifiers are\<close>

text \<open>The key and the evidence of one raw identifier, on its own.\<close>

definition identifier_evidence :: "'n third_party \<Rightarrow> envelope \<Rightarrow> raw_identifier \<Rightarrow> (identifier_key \<times> bool) option" where
  "identifier_evidence tp env raw =
     (let id_type = py_strip (py_lower (ri_type raw))
      in case source_instance_for_identifier id_type (str_or (ri_source_instance_id raw) (en_source_instance_id env)) of
           Inl e \<Rightarrow> None
         | Inr inst \<Rightarrow> (case fst (identifier_normalizer tp id_type raw) of
             None \<Rightarrow> None
           | Some v \<Rightarrow> if v = [] then None else Some ((id_type, inst, v), ri_is_verified raw)))"

lemma normalized_is_valid:
  assumes "identifier_normalizer tp ty raw = (Some v, flag)"
  shows "flag = VALID"
proof -
  have phone: "normalize_phone tp x region = (Some v, f) \<Longrightarrow> f = VALID" for x region f
    by (auto simp: normalize_phone_def Let_def split: if_splits option.splits)
  from assms show ?thesis
    using phone email_is_canonical(1) nric_is_canonical(1)
    by (auto simp: identifier_normalizer_def normalize_phone_with_hint_def passthrough_normalize_def Let_def
        split: if_splits option.splits)
qed

definition key_of_identifier :: "normalized_identifier \<Rightarrow> identifier_key" where
  "key_of_identifier i = (ni_identifier_type i, ni_source_instance_id i, ni_normalized_value i)"

text \<open>The dictionary agrees with the raw identifiers seen so far.\<close>

definition entry_ok ::
    "'n third_party \<Rightarrow> envelope \<Rightarrow> raw_identifier list \<Rightarrow> identifier_key \<Rightarrow> normalized_identifier option \<Rightarrow> bool" where
  "entry_ok tp env raws k entry =
     (case entry of
        None \<Rightarrow> (\<forall>raw \<in> set raws. \<forall>b. identifier_evidence tp env raw \<noteq> Some (k, b))
      | Some i \<Rightarrow> key_of_identifier i = k \<and> ni_quality_flag i = VALID
          \<and> (\<exists>raw \<in> set raws. \<exists>b. identifier_evidence tp env raw = Some (k, b))
          \<and> ni_is_verified i = (\<exists>raw \<in> set raws. identifier_evidence tp env raw = Some (k, True)))"

definition collected ::
    "'n third_party \<Rightarrow> envelope \<Rightarrow> raw_identifier list \<Rightarrow> (identifier_key \<times> normalized_identifier) list \<Rightarrow> bool" where
  "collected tp env raws results = (distinct (map fst results) \<and> (\<forall>k. entry_ok tp env raws k (map_of results k)))"

lemma collectedD:
  assumes "collected tp env raws results"
  shows "distinct (map fst results)" "entry_ok tp env raws k (map_of results k)"
  using assms unfolding collected_def by blast+

lemma entry_other:
  "entry_ok tp env raws k e \<Longrightarrow> (\<And>b. identifier_evidence tp env raw \<noteq> Some (k, b)) \<Longrightarrow> entry_ok tp env (raws @ [raw]) k e"
  by (cases e) (auto simp: entry_ok_def)

lemma collected_skip:
  assumes "collected tp env raws results" "identifier_evidence tp env raw = None"
  shows "collected tp env (raws @ [raw]) results"
  using assms by (simp add: collected_def entry_other)

lemma collected_update:
  assumes inv: "collected tp env raws results" and ev: "identifier_evidence tp env raw = Some (k, b)"
    and i: "entry_ok tp env (raws @ [raw]) k (Some i)"
  shows "collected tp env (raws @ [raw]) (AList.update k i results)"
  unfolding collected_def
proof (intro conjI allI)
  show "distinct (map fst (AList.update k i results))" using inv by (simp add: collected_def distinct_update)
  show "entry_ok tp env (raws @ [raw]) k' (map_of (AList.update k i results) k')" for k'
  proof (cases "k' = k")
    case True
    with i show ?thesis by (simp add: update_conv')
  next
    case False
    have "entry_ok tp env raws k' (map_of results k')" by (rule collectedD(2) [OF inv])
    then have "entry_ok tp env (raws @ [raw]) k' (map_of results k')" by (rule entry_other) (use ev False in simp)
    with False show ?thesis by (simp add: update_conv')
  qed
qed

lemma collected_step:
  assumes "add_identifier tp env raw results = Inr r" and inv: "collected tp env raws results"
  shows "collected tp env (raws @ [raw]) r"
proof -
  let ?ty = "py_strip (py_lower (ri_type raw))"
  from assms(1) obtain inst where inst: "source_instance_for_identifier ?ty (str_or (ri_source_instance_id raw) (en_source_instance_id env)) = Inr inst"
    by (auto simp: add_identifier_def Let_def try_bind_Inr_iff)
  obtain normalized flag where n: "identifier_normalizer tp ?ty raw = (normalized, flag)" by fastforce
  show ?thesis
  proof (cases "truthy normalized")
    case False
    then have "r = results" using assms(1) inst n by (simp add: add_identifier_def Let_def)
    moreover have "identifier_evidence tp env raw = None"
      using False inst n by (cases normalized) (auto simp: identifier_evidence_def Let_def)
    ultimately show ?thesis using collected_skip inv by blast
  next
    case True
    then obtain v where v: "normalized = Some v" "v \<noteq> []" by (cases normalized) auto
    let ?k = "(?ty, inst, v)"
    have ev: "identifier_evidence tp env raw = Some (?k, ri_is_verified raw)"
      using v inst n by (simp add: identifier_evidence_def Let_def)
    have flag: "flag = VALID" using normalized_is_valid n v by metis
    have old: "entry_ok tp env raws ?k (map_of results ?k)" by (rule collectedD(2) [OF inv])
    show ?thesis
    proof (cases "map_of results ?k")
      case None
      let ?i = "\<lparr>ni_identifier_type = ?ty, ni_normalized_value = v, ni_source_instance_id = inst,
          ni_is_verified = ri_is_verified raw, ni_quality_flag = VALID\<rparr>"
      have r: "r = AList.update ?k ?i results"
        using assms(1) inst n v flag None by (simp add: add_identifier_def Let_def)
      show ?thesis
        unfolding r by (rule collected_update [OF inv ev]) (use old None ev in \<open>auto simp: entry_ok_def key_of_identifier_def\<close>)
    next
      case (Some i)
      let ?i = "i\<lparr>ni_is_verified := ni_is_verified i \<or> ri_is_verified raw, ni_quality_flag := VALID\<rparr>"
      have "ni_quality_flag i = VALID" using old Some by (simp add: entry_ok_def)
      then have r: "r = AList.update ?k ?i results"
        using assms(1) inst n v flag Some by (simp add: add_identifier_def Let_def)
      show ?thesis
        unfolding r by (rule collected_update [OF inv ev]) (use old Some ev in \<open>auto simp: entry_ok_def key_of_identifier_def\<close>)
    qed
  qed
qed

lemma collected_fold:
  "fold_result (add_identifier tp env) xs results = Inr r \<Longrightarrow> collected tp env raws results \<Longrightarrow> collected tp env (raws @ xs) r"
proof (induction xs arbitrary: results raws)
  case (Cons x xs)
  then obtain r1 where "add_identifier tp env x results = Inr r1" "fold_result (add_identifier tp env) xs r1 = Inr r"
    by (auto simp: try_bind_Inr_iff)
  with Cons.IH [of r1 "raws @ [x]"] collected_step Cons.prems(2) show ?case by fastforce
qed simp

lemma fold_raises:
  "fold_result (add_identifier tp env) xs results = Inl e \<Longrightarrow>
   \<exists>raw \<in> set xs. source_instance_for_identifier (py_strip (py_lower (ri_type raw)))
      (str_or (ri_source_instance_id raw) (en_source_instance_id env)) = Inl e"
proof (induction xs arbitrary: results)
  case (Cons x xs)
  show ?case
  proof (cases "add_identifier tp env x results")
    case (Inl e')
    then have "source_instance_for_identifier (py_strip (py_lower (ri_type x)))
        (str_or (ri_source_instance_id x) (en_source_instance_id env)) = Inl e'"
      by (auto simp: add_identifier_def Let_def try_bind_def split: sum.splits if_splits option.splits prod.splits)
    with Inl Cons.prems show ?thesis by simp
  next
    case (Inr r)
    with Cons.prems have "fold_result (add_identifier tp env) xs r = Inl e" by simp
    from Cons.IH [OF this] show ?thesis by auto
  qed
qed simp

section \<open>Properties\<close>

text \<open>C34: the identifiers of a record are what its raw identifiers are worth on their own: one for each
  type, scope and normalised value, of valid quality, and verified exactly when some raw identifier
  for it is. Neither the order of the raw identifiers nor repetitions matter; the function raises
  only on a CRM key whose source instance is no slug.\<close>

theorem identifiers_of_record:
  "case normalize_envelope_identifiers tp env of
     Inl e \<Rightarrow> \<exists>raw \<in> set (en_identifiers env).
       source_instance_for_identifier (py_strip (py_lower (ri_type raw)))
         (str_or (ri_source_instance_id raw) (en_source_instance_id env)) = Inl e
   | Inr ids \<Rightarrow> distinct (map key_of_identifier ids)
       \<and> (\<forall>k b. (\<exists>i \<in> set ids. key_of_identifier i = k \<and> ni_quality_flag i = VALID \<and> ni_is_verified i = b)
            \<longleftrightarrow> (\<exists>raw \<in> set (en_identifiers env). \<exists>c. identifier_evidence tp env raw = Some (k, c))
              \<and> b = (\<exists>raw \<in> set (en_identifiers env). identifier_evidence tp env raw = Some (k, True)))"
proof (cases "fold_result (add_identifier tp env) (en_identifiers env) []")
  case (Inl e)
  then have "normalize_envelope_identifiers tp env = Inl e" by (simp add: normalize_envelope_identifiers_def)
  with fold_raises [OF Inl] show ?thesis by simp
next
  case (Inr results)
  have "collected tp env [] []" by (simp add: collected_def entry_ok_def)
  with collected_fold [OF Inr] have col: "collected tp env (en_identifiers env) results" by fastforce
  then have dist: "distinct (map fst results)" and entry: "entry_ok tp env (en_identifiers env) k (map_of results k)" for k
    by (rule collectedD)+
  have key: "key_of_identifier i = k" if "(k, i) \<in> set results" for k i
    using map_of_is_SomeI [OF dist that] entry [of k] by (simp add: entry_ok_def)
  then have keys: "map key_of_identifier (map snd results) = map fst results" by auto
  have "(\<exists>i \<in> set (map snd results). key_of_identifier i = k \<and> ni_quality_flag i = VALID \<and> ni_is_verified i = b)
      \<longleftrightarrow> (\<exists>raw \<in> set (en_identifiers env). \<exists>c. identifier_evidence tp env raw = Some (k, c))
        \<and> b = (\<exists>raw \<in> set (en_identifiers env). identifier_evidence tp env raw = Some (k, True))" (is "?L \<longleftrightarrow> ?R") for k b
  proof -
    have "?L \<longleftrightarrow> (\<exists>i. map_of results k = Some i \<and> ni_quality_flag i = VALID \<and> ni_is_verified i = b)"
    proof
      assume ?L
      then obtain k' i where i: "(k', i) \<in> set results" "key_of_identifier i = k" "ni_quality_flag i = VALID" "ni_is_verified i = b" by auto
      with key have "(k, i) \<in> set results" by blast
      with map_of_is_SomeI [OF dist this] i show "\<exists>i. map_of results k = Some i \<and> ni_quality_flag i = VALID \<and> ni_is_verified i = b" by blast
    next
      assume "\<exists>i. map_of results k = Some i \<and> ni_quality_flag i = VALID \<and> ni_is_verified i = b"
      then obtain i where i: "map_of results k = Some i" "ni_quality_flag i = VALID" "ni_is_verified i = b" by blast
      then have mem: "(k, i) \<in> set results" by (blast dest: map_of_SomeD)
      then have "i \<in> set (map snd results)" by force
      with key [OF mem] i show ?L by blast
    qed
    also have "\<dots> \<longleftrightarrow> ?R"
      using entry [of k] by (cases "map_of results k") (auto simp: entry_ok_def)
    finally show ?thesis .
  qed
  moreover have "distinct (map key_of_identifier (map snd results))" by (simp only: keys dist)
  moreover have "normalize_envelope_identifiers tp env = Inr (map snd results)"
    using Inr by (simp add: normalize_envelope_identifiers_def)
  ultimately show ?thesis unfolding sum.case by (simp only: sum.case) blast
qed

text \<open>C35: normalised values are stable: normalising the normal form of an email, a name or a government
  identifier gives it again. An email is a local part and dotted labels in lower case; white space
  in a name is single blanks; a government identifier is in upper case without marker in front.
  The one exception is a government identifier with a blank after its markers, which keeps the blank.\<close>

theorem normal_forms_are_stable:
  "(normalize_email raw = (Some v, f) \<longrightarrow>
      normalize_email v = (Some v, VALID) \<and> py_lower v = v \<and> (\<exists>local domain. v = local @ ''@'' @ domain \<and> is_email local domain))
   \<and> (normalize_name raw = (Some v, f) \<longrightarrow> normalize_name v = (Some v, VALID) \<and> collapsed v)
   \<and> (normalize_nric raw = (Some v, f) \<longrightarrow>
        py_upper v = v \<and> \<not> x_marker (hd v) \<and> (\<not> is_space (hd v) \<longrightarrow> normalize_nric v = (Some v, VALID)))"
proof (intro conjI impI)
  assume "normalize_email raw = (Some v, f)"
  note email_is_canonical [OF this]
  then show "normalize_email v = (Some v, VALID)" "py_lower v = v" "\<exists>local domain. v = local @ ''@'' @ domain \<and> is_email local domain"
    by blast+
next
  assume "normalize_name raw = (Some v, f)"
  note name_is_canonical [OF this]
  then show "normalize_name v = (Some v, VALID)" "collapsed v" by blast+
next
  assume "normalize_nric raw = (Some v, f)"
  note nric_is_canonical [OF this]
  then show "py_upper v = v" "\<not> x_marker (hd v)" "\<not> is_space (hd v) \<Longrightarrow> normalize_nric v = (Some v, VALID)"
    by blast+
qed

theorem normal_forms_are_stable_witness:
  "normalize_email '' A.b+c@GoogleMail.com'' = (Some ''ab@gmail.com'', VALID)
   \<and> normalize_email ''ab@gmail.com'' = (Some ''ab@gmail.com'', VALID)"
proof -
  have run: "normalize_email '' A.b+c@GoogleMail.com'' = (Some ''ab@gmail.com'', VALID)" by code_simp
  with normal_forms_are_stable [of "'' A.b+c@GoogleMail.com''" "''ab@gmail.com''" VALID] show ?thesis by blast
qed

text \<open>A blank between the markers and a government identifier survives, so the same identifier has two
  normal forms.\<close>

lemma nric_keeps_blank:
  assumes "s \<noteq> []" "list_all (\<lambda>c. \<not> is_space c) s" "\<not> x_marker (hd s)"
  shows "normalize_nric (''x '' @ s) = (Some ('' '' @ py_upper s), VALID)"
    and "normalize_nric (''x'' @ s) = (Some (py_upper s), VALID)"
proof -
  obtain c cs where s: "s = c # cs" using assms(1) by (cases s) auto
  have x: "x_marker CHR ''x''" "\<not> x_marker CHR '' ''" "\<not> is_space CHR ''x''" "upper_char CHR '' '' = CHR '' ''"
    by (simp_all add: x_marker_def is_space_def upper_char_def is_lower_letter_def)
  have "\<not> is_space (last s)" using assms(1,2) by (auto simp: list_all_iff)
  then have strip: "py_strip (''x '' @ s) = ''x '' @ s" "py_strip (''x'' @ s) = ''x'' @ s"
    using assms(1) x(3) by (auto intro!: py_strip_id)
  show "normalize_nric (''x '' @ s) = (Some ('' '' @ py_upper s), VALID)"
    unfolding normalize_nric_def strip_leading_x_markers_def strip using x by (simp add: py_upper_def Let_def)
  show "normalize_nric (''x'' @ s) = (Some (py_upper s), VALID)"
    unfolding normalize_nric_def strip_leading_x_markers_def strip using x assms(3) by (simp add: py_upper_def Let_def s)
qed

text \<open>C36: the fields of a structured address are joined with commas, which the pattern of addresses does
  not accept after a number: when the first field given is one word and another follows, as with a unit
  or street number in front, the text is parsed only in part or not at all. The unit and the
  street number are then lost, the building too, and the whole text stands for the street name. (An address whose first
  field has several words can still be parsed in full.)\<close>

theorem structured_addresses_lose_their_fields:
  assumes "raw_address_text a = Some t" and "has_structured_location a"
    and "filter truthy (raw_parts a) = Some p # q # ps"
    and "py_strip p \<noteq> []" and "list_all (\<lambda>c. \<not> is_space c) (py_strip p)"
  shows "case normalize_address t of
     (None, flag) \<Rightarrow> flag \<noteq> VALID
   | (Some n, flag) \<Rightarrow> flag = PARTIAL_PARSE \<and> na_unit_number n = None \<and> na_street_number n = []
       \<and> na_building_name n = None \<and> na_street_name n = py_lower (py_strip (collapse_ws (py_strip t)))
       \<and> length (na_postal_code n) = 6 \<and> list_all is_digit (na_postal_code n)
       \<and> (\<exists>pre post. py_strip t = pre @ na_postal_code n @ post)"
proof (cases "normalize_address t = (None, PLACEHOLDER_VALUE)")
  case False
  then have run: "normalize_address t = partial_parse (py_strip t) ''SG'' ''Singapore''" using structured_not_parsed [OF assms] by blast
  show ?thesis
  proof (cases "search_postal False (py_strip t)")
    case None
    then show ?thesis by (simp add: run partial_parse_def)
  next
    case (Some v)
    note digits = search_postal_digits [OF Some]
    show ?thesis unfolding run partial_parse_def Some by (simp add: Let_def) (use digits in blast)
  qed
qed simp

definition sample_address :: raw_address where
  "sample_address =
     \<lparr>ra_raw = None, ra_unit_number = None, ra_street_number = Some ''163A'', ra_street_name = Some ''Rivervale Crescent'',
      ra_building_name = None, ra_city = Some ''Singapore'', ra_state_province = None, ra_postal_code = Some ''541163'',
      ra_country_code = None\<rparr>"

theorem structured_addresses_lose_their_fields_witness:
  "raw_address_text sample_address = Some ''163A, Rivervale Crescent, Singapore, 541163''
   \<and> (case fst (normalize_address ''163A, Rivervale Crescent, Singapore, 541163'') of
        None \<Rightarrow> False | Some n \<Rightarrow> na_street_number n = [] \<and> na_unit_number n = None)"
proof -
  have raw: "raw_address_text sample_address = Some ''163A, Rivervale Crescent, Singapore, 541163''" by code_simp
  have parsed: "fst (normalize_address ''163A, Rivervale Crescent, Singapore, 541163'') \<noteq> None" by code_simp
  have "has_structured_location sample_address" by code_simp
  moreover have "filter truthy (raw_parts sample_address) = Some ''163A'' # Some ''Rivervale Crescent'' # [Some ''Singapore'', Some ''541163'']"
    by code_simp
  moreover have "py_strip ''163A'' \<noteq> []" "list_all (\<lambda>c. \<not> is_space c) (py_strip ''163A'')" by code_simp+
  ultimately have "case normalize_address ''163A, Rivervale Crescent, Singapore, 541163'' of
     (None, flag) \<Rightarrow> flag \<noteq> VALID
   | (Some n, flag) \<Rightarrow> flag = PARTIAL_PARSE \<and> na_unit_number n = None \<and> na_street_number n = []
       \<and> na_building_name n = None
       \<and> na_street_name n = py_lower (py_strip (collapse_ws (py_strip ''163A, Rivervale Crescent, Singapore, 541163'')))
       \<and> length (na_postal_code n) = 6 \<and> list_all is_digit (na_postal_code n)
       \<and> (\<exists>pre post. py_strip ''163A, Rivervale Crescent, Singapore, 541163'' = pre @ na_postal_code n @ post)"
    by (rule structured_addresses_lose_their_fields [OF raw])
  with raw parsed show ?thesis by (auto split: option.splits prod.splits)
qed

end
