(* ===== verification/JsonParse.thy ===== *)
theory JsonParse
  imports JsonText SourceKeys
begin

text \<open>
  \<open>json.loads\<close>: the recursive-descent scanner of Python's \<open>json\<close> package on the text, with its white
  space, escapes, numbers and repeated keys, of which the last wins. The first argument bounds the
  nesting; the length of the text always suffices. \<open>NaN\<close>, infinities and characters beyond Latin-1
  are no values of the model, and reading them gives \<open>None\<close> like a text that is no JSON.
\<close>

section \<open>Tokens\<close>

definition json_space :: "char \<Rightarrow> bool" where
  "json_space c = (of_char c \<in> {32, 9, 10, 13 :: nat})"

definition skip_ws :: "string \<Rightarrow> string" where
  "skip_ws s = dropWhile json_space s"

definition hex_value :: "char \<Rightarrow> nat option" where
  "hex_value c =
     (let n = of_char c :: nat
      in if 48 \<le> n \<and> n \<le> 57 then Some (n - 48)
         else if 65 \<le> n \<and> n \<le> 70 then Some (n - 55)
         else if 97 \<le> n \<and> n \<le> 102 then Some (n - 87) else None)"

fun hex_number :: "nat \<Rightarrow> string \<Rightarrow> nat option" where
  "hex_number acc [] = Some acc"
| "hex_number acc (c # cs) =
     (case hex_value c of None \<Rightarrow> None | Some d \<Rightarrow> hex_number (16 * acc + d) cs)"

definition unescape :: "char \<Rightarrow> char option" where
  "unescape c =
     (if c = CHR 0x22 \<or> c = CHR 0x5C \<or> c = CHR ''/'' then Some c
      else map_of [(CHR ''b'', CHR 0x08), (CHR ''f'', CHR 0x0C), (CHR ''n'', CHR 0x0A), (CHR ''r'', CHR 0x0D),
                   (CHR ''t'', CHR 0x09)] c)"

definition prepend :: "char \<Rightarrow> (string \<times> string) option \<Rightarrow> (string \<times> string) option" where
  "prepend c r = map_option (\<lambda>(t, rest). (c # t, rest)) r"

text \<open>The text after the opening quote; control characters are refused.\<close>

fun parse_string :: "string \<Rightarrow> (string \<times> string) option" where
  "parse_string [] = None"
| "parse_string (c # cs) =
     (if c = CHR 0x22 then Some ([], cs)
      else if c = CHR 0x5C
      then (case cs of
              [] \<Rightarrow> None
            | d # ds \<Rightarrow>
                if d = CHR ''u''
                then (case ds of
                        h1 # h2 # h3 # h4 # rest \<Rightarrow>
                          (case hex_number 0 [h1, h2, h3, h4] of
                             None \<Rightarrow> None
                           | Some n \<Rightarrow> if n < 256 then prepend (char_of n) (parse_string rest) else None)
                      | _ \<Rightarrow> None)
                else (case unescape d of None \<Rightarrow> None | Some x \<Rightarrow> prepend x (parse_string ds)))
      else if (of_char c :: nat) < 32 then None
      else prepend c (parse_string cs))"

text \<open>The three groups of \<open>(-?(?:0|[1-9]\d*))(\.\d+)?([eE][-+]?\d+)?\<close>, and what is left.\<close>

definition int_part :: "string \<Rightarrow> (bool \<times> string \<times> string) option" where
  "int_part s =
     (let (neg, u) = (case s of c # cs \<Rightarrow> if c = CHR ''-'' then (True, cs) else (False, s) | [] \<Rightarrow> (False, s))
      in case u of
           [] \<Rightarrow> None
         | c # cs \<Rightarrow>
             if c = CHR ''0'' then Some (neg, [c], cs)
             else if is_digit c then Some (neg, takeWhile is_digit u, dropWhile is_digit u)
             else None)"

definition frac_part :: "string \<Rightarrow> string \<times> string" where
  "frac_part s =
     (case s of
        c # cs \<Rightarrow> if c = CHR ''.'' \<and> takeWhile is_digit cs \<noteq> [] then (takeWhile is_digit cs, dropWhile is_digit cs) else ([], s)
      | [] \<Rightarrow> ([], s))"

definition exp_part :: "string \<Rightarrow> int option \<times> string" where
  "exp_part s =
     (case s of
        c # cs \<Rightarrow>
          if c = CHR ''e'' \<or> c = CHR ''E''
          then (let (neg, u) = (case cs of d # ds \<Rightarrow> if d = CHR ''-'' then (True, ds)
                                            else if d = CHR ''+'' then (False, ds) else (False, cs)
                                  | [] \<Rightarrow> (False, cs));
                    ds = takeWhile is_digit u
                in if ds = [] then (None, s)
                   else (Some (if neg then - int (read_nat ds) else int (read_nat ds)), dropWhile is_digit u))
          else (None, s)
      | [] \<Rightarrow> (None, s))"

definition parse_number :: "string \<Rightarrow> (json \<times> string) option" where
  "parse_number s =
     (case int_part s of
        None \<Rightarrow> None
      | Some (neg, ds, r) \<Rightarrow>
          (let (fs, r') = frac_part r; (ex, r'') = exp_part r'
           in if fs = [] \<and> ex = None
              then Some (JInt (if neg then - int (read_nat ds) else int (read_nat ds)), r'')
              else let m = fl (of_nat (read_nat (ds @ fs))
                               * 10 powi ((case ex of None \<Rightarrow> 0 | Some k \<Rightarrow> k) - int (length fs)))
                   in Some (JFloat (if neg then - m else m), r'')))"

section \<open>Values\<close>

fun parse_value :: "nat \<Rightarrow> string \<Rightarrow> (json \<times> string) option"
  and parse_items :: "nat \<Rightarrow> string \<Rightarrow> (json list \<times> string) option"
  and parse_members :: "nat \<Rightarrow> string \<Rightarrow> (json_obj \<times> string) option" where
  "parse_value 0 s = None"
| "parse_value (Suc n) s =
     (case s of
        [] \<Rightarrow> None
      | c # cs \<Rightarrow>
          if c = CHR 0x22 then map_option (\<lambda>(t, r). (JStr t, r)) (parse_string cs)
          else if c = CHR ''{''
          then (case skip_ws cs of
                  [] \<Rightarrow> None
                | d # r \<Rightarrow> if d = CHR ''}'' then Some (JObj [], r)
                           else map_option (\<lambda>(ms, r). (JObj (dict_of [] ms), r)) (parse_members n (d # r)))
          else if c = CHR ''[''
          then (case skip_ws cs of
                  [] \<Rightarrow> None
                | d # r \<Rightarrow> if d = CHR '']'' then Some (JList [], r)
                           else map_option (\<lambda>(vs, r). (JList vs, r)) (parse_items n (d # r)))
          else if starts_with s ''null'' then Some (JNull, drop 4 s)
          else if starts_with s ''true'' then Some (JBool True, drop 4 s)
          else if starts_with s ''false'' then Some (JBool False, drop 5 s)
          else parse_number s)"
| "parse_items 0 s = None"
| "parse_items (Suc n) s =
     (case parse_value n s of
        None \<Rightarrow> None
      | Some (v, r) \<Rightarrow>
          (case skip_ws r of
             [] \<Rightarrow> None
           | c # r' \<Rightarrow> if c = CHR '','' then map_option (\<lambda>(vs, r). (v # vs, r)) (parse_items n (skip_ws r'))
                       else if c = CHR '']'' then Some ([v], r') else None))"
| "parse_members 0 s = None"
| "parse_members (Suc n) s =
     (case s of
        [] \<Rightarrow> None
      | q # cs \<Rightarrow>
          if q \<noteq> CHR 0x22 then None
          else (case parse_string cs of
                  None \<Rightarrow> None
                | Some (k, r) \<Rightarrow>
                    (case skip_ws r of
                       [] \<Rightarrow> None
                     | c # r' \<Rightarrow>
                         if c \<noteq> CHR '':'' then None
                         else (case parse_value n (skip_ws r') of
                                 None \<Rightarrow> None
                               | Some (v, r) \<Rightarrow>
                                   (case skip_ws r of
                                      [] \<Rightarrow> None
                                    | d # r' \<Rightarrow>
                                        if d = CHR '','' then map_option (\<lambda>(ms, r). ((k, v) # ms, r)) (parse_members n (skip_ws r'))
                                        else if d = CHR ''}'' then Some ([(k, v)], r') else None)))))"

definition json_loads :: "string \<Rightarrow> json option" where
  "json_loads s =
     (case parse_value (length s) (skip_ws s) of
        None \<Rightarrow> None
      | Some (v, rest) \<Rightarrow> if skip_ws rest = [] then Some v else None)"

lemma json_loads_sample:
  "json_loads (''  {'' @ json_string ''a b'' @ '' : [1, -20 ,3.5e1,{}], '' @ json_string ''a b'' @ '': null}'') = Some (JObj [(''a b'', JNull)])"
  "json_loads ''[1,]'' = None" "json_loads ''[0.5, true]'' = Some (JList [JFloat (1/2), JBool True])" "json_loads ''01'' = None"
  by code_simp+

section \<open>What \<open>json.dumps\<close> writes is read back\<close>

text \<open>Values whose objects have distinct keys and whose floats are written without sign and exponent.\<close>

definition plain_float :: "f64 \<Rightarrow> bool" where
  "plain_float x =
     (let s = float_repr x; ds = takeWhile is_digit s
      in ds \<noteq> [] \<and> (hd ds = CHR ''0'' \<longrightarrow> ds = ''0'')
         \<and> (case dropWhile is_digit s of
               [] \<Rightarrow> False
             | c # fs \<Rightarrow> c = CHR ''.'' \<and> fs \<noteq> [] \<and> list_all is_digit fs
                 \<and> fl (of_nat (read_nat (ds @ fs)) * 10 powi (- int (length fs))) = x))"

fun plain_json :: "json \<Rightarrow> bool" where
  "plain_json (JFloat x) = plain_float x"
| "plain_json (JList xs) = list_all plain_json xs"
| "plain_json (JObj d) = (distinct (map fst d) \<and> list_all (\<lambda>(k, v). plain_json v) d)"
| "plain_json v = True"

fun nesting :: "nat list \<Rightarrow> nat" where
  "nesting [] = 0"
| "nesting (n # ns) = Suc (max n (nesting ns))"

fun json_depth :: "json \<Rightarrow> nat" where
  "json_depth (JList xs) = Suc (nesting (map json_depth xs))"
| "json_depth (JObj d) = Suc (nesting (map (\<lambda>(k, v). json_depth v) d))"
| "json_depth v = 1"

lemma hex_digit_value: "n < 16 \<Longrightarrow> hex_value (hex_digit n) = Some n"
  by (auto simp: hex_value_def hex_digit_def of_char_of Let_def)

lemma control_chars:
  "char_of (10 :: nat) = CHR 0x0A" "char_of (13 :: nat) = CHR 0x0D" "char_of (9 :: nat) = CHR 0x09"
  "char_of (12 :: nat) = CHR 0x0C" "char_of (8 :: nat) = CHR 0x08"
  by code_simp+

lemma parse_escape: "parse_string (escape_char c @ s) = prepend c (parse_string s)"
proof -
  let ?n = "of_char c :: nat"
  have c: "c = char_of ?n" "?n < 256" by simp_all
  consider "c = CHR 0x22 \<or> c = CHR 0x5C" | "?n \<in> {10, 13, 9, 12, 8}" "c \<noteq> CHR 0x22" "c \<noteq> CHR 0x5C"
    | "?n \<notin> {10, 13, 9, 12, 8}" "?n < 32 \<or> 126 < ?n" "c \<noteq> CHR 0x22" "c \<noteq> CHR 0x5C"
    | "\<not> (?n < 32 \<or> 126 < ?n)" "c \<noteq> CHR 0x22" "c \<noteq> CHR 0x5C" by blast
  then show ?thesis
  proof cases
    case 1
    then show ?thesis by (auto simp: escape_char_def unescape_def Let_def)
  next
    case 2
    then have "c \<in> {char_of (10 :: nat), char_of (13 :: nat), char_of (9 :: nat), char_of (12 :: nat), char_of (8 :: nat)}"
      using c by fastforce
    then show ?thesis by (elim insertE emptyE) (simp_all add: control_chars escape_char_def unescape_def Let_def)
  next
    case 3
    have "?n div 16 < 16" by (rule less_mult_imp_div_less) simp
    moreover have "?n mod 16 < 16" by simp
    moreover have "hex_value (CHR ''0'') = Some 0" by (simp add: hex_value_def)
    ultimately have "hex_number 0 [CHR ''0'', CHR ''0'', hex_digit (?n div 16), hex_digit (?n mod 16)] = Some ?n"
      by (simp add: hex_digit_value)
    with 3 c show ?thesis by (simp add: escape_char_def Let_def)
  next
    case 4
    then show ?thesis by (auto simp: escape_char_def Let_def)
  qed
qed

lemma parse_string_escaped: "parse_string (concat (map escape_char s) @ CHR 0x22 # rest) = Some (s, rest)"
  by (induction s) (simp_all add: parse_escape prepend_def)

lemma skip_ws_simps [simp]:
  "skip_ws [] = []"
  "skip_ws (c # s) = (if json_space c then skip_ws s else c # s)"
  by (simp_all add: skip_ws_def)

text \<open>What may follow a number: nothing that would continue it.\<close>

definition number_ends :: "string \<Rightarrow> bool" where
  "number_ends rest = (case rest of [] \<Rightarrow> True | c # cs \<Rightarrow> \<not> is_digit c \<and> c \<notin> {CHR ''.'', CHR ''e'', CHR ''E''})"

lemma number_endsD:
  assumes "number_ends rest"
  shows "takeWhile is_digit rest = []" "dropWhile is_digit rest = rest" "frac_part rest = ([], rest)" "exp_part rest = (None, rest)"
  using assms by (auto simp: number_ends_def frac_part_def exp_part_def split: list.splits)

lemma show_nat_head: "\<exists>c cs. show_nat n = c # cs \<and> is_digit c \<and> (c = CHR ''0'' \<longrightarrow> n = 0 \<and> cs = [])"
proof (induction n rule: less_induct)
  case (less n)
  show ?case
  proof (cases "n < 10")
    case True
    have zero: "char_of (48 + n) = CHR ''0'' \<Longrightarrow> n = 0"
      using digit_char(2) [OF True] by (simp add: digit_value_def)
    from True zero show ?thesis by (subst show_nat.simps) auto
  next
    case False
    then have "n div 10 < n" "n div 10 \<noteq> 0" by simp_all
    with less.IH [of "n div 10"] obtain c cs where "show_nat (n div 10) = c # cs" "is_digit c" "c \<noteq> CHR ''0''" by auto
    with False show ?thesis by (subst show_nat.simps) auto
  qed
qed

lemma parse_shown_nat:
  assumes "number_ends rest"
  shows "int_part (show_nat n @ rest) = Some (False, show_nat n, rest)"
    and "int_part (CHR ''-'' # show_nat n @ rest) = Some (True, show_nat n, rest)"
proof -
  from show_nat_head [of n] obtain c cs
    where s: "show_nat n = c # cs" "is_digit c" "c = CHR ''0'' \<longrightarrow> n = 0 \<and> cs = []" by blast
  have minus: "c \<noteq> CHR ''-''" using s(2) by (auto simp: is_digit_def)
  have digits: "list_all is_digit cs" using show_nat_digits [of n] s(1) by simp
  have stop: "takeWhile is_digit (cs @ rest) = cs" "dropWhile is_digit (cs @ rest) = rest"
    using digits number_endsD(1,2) [OF assms] by (auto simp: list_all_iff takeWhile_append2 dropWhile_append2)
  show "int_part (show_nat n @ rest) = Some (False, show_nat n, rest)"
    "int_part (CHR ''-'' # show_nat n @ rest) = Some (True, show_nat n, rest)"
    using s minus stop by (auto simp: int_part_def)
qed

lemma parse_shown_int:
  assumes "number_ends rest"
  shows "parse_number (show_int i @ rest) = Some (JInt i, rest)"
  using parse_shown_nat [OF assms] number_endsD [OF assms]
  by (cases "i < 0") (simp_all add: parse_number_def show_int_def read_show_nat)

lemma shown_int_head: "\<exists>c cs. show_int i = c # cs \<and> (is_digit c \<or> c = CHR ''-'')"
  using show_nat_head [of "nat i"] show_nat_head [of "nat (- i)"] by (auto simp: show_int_def)

lemma parse_shown_value:
  assumes "number_ends rest"
  shows "parse_value (Suc n) (show_int i @ rest) = Some (JInt i, rest)"
proof -
  from shown_int_head [of i] obtain c cs where s: "show_int i = c # cs" "is_digit c \<or> c = CHR ''-''" by blast
  then have "c \<notin> {CHR 0x22, CHR ''{'', CHR ''['', CHR ''n'', CHR ''t'', CHR ''f''}" by (auto simp: is_digit_def)
  then have "parse_value (Suc n) (show_int i @ rest) = parse_number (show_int i @ rest)"
    by (simp add: s(1) starts_with_def)
  then show ?thesis using parse_shown_int [OF assms] by simp
qed

lemma plain_float_parts:
  assumes "plain_float x"
  obtains ds fs where "float_repr x = ds @ CHR ''.'' # fs" "ds \<noteq> []" "hd ds = CHR ''0'' \<longrightarrow> ds = ''0''" "list_all is_digit ds"
    "fs \<noteq> []" "list_all is_digit fs" "fl (of_nat (read_nat (ds @ fs)) * 10 powi (- int (length fs))) = x"
proof -
  let ?s = "float_repr x"
  from assms obtain fs where "dropWhile is_digit ?s = CHR ''.'' # fs" "takeWhile is_digit ?s \<noteq> []"
    "hd (takeWhile is_digit ?s) = CHR ''0'' \<longrightarrow> takeWhile is_digit ?s = ''0''" "fs \<noteq> []" "list_all is_digit fs"
    "fl (of_nat (read_nat (takeWhile is_digit ?s @ fs)) * 10 powi (- int (length fs))) = x"
    by (auto simp: plain_float_def Let_def split: list.splits)
  moreover have "?s = takeWhile is_digit ?s @ dropWhile is_digit ?s" by simp
  moreover have "list_all is_digit (takeWhile is_digit ?s)" by (auto simp: list_all_iff dest: set_takeWhileD)
  ultimately show thesis using that by metis
qed

lemma parse_shown_float:
  assumes "plain_float x" "number_ends rest"
  shows "parse_value (Suc n) (float_repr x @ rest) = Some (JFloat x, rest)"
proof -
  obtain ds fs where s: "float_repr x = ds @ CHR ''.'' # fs" "ds \<noteq> []" "hd ds = CHR ''0'' \<longrightarrow> ds = ''0''"
    "list_all is_digit ds" "fs \<noteq> []" "list_all is_digit fs" "fl (of_nat (read_nat (ds @ fs)) * 10 powi (- int (length fs))) = x"
    using plain_float_parts [OF assms(1)] .
  then obtain c cs where ds: "ds = c # cs" "is_digit c" by (cases ds) auto
  then have head: "c \<notin> {CHR 0x22, CHR ''{'', CHR ''['', CHR ''n'', CHR ''t'', CHR ''f'', CHR ''-''}" by (auto simp: is_digit_def)
  have dot: "\<not> is_digit CHR ''.''" by (simp add: is_digit_def)
  have "int_part (float_repr x @ rest) = Some (False, ds, CHR ''.'' # fs @ rest)"
    using s ds head dot by (auto simp: int_part_def list_all_iff takeWhile_append2 dropWhile_append2)
  moreover have "takeWhile is_digit (fs @ rest) = fs" "dropWhile is_digit (fs @ rest) = rest"
    using s(6) number_endsD(1,2) [OF assms(2)] by (auto simp: list_all_iff takeWhile_append2 dropWhile_append2)
  then have "frac_part (CHR ''.'' # fs @ rest) = (fs, rest)" using s(5) by (simp add: frac_part_def)
  ultimately have "parse_number (float_repr x @ rest) = Some (JFloat x, rest)"
    using number_endsD(4) [OF assms(2)] s(5,7) by (simp add: parse_number_def)
  moreover have "parse_value (Suc n) (float_repr x @ rest) = parse_number (float_repr x @ rest)"
    using head by (simp add: s(1) ds starts_with_def)
  ultimately show ?thesis by simp
qed

lemma float_head: "plain_float x \<Longrightarrow> \<exists>c cs. float_repr x = c # cs \<and> is_digit c"
  by (rule plain_float_parts) (auto simp: neq_Nil_conv)

text \<open>Every value starts with a character that is no space and closes nothing.\<close>

definition value_start :: "string \<Rightarrow> bool" where
  "value_start s = (\<exists>c cs. s = c # cs \<and> \<not> json_space c \<and> c \<notin> {CHR '']'', CHR ''}''})"

lemma dumps_start:
  assumes "plain_json v"
  shows "value_start (json_dumps v @ rest)"
proof (cases v)
  case (JInt i)
  from shown_int_head [of i] obtain c cs where "show_int i = c # cs" "is_digit c \<or> c = CHR ''-''" by blast
  then show ?thesis by (auto simp: JInt value_start_def json_space_def is_digit_def)
next
  case (JFloat x)
  with assms float_head [of x] show ?thesis by (auto simp: value_start_def json_space_def is_digit_def)
qed (use assms in \<open>simp_all add: value_start_def json_space_def json_string_def\<close>)

lemma value_start_simps:
  assumes "value_start s"
  shows "skip_ws s = s" "skip_ws (CHR '' '' # s) = s" "s \<noteq> []" "hd s \<notin> {CHR '']'', CHR ''}''}"
  using assms by (auto simp: value_start_def json_space_def)

lemma number_ends_simps [simp]:
  "number_ends []" "number_ends (CHR '','' # s)" "number_ends (CHR '']'' # s)" "number_ends (CHR ''}'' # s)"
  by (simp_all add: number_ends_def is_digit_def)

definition reads_back :: "json \<Rightarrow> bool" where
  "reads_back v = (\<forall>n rest. number_ends rest \<longrightarrow> json_depth v \<le> n \<longrightarrow> parse_value n (json_dumps v @ rest) = Some (v, rest))"

lemma reads_backD:
  "reads_back v \<Longrightarrow> number_ends rest \<Longrightarrow> json_depth v \<le> n \<Longrightarrow> parse_value n (json_dumps v @ rest) = Some (v, rest)"
  by (simp add: reads_back_def)

lemma parse_dumped_items:
  assumes "xs \<noteq> []" "list_all plain_json xs" "\<forall>x \<in> set xs. reads_back x" "nesting (map json_depth xs) \<le> n"
  shows "parse_items n (py_join '', '' (map json_dumps xs) @ CHR '']'' # rest) = Some (xs, rest)"
  using assms
proof (induction xs arbitrary: n rule: list_nonempty_induct)
  case (single x)
  then obtain m where n: "n = Suc m" "json_depth x \<le> m" by (cases n) auto
  with single show ?case by (simp add: reads_backD json_space_def)
next
  case (cons x xs)
  then obtain m where n: "n = Suc m" "json_depth x \<le> m" "nesting (map json_depth xs) \<le> m" by (cases n) auto
  obtain y ys where xs: "xs = y # ys" using cons.hyps by (cases xs) auto
  have start: "value_start (py_join '', '' (map json_dumps xs) @ CHR '']'' # rest)"
    using cons.prems(1) dumps_start [of y] by (cases ys) (simp_all add: xs)
  from cons n show ?case
    by (simp add: xs reads_backD json_space_def) (simp add: value_start_simps [OF start, unfolded xs, simplified])
qed

definition json_member :: "string \<times> json \<Rightarrow> string" where
  "json_member = (\<lambda>(k, v). json_string k @ '': '' @ json_dumps v)"

lemma member_start: "value_start (json_member kv @ rest)"
  by (cases kv) (simp add: json_member_def json_string_def value_start_def json_space_def)

lemma parse_dumped_member:
  assumes "plain_json v" "reads_back v" "json_depth v \<le> n" "number_ends (d # rest)" "\<not> json_space d"
  shows "parse_members (Suc n) (json_member (k, v) @ d # rest) =
     (if d = CHR '','' then map_option (\<lambda>(ms, r). ((k, v) # ms, r)) (parse_members n (skip_ws rest))
      else if d = CHR ''}'' then Some ([(k, v)], rest) else None)"
  using assms value_start_simps(2) [OF dumps_start [OF assms(1), of "d # rest"]]
  by (simp add: json_member_def json_string_def parse_string_escaped reads_backD json_space_def)

lemma parse_dumped_members:
  assumes "d \<noteq> []" "list_all (\<lambda>(k, v). plain_json v) d" "\<forall>(k, v) \<in> set d. reads_back v"
    "nesting (map (\<lambda>(k, v). json_depth v) d) \<le> n"
  shows "parse_members n (py_join '', '' (map json_member d) @ CHR ''}'' # rest) = Some (d, rest)"
  using assms
proof (induction d arbitrary: n rule: list_nonempty_induct)
  case (single kv)
  obtain k v where kv: "kv = (k, v)" by (cases kv)
  from single obtain m where n: "n = Suc m" "json_depth v \<le> m" by (cases n) (auto simp: kv)
  with single show ?case by (simp add: kv parse_dumped_member json_space_def del: parse_members.simps)
next
  case (cons kv d)
  obtain k v where kv: "kv = (k, v)" by (cases kv)
  from cons obtain m where n: "n = Suc m" "json_depth v \<le> m" "nesting (map (\<lambda>(k, v). json_depth v) d) \<le> m"
    by (cases n) (auto simp: kv)
  obtain y ys where d: "d = y # ys" using cons.hyps by (cases d) auto
  have start: "value_start (py_join '', '' (map json_member d) @ CHR ''}'' # rest)"
    using member_start [of y] by (cases ys) (simp_all add: d)
  have join: "py_join '', '' (map json_member (kv # d)) = json_member kv @ CHR '','' # CHR '' '' # py_join '', '' (map json_member d)"
    by (simp add: d)
  have "parse_members m (py_join '', '' (map json_member d) @ CHR ''}'' # rest) = Some (d, rest)"
    using cons.IH cons.prems n by simp
  with cons.prems n value_start_simps(2) [OF start] show ?case
    unfolding join by (simp add: kv parse_dumped_member json_space_def del: parse_members.simps)
qed

lemma update_new: "k \<notin> fst ` set d \<Longrightarrow> AList.update k v d = d @ [(k, v)]"
  by (induction d) auto

lemma dict_of_distinct: "distinct (map fst (d @ ms)) \<Longrightarrow> dict_of d ms = d @ ms"
proof (induction d ms rule: dict_of.induct)
  case (2 d k v kvs)
  then have "AList.update k v d = d @ [(k, v)]" by (intro update_new) auto
  with 2 show ?case by simp
qed simp

lemma dumps_obj: "json_dumps (JObj d) = ''{'' @ py_join '', '' (map json_member d) @ ''}''"
  by (simp add: json_member_def)

lemma plain_reads_back: "plain_json v \<Longrightarrow> reads_back v"
proof (induction v)
  case (JList xs)
  show ?case
  proof (cases "xs = []")
    case False
    have "\<forall>x \<in> set xs. reads_back x" "list_all plain_json xs" using JList by (auto simp: list_all_iff)
    note items = parse_dumped_items [OF False this(2,1)]
    obtain y ys where xs: "xs = y # ys" using False by (cases xs) auto
    have start: "value_start (py_join '', '' (map json_dumps xs) @ CHR '']'' # rest)" for rest
      using \<open>list_all plain_json xs\<close> dumps_start [of y] by (cases ys) (simp_all add: xs)
    show ?thesis
      unfolding reads_back_def
    proof (intro allI impI)
      fix n rest
      assume "json_depth (JList xs) \<le> n"
      then obtain m where n: "n = Suc m" "nesting (map json_depth xs) \<le> m" by (cases n) auto
      obtain d r where dr: "py_join '', '' (map json_dumps xs) @ CHR '']'' # rest = d # r" "d \<noteq> CHR '']''" "\<not> json_space d"
        using start [of rest] by (auto simp: value_start_def)
      have "parse_value n (CHR ''['' # d # r) = Some (JList xs, rest)"
        using items [OF n(2), of rest] dr(2,3) by (simp add: n(1) dr(1))
      then show "parse_value n (json_dumps (JList xs) @ rest) = Some (JList xs, rest)" by (simp add: dr(1))
    qed
  qed (auto simp: reads_back_def json_space_def Suc_le_eq gr0_conv_Suc)
next
  case (JObj d)
  show ?case
  proof (cases "d = []")
    case False
    have "\<forall>(k, v) \<in> set d. reads_back v" "list_all (\<lambda>(k, v). plain_json v) d" using JObj by (fastforce simp: list_all_iff)+
    note members = parse_dumped_members [OF False this(2,1)]
    obtain y ys where d: "d = y # ys" using False by (cases d) auto
    have start: "value_start (py_join '', '' (map json_member d) @ CHR ''}'' # rest)" for rest
      using member_start [of y] by (cases ys) (simp_all add: d)
    have dict: "dict_of [] d = d" using JObj.prems by (simp add: dict_of_distinct)
    show ?thesis
      unfolding reads_back_def
    proof (intro allI impI)
      fix n rest
      assume "json_depth (JObj d) \<le> n"
      then obtain m where n: "n = Suc m" "nesting (map (\<lambda>(k, v). json_depth v) d) \<le> m" by (cases n) auto
      obtain c r where cr: "py_join '', '' (map json_member d) @ CHR ''}'' # rest = c # r" "c \<noteq> CHR ''}''" "\<not> json_space c"
        using start [of rest] by (auto simp: value_start_def)
      have "parse_value n (CHR ''{'' # c # r) = Some (JObj d, rest)"
        using members [OF n(2), of rest] cr(2,3) by (simp add: n(1) cr(1) dict)
      then show "parse_value n (json_dumps (JObj d) @ rest) = Some (JObj d, rest)"
        by (simp only: dumps_obj append.simps append_assoc cr(1))
    qed
  qed (auto simp: reads_back_def json_space_def Suc_le_eq gr0_conv_Suc)
next
  case (JInt i)
  show ?case
    by (auto simp: reads_back_def Suc_le_eq gr0_conv_Suc parse_shown_value simp del: parse_value.simps)
next
  case (JFloat x)
  then show ?case
    by (auto simp: reads_back_def Suc_le_eq gr0_conv_Suc parse_shown_float simp del: parse_value.simps)
qed (auto simp: reads_back_def Suc_le_eq gr0_conv_Suc json_string_def parse_string_escaped starts_with_def)

lemma join_length: "x \<in> set xs \<Longrightarrow> length x \<le> length (py_join sep xs)"
  by (induction sep xs rule: py_join.induct) auto

lemma nesting_join:
  "list_all2 (\<lambda>n x. n \<le> length x \<and> x \<noteq> []) ns xs \<Longrightarrow> nesting ns \<le> Suc (length (py_join '', '' xs))"
proof (induction ns xs rule: list_all2_induct)
  case (Cons n ns x xs)
  then show ?case by (cases xs) (auto simp: neq_Nil_conv Suc_le_eq)
qed simp

lemma json_depth_length: "plain_json v \<Longrightarrow> json_depth v \<le> length (json_dumps v)"
proof (induction v)
  case (JList xs)
  have "list_all2 (\<lambda>n x. n \<le> length x \<and> x \<noteq> []) (map json_depth xs) (map json_dumps xs)"
    using JList dumps_start [where rest = "[]"]
    by (auto simp: list_all2_conv_all_nth list_all_iff value_start_def) (metis list.distinct(1) nth_mem self_append_conv)
  from nesting_join [OF this] show ?case by simp
next
  case (JObj d)
  have "list_all2 (\<lambda>n x. n \<le> length x \<and> x \<noteq> []) (map (\<lambda>(k, v). json_depth v) d) (map json_member d)"
    using JObj by (fastforce simp: list_all2_conv_all_nth list_all_iff json_member_def json_string_def split: prod.splits dest: nth_mem)
  from nesting_join [OF this] show ?case by (simp add: dumps_obj del: json_dumps.simps)
next
  case (JInt i)
  from shown_int_head [of i] show ?case by (auto simp: Suc_le_eq)
next
  case (JFloat x)
  with float_head [of x] show ?case by (auto simp: Suc_le_eq)
qed (auto simp: json_string_def)

lemma plain_float_sample: "plain_float (fl (3/5))" "plain_float 1"
  by code_simp+

lemma json_loads_dumps: "plain_json v \<Longrightarrow> json_loads (json_dumps v) = Some v"
  using reads_backD [OF plain_reads_back, of v "[]" "length (json_dumps v)"] json_depth_length [of v]
    value_start_simps(1) [OF dumps_start, of v "[]"]
  by (simp add: json_loads_def)

section \<open>What is read has distinct keys\<close>

fun distinct_keys :: "json \<Rightarrow> bool" where
  "distinct_keys (JList xs) = list_all distinct_keys xs"
| "distinct_keys (JObj d) = (distinct (map fst d) \<and> list_all (\<lambda>(k, v). distinct_keys v) d)"
| "distinct_keys v = True"

lemma set_update_subset: "set (AList.update k v d) \<subseteq> insert (k, v) (set d)"
  by (induction d) auto

lemma set_dict_of_subset: "set (dict_of d ms) \<subseteq> set d \<union> set ms"
  by (induction d ms rule: dict_of.induct) (use set_update_subset in fastforce)+

lemma distinct_keys_dict: "list_all (\<lambda>(k, v). distinct_keys v) ms \<Longrightarrow> distinct_keys (JObj (dict_of [] ms))"
  using set_dict_of_subset [of "[]" ms] distinct_dict_of [of "[]" ms] by (auto simp: list_all_iff)

lemma distinct_keys_empty [simp]: "distinct_keys (JObj [])"
  by simp

lemma parse_number_keys: "parse_number s = Some (v, r) \<Longrightarrow> distinct_keys v"
  by (auto simp: parse_number_def Let_def split: option.splits prod.splits if_splits)

lemma parse_distinct_keys:
  "parse_value n s = Some (v, r) \<Longrightarrow> distinct_keys v"
  "parse_items n s = Some (vs, r) \<Longrightarrow> list_all distinct_keys vs"
  "parse_members n s = Some (ms, r) \<Longrightarrow> list_all (\<lambda>(k, v). distinct_keys v) ms"
proof (induction n s and n s and n s arbitrary: v r and vs r and ms r rule: parse_value_parse_items_parse_members.induct)
  case (2 n s)
  then show ?case
    by (cases s) (auto simp: distinct_keys_dict simp del: distinct_keys.simps(2) dest: parse_number_keys
        split: list.splits if_splits)
next
  case (4 n s)
  then show ?case by (fastforce split: option.splits list.splits if_splits)
next
  case (6 n s)
  then show ?case by (cases s) (fastforce split: option.splits list.splits if_splits)+
qed simp_all

lemma json_loads_distinct_keys: "json_loads s = Some v \<Longrightarrow> distinct_keys v"
  by (auto simp: json_loads_def split: option.splits if_splits dest: parse_distinct_keys(1))

end
