(* ===== verification/Exclusions.thy ===== *)
theory Exclusions
  imports Normalizers JsonParse
begin

text \<open>
  Persons and identifiers that must not enter the matching: the exclusion file (\<open>exclusion_config.py\<close>),
  the context built from it and from the settings, and the filter of what a chat extraction found
  (\<open>exclusions.py\<close>), with the normal forms of vehicle identifiers (\<open>vehicles.py\<close>). The file system is a
  function from paths to the text of the files that exist.
\<close>

section \<open>Vehicle identifiers\<close>

definition VEHICLE_PLACEHOLDERS :: "string list" where
  "VEHICLE_PLACEHOLDERS = ['''', ''-'', ''--'', ''N/A'', ''NA'', ''NIL'', ''NONE'', ''UNKNOWN'', ''NULL'']"

definition clean_vehicle_text :: "string option \<Rightarrow> string option" where
  "clean_vehicle_text v =
     (case v of None \<Rightarrow> None
      | Some s \<Rightarrow> (let cleaned = py_upper (py_strip s)
                  in if cleaned \<in> set VEHICLE_PLACEHOLDERS then None else Some cleaned))"

definition usable_vehicle_text :: "string \<Rightarrow> string option" where
  "usable_vehicle_text s = (if s \<noteq> [] \<and> s \<notin> set VEHICLE_PLACEHOLDERS then Some s else None)"

definition normalize_lta_tag :: "string option \<Rightarrow> string option" where
  "normalize_lta_tag v =
     (case clean_vehicle_text v of None \<Rightarrow> None
      | Some cleaned \<Rightarrow> usable_vehicle_text [c \<leftarrow> cleaned. is_letter c \<or> is_digit c])"

definition normalize_serial_number :: "string option \<Rightarrow> string option" where
  "normalize_serial_number v =
     (case clean_vehicle_text v of None \<Rightarrow> None
      | Some cleaned \<Rightarrow> usable_vehicle_text (py_strip (collapse_ws cleaned)))"

definition normalize_vehicle_product :: "string option \<Rightarrow> string option" where
  "normalize_vehicle_product v =
     (case clean_vehicle_text v of None \<Rightarrow> None
      | Some cleaned \<Rightarrow> usable_vehicle_text (py_strip (collapse_ws cleaned)))"

record vehicle_observation =
  vo_lta_tag :: "string option"
  vo_serial_number :: "string option"
  vo_product_sku :: "string option"
  vo_product :: "string option"

definition valid_vehicle_observation :: "vehicle_observation \<Rightarrow> bool" where
  "valid_vehicle_observation obs =
     ((case vo_product_sku obs of None \<Rightarrow> False | Some s \<Rightarrow> py_strip s \<noteq> [])
      \<and> (normalize_lta_tag (vo_lta_tag obs) \<noteq> None \<or> normalize_serial_number (vo_serial_number obs) \<noteq> None))"

definition valid_chat_vehicle_observation :: "vehicle_observation \<Rightarrow> bool" where
  "valid_chat_vehicle_observation obs =
     ((case vo_product obs of None \<Rightarrow> False | Some s \<Rightarrow> py_strip s \<noteq> [])
      \<and> (normalize_lta_tag (vo_lta_tag obs) \<noteq> None \<or> normalize_serial_number (vo_serial_number obs) \<noteq> None))"

section \<open>The exclusion file\<close>

record vehicle_exclusion =
  ve_vehicle_product :: "string option"
  ve_lta_tag :: "string option"
  ve_serial_number :: "string option"

record exclusion_file =
  xf_phones :: "string list"
  xf_emails :: "string list"
  xf_email_domains :: "string list"
  xf_names :: "string list"
  xf_source_ids :: "string list"
  xf_vehicle_identifiers :: "vehicle_exclusion list"

definition invalid_exclusions :: "string \<Rightarrow> 'a result" where
  "invalid_exclusions path = raise (ValueError (''Invalid ingestion exclusions JSON: '' @ path))"

definition str_list :: "string \<Rightarrow> json \<Rightarrow> string list result" where
  "str_list path raw =
     (case raw of
        JNull \<Rightarrow> ok []
      | JList vs \<Rightarrow> map_result (\<lambda>v. case v of JStr s \<Rightarrow> ok s | _ \<Rightarrow> invalid_exclusions path) vs
      | _ \<Rightarrow> invalid_exclusions path)"

definition optional_text :: "string \<Rightarrow> json_obj \<Rightarrow> string \<Rightarrow> string option result" where
  "optional_text path item k =
     (case map_of item k of
        None \<Rightarrow> ok None
      | Some v \<Rightarrow> (case v of JStr s \<Rightarrow> ok (Some s) | _ \<Rightarrow> invalid_exclusions path))"

definition VEHICLE_IDENTIFIER_KEYS :: "string list" where
  "VEHICLE_IDENTIFIER_KEYS = [''vehicle_product'', ''lta_tag'', ''serial_number'']"

definition vehicle_identifier_list :: "string \<Rightarrow> json \<Rightarrow> vehicle_exclusion list result" where
  "vehicle_identifier_list path raw =
     (case raw of
        JNull \<Rightarrow> ok []
      | JList vs \<Rightarrow> map_result (\<lambda>v. case v of
            JObj item \<Rightarrow>
              if \<not> fst ` set item \<subseteq> set VEHICLE_IDENTIFIER_KEYS then invalid_exclusions path
              else try_bind (optional_text path item ''vehicle_product'') (\<lambda>vehicle_product.
                   try_bind (optional_text path item ''lta_tag'') (\<lambda>lta_tag.
                   try_bind (optional_text path item ''serial_number'') (\<lambda>serial_number.
                     ok \<lparr>ve_vehicle_product = vehicle_product, ve_lta_tag = lta_tag, ve_serial_number = serial_number\<rparr>)))
          | _ \<Rightarrow> invalid_exclusions path) vs
      | _ \<Rightarrow> invalid_exclusions path)"

definition read_exclusions :: "string \<Rightarrow> json \<Rightarrow> exclusion_file result" where
  "read_exclusions path raw =
     (case raw of
        JObj payload \<Rightarrow>
          try_bind (str_list path (json_get payload ''phones'')) (\<lambda>phones.
          try_bind (str_list path (json_get payload ''emails'')) (\<lambda>emails.
          try_bind (str_list path (json_get payload ''email_domains'')) (\<lambda>email_domains.
          try_bind (str_list path (json_get payload ''names'')) (\<lambda>names.
          try_bind (str_list path (json_get payload ''source_ids'')) (\<lambda>source_ids.
          try_bind (vehicle_identifier_list path (json_get payload ''vehicle_identifiers'')) (\<lambda>vehicles.
            ok \<lparr>xf_phones = phones, xf_emails = emails, xf_email_domains = email_domains, xf_names = names,
                xf_source_ids = source_ids, xf_vehicle_identifiers = vehicles\<rparr>))))))
      | _ \<Rightarrow> invalid_exclusions path)"

definition load_exclusion_file :: "(string \<Rightarrow> string option) \<Rightarrow> string \<Rightarrow> exclusion_file result" where
  "load_exclusion_file files path =
     (if py_strip path = []
      then ok \<lparr>xf_phones = [], xf_emails = [], xf_email_domains = [], xf_names = [], xf_source_ids = [],
               xf_vehicle_identifiers = []\<rparr>
      else case files path of
             None \<Rightarrow> raise (FileNotFoundError (''Ingestion exclusions file not found: '' @ path))
           | Some content \<Rightarrow>
               (case json_loads content of
                  None \<Rightarrow> invalid_exclusions path
                | Some raw \<Rightarrow> read_exclusions path raw))"

section \<open>The context\<close>

type_synonym vehicle_identifier_key = "string \<times> string option \<times> string option"

record exclusion_context =
  xc_phones :: "string set"
  xc_emails :: "string set"
  xc_email_domains :: "string set"
  xc_names :: "string set"
  xc_source_ids :: "string set"
  xc_vehicle_identifiers :: "vehicle_identifier_key set"

definition normalize_excluded_phone :: "'n third_party \<Rightarrow> string option \<Rightarrow> string option" where
  "normalize_excluded_phone tp v = (if \<not> truthy v then None else fst (normalize_phone tp (or_empty v) DEFAULT_REGION))"

definition normalize_excluded_email :: "string option \<Rightarrow> string option" where
  "normalize_excluded_email v = (if \<not> truthy v then None else fst (normalize_email (or_empty v)))"

definition removeprefix_at :: "string \<Rightarrow> string" where
  "removeprefix_at s = (case s of c # cs \<Rightarrow> if c = CHR ''@'' then cs else s | [] \<Rightarrow> [])"

definition normalize_excluded_email_domain :: "string option \<Rightarrow> string option" where
  "normalize_excluded_email_domain v =
     (if \<not> truthy v then None
      else let normalized = rev (dropWhile (\<lambda>c. c = CHR ''.'') (rev (removeprefix_at (py_lower (py_strip (or_empty v))))))
           in if normalized = [] \<or> CHR ''@'' \<in> set normalized then None else Some normalized)"

definition normalize_excluded_name :: "string option \<Rightarrow> string option" where
  "normalize_excluded_name v =
     (if \<not> truthy v then None else map_option py_lower (fst (normalize_name (or_empty v))))"

text \<open>\<open>email.rsplit("@", maxsplit=1)[1]\<close>; every normalised email has an at sign.\<close>

definition email_matches_domain :: "string \<Rightarrow> string \<Rightarrow> bool result" where
  "email_matches_domain email domain =
     (case rpartition CHR ''@'' email of
        None \<Rightarrow> raise IndexError
      | Some (local, email_domain) \<Rightarrow> ok (email_domain = domain \<or> ends_with email_domain (''.'' @ domain)))"

definition normalized_set :: "(string option \<Rightarrow> string option) \<Rightarrow> string list \<Rightarrow> string set" where
  "normalized_set normalizer vs = set (concat (map (\<lambda>v. case normalizer (Some v) of None \<Rightarrow> [] | Some n \<Rightarrow> [n]) vs))"

definition normalized_vehicle_identifier_set :: "vehicle_exclusion list \<Rightarrow> vehicle_identifier_key set" where
  "normalized_vehicle_identifier_set vs =
     set [(product, lta_tag, serial_number). v \<leftarrow> vs,
            product \<leftarrow> (case normalize_vehicle_product (ve_vehicle_product v) of None \<Rightarrow> [] | Some p \<Rightarrow> [p]),
            lta_tag \<leftarrow> [normalize_lta_tag (ve_lta_tag v)],
            serial_number \<leftarrow> [normalize_serial_number (ve_serial_number v)],
            lta_tag \<noteq> None \<or> serial_number \<noteq> None]"

definition build_exclusion_context ::
    "'n third_party \<Rightarrow> string list \<Rightarrow> string list \<Rightarrow> string list \<Rightarrow> exclusion_file \<Rightarrow> exclusion_context" where
  "build_exclusion_context tp company_mobile_numbers company_email_addresses internal_person_names file =
     \<lparr>xc_phones = normalized_set (normalize_excluded_phone tp) (company_mobile_numbers @ xf_phones file),
      xc_emails = normalized_set normalize_excluded_email (company_email_addresses @ xf_emails file),
      xc_email_domains = normalized_set normalize_excluded_email_domain (xf_email_domains file),
      xc_names = normalized_set normalize_excluded_name (internal_person_names @ xf_names file),
      xc_source_ids = set [py_lower (py_strip v). v \<leftarrow> xf_source_ids file, py_strip v \<noteq> []],
      xc_vehicle_identifiers = normalized_vehicle_identifier_set (xf_vehicle_identifiers file)\<rparr>"

section \<open>The tests\<close>

definition is_excluded_phone :: "'n third_party \<Rightarrow> exclusion_context \<Rightarrow> string option \<Rightarrow> bool" where
  "is_excluded_phone tp ctx v =
     (case normalize_excluded_phone tp v of None \<Rightarrow> False | Some n \<Rightarrow> n \<in> xc_phones ctx)"

definition is_excluded_email :: "exclusion_context \<Rightarrow> string option \<Rightarrow> bool" where
  "is_excluded_email ctx v =
     (case normalize_excluded_email v of
        None \<Rightarrow> False
      | Some n \<Rightarrow> n \<in> xc_emails ctx \<or> (\<exists>d \<in> xc_email_domains ctx. email_matches_domain n d = Inr True))"

definition is_excluded_name :: "exclusion_context \<Rightarrow> string option \<Rightarrow> bool" where
  "is_excluded_name ctx v =
     (case normalize_excluded_name v of None \<Rightarrow> False | Some n \<Rightarrow> n \<in> xc_names ctx)"

definition is_excluded_source_id :: "exclusion_context \<Rightarrow> string option \<Rightarrow> bool" where
  "is_excluded_source_id ctx v = (truthy v \<and> py_lower (py_strip (or_empty v)) \<in> xc_source_ids ctx)"

definition is_excluded_vehicle_observation :: "exclusion_context \<Rightarrow> vehicle_observation \<Rightarrow> bool" where
  "is_excluded_vehicle_observation ctx obs =
     (case normalize_vehicle_product (vo_product obs) of
        None \<Rightarrow> False
      | Some vehicle_product \<Rightarrow>
          (let lta_tag = normalize_lta_tag (vo_lta_tag obs); serial_number = normalize_serial_number (vo_serial_number obs)
           in \<exists>(product, lta, serial) \<in> xc_vehicle_identifiers ctx.
                product = vehicle_product \<and> ((lta \<noteq> None \<and> lta = lta_tag) \<or> (serial \<noteq> None \<and> serial = serial_number))))"

section \<open>What a chat extraction found\<close>

text \<open>The fields the filter does not read are kept in one place.\<close>

record strong_identifier =
  si_type :: "string option"
  si_value :: "string option"
  si_others :: json_obj

record extracted_person =
  ep_name :: "string option"
  ep_phone :: "string option"
  ep_email :: "string option"
  ep_others :: json_obj

record possible_person = extracted_person +
  pp_identifiers :: "strong_identifier list"

record extraction =
  ex_persons :: "extracted_person list"
  ex_possible_persons :: "possible_person list"
  ex_strong_identifiers :: "strong_identifier list"
  ex_others :: json_obj

definition is_excluded_person :: "'n third_party \<Rightarrow> exclusion_context \<Rightarrow> ('x) extracted_person_scheme \<Rightarrow> bool" where
  "is_excluded_person tp ctx p =
     (is_excluded_phone tp ctx (ep_phone p) \<or> is_excluded_email ctx (ep_email p) \<or> is_excluded_name ctx (ep_name p))"

definition is_excluded_strong_identifier :: "'n third_party \<Rightarrow> exclusion_context \<Rightarrow> strong_identifier \<Rightarrow> bool" where
  "is_excluded_strong_identifier tp ctx i =
     (if si_type i = Some ''phone'' then is_excluded_phone tp ctx (si_value i)
      else if si_type i = Some ''email'' then is_excluded_email ctx (si_value i)
      else if si_type i = Some ''source_customer_ref'' then is_excluded_source_id ctx (si_value i)
      else False)"

definition is_excluded_possible_person :: "'n third_party \<Rightarrow> exclusion_context \<Rightarrow> possible_person \<Rightarrow> bool" where
  "is_excluded_possible_person tp ctx p =
     (if is_excluded_phone tp ctx (ep_phone p) then True
      else if is_excluded_email ctx (ep_email p) then True
      else if is_excluded_name ctx (ep_name p) then True
      else list_ex (is_excluded_strong_identifier tp ctx) (pp_identifiers p))"

definition filter_extraction :: "'n third_party \<Rightarrow> exclusion_context \<Rightarrow> extraction \<Rightarrow> extraction option" where
  "filter_extraction tp ctx e =
     (let persons = [p \<leftarrow> ex_persons e. \<not> is_excluded_person tp ctx p];
          possible = [p \<leftarrow> ex_possible_persons e. \<not> is_excluded_possible_person tp ctx p];
          strong = [i \<leftarrow> ex_strong_identifiers e. \<not> is_excluded_strong_identifier tp ctx i]
      in if persons = [] \<and> possible = [] \<and> strong = [] then None
         else Some (e\<lparr>ex_persons := persons, ex_possible_persons := possible, ex_strong_identifiers := strong\<rparr>))"

section \<open>What is excluded\<close>

lemma in_normalized_set: "n \<in> normalized_set f vs \<longleftrightarrow> (\<exists>v \<in> set vs. f (Some v) = Some n)"
  by (force simp: normalized_set_def split: option.splits)

lemma email_matches_domain_total:
  assumes "normalize_excluded_email v = Some n"
  obtains local domain where "n = local @ ''@'' @ domain" "is_email local domain"
    "email_matches_domain n d = Inr (domain = d \<or> ends_with domain (''.'' @ d))"
proof -
  from assms obtain f where "normalize_email (or_empty v) = (Some n, f)"
    by (cases "normalize_email (or_empty v)") (auto simp: normalize_excluded_email_def split: if_splits)
  from email_is_canonical(4) [OF this] obtain local domain where n: "n = local @ ''@'' @ domain" "is_email local domain" by blast
  then show ?thesis using that is_email_parts(1) [OF n(2)] by (simp add: email_matches_domain_def)
qed

text \<open>What the file and the settings exclude, in every spelling with the same normal form.\<close>

definition named_phone :: "'n third_party \<Rightarrow> string list \<Rightarrow> exclusion_file \<Rightarrow> string option \<Rightarrow> bool" where
  "named_phone tp phones file v =
     (\<exists>x \<in> set (phones @ xf_phones file). normalize_excluded_phone tp (Some x) \<noteq> None
        \<and> normalize_excluded_phone tp (Some x) = normalize_excluded_phone tp v)"

definition named_email :: "string list \<Rightarrow> exclusion_file \<Rightarrow> string option \<Rightarrow> bool" where
  "named_email emails file v =
     ((\<exists>x \<in> set (emails @ xf_emails file). normalize_excluded_email (Some x) \<noteq> None
          \<and> normalize_excluded_email (Some x) = normalize_excluded_email v)
      \<or> (\<exists>x \<in> set (xf_email_domains file). \<exists>d local domain. normalize_excluded_email_domain (Some x) = Some d
          \<and> normalize_excluded_email v = Some (local @ ''@'' @ domain) \<and> is_email local domain
          \<and> (domain = d \<or> ends_with domain (''.'' @ d))))"

definition named_name :: "string list \<Rightarrow> exclusion_file \<Rightarrow> string option \<Rightarrow> bool" where
  "named_name names file v =
     (\<exists>x \<in> set (names @ xf_names file). normalize_excluded_name (Some x) \<noteq> None
        \<and> normalize_excluded_name (Some x) = normalize_excluded_name v)"

definition named_source_id :: "exclusion_file \<Rightarrow> string option \<Rightarrow> bool" where
  "named_source_id file v =
     (\<exists>x \<in> set (xf_source_ids file). \<exists>y. v = Some y \<and> py_strip x \<noteq> []
        \<and> py_lower (py_strip x) = py_lower (py_strip y))"

definition named_by ::
    "'n third_party \<Rightarrow> string list \<Rightarrow> string list \<Rightarrow> string list \<Rightarrow> exclusion_file \<Rightarrow> 'x extracted_person_scheme \<Rightarrow> bool" where
  "named_by tp phones emails names file p =
     (named_phone tp phones file (ep_phone p) \<or> named_email emails file (ep_email p) \<or> named_name names file (ep_name p))"

definition named_identifier ::
    "'n third_party \<Rightarrow> string list \<Rightarrow> string list \<Rightarrow> exclusion_file \<Rightarrow> strong_identifier \<Rightarrow> bool" where
  "named_identifier tp phones emails file i =
     (si_type i = Some ''phone'' \<and> named_phone tp phones file (si_value i)
      \<or> si_type i = Some ''email'' \<and> named_email emails file (si_value i)
      \<or> si_type i = Some ''source_customer_ref'' \<and> named_source_id file (si_value i))"

lemma email_split_unique: "is_email l d \<Longrightarrow> is_email l' d' \<Longrightarrow> l @ ''@'' @ d = l' @ ''@'' @ d' \<Longrightarrow> l = l' \<and> d = d'"
  using is_email_parts(1) by (metis option.inject prod.inject)

lemma excluded_phone_iff:
  assumes "ctx = build_exclusion_context tp phones emails names file"
  shows "is_excluded_phone tp ctx v = named_phone tp phones file v"
  by (auto simp: is_excluded_phone_def named_phone_def assms build_exclusion_context_def in_normalized_set
      split: option.splits)

lemma excluded_name_iff:
  assumes "ctx = build_exclusion_context tp phones emails names file"
  shows "is_excluded_name ctx v = named_name names file v"
  by (auto simp: is_excluded_name_def named_name_def assms build_exclusion_context_def in_normalized_set
      split: option.splits)

lemma excluded_source_id_iff:
  assumes "ctx = build_exclusion_context tp phones emails names file"
  shows "is_excluded_source_id ctx v = named_source_id file v"
proof (cases v)
  case None
  then show ?thesis by (simp add: is_excluded_source_id_def named_source_id_def truthy_def)
next
  case (Some y)
  have "py_lower (py_strip x) \<noteq> []" if "py_strip x \<noteq> []" for x using that by (simp add: py_lower_def)
  moreover have "py_lower (py_strip []) = []" by code_simp
  moreover have "z \<in> xc_source_ids ctx \<longleftrightarrow> (\<exists>x \<in> set (xf_source_ids file). py_strip x \<noteq> [] \<and> py_lower (py_strip x) = z)" for z
    unfolding assms build_exclusion_context_def by auto
  ultimately show ?thesis
    unfolding is_excluded_source_id_def named_source_id_def truthy_def Some option.case or_empty_simps by (metis option.inject)
qed

lemma excluded_email_iff:
  assumes ctx: "ctx = build_exclusion_context tp phones emails names file"
  shows "is_excluded_email ctx v = named_email emails file v"
proof (cases "normalize_excluded_email v")
  case None
  then show ?thesis by (auto simp: is_excluded_email_def named_email_def)
next
  case (Some n)
  obtain local domain where n: "n = local @ ''@'' @ domain" "is_email local domain"
    using email_matches_domain_total [OF Some, of "[]"] by metis
  have match: "(email_matches_domain n d = Inr True)
      = (\<exists>local domain. n = local @ ''@'' @ domain \<and> is_email local domain \<and> (domain = d \<or> ends_with domain (''.'' @ d)))" for d
    using email_matches_domain_total [OF Some, of d] n email_split_unique by (smt (verit) sum.inject(2))
  have emails: "n \<in> xc_emails ctx \<longleftrightarrow> (\<exists>x \<in> set (emails @ xf_emails file). normalize_excluded_email (Some x) = Some n)"
    by (simp only: ctx build_exclusion_context_def exclusion_context.select_convs in_normalized_set)
  have domains: "d \<in> xc_email_domains ctx
      \<longleftrightarrow> (\<exists>x \<in> set (xf_email_domains file). normalize_excluded_email_domain (Some x) = Some d)" for d
    by (simp only: ctx build_exclusion_context_def exclusion_context.select_convs in_normalized_set)
  have "is_excluded_email ctx v
      = (n \<in> xc_emails ctx \<or> (\<exists>d \<in> xc_email_domains ctx. email_matches_domain n d = Inr True))"
    by (simp add: is_excluded_email_def Some)
  then show ?thesis unfolding named_email_def Bex_def match emails domains Some option.inject by blast
qed

lemma excluded_person_iff:
  assumes "ctx = build_exclusion_context tp phones emails names file"
  shows "is_excluded_person tp ctx p = named_by tp phones emails names file p"
  by (simp only: is_excluded_person_def named_by_def excluded_phone_iff [OF assms] excluded_email_iff [OF assms]
      excluded_name_iff [OF assms])

lemma excluded_strong_identifier_iff:
  assumes "ctx = build_exclusion_context tp phones emails names file"
  shows "is_excluded_strong_identifier tp ctx i = named_identifier tp phones emails file i"
  unfolding is_excluded_strong_identifier_def named_identifier_def excluded_phone_iff [OF assms]
    excluded_email_iff [OF assms] excluded_source_id_iff [OF assms]
  by auto

lemma excluded_possible_person_iff:
  assumes "ctx = build_exclusion_context tp phones emails names file"
  shows "is_excluded_possible_person tp ctx p \<longleftrightarrow>
    named_by tp phones emails names file p \<or> (\<exists>i \<in> set (pp_identifiers p). named_identifier tp phones emails file i)"
  unfolding is_excluded_possible_person_def named_by_def excluded_phone_iff [OF assms] excluded_email_iff [OF assms]
    excluded_name_iff [OF assms] list_ex_iff excluded_strong_identifier_iff [OF assms]
  by auto

section \<open>Properties\<close>

text \<open>C37: the filter of a chat extraction keeps exactly what the exclusions do not name. A person goes when
  some phone, email, email domain or name of the file and the settings has the normal form of theirs,
  whatever the spelling; a possible person also when one of its identifiers is named; an identifier
  when it is a phone or an email that is named, or a customer reference that is among the source ids. The
  others stay in order, and so do the other fields; the whole extraction goes exactly when everybody and
  everything in it is named, and filtering again changes nothing.\<close>

theorem exclusions_hold:
  assumes "ctx = build_exclusion_context tp phones emails names file"
  shows "case filter_extraction tp ctx e of
     None \<Rightarrow> (\<forall>p \<in> set (ex_persons e). named_by tp phones emails names file p)
       \<and> (\<forall>p \<in> set (ex_possible_persons e). named_by tp phones emails names file p
            \<or> (\<exists>i \<in> set (pp_identifiers p). named_identifier tp phones emails file i))
       \<and> (\<forall>i \<in> set (ex_strong_identifiers e). named_identifier tp phones emails file i)
   | Some e' \<Rightarrow> ex_persons e' = [p \<leftarrow> ex_persons e. \<not> named_by tp phones emails names file p]
       \<and> ex_possible_persons e' = [p \<leftarrow> ex_possible_persons e. \<not> named_by tp phones emails names file p
            \<and> (\<forall>i \<in> set (pp_identifiers p). \<not> named_identifier tp phones emails file i)]
       \<and> ex_strong_identifiers e' = [i \<leftarrow> ex_strong_identifiers e. \<not> named_identifier tp phones emails file i]
       \<and> ex_others e' = ex_others e
       \<and> \<not> (ex_persons e' = [] \<and> ex_possible_persons e' = [] \<and> ex_strong_identifiers e' = [])
       \<and> filter_extraction tp ctx e' = Some e'"
proof -
  let ?possible = "\<lambda>p. named_by tp phones emails names file p
     \<or> (\<exists>i \<in> set (pp_identifiers p). named_identifier tp phones emails file i)"
  have filter_eq: "filter_extraction tp ctx f =
     (let persons = [p \<leftarrow> ex_persons f. \<not> named_by tp phones emails names file p];
          possible = [p \<leftarrow> ex_possible_persons f. \<not> ?possible p];
          strong = [i \<leftarrow> ex_strong_identifiers f. \<not> named_identifier tp phones emails file i]
      in if persons = [] \<and> possible = [] \<and> strong = [] then None
         else Some (f\<lparr>ex_persons := persons, ex_possible_persons := possible, ex_strong_identifiers := strong\<rparr>))" for f
    unfolding filter_extraction_def excluded_person_iff [OF assms] excluded_possible_person_iff [OF assms]
      excluded_strong_identifier_iff [OF assms] ..
  show ?thesis
  proof (cases "filter_extraction tp ctx e")
    case None
    then show ?thesis by (auto simp: filter_eq Let_def filter_empty_conv split: if_splits)
  next
    case (Some e')
    then have e': "e' = e\<lparr>ex_persons := [p \<leftarrow> ex_persons e. \<not> named_by tp phones emails names file p],
        ex_possible_persons := [p \<leftarrow> ex_possible_persons e. \<not> ?possible p],
        ex_strong_identifiers := [i \<leftarrow> ex_strong_identifiers e. \<not> named_identifier tp phones emails file i]\<rparr>"
      and ne: "\<not> (ex_persons e' = [] \<and> ex_possible_persons e' = [] \<and> ex_strong_identifiers e' = [])"
      by (auto simp: filter_eq Let_def split: if_splits)
    have "filter_extraction tp ctx e' = Some e'"
      using ne by (simp add: filter_eq e' Let_def)
    with ne show ?thesis by (simp add: Some) (simp add: e')
  qed
qed

definition sample_file :: exclusion_file where
  "sample_file = \<lparr>xf_phones = [], xf_emails = [''Jo.Tan@gmail.com''], xf_email_domains = [''@corp.sg''], xf_names = [''  ACME   Desk ''],
     xf_source_ids = [], xf_vehicle_identifiers = []\<rparr>"

definition chat_person :: "string \<Rightarrow> string \<Rightarrow> extracted_person" where
  "chat_person n e = \<lparr>ep_name = Some n, ep_phone = None, ep_email = Some e, ep_others = []\<rparr>"

definition sample_extraction :: extraction where
  "sample_extraction = \<lparr>ex_persons = [chat_person ''Jo'' ''jotan+x@googlemail.com'', chat_person ''Al'' ''al@mail.corp.sg'',
       chat_person ''acme desk'' ''x@y.org'', chat_person ''Kim'' ''kim@corpo.sg''],
     ex_possible_persons = [], ex_strong_identifiers = [], ex_others = []\<rparr>"

definition no_phones :: "unit third_party" where
  "no_phones = \<lparr>osa_distance = (\<lambda>a b. if a = b then 0 else 2), pn_parse = (\<lambda>_ _. None), pn_region_code = (\<lambda>_. None),
     pn_nsn = (\<lambda>_. []), pn_is_valid = (\<lambda>_. False), pn_format_e164 = (\<lambda>_. [])\<rparr>"

lemma sample_filtered:
  "map_option ex_persons (filter_extraction no_phones (build_exclusion_context no_phones [] [] [] sample_file) sample_extraction)
     = Some [chat_person ''Kim'' ''kim@corpo.sg'']"
  by code_simp

theorem exclusions_hold_witness:
  "[p \<leftarrow> ex_persons sample_extraction. \<not> named_by no_phones [] [] [] sample_file p] = [chat_person ''Kim'' ''kim@corpo.sg'']"
  using exclusions_hold [OF refl, of sample_extraction no_phones "[]" "[]" "[]" sample_file] sample_filtered
  by (simp split: option.splits)

end
