(* ===== verification/Survivorship.thy ===== *)
theory Survivorship
  imports Unmerge JsonParse PyRegex
begin

text \<open>
  The golden profile as the API service computes it (\<open>graph/golden_profile.py\<close>,
  \<open>graph/queries/survivorship.py\<close>), the overrides an operator pins to it
  (\<open>repositories/neo4j/survivorship.py\<close>) and the merges and unmerges that end with it
  (\<open>repositories/neo4j/merge.py\<close>). The overrides are a JSON text on the person; date-times are numbers
  that \<open>isof\<close> writes out, \<open>valid_iso\<close> is what \<open>datetime.fromisoformat\<close> reads. Where a query has no
  \<open>ORDER BY\<close> its rows come in storage order.
\<close>

section \<open>Constants\<close>

definition TRUST_RANK :: "string \<Rightarrow> nat" where
  "TRUST_RANK tier =
     (case map_of [(''tier_1'', 1), (''tier_2'', 2), (''tier_3'', 3), (''tier_4'', 4)] tier of None \<Rightarrow> 4 | Some r \<Rightarrow> r)"

definition INVALID_QUALITY_FLAGS :: "string list" where
  "INVALID_QUALITY_FLAGS = [''invalid_format'', ''placeholder_value'']"

definition GOLDEN_FACT_FIELDS :: "string list" where
  "GOLDEN_FACT_FIELDS = [''full_name'', ''phone'', ''email'', ''dob'']"

datatype source_kind = Fact_Kind string | Identifier_Kind string | Address_Kind

definition GOLDEN_FIELD_SPEC :: "(string \<times> source_kind) list" where
  "GOLDEN_FIELD_SPEC =
     [(''preferred_full_name'', Fact_Kind ''full_name''),
      (''preferred_dob'', Fact_Kind ''dob''),
      (''preferred_race_ethnicity'', Fact_Kind ''race_ethnicity''),
      (''preferred_phone'', Identifier_Kind ''phone''),
      (''preferred_email'', Identifier_Kind ''email''),
      (''preferred_nric'', Identifier_Kind ''nric''),
      (''preferred_address'', Address_Kind)]"

fun source_kind_text :: "source_kind \<Rightarrow> string" where
  "source_kind_text (Fact_Kind k) = ''source_record_fact''"
| "source_kind_text (Identifier_Kind k) = ''identifier''"
| "source_kind_text Address_Kind = ''address''"

section \<open>Values of the graph as text\<close>

definition to_optional_str :: "json \<Rightarrow> string option" where
  "to_optional_str v = (if v = JNull then None else Some (to_str v))"

definition to_str_or :: "string \<Rightarrow> json \<Rightarrow> string" where
  "to_str_or d v = (if v = JNull then d else to_str v)"

text \<open>A map or the JSON text of one; of any other value nothing.\<close>

definition to_str_dict :: "json \<Rightarrow> (string \<times> string) list" where
  "to_str_dict v =
     (case v of
        JStr s \<Rightarrow> (case json_loads s of Some (JObj d) \<Rightarrow> map (\<lambda>(k, x). (k, to_str x)) d | _ \<Rightarrow> [])
      | JObj d \<Rightarrow> map (\<lambda>(k, x). (k, to_str x)) d
      | _ \<Rightarrow> [])"

definition field_trust_tier :: "json \<Rightarrow> string \<Rightarrow> string" where
  "field_trust_tier field_trust attribute_name =
     (case map_of (to_str_dict field_trust) attribute_name of None \<Rightarrow> ''tier_4'' | Some t \<Rightarrow> t)"

definition normalize_custom_address :: "string \<Rightarrow> string" where
  "normalize_custom_address v = py_strip (collapse_ws (py_lower (py_strip v)))"

section \<open>Overrides\<close>

type_synonym override = "(string \<times> string) list"
type_synonym overrides = "(string \<times> override) list"

definition override_maps :: "json_obj \<Rightarrow> overrides" where
  "override_maps d =
     concat (map (\<lambda>(k, v). case v of JObj e \<Rightarrow> [(k, map (\<lambda>(ik, iv). (ik, to_str iv)) e)] | _ \<Rightarrow> []) d)"

definition parse_overrides :: "json \<Rightarrow> overrides" where
  "parse_overrides raw =
     (case raw of
        JStr s \<Rightarrow> if py_strip s = [] then []
                  else (case json_loads s of Some (JObj d) \<Rightarrow> override_maps d | _ \<Rightarrow> [])
      | JObj d \<Rightarrow> override_maps d
      | _ \<Rightarrow> [])"

definition overrides_json :: "overrides \<Rightarrow> json" where
  "overrides_json ovs = JObj (map (\<lambda>(k, e). (k, JObj (map (\<lambda>(ik, iv). (ik, JStr iv)) e))) ovs)"

text \<open>\<open>overrides.get(field)\<close> and a truthy \<open>override.get(key)\<close>.\<close>

definition override_value :: "override option \<Rightarrow> string \<Rightarrow> string option" where
  "override_value entry k =
     (case entry of None \<Rightarrow> None | Some e \<Rightarrow> (case map_of e k of None \<Rightarrow> None | Some v \<Rightarrow> if v = [] then None else Some v))"

definition load_overrides :: "graph \<Rightarrow> string \<Rightarrow> overrides" where
  "load_overrides g pid = parse_overrides (node_prop g (PersonN pid) ''survivorship_overrides'')"

section \<open>Reads\<close>

definition CHECK_PERSON_ACTIVE :: "graph \<Rightarrow> string \<Rightarrow> bool" where
  "CHECK_PERSON_ACTIVE g pid = active_person g (PersonN pid)"

record person_fact =
  pf_attribute_name :: json
  pf_attribute_value :: json
  pf_quality_flag :: json
  pf_observed_at :: json
  pf_source_record_pk :: json
  pf_field_trust :: json

fun is_source_system :: "node \<Rightarrow> bool" where
  "is_source_system (SourceSystemN _) = True"
| "is_source_system _ = False"

definition source_systems_of :: "graph \<Rightarrow> node \<Rightarrow> node list" where
  "source_systems_of g sr = [e_dst e. e \<leftarrow> g_edges g, e_type e = FROM_SOURCE \<and> e_src e = sr \<and> is_source_system (e_dst e)]"

text \<open>\<open>ORDER BY attribute_name\<close> puts null last.\<close>

definition GET_PERSON_FACTS :: "graph \<Rightarrow> string \<Rightarrow> person_fact list" where
  "GET_PERSON_FACTS g pid =
     sort_key (\<lambda>row. (pf_attribute_name row = JNull, to_str (pf_attribute_name row)))
       [\<lparr>pf_attribute_name = edge_prop f ''attribute_name'', pf_attribute_value = edge_prop f ''attribute_value'',
         pf_quality_flag = edge_prop f ''quality_flag'', pf_observed_at = edge_prop f ''observed_at'',
         pf_source_record_pk = source_record_pk_of (e_dst f), pf_field_trust = node_prop g ss ''field_trust''\<rparr>.
        f \<leftarrow> out_edges g HAS_FACT (PersonN pid), is_source_record (e_dst f) \<and> rel_active f,
        ss \<leftarrow> source_systems_of g (e_dst f)]"

text \<open>\<open>ORDER BY ... DESC\<close> puts null first.\<close>

definition cypher_rank :: "json \<Rightarrow> nat \<times> rat \<times> string" where
  "cypher_rank v =
     (case v of
        JStr s \<Rightarrow> (0, 0, s)
      | JBool b \<Rightarrow> (1, if b then 1 else 0, [])
      | JInt i \<Rightarrow> (2, of_int i, [])
      | JFloat x \<Rightarrow> (2, x, [])
      | JNull \<Rightarrow> (3, 0, [])
      | _ \<Rightarrow> (0, 0, []))"

definition first_of :: "'a list \<Rightarrow> 'a option" where
  "first_of xs = (case xs of [] \<Rightarrow> None | x # _ \<Rightarrow> Some x)"

fun address_id_of :: "node \<Rightarrow> json" where
  "address_id_of (AddressN a) = JStr a"
| "address_id_of _ = JNull"

definition GET_BEST_ADDRESS :: "graph \<Rightarrow> string \<Rightarrow> json option" where
  "GET_BEST_ADDRESS g pid =
     map_option (\<lambda>la. address_id_of (e_dst la))
       (py_max (\<lambda>la. cypher_rank (edge_prop la ''last_seen_at''))
          [la. la \<leftarrow> out_edges g LIVES_AT (PersonN pid),
             is_address (e_dst la) \<and> rel_active la \<and> quality_usable la,
             pk \<leftarrow> pks_of (edge_prop la ''source_record_pk''), has_node g (SourceRecordN pk),
             ss \<leftarrow> source_systems_of g (SourceRecordN pk)])"

fun identifier_of_type :: "string \<Rightarrow> node \<Rightarrow> bool" where
  "identifier_of_type ty (IdentifierN ty' scope v) = (ty' = ty)"
| "identifier_of_type ty _ = False"

definition GET_BEST_IDENTIFIER :: "graph \<Rightarrow> string \<Rightarrow> string \<Rightarrow> json option" where
  "GET_BEST_IDENTIFIER g pid ty =
     map_option (\<lambda>rel. snd (identifier_props (e_dst rel)))
       (py_max (\<lambda>rel. (cypher_rank (edge_prop rel ''is_verified''), cypher_rank (edge_prop rel ''last_confirmed_at'')))
          [rel \<leftarrow> out_edges g IDENTIFIED_BY (PersonN pid). identifier_of_type ty (e_dst rel) \<and> rel_active rel])"

definition GET_FACT_VALUE :: "graph \<Rightarrow> string \<Rightarrow> string \<Rightarrow> string \<Rightarrow> json option" where
  "GET_FACT_VALUE g pid attribute_name pk =
     map_option (\<lambda>f. edge_prop f ''attribute_value'')
       (first_of [f \<leftarrow> out_edges g HAS_FACT (PersonN pid).
          e_dst f = SourceRecordN pk \<and> edge_prop f ''attribute_name'' = JStr attribute_name \<and> rel_active f])"

definition GET_IDENTIFIER_VALUE_FOR_SR :: "graph \<Rightarrow> string \<Rightarrow> string \<Rightarrow> string \<Rightarrow> json option" where
  "GET_IDENTIFIER_VALUE_FOR_SR g pid pk ty =
     map_option (\<lambda>rel. snd (identifier_props (e_dst rel)))
       (first_of [rel \<leftarrow> out_edges g IDENTIFIED_BY (PersonN pid).
          identifier_of_type ty (e_dst rel) \<and> edge_prop rel ''source_record_pk'' = JStr pk \<and> rel_active rel])"

definition GET_ADDRESS_FOR_SR :: "graph \<Rightarrow> string \<Rightarrow> string \<Rightarrow> json option" where
  "GET_ADDRESS_FOR_SR g pid pk =
     map_option (\<lambda>la. address_id_of (e_dst la))
       (first_of [la \<leftarrow> out_edges g LIVES_AT (PersonN pid).
          is_address (e_dst la) \<and> edge_prop la ''source_record_pk'' = JStr pk \<and> rel_active la])"

definition addresses_with :: "graph \<Rightarrow> string \<Rightarrow> node list" where
  "addresses_with g full = [n. (n, d) \<leftarrow> g_nodes g, is_address n \<and> json_get d ''normalized_full'' = JStr full]"

definition GET_ADDRESS_BY_NORMALIZED :: "graph \<Rightarrow> string \<Rightarrow> json option" where
  "GET_ADDRESS_BY_NORMALIZED g full = map_option address_id_of (first_of (addresses_with g full))"

definition CHECK_SOURCE_RECORD_LINKED :: "graph \<Rightarrow> string \<Rightarrow> string \<Rightarrow> bool" where
  "CHECK_SOURCE_RECORD_LINKED g pk pid =
     list_ex (\<lambda>link. e_type link = LINKED_TO \<and> e_src link = SourceRecordN pk \<and> e_dst link = PersonN pid \<and> rel_active link)
       (g_edges g)"

section \<open>The recomputation\<close>

record best_fact =
  bf_value :: "string option"
  bf_trust_rank :: nat
  bf_observed_at :: string

definition select_best_fact :: "best_fact option \<Rightarrow> best_fact \<Rightarrow> best_fact" where
  "select_best_fact current candidate =
     (case current of
        None \<Rightarrow> candidate
      | Some c \<Rightarrow>
          if bf_trust_rank candidate < bf_trust_rank c then candidate
          else if bf_trust_rank candidate = bf_trust_rank c \<and> bf_observed_at c < bf_observed_at candidate then candidate
          else c)"

text \<open>\<open>str\<close> of the time stamp of a fact.\<close>

definition observed_text :: "(int \<Rightarrow> string) \<Rightarrow> json \<Rightarrow> string" where
  "observed_text isof v = (case v of JInt t \<Rightarrow> isof t | _ \<Rightarrow> to_str v)"

definition gather_fact ::
    "(int \<Rightarrow> string) \<Rightarrow> overrides \<Rightarrow> person_fact \<Rightarrow> (string \<times> best_fact) list \<Rightarrow> (string \<times> best_fact) list" where
  "gather_fact isof overrides row best =
     (let attr_name = to_str (pf_attribute_name row);
          attr_value = to_optional_str (pf_attribute_value row);
          tier = field_trust_tier (pf_field_trust row) attr_name;
          source_pk = to_str (pf_source_record_pk row);
          observed_at = observed_text isof (pf_observed_at row);
          override = map_of overrides (''preferred_'' @ attr_name)
      in if to_str_or ''valid'' (pf_quality_flag row) \<in> set INVALID_QUALITY_FLAGS then best
         else case override_value override ''custom_value'' of
           Some custom_value \<Rightarrow>
             AList.update attr_name \<lparr>bf_value = Some custom_value, bf_trust_rank = 0, bf_observed_at = observed_at\<rparr> best
         | None \<Rightarrow>
             if (case override of None \<Rightarrow> False | Some e \<Rightarrow> map_of e ''source_record_pk'' = Some source_pk)
             then AList.update attr_name \<lparr>bf_value = attr_value, bf_trust_rank = 0, bf_observed_at = observed_at\<rparr> best
             else AList.update attr_name
                    (select_best_fact (map_of best attr_name)
                       \<lparr>bf_value = attr_value, bf_trust_rank = TRUST_RANK tier, bf_observed_at = observed_at\<rparr>) best)"

definition custom_fact :: "overrides \<Rightarrow> string \<Rightarrow> (string \<times> best_fact) list \<Rightarrow> (string \<times> best_fact) list" where
  "custom_fact overrides attr_name best =
     (case override_value (map_of overrides (''preferred_'' @ attr_name)) ''custom_value'' of
        None \<Rightarrow> best
      | Some v \<Rightarrow> AList.update attr_name \<lparr>bf_value = Some v, bf_trust_rank = 0, bf_observed_at = []\<rparr> best)"

definition gather_best_facts :: "(int \<Rightarrow> string) \<Rightarrow> graph \<Rightarrow> string \<Rightarrow> overrides \<Rightarrow> (string \<times> best_fact) list" where
  "gather_best_facts isof g pid overrides =
     fold (custom_fact overrides) (GOLDEN_FACT_FIELDS @ [''race_ethnicity''])
       (fold (gather_fact isof overrides) (GET_PERSON_FACTS g pid) [])"

definition best_value :: "(string \<times> best_fact) list \<Rightarrow> string \<Rightarrow> string option" where
  "best_value best attr_name = (case map_of best attr_name of None \<Rightarrow> None | Some f \<Rightarrow> bf_value f)"

definition resolve_identifier :: "graph \<Rightarrow> string \<Rightarrow> string \<Rightarrow> override option \<Rightarrow> string option" where
  "resolve_identifier g pid ty override =
     (let best = Option.bind (GET_BEST_IDENTIFIER g pid ty) to_optional_str
      in case override_value override ''custom_value'' of
           Some v \<Rightarrow> Some v
         | None \<Rightarrow>
             (case override_value override ''source_record_pk'' of
                None \<Rightarrow> best
              | Some pk \<Rightarrow>
                  (case Option.bind (GET_IDENTIFIER_VALUE_FOR_SR g pid pk ty) to_optional_str of
                     Some v \<Rightarrow> Some v | None \<Rightarrow> best)))"

definition resolve_best_address :: "graph \<Rightarrow> string \<Rightarrow> override option \<Rightarrow> string option" where
  "resolve_best_address g pid override =
     (let best = Option.bind (GET_BEST_ADDRESS g pid) to_optional_str;
          pinned = (case override_value override ''source_record_pk'' of
                      None \<Rightarrow> best
                    | Some pk \<Rightarrow>
                        (case Option.bind (GET_ADDRESS_FOR_SR g pid pk) to_optional_str of
                           Some a \<Rightarrow> Some a | None \<Rightarrow> best))
      in case override_value override ''custom_value'' of
           None \<Rightarrow> pinned
         | Some v \<Rightarrow>
             (case Option.bind (GET_ADDRESS_BY_NORMALIZED g (normalize_custom_address v)) to_optional_str of
                Some a \<Rightarrow> Some a | None \<Rightarrow> pinned))"

definition completeness_score :: "string option list \<Rightarrow> bool \<Rightarrow> f64" where
  "completeness_score core has_address =
     fdiv (of_nat (length [v \<leftarrow> core. v \<noteq> None] + (if has_address then 1 else 0))) (of_nat (length GOLDEN_FACT_FIELDS + 1))"

section \<open>The write\<close>

record golden_values =
  gv_full_name :: "string option"
  gv_phone :: "string option"
  gv_email :: "string option"
  gv_dob :: "string option"
  gv_race_ethnicity :: "string option"
  gv_address_id :: "string option"
  gv_nric :: "string option"

definition golden_values_of :: "(int \<Rightarrow> string) \<Rightarrow> graph \<Rightarrow> string \<Rightarrow> golden_values" where
  "golden_values_of isof g pid =
     (let overrides = load_overrides g pid;
          best = gather_best_facts isof g pid overrides
      in \<lparr>gv_full_name = best_value best ''full_name'',
          gv_phone = resolve_identifier g pid ''phone'' (map_of overrides ''preferred_phone''),
          gv_email = resolve_identifier g pid ''email'' (map_of overrides ''preferred_email''),
          gv_dob = best_value best ''dob'',
          gv_race_ethnicity = best_value best ''race_ethnicity'',
          gv_address_id = resolve_best_address g pid (map_of overrides ''preferred_address''),
          gv_nric = resolve_identifier g pid ''nric'' (map_of overrides ''preferred_nric'')\<rparr>)"

definition analysis_revision :: "bool \<Rightarrow> int \<Rightarrow> json_obj \<Rightarrow> json_obj" where
  "analysis_revision invalidate now d =
     [(''analysis_input_revision'',
         if invalidate then json_incr (json_get d ''analysis_input_revision'')
         else coalesce (json_get d ''analysis_input_revision'') (JInt 0)),
      (''analysis_dirty_at'', if invalidate then JInt now else json_get d ''analysis_dirty_at''),
      (''updated_at'', JInt now)]"

definition API_UPDATE_GOLDEN_PROFILE ::
    "int \<Rightarrow> string \<Rightarrow> golden_values \<Rightarrow> f64 \<Rightarrow> string \<Rightarrow> bool \<Rightarrow> graph \<Rightarrow> graph" where
  "API_UPDATE_GOLDEN_PROFILE now pid v score version invalidate =
     set_node (PersonN pid) (\<lambda>d.
       [(''preferred_full_name'', js (gv_full_name v)), (''preferred_phone'', js (gv_phone v)),
        (''preferred_email'', js (gv_email v)), (''preferred_dob'', js (gv_dob v)),
        (''preferred_address_id'', js (gv_address_id v)), (''preferred_nric'', js (gv_nric v)),
        (''preferred_race_ethnicity'', js (gv_race_ethnicity v)),
        (''profile_completeness_score'', JFloat score),
        (''golden_profile_computed_at'', JInt now), (''golden_profile_version'', JStr version)]
       @ analysis_revision invalidate now d)"

definition survivorship_event :: "int \<Rightarrow> string \<Rightarrow> string \<Rightarrow> string \<Rightarrow> string \<Rightarrow> string \<Rightarrow> graph \<Rightarrow> graph" where
  "survivorship_event now me actor_type actor_id reason pid g =
     (if has_node g (PersonN pid)
      then create_edge \<lparr>e_type = SURVIVOR, e_src = MergeEventN me, e_dst = PersonN pid, e_props = []\<rparr>
             (create_node (MergeEventN me)
                [(''merge_event_id'', JStr me), (''event_type'', JStr ''survivorship_override''),
                 (''actor_type'', JStr actor_type), (''actor_id'', JStr actor_id), (''reason'', JStr reason),
                 (''metadata'', JStr ''{}''), (''created_at'', JInt now)] g)
      else g)"

definition CREATE_RECOMPUTE_AUDIT :: "int \<Rightarrow> string \<Rightarrow> string \<Rightarrow> graph \<Rightarrow> graph" where
  "CREATE_RECOMPUTE_AUDIT now me =
     survivorship_event now me ''system'' ''golden_profile_recompute'' ''Golden profile recomputed''"

definition CREATE_OVERRIDE_AUDIT :: "int \<Rightarrow> string \<Rightarrow> string \<Rightarrow> string \<Rightarrow> string \<Rightarrow> graph \<Rightarrow> graph" where
  "CREATE_OVERRIDE_AUDIT now me actor_id reason = survivorship_event now me ''admin'' actor_id reason"

definition recompute_golden_profile_tx ::
    "(int \<Rightarrow> string) \<Rightarrow> int \<Rightarrow> string \<Rightarrow> string \<Rightarrow> bool \<Rightarrow> graph \<Rightarrow> graph \<times> f64 option" where
  "recompute_golden_profile_tx isof now me pid invalidate g =
     (if \<not> CHECK_PERSON_ACTIVE g pid then (g, None)
      else let v = golden_values_of isof g pid;
               score = completeness_score [gv_full_name v, gv_phone v, gv_email v, gv_dob v] (gv_address_id v \<noteq> None)
           in (CREATE_RECOMPUTE_AUDIT now me pid
                 (API_UPDATE_GOLDEN_PROFILE now pid v score (''computed-'' @ isof now) invalidate g), Some score))"

section \<open>Overrides\<close>

definition override_entry :: "string \<Rightarrow> string \<Rightarrow> string \<Rightarrow> string \<Rightarrow> string \<Rightarrow> override" where
  "override_entry field_name source_record_pk reason actor_id created_at =
     [(''source_record_pk'', source_record_pk),
      (''source_kind'', case map_of GOLDEN_FIELD_SPEC field_name of None \<Rightarrow> [] | Some k \<Rightarrow> source_kind_text k),
      (''identifier_type'', case map_of GOLDEN_FIELD_SPEC field_name of Some (Identifier_Kind k) \<Rightarrow> k | _ \<Rightarrow> []),
      (''reason'', reason), (''actor_type'', ''admin''), (''actor_id'', actor_id), (''created_at'', created_at)]"

definition custom_override_entry :: "string \<Rightarrow> string \<Rightarrow> string \<Rightarrow> string \<Rightarrow> override" where
  "custom_override_entry custom_value reason actor_id created_at =
     [(''source_record_pk'', []), (''source_kind'', ''literal''), (''identifier_type'', []),
      (''custom_value'', custom_value), (''reason'', reason), (''actor_type'', ''admin''), (''actor_id'', actor_id),
      (''created_at'', created_at)]"

definition re_fullmatch :: "regex \<Rightarrow> string \<Rightarrow> bool" where
  "re_fullmatch r s = list_ex (\<lambda>w. fst w = []) (ways r (s, []))"

definition CUSTOM_PHONE_RE :: regex where
  "CUSTOM_PHONE_RE = in_order
     [Maybe (Chars (\<lambda>c. c = CHR ''+'')), Chars is_digit, Times (\<lambda>c. is_digit c \<or> is_space c \<or> c = CHR ''-'') 5 (Some 19)]"

definition CUSTOM_EMAIL_RE :: regex where
  "CUSTOM_EMAIL_RE =
     (let part = Times (\<lambda>c. \<not> is_space c \<and> c \<noteq> CHR ''@'') 1 None
      in in_order [part, Chars (\<lambda>c. c = CHR ''@''), part, Chars (\<lambda>c. c = CHR ''.''), part])"

definition CUSTOM_NRIC_RE :: regex where
  "CUSTOM_NRIC_RE = Times (\<lambda>c. is_letter c \<or> is_digit c \<or> c = CHR ''*'' \<or> c = CHR ''-'' \<or> is_space c) 4 (Some 32)"

definition is_valid_custom_value :: "(string \<Rightarrow> bool) \<Rightarrow> string \<Rightarrow> string \<Rightarrow> bool" where
  "is_valid_custom_value valid_iso field_name v =
     (if v = [] then False
      else if field_name = ''preferred_phone'' then re_fullmatch CUSTOM_PHONE_RE v
      else if field_name = ''preferred_email'' then re_fullmatch CUSTOM_EMAIL_RE v
      else if field_name = ''preferred_dob'' \<and> \<not> valid_iso v then False
      else if field_name = ''preferred_nric'' then re_fullmatch CUSTOM_NRIC_RE v
      else True)"

text \<open>The property of the person to set, and its value; \<open>None\<close> when the record carries none.\<close>

definition derive_override_value :: "graph \<Rightarrow> string \<Rightarrow> string \<Rightarrow> string \<Rightarrow> (string \<times> string option) option" where
  "derive_override_value g pid field_name source_record_pk =
     (case map_of GOLDEN_FIELD_SPEC field_name of
        None \<Rightarrow> None
      | Some (Fact_Kind key) \<Rightarrow>
          map_option (\<lambda>v. (field_name, to_optional_str v)) (GET_FACT_VALUE g pid key source_record_pk)
      | Some (Identifier_Kind key) \<Rightarrow>
          map_option (\<lambda>v. (field_name, to_optional_str v)) (GET_IDENTIFIER_VALUE_FOR_SR g pid source_record_pk key)
      | Some Address_Kind \<Rightarrow>
          map_option (\<lambda>v. (''preferred_address_id'', to_optional_str v)) (GET_ADDRESS_FOR_SR g pid source_record_pk))"

definition UPDATE_OVERRIDES :: "int \<Rightarrow> string \<Rightarrow> string \<Rightarrow> graph \<Rightarrow> graph" where
  "UPDATE_OVERRIDES now pid overrides =
     set_node (PersonN pid) (\<lambda>_. [(''survivorship_overrides'', JStr overrides), (''updated_at'', JInt now)])"

definition UPDATE_GOLDEN_FIELD :: "int \<Rightarrow> string \<Rightarrow> string \<Rightarrow> string \<Rightarrow> graph \<Rightarrow> graph" where
  "UPDATE_GOLDEN_FIELD now pid field_name v =
     set_node (PersonN pid) (\<lambda>d. (field_name, JStr v) # analysis_revision True now d)"

definition UPDATE_GOLDEN_FIELDS :: "int \<Rightarrow> string \<Rightarrow> (string \<times> string) list \<Rightarrow> bool \<Rightarrow> graph \<Rightarrow> graph" where
  "UPDATE_GOLDEN_FIELDS now pid updates invalidate =
     set_node (PersonN pid) (\<lambda>d. map (\<lambda>(f, v). (f, JStr v)) updates @ analysis_revision invalidate now d)"

definition UPSERT_CUSTOM_ADDRESS :: "int \<Rightarrow> string \<Rightarrow> string \<Rightarrow> graph \<Rightarrow> graph \<times> json option" where
  "UPSERT_CUSTOM_ADDRESS now aid full g =
     (if addresses_with g full = []
      then (create_node (AddressN aid)
              [(''normalized_full'', JStr full), (''address_id'', JStr aid), (''created_at'', JInt now), (''updated_at'', JInt now)] g,
            Some (JStr aid))
      else (set_nodes (addresses_with g full) [(''updated_at'', JInt now)] g, GET_ADDRESS_BY_NORMALIZED g full))"

text \<open>The outcome is a text; the overrides are read before anything is written.\<close>

definition store_override :: "int \<Rightarrow> string \<Rightarrow> string \<Rightarrow> override \<Rightarrow> graph \<Rightarrow> graph" where
  "store_override now pid field_name entry g =
     UPDATE_OVERRIDES now pid (json_dumps (overrides_json (AList.update field_name entry (load_overrides g pid)))) g"

definition override_tx ::
    "(int \<Rightarrow> string) \<Rightarrow> int \<Rightarrow> string \<Rightarrow> string \<Rightarrow> string \<Rightarrow> string \<Rightarrow> string \<Rightarrow> string \<Rightarrow> graph \<Rightarrow> graph \<times> string" where
  "override_tx isof now me pid field_name source_record_pk reason actor_id g =
     (if \<not> CHECK_PERSON_ACTIVE g pid then (g, ''person_not_found'')
      else if field_name \<notin> fst ` set GOLDEN_FIELD_SPEC then (g, ''invalid_field'')
      else if \<not> CHECK_SOURCE_RECORD_LINKED g source_record_pk pid then (g, ''sr_not_found'')
      else case derive_override_value g pid field_name source_record_pk of
             Some (field_to_set, Some v) \<Rightarrow>
               (let g = store_override now pid field_name
                          (override_entry field_name source_record_pk reason actor_id (isof now)) g;
                    g = UPDATE_GOLDEN_FIELD now pid field_to_set v g
                in (CREATE_OVERRIDE_AUDIT now me actor_id reason pid g, ''ok''))
           | _ \<Rightarrow> (g, ''value_not_found''))"

definition custom_override_tx ::
    "(string \<Rightarrow> bool) \<Rightarrow> (int \<Rightarrow> string) \<Rightarrow> int \<Rightarrow> string \<Rightarrow> string \<Rightarrow> string \<Rightarrow> string \<Rightarrow> string \<Rightarrow> string \<Rightarrow> string
     \<Rightarrow> graph \<Rightarrow> graph \<times> string" where
  "custom_override_tx valid_iso isof now aid me pid field_name custom_value reason actor_id g =
     (if \<not> CHECK_PERSON_ACTIVE g pid then (g, ''person_not_found'')
      else if field_name \<notin> fst ` set GOLDEN_FIELD_SPEC then (g, ''invalid_field'')
      else let trimmed = py_strip custom_value
           in if \<not> is_valid_custom_value valid_iso field_name trimmed then (g, ''value_not_found'')
              else let overrides = load_overrides g pid;
                       (g, target) = (if field_name = ''preferred_address''
                          then (case UPSERT_CUSTOM_ADDRESS now aid (normalize_custom_address trimmed) g of
                                  (g, a) \<Rightarrow> (g, map_option (\<lambda>a. (''preferred_address_id'', to_str a)) a))
                          else (g, Some (field_name, trimmed)))
                   in case target of
                        None \<Rightarrow> (g, ''value_not_found'')
                      | Some (field_to_set, v) \<Rightarrow>
                          (let g = UPDATE_OVERRIDES now pid (json_dumps (overrides_json (AList.update field_name
                                     (custom_override_entry trimmed reason actor_id (isof now)) overrides))) g;
                               g = UPDATE_GOLDEN_FIELD now pid field_to_set v g
                           in (CREATE_OVERRIDE_AUDIT now me actor_id reason pid g, ''ok'')))"

datatype batch_outcome = Batch_Ok | Batch_Person_Not_Found | Batch_Failed string string

fun validate_items ::
    "graph \<Rightarrow> string \<Rightarrow> (string \<times> string) list \<Rightarrow> batch_outcome + (string \<times> string \<times> string \<times> string) list" where
  "validate_items g pid [] = Inr []"
| "validate_items g pid ((field_name, pk) # items) =
     (if field_name \<notin> fst ` set GOLDEN_FIELD_SPEC then Inl (Batch_Failed ''invalid_field'' field_name)
      else if \<not> CHECK_SOURCE_RECORD_LINKED g pk pid then Inl (Batch_Failed ''sr_not_found'' field_name)
      else case derive_override_value g pid field_name pk of
             Some (field_to_set, Some v) \<Rightarrow>
               (case validate_items g pid items of
                  Inl e \<Rightarrow> Inl e | Inr rest \<Rightarrow> Inr ((field_name, pk, field_to_set, v) # rest))
           | _ \<Rightarrow> Inl (Batch_Failed ''value_not_found'' field_name))"

definition batch_override_tx ::
    "(int \<Rightarrow> string) \<Rightarrow> int \<Rightarrow> string \<Rightarrow> string \<Rightarrow> (string \<times> string) list \<Rightarrow> string \<Rightarrow> string \<Rightarrow> graph
     \<Rightarrow> graph \<times> batch_outcome" where
  "batch_override_tx isof now me pid items reason actor_id g =
     (if \<not> CHECK_PERSON_ACTIVE g pid then (g, Batch_Person_Not_Found)
      else case validate_items g pid items of
             Inl e \<Rightarrow> (g, e)
           | Inr validated \<Rightarrow>
               (let overrides = fold (\<lambda>(f, pk, _). AList.update f (override_entry f pk reason actor_id (isof now)))
                      validated (load_overrides g pid);
                    g = UPDATE_OVERRIDES now pid (json_dumps (overrides_json overrides)) g;
                    updates = map (\<lambda>(_, _, field_to_set, v). (field_to_set, v)) validated;
                    g = (if updates = [] then g else UPDATE_GOLDEN_FIELDS now pid updates True g)
                in (CREATE_OVERRIDE_AUDIT now me actor_id reason pid g, Batch_Ok)))"

section \<open>Merges and unmerges with their profiles\<close>

definition selection_updates :: "graph \<Rightarrow> golden_profile_selection list \<Rightarrow> (string \<times> string) list" where
  "selection_updates g selections =
     concat (map (\<lambda>s.
       if gs_field_name s = ''preferred_address''
       then (case GET_ADDRESS_BY_NORMALIZED g (normalize_custom_address (gs_selected_value s)) of
               None \<Rightarrow> [] | Some a \<Rightarrow> [(''preferred_address_id'', to_str a)])
       else [(gs_field_name s, gs_selected_value s)]) selections)"

definition apply_golden_profile_selections_tx ::
    "int \<Rightarrow> string \<Rightarrow> golden_profile_selection list \<Rightarrow> graph \<Rightarrow> graph" where
  "apply_golden_profile_selections_tx now pid selections g =
     (let updates = selection_updates g selections
      in if updates = [] then g else UPDATE_GOLDEN_FIELDS now pid updates False g)"

definition manual_merge_with_profile_tx ::
    "(string \<Rightarrow> bool) \<Rightarrow> (nat \<Rightarrow> string) \<Rightarrow> (int \<Rightarrow> string) \<Rightarrow> int \<Rightarrow> string \<Rightarrow> string \<Rightarrow> string \<Rightarrow> string \<Rightarrow> string \<Rightarrow> string
     \<Rightarrow> golden_profile_selection list \<Rightarrow> graph \<times> stream \<Rightarrow> (merge_outcome \<times> graph \<times> stream) result" where
  "manual_merge_with_profile_tx valid_iso uuid isof now me audit from_id to_id reason actor_id selections gst =
     try_bind (manual_merge_tx valid_iso uuid isof now me from_id to_id reason actor_id gst) (\<lambda>(outcome, g, st).
       case outcome of
         Merged event redirected \<Rightarrow>
           (let g = fst (recompute_golden_profile_tx isof now audit to_id False g);
                g = (if selections = [] then g else apply_golden_profile_selections_tx now to_id selections g)
            in ok (outcome, g, st))
       | _ \<Rightarrow> ok (outcome, g, st))"

definition unmerge_with_profiles_tx ::
    "(string \<Rightarrow> bool) \<Rightarrow> (nat \<Rightarrow> string) \<Rightarrow> (int \<Rightarrow> string) \<Rightarrow> int \<Rightarrow> string \<Rightarrow> string \<Rightarrow> string \<Rightarrow> string \<Rightarrow> string \<Rightarrow> string
     \<Rightarrow> graph \<times> stream \<Rightarrow> (unmerge_result option \<times> graph \<times> stream) result" where
  "unmerge_with_profiles_tx valid_iso uuid isof now ume audit1 audit2 me reason actor_id gst =
     try_bind (unmerge_tx valid_iso uuid isof now ume me reason actor_id gst) (\<lambda>(r, g, st).
       case r of
         None \<Rightarrow> ok (None, g, st)
       | Some u \<Rightarrow>
           (let g = fst (recompute_golden_profile_tx isof now audit1 (ur_absorbed_id u) False g);
                g = fst (recompute_golden_profile_tx isof now audit2 (ur_current_survivor_id u) False g)
            in ok (Some u, g, st)))"

section \<open>Stored overrides are read back\<close>

definition wf_overrides :: "overrides \<Rightarrow> bool" where
  "wf_overrides ovs = (distinct (map fst ovs) \<and> list_all (\<lambda>(k, e). distinct (map fst e)) ovs)"

lemma override_maps_json: "override_maps (map (\<lambda>(k, e). (k, JObj (map (\<lambda>(ik, iv). (ik, JStr iv)) e))) ovs) = ovs"
  by (induction ovs) (auto simp: override_maps_def comp_def case_prod_beta)

lemma strip_not_empty: "\<not> is_space c \<Longrightarrow> py_strip (c # s) \<noteq> []"
  by (auto simp: py_strip_def py_lstrip_def py_rstrip_def)

lemma parse_stored_overrides:
  assumes "wf_overrides ovs"
  shows "parse_overrides (JStr (json_dumps (overrides_json ovs))) = ovs"
proof -
  have "plain_json (overrides_json ovs)"
    using assms by (auto simp: overrides_json_def wf_overrides_def list_all_iff comp_def case_prod_beta)
  then have "json_loads (json_dumps (overrides_json ovs)) = Some (overrides_json ovs)" by (rule json_loads_dumps)
  moreover have "py_strip (json_dumps (overrides_json ovs)) \<noteq> []"
    by (auto simp: overrides_json_def is_space_def intro!: strip_not_empty)
  ultimately show ?thesis by (simp add: parse_overrides_def) (simp add: overrides_json_def override_maps_json)
qed

lemma override_maps_simps [simp]:
  "override_maps [] = []"
  "override_maps ((k, v) # d) =
     (case v of JObj e \<Rightarrow> (k, map (\<lambda>(ik, iv). (ik, to_str iv)) e) # override_maps d | _ \<Rightarrow> override_maps d)"
  by (simp_all add: override_maps_def split: json.split)

lemma keys_override_maps: "(k, e) \<in> set (override_maps d) \<Longrightarrow> k \<in> fst ` set d"
  by (induction d) (auto split: json.splits)

lemma wf_override_maps: "distinct_keys (JObj d) \<Longrightarrow> wf_overrides (override_maps d)"
proof (induction d)
  case (Cons kv d)
  obtain k v where kv: "kv = (k, v)" by (cases kv)
  from Cons kv keys_override_maps [of k _ d] show ?case
    by (cases v) (auto simp: wf_overrides_def comp_def case_prod_beta)
qed (simp add: wf_overrides_def)

lemma wf_parse_overrides: "(\<And>d. raw \<noteq> JObj d) \<Longrightarrow> wf_overrides (parse_overrides raw)"
proof (cases raw)
  case (JStr s)
  have "wf_overrides []" by (simp add: wf_overrides_def)
  with wf_override_maps [OF json_loads_distinct_keys] show ?thesis
    by (auto simp: JStr parse_overrides_def split: option.split json.split)
qed (auto simp: parse_overrides_def wf_overrides_def)

lemma wf_update_override: "wf_overrides ovs \<Longrightarrow> distinct (map fst e) \<Longrightarrow> wf_overrides (AList.update k e ovs)"
  using set_update_subset [of k e ovs] by (auto simp: wf_overrides_def list_all_iff intro!: distinct_update)

lemma entries_distinct:
  "distinct (map fst (override_entry f pk reason actor created))" "distinct (map fst (custom_override_entry v reason actor created))"
  by (simp_all add: override_entry_def custom_override_entry_def)

section \<open>A pinned value stays\<close>

definition golden_property :: "string \<Rightarrow> string" where
  "golden_property field_name = (if field_name = ''preferred_address'' then ''preferred_address_id'' else field_name)"

text \<open>Nothing that a profile is computed from changes, except the overrides.\<close>

definition evidence_kept :: "graph \<Rightarrow> graph \<Rightarrow> bool" where
  "evidence_kept g g' \<longleftrightarrow>
     [e \<leftarrow> g_edges g'. e_type e \<noteq> SURVIVOR] = [e \<leftarrow> g_edges g. e_type e \<noteq> SURVIVOR]
     \<and> (\<forall>p. has_node g' (PersonN p) = has_node g (PersonN p))"

lemma evidence_kept_refl [simp]: "evidence_kept g g"
  by (simp add: evidence_kept_def)

lemma evidence_kept_trans [trans]: "evidence_kept g h \<Longrightarrow> evidence_kept h k \<Longrightarrow> evidence_kept g k"
  by (simp add: evidence_kept_def)

lemma evidence_kept_set_node [simp]: "evidence_kept g (set_node n f g)"
  by (simp add: evidence_kept_def)

lemma evidence_kept_create_node [simp]: "(\<And>p. n \<noteq> PersonN p) \<Longrightarrow> evidence_kept g (create_node n d g)"
  by (auto simp: evidence_kept_def)

lemma evidence_kept_event [simp]: "evidence_kept g (survivorship_event now me a i r pid g)"
  by (auto simp: evidence_kept_def survivorship_event_def)

lemma evidence_kept_set_nodes [simp]: "evidence_kept g (set_nodes ns kvs g)"
proof -
  have "evidence_kept h (fold (\<lambda>n. set_node n (\<lambda>_. kvs)) xs h)" for xs h
  proof (induction xs arbitrary: h)
    case (Cons x xs)
    then show ?case using evidence_kept_trans [OF evidence_kept_set_node] by (metis fold_simps(2))
  qed simp
  then show ?thesis by (simp add: set_nodes_def)
qed

lemma filter_edges_kept:
  assumes "evidence_kept g g'" "\<And>e. P e \<Longrightarrow> e_type e \<noteq> SURVIVOR"
  shows "filter P (g_edges g') = filter P (g_edges g)"
proof -
  have "filter P xs = filter P [e \<leftarrow> xs. e_type e \<noteq> SURVIVOR]" for xs
    using assms(2) by (auto intro: filter_cong)
  with assms(1) show ?thesis by (metis evidence_kept_def)
qed

lemma out_edges_kept:
  assumes "evidence_kept g g'" "t \<noteq> SURVIVOR"
  shows "out_edges g' t (PersonN p) = out_edges g t (PersonN p)"
proof -
  have "has_node g' (PersonN p) = has_node g (PersonN p)" using assms(1) by (simp add: evidence_kept_def)
  then show ?thesis unfolding out_edges_def using assms by (auto intro!: filter_edges_kept)
qed

lemma concat_map_if: "concat (map (\<lambda>x. if P x then [f x] else []) xs) = map f (filter P xs)"
  by (induction xs) auto

lemma source_systems_kept: "evidence_kept g g' \<Longrightarrow> source_systems_of g' sr = source_systems_of g sr"
proof -
  assume "evidence_kept g g'"
  then have "filter (\<lambda>e. e_type e = FROM_SOURCE \<and> e_src e = sr \<and> is_source_system (e_dst e)) (g_edges g')
      = filter (\<lambda>e. e_type e = FROM_SOURCE \<and> e_src e = sr \<and> is_source_system (e_dst e)) (g_edges g)"
    by (rule filter_edges_kept) auto
  then show ?thesis by (simp add: source_systems_of_def concat_map_if)
qed

lemma derive_override_kept:
  assumes "evidence_kept g g'"
  shows "derive_override_value g' pid field_name pk = derive_override_value g pid field_name pk"
  by (simp add: derive_override_value_def GET_FACT_VALUE_def GET_IDENTIFIER_VALUE_FOR_SR_def GET_ADDRESS_FOR_SR_def
      out_edges_kept [OF assms] split: option.split source_kind.split)

text \<open>The facts of the chosen record are usable and agree, and the record has a source.\<close>

definition fact_supports :: "graph \<Rightarrow> string \<Rightarrow> string \<Rightarrow> string \<Rightarrow> string \<Rightarrow> bool" where
  "fact_supports g pid field_name pk v =
     (case map_of GOLDEN_FIELD_SPEC field_name of
        Some (Fact_Kind key) \<Rightarrow>
          source_systems_of g (SourceRecordN pk) \<noteq> []
          \<and> (\<forall>f \<in> set (out_edges g HAS_FACT (PersonN pid)).
               e_dst f = SourceRecordN pk \<and> rel_active f \<and> to_str (edge_prop f ''attribute_name'') = key
               \<longrightarrow> to_str_or ''valid'' (edge_prop f ''quality_flag'') \<notin> set INVALID_QUALITY_FLAGS
                 \<and> to_optional_str (edge_prop f ''attribute_value'') = Some v)
      | _ \<Rightarrow> True)"

lemma fact_supports_kept: "evidence_kept g g' \<Longrightarrow> fact_supports g' pid field_name pk v = fact_supports g pid field_name pk v"
  by (simp add: fact_supports_def out_edges_kept source_systems_kept split: option.split source_kind.split)

definition holds_value :: "(string \<times> best_fact) list \<Rightarrow> string \<Rightarrow> string \<Rightarrow> bool" where
  "holds_value best key v = (\<exists>b. map_of best key = Some b \<and> bf_value b = Some v \<and> bf_trust_rank b = 0)"

lemma TRUST_RANK_pos [simp]: "TRUST_RANK tier \<noteq> 0"
  by (auto simp: TRUST_RANK_def split: option.splits if_splits dest!: map_of_SomeD)

definition row_pinned :: "string \<Rightarrow> string \<Rightarrow> person_fact \<Rightarrow> bool" where
  "row_pinned key pk row = (to_str (pf_attribute_name row) = key \<and> to_str (pf_source_record_pk row) = pk)"

definition row_supports :: "string \<Rightarrow> string \<Rightarrow> string \<Rightarrow> person_fact \<Rightarrow> bool" where
  "row_supports key pk v row = (row_pinned key pk row \<longrightarrow>
     to_str_or ''valid'' (pf_quality_flag row) \<notin> set INVALID_QUALITY_FLAGS \<and> to_optional_str (pf_attribute_value row) = Some v)"

lemma gather_fact_pinned:
  assumes "map_of overrides (''preferred_'' @ key) = Some entry" "override_value (Some entry) ''custom_value'' = None"
    "map_of entry ''source_record_pk'' = Some pk" "row_supports key pk v row"
  shows "row_pinned key pk row \<Longrightarrow> holds_value (gather_fact isof overrides row best) key v"
    and "holds_value best key v \<Longrightarrow> holds_value (gather_fact isof overrides row best) key v"
proof -
  have set: "holds_value (gather_fact isof overrides row best) key v" if "row_pinned key pk row"
    using assms that by (simp add: gather_fact_def row_pinned_def row_supports_def holds_value_def Let_def update_conv')
  then show "row_pinned key pk row \<Longrightarrow> holds_value (gather_fact isof overrides row best) key v" .
  assume hold: "holds_value best key v"
  show "holds_value (gather_fact isof overrides row best) key v"
  proof (cases "row_pinned key pk row")
    case False
    show ?thesis
    proof (cases "to_str (pf_attribute_name row) = key")
      case True
      with False have "to_str (pf_source_record_pk row) \<noteq> pk" by (simp add: row_pinned_def)
      with assms True hold show ?thesis
        by (auto simp: gather_fact_def holds_value_def Let_def update_conv' select_best_fact_def)
    next
      case other: False
      with hold show ?thesis
        by (auto simp: gather_fact_def holds_value_def Let_def update_conv' split: option.split)
    qed
  qed (rule set)
qed

lemma fold_gather_pinned:
  assumes "map_of overrides (''preferred_'' @ key) = Some entry" "override_value (Some entry) ''custom_value'' = None"
    "map_of entry ''source_record_pk'' = Some pk" "\<forall>row \<in> set rows. row_supports key pk v row"
    "(\<exists>row \<in> set rows. row_pinned key pk row) \<or> holds_value best key v"
  shows "holds_value (fold (gather_fact isof overrides) rows best) key v"
  using assms(4,5)
proof (induction rows arbitrary: best)
  case (Cons row rows)
  then have row: "row_supports key pk v row" by simp
  note step = gather_fact_pinned [OF assms(1-3) row]
  from Cons.prems step have "(\<exists>row \<in> set rows. row_pinned key pk row) \<or> holds_value (gather_fact isof overrides row best) key v" by auto
  with Cons show ?case by simp
qed simp

lemma custom_facts_keep:
  assumes "override_value (map_of overrides (''preferred_'' @ key)) ''custom_value'' = None"
  shows "map_of (fold (custom_fact overrides) attrs best) key = map_of best key"
  using assms by (induction attrs arbitrary: best) (auto simp: custom_fact_def update_conv' split: option.split)

lemma custom_facts_set:
  assumes "override_value (map_of overrides (''preferred_'' @ key)) ''custom_value'' = Some v" "key \<in> set attrs"
  shows "holds_value (fold (custom_fact overrides) attrs best) key v"
proof -
  have step: "holds_value (custom_fact overrides x best) key v" if "x = key \<or> holds_value best key v" for x best
    using that assms(1) by (cases "x = key") (auto simp: custom_fact_def holds_value_def update_conv' split: option.split)
  have "key \<in> set xs \<or> holds_value best key v \<Longrightarrow> holds_value (fold (custom_fact overrides) xs best) key v" for xs best
  proof (induction xs arbitrary: best)
    case (Cons x xs)
    have "key \<in> set xs \<or> holds_value (custom_fact overrides x best) key v" using Cons.prems step by auto
    with Cons.IH show ?case by simp
  qed simp
  with assms(2) show ?thesis by blast
qed

lemma pinned_fact_gathered:
  assumes field: "map_of GOLDEN_FIELD_SPEC (''preferred_'' @ key) = Some (Fact_Kind key)"
    and entry: "map_of overrides (''preferred_'' @ key) = Some entry" "override_value (Some entry) ''custom_value'' = None"
      "map_of entry ''source_record_pk'' = Some pk"
    and support: "fact_supports g pid (''preferred_'' @ key) pk v"
    and derive: "derive_override_value g pid (''preferred_'' @ key) pk \<noteq> None"
  shows "best_value (gather_best_facts isof g pid overrides) key = Some v"
proof -
  let ?rows = "GET_PERSON_FACTS g pid"
  from support field have sys: "source_systems_of g (SourceRecordN pk) \<noteq> []"
    and facts: "\<And>f. f \<in> set (out_edges g HAS_FACT (PersonN pid)) \<Longrightarrow> e_dst f = SourceRecordN pk \<Longrightarrow> rel_active f \<Longrightarrow>
      to_str (edge_prop f ''attribute_name'') = key \<Longrightarrow>
      to_str_or ''valid'' (edge_prop f ''quality_flag'') \<notin> set INVALID_QUALITY_FLAGS \<and> to_optional_str (edge_prop f ''attribute_value'') = Some v"
    by (auto simp: fact_supports_def)
  have pk: "to_str (source_record_pk_of n) = pk \<longleftrightarrow> n = SourceRecordN pk" if "is_source_record n" for n
    using that by (cases n) auto
  have supports: "\<forall>row \<in> set ?rows. row_supports key pk v row"
    using facts pk by (auto simp: GET_PERSON_FACTS_def row_supports_def row_pinned_def)
  have "[f \<leftarrow> out_edges g HAS_FACT (PersonN pid). e_dst f = SourceRecordN pk
      \<and> edge_prop f ''attribute_name'' = JStr key \<and> rel_active f] \<noteq> []"
    using derive field by (auto simp: derive_override_value_def GET_FACT_VALUE_def first_of_def)
  then obtain f where f: "f \<in> set (out_edges g HAS_FACT (PersonN pid))" "e_dst f = SourceRecordN pk"
    "edge_prop f ''attribute_name'' = JStr key" "rel_active f" by (auto simp: filter_empty_conv)
  obtain ss where "ss \<in> set (source_systems_of g (SourceRecordN pk))" using sys by (cases "source_systems_of g (SourceRecordN pk)") auto
  with f have "\<exists>row \<in> set ?rows. row_pinned key pk row"
    by (force simp: GET_PERSON_FACTS_def row_pinned_def)
  from fold_gather_pinned [OF entry supports] this have "holds_value (fold (gather_fact isof overrides) ?rows []) key v" by blast
  moreover have none: "override_value (map_of overrides (''preferred_'' @ key)) ''custom_value'' = None" using entry by simp
  ultimately show ?thesis
    unfolding gather_best_facts_def best_value_def holds_value_def custom_facts_keep [OF none] by auto
qed

text \<open>What the profile holds for a field, and that its override is stored and supported.\<close>

definition golden_value :: "golden_values \<Rightarrow> string \<Rightarrow> string option" where
  "golden_value v field_name =
     (if field_name = ''preferred_full_name'' then gv_full_name v
      else if field_name = ''preferred_dob'' then gv_dob v
      else if field_name = ''preferred_race_ethnicity'' then gv_race_ethnicity v
      else if field_name = ''preferred_phone'' then gv_phone v
      else if field_name = ''preferred_email'' then gv_email v
      else if field_name = ''preferred_nric'' then gv_nric v
      else gv_address_id v)"

definition backed :: "graph \<Rightarrow> string \<Rightarrow> string \<Rightarrow> string \<Rightarrow> string \<Rightarrow> bool" where
  "backed g pid field_name pk v =
     (derive_override_value g pid field_name pk = Some (golden_property field_name, Some v)
      \<and> fact_supports g pid field_name pk v \<and> pk \<noteq> [])"

definition entry_pins :: "override option \<Rightarrow> string \<Rightarrow> bool" where
  "entry_pins entry pk = (override_value entry ''custom_value'' = None
     \<and> (case entry of None \<Rightarrow> False | Some e \<Rightarrow> map_of e ''source_record_pk'' = Some pk))"

lemma spec_cases:
  assumes "field_name \<in> fst ` set GOLDEN_FIELD_SPEC"
  shows "(\<exists>key \<in> {''full_name'', ''dob'', ''race_ethnicity''}. field_name = ''preferred_'' @ key
        \<and> map_of GOLDEN_FIELD_SPEC field_name = Some (Fact_Kind key))
    \<or> (\<exists>key \<in> {''phone'', ''email'', ''nric''}. field_name = ''preferred_'' @ key
        \<and> map_of GOLDEN_FIELD_SPEC field_name = Some (Identifier_Kind key))
    \<or> field_name = ''preferred_address'' \<and> map_of GOLDEN_FIELD_SPEC field_name = Some Address_Kind"
proof -
  have "fst ` set GOLDEN_FIELD_SPEC = {''preferred_full_name'', ''preferred_dob'', ''preferred_race_ethnicity'',
      ''preferred_phone'', ''preferred_email'', ''preferred_nric'', ''preferred_address''}"
    by (simp add: GOLDEN_FIELD_SPEC_def)
  with assms consider "field_name = ''preferred_full_name''" | "field_name = ''preferred_dob''"
    | "field_name = ''preferred_race_ethnicity''" | "field_name = ''preferred_phone''" | "field_name = ''preferred_email''"
    | "field_name = ''preferred_nric''" | "field_name = ''preferred_address''" by blast
  then show ?thesis by cases (simp_all add: GOLDEN_FIELD_SPEC_def)
qed

lemma backed_value:
  assumes field: "field_name \<in> fst ` set GOLDEN_FIELD_SPEC"
    and backed: "backed g pid field_name pk v"
    and pins: "entry_pins (map_of (load_overrides g pid) field_name) pk"
  shows "golden_value (golden_values_of isof g pid) field_name = Some v"
proof -
  from pins obtain e where e: "map_of (load_overrides g pid) field_name = Some e"
    "override_value (Some e) ''custom_value'' = None" "map_of e ''source_record_pk'' = Some pk"
    by (auto simp: entry_pins_def split: option.splits)
  have pk: "override_value (Some e) ''source_record_pk'' = Some pk" using e backed by (simp add: override_value_def backed_def)
  from spec_cases [OF field] consider
      (fact) key where "key \<in> {''full_name'', ''dob'', ''race_ethnicity''}" and "field_name = ''preferred_'' @ key" and
        "map_of GOLDEN_FIELD_SPEC field_name = Some (Fact_Kind key)"
    | (ident) key where "key \<in> {''phone'', ''email'', ''nric''}" and "field_name = ''preferred_'' @ key" and
        "map_of GOLDEN_FIELD_SPEC field_name = Some (Identifier_Kind key)"
    | (address) "field_name = ''preferred_address''" and "map_of GOLDEN_FIELD_SPEC field_name = Some Address_Kind" by blast
  then show ?thesis
  proof cases
    case (fact key)
    have "best_value (gather_best_facts isof g pid (load_overrides g pid)) key = Some v"
      using fact backed e by (intro pinned_fact_gathered) (auto simp: backed_def)
    with fact show ?thesis by (auto simp: golden_value_def golden_values_of_def Let_def)
  next
    case (ident key)
    with backed have "Option.bind (GET_IDENTIFIER_VALUE_FOR_SR g pid pk key) to_optional_str = Some v"
      by (auto simp: backed_def derive_override_value_def)
    with ident e pk show ?thesis
      by (auto simp: golden_value_def golden_values_of_def Let_def resolve_identifier_def)
  next
    case address
    with backed have "Option.bind (GET_ADDRESS_FOR_SR g pid pk) to_optional_str = Some v"
      by (auto simp: backed_def derive_override_value_def)
    with address e pk show ?thesis
      by (auto simp: golden_value_def golden_values_of_def Let_def resolve_best_address_def)
  qed
qed

lemma spec_names: "f \<in> fst ` set GOLDEN_FIELD_SPEC \<longleftrightarrow> f \<in> set [''preferred_full_name'', ''preferred_dob'', ''preferred_race_ethnicity'',
      ''preferred_phone'', ''preferred_email'', ''preferred_nric'', ''preferred_address'']"
  by (simp add: GOLDEN_FIELD_SPEC_def)
lemma node_prop_event [simp]: "node_prop (survivorship_event now me a i r q g) (PersonN p) k = node_prop g (PersonN p) k"
  by (simp add: survivorship_event_def node_prop_create_other)

lemma has_node_event [simp]: "has_node (survivorship_event now me a i r q g) (PersonN p) = has_node g (PersonN p)"
  by (auto simp: survivorship_event_def)

lemma keys_analysis_revision [simp]:
  "fst ` set (analysis_revision invalidate now d) = {''analysis_input_revision'', ''analysis_dirty_at'', ''updated_at''}"
  by (simp add: analysis_revision_def)

lemma fold_set_nodes_prop:
  "m \<notin> set ns \<Longrightarrow> node_prop (fold (\<lambda>n. set_node n (\<lambda>_. kvs)) ns g) m k = node_prop g m k"
  by (induction ns arbitrary: g) (simp_all add: node_prop_set_node_other)

lemma node_prop_set_nodes_other: "m \<notin> set ns \<Longrightarrow> node_prop (set_nodes ns kvs g) m k = node_prop g m k"
  by (simp add: set_nodes_def fold_set_nodes_prop)

lemma upsert_custom_address:
  assumes "UPSERT_CUSTOM_ADDRESS now aid full g = (g', a)"
  shows "evidence_kept g g'" "node_prop g' (PersonN p) k = node_prop g (PersonN p) k"
proof -
  have "PersonN p \<notin> set (addresses_with g full)" by (auto simp: addresses_with_def)
  with assms show "evidence_kept g g'" "node_prop g' (PersonN p) k = node_prop g (PersonN p) k"
    by (auto simp: UPSERT_CUSTOM_ADDRESS_def node_prop_set_nodes_other node_prop_create_other split: if_splits)
qed

lemma golden_property_fresh:
  assumes "field_name \<in> fst ` set GOLDEN_FIELD_SPEC"
  shows "golden_property field_name \<notin> {''survivorship_overrides'', ''analysis_input_revision'', ''analysis_dirty_at'', ''updated_at''}"
  using assms unfolding spec_names list.set insert_iff by (elim disjE) (simp_all add: golden_property_def)

lemma golden_property_inj:
  assumes "field_name \<in> fst ` set GOLDEN_FIELD_SPEC" "other \<in> fst ` set GOLDEN_FIELD_SPEC" "other \<noteq> field_name"
  shows "golden_property other \<noteq> golden_property field_name"
proof -
  have "''preferred_address_id'' \<notin> fst ` set GOLDEN_FIELD_SPEC" by (simp add: spec_names)
  with assms show ?thesis unfolding golden_property_def by (metis (full_types))
qed

section \<open>Histories of a profile\<close>

datatype profile_event =
    Recomputed int string bool
  | Overridden int string string string string string
  | Custom_Overridden int string string string string string string
  | Batch_Overridden int string "(string \<times> string) list" string string

fun profile_step :: "(string \<Rightarrow> bool) \<Rightarrow> (int \<Rightarrow> string) \<Rightarrow> string \<Rightarrow> profile_event \<Rightarrow> graph \<Rightarrow> graph" where
  "profile_step valid_iso isof pid (Recomputed now me invalidate) g =
     fst (recompute_golden_profile_tx isof now me pid invalidate g)"
| "profile_step valid_iso isof pid (Overridden now me field_name pk reason actor) g =
     fst (override_tx isof now me pid field_name pk reason actor g)"
| "profile_step valid_iso isof pid (Custom_Overridden now aid me field_name v reason actor) g =
     fst (custom_override_tx valid_iso isof now aid me pid field_name v reason actor g)"
| "profile_step valid_iso isof pid (Batch_Overridden now me items reason actor) g =
     fst (batch_override_tx isof now me pid items reason actor g)"

fun overridden_fields :: "profile_event \<Rightarrow> string set" where
  "overridden_fields (Recomputed now me invalidate) = {}"
| "overridden_fields (Overridden now me field_name pk reason actor) = {field_name}"
| "overridden_fields (Custom_Overridden now aid me field_name v reason actor) = {field_name}"
| "overridden_fields (Batch_Overridden now me items reason actor) = fst ` set items"

definition text_overrides :: "graph \<Rightarrow> string \<Rightarrow> bool" where
  "text_overrides g pid = (case node_prop g (PersonN pid) ''survivorship_overrides'' of JObj d \<Rightarrow> False | _ \<Rightarrow> True)"

definition pinned :: "string \<Rightarrow> string \<Rightarrow> string \<Rightarrow> string \<Rightarrow> graph \<Rightarrow> bool" where
  "pinned pid field_name pk v g =
     (has_node g (PersonN pid) \<and> text_overrides g pid \<and> entry_pins (map_of (load_overrides g pid) field_name) pk
      \<and> backed g pid field_name pk v \<and> node_prop g (PersonN pid) (golden_property field_name) = JStr v)"

lemma backed_kept: "evidence_kept g g' \<Longrightarrow> backed g' pid field_name pk v = backed g pid field_name pk v"
  by (simp add: backed_def derive_override_kept fact_supports_kept)

lemma wf_load_overrides: "text_overrides g pid \<Longrightarrow> wf_overrides (load_overrides g pid)"
  unfolding load_overrides_def text_overrides_def by (rule wf_parse_overrides) auto

lemma update_golden_field_single: "UPDATE_GOLDEN_FIELD now pid f v = UPDATE_GOLDEN_FIELDS now pid [(f, v)] True"
  by (simp add: UPDATE_GOLDEN_FIELD_def UPDATE_GOLDEN_FIELDS_def fun_eq_iff)

lemma update_golden_fields_other:
  assumes "k \<notin> fst ` set updates" "k \<notin> {''analysis_input_revision'', ''analysis_dirty_at'', ''updated_at''}"
  shows "node_prop (UPDATE_GOLDEN_FIELDS now pid updates invalidate g) n k = node_prop g n k"
  unfolding UPDATE_GOLDEN_FIELDS_def
  by (rule node_prop_set_node_other) (use assms in \<open>simp add: image_Un image_image case_prod_beta\<close>)

lemma update_overrides_props:
  "k \<notin> {''survivorship_overrides'', ''updated_at''} \<Longrightarrow> node_prop (UPDATE_OVERRIDES now pid s g) n k = node_prop g n k"
  "has_node g (PersonN pid) \<Longrightarrow> node_prop (UPDATE_OVERRIDES now pid s g) (PersonN pid) ''survivorship_overrides'' = JStr s"
  unfolding UPDATE_OVERRIDES_def by (rule node_prop_set_node_other, simp) (simp add: node_prop_set_node)

lemma image_subset_obtain: "S \<subseteq> f ` A \<Longrightarrow> k \<in> S \<Longrightarrow> \<exists>a \<in> A. f a = k"
  by blast

lemma pin_step:
  assumes "pinned pid field_name pk v g" and kept: "evidence_kept g g'" and "text_overrides g' pid"
    "map_of (load_overrides g' pid) field_name = map_of (load_overrides g pid) field_name"
    "node_prop g' (PersonN pid) (golden_property field_name) = node_prop g (PersonN pid) (golden_property field_name)"
  shows "pinned pid field_name pk v g'"
  using assms by (simp add: pinned_def backed_kept [OF kept] evidence_kept_def)

lemma update_overrides_keeps_pin:
  assumes pinned: "pinned pid field_name pk v g" and field: "field_name \<in> fst ` set GOLDEN_FIELD_SPEC"
    and ovs: "wf_overrides ovs" "map_of ovs field_name = map_of (load_overrides g pid) field_name"
  shows "pinned pid field_name pk v (UPDATE_OVERRIDES now pid (json_dumps (overrides_json ovs)) g)" (is "pinned pid field_name pk v ?g")
proof (rule pin_step [OF pinned])
  show "evidence_kept g ?g" by (simp add: UPDATE_OVERRIDES_def)
  from pinned have raw: "node_prop ?g (PersonN pid) ''survivorship_overrides'' = JStr (json_dumps (overrides_json ovs))"
    by (simp add: update_overrides_props pinned_def)
  then show "text_overrides ?g pid" by (simp add: text_overrides_def)
  from raw have "load_overrides ?g pid = ovs" by (simp add: load_overrides_def parse_stored_overrides [OF ovs(1)])
  with ovs show "map_of (load_overrides ?g pid) field_name = map_of (load_overrides g pid) field_name" by simp
  show "node_prop ?g (PersonN pid) (golden_property field_name) = node_prop g (PersonN pid) (golden_property field_name)"
    by (rule update_overrides_props(1)) (use golden_property_fresh [OF field] in blast)
qed

lemma golden_fields_keep_pin:
  assumes pinned: "pinned pid field_name pk v g" and field: "field_name \<in> fst ` set GOLDEN_FIELD_SPEC"
    and updates: "fst ` set updates \<subseteq> golden_property ` (fst ` set GOLDEN_FIELD_SPEC - {field_name})"
  shows "pinned pid field_name pk v (UPDATE_GOLDEN_FIELDS now pid updates invalidate g)" (is "pinned pid field_name pk v ?g")
proof (rule pin_step [OF pinned])
  show "evidence_kept g ?g" by (simp add: UPDATE_GOLDEN_FIELDS_def)
  have "''survivorship_overrides'' \<notin> fst ` set updates"
  proof
    assume "''survivorship_overrides'' \<in> fst ` set updates"
    from image_subset_obtain [OF updates this] golden_property_fresh show False by (metis DiffD1 insertI1)
  qed
  from update_golden_fields_other [OF this] have raw: "node_prop ?g (PersonN pid) ''survivorship_overrides''
      = node_prop g (PersonN pid) ''survivorship_overrides''" by simp
  with pinned show "text_overrides ?g pid" by (simp add: text_overrides_def pinned_def)
  from raw show "map_of (load_overrides ?g pid) field_name = map_of (load_overrides g pid) field_name"
    by (simp add: load_overrides_def)
  have fresh: "golden_property field_name \<notin> fst ` set updates"
  proof
    assume "golden_property field_name \<in> fst ` set updates"
    from image_subset_obtain [OF updates this] golden_property_inj [OF field] show False by (metis DiffD1 DiffD2 singletonI)
  qed
  show "node_prop ?g (PersonN pid) (golden_property field_name) = node_prop g (PersonN pid) (golden_property field_name)"
    by (rule update_golden_fields_other [OF fresh]) (use golden_property_fresh [OF field] in blast)
qed

lemma event_keeps_pin: "pinned pid field_name pk v g \<Longrightarrow> pinned pid field_name pk v (survivorship_event now me a i r q g)"
  by (simp add: pinned_def backed_kept [OF evidence_kept_event] text_overrides_def load_overrides_def)

lemma override_keeps_pin:
  assumes "pinned pid field_name pk v g" "field_name \<in> fst ` set GOLDEN_FIELD_SPEC" "other \<in> fst ` set GOLDEN_FIELD_SPEC"
    "other \<noteq> field_name" "distinct (map fst e)"
  shows "pinned pid field_name pk v (UPDATE_GOLDEN_FIELD now pid (golden_property other) w
     (UPDATE_OVERRIDES now pid (json_dumps (overrides_json (AList.update other e (load_overrides g pid)))) g))"
proof -
  have "wf_overrides (AList.update other e (load_overrides g pid))"
    using assms by (simp add: wf_update_override wf_load_overrides pinned_def)
  note stored = update_overrides_keeps_pin [OF assms(1,2) this]
  show ?thesis unfolding update_golden_field_single
    by (rule golden_fields_keep_pin [OF stored assms(2)]) (use assms(3,4) in \<open>auto simp: update_conv'\<close>)
qed

lemma derived_field: "derive_override_value g pid field_name pk = Some (field_to_set, w) \<Longrightarrow>
   field_to_set = golden_property field_name \<and> field_name \<in> fst ` set GOLDEN_FIELD_SPEC"
  by (auto simp: derive_override_value_def golden_property_def GOLDEN_FIELD_SPEC_def split: option.splits source_kind.splits if_splits)

lemma recompute_keeps_pin:
  assumes pinned: "pinned pid field_name pk v g" and field: "field_name \<in> fst ` set GOLDEN_FIELD_SPEC"
  shows "pinned pid field_name pk v (fst (recompute_golden_profile_tx isof now me pid invalidate g))"
proof (cases "CHECK_PERSON_ACTIVE g pid")
  case True
  define h where "h = API_UPDATE_GOLDEN_PROFILE now pid (golden_values_of isof g pid)
    (completeness_score [gv_full_name (golden_values_of isof g pid), gv_phone (golden_values_of isof g pid),
       gv_email (golden_values_of isof g pid), gv_dob (golden_values_of isof g pid)]
       (gv_address_id (golden_values_of isof g pid) \<noteq> None)) (''computed-'' @ isof now) invalidate g"
  have kept: "evidence_kept g h" unfolding h_def API_UPDATE_GOLDEN_PROFILE_def by (rule evidence_kept_set_node)
  from pinned have "golden_value (golden_values_of isof g pid) field_name = Some v"
    using backed_value [OF field] by (auto simp: pinned_def)
  with field pinned have "node_prop h (PersonN pid) (golden_property field_name) = JStr v"
    unfolding spec_names list.set insert_iff
    by (elim disjE) (simp_all add: h_def API_UPDATE_GOLDEN_PROFILE_def node_prop_set_node pinned_def golden_property_def
      golden_value_def js_def analysis_revision_def)
  moreover have "node_prop h (PersonN pid) ''survivorship_overrides'' = node_prop g (PersonN pid) ''survivorship_overrides''"
    unfolding h_def API_UPDATE_GOLDEN_PROFILE_def by (rule node_prop_set_node_other) (simp add: analysis_revision_def)
  ultimately have pin: "pinned pid field_name pk v h" using pinned kept
    by (simp add: pinned_def backed_kept [OF kept] text_overrides_def load_overrides_def evidence_kept_def)
  from event_keeps_pin [OF pin, unfolded h_def] True show ?thesis
    by (simp add: recompute_golden_profile_tx_def Let_def CREATE_RECOMPUTE_AUDIT_def)
qed (simp add: recompute_golden_profile_tx_def pinned)

lemma override_tx_keeps_pin:
  assumes "pinned pid field_name pk v g" "field_name \<in> fst ` set GOLDEN_FIELD_SPEC" "other \<noteq> field_name"
  shows "pinned pid field_name pk v (fst (override_tx isof now me pid other pk' reason actor g))"
proof (cases "derive_override_value g pid other pk'")
  case None
  with assms show ?thesis by (simp add: override_tx_def)
next
  case (Some p)
  obtain f w where p: "p = (f, w)" by (cases p)
  note derived = derived_field [OF Some [unfolded p]]
  show ?thesis
  proof (cases w)
    case None
    with assms Some p show ?thesis by (simp add: override_tx_def)
  next
    case w: (Some w)
    from derived have other: "other \<in> fst ` set GOLDEN_FIELD_SPEC" and f: "f = golden_property other" by simp_all
    note pin = override_keeps_pin [OF assms(1,2) other assms(3) entries_distinct(1)]
    show ?thesis unfolding override_tx_def store_override_def CREATE_OVERRIDE_AUDIT_def Let_def
      using assms(1) event_keeps_pin [OF pin] by (simp add: Some p w f)
  qed
qed

lemma pin_kept:
  assumes "evidence_kept g g'" "\<And>k. node_prop g' (PersonN pid) k = node_prop g (PersonN pid) k" "pinned pid field_name pk v g"
  shows "pinned pid field_name pk v g'" "load_overrides g' pid = load_overrides g pid"
  using assms(1,3)
  by (simp_all add: pinned_def assms(2) backed_kept [OF assms(1)] text_overrides_def load_overrides_def evidence_kept_def)

lemma custom_override_tx_keeps_pin:
  assumes "pinned pid field_name pk v g" "field_name \<in> fst ` set GOLDEN_FIELD_SPEC" "other \<noteq> field_name"
  shows "pinned pid field_name pk v (fst (custom_override_tx valid_iso isof now aid me pid other w reason actor g))"
proof (cases "CHECK_PERSON_ACTIVE g pid \<and> other \<in> fst ` set GOLDEN_FIELD_SPEC \<and> is_valid_custom_value valid_iso other (py_strip w)")
  case False
  with assms show ?thesis by (auto simp: custom_override_tx_def Let_def)
next
  case True
  then have other: "other \<in> fst ` set GOLDEN_FIELD_SPEC" by blast
  note pin = override_keeps_pin [OF _ assms(2) other assms(3) entries_distinct(2)]
  show ?thesis
  proof (cases "other = ''preferred_address''")
    case address: True
    obtain h a where u: "UPSERT_CUSTOM_ADDRESS now aid (normalize_custom_address (py_strip w)) g = (h, a)"
      by (cases "UPSERT_CUSTOM_ADDRESS now aid (normalize_custom_address (py_strip w)) g")
    from pin_kept [OF upsert_custom_address(1) [OF u] upsert_custom_address(2) [OF u] assms(1)]
    have h: "pinned pid field_name pk v h" "load_overrides g pid = load_overrides h pid" by simp_all
    show ?thesis unfolding custom_override_tx_def CREATE_OVERRIDE_AUDIT_def Let_def
      using True address u h(1) event_keeps_pin [OF pin [OF h(1)]]
      by (cases a) (simp_all add: h(2) golden_property_def)
  next
    case False
    then have "golden_property other = other" by (simp add: golden_property_def)
    with event_keeps_pin [OF pin [OF assms(1)]] False True show ?thesis
      by (simp add: custom_override_tx_def CREATE_OVERRIDE_AUDIT_def Let_def)
  qed
qed

lemma validated_items:
  "validate_items g pid items = Inr validated \<Longrightarrow> (f, pk, field_to_set, v) \<in> set validated \<Longrightarrow>
   f \<in> fst ` set items \<and> field_to_set = golden_property f \<and> f \<in> fst ` set GOLDEN_FIELD_SPEC"
proof (induction g pid items arbitrary: validated rule: validate_items.induct)
  case (2 g pid field_name pk' items)
  from 2(2) obtain a w rest where d: "derive_override_value g pid field_name pk' = Some (a, Some w)"
    and rest: "validate_items g pid items = Inr rest" and v: "validated = (field_name, pk', a, w) # rest"
    by (auto split: if_splits option.splits sum.splits)
  from 2(2) have ok: "field_name \<in> fst ` set GOLDEN_FIELD_SPEC" "CHECK_SOURCE_RECORD_LINKED g pk' pid"
    by (auto split: if_splits)
  have "(f, pk, field_to_set, v) \<in> set rest \<Longrightarrow> f \<in> fst ` set items \<and> field_to_set = golden_property f \<and> f \<in> fst ` set GOLDEN_FIELD_SPEC"
    using 2(1) [OF _ _ d _ _ rest] ok by simp
  with 2(3) derived_field [OF d] show ?case by (auto simp: v)
qed simp

lemma fold_override_entries:
  assumes "wf_overrides ovs" "\<forall>x \<in> set validated. fst x \<noteq> field_name"
  shows "wf_overrides (fold (\<lambda>(f, pk, _). AList.update f (override_entry f pk reason actor created)) validated ovs)
    \<and> map_of (fold (\<lambda>(f, pk, _). AList.update f (override_entry f pk reason actor created)) validated ovs) field_name
      = map_of ovs field_name"
  using assms
proof (induction validated arbitrary: ovs)
  case (Cons x xs)
  obtain f pk r where x: "x = (f, pk, r)" by (cases x)
  from Cons.prems have "wf_overrides (AList.update f (override_entry f pk reason actor created) ovs)"
    by (simp add: wf_update_override entries_distinct)
  from Cons.IH [OF this] Cons.prems show ?case by (auto simp: x update_conv')
qed simp

lemma batch_override_tx_keeps_pin:
  assumes pinned: "pinned pid field_name pk v g" and field: "field_name \<in> fst ` set GOLDEN_FIELD_SPEC"
    and items: "field_name \<notin> fst ` set items"
  shows "pinned pid field_name pk v (fst (batch_override_tx isof now me pid items reason actor g))"
proof (cases "validate_items g pid items")
  case (Inr validated)
  let ?ovs = "fold (\<lambda>(f, pk, _). AList.update f (override_entry f pk reason actor (isof now))) validated (load_overrides g pid)"
  let ?updates = "map (\<lambda>(_, _, field_to_set, v). (field_to_set, v)) validated"
  note valid = validated_items [OF Inr]
  have "\<forall>x \<in> set validated. fst x \<noteq> field_name" using valid items by fastforce
  from fold_override_entries [OF wf_load_overrides this] pinned
  have ovs: "wf_overrides ?ovs" "map_of ?ovs field_name = map_of (load_overrides g pid) field_name" by (auto simp: pinned_def)
  have "fst ` set ?updates \<subseteq> golden_property ` (fst ` set GOLDEN_FIELD_SPEC - {field_name})"
  proof
    fix k assume "k \<in> fst ` set ?updates"
    then obtain f q w where "(f, q, k, w) \<in> set validated" by auto
    from valid [OF this] items show "k \<in> golden_property ` (fst ` set GOLDEN_FIELD_SPEC - {field_name})" by blast
  qed
  note stored = update_overrides_keeps_pin [OF pinned field ovs] and golden_fields_keep_pin [OF _ field this]
  with pinned show ?thesis
    by (auto simp: batch_override_tx_def Inr Let_def CREATE_OVERRIDE_AUDIT_def intro!: event_keeps_pin)
qed (use pinned in \<open>simp add: batch_override_tx_def\<close>)

lemma active_person_node: "active_person g n \<Longrightarrow> has_node g n"
  by (auto simp: active_person_def node_prop_def has_node_map_of split: option.splits)

lemma override_pins:
  assumes done_: "override_tx isof now me pid field_name pk reason actor g = (g', ''ok'')"
    and derive: "derive_override_value g pid field_name pk = Some (f, Some v)"
    and "fact_supports g pid field_name pk v" "pk \<noteq> []" "text_overrides g pid"
  shows "pinned pid field_name pk v g'"
proof -
  define e where "e = override_entry field_name pk reason actor (isof now)"
  define ovs where "ovs = AList.update field_name e (load_overrides g pid)"
  define h where "h = UPDATE_OVERRIDES now pid (json_dumps (overrides_json ovs)) g"
  define k where "k = UPDATE_GOLDEN_FIELD now pid (golden_property field_name) v h"
  from derived_field [OF derive] have field: "field_name \<in> fst ` set GOLDEN_FIELD_SPEC" and f: "f = golden_property field_name" by simp_all
  from done_ have active: "CHECK_PERSON_ACTIVE g pid" by (auto simp: override_tx_def split: if_splits)
  then have node: "has_node g (PersonN pid)" by (simp add: CHECK_PERSON_ACTIVE_def active_person_node)
  have g': "g' = CREATE_OVERRIDE_AUDIT now me actor reason pid k"
    using done_ by (auto simp: override_tx_def derive f Let_def store_override_def k_def h_def ovs_def e_def split: if_splits)
  have kept: "evidence_kept g k" unfolding k_def h_def UPDATE_GOLDEN_FIELD_def UPDATE_OVERRIDES_def
    by (rule evidence_kept_trans [OF evidence_kept_set_node evidence_kept_set_node])
  have wf: "wf_overrides ovs" unfolding ovs_def e_def by (intro wf_update_override wf_load_overrides entries_distinct assms)
  from golden_property_fresh [OF field] have "''survivorship_overrides'' \<notin> fst ` set [(golden_property field_name, v)]" by auto
  from update_golden_fields_other [OF this] node have raw: "node_prop k (PersonN pid) ''survivorship_overrides'' = JStr (json_dumps (overrides_json ovs))"
    by (simp add: k_def update_golden_field_single h_def update_overrides_props)
  then have "load_overrides k pid = ovs" by (simp add: load_overrides_def parse_stored_overrides [OF wf])
  moreover have "entry_pins (map_of ovs field_name) pk"
    by (simp add: ovs_def update_conv' e_def override_entry_def entry_pins_def override_value_def)
  moreover have "node_prop k (PersonN pid) (golden_property field_name) = JStr v"
    using node golden_property_fresh [OF field]
    by (auto simp: k_def h_def UPDATE_GOLDEN_FIELD_def UPDATE_OVERRIDES_def node_prop_set_node analysis_revision_def)
  moreover have "backed g pid field_name pk v" using assms derive by (simp add: backed_def f)
  ultimately have "pinned pid field_name pk v k" using node raw kept
    by (simp add: pinned_def text_overrides_def backed_kept [OF kept] evidence_kept_def)
  then show ?thesis unfolding g' CREATE_OVERRIDE_AUDIT_def by (rule event_keeps_pin)
qed

definition profile_history :: "(string \<Rightarrow> bool) \<Rightarrow> (int \<Rightarrow> string) \<Rightarrow> string \<Rightarrow> profile_event list \<Rightarrow> graph \<Rightarrow> graph" where
  "profile_history valid_iso isof pid events g = fold (profile_step valid_iso isof pid) events g"

lemma history_keeps_pin:
  assumes "pinned pid field_name pk v g" "field_name \<in> fst ` set GOLDEN_FIELD_SPEC" "\<forall>e \<in> set events. field_name \<notin> overridden_fields e"
  shows "pinned pid field_name pk v (profile_history valid_iso isof pid events g)"
  using assms(1,3)
proof (induction events arbitrary: g)
  case (Cons e events)
  have "pinned pid field_name pk v (profile_step valid_iso isof pid e g)"
    using Cons.prems assms(2)
    by (cases e) (auto intro: recompute_keeps_pin override_tx_keeps_pin custom_override_tx_keeps_pin batch_override_tx_keeps_pin)
  with Cons show ?case by (simp add: profile_history_def)
qed (simp add: profile_history_def)

text \<open>The ingestion service's profile is computed from evidence an override does not touch.\<close>

lemma event_evidence: "fetch_person_evidence isof (survivorship_event now me a i r q g) pid = fetch_person_evidence isof g pid"
proof -
  let ?g = "survivorship_event now me a i r q g"
  have out: "t \<noteq> SURVIVOR \<Longrightarrow> out_edges ?g t (PersonN pid) = out_edges g t (PersonN pid)" for t
    by (rule out_edges_kept [OF evidence_kept_event])
  have other: "n \<noteq> MergeEventN me \<Longrightarrow> node_prop ?g n k = node_prop g n k" for n k
    by (simp add: survivorship_event_def node_prop_create_other)
  have type: "source_record_type ?g v = source_record_type g v" for v
    by (cases v) (simp_all add: other)
  have "FETCH_PERSON_FACTS ?g pid = FETCH_PERSON_FACTS g pid" by (simp add: FETCH_PERSON_FACTS_def out)
  moreover have "FETCH_PERSON_IDENTIFIERS ?g pid = FETCH_PERSON_IDENTIFIERS g pid"
    by (simp add: FETCH_PERSON_IDENTIFIERS_def out type cong: if_cong)
  moreover have "FETCH_PERSON_ADDRESSES ?g pid = FETCH_PERSON_ADDRESSES g pid"
    unfolding FETCH_PERSON_ADDRESSES_def out [of LIVES_AT, simplified]
    by (intro arg_cong [where f = concat] map_cong refl) (auto simp: other elim: is_address.elims)
  ultimately show ?thesis by (simp add: fetch_person_evidence_def)
qed

section \<open>Properties\<close>

text \<open>C22: an override of a field by a record of the person stays: after any later recomputations of the
  profile and any overrides of other fields, the person still has the value of that record in the
  field, and the profile computed anew has it too. For a field that is taken from facts, the record must have a
  source and its facts for the field must be usable (no placeholder or invalid format) and agree; the
  override of an unusable fact is lost at the next recomputation.\<close>

theorem override_survives:
  assumes "override_tx isof now me pid field_name pk reason actor g = (g', ''ok'')"
    and "derive_override_value g pid field_name pk = Some (f, Some v)"
    and "fact_supports g pid field_name pk v" "pk \<noteq> []" "text_overrides g pid"
    and "\<forall>e \<in> set events. field_name \<notin> overridden_fields e"
  shows "node_prop (profile_history valid_iso isof pid events g') (PersonN pid) (golden_property field_name) = JStr v
    \<and> golden_value (golden_values_of isof (profile_history valid_iso isof pid events g') pid) field_name = Some v"
proof -
  from derived_field [OF assms(2)] have field: "field_name \<in> fst ` set GOLDEN_FIELD_SPEC" by blast
  from history_keeps_pin [OF override_pins [OF assms(1-5)] field assms(6)]
  show ?thesis by (auto simp: pinned_def intro: backed_value [OF field])
qed

definition sample_profile_graph :: graph where
  "sample_profile_graph =
     \<lparr>g_nodes = [(PersonN ''p1'', [(''status'', JStr ''active'')]), (SourceRecordN ''r1'', []), (SourceRecordN ''r2'', []),
                 (SourceSystemN ''s1'', [(''field_trust'', JStr ''{}'')])],
      g_edges =
        map (\<lambda>pk. \<lparr>e_type = FROM_SOURCE, e_src = SourceRecordN pk, e_dst = SourceSystemN ''s1'', e_props = []\<rparr>) [''r1'', ''r2'']
        @ map (\<lambda>pk. \<lparr>e_type = LINKED_TO, e_src = SourceRecordN pk, e_dst = PersonN ''p1'', e_props = []\<rparr>) [''r1'', ''r2'']
        @ map (\<lambda>(pk, name, tier). \<lparr>e_type = HAS_FACT, e_src = PersonN ''p1'', e_dst = SourceRecordN pk,
            e_props = [(''attribute_name'', JStr ''full_name''), (''attribute_value'', JStr name),
                       (''source_trust_tier'', JStr tier), (''quality_flag'', JStr ''valid'')]\<rparr>)
            [(''r1'', ''ann lee'', ''tier_1''), (''r2'', ''ann tan'', ''tier_4'')]\<rparr>"

definition sample_override :: "graph \<times> string" where
  "sample_override = override_tx (\<lambda>_. ''2024-01-01'') 10 ''e1'' ''p1'' ''preferred_full_name'' ''r2'' ''asked'' ''ops'' sample_profile_graph"

lemma sample_override_ok: "sample_override = (fst sample_override, ''ok'')"
proof -
  have "snd sample_override = ''ok''" by code_simp
  then show ?thesis by (metis prod.collapse)
qed

theorem override_survives_witness:
  "node_prop (profile_history (\<lambda>_. True) (\<lambda>_. ''2024-01-01'') ''p1''
      [Recomputed 20 ''e2'' True, Custom_Overridden 30 ''a1'' ''e3'' ''preferred_dob'' ''1990-01-01'' ''asked'' ''ops'', Recomputed 40 ''e4'' False]
      (fst sample_override)) (PersonN ''p1'') ''preferred_full_name'' = JStr ''ann tan''"
proof -
  have "derive_override_value sample_profile_graph ''p1'' ''preferred_full_name'' ''r2'' = Some (''preferred_full_name'', Some ''ann tan'')"
    "fact_supports sample_profile_graph ''p1'' ''preferred_full_name'' ''r2'' ''ann tan''" "text_overrides sample_profile_graph ''p1''"
    by code_simp+
  from override_survives [OF sample_override_ok [unfolded sample_override_def] this(1,2) _ this(3)]
  have "\<forall>e \<in> set events. ''preferred_full_name'' \<notin> overridden_fields e \<Longrightarrow>
      node_prop (profile_history (\<lambda>_. True) (\<lambda>_. ''2024-01-01'') ''p1'' events (fst sample_override)) (PersonN ''p1'') ''preferred_full_name''
        = JStr ''ann tan''" for events
    by (simp add: golden_property_def flip: sample_override_def)
  then show ?thesis by simp
qed

text \<open>C23: the ingestion service's golden profile does not know overrides: after an override it selects
  what it selected before and writes it over the profile, while the override stays stored.\<close>

theorem ingestion_undoes_overrides:
  assumes "override_tx isof now me pid field_name pk reason actor g = (g', ''ok'')"
  shows "case compute_golden_profile isof' later pid g of
       Inl e \<Rightarrow> compute_golden_profile isof' later pid g' = Inl e
     | Inr (f, _) \<Rightarrow> compute_golden_profile isof' later pid g' = Inr (f, UPDATE_GOLDEN_PROFILE later pid f g')
         \<and> load_overrides (UPDATE_GOLDEN_PROFILE later pid f g') pid = load_overrides g' pid"
proof -
  from assms obtain f v where g': "g' = CREATE_OVERRIDE_AUDIT now me actor reason pid (UPDATE_GOLDEN_FIELD now pid f v
      (store_override now pid field_name (override_entry field_name pk reason actor (isof now)) g))"
    by (auto simp: override_tx_def Let_def split: if_splits option.splits)
  have "fetch_person_evidence isof' g' pid = fetch_person_evidence isof' g pid"
    by (simp add: g' CREATE_OVERRIDE_AUDIT_def event_evidence UPDATE_GOLDEN_FIELD_def store_override_def UPDATE_OVERRIDES_def evidence_set_person)
  moreover have "node_prop (UPDATE_GOLDEN_PROFILE later pid f g') (PersonN pid) ''survivorship_overrides''
      = node_prop g' (PersonN pid) ''survivorship_overrides''" for f
    unfolding UPDATE_GOLDEN_PROFILE_def by (rule node_prop_set_node_other) simp
  ultimately show ?thesis
    by (auto simp: compute_golden_profile_def load_overrides_def try_bind_def Let_def split: sum.split)
qed

lemma sample_profile_evidence:
  "fetch_person_evidence (\<lambda>_. ''2024-01-01'') sample_profile_graph ''p1'' = Inr
     ([\<lparr>lf_attribute_name = ''full_name'', lf_attribute_value = ''ann lee'', lf_quality_flag = Some ''valid'',
        lf_source_trust_tier = Some ''tier_1'', lf_observed_at = None\<rparr>,
       \<lparr>lf_attribute_name = ''full_name'', lf_attribute_value = ''ann tan'', lf_quality_flag = Some ''valid'',
        lf_source_trust_tier = Some ''tier_4'', lf_observed_at = None\<rparr>], [], [])"
  by (simp add: fetch_person_evidence_def FETCH_PERSON_FACTS_def FETCH_PERSON_IDENTIFIERS_def
      FETCH_PERSON_ADDRESSES_def out_edges_def has_node_def sample_profile_graph_def rel_active_def
      edge_prop_def json_get_def legacy_fact_of_def legacy_identifier_of_def row_string_def
      row_optional_string_def row_bool_def json_req_def node_prop_def)

theorem ingestion_undoes_overrides_witness:
  "node_prop (fst sample_override) (PersonN ''p1'') ''preferred_full_name'' = JStr ''ann tan''
   \<and> (\<exists>f g. compute_golden_profile (\<lambda>_. ''2024-01-01'') 20 ''p1'' (fst sample_override) = Inr (f, g)
        \<and> node_prop g (PersonN ''p1'') ''preferred_full_name'' = JStr ''ann lee''
        \<and> map fst (load_overrides g ''p1'') = [''preferred_full_name''])"
proof -
  let ?compute = "compute_golden_profile (\<lambda>_. ''2024-01-01'') 20 ''p1''"
  obtain f h where f: "?compute sample_profile_graph = Inr (f, h)" "gp_preferred_full_name f = Some ''ann lee''"
    by (simp add: compute_golden_profile_def sample_profile_evidence apply_survivorship_def Let_def
        pick_best_fact_def pick_best_identifier_def fact_key_def TRUST_TIER_RANK_def)
  have over: "node_prop (fst sample_override) (PersonN ''p1'') ''preferred_full_name'' = JStr ''ann tan''"
    "has_node (fst sample_override) (PersonN ''p1'')" "map fst (load_overrides (fst sample_override) ''p1'') = [''preferred_full_name'']"
    by code_simp+
  from ingestion_undoes_overrides [OF sample_override_ok [unfolded sample_override_def], of "\<lambda>_. ''2024-01-01''" 20] f
  have "?compute (fst sample_override) = Inr (f, UPDATE_GOLDEN_PROFILE 20 ''p1'' f (fst sample_override))"
    "load_overrides (UPDATE_GOLDEN_PROFILE 20 ''p1'' f (fst sample_override)) ''p1'' = load_overrides (fst sample_override) ''p1''"
    by (simp_all flip: sample_override_def)
  moreover have "node_prop (UPDATE_GOLDEN_PROFILE 20 ''p1'' f (fst sample_override)) (PersonN ''p1'') ''preferred_full_name'' = JStr ''ann lee''"
    using over f(2) by (simp add: UPDATE_GOLDEN_PROFILE_def node_prop_set_node js_def)
  ultimately show ?thesis using over by auto
qed
end
