(* ===== verification/ReviewPayload.thy ===== *)
theory ReviewPayload
  imports Normalization Exclusions Cypher IdentityLinks
begin

text \<open>
  The payload that carries a held record from the ingestion service, which writes it
  (\<open>build_normalized_source_payload\<close> of \<open>pipeline_writes.py\<close>, \<open>_activation_blueprint\<close> of \<open>pipeline.py\<close>,
  \<open>pipeline_knows.py\<close>, \<open>pipeline_bankruptcy.py\<close>, \<open>vehicle_extraction.py\<close>), to the review action of the API
  service, which reads it (\<open>_pending_projection_params\<close> of \<open>api/repositories/neo4j/review.py\<close>).
  \<open>datetime.fromisoformat\<close> is the argument \<open>fromiso\<close>: whether the date-time has a zone, and its \<open>isoformat()\<close>.
\<close>

section \<open>JSON values as Python sees them\<close>

fun json_truthy :: "json \<Rightarrow> bool" where
  "json_truthy JNull = False"
| "json_truthy (JBool b) = b"
| "json_truthy (JInt i) = (i \<noteq> 0)"
| "json_truthy (JFloat x) = (x \<noteq> 0)"
| "json_truthy (JStr s) = (s \<noteq> [])"
| "json_truthy (JList xs) = (xs \<noteq> [])"
| "json_truthy (JObj d) = (d \<noteq> [])"

definition json_or :: "json \<Rightarrow> json \<Rightarrow> json" where
  "json_or a b = (if json_truthy a then a else b)"

fun py_str :: "json \<Rightarrow> string" where
  "py_str (JStr s) = s"
| "py_str v = json_repr v"

definition occurs_in :: "string \<Rightarrow> string \<Rightarrow> bool" where
  "occurs_in t s = list_ex (\<lambda>i. starts_with (drop i s) t) [0..<Suc (length s)]"

definition str_or_none :: "json \<Rightarrow> string option" where
  "str_or_none v = (case v of JStr s \<Rightarrow> if py_strip s \<noteq> [] then Some s else None | _ \<Rightarrow> None)"

definition row_of :: "json_obj \<Rightarrow> string \<Rightarrow> json_obj" where
  "row_of payload key = (case json_get payload key of JObj d \<Rightarrow> d | _ \<Rightarrow> [])"

definition str_value :: "json_obj \<Rightarrow> string \<Rightarrow> string option" where
  "str_value row key = str_or_none (json_get row key)"

record iso_datetime =
  dt_aware :: bool
  dt_text :: string

section \<open>The envelope\<close>

record pending_envelope = envelope +
  pn_source_system :: string
  pn_source_record_id :: string
  pn_record_type :: record_type
  pn_observed_at :: "string option"
  pn_raw_payload :: json_obj

section \<open>Relationships\<close>

definition category_for :: "string option \<Rightarrow> string" where
  "category_for label =
     (if \<not> truthy label then ''social''
      else let lower = py_lower (py_strip (or_empty label));
               names = (\<lambda>ts. list_ex (\<lambda>t. occurs_in t lower) ts)
           in if names [''emergency'', ''next of kin'', ''nok''] then ''emergency_contact''
              else if names [''referrer'', ''referral''] then ''referrer''
              else if names [''spouse'', ''parent'', ''child'', ''sibling'', ''brother'', ''sister'', ''family''] then ''family''
              else ''social'')"

definition declarer_source_system_key :: "string \<Rightarrow> string" where
  "declarer_source_system_key key =
     (if ends_with key '':contacts'' then take (length key - length '':contacts'') key else key)"

definition relationship_label :: "json_obj \<Rightarrow> json_obj \<Rightarrow> json" where
  "relationship_label raw contact =
     json_or (json_get raw ''link_type'') (json_or (json_get raw ''relationship_label'')
       (json_or (json_get raw ''relationship_to_primary'') (json_get contact ''relationship'')))"

definition relationship_blueprint :: "'e pending_envelope_scheme \<Rightarrow> json_obj option" where
  "relationship_blueprint env =
     (let raw = pn_raw_payload env;
          declarer = json_or (json_get raw ''linked_to_source_record_id'') (json_get raw ''primary_source_record_id'');
          contact_row = row_of raw ''contact'';
          label_raw = relationship_label raw contact_row;
          label = (if label_raw = JNull then None else Some (py_str label_raw));
          is_contact = (json_get raw ''linked_to_source_record_id'' \<noteq> JNull);
          status = (case json_get contact_row ''status'' of JStr s \<Rightarrow> if s \<noteq> [] then Some s else None | _ \<Rightarrow> None);
          approved_at = (case json_get contact_row ''approved_at'' of JStr s \<Rightarrow> JStr s | _ \<Rightarrow> JNull)
      in case declarer of
           JStr d \<Rightarrow>
             if d = [] \<or> \<not> is_contact \<and> (case label of None \<Rightarrow> True | Some l \<Rightarrow> py_strip l = []) then None
             else Some
               [(''declarer_source_record_id'', JStr d), (''relationship_label'', js label),
                (''relationship_category'', JStr (category_for label)),
                (''status'', JStr (case status of Some s \<Rightarrow> s | None \<Rightarrow> if is_contact then ''declared'' else ''pending'')),
                (''approved_at'', approved_at), (''source_system_key'', JStr (pn_source_system env)),
                (''declarer_source_system_key'', JStr (declarer_source_system_key (pn_source_system env)))]
         | _ \<Rightarrow> None)"

definition knows_projection_blueprints :: "'e pending_envelope_scheme \<Rightarrow> json list" where
  "knows_projection_blueprints env = (case relationship_blueprint env of None \<Rightarrow> [] | Some b \<Rightarrow> [JObj b])"

section \<open>Bankruptcy cases\<close>

fun replace_first :: "char \<Rightarrow> char \<Rightarrow> string \<Rightarrow> string" where
  "replace_first a b [] = []"
| "replace_first a b (c # s) = (if c = a then b # s else c # replace_first a b s)"

definition iso_datetime_of :: "(string \<Rightarrow> iso_datetime option) \<Rightarrow> string option \<Rightarrow> string option" where
  "iso_datetime_of fromiso v =
     (case v of None \<Rightarrow> None
      | Some s \<Rightarrow>
          (let n = replace_first CHR '' '' CHR ''T'' (py_strip s);
               normalized = (if ends_with n ''+00'' then n @ '':00'' else n)
           in case fromiso normalized of None \<Rightarrow> Some normalized | Some d \<Rightarrow> Some (dt_text d)))"

definition bankruptcy_case_blueprint :: "(string \<Rightarrow> iso_datetime option) \<Rightarrow> 'e pending_envelope_scheme \<Rightarrow> json_obj option" where
  "bankruptcy_case_blueprint fromiso env =
     (if pn_source_system env \<noteq> ''sgbankruptcy'' then None
      else let case_row = row_of (pn_raw_payload env) ''case''; event = row_of (pn_raw_payload env) ''event'';
               document = row_of (pn_raw_payload env) ''source_document''
           in case str_value case_row ''id'' of
                None \<Rightarrow> None
              | Some source_case_id \<Rightarrow> Some
                  [(''source_system_key'', JStr (pn_source_system env)), (''source_case_id'', JStr source_case_id),
                   (''case_number'', js (str_value case_row ''case_number'')),
                   (''document_type'', js (str_or (str_value case_row ''latest_document_type'') (str_value document ''document_type''))),
                   (''document_date'', js (str_or (str_value case_row ''latest_document_date'') (str_value document ''document_date''))),
                   (''event_type'', js (str_value event ''event_type'')), (''event_date'', js (str_value event ''event_date'')),
                   (''trustee_name'', js (str_value event ''trustee_name'')), (''trustee_firm'', js (str_value event ''trustee_firm'')),
                   (''source_url'', js (str_value document ''source_url'')),
                   (''first_seen_at'', js (iso_datetime_of fromiso (str_value case_row ''first_seen_at''))),
                   (''last_seen_at'', js (iso_datetime_of fromiso (str_value case_row ''last_seen_at''))),
                   (''observed_at'', js (pn_observed_at env)),
                   (''raw_payload'', JStr (json_dumps (JObj (pn_raw_payload env))))])"

section \<open>Vehicles mentioned in a conversation\<close>

definition CHAT_INQUIRY_VEHICLE_KEYWORDS :: "string list" where
  "CHAT_INQUIRY_VEHICLE_KEYWORDS =
     [''BIKE'', ''BIKES'', ''BICYCLE'', ''BICYCLES'', ''E-BIKE'', ''EBIKE'', ''SCOOTER'', ''SCOOTERS'', ''MOTORBIKE'',
      ''MOTORBIKES'', ''MOTORCYCLE'', ''MOTORCYCLES'', ''WHEELCHAIR'', ''WHEELCHAIRS'', ''PMD'', ''MOBILITY'']"

definition EKO_VEHICLE_CATEGORIES :: "string list" where
  "EKO_VEHICLE_CATEGORIES =
     [''Bicycles'', ''Foldable Bicycles'', ''Bi-fold Bicycles'', ''Tri-fold Bicycles'', ''Brompton Alternatives'',
      ''Hybrid Bicycles'', ''Mountain Bikes'', ''Cross Bikes'', ''Fixed Gear Bikes'', ''Gravel Bikes'', ''Road Bikes'',
      ''Mini Velos'', ''Power Assisted Bicycles'', ''E-Bikes'', ''Electric Bicycles'', ''Personal Mobility Aids'',
      ''Electric Scooters'', ''Mobility Scooters'', ''Electric Wheelchairs'', ''Motorised Wheelchairs'']"

definition SPEEDZONE_VEHICLE_CATEGORIES :: "string list" where
  "SPEEDZONE_VEHICLE_CATEGORIES =
     [''New Motorbike'', ''Used Motorbike'', ''Road Bike'', ''Scooter'', ''Sport Bike'', ''Scrambler'', ''Cafe Racer'',
      ''Used Road Bike'', ''Used Scooter'', ''Used Scrambler'', ''Used Cafe Racer'', ''Tourer'', ''Used Tourer'',
      ''Used Sport Bike'', ''Cruiser'', ''Used Cruiser'', ''Motorbike'']"

definition FUNDBOX_VEHICLE_CATEGORIES :: "string list" where
  "FUNDBOX_VEHICLE_CATEGORIES =
     [''Electric Scooters'', ''Personal Mobility Aids'', ''Electric Wheelchairs'', ''Motorised Wheelchairs'',
      ''Mobility Scooters'', ''Power Assisted Bicycles'', ''Electric Bicycles'', ''Bicycles'']"

definition base_source_key :: "string \<Rightarrow> string" where
  "base_source_key key = takeWhile (\<lambda>c. c \<noteq> CHR '':'') key"

definition vehicle_category_allowlist :: "string \<Rightarrow> string list option" where
  "vehicle_category_allowlist key =
     map_of [(''eko_phppos'', EKO_VEHICLE_CATEGORIES), (''speedzone_phppos'', SPEEDZONE_VEHICLE_CATEGORIES),
             (''fundbox'', FUNDBOX_VEHICLE_CATEGORIES)] (base_source_key key)"

definition chat_inquiry_is_vehicle :: "string \<Rightarrow> string option \<Rightarrow> bool" where
  "chat_inquiry_is_vehicle source_system_key product =
     (case product of
        None \<Rightarrow> False
      | Some p \<Rightarrow>
          (let name = py_upper (py_strip p)
           in if name = [] then False
              else case vehicle_category_allowlist source_system_key of
                     Some allow \<Rightarrow> list_ex (\<lambda>category. occurs_in (py_upper category) name) allow
                   | None \<Rightarrow> list_ex (\<lambda>keyword. occurs_in keyword name) CHAT_INQUIRY_VEHICLE_KEYWORDS))"

record chat_observation = vehicle_observation +
  co_manufacturer :: "string option"
  co_model :: "string option"
  co_unit_label :: "string option"
  co_source_system_key :: string
  co_source_record_id :: string
  co_observed_at :: "string option"
  co_confidence :: f64
  co_quality_flag :: quality_flag
  co_raw_context :: "string option"

definition observation_of_inquiry :: "string \<Rightarrow> string \<Rightarrow> string option \<Rightarrow> json_obj \<Rightarrow> chat_observation" where
  "observation_of_inquiry source_system_key source_record_id observed_at inquiry =
     \<lparr>vo_lta_tag = str_value inquiry ''lta_tag'', vo_serial_number = str_value inquiry ''serial_number'',
      vo_product_sku = str_value inquiry ''product_sku'', vo_product = str_value inquiry ''vehicle_product'',
      co_manufacturer = str_value inquiry ''manufacturer'', co_model = str_value inquiry ''model'',
      co_unit_label = str_value inquiry ''unit'', co_source_system_key = source_system_key,
      co_source_record_id = source_record_id, co_observed_at = observed_at, co_confidence = fl (6/10),
      co_quality_flag = PARTIAL_PARSE, co_raw_context = str_value inquiry ''notes''\<rparr>"

definition observations_from_chat_inquiries ::
    "string \<Rightarrow> string \<Rightarrow> string option \<Rightarrow> json list \<Rightarrow> chat_observation list" where
  "observations_from_chat_inquiries source_system_key source_record_id observed_at inquiries =
     concat (map (\<lambda>inquiry. case inquiry of
         JObj d \<Rightarrow>
           (let observation = observation_of_inquiry source_system_key source_record_id observed_at d
            in if chat_inquiry_is_vehicle source_system_key (str_value d ''vehicle_product'')
                  \<and> valid_chat_vehicle_observation (vehicle_observation.truncate observation)
               then [observation] else [])
       | _ \<Rightarrow> []) inquiries)"

definition mention_blueprint :: "chat_observation \<Rightarrow> json_obj" where
  "mention_blueprint obs =
     [(''normalized_lta_tag'', js (normalize_lta_tag (vo_lta_tag obs))),
      (''normalized_serial_number'', js (normalize_serial_number (vo_serial_number obs))),
      (''product'', js (vo_product obs)), (''raw_context'', js (co_raw_context obs)),
      (''observed_at'', js (co_observed_at obs)), (''confidence'', JFloat (co_confidence obs)),
      (''quality_flag'', JStr (quality_value (co_quality_flag obs))),
      (''source_system_key'', JStr (co_source_system_key obs)), (''source_record_id'', JStr (co_source_record_id obs))]"

section \<open>The payload\<close>

definition mentioned_vehicles :: "exclusion_context \<Rightarrow> 'e pending_envelope_scheme \<Rightarrow> chat_observation list option" where
  "mentioned_vehicles ctx env =
     (if pn_record_type env \<noteq> CONVERSATION then None
      else case json_get (pn_raw_payload env) ''inquiries'' of
             JList inquiries \<Rightarrow>
               Some [obs \<leftarrow> observations_from_chat_inquiries (pn_source_system env) (pn_source_record_id env)
                              (pn_observed_at env) inquiries.
                     \<not> is_excluded_vehicle_observation ctx (vehicle_observation.truncate obs)]
           | _ \<Rightarrow> None)"

definition activation_blueprint ::
    "(string \<Rightarrow> iso_datetime option) \<Rightarrow> exclusion_context \<Rightarrow> 'e pending_envelope_scheme \<Rightarrow> json_obj" where
  "activation_blueprint fromiso ctx env =
     [(''knows_relationships'', JList (knows_projection_blueprints env))]
     @ (case bankruptcy_case_blueprint fromiso env of None \<Rightarrow> [] | Some b \<Rightarrow> [(''bankruptcy_case'', JObj b)])
     @ (case mentioned_vehicles ctx env of
          None \<Rightarrow> [] | Some obs \<Rightarrow> [(''vehicle_mentions'', JList (map (JObj \<circ> mention_blueprint) obs))])"

definition identifier_dump :: "normalized_identifier \<Rightarrow> json_obj" where
  "identifier_dump i =
     [(''identifier_type'', JStr (ni_identifier_type i)), (''normalized_value'', JStr (ni_normalized_value i)),
      (''source_instance_id'', js (ni_source_instance_id i)), (''is_verified'', JBool (ni_is_verified i)),
      (''quality_flag'', JStr (quality_value (ni_quality_flag i)))]"

definition address_dump :: "normalized_address \<Rightarrow> json_obj" where
  "address_dump a =
     [(''unit_number'', js (na_unit_number a)), (''street_number'', JStr (na_street_number a)),
      (''street_name'', JStr (na_street_name a)), (''building_name'', js (na_building_name a)),
      (''city'', JStr (na_city a)), (''state_province'', js (na_state_province a)), (''postal_code'', JStr (na_postal_code a)),
      (''country_code'', JStr (na_country_code a)), (''normalized_full'', JStr (na_normalized_full a)),
      (''quality_flag'', JStr (quality_value (na_quality_flag a)))]"

definition attribute_dump :: "normalized_attribute \<Rightarrow> json_obj" where
  "attribute_dump t =
     [(''attribute_name'', JStr (nt_attribute_name t)), (''attribute_value'', JStr (nt_attribute_value t)),
      (''quality_flag'', JStr (quality_value (nt_quality_flag t)))]"

definition CHAT_CLASSIFICATION_TYPES :: "(string \<times> string list) list" where
  "CHAT_CLASSIFICATION_TYPES =
     [(''tone'', [''positive'', ''neutral'', ''negative'', ''mixed'', ''unknown'']),
      (''purpose'', [''product_inquiry'', ''purchase_intent'', ''order_management'', ''support_request'', ''complaint'',
         ''appointment'', ''follow_up'', ''feedback'', ''relationship_management'', ''other'', ''unknown'']),
      (''outcome'', [''resolved'', ''partially_resolved'', ''pending_customer'', ''pending_business'', ''unresolved'',
         ''no_action_required'', ''unknown'']),
      (''difficulty'', [''low'', ''medium'', ''high'', ''unknown''])]"

text \<open>What a conversation adds: its summary, its classification and the parts kept as they are.\<close>

definition conversation_parts :: "json_obj \<Rightarrow> json_obj" where
  "conversation_parts raw =
     (case json_get raw ''summary'' of JStr s \<Rightarrow> if py_strip s \<noteq> [] then [(''summary'', JStr (py_strip s))] else [] | _ \<Rightarrow> [])
     @ concat (map (\<lambda>(key, values). case json_get raw key of
           JStr v \<Rightarrow> if v \<in> set values then [(key, JStr v)] else [] | _ \<Rightarrow> []) CHAT_CLASSIFICATION_TYPES)
     @ concat (map (\<lambda>key. if json_get raw key \<noteq> JNull then [(key, json_get raw key)] else [])
         [''customer_sentiment'', ''chat_members'', ''inquiries''])"

definition dict_update :: "json_obj \<Rightarrow> json_obj \<Rightarrow> json_obj" where
  "dict_update kvs d = fold (\<lambda>(k, v). AList.update k v) kvs d"

definition normalized_parts ::
    "normalized_identifier list \<Rightarrow> normalized_address list \<Rightarrow> normalized_attribute list \<Rightarrow> json_obj" where
  "normalized_parts identifiers addresses attributes =
     [(''identifiers'', JList (map (JObj \<circ> identifier_dump) identifiers)),
      (''address'', case addresses of [] \<Rightarrow> JNull | a # _ \<Rightarrow> JObj (address_dump a)),
      (''addresses'', JList (map (JObj \<circ> address_dump) addresses)),
      (''attributes'', JList (map (JObj \<circ> attribute_dump) attributes))]"

definition build_normalized_source_payload ::
    "'e pending_envelope_scheme \<Rightarrow> normalized_identifier list \<Rightarrow> normalized_address list \<Rightarrow> normalized_attribute list
     \<Rightarrow> json_obj option \<Rightarrow> json_obj" where
  "build_normalized_source_payload env identifiers addresses attributes blueprint =
     (let normalized = normalized_parts identifiers addresses attributes;
          normalized = (case blueprint of None \<Rightarrow> normalized | Some b \<Rightarrow> dict_update b normalized)
      in if pn_record_type env = CONVERSATION then dict_update (conversation_parts (pn_raw_payload env)) normalized
         else normalized)"

section \<open>Reading it for the review\<close>

definition invalid :: "string \<Rightarrow> 'a result" where
  "invalid message = raise (ValueError message)"

definition normalized_datetime :: "(string \<Rightarrow> iso_datetime option) \<Rightarrow> json \<Rightarrow> string \<Rightarrow> string result" where
  "normalized_datetime fromiso v field =
     (case v of
        JStr s \<Rightarrow>
          (case fromiso (replace_zulu s) of
             None \<Rightarrow> invalid (field @ '' must be an ISO datetime'')
           | Some d \<Rightarrow> if dt_aware d then ok (dt_text d) else invalid (field @ '' must be timezone-aware''))
      | _ \<Rightarrow> invalid (field @ '' must be a datetime string''))"

definition optional_normalized_datetime :: "(string \<Rightarrow> iso_datetime option) \<Rightarrow> json \<Rightarrow> string \<Rightarrow> json result" where
  "optional_normalized_datetime fromiso v field =
     (if v = JNull then ok JNull else try_bind (normalized_datetime fromiso v field) (\<lambda>s. ok (JStr s)))"

definition is_str :: "json \<Rightarrow> bool" where
  "is_str v = (case v of JStr s \<Rightarrow> True | _ \<Rightarrow> False)"

definition is_str_or_null :: "json \<Rightarrow> bool" where
  "is_str_or_null v = (v = JNull \<or> is_str v)"

definition projection_item :: "string \<Rightarrow> string list \<Rightarrow> json \<Rightarrow> json_obj result" where
  "projection_item key required raw =
     (case raw of
        JObj item \<Rightarrow>
          if list_ex (\<lambda>field. \<not> is_str (json_get item field)) required
          then invalid (''normalized_payload.'' @ key @ '' entry has invalid fields'')
          else ok item
      | _ \<Rightarrow> invalid (''normalized_payload.'' @ key @ '' entries must be objects''))"

definition projection_items :: "json_obj \<Rightarrow> string \<Rightarrow> string list \<Rightarrow> json_obj list result" where
  "projection_items payload key required =
     (case map_of payload key of
        None \<Rightarrow> ok []
      | Some (JList items) \<Rightarrow> map_result (projection_item key required) items
      | Some _ \<Rightarrow> invalid (''normalized_payload.'' @ key @ '' must be a list''))"

definition usable_item :: "json_obj \<Rightarrow> bool" where
  "usable_item item = (json_get item ''quality_flag'' \<notin> {JStr ''invalid_format'', JStr ''placeholder_value''})"

definition checked_address :: "json_obj \<Rightarrow> json_obj result" where
  "checked_address address =
     (let unit = json_get address ''unit_number''
      in if \<not> is_str_or_null unit then invalid ''normalized_payload address unit_number must be a string or null''
         else let address = AList.update ''unit_number'' (if json_truthy unit then unit else JStr []) address
              in if \<not> is_str_or_null (json_get address ''normalized_full'')
                 then invalid ''normalized_payload address normalized_full must be a string or null''
                 else ok address)"

definition BANKRUPTCY_OPTIONAL :: "string list" where
  "BANKRUPTCY_OPTIONAL =
     [''case_number'', ''document_type'', ''document_date'', ''event_type'', ''event_date'', ''trustee_name'', ''trustee_firm'',
      ''source_url'', ''first_seen_at'', ''last_seen_at'']"

definition checked_bankruptcy :: "(string \<Rightarrow> iso_datetime option) \<Rightarrow> string \<Rightarrow> json \<Rightarrow> json_obj list result" where
  "checked_bankruptcy fromiso source_system_key bankruptcy =
     (case bankruptcy of
        JNull \<Rightarrow> ok []
      | JObj item \<Rightarrow>
          if list_ex (\<lambda>field. \<not> is_str (json_get item field)) [''source_system_key'', ''source_case_id'', ''observed_at'', ''raw_payload'']
          then invalid ''bankruptcy_case required fields must be strings''
          else if json_get item ''source_system_key'' \<noteq> JStr source_system_key
          then invalid ''bankruptcy_case source provenance mismatch''
          else if list_ex (\<lambda>field. \<not> is_str_or_null (json_get item field)) BANKRUPTCY_OPTIONAL
          then invalid ''bankruptcy_case optional fields must be strings or null''
          else try_bind (normalized_datetime fromiso (json_get item ''observed_at'') ''bankruptcy_case.observed_at'') (\<lambda>observed_at.
               try_bind (optional_normalized_datetime fromiso (json_get item ''first_seen_at'') ''bankruptcy_case.first_seen_at'') (\<lambda>first.
               try_bind (optional_normalized_datetime fromiso (json_get item ''last_seen_at'') ''bankruptcy_case.last_seen_at'') (\<lambda>last.
                 ok [AList.update ''last_seen_at'' last (AList.update ''first_seen_at'' first
                       (AList.update ''observed_at'' (JStr observed_at) item))])))
      | _ \<Rightarrow> invalid ''normalized_payload.bankruptcy_case must be an object'')"

definition checked_mention ::
    "(string \<Rightarrow> iso_datetime option) \<Rightarrow> string \<Rightarrow> string \<Rightarrow> string \<Rightarrow> json_obj \<Rightarrow> json_obj result" where
  "checked_mention fromiso source_system_key source_record_id source_record_pk mention =
     (if json_get mention ''source_system_key'' \<noteq> JStr source_system_key
         \<or> json_get mention ''source_record_id'' \<noteq> JStr source_record_id
         \<or> json_get mention ''source_record_pk'' \<noteq> JNull \<and> json_get mention ''source_record_pk'' \<noteq> JStr source_record_pk
      then invalid ''vehicle mention source provenance mismatch''
      else if list_ex (\<lambda>field. \<not> is_str_or_null (json_get mention field))
                [''normalized_lta_tag'', ''normalized_serial_number'', ''product'', ''raw_context'', ''observed_at'']
      then invalid ''vehicle mention optional fields must be strings or null''
      else if (case json_get mention ''confidence'' of JInt i \<Rightarrow> False | JFloat x \<Rightarrow> False | _ \<Rightarrow> True)
      then invalid ''vehicle mention confidence must be numeric''
      else if json_get mention ''observed_at'' = JNull then ok mention
      else try_bind (normalized_datetime fromiso (json_get mention ''observed_at'') ''vehicle_mentions.observed_at'') (\<lambda>s.
             ok (AList.update ''observed_at'' (JStr s) mention)))"

definition checked_relationship :: "string \<Rightarrow> json_obj \<Rightarrow> json_obj result" where
  "checked_relationship source_system_key relationship =
     (if json_get relationship ''source_system_key'' \<noteq> JStr source_system_key
      then invalid ''KNOWS relationship source provenance mismatch''
      else case [field \<leftarrow> [''relationship_label'', ''approved_at'']. \<not> is_str_or_null (json_get relationship field)] of
             [] \<Rightarrow> ok relationship
           | field # _ \<Rightarrow> invalid (''KNOWS relationship '' @ field @ '' must be a string or null''))"

record projection =
  pj_identifiers :: "json_obj list"
  pj_addresses :: "json_obj list"
  pj_attributes :: "json_obj list"
  pj_bankruptcy_cases :: "json_obj list"
  pj_vehicle_mentions :: "json_obj list"
  pj_knows_relationships :: "json_obj list"

definition checked_identifier :: "json_obj \<Rightarrow> json_obj result" where
  "checked_identifier item =
     (case json_get item ''is_verified'' of
        JBool b \<Rightarrow> ok item | _ \<Rightarrow> invalid ''normalized_payload identifier is_verified must be boolean'')"

definition pending_projection_params ::
    "(string \<Rightarrow> iso_datetime option) \<Rightarrow> json \<Rightarrow> string \<Rightarrow> string \<Rightarrow> string \<Rightarrow> projection result" where
  "pending_projection_params fromiso v source_system_key source_record_id source_record_pk =
     try_bind (case v of
         JStr s \<Rightarrow> (case json_loads s of None \<Rightarrow> invalid ''JSONDecodeError'' | Some parsed \<Rightarrow> ok parsed)
       | _ \<Rightarrow> ok v) (\<lambda>parsed.
     case parsed of
       JObj payload \<Rightarrow>
         try_bind (projection_items payload ''identifiers'' [''identifier_type'', ''normalized_value'', ''quality_flag'']) (\<lambda>identifiers.
         try_bind (map_result checked_identifier identifiers) (\<lambda>identifiers.
         try_bind (projection_items payload ''addresses''
                     [''country_code'', ''postal_code'', ''street_name'', ''street_number'', ''quality_flag'']) (\<lambda>addresses.
         try_bind (map_result checked_address addresses) (\<lambda>addresses.
         try_bind (projection_items payload ''attributes'' [''attribute_name'', ''attribute_value'', ''quality_flag'']) (\<lambda>attributes.
         try_bind (checked_bankruptcy fromiso source_system_key (json_get payload ''bankruptcy_case'')) (\<lambda>cases.
         try_bind (projection_items payload ''vehicle_mentions'' [''source_system_key'', ''source_record_id'', ''quality_flag'']) (\<lambda>mentions.
         try_bind (map_result (checked_mention fromiso source_system_key source_record_id source_record_pk) mentions) (\<lambda>mentions.
         try_bind (projection_items payload ''knows_relationships''
                     [''declarer_source_record_id'', ''declarer_source_system_key'', ''relationship_category'', ''status'',
                      ''source_system_key'']) (\<lambda>knows.
         try_bind (map_result (checked_relationship source_system_key) knows) (\<lambda>knows.
           ok \<lparr>pj_identifiers = filter usable_item identifiers, pj_addresses = filter usable_item addresses,
               pj_attributes = attributes, pj_bankruptcy_cases = cases, pj_vehicle_mentions = mentions,
               pj_knows_relationships = knows\<rparr>))))))))))
     | _ \<Rightarrow> invalid ''normalized_payload must be a JSON object'')"

section \<open>The arguments of an approval\<close>

definition required_str :: "json_obj \<Rightarrow> string \<Rightarrow> string result" where
  "required_str row key =
     (case json_get row key of
        JStr s \<Rightarrow> if s = [] then invalid (''pending review record has invalid '' @ key) else ok s
      | _ \<Rightarrow> invalid (''pending review record has invalid '' @ key))"

definition optional_str_value :: "json_obj \<Rightarrow> string \<Rightarrow> string option result" where
  "optional_str_value row key =
     (case json_get row key of
        JNull \<Rightarrow> ok None | JStr s \<Rightarrow> ok (Some s)
      | _ \<Rightarrow> invalid (''pending review record has invalid '' @ key))"

definition str_list_value :: "json_obj \<Rightarrow> string \<Rightarrow> string list result" where
  "str_list_value row key =
     (case map_of row key of
        None \<Rightarrow> ok []
      | Some (JList vs) \<Rightarrow>
          map_result (\<lambda>v. case v of JStr s \<Rightarrow> ok s | _ \<Rightarrow> invalid (''pending review record has invalid '' @ key)) vs
      | Some _ \<Rightarrow> invalid (''pending review record has invalid '' @ key))"

record approval =
  ap_proposed_person_id :: string
  ap_candidate_person_ids :: "string list"
  ap_source_record_pk :: string
  ap_source_system_key :: string
  ap_source_record_id :: string
  ap_expected_active_pk :: "string option"
  ap_observed_at :: string
  ap_projection :: projection

definition approval_arguments :: "(string \<Rightarrow> iso_datetime option) \<Rightarrow> json_obj \<Rightarrow> approval result" where
  "approval_arguments fromiso row =
     try_bind (required_str row ''proposed_person_id'') (\<lambda>proposed.
     try_bind (str_list_value row ''review_candidate_person_ids'') (\<lambda>candidates.
     try_bind (required_str row ''pending_source_record_pk'') (\<lambda>pk.
     try_bind (required_str row ''source_system_key'') (\<lambda>key.
     try_bind (required_str row ''source_record_id'') (\<lambda>rid.
     try_bind (optional_str_value row ''expected_active_source_record_pk'') (\<lambda>expected.
     try_bind (normalized_datetime fromiso (json_get row ''observed_at'') ''observed_at'') (\<lambda>observed_at.
     try_bind (pending_projection_params fromiso (json_get row ''normalized_payload'') key rid pk) (\<lambda>projection.
       ok \<lparr>ap_proposed_person_id = proposed, ap_candidate_person_ids = candidates, ap_source_record_pk = pk,
           ap_source_system_key = key, ap_source_record_id = rid, ap_expected_active_pk = expected,
           ap_observed_at = observed_at, ap_projection = projection\<rparr>))))))))"

text \<open>The person the reviewer approves: one of the candidates the matching named, by default the proposed one.\<close>

definition approved_person :: "approval \<Rightarrow> string option \<Rightarrow> string option" where
  "approved_person ap survivor_person_id =
     (if ap_candidate_person_ids ap \<noteq> []
      then let selected = (if truthy survivor_person_id then or_empty survivor_person_id else ap_proposed_person_id ap)
           in if selected \<in> set (ap_candidate_person_ids ap) then Some selected else None
      else if survivor_person_id \<noteq> None \<and> survivor_person_id \<noteq> Some (ap_proposed_person_id ap) then None
      else Some (ap_proposed_person_id ap))"

section \<open>Written payloads are read back\<close>

lemma map_of_dict_update_other: "k \<notin> fst ` set kvs \<Longrightarrow> map_of (dict_update kvs d) k = map_of d k"
proof (induction kvs arbitrary: d)
  case (Cons kv kvs)
  then show ?case by (cases kv) (simp add: dict_update_def update_conv')
qed (simp add: dict_update_def)

lemma map_of_dict_update:
  "distinct (map fst kvs) \<Longrightarrow> map_of (dict_update kvs d) k = (case map_of kvs k of None \<Rightarrow> map_of d k | Some v \<Rightarrow> Some v)"
proof (induction kvs arbitrary: d)
  case (Cons kv kvs)
  obtain a v where kv: "kv = (a, v)" by (cases kv)
  have IH: "map_of (dict_update kvs (AList.update a v d)) k = (case map_of kvs k of None \<Rightarrow> map_of (AList.update a v d) k | Some v \<Rightarrow> Some v)"
    using Cons by simp
  have "map_of kvs a = None" using Cons.prems by (simp add: kv map_of_eq_None_iff)
  with IH show ?case by (cases "k = a") (simp_all add: dict_update_def kv update_conv' split: option.split)
qed (simp add: dict_update_def)

lemma dict_update_plain:
  assumes "plain_json (JObj d)" "list_all (\<lambda>(k, v). plain_json v) kvs"
  shows "plain_json (JObj (dict_update kvs d))"
  using assms
proof (induction kvs arbitrary: d)
  case (Cons kv kvs)
  obtain k v where kv: "kv = (k, v)" by (cases kv)
  have "plain_json (JObj (AList.update k v d))"
    using Cons.prems set_update_subset [of k v d] by (fastforce simp: kv list_all_iff intro!: distinct_update)
  from Cons.IH [OF this] Cons.prems show ?case by (simp add: kv dict_update_def)
qed (simp add: dict_update_def)

lemma plain_get: "plain_json (JObj d) \<Longrightarrow> plain_json (json_get d k)"
  by (auto simp: json_get_def list_all_iff split: option.split dest!: map_of_SomeD)

lemma plain_js [simp]: "plain_json (js v)"
  by (simp add: js_def split: option.split)

lemma is_str_simps [simp]: "is_str (JStr s)" "\<not> is_str JNull" "is_str_or_null (JStr s)" "is_str_or_null JNull" "is_str_or_null (js v)"
  by (simp_all add: is_str_def is_str_or_null_def js_def split: option.split)

lemma plain_dumps [simp]:
  "plain_json (JObj (identifier_dump i))" "plain_json (JObj (address_dump a))" "plain_json (JObj (attribute_dump t))"
  by (simp_all add: identifier_dump_def address_dump_def attribute_dump_def)

lemma read_identifiers:
  assumes "map_of payload ''identifiers'' = Some (JList (map (JObj \<circ> identifier_dump) ids))"
  shows "projection_items payload ''identifiers'' [''identifier_type'', ''normalized_value'', ''quality_flag''] = Inr (map identifier_dump ids)"
    and "map_result checked_identifier (map identifier_dump ids) = Inr (map identifier_dump ids)"
proof -
  have "map_result (projection_item ''identifiers'' [''identifier_type'', ''normalized_value'', ''quality_flag''])
      (map (JObj \<circ> identifier_dump) ids) = Inr (map identifier_dump ids)"
    by (induction ids) (simp_all add: projection_item_def identifier_dump_def json_get_def)
  with assms show "projection_items payload ''identifiers'' [''identifier_type'', ''normalized_value'', ''quality_flag''] = Inr (map identifier_dump ids)"
    by (simp add: projection_items_def)
  show "map_result checked_identifier (map identifier_dump ids) = Inr (map identifier_dump ids)"
    by (induction ids) (simp_all add: checked_identifier_def identifier_dump_def json_get_def)
qed

definition with_unit :: "normalized_address \<Rightarrow> json_obj" where
  "with_unit a = AList.update ''unit_number'' (JStr (or_empty (na_unit_number a))) (address_dump a)"

lemma checked_address_dump: "checked_address (address_dump a) = Inr (with_unit a)"
  by (cases "na_unit_number a")
    (auto simp: checked_address_def with_unit_def address_dump_def json_get_def js_def Let_def or_empty_def)

lemma read_addresses:
  assumes "map_of payload ''addresses'' = Some (JList (map (JObj \<circ> address_dump) addrs))"
  shows "projection_items payload ''addresses'' [''country_code'', ''postal_code'', ''street_name'', ''street_number'', ''quality_flag'']
      = Inr (map address_dump addrs)"
    and "map_result checked_address (map address_dump addrs) = Inr (map with_unit addrs)"
proof -
  have "map_result (projection_item ''addresses'' [''country_code'', ''postal_code'', ''street_name'', ''street_number'', ''quality_flag''])
      (map (JObj \<circ> address_dump) addrs) = Inr (map address_dump addrs)"
    by (induction addrs) (simp_all add: projection_item_def address_dump_def json_get_def)
  with assms show "projection_items payload ''addresses'' [''country_code'', ''postal_code'', ''street_name'', ''street_number'', ''quality_flag'']
      = Inr (map address_dump addrs)" by (simp add: projection_items_def)
  show "map_result checked_address (map address_dump addrs) = Inr (map with_unit addrs)"
    by (induction addrs) (simp_all add: checked_address_dump)
qed

lemma read_attributes:
  assumes "map_of payload ''attributes'' = Some (JList (map (JObj \<circ> attribute_dump) attrs))"
  shows "projection_items payload ''attributes'' [''attribute_name'', ''attribute_value'', ''quality_flag''] = Inr (map attribute_dump attrs)"
proof -
  have "map_result (projection_item ''attributes'' [''attribute_name'', ''attribute_value'', ''quality_flag''])
      (map (JObj \<circ> attribute_dump) attrs) = Inr (map attribute_dump attrs)"
    by (induction attrs) (simp_all add: projection_item_def attribute_dump_def json_get_def)
  with assms show ?thesis by (simp add: projection_items_def)
qed

lemma case_json_none: "(case v of JStr s \<Rightarrow> f s | _ \<Rightarrow> None) = Some b \<Longrightarrow> \<exists>s. v = JStr s \<and> f s = Some b"
  by (cases v) auto

lemma if_none_some: "(if P then None else Some x) = Some b \<Longrightarrow> b = x"
  by (simp split: if_split_asm)

lemma relationship_blueprint_fields:
  assumes "relationship_blueprint env = Some b"
  shows "projection_item ''knows_relationships'' [''declarer_source_record_id'', ''declarer_source_system_key'',
        ''relationship_category'', ''status'', ''source_system_key''] (JObj b) = Inr b"
    and "checked_relationship (pn_source_system env) b = Inr b" and "plain_json (JObj b)"
proof -
  from assms obtain d label status approved where
    b: "b = [(''declarer_source_record_id'', JStr d), (''relationship_label'', js label),
         (''relationship_category'', JStr (category_for label)), (''status'', JStr status), (''approved_at'', approved),
         (''source_system_key'', JStr (pn_source_system env)),
         (''declarer_source_system_key'', JStr (declarer_source_system_key (pn_source_system env)))]"
    and approved: "approved = JNull \<or> is_str approved"
  proof -
    let ?raw = "pn_raw_payload env"
    let ?contact = "row_of ?raw ''contact''"
    let ?approved = "case json_get ?contact ''approved_at'' of JStr s \<Rightarrow> JStr s | _ \<Rightarrow> JNull"
    have approved: "?approved = JNull \<or> is_str ?approved" by (simp add: is_str_def split: json.split)
    let ?label = "if relationship_label ?raw ?contact = JNull then None else Some (py_str (relationship_label ?raw ?contact))"
    let ?status = "case (case json_get ?contact ''status'' of JStr s \<Rightarrow> if s \<noteq> [] then Some s else None | _ \<Rightarrow> None) of
      Some s \<Rightarrow> s | None \<Rightarrow> if json_get ?raw ''linked_to_source_record_id'' \<noteq> JNull then ''declared'' else ''pending''"
    from case_json_none [OF assms [unfolded relationship_blueprint_def Let_def]] obtain s where
      "(if s = [] \<or> \<not> json_get ?raw ''linked_to_source_record_id'' \<noteq> JNull
            \<and> (case ?label of None \<Rightarrow> True | Some l \<Rightarrow> py_strip l = []) then None
        else Some [(''declarer_source_record_id'', JStr s), (''relationship_label'', js ?label),
         (''relationship_category'', JStr (category_for ?label)), (''status'', JStr ?status), (''approved_at'', ?approved),
         (''source_system_key'', JStr (pn_source_system env)),
         (''declarer_source_system_key'', JStr (declarer_source_system_key (pn_source_system env)))]) = Some b"
      by blast
    then have "b = [(''declarer_source_record_id'', JStr s), (''relationship_label'', js ?label),
         (''relationship_category'', JStr (category_for ?label)), (''status'', JStr ?status), (''approved_at'', ?approved),
         (''source_system_key'', JStr (pn_source_system env)),
         (''declarer_source_system_key'', JStr (declarer_source_system_key (pn_source_system env)))]"
      by (rule if_none_some)
    then show thesis using approved by (rule that)
  qed
  then show "projection_item ''knows_relationships'' [''declarer_source_record_id'', ''declarer_source_system_key'',
        ''relationship_category'', ''status'', ''source_system_key''] (JObj b) = Inr b"
    "checked_relationship (pn_source_system env) b = Inr b"
    by (simp_all add: projection_item_def checked_relationship_def json_get_def is_str_or_null_def [of approved])
  from approved have "plain_json approved" by (auto simp: is_str_def split: json.splits)
  then show "plain_json (JObj b)" by (simp add: b)
qed

lemma read_knows:
  assumes "map_of payload ''knows_relationships'' = Some (JList (knows_projection_blueprints env))"
  shows "\<exists>bs. knows_projection_blueprints env = map JObj bs
    \<and> projection_items payload ''knows_relationships'' [''declarer_source_record_id'', ''declarer_source_system_key'',
        ''relationship_category'', ''status'', ''source_system_key''] = Inr bs
    \<and> map_result (checked_relationship (pn_source_system env)) bs = Inr bs"
proof (cases "relationship_blueprint env")
  case None
  with assms show ?thesis by (simp add: knows_projection_blueprints_def projection_items_def)
next
  case (Some b)
  with relationship_blueprint_fields [OF Some] assms show ?thesis
    by (intro exI [of _ "[b]"]) (simp add: knows_projection_blueprints_def projection_items_def)
qed

text \<open>A text that is a date-time with a zone, in its normal form.\<close>

definition aware_text :: "(string \<Rightarrow> iso_datetime option) \<Rightarrow> string \<Rightarrow> string option" where
  "aware_text fromiso s =
     (case fromiso (replace_zulu s) of None \<Rightarrow> None | Some d \<Rightarrow> if dt_aware d then Some (dt_text d) else None)"

definition timed :: "(string \<Rightarrow> iso_datetime option) \<Rightarrow> string option \<Rightarrow> bool" where
  "timed fromiso v = (case v of None \<Rightarrow> False | Some s \<Rightarrow> aware_text fromiso s \<noteq> None)"

definition untimed_or_timed :: "(string \<Rightarrow> iso_datetime option) \<Rightarrow> string option \<Rightarrow> bool" where
  "untimed_or_timed fromiso v = (v = None \<or> timed fromiso v)"

lemma normalized_datetime_cases:
  "normalized_datetime fromiso (js v) field = Inr t \<longleftrightarrow> Option.bind v (aware_text fromiso) = Some t"
  "(\<exists>t. normalized_datetime fromiso (js v) field = Inr t) \<longleftrightarrow> timed fromiso v"
  by (cases v; auto simp: normalized_datetime_def js_def aware_text_def timed_def invalid_def raise_def ok_def split: option.splits if_splits)+

lemma normalized_datetime_text: "normalized_datetime fromiso (JStr s) field = Inr t \<longleftrightarrow> aware_text fromiso s = Some t"
  using normalized_datetime_cases(1) [of fromiso "Some s" field t] by (simp add: js_def)

lemma optional_normalized_datetime_cases:
  "optional_normalized_datetime fromiso (js v) field = Inr t \<longleftrightarrow>
     untimed_or_timed fromiso v \<and> t = js (Option.bind v (aware_text fromiso))"
proof (cases v)
  case (Some s)
  have "js v \<noteq> JNull" by (simp add: Some js_def)
  then show ?thesis
    using normalized_datetime_cases [of fromiso v field]
    by (auto simp: optional_normalized_datetime_def try_bind_Inr_iff untimed_or_timed_def Some js_def ok_def timed_def)
qed (auto simp: optional_normalized_datetime_def js_def untimed_or_timed_def ok_def)


text \<open>The same object with its time stamps in their normal form.\<close>

definition retimed :: "(string \<Rightarrow> iso_datetime option) \<Rightarrow> json_obj \<Rightarrow> json_obj" where
  "retimed fromiso = map (\<lambda>(k, v). (k, if k \<in> {''observed_at'', ''first_seen_at'', ''last_seen_at''}
     then js (Option.bind (json_str v) (aware_text fromiso)) else v))"

definition bankruptcy_timed :: "(string \<Rightarrow> iso_datetime option) \<Rightarrow> json_obj \<Rightarrow> bool" where
  "bankruptcy_timed fromiso b =
     (timed fromiso (json_str (json_get b ''observed_at''))
      \<and> untimed_or_timed fromiso (json_str (json_get b ''first_seen_at''))
      \<and> untimed_or_timed fromiso (json_str (json_get b ''last_seen_at'')))"

lemma json_str_js [simp]: "json_str (js v) = v"
  by (cases v) (simp_all add: js_def)

lemma is_str_js [simp]: "is_str (js v) = (v \<noteq> None)"
  by (cases v) (simp_all add: js_def)

lemma timed_not_None: "timed fromiso v \<Longrightarrow> v \<noteq> None"
  by (cases v) (simp_all add: timed_def)

lemma bankruptcy_blueprint_form:
  assumes "bankruptcy_case_blueprint fromiso env = Some b"
  obtains cid cn dt dd et ed tn tf su first last raw where
    "b = [(''source_system_key'', JStr (pn_source_system env)), (''source_case_id'', JStr cid), (''case_number'', js cn),
          (''document_type'', js dt), (''document_date'', js dd), (''event_type'', js et), (''event_date'', js ed),
          (''trustee_name'', js tn), (''trustee_firm'', js tf), (''source_url'', js su), (''first_seen_at'', js first),
          (''last_seen_at'', js last), (''observed_at'', js (pn_observed_at env)), (''raw_payload'', JStr raw)]"
  using assms unfolding bankruptcy_case_blueprint_def Let_def by (auto split: if_splits option.splits)

lemma checked_bankruptcy_blueprint:
  assumes "bankruptcy_case_blueprint fromiso env = Some b"
  shows "checked_bankruptcy fromiso (pn_source_system env) (JObj b) = Inr r
     \<longleftrightarrow> bankruptcy_timed fromiso b \<and> r = [retimed fromiso b]"
proof -
  obtain cid cn dt dd et ed tn tf su first last raw where
    b: "b = [(''source_system_key'', JStr (pn_source_system env)), (''source_case_id'', JStr cid), (''case_number'', js cn),
          (''document_type'', js dt), (''document_date'', js dd), (''event_type'', js et), (''event_date'', js ed),
          (''trustee_name'', js tn), (''trustee_firm'', js tf), (''source_url'', js su), (''first_seen_at'', js first),
          (''last_seen_at'', js last), (''observed_at'', js (pn_observed_at env)), (''raw_payload'', JStr raw)]"
    using bankruptcy_blueprint_form [OF assms] .
  have times: "bankruptcy_timed fromiso b \<longleftrightarrow> timed fromiso (pn_observed_at env) \<and> untimed_or_timed fromiso first
      \<and> untimed_or_timed fromiso last"
    by (simp add: bankruptcy_timed_def b json_get_def)
  show ?thesis
  proof (cases "pn_observed_at env")
    case None
    then show ?thesis unfolding times
      by (auto simp: checked_bankruptcy_def b json_get_def invalid_def raise_def dest: timed_not_None)
  next
    case (Some at)
    have "checked_bankruptcy fromiso (pn_source_system env) (JObj b) =
        try_bind (normalized_datetime fromiso (js (pn_observed_at env)) ''bankruptcy_case.observed_at'') (\<lambda>observed_at.
        try_bind (optional_normalized_datetime fromiso (js first) ''bankruptcy_case.first_seen_at'') (\<lambda>f.
        try_bind (optional_normalized_datetime fromiso (js last) ''bankruptcy_case.last_seen_at'') (\<lambda>l.
          ok [AList.update ''last_seen_at'' l (AList.update ''first_seen_at'' f
                (AList.update ''observed_at'' (JStr observed_at) b))])))"
      using Some by (simp add: checked_bankruptcy_def b json_get_def BANKRUPTCY_OPTIONAL_def)
    moreover have "retimed fromiso b = AList.update ''last_seen_at'' (js (Option.bind last (aware_text fromiso)))
        (AList.update ''first_seen_at'' (js (Option.bind first (aware_text fromiso)))
          (AList.update ''observed_at'' (js (Option.bind (pn_observed_at env) (aware_text fromiso))) b))"
      by (simp add: retimed_def b)
    moreover have "timed fromiso (pn_observed_at env) \<longleftrightarrow> (\<exists>t. Option.bind (pn_observed_at env) (aware_text fromiso) = Some t)"
      by (auto simp: timed_def Some)
    ultimately show ?thesis unfolding times
      by (auto simp: try_bind_Inr_iff normalized_datetime_cases(1) optional_normalized_datetime_cases ok_def js_def [of "Some _"])
  qed
qed

lemma mentioned_fields:
  assumes "mentioned_vehicles ctx env = Some obs" "o' \<in> set obs"
  shows "co_source_system_key o' = pn_source_system env" "co_source_record_id o' = pn_source_record_id env"
    "co_observed_at o' = pn_observed_at env" "co_confidence o' = fl (3/5)"
  using assms
  by (auto simp: mentioned_vehicles_def observations_from_chat_inquiries_def observation_of_inquiry_def Let_def
      split: if_splits json.splits)

definition retimed_mention :: "(string \<Rightarrow> iso_datetime option) \<Rightarrow> chat_observation \<Rightarrow> chat_observation" where
  "retimed_mention fromiso obs = obs\<lparr>co_observed_at := Option.bind (co_observed_at obs) (aware_text fromiso)\<rparr>"

lemma checked_mention_blueprint:
  "checked_mention fromiso (co_source_system_key obs) (co_source_record_id obs) pk (mention_blueprint obs) = Inr m
   \<longleftrightarrow> untimed_or_timed fromiso (co_observed_at obs) \<and> m = mention_blueprint (retimed_mention fromiso obs)"
proof (cases "co_observed_at obs")
  case None
  then show ?thesis
    by (auto simp: checked_mention_def mention_blueprint_def json_get_def js_def [of None] untimed_or_timed_def retimed_mention_def ok_def)
next
  case (Some at)
  have "checked_mention fromiso (co_source_system_key obs) (co_source_record_id obs) pk (mention_blueprint obs) =
      try_bind (normalized_datetime fromiso (js (co_observed_at obs)) ''vehicle_mentions.observed_at'') (\<lambda>s.
        ok (AList.update ''observed_at'' (JStr s) (mention_blueprint obs)))"
    by (simp add: checked_mention_def mention_blueprint_def json_get_def js_def [of "Some _"] Some)
  moreover have "mention_blueprint (retimed_mention fromiso obs) =
      AList.update ''observed_at'' (js (Option.bind (co_observed_at obs) (aware_text fromiso))) (mention_blueprint obs)"
    by (simp add: mention_blueprint_def retimed_mention_def)
  ultimately show ?thesis
    by (auto simp: try_bind_Inr_iff normalized_datetime_text untimed_or_timed_def timed_def Some ok_def js_def [of "Some _"])
qed

lemma map_result_iff:
  "(\<And>x y. x \<in> set xs \<Longrightarrow> f x = Inr y \<longleftrightarrow> P x \<and> y = g x) \<Longrightarrow>
   map_result f xs = Inr ys \<longleftrightarrow> (\<forall>x \<in> set xs. P x) \<and> ys = map g xs"
  by (induction xs arbitrary: ys) (auto simp: try_bind_Inr_iff)

lemma read_mentions:
  assumes mentioned: "mentioned_vehicles ctx env = Some obs"
    and payload: "map_of payload ''vehicle_mentions'' = Some (JList (map (JObj \<circ> mention_blueprint) obs))"
  shows "projection_items payload ''vehicle_mentions'' [''source_system_key'', ''source_record_id'', ''quality_flag'']
      = Inr (map mention_blueprint obs)"
    and "map_result (checked_mention fromiso (pn_source_system env) (pn_source_record_id env) pk) (map mention_blueprint obs) = Inr ms
      \<longleftrightarrow> (obs = [] \<or> untimed_or_timed fromiso (pn_observed_at env)) \<and> ms = map (mention_blueprint \<circ> retimed_mention fromiso) obs"
proof -
  have "map_result (projection_item ''vehicle_mentions'' [''source_system_key'', ''source_record_id'', ''quality_flag''])
      (map (JObj \<circ> mention_blueprint) xs) = Inr (map mention_blueprint xs)" for xs
    by (induction xs) (simp_all add: projection_item_def mention_blueprint_def json_get_def)
  with payload show "projection_items payload ''vehicle_mentions'' [''source_system_key'', ''source_record_id'', ''quality_flag'']
      = Inr (map mention_blueprint obs)" by (simp add: projection_items_def)
  let ?f = "checked_mention fromiso (pn_source_system env) (pn_source_record_id env) pk"
  have "map_result ?f (map mention_blueprint xs) = map_result (?f \<circ> mention_blueprint) xs" for xs
    by (induction xs) simp_all
  moreover have "map_result (?f \<circ> mention_blueprint) obs = Inr ms \<longleftrightarrow>
      (\<forall>x \<in> set obs. untimed_or_timed fromiso (co_observed_at x)) \<and> ms = map (mention_blueprint \<circ> retimed_mention fromiso) obs"
    by (rule map_result_iff) (use checked_mention_blueprint [of fromiso _ pk] mentioned_fields [OF mentioned] in \<open>metis comp_apply\<close>)
  moreover have "(\<forall>x \<in> set obs. untimed_or_timed fromiso (co_observed_at x)) \<longleftrightarrow> obs = [] \<or> untimed_or_timed fromiso (pn_observed_at env)"
    using mentioned_fields(3) [OF mentioned] by (cases obs) auto
  ultimately show "map_result ?f (map mention_blueprint obs) = Inr ms \<longleftrightarrow>
      (obs = [] \<or> untimed_or_timed fromiso (pn_observed_at env)) \<and> ms = map (mention_blueprint \<circ> retimed_mention fromiso) obs"
    by simp
qed


abbreviation written_payload where
  "written_payload fromiso ctx env ids addrs attrs \<equiv>
     build_normalized_source_payload env ids addrs attrs (Some (activation_blueprint fromiso ctx env))"

lemma conversation_keys:
  "fst ` set (conversation_parts raw) \<subseteq> {''summary'', ''tone'', ''purpose'', ''outcome'', ''difficulty'',
     ''customer_sentiment'', ''chat_members'', ''inquiries''}"
  by (auto simp: conversation_parts_def CHAT_CLASSIFICATION_TYPES_def split: json.splits if_splits)

lemma payload_lookup:
  assumes "k \<in> {''identifiers'', ''addresses'', ''attributes'', ''knows_relationships'', ''bankruptcy_case'', ''vehicle_mentions''}"
  shows "map_of (written_payload fromiso ctx env ids addrs attrs) k =
    (case map_of (activation_blueprint fromiso ctx env) k of None \<Rightarrow> map_of (normalized_parts ids addrs attrs) k | Some v \<Rightarrow> Some v)"
proof -
  have "k \<notin> fst ` set (conversation_parts (pn_raw_payload env))" using assms conversation_keys by fastforce
  moreover have "distinct (map fst (activation_blueprint fromiso ctx env))"
    by (simp add: activation_blueprint_def split: option.split)
  ultimately show ?thesis
    by (simp add: build_normalized_source_payload_def Let_def map_of_dict_update_other map_of_dict_update)
qed

lemma blueprint_lookup:
  "k \<notin> {''knows_relationships'', ''bankruptcy_case'', ''vehicle_mentions''} \<Longrightarrow> map_of (activation_blueprint fromiso ctx env) k = None"
  "map_of (activation_blueprint fromiso ctx env) ''knows_relationships'' = Some (JList (knows_projection_blueprints env))"
  "map_of (activation_blueprint fromiso ctx env) ''bankruptcy_case'' = map_option JObj (bankruptcy_case_blueprint fromiso env)"
  "map_of (activation_blueprint fromiso ctx env) ''vehicle_mentions''
     = map_option (\<lambda>obs. JList (map (JObj \<circ> mention_blueprint) obs)) (mentioned_vehicles ctx env)"
  by (simp_all add: activation_blueprint_def split: option.split)

lemma payload_entries:
  "map_of (written_payload fromiso ctx env ids addrs attrs) ''identifiers'' = Some (JList (map (JObj \<circ> identifier_dump) ids))"
  "map_of (written_payload fromiso ctx env ids addrs attrs) ''addresses'' = Some (JList (map (JObj \<circ> address_dump) addrs))"
  "map_of (written_payload fromiso ctx env ids addrs attrs) ''attributes'' = Some (JList (map (JObj \<circ> attribute_dump) attrs))"
  "map_of (written_payload fromiso ctx env ids addrs attrs) ''knows_relationships'' = Some (JList (knows_projection_blueprints env))"
  "map_of (written_payload fromiso ctx env ids addrs attrs) ''bankruptcy_case'' = map_option JObj (bankruptcy_case_blueprint fromiso env)"
  "map_of (written_payload fromiso ctx env ids addrs attrs) ''vehicle_mentions''
     = map_option (\<lambda>obs. JList (map (JObj \<circ> mention_blueprint) obs)) (mentioned_vehicles ctx env)"
  by (simp_all add: payload_lookup blueprint_lookup normalized_parts_def split: option.split)

lemma plain_mentions: "mentioned_vehicles ctx env = Some obs \<Longrightarrow> o' \<in> set obs \<Longrightarrow> plain_json (JObj (mention_blueprint o'))"
  using mentioned_fields(4) [of ctx env obs o'] plain_float_sample(1) by (simp add: mention_blueprint_def)

lemma plain_payload:
  assumes "plain_json (JObj (pn_raw_payload env))"
  shows "plain_json (JObj (written_payload fromiso ctx env ids addrs attrs))"
proof -
  have "plain_json (JObj b)" if b: "bankruptcy_case_blueprint fromiso env = Some b" for b
    by (rule bankruptcy_blueprint_form [OF b]) simp
  moreover have "list_all plain_json (knows_projection_blueprints env)"
    using relationship_blueprint_fields(3) by (auto simp: knows_projection_blueprints_def split: option.split)
  ultimately have blueprint: "list_all (\<lambda>(k, v). plain_json v) (activation_blueprint fromiso ctx env)"
    using plain_mentions [OF sym, of _ ctx env]
    by (auto simp: activation_blueprint_def list_all_iff simp del: plain_json.simps(3) split: option.splits)
  have parts: "list_all (\<lambda>(k, v). plain_json v) (conversation_parts (pn_raw_payload env))"
    using plain_get [OF assms] by (auto simp: conversation_parts_def list_all_iff split: json.splits if_splits)
  have base: "plain_json (JObj (normalized_parts ids addrs attrs))"
    by (auto simp: normalized_parts_def list_all_iff identifier_dump_def address_dump_def attribute_dump_def split: list.split)
  have "plain_json (JObj (dict_update (activation_blueprint fromiso ctx env) (normalized_parts ids addrs attrs)))"
    by (rule dict_update_plain [OF base blueprint])
  from this dict_update_plain [OF this parts] show ?thesis
    by (simp add: build_normalized_source_payload_def Let_def del: plain_json.simps)
qed

text \<open>What the review can make of a record: its times are date-times with a zone where the projection needs them.\<close>

definition reviewable :: "(string \<Rightarrow> iso_datetime option) \<Rightarrow> exclusion_context \<Rightarrow> 'e pending_envelope_scheme \<Rightarrow> bool" where
  "reviewable fromiso ctx env =
     ((case bankruptcy_case_blueprint fromiso env of None \<Rightarrow> True | Some b \<Rightarrow> bankruptcy_timed fromiso b)
      \<and> (case mentioned_vehicles ctx env of
           None \<Rightarrow> True | Some obs \<Rightarrow> obs = [] \<or> untimed_or_timed fromiso (pn_observed_at env)))"

definition expected_projection ::
    "(string \<Rightarrow> iso_datetime option) \<Rightarrow> exclusion_context \<Rightarrow> 'e pending_envelope_scheme \<Rightarrow> normalized_identifier list
     \<Rightarrow> normalized_address list \<Rightarrow> normalized_attribute list \<Rightarrow> projection" where
  "expected_projection fromiso ctx env ids addrs attrs =
     (let usable = (\<lambda>flag. flag \<notin> {INVALID_FORMAT, PLACEHOLDER_VALUE})
      in \<lparr>pj_identifiers = map identifier_dump [i \<leftarrow> ids. usable (ni_quality_flag i)],
          pj_addresses = map with_unit [a \<leftarrow> addrs. usable (na_quality_flag a)],
          pj_attributes = map attribute_dump attrs,
          pj_bankruptcy_cases = (case bankruptcy_case_blueprint fromiso env of None \<Rightarrow> [] | Some b \<Rightarrow> [retimed fromiso b]),
          pj_vehicle_mentions = (case mentioned_vehicles ctx env of
             None \<Rightarrow> [] | Some obs \<Rightarrow> map (mention_blueprint \<circ> retimed_mention fromiso) obs),
          pj_knows_relationships = (case relationship_blueprint env of None \<Rightarrow> [] | Some b \<Rightarrow> [b])\<rparr>)"

lemma usable_dumps:
  "filter usable_item (map identifier_dump ids) = map identifier_dump [i \<leftarrow> ids. ni_quality_flag i \<notin> {INVALID_FORMAT, PLACEHOLDER_VALUE}]"
  "filter usable_item (map with_unit addrs) = map with_unit [a \<leftarrow> addrs. na_quality_flag a \<notin> {INVALID_FORMAT, PLACEHOLDER_VALUE}]"
proof -
  have "usable_item (identifier_dump i) \<longleftrightarrow> ni_quality_flag i \<notin> {INVALID_FORMAT, PLACEHOLDER_VALUE}" for i
    by (cases "ni_quality_flag i") (simp_all add: usable_item_def identifier_dump_def json_get_def)
  moreover have "usable_item (with_unit a) \<longleftrightarrow> na_quality_flag a \<notin> {INVALID_FORMAT, PLACEHOLDER_VALUE}" for a
    by (cases "na_quality_flag a") (simp_all add: usable_item_def with_unit_def address_dump_def json_get_def)
  ultimately show "filter usable_item (map identifier_dump ids) = map identifier_dump [i \<leftarrow> ids. ni_quality_flag i \<notin> {INVALID_FORMAT, PLACEHOLDER_VALUE}]"
    "filter usable_item (map with_unit addrs) = map with_unit [a \<leftarrow> addrs. na_quality_flag a \<notin> {INVALID_FORMAT, PLACEHOLDER_VALUE}]"
    by (simp_all add: filter_map comp_def)
qed

lemma projection_of_written:
  fixes env :: "'e pending_envelope_scheme"
  assumes "plain_json (JObj (pn_raw_payload env))"
  shows "pending_projection_params fromiso (JStr (json_dumps (JObj (written_payload fromiso ctx env ids addrs attrs))))
      (pn_source_system env) (pn_source_record_id env) pk = Inr pj
    \<longleftrightarrow> reviewable fromiso ctx env \<and> pj = expected_projection fromiso ctx env ids addrs attrs"
proof -
  let ?p = "written_payload fromiso ctx env ids addrs attrs"
  note e = payload_entries [where fromiso = fromiso and ctx = ctx and env = env and ids = ids and addrs = addrs and attrs = attrs]
  note ids = read_identifiers [OF e(1)] and addrs = read_addresses [OF e(2)] and attrs = read_attributes [OF e(3)]
  from read_knows [OF e(4)] obtain bs where bs: "knows_projection_blueprints env = map JObj bs"
    "projection_items ?p ''knows_relationships'' [''declarer_source_record_id'', ''declarer_source_system_key'',
        ''relationship_category'', ''status'', ''source_system_key''] = Inr bs"
    "map_result (checked_relationship (pn_source_system env)) bs = Inr bs" by blast
  have knows: "bs = (case relationship_blueprint env of None \<Rightarrow> [] | Some b \<Rightarrow> [b])"
    using bs(1) by (auto simp: knows_projection_blueprints_def split: option.splits)
  have case_: "checked_bankruptcy fromiso (pn_source_system env) (json_get ?p ''bankruptcy_case'') = Inr r \<longleftrightarrow>
      (case bankruptcy_case_blueprint fromiso env of None \<Rightarrow> True | Some b \<Rightarrow> bankruptcy_timed fromiso b)
      \<and> r = (case bankruptcy_case_blueprint fromiso env of None \<Rightarrow> [] | Some b \<Rightarrow> [retimed fromiso b])" for r
  proof (cases "bankruptcy_case_blueprint fromiso env")
    case None
    then show ?thesis by (auto simp: json_get_def e(5) checked_bankruptcy_def ok_def)
  next
    case (Some b)
    with checked_bankruptcy_blueprint [OF Some] show ?thesis by (simp add: json_get_def e(5))
  qed
  obtain ms where ms: "projection_items ?p ''vehicle_mentions'' [''source_system_key'', ''source_record_id'', ''quality_flag''] = Inr ms"
    "\<And>r. map_result (checked_mention fromiso (pn_source_system env) (pn_source_record_id env) pk) ms = Inr r \<longleftrightarrow>
      (case mentioned_vehicles ctx env of None \<Rightarrow> True | Some obs \<Rightarrow> obs = [] \<or> untimed_or_timed fromiso (pn_observed_at env))
      \<and> r = (case mentioned_vehicles ctx env of None \<Rightarrow> [] | Some obs \<Rightarrow> map (mention_blueprint \<circ> retimed_mention fromiso) obs)"
  proof (cases "mentioned_vehicles ctx env")
    case None
    then show thesis by (intro that [of "[]"]) (auto simp: projection_items_def e(6) ok_def)
  next
    case (Some obs)
    then have entry: "map_of ?p ''vehicle_mentions'' = Some (JList (map (JObj \<circ> mention_blueprint) obs))" by (simp add: e(6))
    from read_mentions [OF Some entry] Some show thesis by (intro that [of "map mention_blueprint obs"]) simp_all
  qed
  show ?thesis
    unfolding pending_projection_params_def
    by (auto simp: json_loads_dumps [OF plain_payload [OF assms]] ok_def ids addrs attrs try_bind_Inr_iff case_ ms bs(2) bs(3) [unfolded knows]
        reviewable_def expected_projection_def Let_def usable_dumps knows simp del: json_dumps.simps)
qed

section \<open>Properties\<close>

text \<open>C33: the review action accepts a held record exactly when it was observed at a date-time with a zone
  and the times of its bankruptcy case and of its mentions of vehicles have one too; the person to
  approve then gets the usable identifiers and addresses, the attributes and the rest of the record as
  the ingestion service normalised them. A record without a time stamp can never be approved.\<close>

theorem held_records_are_read_back:
  fixes env :: "'e pending_envelope_scheme"
  assumes raw: "plain_json (JObj (pn_raw_payload env))"
    and payload: "json_get row ''normalized_payload'' = JStr (json_dumps (JObj (written_payload fromiso ctx env ids addrs attrs)))"
    and keys: "json_get row ''source_system_key'' = JStr (pn_source_system env)"
      "json_get row ''source_record_id'' = JStr (pn_source_record_id env)" "json_get row ''pending_source_record_pk'' = JStr pk"
      "json_get row ''proposed_person_id'' = JStr person"
    and filled: "[] \<notin> {pn_source_system env, pn_source_record_id env, pk, person}"
    and others: "map_of row ''review_candidate_person_ids'' = Some (JList (map JStr candidates))"
      "json_get row ''expected_active_source_record_pk'' = js expected" "json_get row ''observed_at'' = js stored_at"
  shows "approval_arguments fromiso row = Inr ap \<longleftrightarrow>
    timed fromiso stored_at \<and> reviewable fromiso ctx env
    \<and> ap = \<lparr>ap_proposed_person_id = person, ap_candidate_person_ids = candidates, ap_source_record_pk = pk,
            ap_source_system_key = pn_source_system env, ap_source_record_id = pn_source_record_id env,
            ap_expected_active_pk = expected, ap_observed_at = or_empty (Option.bind stored_at (aware_text fromiso)),
            ap_projection = expected_projection fromiso ctx env ids addrs attrs\<rparr>"
proof -
  have "map_result (\<lambda>v. case v of JStr s \<Rightarrow> ok s | _ \<Rightarrow> invalid m) (map JStr candidates) = Inr candidates" for m
    by (induction candidates) (simp_all add: ok_def)
  then have cands: "str_list_value row ''review_candidate_person_ids'' = Inr candidates"
    using others(1) by (simp add: str_list_value_def)
  have expected: "optional_str_value row ''expected_active_source_record_pk'' = Inr expected"
    using others(2) by (cases expected) (simp_all add: optional_str_value_def js_def ok_def)
  have req: "required_str row ''proposed_person_id'' = Inr person" "required_str row ''pending_source_record_pk'' = Inr pk"
    "required_str row ''source_system_key'' = Inr (pn_source_system env)" "required_str row ''source_record_id'' = Inr (pn_source_record_id env)"
    using keys filled by (auto simp: required_str_def ok_def)
  have at: "Option.bind stored_at (aware_text fromiso) = Some t \<longleftrightarrow> timed fromiso stored_at \<and> t = or_empty (Option.bind stored_at (aware_text fromiso))" for t
    by (cases stored_at) (auto simp: timed_def)
  show ?thesis unfolding approval_arguments_def
    by (auto simp: req cands expected payload others(3) try_bind_Inr_iff normalized_datetime_cases(1) at projection_of_written [OF raw] ok_def
        simp del: json_dumps.simps)
qed

definition sample_contact :: pending_envelope where
  "sample_contact =
     \<lparr>en_source_instance_id = None, en_identifiers = [], en_addresses = [], en_attributes = [],
      pn_source_system = ''fundbox:contacts'', pn_source_record_id = ''c9'', pn_record_type = RELATIONSHIP,
      pn_observed_at = Some ''2024-01-02T03:04:05Z'',
      pn_raw_payload = [(''linked_to_source_record_id'', JStr ''c7''), (''contact'', JObj [(''relationship'', JStr ''Brother'')])]\<rparr>"

definition sample_ids :: "normalized_identifier list" where
  "sample_ids = [mk_identifier ''phone'' ''+6581234567'', (mk_identifier ''email'' ''x'')\<lparr>ni_quality_flag := INVALID_FORMAT\<rparr>]"

definition sample_iso :: "string \<Rightarrow> iso_datetime option" where
  "sample_iso s = (if s = ''2024-01-02T03:04:05+00:00'' then Some \<lparr>dt_aware = True, dt_text = s\<rparr> else None)"

definition no_exclusions :: exclusion_context where
  "no_exclusions = \<lparr>xc_phones = {}, xc_emails = {}, xc_email_domains = {}, xc_names = {}, xc_source_ids = {}, xc_vehicle_identifiers = {}\<rparr>"

definition sample_row :: json_obj where
  "sample_row =
     [(''pending_source_record_pk'', JStr ''pk9''), (''source_record_id'', JStr ''c9''), (''source_system_key'', JStr ''fundbox:contacts''),
      (''normalized_payload'',
         JStr (json_dumps (JObj (written_payload sample_iso no_exclusions sample_contact sample_ids [] [])))),
      (''expected_active_source_record_pk'', JNull), (''observed_at'', JStr ''2024-01-02T03:04:05Z''),
      (''proposed_person_id'', JStr ''p1''), (''review_candidate_person_ids'', JList (map JStr [''p1'', ''p2'']))]"

theorem held_records_are_read_back_witness:
  "\<exists>ap. approval_arguments sample_iso sample_row = Inr ap \<and> ap_observed_at ap = ''2024-01-02T03:04:05+00:00''
     \<and> map (\<lambda>i. json_get i ''normalized_value'') (pj_identifiers (ap_projection ap)) = [JStr ''+6581234567'']
     \<and> map (\<lambda>r. json_get r ''relationship_category'') (pj_knows_relationships (ap_projection ap)) = [JStr ''family'']"
proof -
  let ?ap = "\<lparr>ap_proposed_person_id = ''p1'', ap_candidate_person_ids = [''p1'', ''p2''], ap_source_record_pk = ''pk9'',
    ap_source_system_key = ''fundbox:contacts'', ap_source_record_id = ''c9'', ap_expected_active_pk = None,
    ap_observed_at = or_empty (Option.bind (Some ''2024-01-02T03:04:05Z'') (aware_text sample_iso)),
    ap_projection = expected_projection sample_iso no_exclusions sample_contact sample_ids [] []\<rparr>"
  have times: "timed sample_iso (Some ''2024-01-02T03:04:05Z'')" "reviewable sample_iso no_exclusions sample_contact"
    "aware_text sample_iso ''2024-01-02T03:04:05Z'' = Some ''2024-01-02T03:04:05+00:00''"
    by (simp_all add: timed_def aware_text_def sample_iso_def replace_zulu_def reviewable_def bankruptcy_case_blueprint_def
        mentioned_vehicles_def sample_contact_def)
  have "approval_arguments sample_iso sample_row = Inr ?ap"
    using held_records_are_read_back [where env = sample_contact and row = sample_row and fromiso = sample_iso and ctx = no_exclusions
        and ids = sample_ids and addrs = "[]" and attrs = "[]" and pk = "''pk9''" and person = "''p1''"
        and candidates = "[''p1'', ''p2'']" and expected = None and stored_at = "Some ''2024-01-02T03:04:05Z''" and ap = ?ap] times
    by (simp add: sample_row_def sample_contact_def json_get_def js_def del: json_dumps.simps)
  moreover have "map (\<lambda>i. json_get i ''normalized_value'')
      (pj_identifiers (expected_projection sample_iso no_exclusions sample_contact sample_ids [] [])) = [JStr ''+6581234567'']"
    by (simp add: expected_projection_def sample_ids_def mk_identifier_def identifier_dump_def json_get_def Let_def)
  moreover have "map (\<lambda>r. json_get r ''relationship_category'')
      (pj_knows_relationships (expected_projection sample_iso no_exclusions sample_contact sample_ids [] [])) = [JStr ''family'']"
    by code_simp
  ultimately show ?thesis using times(3) by auto
qed

end
