(* ===== verification/ReviewQueue.thy ===== *)
theory ReviewQueue
  imports Survivorship ReviewPayload
begin

text \<open>
  The review queue of the API service (\<open>api/routes/review.py\<close>, \<open>api/repositories/neo4j/review.py\<close>,
  \<open>api/graph/queries/review.py\<close>): cases are assigned, acted on and recreated. An action on a pair of
  persons merges or locks them; an action on a held record activates or rejects it, guarded by a claim
  of the case; an action on a sale links or rejects it. A case belongs to one decision
  (\<open>FOR_DECISION\<close>), so a statement on a case has a row for that decision. The promotion and the
  rejection of a staged sale (\<open>sales_staging.py\<close> and its statements) are the arguments \<open>qe_promote_sale\<close>
  and \<open>qe_reject_sale\<close>.
  An abort rolls the transaction back; the other errors leave the request.
\<close>

section \<open>Clauses\<close>

text \<open>\<open>SET\<close> on relationships, and \<open>MERGE\<close> with a \<open>SET\<close> that runs in both cases.\<close>

definition set_edges :: "(edge \<Rightarrow> bool) \<Rightarrow> (json_obj \<Rightarrow> json_obj) \<Rightarrow> graph \<Rightarrow> graph" where
  "set_edges P f g =
     g\<lparr>g_edges := map (\<lambda>e. if P e then e\<lparr>e_props := json_sets (f (e_props e)) (e_props e)\<rparr> else e) (g_edges g)\<rparr>"

definition merge_set ::
    "rel_type \<Rightarrow> node \<Rightarrow> node \<Rightarrow> json_obj \<Rightarrow> json_obj \<Rightarrow> (json_obj \<Rightarrow> json_obj) \<Rightarrow> graph \<Rightarrow> graph result" where
  "merge_set t a b kvs created updates =
     merge_edge t a b kvs (\<lambda>d. let d' = json_sets created d in json_sets (updates d') d') (\<lambda>d. json_sets (updates d) d)"

definition targets :: "graph \<Rightarrow> rel_type \<Rightarrow> node \<Rightarrow> node list" where
  "targets g t n = map e_dst (out_edges g t n)"

section \<open>Cases\<close>

definition decisions_of :: "graph \<Rightarrow> string \<Rightarrow> node list" where
  "decisions_of g cid = targets g FOR_DECISION (ReviewCaseN cid)"

definition case_prop :: "graph \<Rightarrow> string \<Rightarrow> string \<Rightarrow> json" where
  "case_prop g cid = node_prop g (ReviewCaseN cid)"

definition source_no_longer_pending :: "graph \<Rightarrow> node \<Rightarrow> bool" where
  "source_no_longer_pending g sr =
     (let status = node_prop g sr ''lifecycle_status''
      in status \<noteq> JNull \<and> status \<noteq> JStr ''pending_review''
         \<or> status = JNull \<and> coalesce (node_prop g sr ''is_latest'') (JBool False) = JBool False)"

definition involved_source_is_pending :: "graph \<Rightarrow> node \<Rightarrow> bool" where
  "involved_source_is_pending g md =
     (\<not> list_ex (\<lambda>sr. is_source_record sr \<and> source_no_longer_pending g sr) (targets g ABOUT_LEFT md @ targets g ABOUT_RIGHT md))"

text \<open>Legacy cases hold the text \<open>[]\<close> where the list of their actions should be.\<close>

definition actions_as_list :: "json_obj \<Rightarrow> json list" where
  "actions_as_list d = (case json_get d ''actions'' of JStr s \<Rightarrow> [] | JNull \<Rightarrow> [] | JList entries \<Rightarrow> entries | v \<Rightarrow> [v])"

definition action_entry_json ::
    "(int \<Rightarrow> string) \<Rightarrow> int \<Rightarrow> string \<Rightarrow> string \<Rightarrow> string \<Rightarrow> string option \<Rightarrow> string" where
  "action_entry_json isof now action_type actor_type actor_id notes =
     json_dumps (JObj [(''action_type'', JStr action_type), (''actor_type'', JStr actor_type), (''actor_id'', JStr actor_id),
                       (''notes'', js notes), (''created_at'', JStr (isof now))])"

text \<open>\<open>SET\<close> on the case, once for each row, and what the statement returns of it.\<close>

definition set_case :: "node list \<Rightarrow> string \<Rightarrow> (json_obj \<Rightarrow> json_obj) \<Rightarrow> graph \<Rightarrow> graph" where
  "set_case rows cid f g = fold (\<lambda>_. set_node (ReviewCaseN cid) f) rows g"

definition ASSIGN_REVIEW_CASE :: "int \<Rightarrow> string \<Rightarrow> string \<Rightarrow> string \<Rightarrow> graph \<Rightarrow> graph \<times> bool" where
  "ASSIGN_REVIEW_CASE now cid assigned_to action_json g =
     (let rows = [md \<leftarrow> decisions_of g cid. case_prop g cid ''queue_state'' \<in> {JStr ''open'', JStr ''assigned''}
                     \<and> involved_source_is_pending g md]
      in (set_case rows cid (\<lambda>d.
            [(''assigned_to'', JStr assigned_to), (''queue_state'', JStr ''assigned''), (''updated_at'', JInt now),
             (''actions'', JList (actions_as_list d @ [JStr action_json]))]) g, rows \<noteq> []))"

definition assign :: "(int \<Rightarrow> string) \<Rightarrow> int \<Rightarrow> string \<Rightarrow> string \<Rightarrow> graph \<Rightarrow> graph \<times> (string \<times> string \<times> string) option" where
  "assign isof now cid assigned_to g =
     (let (g, found) = ASSIGN_REVIEW_CASE now cid assigned_to (action_entry_json isof now ''assign'' ''system'' assigned_to None) g
      in (g, if found then Some (to_str (case_prop g cid ''review_case_id''), to_str (case_prop g cid ''queue_state''),
                                 to_str (case_prop g cid ''assigned_to'')) else None))"

text \<open>A case for the same decision that is still open is returned; otherwise a copy is opened.\<close>

definition RECREATE_REVIEW_CASE :: "int \<Rightarrow> string \<Rightarrow> string \<Rightarrow> string \<Rightarrow> graph \<Rightarrow> graph \<times> string option" where
  "RECREATE_REVIEW_CASE now new_id cid action_json g =
     (case decisions_of g cid of
        [] \<Rightarrow> (g, None)
      | md # _ \<Rightarrow>
          (case [e_src f. f \<leftarrow> in_edges g FOR_DECISION md, open_case g (e_src f)] of
             existing # _ \<Rightarrow> (g, Some (to_str (node_prop g existing ''review_case_id'')))
           | [] \<Rightarrow>
               (create_edge \<lparr>e_type = FOR_DECISION, e_src = ReviewCaseN new_id, e_dst = md, e_props = []\<rparr>
                  (create_node (ReviewCaseN new_id)
                     [(''review_case_id'', JStr new_id), (''priority'', case_prop g cid ''priority''), (''queue_state'', JStr ''open''),
                      (''assigned_to'', JNull), (''follow_up_at'', JNull), (''sla_due_at'', case_prop g cid ''sla_due_at''),
                      (''resolution'', JNull), (''resolved_at'', JNull), (''actions'', JList [JStr action_json]),
                      (''recreated_from_review_case_id'', case_prop g cid ''review_case_id''), (''created_at'', JInt now),
                      (''updated_at'', JInt now)] g), Some new_id)))"

definition recreate :: "(int \<Rightarrow> string) \<Rightarrow> int \<Rightarrow> string \<Rightarrow> string \<Rightarrow> string \<Rightarrow> graph \<Rightarrow> graph \<times> string option" where
  "recreate isof now new_id cid actor_id =
     RECREATE_REVIEW_CASE now new_id cid (action_entry_json isof now ''recreate'' ''user'' actor_id None)"

section \<open>Closing a case\<close>

definition action_updates ::
    "int \<Rightarrow> string \<Rightarrow> string option \<Rightarrow> json option \<Rightarrow> string \<Rightarrow> json_obj \<Rightarrow> json_obj" where
  "action_updates now new_state resolution follow_up_at action_json d =
     [(''queue_state'', JStr new_state), (''updated_at'', JInt now), (''actions'', JList (actions_as_list d @ [JStr action_json]))]
     @ (case resolution of None \<Rightarrow> [] | Some r \<Rightarrow> [(''resolution'', JStr r), (''resolved_at'', JInt now)])
     @ (case follow_up_at of None \<Rightarrow> [] | Some t \<Rightarrow> [(''follow_up_at'', t)])"

record review_action =
  ra_case :: string
  ra_type :: string
  ra_new_state :: string
  ra_resolution :: "string option"
  ra_notes :: "string option"
  ra_follow_up_at :: "string option"
  ra_actor :: string
  ra_survivor :: "string option"
  ra_selections :: "golden_profile_selection list"

text \<open>\<open>datetime(text)\<close>: the argument \<open>datetime\<close> reads it or raises.\<close>

definition cypher_datetime :: "(string \<Rightarrow> int option) \<Rightarrow> string \<Rightarrow> json result" where
  "cypher_datetime datetime s = (case datetime s of None \<Rightarrow> raise (ValueError ''datetime'') | Some n \<Rightarrow> ok (JInt n))"

definition follow_up :: "(string \<Rightarrow> int option) \<Rightarrow> string option \<Rightarrow> json option result" where
  "follow_up datetime v = (case v of None \<Rightarrow> ok None | Some s \<Rightarrow> try_bind (cypher_datetime datetime s) (\<lambda>t. ok (Some t)))"

definition close_rows ::
    "(string \<Rightarrow> int option) \<Rightarrow> int \<Rightarrow> node list \<Rightarrow> review_action \<Rightarrow> string \<Rightarrow> graph \<Rightarrow> (graph \<times> bool) result" where
  "close_rows datetime now rows a action_json g =
     (if rows = [] then ok (g, False)
      else try_bind (follow_up datetime (ra_follow_up_at a)) (\<lambda>follow_up_at.
             ok (set_case rows (ra_case a) (action_updates now (ra_new_state a) (ra_resolution a) follow_up_at action_json) g, True)))"

definition build_review_action_cypher ::
    "(string \<Rightarrow> int option) \<Rightarrow> int \<Rightarrow> review_action \<Rightarrow> string \<Rightarrow> graph \<Rightarrow> (graph \<times> bool) result" where
  "build_review_action_cypher datetime now a action_json g =
     close_rows datetime now
       [md \<leftarrow> decisions_of g (ra_case a). open_case g (ReviewCaseN (ra_case a)) \<and> involved_source_is_pending g md] a action_json g"

section \<open>Claims\<close>

record review_claim =
  cl_token :: string
  cl_version :: int
  cl_status :: string

definition claimable :: "graph \<Rightarrow> string \<Rightarrow> string \<Rightarrow> bool" where
  "claimable g cid actor_id =
     (open_case g (ReviewCaseN cid) \<and> case_prop g cid ''assigned_to'' \<in> {JNull, JStr actor_id}
      \<and> case_prop g cid ''lifecycle_claim_token'' = JNull)"

definition CLAIM_PENDING_REVIEW_RESOLUTION :: "int \<Rightarrow> string \<Rightarrow> string \<Rightarrow> string \<Rightarrow> graph \<Rightarrow> graph \<times> bool" where
  "CLAIM_PENDING_REVIEW_RESOLUTION now token cid actor_id g =
     (let rows = [md \<leftarrow> decisions_of g cid. claimable g cid actor_id \<and> involved_source_is_pending g md]
      in (set_case rows cid (\<lambda>d.
            [(''lifecycle_claimed_at'', JInt now), (''lifecycle_claimed_by'', JStr actor_id),
             (''lifecycle_claim_token'', JStr token), (''lifecycle_claim_version'', json_incr (json_get d ''lifecycle_claim_version'')),
             (''lifecycle_claim_status'', json_get d ''queue_state''), (''updated_at'', JInt now)]) g, rows \<noteq> []))"

text \<open>The version of a claim is an integer, as the claim has just written it.\<close>

fun to_int :: "json \<Rightarrow> int" where
  "to_int (JInt n) = n"
| "to_int _ = 0"

definition claim_review_action ::
    "int \<Rightarrow> string \<Rightarrow> string \<Rightarrow> string \<Rightarrow> graph \<Rightarrow> (graph \<times> review_claim option) result" where
  "claim_review_action now token cid actor_id g =
     (let (g, claimed) = CLAIM_PENDING_REVIEW_RESOLUTION now token cid actor_id g
      in if \<not> claimed \<or> to_str (case_prop g cid ''lifecycle_claimed_by'') \<noteq> actor_id then ok (g, None)
         else let claim = \<lparr>cl_token = to_str (case_prop g cid ''lifecycle_claim_token''),
                           cl_version = to_int (case_prop g cid ''lifecycle_claim_version''),
                           cl_status = to_str (case_prop g cid ''lifecycle_claim_status'')\<rparr>
              in if cl_token claim = [] \<or> cl_status claim = [] \<or> cl_version claim < 1
                 then raise (ReviewResolutionAbortError ''invalid review action claim'')
                 else ok (g, Some claim))"

definition claim_holds :: "graph \<Rightarrow> string \<Rightarrow> string \<Rightarrow> review_claim \<Rightarrow> bool" where
  "claim_holds g cid actor_id claim =
     (case_prop g cid ''queue_state'' = JStr (cl_status claim) \<and> case_prop g cid ''lifecycle_claim_token'' = JStr (cl_token claim)
      \<and> case_prop g cid ''lifecycle_claim_version'' = JInt (cl_version claim)
      \<and> case_prop g cid ''lifecycle_claim_status'' = JStr (cl_status claim)
      \<and> case_prop g cid ''lifecycle_claimed_by'' = JStr actor_id)"

definition build_claimed_review_action_cypher ::
    "(string \<Rightarrow> int option) \<Rightarrow> int \<Rightarrow> review_claim \<Rightarrow> review_action \<Rightarrow> string \<Rightarrow> graph \<Rightarrow> (graph \<times> bool) result" where
  "build_claimed_review_action_cypher datetime now claim a action_json g =
     close_rows datetime now [md \<leftarrow> decisions_of g (ra_case a). claim_holds g (ra_case a) (ra_actor a) claim] a action_json g"

section \<open>Pairs of persons\<close>

definition golden_completion :: "graph \<Rightarrow> node \<Rightarrow> nat" where
  "golden_completion g p =
     length [k \<leftarrow> [''preferred_full_name'', ''preferred_phone'', ''preferred_email'', ''preferred_dob'', ''preferred_nric'',
                  ''preferred_address_id'']. node_prop g p k \<noteq> JNull]"

definition about_persons :: "graph \<Rightarrow> string \<Rightarrow> (string \<times> string) list" where
  "about_persons g cid =
     [(left, right). md \<leftarrow> decisions_of g cid, l \<leftarrow> targets g ABOUT_LEFT md, left \<leftarrow> person_ids_of l,
                     r \<leftarrow> targets g ABOUT_RIGHT md, right \<leftarrow> person_ids_of r]"

definition GET_PERSONS_FOR_REVIEW_MERGE :: "graph \<Rightarrow> string \<Rightarrow> (string \<times> string \<times> nat \<times> nat) option" where
  "GET_PERSONS_FOR_REVIEW_MERGE g cid =
     map_option (\<lambda>(left, right). (left, right, golden_completion g (PersonN left), golden_completion g (PersonN right)))
       (first_of (about_persons g cid))"

definition CREATE_NO_MATCH_LOCK_FROM_REVIEW :: "int \<Rightarrow> string \<Rightarrow> string \<Rightarrow> string \<Rightarrow> string \<Rightarrow> graph \<Rightarrow> graph" where
  "CREATE_NO_MATCH_LOCK_FROM_REVIEW now lock_id cid notes actor_id g =
     fold (\<lambda>(left, right). let (a, b) = (if left < right then (left, right) else (right, left))
         in create_edge \<lparr>e_type = NO_MATCH_LOCK, e_src = PersonN a, e_dst = PersonN b,
              e_props = json_sets [(''lock_id'', JStr lock_id), (''lock_type'', JStr ''manual_no_match''), (''reason'', JStr notes),
                (''actor_type'', JStr ''reviewer''), (''actor_id'', JStr actor_id), (''expires_at'', JNull), (''created_at'', JInt now)] []\<rparr>)
       (about_persons g cid) g"

section \<open>Held records\<close>

fun source_key_of :: "node \<Rightarrow> json" where
  "source_key_of (SourceSystemN k) = JStr k"
| "source_key_of _ = JNull"

definition pending_rows :: "graph \<Rightarrow> string \<Rightarrow> (node \<times> node \<times> node) list" where
  "pending_rows g cid =
     [(md, pending, source). md \<leftarrow> decisions_of g cid, pending \<leftarrow> targets g ABOUT_LEFT md,
        is_source_record pending \<and> node_prop g pending ''lifecycle_status'' = JStr ''pending_review'',
        source \<leftarrow> targets g FROM_SOURCE pending, source_key_of source \<noteq> JNull]"

definition not_a_sale :: "graph \<Rightarrow> node \<Rightarrow> bool" where
  "not_a_sale g sr = (node_prop g sr ''record_type'' \<notin> {JNull, JStr ''sales''})"

definition GET_PENDING_REVIEW_RECORD :: "(int \<Rightarrow> string) \<Rightarrow> graph \<Rightarrow> string \<Rightarrow> json_obj option" where
  "GET_PENDING_REVIEW_RECORD isof g cid = first_of
     [[(''pending_source_record_pk'', source_record_pk_of pending), (''source_record_id'', node_prop g pending ''source_record_id''),
       (''source_instance_id'', node_prop g pending ''source_instance_id''),
       (''source_entity_type'', node_prop g pending ''source_entity_type''),
       (''source_entity_id'', node_prop g pending ''source_entity_id''),
       (''identity_policy_version'', node_prop g pending ''identity_policy_version''),
       (''source_system_key'', source_key_of source), (''normalized_payload'', node_prop g pending ''normalized_payload''),
       (''expected_active_source_record_pk'', node_prop g pending ''expected_active_source_record_pk''),
       (''observed_at'', to_string isof (node_prop g pending ''observed_at'')),
       (''prior_person_ids'', JList (map JStr (remdups (concat (map person_ids_of (targets g LINKED_TO pending)))))),
       (''proposed_person_id'', js proposed),
       (''review_candidate_person_ids'', coalesce (node_prop g md ''review_candidate_person_ids'') (JList []))].
      (md, pending, source) \<leftarrow> pending_rows g cid, not_a_sale g pending,
      proposed \<leftarrow> optional [p. n \<leftarrow> targets g ABOUT_RIGHT md, active_person g n, p \<leftarrow> person_ids_of n]]"

text \<open>The link of a CRM record after the review; records without provenance have none.\<close>

definition pending_link_revision ::
    "json_obj \<Rightarrow> string \<Rightarrow> string \<Rightarrow> string \<Rightarrow> string option \<Rightarrow> string \<Rightarrow> string option \<Rightarrow> desired_revision option" where
  "pending_link_revision pending link_status kind cause_key match_decision_id cid person =
     (case map (\<lambda>k. json_str (json_get pending k)) [''source_system_key'', ''source_instance_id'', ''source_entity_type'',
             ''source_entity_id'', ''identity_policy_version'', ''observed_at''] of
        [Some source, Some inst, Some entity_type, Some entity_id, Some policy, Some effective_at] \<Rightarrow>
          if [] \<in> {source, inst, entity_type, entity_id, policy, effective_at} then None
          else let person = (if link_status = ''resolved'' then person else None)
               in if link_status = ''resolved'' \<and> person = None then None
                  else Some \<lparr>dr_source_system = source, dr_source_instance_id = inst, dr_source_entity_type = entity_type,
                             dr_source_entity_id = entity_id, dr_identity_policy_version = policy, dr_link_status = link_status,
                             dr_hyperp_person_id = person, dr_resolution_kind = kind, dr_effective_at = effective_at,
                             dr_cause_key = cause_key, dr_match_decision_id = match_decision_id, dr_review_case_id = Some cid\<rparr>
      | _ \<Rightarrow> None)"

definition append_pending_revision ::
    "(string \<Rightarrow> bool) \<Rightarrow> (nat \<Rightarrow> string) \<Rightarrow> desired_revision option \<Rightarrow> stream \<Rightarrow> stream result" where
  "append_pending_revision valid_iso uuid revision st =
     (case revision of None \<Rightarrow> ok st
      | Some r \<Rightarrow> try_bind (append_identity_link_revisions valid_iso uuid False [r] st) (\<lambda>(out, st). ok st))"

section \<open>Activating a held record\<close>

text \<open>The retirement of links that are still active, which keeps the first stamps.\<close>

definition retire_links :: "int \<Rightarrow> string \<Rightarrow> (edge \<Rightarrow> bool) \<Rightarrow> graph \<Rightarrow> graph" where
  "retire_links now cid P =
     set_edges (\<lambda>e. e_type e = LINKED_TO \<and> is_person (e_dst e) \<and> rel_active e \<and> P e)
       (\<lambda>d. [(''is_active'', JBool False), (''retired_at'', coalesce (json_get d ''retired_at'') (JInt now)),
             (''retired_by_review_case_id'', coalesce (json_get d ''retired_by_review_case_id'') (JStr cid)),
             (''updated_at'', JInt now)])"

definition activate_link :: "int \<Rightarrow> string \<Rightarrow> node \<Rightarrow> graph \<Rightarrow> graph result" where
  "activate_link now approved sr =
     merge_set LINKED_TO sr (PersonN approved) [(''is_active'', JBool True)] []
       (\<lambda>d. [(''linked_at'', coalesce (json_get d ''linked_at'') (JInt now)),
             (''activated_at'', coalesce (json_get d ''activated_at'') (JInt now)), (''retired_at'', JNull),
             (''updated_at'', JInt now)])"

definition active_version :: "graph \<Rightarrow> node \<Rightarrow> bool" where
  "active_version g sr =
     (node_prop g sr ''lifecycle_status'' = JStr ''active''
      \<or> node_prop g sr ''lifecycle_status'' = JNull \<and> node_prop g sr ''is_latest'' = JBool True)"

definition same_key :: "graph \<Rightarrow> node \<Rightarrow> node \<Rightarrow> string \<Rightarrow> bool" where
  "same_key g a b k = (node_prop g a k \<noteq> JNull \<and> node_prop g a k = node_prop g b k)"

definition old_versions :: "graph \<Rightarrow> node \<Rightarrow> node \<Rightarrow> node list" where
  "old_versions g pending source =
     [e_src f. f \<leftarrow> in_edges g FROM_SOURCE source,
        is_source_record (e_src f) \<and> e_src f \<noteq> pending \<and> same_key g (e_src f) pending ''source_instance_id''
        \<and> same_key g (e_src f) pending ''source_record_id'' \<and> active_version g (e_src f)]"

definition expected_versions :: "json \<Rightarrow> node list \<Rightarrow> bool" where
  "expected_versions expected olds =
     (expected = JNull \<and> olds = [] \<or> expected \<noteq> JNull \<and> length olds = 1 \<and> source_record_pk_of (hd olds) = expected)"

definition supersede_versions :: "int \<Rightarrow> node list \<Rightarrow> node \<Rightarrow> graph \<Rightarrow> graph result" where
  "supersede_versions now olds pending =
     fold_result (\<lambda>old g.
         merge_edge PREVIOUS_VERSION_OF old pending [] (\<lambda>d. d) (\<lambda>d. d)
           (set_node old (\<lambda>_. [(''lifecycle_status'', JStr ''superseded''), (''is_latest'', JBool False),
                               (''superseded_at'', JInt now), (''updated_at'', JInt now)]) g)) olds"

definition activate_record :: "int \<Rightarrow> node \<Rightarrow> graph \<Rightarrow> graph" where
  "activate_record now pending = set_node pending (\<lambda>_.
     [(''lifecycle_status'', JStr ''active''), (''is_latest'', JBool True), (''activated_at'', JInt now),
      (''updated_at'', JInt now), (''link_status'', JStr ''linked'')])"

text \<open>The calls that wait for the deal: through a history entry of the deal, whichever version it hangs on.\<close>

definition deal_calls :: "string list \<Rightarrow> graph \<Rightarrow> node \<Rightarrow> node \<Rightarrow> node list" where
  "deal_calls keys g pending source =
     remdups [call. deal \<leftarrow> map e_src (in_edges g FROM_SOURCE source),
        is_source_record deal \<and> node_prop g deal ''record_type'' = JStr ''crm_deal''
          \<and> node_prop g pending ''record_type'' = JStr ''crm_deal''
          \<and> list_all (same_key g deal pending) keys,
        entry \<leftarrow> map e_src (in_edges g CHILD_OF deal),
        is_source_record entry \<and> node_prop g entry ''record_type'' = JStr ''crm_history''
          \<and> node_prop g entry ''history_family'' \<in> {JNull, JStr ''activity''},
        call \<leftarrow> map e_src (in_edges g CHILD_OF entry),
        is_source_record call \<and> node_prop g call ''record_type'' = JStr ''call''
          \<and> node_prop g call ''lifecycle_status'' = JStr ''pending_review'']"

definition activate_calls :: "int \<Rightarrow> string \<Rightarrow> string \<Rightarrow> node list \<Rightarrow> graph \<Rightarrow> graph result" where
  "activate_calls now cid approved calls g =
     fold_result (\<lambda>call g. activate_link now approved call
         (set_node call (\<lambda>_. [(''lifecycle_status'', JStr ''active''), (''link_status'', JStr ''linked''),
                              (''activated_at'', JInt now), (''updated_at'', JInt now)]) g))
       calls (retire_links now cid (\<lambda>e. e_src e \<in> set calls) g)"

text \<open>The projections of the old versions are retired; their owners are affected.\<close>

definition carries :: "node list \<Rightarrow> edge \<Rightarrow> bool" where
  "carries olds e = (edge_prop e ''source_record_pk'' \<noteq> JNull \<and> edge_prop e ''source_record_pk'' \<in> source_record_pk_of ` set olds)"

definition owner_edges :: "node list \<Rightarrow> edge \<Rightarrow> bool" where
  "owner_edges olds e =
     (is_person (e_src e) \<and> carries olds e
      \<and> (e_type e \<in> {IDENTIFIED_BY, LIVES_AT} \<or> e_type e = HAS_FACT \<and> source_record_pk_of (e_dst e) = edge_prop e ''source_record_pk''))"

definition retired_owners :: "node list \<Rightarrow> graph \<Rightarrow> string list" where
  "retired_owners olds g =
     concat (map (person_ids_of \<circ> e_dst) [e \<leftarrow> g_edges g. e_type e = LINKED_TO \<and> e_src e \<in> set olds])
     @ concat (map (person_ids_of \<circ> e_src) [e \<leftarrow> g_edges g. owner_edges olds e])"

definition retire_projections :: "int \<Rightarrow> node list \<Rightarrow> graph \<Rightarrow> graph" where
  "retire_projections now olds g =
     (let inactive = (''is_active'', JBool False); updated = (''updated_at'', JInt now); retired = (''retired_at'', JInt now);
          g = set_edges (owner_edges olds) (\<lambda>_. [inactive, updated]) g;
          g = set_edges (\<lambda>e. e_type e = DESCRIBES_ADDRESS \<and> e_src e \<in> set olds) (\<lambda>_. [inactive, updated]) g;
          g = set_edges (\<lambda>e. e_type e = HAS_BANKRUPTCY_CASE \<and> carries olds e) (\<lambda>_. [inactive, retired, updated]) g;
          g = set_edges (\<lambda>e. e_type e = MENTIONS_VEHICLE \<and> e_src e \<in> set olds) (\<lambda>_. [inactive, retired, updated]) g
      in set_edges (\<lambda>e. e_type e = KNOWS \<and> carries olds e) (\<lambda>_. [inactive, retired, updated]) g)"

text \<open>The projections of the record. A node that \<open>MERGE\<close> creates takes its id from \<open>fresh\<close>.\<close>

text \<open>What a request reads from outside: the clock, the readers of date-times, drawn ids, the staging of sales.\<close>

record review_env =
  qe_now :: int
  qe_isof :: "int \<Rightarrow> string"
  qe_datetime :: "string \<Rightarrow> int option"
  qe_fromiso :: "string \<Rightarrow> iso_datetime option"
  qe_valid_iso :: "string \<Rightarrow> bool"
  qe_uuid :: "nat \<Rightarrow> string"
  qe_fresh :: "string \<Rightarrow> nat \<Rightarrow> string"
  qe_promote_sale :: "review_claim \<Rightarrow> string \<Rightarrow> string \<Rightarrow> graph \<Rightarrow> graph result"
  qe_reject_sale :: "review_claim \<Rightarrow> string \<Rightarrow> string \<Rightarrow> graph \<Rightarrow> graph result"

definition projection_stamps :: "int \<Rightarrow> json \<Rightarrow> json \<Rightarrow> json \<Rightarrow> json \<Rightarrow> json_obj \<Rightarrow> json_obj" where
  "projection_stamps now verified quality_flag key pk d =
     [(''is_active'', JBool True), (''is_verified'', verified), (''quality_flag'', quality_flag), (''source_system_key'', key),
      (''source_record_pk'', pk), (''last_seen_at'', JInt now), (''last_confirmed_at'', JInt now),
      (''activated_at'', coalesce (json_get d ''activated_at'') (JInt now)), (''retired_at'', JNull)]"

definition active_key :: "json \<Rightarrow> json \<Rightarrow> json_obj" where
  "active_key key pk = [(''source_system_key'', key), (''source_record_pk'', pk), (''is_active'', JBool True)]"

definition project_identifier :: "review_env \<Rightarrow> string \<Rightarrow> json \<Rightarrow> json \<Rightarrow> nat \<times> json_obj \<Rightarrow> graph \<Rightarrow> graph result" where
  "project_identifier env approved key pk = (\<lambda>(i, item) g.
     let ty = to_str (json_get item ''identifier_type''); v = to_str (json_get item ''normalized_value'');
         found = [n. (n, d) \<leftarrow> g_nodes g, identifier_matches ty v n];
         g = (if found = [] then create_node (IdentifierN ty [] v)
                [(''identifier_type'', JStr ty), (''normalized_value'', JStr v),
                 (''identifier_id'', JStr (qe_fresh env ''identifier'' i)), (''created_at'', JInt (qe_now env))] g else g)
     in fold_result (\<lambda>n. merge_set IDENTIFIED_BY (PersonN approved) n (active_key key pk) []
          (projection_stamps (qe_now env) (json_get item ''is_verified'') (json_get item ''quality_flag'') key pk))
          (if found = [] then [IdentifierN ty [] v] else found) g)"

definition ADDRESS_KEYS :: "string list" where
  "ADDRESS_KEYS = [''country_code'', ''postal_code'', ''street_name'', ''street_number'', ''unit_number'']"

definition project_address :: "review_env \<Rightarrow> string \<Rightarrow> node \<Rightarrow> json \<Rightarrow> json \<Rightarrow> nat \<times> json_obj \<Rightarrow> graph \<Rightarrow> graph result" where
  "project_address env approved pending key pk = (\<lambda>(i, item) g.
     let found = [n. (n, d) \<leftarrow> g_nodes g, is_address n \<and> list_all (\<lambda>k. json_get d k \<noteq> JNull \<and> json_get d k = json_get item k) ADDRESS_KEYS];
         aid = qe_fresh env ''address'' i;
         g = (if found = [] then create_node (AddressN aid)
                (map (\<lambda>k. (k, json_get item k)) ADDRESS_KEYS
                 @ [(''address_id'', JStr aid), (''normalized_full'', json_get item ''normalized_full''),
                    (''created_at'', JInt (qe_now env))]) g else g)
     in fold_result (\<lambda>n g.
          try_bind (merge_set LIVES_AT (PersonN approved) n (active_key key pk) []
              (projection_stamps (qe_now env) (JBool False) (json_get item ''quality_flag'') key pk) g) (\<lambda>g.
            merge_set DESCRIBES_ADDRESS pending n [] []
              (\<lambda>_. [(''is_active'', JBool True), (''source_system_key'', key), (''linked_at'', JInt (qe_now env))]) g))
          (if found = [] then [AddressN aid] else found) g)"

definition project_attribute :: "review_env \<Rightarrow> string \<Rightarrow> node \<Rightarrow> json \<Rightarrow> json \<Rightarrow> json_obj \<Rightarrow> graph \<Rightarrow> graph" where
  "project_attribute env approved pending pk observed_at item =
     create_edge \<lparr>e_type = HAS_FACT, e_src = PersonN approved, e_dst = pending,
       e_props = json_sets [(''attribute_name'', json_get item ''attribute_name''), (''attribute_value'', json_get item ''attribute_value''),
         (''source_record_pk'', pk), (''source_trust_tier'', JStr ''tier_3''), (''confidence'', JFloat 1),
         (''quality_flag'', json_get item ''quality_flag''), (''is_active'', JBool True), (''is_current_hint'', JBool False),
         (''observed_at'', observed_at), (''created_at'', JInt (qe_now env))] []\<rparr>"

definition optional_datetime :: "(string \<Rightarrow> int option) \<Rightarrow> json \<Rightarrow> json result" where
  "optional_datetime datetime v = (if v = JNull then ok JNull else cypher_datetime datetime (to_str v))"

definition project_bankruptcy :: "review_env \<Rightarrow> string \<Rightarrow> node \<Rightarrow> json \<Rightarrow> nat \<times> json_obj \<Rightarrow> graph \<Rightarrow> graph result" where
  "project_bankruptcy env approved pending pk = (\<lambda>(i, item) g.
     let case_node = BankruptcyCaseN (to_str (json_get item ''source_system_key'')) (to_str (json_get item ''source_case_id''));
         now = JInt (qe_now env);
         g = (if has_node g case_node then g else create_node case_node
                [(''source_system_key'', json_get item ''source_system_key''), (''source_case_id'', json_get item ''source_case_id''),
                 (''bankruptcy_case_id'', JStr (qe_fresh env ''bankruptcy_case'' i)), (''created_at'', now)] g)
     in try_bind (optional_datetime (qe_datetime env) (json_get item ''first_seen_at'')) (\<lambda>first.
        try_bind (optional_datetime (qe_datetime env) (json_get item ''last_seen_at'')) (\<lambda>last.
        try_bind (cypher_datetime (qe_datetime env) (to_str (json_get item ''observed_at''))) (\<lambda>observed_at.
        try_bind (merge_set HAS_BANKRUPTCY_CASE (PersonN approved) case_node
            [(''source_system_key'', json_get item ''source_system_key''), (''source_record_pk'', pk)] []
            (\<lambda>d. [(''source_record_pk'', pk), (''is_active'', JBool True), (''observed_at'', observed_at), (''last_seen_at'', now),
                  (''activated_at'', coalesce (json_get d ''activated_at'') now), (''retired_at'', JNull)])
            (set_node case_node (\<lambda>_.
               map (\<lambda>k. (k, json_get item k)) [''case_number'', ''document_type'', ''document_date'', ''event_type'', ''event_date'',
                  ''trustee_name'', ''trustee_firm'', ''source_url'']
               @ [(''first_seen_at'', first), (''last_seen_at'', last), (''raw_payload'', json_get item ''raw_payload''), (''updated_at'', now)]) g)) (\<lambda>g.
          merge_edge DESCRIBES_CASE pending case_node [] (\<lambda>d. d) (\<lambda>d. d) g)))))"

definition lower_trim :: "json \<Rightarrow> string" where
  "lower_trim v = py_lower (py_strip (to_str v))"

definition mentioned_by :: "json_obj \<Rightarrow> json_obj \<Rightarrow> bool" where
  "mentioned_by item d =
     (let tag = json_get item ''normalized_lta_tag''; serial = json_get item ''normalized_serial_number'';
          product = json_get item ''product''
      in tag \<noteq> JNull \<and> json_get d ''normalized_lta_tag'' = tag
         \<or> tag = JNull \<and> serial \<noteq> JNull \<and> product \<noteq> JNull \<and> json_get d ''normalized_serial_number'' = serial
            \<and> json_get d ''product'' \<noteq> JNull \<and> lower_trim (json_get d ''product'') = lower_trim product)"

text \<open>A mention that fits several vehicles, or none, is dropped.\<close>

definition project_mention :: "review_env \<Rightarrow> node \<Rightarrow> json \<Rightarrow> json_obj \<Rightarrow> graph \<Rightarrow> graph result" where
  "project_mention env pending pk item g =
     (case remdups [v. (v, d) \<leftarrow> g_nodes g, is_vehicle v \<and> mentioned_by item d] of
        [vehicle] \<Rightarrow> merge_set MENTIONS_VEHICLE pending vehicle [(''is_active'', JBool True)] []
          (\<lambda>d. [(''source_system_key'', json_get item ''source_system_key''), (''source_record_id'', json_get item ''source_record_id''),
                (''raw_context'', json_get item ''raw_context''), (''source_record_pk'', pk), (''observed_at'', json_get item ''observed_at''),
                (''confidence'', json_get item ''confidence''), (''quality_flag'', json_get item ''quality_flag''),
                (''is_active'', JBool True), (''activated_at'', coalesce (json_get d ''activated_at'') (JInt (qe_now env))),
                (''retired_at'', JNull), (''last_seen_at'', JInt (qe_now env)), (''updated_at'', JInt (qe_now env))]) g
      | _ \<Rightarrow> ok g)"

text \<open>The rows of the pattern that leads from the declarer's record to an active person.\<close>

definition declarers :: "graph \<Rightarrow> json_obj \<Rightarrow> string list" where
  "declarers g item =
     [p. (sr, d) \<leftarrow> g_nodes g, is_source_record sr \<and> json_get d ''source_record_id'' = json_get item ''declarer_source_record_id''
           \<and> active_version g sr,
         source \<leftarrow> targets g FROM_SOURCE sr, source_key_of source = json_get item ''declarer_source_system_key'',
         link \<leftarrow> out_edges g LINKED_TO sr, rel_active link \<and> active_person g (e_dst link), p \<leftarrow> person_ids_of (e_dst link)]"

definition project_relationship ::
    "review_env \<Rightarrow> string \<Rightarrow> json \<Rightarrow> nat \<times> json_obj \<Rightarrow> graph \<times> nat \<Rightarrow> (graph \<times> nat) result" where
  "project_relationship env approved pk = (\<lambda>(i, item) (g, count).
     let now = JInt (qe_now env); rows = declarers g item
     in try_bind (fold_result (\<lambda>declarer. merge_set KNOWS (PersonN declarer) (PersonN approved)
            (active_key (json_get item ''source_system_key'') pk)
            [(''knows_id'', JStr (qe_fresh env ''knows'' i)), (''first_seen_at'', now), (''created_at'', now)]
            (\<lambda>d. [(''relationship_label'', json_get item ''relationship_label''),
                  (''relationship_category'', json_get item ''relationship_category''),
                  (''declared_by_person_id'', JStr declarer), (''status'', json_get item ''status''),
                  (''approved_at'', json_get item ''approved_at''), (''is_active'', JBool True),
                  (''activated_at'', coalesce (json_get d ''activated_at'') now), (''retired_at'', JNull), (''last_seen_at'', now),
                  (''last_confirmed_at'', now), (''updated_at'', now)])) [p \<leftarrow> rows. p \<noteq> approved] g) (\<lambda>g.
          ok (g, count + length rows)))"

definition project_record ::
    "review_env \<Rightarrow> approval \<Rightarrow> string \<Rightarrow> node \<Rightarrow> graph \<Rightarrow> (graph \<times> nat) result" where
  "project_record env ap approved pending g =
     (let key = JStr (ap_source_system_key ap); pk = JStr (ap_source_record_pk ap); pj = ap_projection ap
      in try_bind (fold_result (project_identifier env approved key pk) (enumerate 0 (pj_identifiers pj)) g) (\<lambda>g.
         try_bind (fold_result (project_address env approved pending key pk) (enumerate 0 (pj_addresses pj)) g) (\<lambda>g.
         try_bind (if pj_attributes pj = [] then ok JNull else cypher_datetime (qe_datetime env) (ap_observed_at ap)) (\<lambda>observed_at.
         let g = fold (project_attribute env approved pending pk observed_at) (pj_attributes pj) g
         in try_bind (fold_result (project_bankruptcy env approved pending pk) (enumerate 0 (pj_bankruptcy_cases pj)) g) (\<lambda>g.
            try_bind (fold_result (project_mention env pending pk) (pj_vehicle_mentions pj) g) (\<lambda>g.
            fold_result (project_relationship env approved pk) (enumerate 0 (pj_knows_relationships pj)) (g, 0)))))))"

definition null_merge :: "'a result" where
  "null_merge = raise (ValueError ''Cannot merge node using null property value'')"

text \<open>The lock of the identity is a node keyed by source, instance and record id.\<close>

definition lockable_identity :: "graph \<Rightarrow> node \<Rightarrow> bool" where
  "lockable_identity g sr = (node_prop g sr ''source_instance_id'' \<noteq> JNull \<and> node_prop g sr ''source_record_id'' \<noteq> JNull)"

definition approvable :: "graph \<Rightarrow> node \<Rightarrow> string \<Rightarrow> bool" where
  "approvable g md approved =
     (active_person g (PersonN approved)
      \<and> ((case node_prop g md ''review_candidate_person_ids'' of JList vs \<Rightarrow> JStr approved \<in> set vs | _ \<Rightarrow> False)
         \<or> PersonN approved \<in> set (targets g ABOUT_RIGHT md)))"

definition activation_rows :: "graph \<Rightarrow> string \<Rightarrow> approval \<Rightarrow> string \<Rightarrow> (node \<times> node \<times> node) list" where
  "activation_rows g cid ap approved =
     [(md, pending, source) \<leftarrow> pending_rows g cid.
        pending = SourceRecordN (ap_source_record_pk ap) \<and> source = SourceSystemN (ap_source_system_key ap) \<and> approvable g md approved]"

text \<open>The part that replaces the old version by the record and links it to the approved person.\<close>

definition replace_versions ::
    "int \<Rightarrow> string \<Rightarrow> string \<Rightarrow> node \<Rightarrow> node \<Rightarrow> node list \<Rightarrow> graph \<Rightarrow> graph result" where
  "replace_versions now cid approved pending source olds g =
     try_bind (supersede_versions now olds pending g) (\<lambda>g.
     let g = retire_links now cid (\<lambda>e. e_src e = pending)
               (activate_record now pending (retire_links now cid (\<lambda>e. e_src e \<in> set olds) g))
     in try_bind (activate_link now approved pending g) (\<lambda>g.
        activate_calls now cid approved (deal_calls [''source_instance_id'', ''source_record_id''] g pending source) g))"

definition changed_acquaintances :: "node list \<Rightarrow> graph \<Rightarrow> string list" where
  "changed_acquaintances versions g =
     remdups (concat (map (\<lambda>e. if is_person (e_src e) \<and> is_person (e_dst e) then person_ids_of (e_src e) @ person_ids_of (e_dst e) else [])
       [e \<leftarrow> g_edges g. e_type e = KNOWS \<and> carries versions e]))"

definition ACTIVATE_PENDING_REVIEW_RECORD ::
    "review_env \<Rightarrow> string \<Rightarrow> approval \<Rightarrow> string \<Rightarrow> graph \<Rightarrow> (graph \<times> string list) option result" where
  "ACTIVATE_PENDING_REVIEW_RECORD env cid ap approved g =
     (case activation_rows g cid ap approved of
        [] \<Rightarrow> ok None
      | (md, pending, source) # _ \<Rightarrow>
          if \<not> lockable_identity g pending then null_merge
          else
            let olds = old_versions g pending source; expected = node_prop g pending ''expected_active_source_record_pk'';
                priors = concat (map person_ids_of (targets g LINKED_TO pending)); now = qe_now env
            in if expected \<noteq> js (ap_expected_active_pk ap) \<or> \<not> expected_versions expected olds then ok None
               else try_bind (replace_versions now cid approved pending source olds g) (\<lambda>g.
                 let owners = retired_owners olds g
                 in try_bind (project_record env ap approved pending (retire_projections now olds g)) (\<lambda>(g, count).
                      if count \<noteq> length (pj_knows_relationships (ap_projection ap)) then ok None
                      else let affected = owners @ priors @ [approved] @ changed_acquaintances (pending # olds) g
                           in ok (Some (fold (mark_dirty now) [p \<leftarrow> remdups affected. active_person g (PersonN p)] g, affected)))))"

section \<open>Resolving a held record without a person\<close>

definition unlink_versions :: "int \<Rightarrow> node list \<Rightarrow> node \<Rightarrow> graph \<Rightarrow> graph" where
  "unlink_versions now olds pending g =
     (let retired = [(''is_active'', JBool False), (''retired_at'', JInt now), (''updated_at'', JInt now)];
          g = g\<lparr>g_edges := [e \<leftarrow> g_edges g. \<not> (e_type e = LINKED_TO \<and> e_src e \<in> set olds \<and> is_person (e_dst e))]\<rparr>;
          g = set_edges (\<lambda>e. is_person (e_src e) \<and> e_type e \<in> {IDENTIFIED_BY, LIVES_AT, HAS_FACT} \<and> carries olds e) (\<lambda>_. retired) g;
          g = set_edges (\<lambda>e. e_type e \<in> {DESCRIBES_ADDRESS, MENTIONS_VEHICLE} \<and> e_src e \<in> set olds) (\<lambda>_. retired) g;
          g = set_edges (\<lambda>e. e_type e = KNOWS \<and> carries olds e) (\<lambda>_. retired) g
      in g\<lparr>g_edges := [e \<leftarrow> g_edges g. \<not> (e_type e = LINKED_TO \<and> e_src e = pending \<and> is_person (e_dst e))]\<rparr>)"

text \<open>Versions that have no lifecycle status yet are not looked for.\<close>

definition RESOLVE_PENDING_REVIEW_RECORD_NO_MATCH :: "int \<Rightarrow> string \<Rightarrow> graph \<Rightarrow> (graph \<times> json) option result" where
  "RESOLVE_PENDING_REVIEW_RECORD_NO_MATCH now cid g =
     (case [(md, pending, source) \<leftarrow> pending_rows g cid. not_a_sale g pending] of
        [] \<Rightarrow> ok None
      | (md, pending, source) # _ \<Rightarrow>
          if \<not> lockable_identity g pending then null_merge
          else
            let olds = [old \<leftarrow> old_versions g pending source. node_prop g old ''lifecycle_status'' = JStr ''active'']
            in if \<not> expected_versions (node_prop g pending ''expected_active_source_record_pk'') olds then ok None
               else try_bind (supersede_versions now olds pending (unlink_versions now olds pending g)) (\<lambda>g.
                      ok (Some (set_node pending (\<lambda>_.
                        [(''lifecycle_status'', JStr ''active''), (''is_latest'', JBool True), (''link_status'', JStr ''unresolved''),
                         (''activated_at'', JInt now), (''updated_at'', JInt now)]) g, source_record_pk_of pending))))"

definition rejected_props :: "int \<Rightarrow> string \<Rightarrow> json_obj" where
  "rejected_props now reason =
     [(''lifecycle_status'', JStr ''rejected''), (''is_latest'', JBool False), (''rejection_reason'', JStr reason),
      (''rejected_at'', JInt now), (''resolved_at'', JInt now), (''updated_at'', JInt now)]"

text \<open>The calls of the deal are looked up by its record id only, whatever its instance.\<close>

definition REJECT_PENDING_REVIEW_RECORD :: "int \<Rightarrow> string \<Rightarrow> string \<Rightarrow> graph \<Rightarrow> graph \<times> bool" where
  "REJECT_PENDING_REVIEW_RECORD now cid reason g =
     (case pending_rows g cid of
        [] \<Rightarrow> (g, False)
      | (md, pending, source) # _ \<Rightarrow>
          (let g = set_node pending (\<lambda>_. rejected_props now reason) g;
               calls = deal_calls [''source_record_id''] g pending source;
               g = g\<lparr>g_edges := [e \<leftarrow> g_edges g. \<not> (e_type e = LINKED_TO \<and> e_src e \<in> set calls \<and> is_person (e_dst e))]\<rparr>
           in (fold (\<lambda>call. set_node call (\<lambda>_. rejected_props now reason @ [(''link_status'', JStr ''unresolved'')])) calls g, True)))"

section \<open>Sales\<close>

definition review_sales :: "graph \<Rightarrow> string \<Rightarrow> (node \<times> node) list" where
  "review_sales g cid =
     [(md, sr). md \<leftarrow> decisions_of g cid, sr \<leftarrow> targets g ABOUT_LEFT md,
        is_source_record sr \<and> node_prop g sr ''record_type'' = JStr ''sales'']"

definition review_sales_persons :: "graph \<Rightarrow> string \<Rightarrow> (node \<times> node) list" where
  "review_sales_persons g cid =
     [(sr, p). (md, sr) \<leftarrow> review_sales g cid, p \<leftarrow> targets g ABOUT_RIGHT md, is_person p \<and> active_person g p]"

definition GET_REVIEW_SALES_RECORD :: "graph \<Rightarrow> string \<Rightarrow> (json \<times> bool) option" where
  "GET_REVIEW_SALES_RECORD g cid =
     map_option (\<lambda>(md, sr). (node_prop g sr ''lifecycle_status'', json_truthy (coalesce (node_prop g sr ''staged_sales_ready'') (JBool False))))
       (first_of (review_sales g cid))"

definition sold_vehicles :: "graph \<Rightarrow> string \<Rightarrow> (node \<times> node \<times> node \<times> node) list" where
  "sold_vehicles g cid =
     [(sr, p, e_src e, e_dst e). (sr, p) \<leftarrow> review_sales_persons g cid, e \<leftarrow> g_edges g,
        e_type e = INVOLVES_VEHICLE \<and> is_order (e_src e) \<and> is_vehicle (e_dst e)
        \<and> edge_prop e ''source_record_pk'' = source_record_pk_of sr]"

definition order_key :: "graph \<Rightarrow> node \<Rightarrow> json_obj" where
  "order_key g order =
     [(''source_system_key'', node_prop g order ''source_system_key''), (''source_order_id'', node_prop g order ''source_order_id'')]"

text \<open>Relationships without \<open>is_active\<close> are made explicit before the \<open>MERGE\<close> on the active one.\<close>

definition link_sale ::
    "int \<Rightarrow> rel_type \<Rightarrow> json_obj \<Rightarrow> (node \<times> node \<times> node \<times> node) list \<Rightarrow> graph \<Rightarrow> graph result" where
  "link_sale now t extra rows g =
     (let legacy = (\<lambda>g e. list_ex (\<lambda>(sr, p, order, target). edge_between t p target e \<and> has_props (order_key g order) e) rows
                          \<and> edge_prop e ''is_active'' = JNull);
          g = set_edges (legacy g) (\<lambda>d. [(''is_active'', JBool True),
                (''activated_at'', coalesce (json_get d ''activated_at'') (JInt now)), (''retired_at'', JNull)]) g
      in fold_result (\<lambda>(sr, p, order, target) g.
           merge_set t p target (order_key g order @ [(''is_active'', JBool True)])
             [(''first_seen_at'', JInt now), (''created_at'', JInt now)]
             (\<lambda>d. [(''source_record_pk'', source_record_pk_of sr), (''last_seen_at'', JInt now), (''last_confirmed_at'', JInt now)] @ extra
                  @ [(''is_active'', JBool True), (''activated_at'', coalesce (json_get d ''activated_at'') (JInt now)),
                     (''retired_at'', JNull)]) g) rows g)"

definition LINK_REVIEW_SALES_PURCHASED_ORDER :: "int \<Rightarrow> string \<Rightarrow> graph \<Rightarrow> graph result" where
  "LINK_REVIEW_SALES_PURCHASED_ORDER now cid g =
     link_sale now PURCHASED [] (remdups [(sr, p, order, order). (sr, p, order, vehicle) \<leftarrow> sold_vehicles g cid]) g"

definition LINK_REVIEW_SALES_BOUGHT_VEHICLE :: "int \<Rightarrow> string \<Rightarrow> graph \<Rightarrow> graph result" where
  "LINK_REVIEW_SALES_BOUGHT_VEHICLE now cid g =
     link_sale now BOUGHT_VEHICLE [(''updated_at'', JInt now)] (sold_vehicles g cid) g"

definition MARK_REVIEW_SALES_RECORD_LINKED :: "int \<Rightarrow> string \<Rightarrow> graph \<Rightarrow> graph \<times> bool" where
  "MARK_REVIEW_SALES_RECORD_LINKED now cid g =
     (let rows = review_sales_persons g cid
      in (fold (\<lambda>(sr, p) g. fold (mark_dirty now) (person_ids_of p)
            (set_node sr (\<lambda>_. [(''link_status'', JStr ''linked''), (''updated_at'', JInt now)]) g)) rows g, rows \<noteq> []))"

definition MARK_REVIEW_SALES_RECORD_UNRESOLVED :: "int \<Rightarrow> string \<Rightarrow> graph \<Rightarrow> graph" where
  "MARK_REVIEW_SALES_RECORD_UNRESOLVED now cid g =
     fold (\<lambda>(md, sr). set_node sr (\<lambda>_. [(''link_status'', JStr ''unresolved''), (''updated_at'', JInt now)])) (review_sales g cid) g"

section \<open>Actions\<close>

datatype review_outcome =
    ReviewNotFound | ReviewBlocked | NotApplicable
  | Acted (acted_case: string) (acted_state: string) (acted_resolution: "string option")
      (acted_redirected: "string list") (acted_survivor: "string option")

definition resolve_action :: "string \<Rightarrow> string \<times> string option" where
  "resolve_action action_type =
     (if action_type = ''merge'' then (''resolved'', Some ''merge'')
      else if action_type = ''reject'' then (''resolved'', Some ''reject'')
      else if action_type = ''manual_no_match'' then (''resolved'', Some ''manual_no_match'')
      else if action_type = ''defer'' then (''deferred'', None)
      else if action_type = ''escalate'' then (''assigned'', None)
      else (''open'', None))"

definition review_abort :: "string \<Rightarrow> 'a result" where
  "review_abort message = raise (ReviewResolutionAbortError message)"

definition acted :: "graph \<Rightarrow> string \<Rightarrow> string list \<Rightarrow> string option \<Rightarrow> review_outcome" where
  "acted g cid = Acted (to_str (case_prop g cid ''review_case_id'')) (to_str (case_prop g cid ''queue_state''))
     (to_optional_str (case_prop g cid ''resolution''))"

definition reviewer_entry :: "review_env \<Rightarrow> review_action \<Rightarrow> string" where
  "reviewer_entry env a = action_entry_json (qe_isof env) (qe_now env) (ra_type a) ''reviewer'' (ra_actor a) (ra_notes a)"

definition take_claim :: "review_env \<Rightarrow> review_action \<Rightarrow> graph \<Rightarrow> (graph \<times> review_claim option) result" where
  "take_claim env a = claim_review_action (qe_now env) (qe_fresh env ''claim'' 0) (ra_case a) (ra_actor a)"

text \<open>An action that needs the claim does not apply without it; a statement without a row aborts the rest.\<close>

definition with_claim ::
    "review_env \<Rightarrow> review_action \<Rightarrow> graph \<Rightarrow> (graph \<Rightarrow> 'r) \<Rightarrow> (graph \<Rightarrow> review_claim \<Rightarrow> 'r result) \<Rightarrow> 'r result" where
  "with_claim env a g unclaimed act =
     try_bind (take_claim env a g) (\<lambda>(g, claim). case claim of None \<Rightarrow> ok (unclaimed g) | Some claim \<Rightarrow> act g claim)"

definition row_or_abort :: "'a option result \<Rightarrow> string \<Rightarrow> ('a \<Rightarrow> 'r result) \<Rightarrow> 'r result" where
  "row_or_abort row lost act = try_bind row (\<lambda>r. case r of None \<Rightarrow> review_abort lost | Some v \<Rightarrow> act v)"

definition close_claimed :: "review_env \<Rightarrow> review_claim \<Rightarrow> review_action \<Rightarrow> string \<Rightarrow> graph \<Rightarrow> graph result" where
  "close_claimed env claim a lost g =
     try_bind (build_claimed_review_action_cypher (qe_datetime env) (qe_now env) claim a (reviewer_entry env a) g) (\<lambda>(g, closed).
       if closed then ok g else review_abort lost)"

definition sales_link_merge_tx :: "review_env \<Rightarrow> review_action \<Rightarrow> graph \<Rightarrow> (review_outcome \<times> graph) result" where
  "sales_link_merge_tx env a g =
     (case GET_REVIEW_SALES_RECORD g (ra_case a) of
        None \<Rightarrow> ok (NotApplicable, g)
      | Some (status, staged_ready) \<Rightarrow>
          with_claim env a g (\<lambda>g. (NotApplicable, g)) (\<lambda>g claim.
                try_bind (if status = JStr ''pending_review''
                    then if \<not> staged_ready then review_abort ''pending sales review has no complete staging graph''
                         else try_bind (qe_promote_sale env claim (ra_case a) (ra_actor a) g) (\<lambda>g. ok (g, True))
                    else try_bind (LINK_REVIEW_SALES_PURCHASED_ORDER (qe_now env) (ra_case a) g) (\<lambda>g.
                         try_bind (LINK_REVIEW_SALES_BOUGHT_VEHICLE (qe_now env) (ra_case a) g) (\<lambda>g.
                           ok (MARK_REVIEW_SALES_RECORD_LINKED (qe_now env) (ra_case a) g)))) (\<lambda>(g, linked).
                  if \<not> linked then ok (NotApplicable, g)
                  else try_bind (close_claimed env claim a ''review close lost after sales activation'' g) (\<lambda>g.
                         ok (acted g (ra_case a) [] None, g)))))"

definition refresh_persons :: "review_env \<Rightarrow> string list \<Rightarrow> graph \<Rightarrow> graph" where
  "refresh_persons env affected g =
     (let ids = sorted_set affected
      in fold (\<lambda>(i, p) g. fst (recompute_golden_profile_tx (qe_isof env) (qe_now env) (qe_fresh env ''audit'' i) p False g))
           (enumerate 0 ids) (recompute_person_crm_deal_counts (qe_now env) ids g))"

definition pending_record_merge_tx ::
    "review_env \<Rightarrow> review_action \<Rightarrow> json_obj \<Rightarrow> graph \<times> stream \<Rightarrow> (review_outcome \<times> graph \<times> stream) result" where
  "pending_record_merge_tx env a row = (\<lambda>(g, st).
     case approval_arguments (qe_fromiso env) row of
       Inl e \<Rightarrow> ok (NotApplicable, g, st)
     | Inr ap \<Rightarrow>
         (case approved_person ap (ra_survivor a) of
            None \<Rightarrow> ok (NotApplicable, g, st)
          | Some approved \<Rightarrow>
              with_claim env a g (\<lambda>g. (NotApplicable, g, st)) (\<lambda>g claim.
                row_or_abort (ACTIVATE_PENDING_REVIEW_RECORD env (ra_case a) ap approved g)
                    ''pending activation lost after review claim'' (\<lambda>(g, affected).
                          try_bind (optional_str_value row ''match_decision_id'') (\<lambda>decision.
                          try_bind (append_pending_revision (qe_valid_iso env) (qe_uuid env)
                              (pending_link_revision row ''resolved'' ''reviewed_activation''
                                 (''reviewed-activation:'' @ ra_case a @ '':'' @ ap_source_record_pk ap) decision (ra_case a)
                                 (Some approved)) st) (\<lambda>st.
                          try_bind (close_claimed env claim a ''review close lost after lifecycle activation''
                              (refresh_persons env affected g)) (\<lambda>g.
                            ok (acted g (ra_case a) [] None, g, st))))))))"

text \<open>
  The first half of a rejection and of a manual no-match, on the record the case is about. Nothing is
  the answer that the action does not apply; no claim means that the case has no such record.
\<close>

definition resolve_no_match ::
    "review_env \<Rightarrow> review_action \<Rightarrow> graph \<times> stream \<Rightarrow> (review_claim option option \<times> graph \<times> stream) result" where
  "resolve_no_match env a = (\<lambda>(g, st).
     case GET_PENDING_REVIEW_RECORD (qe_isof env) g (ra_case a) of
       None \<Rightarrow> ok (Some None, g, st)
     | Some row \<Rightarrow>
         with_claim env a g (\<lambda>g. (None, g, st)) (\<lambda>g claim.
           row_or_abort (RESOLVE_PENDING_REVIEW_RECORD_NO_MATCH (qe_now env) (ra_case a) g)
               ''pending source no-match lost after review claim'' (\<lambda>(g, pk).
                     try_bind (append_pending_revision (qe_valid_iso env) (qe_uuid env)
                         (pending_link_revision row ''unresolved'' ''manual_no_match''
                            (''manual-no-match:'' @ ra_case a @ '':'' @ to_str pk) None (ra_case a) None) st) (\<lambda>st.
                       ok (Some (Some claim), g, st)))))"

definition resolve_reject ::
    "review_env \<Rightarrow> review_action \<Rightarrow> graph \<times> stream \<Rightarrow> (review_claim option option \<times> graph \<times> stream) result" where
  "resolve_reject env a = (\<lambda>(g, st).
     let reason = (if truthy (ra_notes a) then or_empty (ra_notes a) else ''Rejected by reviewer'')
     in case GET_PENDING_REVIEW_RECORD (qe_isof env) g (ra_case a) of
          Some row \<Rightarrow>
            with_claim env a g (\<lambda>g. (None, g, st)) (\<lambda>g claim.
                  (let (g, rejected) = REJECT_PENDING_REVIEW_RECORD (qe_now env) (ra_case a) reason g
                   in if \<not> rejected then review_abort ''pending rejection lost after review claim''
                      else try_bind (append_pending_revision (qe_valid_iso env) (qe_uuid env)
                             (pending_link_revision row ''rejected'' ''review_rejection'' (''review-rejection:'' @ ra_case a)
                                None (ra_case a) None) st) (\<lambda>st.
                           ok (Some (Some claim), g, st))))
        | None \<Rightarrow>
            (case GET_REVIEW_SALES_RECORD g (ra_case a) of
               None \<Rightarrow> ok (Some None, g, st)
             | Some (status, staged_ready) \<Rightarrow>
                 with_claim env a g (\<lambda>g. (None, g, st)) (\<lambda>g claim.
                       try_bind (if status = JStr ''pending_review'' then qe_reject_sale env claim (ra_case a) (ra_actor a) g
                                 else ok (MARK_REVIEW_SALES_RECORD_UNRESOLVED (qe_now env) (ra_case a) g)) (\<lambda>g.
                         ok (Some (Some claim), g, st)))))"

text \<open>The survivor of a pair: the one asked for, else the fuller profile, the left one on a tie.\<close>

definition review_survivor :: "string option \<Rightarrow> string \<times> string \<times> nat \<times> nat \<Rightarrow> (string \<times> string) option" where
  "review_survivor wanted = (\<lambda>(left, right, left_score, right_score).
     if wanted = Some right then Some (right, left)
     else if wanted = Some left then Some (left, right)
     else if wanted = None then Some (if left_score < right_score then (right, left) else (left, right))
     else None)"

definition review_merge_tx ::
    "review_env \<Rightarrow> review_action \<Rightarrow> string \<times> string \<times> nat \<times> nat \<Rightarrow> graph \<times> stream
     \<Rightarrow> (review_outcome \<times> graph \<times> stream) result" where
  "review_merge_tx env a persons = (\<lambda>(g, st).
     case review_survivor (ra_survivor a) persons of
       None \<Rightarrow> ok (NotApplicable, g, st)
     | Some (survivor, absorbed) \<Rightarrow>
         if \<not> CHECK_BOTH_PERSONS_ACTIVE g absorbed survivor then ok (NotApplicable, g, st)
         else
           let (left, right) = ordered_pair absorbed survivor; now = qe_now env; me = qe_fresh env ''merge_event'' 0
           in if CHECK_NO_MATCH_LOCK g now left right then ok (ReviewBlocked, g, st)
              else try_bind (build_review_action_cypher (qe_datetime env) now a (reviewer_entry env a) g) (\<lambda>(g, closed).
                if \<not> closed then ok (ReviewNotFound, g, st)
                else if absorbed = [] \<or> survivor = [] then ok (acted g (ra_case a) [] None, g, st)
                else
                  let out = acted g (ra_case a)
                  in try_bind (EXECUTE_MANUAL_MERGE now me absorbed survivor left right
                         (if truthy (ra_notes a) then or_empty (ra_notes a) else ''Review merge'') (ra_actor a) g) (\<lambda>(g, merged).
                       if \<not> merged then review_abort ''person merge lost after review close''
                       else
                         let (g, redirected) = apply_merge_review_side_effects now me absorbed survivor
                               (recompute_person_crm_deal_counts now [absorbed, survivor] g)
                         in try_bind (append_merge_affected_revisions (qe_valid_iso env) (qe_uuid env) g me absorbed (Some survivor)
                                ''person_merge'' (''person-merge:'' @ me) (qe_isof env now) st) (\<lambda>(appended, st).
                              let g = fst (recompute_golden_profile_tx (qe_isof env) now (qe_fresh env ''audit'' 0) survivor False g);
                                  g = (if ra_selections a = [] then g
                                       else apply_golden_profile_selections_tx now survivor (ra_selections a) g)
                              in ok (out redirected (Some survivor), g, st)))))"

definition close_resolved ::
    "review_env \<Rightarrow> review_action \<Rightarrow> review_claim option \<Rightarrow> graph \<Rightarrow> (review_outcome \<times> graph) result" where
  "close_resolved env a claim g =
     (case claim of
        Some claim \<Rightarrow>
          try_bind (close_claimed env claim a ''review close lost after lifecycle rejection'' g) (\<lambda>g. ok (acted g (ra_case a) [] None, g))
      | None \<Rightarrow>
          try_bind (build_review_action_cypher (qe_datetime env) (qe_now env) a (reviewer_entry env a) g) (\<lambda>(g, closed).
            if \<not> closed then ok (ReviewNotFound, g)
            else
              let out = acted g (ra_case a) [] None;
                  g = (if ra_type a = ''manual_no_match''
                       then CREATE_NO_MATCH_LOCK_FROM_REVIEW (qe_now env) (qe_fresh env ''lock'' 0) (ra_case a)
                              (if truthy (ra_notes a) then or_empty (ra_notes a) else ''Manual no-match from review'') (ra_actor a) g
                       else g)
              in ok (out, if ra_type a \<in> {''manual_no_match'', ''reject''}
                          then MARK_REVIEW_SALES_RECORD_UNRESOLVED (qe_now env) (ra_case a) g else g)))"

definition action_tx :: "review_env \<Rightarrow> review_action \<Rightarrow> graph \<times> stream \<Rightarrow> (review_outcome \<times> graph \<times> stream) result" where
  "action_tx env a = (\<lambda>(g, st).
     if ra_type a = ''merge''
     then (case GET_PERSONS_FOR_REVIEW_MERGE g (ra_case a) of
             Some persons \<Rightarrow> review_merge_tx env a persons (g, st)
           | None \<Rightarrow>
               (case GET_PENDING_REVIEW_RECORD (qe_isof env) g (ra_case a) of
                  Some row \<Rightarrow> pending_record_merge_tx env a row (g, st)
                | None \<Rightarrow> try_bind (sales_link_merge_tx env a g) (\<lambda>(out, g). ok (out, g, st))))
     else try_bind (if ra_type a = ''manual_no_match'' then resolve_no_match env a (g, st)
                    else if ra_type a = ''reject'' then resolve_reject env a (g, st)
                    else ok (Some None, g, st)) (\<lambda>(resolved, g, st).
            case resolved of
              None \<Rightarrow> ok (NotApplicable, g, st)
            | Some claim \<Rightarrow> try_bind (close_resolved env a claim g) (\<lambda>(out, g). ok (out, g, st))))"

definition submit_action :: "review_env \<Rightarrow> review_action \<Rightarrow> graph \<times> stream \<Rightarrow> (review_outcome \<times> graph \<times> stream) result" where
  "submit_action env a = (\<lambda>(g, st).
     if \<not> are_valid_golden_profile_selections (ra_selections a) then ok (NotApplicable, g, st)
     else case action_tx env a (g, st) of
            Inl (ReviewResolutionAbortError m) \<Rightarrow> ok (NotApplicable, g, st)
          | r \<Rightarrow> r)"

end
