(* ===== verification/ReviewCases.thy ===== *)
theory ReviewCases
  imports ReviewQueue MergeHistory
begin

text \<open>
  Properties of the review queue: what an action does to a case and to the pair of persons it is
  about. A review merge is a manual merge of the closed case; a case that is closed stays as it is, its
  list of actions only grows, and a claim that is never released blocks the case.
\<close>

section \<open>Cases that a statement leaves alone\<close>

definition cases_same :: "graph \<Rightarrow> graph \<Rightarrow> bool" where
  "cases_same g g' = (\<forall>cid k. case_prop g' cid k = case_prop g cid k)"

lemma cases_same_refl [simp]: "cases_same g g"
  by (simp add: cases_same_def)

lemma cases_same_trans [trans]: "cases_same g h \<Longrightarrow> cases_same h k \<Longrightarrow> cases_same g k"
  by (simp add: cases_same_def)

lemma cases_same_edges [simp]: "g_nodes g' = g_nodes g \<Longrightarrow> cases_same g g'"
  by (simp add: cases_same_def case_prop_def node_prop_def)

lemma cases_same_set_node: "(\<And>cid. n \<noteq> ReviewCaseN cid) \<Longrightarrow> cases_same g (set_node n f g)"
  by (auto simp: cases_same_def case_prop_def intro!: node_prop_set_node_other)

lemma cases_same_create_node: "(\<And>cid. n \<noteq> ReviewCaseN cid) \<Longrightarrow> cases_same g (create_node n d g)"
  by (auto simp: cases_same_def case_prop_def intro!: node_prop_create_other)

lemma cases_same_fold: "(\<And>x h. x \<in> set xs \<Longrightarrow> cases_same h (f x h)) \<Longrightarrow> cases_same g (fold f xs g)"
proof (induction xs arbitrary: g)
  case (Cons x xs)
  from Cons.prems [of x] have "cases_same g (f x g)" by simp
  also have "cases_same (f x g) (fold f xs (f x g))" using Cons by simp
  finally show ?case by simp
qed simp

lemma cases_same_fold_result:
  assumes "\<And>x h h'. x \<in> set xs \<Longrightarrow> f x h = Inr h' \<Longrightarrow> cases_same h h'" and "fold_result f xs g = Inr g'"
  shows "cases_same g g'"
  by (rule fold_result_invariant [where f = f and xs = xs and P = "cases_same g", OF _ assms(2)])
    (use assms(1) cases_same_trans in auto)

named_theorems keeps_cases

lemma set_edges_nodes [simp]: "g_nodes (set_edges P f g) = g_nodes g"
  by (simp add: set_edges_def)

lemma merge_edge_nodes: "merge_edge t a b kvs c m g = Inr g' \<Longrightarrow> g_nodes g' = g_nodes g"
  by (auto simp: merge_edge_def Let_def raise_def ok_def split: if_splits)

lemma merge_set_nodes: "merge_set t a b kvs c u g = Inr g' \<Longrightarrow> g_nodes g' = g_nodes g"
  unfolding merge_set_def by (rule merge_edge_nodes)

lemma merge_set_cases [keeps_cases]: "merge_set t a b kvs c u g = Inr g' \<Longrightarrow> cases_same g g'"
  by (simp add: merge_set_nodes)

lemma mark_dirty_cases [keeps_cases]: "cases_same g (mark_dirty now p g)"
  by (simp add: mark_dirty_def cases_same_set_node)

section \<open>Closing a case\<close>

lemma set_case_persons:
  "g_edges (set_case rows cid f g) = g_edges g"
  "has_node (set_case rows cid f g) n = has_node g n"
  "(\<And>c. n \<noteq> ReviewCaseN c) \<Longrightarrow> node_prop (set_case rows cid f g) n k = node_prop g n k"
proof -
  have "g_edges (fold (\<lambda>_. set_node (ReviewCaseN cid) f) rows g) = g_edges g
      \<and> has_node (fold (\<lambda>_. set_node (ReviewCaseN cid) f) rows g) n = has_node g n
      \<and> ((\<forall>c. n \<noteq> ReviewCaseN c) \<longrightarrow> node_prop (fold (\<lambda>_. set_node (ReviewCaseN cid) f) rows g) n k = node_prop g n k)"
    by (induction rows arbitrary: g) (auto simp: node_prop_set_node_other)
  then show "g_edges (set_case rows cid f g) = g_edges g" "has_node (set_case rows cid f g) n = has_node g n"
    "(\<And>c. n \<noteq> ReviewCaseN c) \<Longrightarrow> node_prop (set_case rows cid f g) n k = node_prop g n k"
    by (simp_all add: set_case_def)
qed

lemma close_rows_cases:
  assumes "close_rows datetime now rows a entry g = Inr (g', b)"
  obtains "rows = []" "g' = g" "\<not> b"
  | follow where "rows \<noteq> []" "b" "g' = set_case rows (ra_case a) (action_updates now (ra_new_state a) (ra_resolution a) follow entry) g"
  using assms by (auto simp: close_rows_def try_bind_Inr_iff ok_def split: if_splits)

lemma close_keeps_persons:
  assumes "build_review_action_cypher datetime now a entry g = Inr (g', b)"
  shows "g_edges g' = g_edges g" and "has_node g' (PersonN p) = has_node g (PersonN p)"
    and "node_prop g' (PersonN p) k = node_prop g (PersonN p) k" and "\<not> b \<Longrightarrow> g' = g"
  using assms unfolding build_review_action_cypher_def
  by (auto elim!: close_rows_cases simp: set_case_persons)

lemma manual_lock_is_lock: "CHECK_MANUAL_NO_MATCH_LOCK g now l r \<Longrightarrow> CHECK_NO_MATCH_LOCK g now l r"
  by (auto simp: CHECK_MANUAL_NO_MATCH_LOCK_def CHECK_NO_MATCH_LOCK_def locked_pair_def list_ex_iff)

section \<open>Pairs of persons\<close>

text \<open>C38: the review of a pair of persons that decides to merge is the manual merge of the two on the graph
  in which the case is closed. It refuses every lock between them that is in force, of any type, and a
  person that is not active; when the merge is lost the whole action is rolled back.\<close>

theorem review_merge_is_manual_merge:
  assumes "ra_type a = ''merge''" and persons: "GET_PERSONS_FOR_REVIEW_MERGE g (ra_case a) = Some persons"
    and chosen: "review_survivor (ra_survivor a) persons = Some (survivor, absorbed)" and ids: "survivor \<noteq> []" "absorbed \<noteq> []"
  shows "action_tx env a (g, st) =
    (if \<not> CHECK_BOTH_PERSONS_ACTIVE g absorbed survivor then ok (NotApplicable, g, st)
     else if locked_pair g (qe_now env) absorbed survivor then ok (ReviewBlocked, g, st)
     else case build_review_action_cypher (qe_datetime env) (qe_now env) a (reviewer_entry env a) g of
            Inl e \<Rightarrow> Inl e
          | Inr (shut, False) \<Rightarrow> ok (ReviewNotFound, g, st)
          | Inr (shut, True) \<Rightarrow>
              (case manual_merge_with_profile_tx (qe_valid_iso env) (qe_uuid env) (qe_isof env) (qe_now env)
                      (qe_fresh env ''merge_event'' 0) (qe_fresh env ''audit'' 0) absorbed survivor
                      (if truthy (ra_notes a) then or_empty (ra_notes a) else ''Review merge'') (ra_actor a) (ra_selections a)
                      (shut, st) of
                 Inl e \<Rightarrow> Inl e
               | Inr (Merged event redirected, merged) \<Rightarrow> ok (acted shut (ra_case a) redirected (Some survivor), merged)
               | Inr refused \<Rightarrow> review_abort ''person merge lost after review close''))"
proof (cases "CHECK_BOTH_PERSONS_ACTIVE g absorbed survivor")
  case True
  let ?l = "fst (ordered_pair absorbed survivor)" and ?r = "snd (ordered_pair absorbed survivor)"
  have nodes: "has_node g (PersonN absorbed)" "has_node g (PersonN survivor)"
    using True by (auto simp: CHECK_BOTH_PERSONS_ACTIVE_def intro: active_person_node)
  have lock: "CHECK_NO_MATCH_LOCK g (qe_now env) ?l ?r = locked_pair g (qe_now env) absorbed survivor"
    using nodes by (auto simp: CHECK_NO_MATCH_LOCK_def ordered_pair_def locked_pair_sym [of g "qe_now env" survivor])
  show ?thesis
  proof (cases "build_review_action_cypher (qe_datetime env) (qe_now env) a (reviewer_entry env a) g")
    case (Inl e)
    then show ?thesis using assms True
      by (simp add: action_tx_def review_merge_tx_def Let_def lock case_prod_unfold)
  next
    case (Inr closing)
    obtain g1 b where b: "closing = (g1, b)" by (cases closing)
    note close = Inr [unfolded b]
    note keep = close_keeps_persons [OF close]
    have active: "CHECK_BOTH_PERSONS_ACTIVE g1 absorbed survivor"
      using True by (simp add: CHECK_BOTH_PERSONS_ACTIVE_def active_person_def keep(3))
    have free: "\<not> CHECK_MANUAL_NO_MATCH_LOCK g1 (qe_now env) ?l ?r" if "\<not> locked_pair g (qe_now env) absorbed survivor"
    proof -
      have "CHECK_NO_MATCH_LOCK g1 (qe_now env) ?l ?r = CHECK_NO_MATCH_LOCK g (qe_now env) ?l ?r"
        by (simp add: CHECK_NO_MATCH_LOCK_def locked_pair_def keep)
      with lock that show ?thesis by (auto dest: manual_lock_is_lock)
    qed
    show ?thesis
      using assms True free active
      by (auto simp: action_tx_def review_merge_tx_def manual_merge_with_profile_tx_def manual_merge_tx_def Let_def lock case_prod_unfold
          Inr b keep(4) try_bind_def ok_def split: sum.splits prod.splits merge_outcome.splits)
  qed
qed (use assms in \<open>simp add: action_tx_def review_merge_tx_def\<close>)

definition sample_env :: review_env where
  "sample_env =
     \<lparr>qe_now = 7, qe_isof = (\<lambda>_. ''2024-01-02T03:04:05+00:00''), qe_datetime = (\<lambda>_. Some 5), qe_fromiso = sample_iso,
      qe_valid_iso = (\<lambda>_. True), qe_uuid = show_nat, qe_fresh = (\<lambda>kind n. kind @ show_nat n),
      qe_promote_sale = (\<lambda>_ _ _ g. ok g), qe_reject_sale = (\<lambda>_ _ _ g. ok g)\<rparr>"

definition sample_action :: "string \<Rightarrow> review_action" where
  "sample_action action_type =
     \<lparr>ra_case = ''rc1'', ra_type = action_type, ra_new_state = fst (resolve_action action_type),
      ra_resolution = snd (resolve_action action_type), ra_notes = None, ra_follow_up_at = None, ra_actor = ''amy'',
      ra_survivor = None, ra_selections = []\<rparr>"

definition case_edge :: "rel_type \<Rightarrow> node \<Rightarrow> node \<Rightarrow> string \<Rightarrow> edge" where
  "case_edge t a b entity = \<lparr>e_type = t, e_src = a, e_dst = b, e_props = [(''entity_type'', JStr entity)]\<rparr>"

definition pair_review :: "edge list \<Rightarrow> graph" where
  "pair_review locks =
     \<lparr>g_nodes = [(PersonN ''p1'', [(''status'', JStr ''active'')]), (PersonN ''p2'', [(''status'', JStr ''active'')]),
                 (MatchDecisionN ''d1'', []),
                 (ReviewCaseN ''rc1'', [(''review_case_id'', JStr ''rc1''), (''queue_state'', JStr ''open'')])],
      g_edges = [case_edge FOR_DECISION (ReviewCaseN ''rc1'') (MatchDecisionN ''d1'') '''',
                 case_edge ABOUT_LEFT (MatchDecisionN ''d1'') (PersonN ''p1'') ''person'',
                 case_edge ABOUT_RIGHT (MatchDecisionN ''d1'') (PersonN ''p2'') ''person''] @ locks\<rparr>"

theorem review_merge_is_manual_merge_witness:
  "action_tx sample_env (sample_action ''merge'') (pair_review [case_edge NO_MATCH_LOCK (PersonN ''p2'') (PersonN ''p1'') ''other''], empty_stream)
     = Inr (ReviewBlocked, pair_review [case_edge NO_MATCH_LOCK (PersonN ''p2'') (PersonN ''p1'') ''other''], empty_stream)
   \<and> (case action_tx sample_env (sample_action ''merge'') (pair_review [], empty_stream) of
        Inl e \<Rightarrow> False
      | Inr (out, g, st) \<Rightarrow> out = Acted ''rc1'' ''resolved'' (Some ''merge'') [] (Some ''p1'')
                          \<and> node_prop g (PersonN ''p2'') ''status'' = JStr ''merged'')"
proof -
  have pair: "GET_PERSONS_FOR_REVIEW_MERGE (pair_review locks) (ra_case (sample_action ''merge'')) = Some (''p1'', ''p2'', 0, 0)" if "locks = [] \<or> locks = [case_edge NO_MATCH_LOCK (PersonN ''p2'') (PersonN ''p1'') ''other'']" for locks
    using that by (elim disjE; hypsubst) code_simp+
  have chosen: "ra_type (sample_action ''merge'') = ''merge''"
    "review_survivor (ra_survivor (sample_action ''merge'')) (''p1'', ''p2'', 0, 0) = Some (''p1'', ''p2'')" "''p1'' \<noteq> []" "''p2'' \<noteq> []"
    by code_simp+
  note step = review_merge_is_manual_merge [OF chosen(1) pair chosen(2-4), where env = sample_env and st = empty_stream]
  show ?thesis unfolding step [OF disjI1, OF refl] step [OF disjI2, OF refl] by (intro conjI) code_simp+
qed

section \<open>Statements that leave cases alone\<close>

lemma create_edge_cases [keeps_cases]: "cases_same g (create_edge e g)"
  by simp

lemma edges_update_cases [keeps_cases]: "cases_same g (g\<lparr>g_edges := es\<rparr>)"
  by simp

lemma set_edges_cases [keeps_cases]: "cases_same g (set_edges P f g)"
  by simp

lemma merge_edge_keeps_cases [keeps_cases]: "merge_edge t a b kvs c m g = Inr g' \<Longrightarrow> cases_same g g'"
  by (simp add: merge_edge_nodes)

lemma source_record_not_case: "is_source_record n \<Longrightarrow> n \<noteq> ReviewCaseN cid"
  by (cases n) auto

lemma pending_row_record: "(md, pending, source) \<in> set (pending_rows g cid) \<Longrightarrow> is_source_record pending"
  by (auto simp: pending_rows_def)

lemma old_version_record: "old \<in> set (old_versions g pending source) \<Longrightarrow> is_source_record old"
  by (auto simp: old_versions_def)

lemma deal_call_record: "call \<in> set (deal_calls keys g pending source) \<Longrightarrow> is_source_record call"
  by (auto simp: deal_calls_def)

lemma set_record_cases: "is_source_record n \<Longrightarrow> cases_same g (set_node n f g)"
  by (rule cases_same_set_node) (auto simp: source_record_not_case)

lemma activate_link_cases: "activate_link now p sr g = Inr g' \<Longrightarrow> cases_same g g'"
  unfolding activate_link_def by (rule merge_set_cases)

lemma supersede_cases:
  assumes "supersede_versions now olds pending g = Inr g'" and "\<And>old. old \<in> set olds \<Longrightarrow> is_source_record old"
  shows "cases_same g g'"
proof (rule cases_same_fold_result [OF _ assms(1) [unfolded supersede_versions_def]])
  fix old h h'
  assume "old \<in> set olds"
  then have "is_source_record old" by (rule assms(2))
  moreover assume "merge_edge PREVIOUS_VERSION_OF old pending [] (\<lambda>d. d) (\<lambda>d. d)
      (set_node old (\<lambda>_. [(''lifecycle_status'', JStr ''superseded''), (''is_latest'', JBool False),
         (''superseded_at'', JInt now), (''updated_at'', JInt now)]) h) = Inr h'"
  ultimately show "cases_same h h'" by (rule cases_same_trans [OF set_record_cases merge_edge_keeps_cases])
qed

lemma activate_calls_cases:
  assumes "activate_calls now cid p calls g = Inr g'" and "\<And>call. call \<in> set calls \<Longrightarrow> is_source_record call"
  shows "cases_same g g'"
proof -
  let ?h = "retire_links now cid (\<lambda>e. e_src e \<in> set calls) g"
  have "cases_same g ?h" unfolding retire_links_def by (rule set_edges_cases)
  also have "cases_same ?h g'"
  proof (rule cases_same_fold_result [OF _ assms(1) [unfolded activate_calls_def]])
    fix call h h'
    assume "call \<in> set calls"
    then have "is_source_record call" by (rule assms(2))
    moreover assume "activate_link now p call
        (set_node call (\<lambda>_. [(''lifecycle_status'', JStr ''active''), (''link_status'', JStr ''linked''),
           (''activated_at'', JInt now), (''updated_at'', JInt now)]) h) = Inr h'"
    ultimately show "cases_same h h'" by (rule cases_same_trans [OF set_record_cases activate_link_cases])
  qed
  finally show ?thesis .
qed

lemma replace_versions_cases:
  assumes run: "replace_versions now cid p pending source olds g = Inr g'"
    and "is_source_record pending" "\<And>old. old \<in> set olds \<Longrightarrow> is_source_record old"
  shows "cases_same g g'"
proof -
  from run obtain g1 g2 where s: "supersede_versions now olds pending g = Inr g1"
    and l: "activate_link now p pending (retire_links now cid (\<lambda>e. e_src e = pending)
        (activate_record now pending (retire_links now cid (\<lambda>e. e_src e \<in> set olds) g1))) = Inr g2"
    and c: "activate_calls now cid p (deal_calls [''source_instance_id'', ''source_record_id''] g2 pending source) g2 = Inr g'"
    by (auto simp: replace_versions_def Let_def try_bind_Inr_iff)
  note supersede_cases [OF s assms(3)]
  also have "cases_same g1 (retire_links now cid (\<lambda>e. e_src e = pending)
        (activate_record now pending (retire_links now cid (\<lambda>e. e_src e \<in> set olds) g1)))"
    unfolding retire_links_def activate_record_def
    by (rule cases_same_trans [OF set_edges_cases cases_same_trans [OF set_record_cases [OF assms(2)] set_edges_cases]])
  also note activate_link_cases [OF l]
  also note activate_calls_cases [OF c deal_call_record]
  finally show ?thesis .
qed

lemma retire_projections_cases: "cases_same g (retire_projections now olds g)"
  by (simp add: retire_projections_def Let_def)

lemma fold_merge_cases:
  "fold_result (\<lambda>q. merge_set t (a q) (b q) (kvs q) (c q) (u q)) xs g = Inr g' \<Longrightarrow> cases_same g g'"
  by (erule cases_same_fold_result [rotated]) (rule merge_set_cases)

lemma projections_cases:
  "project_identifier env p key pk (i, item) g = Inr g' \<Longrightarrow> cases_same g g'"
  "project_address env p pending key pk (i, item) g = Inr g' \<Longrightarrow> cases_same g g'"
  "project_bankruptcy env p pending pk (i, item) g = Inr g' \<Longrightarrow> cases_same g g'"
  "project_mention env pending pk item g = Inr g' \<Longrightarrow> cases_same g g'"
  "project_relationship env p pk (i, item) (g, n) = Inr (g', n') \<Longrightarrow> cases_same g g'"
proof -
  have create: "cases_same g (if b then create_node n d g else g)" if "\<And>cid. n \<noteq> ReviewCaseN cid" for b n d
    using cases_same_create_node [OF that] by simp
  show "cases_same g g'" if run: "project_identifier env p key pk (i, item) g = Inr g'"
  proof -
    let ?n = "IdentifierN (to_str (json_get item ''identifier_type'')) [] (to_str (json_get item ''normalized_value''))"
    from run obtain b d ns where "fold_result (\<lambda>n. merge_set IDENTIFIED_BY (PersonN p) n (active_key key pk) []
        (projection_stamps (qe_now env) (json_get item ''is_verified'') (json_get item ''quality_flag'') key pk)) ns
        (if b then create_node ?n d g else g) = Inr g'"
      unfolding project_identifier_def prod.case Let_def by blast
    then have "cases_same (if b then create_node ?n d g else g) g'"
      by (rule cases_same_fold_result [rotated]) (rule merge_set_cases)
    with create [of ?n b d] show ?thesis by (rule cases_same_trans) simp
  qed
  show "cases_same g g'" if run: "project_address env p pending key pk (i, item) g = Inr g'"
  proof -
    from run obtain b d ns where "fold_result (\<lambda>n g.
          try_bind (merge_set LIVES_AT (PersonN p) n (active_key key pk) []
              (projection_stamps (qe_now env) (JBool False) (json_get item ''quality_flag'') key pk) g) (\<lambda>g.
            merge_set DESCRIBES_ADDRESS pending n [] []
              (\<lambda>_. [(''is_active'', JBool True), (''source_system_key'', key), (''linked_at'', JInt (qe_now env))]) g)) ns
        (if b then create_node (AddressN (qe_fresh env ''address'' i)) d g else g) = Inr g'"
      unfolding project_address_def prod.case Let_def by blast
    then have "cases_same (if b then create_node (AddressN (qe_fresh env ''address'' i)) d g else g) g'"
      by (rule cases_same_fold_result [rotated]) (auto simp: try_bind_Inr_iff dest!: merge_set_cases intro: cases_same_trans)
    with create [of "AddressN (qe_fresh env ''address'' i)" b d] show ?thesis by (rule cases_same_trans) simp
  qed
  show "cases_same g g'" if run: "project_bankruptcy env p pending pk (i, item) g = Inr g'"
  proof -
    let ?n = "BankruptcyCaseN (to_str (json_get item ''source_system_key'')) (to_str (json_get item ''source_case_id''))"
    from run obtain d f t a b kvs c u h where
      m: "merge_set t a b kvs c u (set_node ?n f (if has_node g ?n then g else create_node ?n d g)) = Inr h"
      and e: "merge_edge DESCRIBES_CASE pending ?n [] (\<lambda>d. d) (\<lambda>d. d) h = Inr g'"
      unfolding project_bankruptcy_def prod.case Let_def try_bind_Inr_iff by blast
    have "cases_same g (if has_node g ?n then g else create_node ?n d g)"
      using cases_same_create_node [of ?n g d] by simp
    also have "cases_same \<dots> (set_node ?n f \<dots>)" by (rule cases_same_set_node) simp
    also note merge_set_cases [OF m]
    also note merge_edge_keeps_cases [OF e]
    finally show ?thesis .
  qed
  show "cases_same g g'" if "project_mention env pending pk item g = Inr g'"
    using that unfolding project_mention_def by (auto simp: ok_def split: list.splits dest: merge_set_cases)
  show "cases_same g g'" if run: "project_relationship env p pk (i, item) (g, n) = Inr (g', n')"
    using run unfolding project_relationship_def prod.case Let_def try_bind_Inr_iff ok_def by (auto dest: fold_merge_cases)
qed

lemma project_record_cases:
  assumes "project_record env ap p pending g = Inr (g', n)"
  shows "cases_same g g'"
proof -
  let ?key = "JStr (ap_source_system_key ap)" and ?pk = "JStr (ap_source_record_pk ap)" and ?pj = "ap_projection ap"
  from assms obtain g1 g2 obs g4 g5 where
    1: "fold_result (project_identifier env p ?key ?pk) (enumerate 0 (pj_identifiers ?pj)) g = Inr g1"
    and 2: "fold_result (project_address env p pending ?key ?pk) (enumerate 0 (pj_addresses ?pj)) g1 = Inr g2"
    and 4: "fold_result (project_bankruptcy env p pending ?pk) (enumerate 0 (pj_bankruptcy_cases ?pj))
      (fold (project_attribute env p pending ?pk obs) (pj_attributes ?pj) g2) = Inr g4"
    and 5: "fold_result (project_mention env pending ?pk) (pj_vehicle_mentions ?pj) g4 = Inr g5"
    and 6: "fold_result (project_relationship env p ?pk) (enumerate 0 (pj_knows_relationships ?pj)) (g5, 0) = Inr (g', n)"
    unfolding project_record_def Let_def try_bind_Inr_iff by blast
  have "cases_same g g1" by (rule cases_same_fold_result [OF _ 1]) (auto dest: projections_cases(1))
  also have "cases_same g1 g2" by (rule cases_same_fold_result [OF _ 2]) (auto dest: projections_cases(2))
  also have "cases_same g2 (fold (project_attribute env p pending ?pk obs) (pj_attributes ?pj) g2)"
    by (rule cases_same_fold) (simp add: project_attribute_def create_edge_cases)
  also have "cases_same \<dots> g4" by (rule cases_same_fold_result [OF _ 4]) (auto dest: projections_cases(3))
  also have "cases_same g4 g5" by (rule cases_same_fold_result [OF _ 5]) (auto dest: projections_cases(4))
  also have "cases_same g5 g'"
    using fold_result_invariant [where P = "\<lambda>(h, m). cases_same g5 h", OF _ 6] projections_cases(5) cases_same_trans
    by (fastforce split: prod.splits)
  finally show ?thesis .
qed

lemma dirty_fold_cases: "cases_same g (fold (mark_dirty now) ps g)"
  by (rule cases_same_fold) (rule mark_dirty_cases)

lemma activation_cases:
  assumes "ACTIVATE_PENDING_REVIEW_RECORD env cid ap p g = Inr (Some (g', affected))"
  shows "cases_same g g'"
proof -
  from assms obtain md pending source rest where row: "activation_rows g cid ap p = (md, pending, source) # rest"
    by (auto simp: ACTIVATE_PENDING_REVIEW_RECORD_def ok_def split: list.splits)
  then have "(md, pending, source) \<in> set (activation_rows g cid ap p)" by simp
  then have rec: "is_source_record pending" by (auto simp: activation_rows_def dest: pending_row_record)
  let ?olds = "old_versions g pending source" and ?now = "qe_now env"
  from assms row obtain g1 g2 n ps where
    r: "replace_versions ?now cid p pending source ?olds g = Inr g1"
    and q: "project_record env ap p pending (retire_projections ?now ?olds g1) = Inr (g2, n)"
    and d: "g' = fold (mark_dirty ?now) ps g2"
    by (auto simp: ACTIVATE_PENDING_REVIEW_RECORD_def null_merge_def ok_def Let_def try_bind_Inr_iff split: if_splits prod.splits)
  note replace_versions_cases [OF r rec old_version_record]
  also note retire_projections_cases
  also note project_record_cases [OF q]
  also have "cases_same g2 g'" unfolding d by (rule dirty_fold_cases)
  finally show ?thesis .
qed

lemma resolve_cases:
  assumes "RESOLVE_PENDING_REVIEW_RECORD_NO_MATCH now cid g = Inr (Some (g', pk))"
  shows "cases_same g g'"
proof -
  obtain md pending source rest where rows:
    "[(md, pending, source) \<leftarrow> pending_rows g cid. not_a_sale g pending] = (md, pending, source) # rest"
    using assms by (auto simp: RESOLVE_PENDING_REVIEW_RECORD_NO_MATCH_def ok_def split: list.splits)
  then have "(md, pending, source) \<in> set [(md, pending, source) \<leftarrow> pending_rows g cid. not_a_sale g pending]" by simp
  then have rec: "is_source_record pending" by (auto dest: pending_row_record)
  let ?olds = "[old \<leftarrow> old_versions g pending source. node_prop g old ''lifecycle_status'' = JStr ''active'']"
  from assms obtain h f where h: "supersede_versions now ?olds pending (unlink_versions now ?olds pending g) = Inr h" "g' = set_node pending f h"
    unfolding RESOLVE_PENDING_REVIEW_RECORD_NO_MATCH_def rows list.case prod.case Let_def
    by (auto simp: null_merge_def ok_def try_bind_Inr_iff split: if_splits)
  have "cases_same g (unlink_versions now ?olds pending g)" by (simp add: unlink_versions_def Let_def)
  also have "cases_same \<dots> h" by (rule supersede_cases [OF h(1)]) (auto dest: old_version_record)
  also have "cases_same h g'" unfolding h(2) by (rule set_record_cases [OF rec])
  finally show ?thesis .
qed

lemma reject_cases: "REJECT_PENDING_REVIEW_RECORD now cid reason g = (g', b) \<Longrightarrow> cases_same g g'"
proof (cases "pending_rows g cid")
  case (Cons row rest)
  moreover obtain md pending source where row: "row = (md, pending, source)" by (cases row)
  ultimately have rec: "is_source_record pending" by (auto intro: pending_row_record [of md pending source g cid])
  let ?h = "set_node pending (\<lambda>_. rejected_props now reason) g"
  let ?calls = "deal_calls [''source_record_id''] ?h pending source"
  let ?k = "?h\<lparr>g_edges := [e \<leftarrow> g_edges ?h. \<not> (e_type e = LINKED_TO \<and> e_src e \<in> set ?calls \<and> is_person (e_dst e))]\<rparr>"
  assume "REJECT_PENDING_REVIEW_RECORD now cid reason g = (g', b)"
  then have g': "g' = fold (\<lambda>call. set_node call (\<lambda>_. rejected_props now reason @ [(''link_status'', JStr ''unresolved'')])) ?calls ?k"
    unfolding REJECT_PENDING_REVIEW_RECORD_def Cons row list.case prod.case Let_def by simp
  have "cases_same g ?h" by (rule set_record_cases [OF rec])
  also have "cases_same ?h ?k" by (rule edges_update_cases)
  also have "cases_same ?k g'" unfolding g' by (rule cases_same_fold) (auto intro: set_record_cases dest: deal_call_record)
  finally show ?thesis .
qed (simp add: REJECT_PENDING_REVIEW_RECORD_def)

lemma review_sale_record: "(md, sr) \<in> set (review_sales g cid) \<Longrightarrow> is_source_record sr"
  by (auto simp: review_sales_def)

lemma mark_unresolved_cases: "cases_same g (MARK_REVIEW_SALES_RECORD_UNRESOLVED now cid g)"
  unfolding MARK_REVIEW_SALES_RECORD_UNRESOLVED_def
  by (rule cases_same_fold) (auto intro: set_record_cases review_sale_record)

lemma mark_linked_cases: "MARK_REVIEW_SALES_RECORD_LINKED now cid g = (g', b) \<Longrightarrow> cases_same g g'"
  unfolding MARK_REVIEW_SALES_RECORD_LINKED_def Let_def
  by (auto intro!: cases_same_fold cases_same_trans [OF set_record_cases dirty_fold_cases]
      simp: review_sales_persons_def dest: review_sale_record)

lemma link_sale_cases: "link_sale now t extra rows g = Inr g' \<Longrightarrow> cases_same g g'"
  unfolding link_sale_def Let_def
  by (erule cases_same_trans [OF set_edges_cases cases_same_fold_result, rotated])
    (auto dest: merge_set_cases)

lemma link_sales_cases:
  "LINK_REVIEW_SALES_PURCHASED_ORDER now cid g = Inr g' \<Longrightarrow> cases_same g g'"
  "LINK_REVIEW_SALES_BOUGHT_VEHICLE now cid g = Inr g' \<Longrightarrow> cases_same g g'"
  by (auto simp: LINK_REVIEW_SALES_PURCHASED_ORDER_def LINK_REVIEW_SALES_BOUGHT_VEHICLE_def dest: link_sale_cases)

lemma counters_cases: "cases_same g (recompute_person_crm_deal_counts now ps g)"
  unfolding recompute_person_crm_deal_counts_def RECOMPUTE_PERSON_CRM_DEAL_COUNTS_def
  by (rule cases_same_fold) (simp add: cases_same_set_node)

lemma event_cases: "cases_same g (survivorship_event now me a i r p g)"
  by (auto simp: survivorship_event_def intro: cases_same_trans [OF cases_same_create_node create_edge_cases])

lemma golden_cases: "cases_same g (fst (recompute_golden_profile_tx isof now me p fresh_profile g))"
  by (simp add: recompute_golden_profile_tx_def Let_def CREATE_RECOMPUTE_AUDIT_def API_UPDATE_GOLDEN_PROFILE_def
      cases_same_trans [OF cases_same_set_node event_cases])

lemma selections_cases: "cases_same g (apply_golden_profile_selections_tx now p sel g)"
  by (simp add: apply_golden_profile_selections_tx_def Let_def UPDATE_GOLDEN_FIELDS_def cases_same_set_node)

lemma refresh_cases: "cases_same g (refresh_persons env affected g)"
  unfolding refresh_persons_def Let_def
  by (rule cases_same_trans [OF counters_cases cases_same_fold]) (auto intro: golden_cases)

lemma lock_cases: "cases_same g (CREATE_NO_MATCH_LOCK_FROM_REVIEW now lid cid notes actor g)"
  unfolding CREATE_NO_MATCH_LOCK_FROM_REVIEW_def
  by (rule cases_same_fold) (auto simp: Let_def create_edge_cases)

lemma execute_merge_cases:
  assumes "EXECUTE_MANUAL_MERGE now me a s l r reason actor g = Inr (g', b)"
  shows "cases_same g g'"
proof -
  let ?gb = "bump_lock_version r (bump_lock_version l g)"
  let ?ge = "set_node (MergeEventN me) (\<lambda>_. [(''metadata'', JStr ''{}'')]) (manual_event now me ''manual_merge'' actor reason a s ?gb)"
  have bump: "cases_same g ?gb" unfolding bump_lock_version_def
    by (rule cases_same_trans [OF cases_same_set_node cases_same_set_node]) simp_all
  show ?thesis
  proof (cases "g' = g \<or> g' = ?gb")
    case False
    with assms obtain gr where run: "manual_rewire now a s me ?ge = Inr gr"
      and g': "g' = (let g = PATH_COMPRESS_MERGED_INTO a s me
                     (create_edge (merged_into now me actor a s) (MARK_PERSON_MERGED now a gr));
                   g = fold (mark_dirty now) (acquainted g [s]) g
               in set_node (PersonN s) (\<lambda>_. [(''updated_at'', JInt now)]) (mark_dirty now s g))"
      by (auto simp: EXECUTE_MANUAL_MERGE_def Let_def try_bind_Inr_iff ok_def split: if_splits)
    let ?gm = "create_edge (merged_into now me actor a s) (MARK_PERSON_MERGED now a gr)"
    let ?gp = "PATH_COMPRESS_MERGED_INTO a s me ?gm"
    note bump
    also have "cases_same ?gb ?ge" unfolding manual_event_def
      by (rule cases_same_trans [OF _ cases_same_set_node])
        (rule cases_same_trans [OF cases_same_create_node cases_same_edges], simp_all)
    also have "cases_same ?ge gr" using manual_rewire_keep(1) [OF run] by simp
    also have "cases_same gr ?gm" unfolding MARK_PERSON_MERGED_def
      by (rule cases_same_trans [OF cases_same_set_node create_edge_cases]) simp
    also have "cases_same ?gm ?gp" by (simp add: PATH_COMPRESS_MERGED_INTO_def)
    also have "cases_same ?gp (fold (mark_dirty now) (acquainted ?gp [s]) ?gp)" by (rule dirty_fold_cases)
    also have "cases_same \<dots> g'" unfolding g' Let_def
      by (rule cases_same_trans [OF mark_dirty_cases cases_same_set_node]) simp
    finally show ?thesis .
  qed (use bump in auto)
qed

section \<open>How a case evolves\<close>

definition settled_case :: "graph \<Rightarrow> string \<Rightarrow> bool" where
  "settled_case g cid = (case_prop g cid ''queue_state'' \<in> {JStr ''resolved'', JStr ''cancelled''})"

definition logged :: "json_obj \<Rightarrow> json list" where
  "logged d = (case json_get d ''actions'' of JList entries \<Rightarrow> entries | _ \<Rightarrow> [])"

abbreviation case_props :: "graph \<Rightarrow> string \<Rightarrow> json_obj" where
  "case_props g cid \<equiv> node_props g (ReviewCaseN cid)"

text \<open>Nothing of a settled case changes, a claim stays, and actions are only appended.\<close>

definition case_evolves :: "graph \<Rightarrow> graph \<Rightarrow> bool" where
  "case_evolves g g' = (\<forall>cid.
     (settled_case g cid \<longrightarrow> (\<forall>k. case_prop g' cid k = case_prop g cid k))
     \<and> (case_prop g cid ''lifecycle_claim_token'' \<noteq> JNull \<longrightarrow>
          case_prop g' cid ''lifecycle_claim_token'' = case_prop g cid ''lifecycle_claim_token'')
     \<and> (\<exists>entries. logged (case_props g' cid) = logged (case_props g cid) @ entries))"

lemma case_prop_props: "case_prop g cid k = json_get (case_props g cid) k"
  by (simp add: case_prop_def node_prop_node_props)

lemma logged_same: "(\<And>k. case_prop g' cid k = case_prop g cid k) \<Longrightarrow> logged (case_props g' cid) = logged (case_props g cid)"
  by (simp add: logged_def flip: case_prop_props)

lemma same_evolves: "cases_same g g' \<Longrightarrow> case_evolves g g'"
proof -
  assume "cases_same g g'"
  then have same: "\<And>cid k. case_prop g' cid k = case_prop g cid k" by (simp add: cases_same_def)
  have "logged (case_props g' cid) = logged (case_props g cid) @ []" for cid using logged_same [OF same] by simp
  with same show ?thesis unfolding case_evolves_def by blast
qed

lemma case_evolves_refl [simp]: "case_evolves g g"
  by (simp add: same_evolves)

lemma case_evolves_trans [trans]:
  assumes "case_evolves g h" "case_evolves h k"
  shows "case_evolves g k"
  unfolding case_evolves_def
proof (intro allI conjI impI)
  fix cid
  note 1 = assms(1) [unfolded case_evolves_def, rule_format, of cid] and 2 = assms(2) [unfolded case_evolves_def, rule_format, of cid]
  show "case_prop k cid x = case_prop g cid x" if "settled_case g cid" for x
  proof -
    have same: "case_prop h cid y = case_prop g cid y" for y using 1 that by blast
    then have "settled_case h cid" using that by (simp add: settled_case_def)
    with 2 same show ?thesis by simp
  qed
  show "case_prop k cid ''lifecycle_claim_token'' = case_prop g cid ''lifecycle_claim_token''"
    if "case_prop g cid ''lifecycle_claim_token'' \<noteq> JNull" using 1 2 that by simp
  show "\<exists>entries. logged (case_props k cid) = logged (case_props g cid) @ entries" using 1 2 by (metis append.assoc)
qed

lemma evolves_then_same: "case_evolves g h \<Longrightarrow> cases_same h k \<Longrightarrow> case_evolves g k"
  by (rule case_evolves_trans [OF _ same_evolves])

lemma node_props_set_node:
  "node_props (set_node n f g) m = (if m = n \<and> has_node g n then json_sets (f (node_props g n)) (node_props g n) else node_props g m)"
  by (auto simp: node_props_def has_node_map_of map_of_set_node split: option.split)

text \<open>\<open>SET\<close> on a case that is not settled; \<open>claims\<close> tells whether it writes the token of the claim.\<close>

lemma set_case_evolves:
  assumes open_: "rows \<noteq> [] \<Longrightarrow> \<not> settled_case g cid"
    and token: "case_prop g cid ''lifecycle_claim_token'' = JNull
      \<or> (\<forall>d. json_get (json_sets (f d) d) ''lifecycle_claim_token'' = json_get d ''lifecycle_claim_token'')"
    and grows: "\<And>d. \<exists>entries. logged (json_sets (f d) d) = logged d @ entries"
  shows "case_evolves g (set_case rows cid f g)"
proof -
  let ?k = "''lifecycle_claim_token''"
  have "(\<forall>c. c \<noteq> cid \<longrightarrow> case_props h c = case_props g c)
      \<and> (json_get (case_props g cid) ?k \<noteq> JNull \<longrightarrow> json_get (case_props h cid) ?k = json_get (case_props g cid) ?k)
      \<and> (\<exists>entries. logged (case_props h cid) = logged (case_props g cid) @ entries)"
    if h: "h = fold (\<lambda>_. set_node (ReviewCaseN cid) f) rows g" for h
    using h
  proof (induction rows arbitrary: h rule: rev_induct)
    case (snoc r rows)
    let ?m = "fold (\<lambda>_. set_node (ReviewCaseN cid) f) rows g"
    obtain es where es: "logged (case_props ?m cid) = logged (case_props g cid) @ es" using snoc.IH [of ?m] by auto
    obtain es' where es': "logged (json_sets (f (case_props ?m cid)) (case_props ?m cid)) = logged (case_props ?m cid) @ es'"
      using grows by blast
    have h: "h = set_node (ReviewCaseN cid) f ?m" using snoc.prems by simp
    have "json_get (case_props h cid) ?k = json_get (case_props g cid) ?k" if "json_get (case_props g cid) ?k \<noteq> JNull"
      using snoc.IH [of ?m] token that by (simp add: h node_props_set_node case_prop_props)
    moreover have "logged (case_props h cid) = logged (case_props g cid) @ es
        \<or> logged (case_props h cid) = logged (case_props g cid) @ es @ es'"
      using es es' by (simp add: h node_props_set_node)
    moreover have "\<forall>c. c \<noteq> cid \<longrightarrow> case_props h c = case_props g c" using snoc.IH [of ?m] by (simp add: h node_props_set_node)
    ultimately show ?case by blast
  qed simp
  from this [OF refl] open_ show ?thesis
    unfolding case_evolves_def set_case_def case_prop_props settled_case_def
    by (cases "rows = []") (auto simp: case_prop_props settled_case_def)
qed

lemma action_updates_log:
  "\<exists>entries. logged (json_sets (action_updates now new_state resolution follow entry d) d) = logged d @ entries"
  "json_get (json_sets (action_updates now new_state resolution follow entry d) d) ''lifecycle_claim_token'' = json_get d ''lifecycle_claim_token''"
proof -
  have "logged d = (case json_get d ''actions'' of JList es \<Rightarrow> es | _ \<Rightarrow> [])" by (simp add: logged_def)
  then show "\<exists>entries. logged (json_sets (action_updates now new_state resolution follow entry d) d) = logged d @ entries"
    by (auto simp: logged_def action_updates_def actions_as_list_def split: option.split json.split)
  show "json_get (json_sets (action_updates now new_state resolution follow entry d) d) ''lifecycle_claim_token'' = json_get d ''lifecycle_claim_token''"
    by (auto simp: action_updates_def split: option.split)
qed

lemma open_not_settled: "open_case g (ReviewCaseN cid) \<Longrightarrow> \<not> settled_case g cid"
  by (auto simp: open_case_def settled_case_def case_prop_def)

lemma close_rows_evolves:
  assumes "close_rows datetime now rows a entry g = Inr (g', b)" and "rows \<noteq> [] \<Longrightarrow> \<not> settled_case g (ra_case a)"
  shows "case_evolves g g'"
  using assms(1)
proof (cases rule: close_rows_cases)
  case (2 follow)
  then show ?thesis by (auto intro!: set_case_evolves assms(2) action_updates_log)
qed simp

lemma review_action_evolves: "build_review_action_cypher datetime now a entry g = Inr (g', b) \<Longrightarrow> case_evolves g g'"
  unfolding build_review_action_cypher_def by (erule close_rows_evolves) (auto dest: filter_eq_ConsD open_not_settled simp: filter_empty_conv)

section \<open>Side effects of merges\<close>

lemma node_prop_set_nodes_key: "k \<notin> fst ` set kvs \<Longrightarrow> node_prop (set_nodes ns kvs g) m k = node_prop g m k"
proof -
  assume k: "k \<notin> fst ` set kvs"
  have "node_prop (fold (\<lambda>n. set_node n (\<lambda>_. kvs)) xs g) m k = node_prop g m k" for xs
    by (induction xs arbitrary: g) (simp_all add: node_prop_set_node_other k)
  then show ?thesis by (simp add: set_nodes_def)
qed

lemma set_nodes_evolves:
  assumes "\<And>n. n \<in> set ns \<Longrightarrow> open_case g n" and keys: "''lifecycle_claim_token'' \<notin> fst ` set kvs" "''actions'' \<notin> fst ` set kvs"
  shows "case_evolves g (set_nodes ns kvs g)"
  unfolding case_evolves_def
proof (intro allI conjI impI)
  fix cid
  show "case_prop (set_nodes ns kvs g) cid k = case_prop g cid k" if "settled_case g cid" for k
    unfolding case_prop_def by (rule node_prop_set_nodes_other) (use assms(1) open_not_settled that in blast)
  show "case_prop (set_nodes ns kvs g) cid ''lifecycle_claim_token'' = case_prop g cid ''lifecycle_claim_token''"
    unfolding case_prop_def by (rule node_prop_set_nodes_key [OF keys(1)])
  have "logged (case_props (set_nodes ns kvs g) cid) = logged (case_props g cid) @ []"
    using node_prop_set_nodes_key [OF keys(2), of ns g "ReviewCaseN cid"] by (simp add: logged_def node_prop_node_props)
  then show "\<exists>entries. logged (case_props (set_nodes ns kvs g) cid) = logged (case_props g cid) @ entries" by blast
qed

lemma redirect_evolves:
  assumes "\<And>rc old. (rc, old) \<in> set rows \<Longrightarrow> open_case g rc"
    and keys: "''lifecycle_claim_token'' \<notin> fst ` set kvs" "''actions'' \<notin> fst ` set kvs"
  shows "case_evolves g (redirect rows survivor kvs g)"
proof (cases "has_node g (PersonN survivor)")
  case True
  let ?h = "g\<lparr>g_edges := [e \<leftarrow> g_edges g. e \<notin> set (map snd rows)]
    @ map (\<lambda>(rc, old). \<lparr>e_type = e_type old, e_src = e_src old, e_dst = PersonN survivor, e_props = [(''entity_type'', JStr ''person'')]\<rparr>) rows\<rparr>"
  have "case_evolves g ?h" by (rule same_evolves) simp
  also have "case_evolves ?h (set_nodes (map fst rows) kvs ?h)"
  proof (rule set_nodes_evolves [OF _ keys])
    fix n assume "n \<in> set (map fst rows)"
    then have "open_case g n" using assms(1) by fastforce
    then show "open_case ?h n" by (simp add: open_case_def node_prop_def)
  qed
  also have "set_nodes (map fst rows) kvs ?h = redirect rows survivor kvs g" using True by (simp add: redirect_def)
  finally show ?thesis .
qed (simp add: redirect_def)

lemma side_effects_evolve: "apply_merge_review_side_effects now me a s g = (g', ids) \<Longrightarrow> case_evolves g g'"
proof -
  let ?c = "CLOSE_PERSON_PAIR_CASES_FOR_ABSORBED now a s me g"
  let ?l = "REDIRECT_PERSON_PAIR_CASES_ABSORBED_LEFT now a s me ?c"
  let ?r = "REDIRECT_PERSON_PAIR_CASES_ABSORBED_RIGHT now a s me ?l"
  assume "apply_merge_review_side_effects now me a s g = (g', ids)"
  then have g': "g' = REDIRECT_RECORD_PERSON_CASES_FOR_ABSORBED now a s me ?r"
    by (simp add: apply_merge_review_side_effects_def Let_def)
  have "case_evolves g ?c" unfolding CLOSE_PERSON_PAIR_CASES_FOR_ABSORBED_def by (rule set_nodes_evolves) auto
  also have "case_evolves ?c ?l" unfolding REDIRECT_PERSON_PAIR_CASES_ABSORBED_LEFT_def by (rule redirect_evolves) auto
  also have "case_evolves ?l ?r" unfolding REDIRECT_PERSON_PAIR_CASES_ABSORBED_RIGHT_def by (rule redirect_evolves) auto
  also have "case_evolves ?r g'" unfolding g' REDIRECT_RECORD_PERSON_CASES_FOR_ABSORBED_def by (rule redirect_evolves) auto
  finally show ?thesis .
qed

section \<open>Claims\<close>

lemma claim_untaken:
  assumes "claim_review_action now token cid actor g = Inr (g', None)"
  shows "g' = g"
proof (cases "[md \<leftarrow> decisions_of g cid. claimable g cid actor \<and> involved_source_is_pending g md]")
  case Nil
  with assms show ?thesis by (simp add: claim_review_action_def CLAIM_PENDING_REVIEW_RESOLUTION_def Let_def set_case_def ok_def)
next
  case (Cons r rows)
  then have "r \<in> set [md \<leftarrow> decisions_of g cid. claimable g cid actor \<and> involved_source_is_pending g md]" by simp
  then have node: "has_node g (ReviewCaseN cid)" by (auto simp: decisions_of_def targets_def out_edges_def)
  have "json_get (case_props (fold (\<lambda>_. set_node (ReviewCaseN cid) (\<lambda>d.
            [(''lifecycle_claimed_at'', JInt now), (''lifecycle_claimed_by'', JStr actor),
             (''lifecycle_claim_token'', JStr token), (''lifecycle_claim_version'', json_incr (json_get d ''lifecycle_claim_version'')),
             (''lifecycle_claim_status'', json_get d ''queue_state''), (''updated_at'', JInt now)])) (r # rows) g) cid) ''lifecycle_claimed_by''
      = JStr actor"
    using node by (induction rows arbitrary: g) (simp_all add: node_props_set_node)
  with assms show ?thesis
    by (simp add: claim_review_action_def CLAIM_PENDING_REVIEW_RESOLUTION_def Let_def Cons set_case_def case_prop_props ok_def raise_def
        del: fold_simps split: if_splits)
qed

lemma claim_needs_free_token:
  assumes "case_prop g cid ''lifecycle_claim_token'' \<noteq> JNull"
  shows "claim_review_action now token cid actor g = Inr (g, None)"
  using assms by (simp add: claim_review_action_def CLAIM_PENDING_REVIEW_RESOLUTION_def claimable_def set_case_def ok_def)

lemma claim_taken:
  assumes run: "claim_review_action now token cid actor g = Inr (g', Some claim)"
  shows "case_evolves g g'" and "\<not> settled_case g cid"
    and "JStr (cl_status claim) \<in> {JStr ''open'', JStr ''assigned'', JStr ''deferred''} "
proof -
  let ?f = "\<lambda>d. [(''lifecycle_claimed_at'', JInt now), (''lifecycle_claimed_by'', JStr actor),
             (''lifecycle_claim_token'', JStr token), (''lifecycle_claim_version'', json_incr (json_get d ''lifecycle_claim_version'')),
             (''lifecycle_claim_status'', json_get d ''queue_state''), (''updated_at'', JInt now)]"
  let ?rows = "[md \<leftarrow> decisions_of g cid. claimable g cid actor \<and> involved_source_is_pending g md]"
  have rows: "?rows \<noteq> []" and g': "g' = set_case ?rows cid ?f g" and cl: "cl_status claim = to_str (case_prop g' cid ''lifecycle_claim_status'')"
    using run by (auto simp: claim_review_action_def CLAIM_PENDING_REVIEW_RESOLUTION_def Let_def ok_def raise_def split: if_splits)
  from rows have can: "claimable g cid actor" by (auto simp: filter_empty_conv)
  then show open_: "\<not> settled_case g cid" by (auto simp: claimable_def intro!: open_not_settled)
  have log: "\<exists>entries. logged (json_sets (?f d) d) = logged d @ entries" for d by (simp add: logged_def)
  show "case_evolves g g'" unfolding g'
    by (rule set_case_evolves [OF _ _ log]) (use open_ can in \<open>simp_all add: claimable_def\<close>)
  have node: "has_node g (ReviewCaseN cid)" using rows by (auto simp: filter_empty_conv decisions_of_def targets_def out_edges_def)
  have "json_get (case_props (fold (\<lambda>_. set_node (ReviewCaseN cid) ?f) ms h) cid) ''queue_state'' = json_get (case_props h cid) ''queue_state''
     \<and> (ms \<noteq> [] \<longrightarrow> has_node h (ReviewCaseN cid) \<longrightarrow>
          json_get (case_props (fold (\<lambda>_. set_node (ReviewCaseN cid) ?f) ms h) cid) ''lifecycle_claim_status''
            = json_get (case_props h cid) ''queue_state'')" for ms h
  proof (induction ms arbitrary: h)
    case (Cons m ms)
    show ?case using Cons.IH [of "set_node (ReviewCaseN cid) ?f h"] by (cases "ms = []") (auto simp: node_props_set_node)
  qed simp
  from this [of ?rows g] rows node have "case_prop g' cid ''lifecycle_claim_status'' = case_prop g cid ''queue_state''"
    by (simp add: g' set_case_def case_prop_props)
  with can show "JStr (cl_status claim) \<in> {JStr ''open'', JStr ''assigned'', JStr ''deferred''}"
    by (auto simp: cl claimable_def open_case_def case_prop_def)
qed

lemma close_claimed_evolves:
  assumes run: "close_claimed env claim a lost g = Inr g'"
    and status: "JStr (cl_status claim) \<in> {JStr ''open'', JStr ''assigned'', JStr ''deferred''}"
  shows "case_evolves g g'"
proof -
  from run have "build_claimed_review_action_cypher (qe_datetime env) (qe_now env) claim a (reviewer_entry env a) g = Inr (g', True)"
    by (auto simp: close_claimed_def try_bind_Inr_iff review_abort_def raise_def ok_def split: if_splits)
  then show ?thesis unfolding build_claimed_review_action_cypher_def
    by (rule close_rows_evolves) (use status in \<open>auto simp: filter_empty_conv claim_holds_def settled_case_def\<close>)
qed

section \<open>Transactions\<close>

text \<open>The staging of sales does not touch review cases.\<close>

definition staging_ok :: "review_env \<Rightarrow> bool" where
  "staging_ok env = (\<forall>claim cid actor g g'.
     (qe_promote_sale env claim cid actor g = Inr g' \<longrightarrow> cases_same g g')
     \<and> (qe_reject_sale env claim cid actor g = Inr g' \<longrightarrow> cases_same g g'))"

abbreviation open_status :: "review_claim \<Rightarrow> bool" where
  "open_status claim \<equiv> JStr (cl_status claim) \<in> {JStr ''open'', JStr ''assigned'', JStr ''deferred''}"

lemma with_claim_Inr:
  "with_claim env a g u f = Inr r \<longleftrightarrow>
     take_claim env a g = Inr (g, None) \<and> r = u g \<or> (\<exists>g1 claim. take_claim env a g = Inr (g1, Some claim) \<and> f g1 claim = Inr r)"
proof (cases "take_claim env a g")
  case (Inr c)
  obtain g1 claim where c: "c = (g1, claim)" by (cases c)
  have "claim = None \<Longrightarrow> g1 = g" using Inr c by (auto simp: take_claim_def dest: claim_untaken)
  then show ?thesis by (cases claim) (auto simp: with_claim_def Inr c ok_def)
qed (simp add: with_claim_def)

lemma row_or_abort_Inr: "row_or_abort x m f = Inr r \<longleftrightarrow> (\<exists>v. x = Inr (Some v) \<and> f v = Inr r)"
  by (auto simp: row_or_abort_def try_bind_Inr_iff review_abort_def raise_def split: option.splits)

lemma claimed_evolves:
  assumes "take_claim env a g = Inr (g1, Some claim)"
  shows "case_evolves g g1" and "open_status claim"
  using claim_taken [OF assms [unfolded take_claim_def]] by blast+

lemma sale_linked_cases:
  assumes "(if pending then if \<not> ready then review_abort m
                else try_bind (qe_promote_sale env claim cid actor g) (\<lambda>g. ok (g, True))
           else try_bind (LINK_REVIEW_SALES_PURCHASED_ORDER now cid g) (\<lambda>g.
                try_bind (LINK_REVIEW_SALES_BOUGHT_VEHICLE now cid g) (\<lambda>g.
                  ok (MARK_REVIEW_SALES_RECORD_LINKED now cid g)))) = Inr (g', linked)"
    and staging: "staging_ok env"
  shows "cases_same g g'"
proof (cases pending)
  case True
  with assms show ?thesis
    by (auto simp: review_abort_def raise_def try_bind_Inr_iff ok_def staging_ok_def split: if_splits)
next
  case False
  with assms obtain h1 h2 where "LINK_REVIEW_SALES_PURCHASED_ORDER now cid g = Inr h1"
    "LINK_REVIEW_SALES_BOUGHT_VEHICLE now cid h1 = Inr h2" "MARK_REVIEW_SALES_RECORD_LINKED now cid h2 = (g', linked)"
    by (auto simp: try_bind_Inr_iff ok_def)
  then show ?thesis by (blast intro: cases_same_trans link_sales_cases mark_linked_cases)
qed

lemma sales_evolves:
  assumes run: "sales_link_merge_tx env a g = Inr (out, g')" and staging: "staging_ok env"
  shows "case_evolves g g'"
proof (cases "GET_REVIEW_SALES_RECORD g (ra_case a)")
  case (Some sale)
  obtain status ready where sale: "sale = (status, ready)" by (cases sale)
  from run consider "g' = g" | g1 claim g2 linked where "take_claim env a g = Inr (g1, Some claim)"
    "(if status = JStr ''pending_review''
      then if \<not> ready then review_abort ''pending sales review has no complete staging graph''
           else try_bind (qe_promote_sale env claim (ra_case a) (ra_actor a) g1) (\<lambda>g. ok (g, True))
      else try_bind (LINK_REVIEW_SALES_PURCHASED_ORDER (qe_now env) (ra_case a) g1) (\<lambda>g.
           try_bind (LINK_REVIEW_SALES_BOUGHT_VEHICLE (qe_now env) (ra_case a) g) (\<lambda>g.
             ok (MARK_REVIEW_SALES_RECORD_LINKED (qe_now env) (ra_case a) g)))) = Inr (g2, linked)"
    "g' = g2 \<or> close_claimed env claim a ''review close lost after sales activation'' g2 = Inr g'"
    unfolding sales_link_merge_tx_def Some option.case sale prod.case with_claim_Inr
  proof (elim disjE exE conjE, goal_cases)
    case 1
    then show ?case by simp
  next
    case (2 g1 claim)
    from 2(4) obtain y where y: "(if status = JStr ''pending_review''
      then if \<not> ready then review_abort ''pending sales review has no complete staging graph''
           else try_bind (qe_promote_sale env claim (ra_case a) (ra_actor a) g1) (\<lambda>g. ok (g, True))
      else try_bind (LINK_REVIEW_SALES_PURCHASED_ORDER (qe_now env) (ra_case a) g1) (\<lambda>g.
           try_bind (LINK_REVIEW_SALES_BOUGHT_VEHICLE (qe_now env) (ra_case a) g) (\<lambda>g.
             ok (MARK_REVIEW_SALES_RECORD_LINKED (qe_now env) (ra_case a) g)))) = Inr y"
      and rest: "(case y of (g, linked) \<Rightarrow> if \<not> linked then ok (NotApplicable, g)
          else try_bind (close_claimed env claim a ''review close lost after sales activation'' g) (\<lambda>g. ok (acted g (ra_case a) [] None, g)))
        = Inr (out, g')"
      unfolding try_bind_Inr_iff by blast
    obtain g2 linked where pair: "y = (g2, linked)" by (cases y)
    from rest have "g' = g2 \<or> close_claimed env claim a ''review close lost after sales activation'' g2 = Inr g'"
      unfolding pair prod.case by (cases linked) (auto simp: try_bind_Inr_iff ok_def)
    with 2(2) 2(3) y [unfolded pair] show ?case by blast
  qed
  then show ?thesis
  proof cases
    case (2 g1 claim g2 linked)
    have "case_evolves g g2"
      by (rule evolves_then_same [OF claimed_evolves(1) [OF 2(1)] sale_linked_cases [OF 2(2) staging]])
    also have "case_evolves g2 g'" using 2(3) close_claimed_evolves [OF _ claimed_evolves(2) [OF 2(1)]] by auto
    finally show ?thesis .
  qed simp
qed (use run in \<open>auto simp: sales_link_merge_tx_def ok_def\<close>)

lemma pending_evolves:
  assumes run: "pending_record_merge_tx env a row (g, st) = Inr (out, g', st')"
  shows "case_evolves g g'"
proof -
  consider "g' = g" | ap approved g1 claim g2 affected where "take_claim env a g = Inr (g1, Some claim)"
      "ACTIVATE_PENDING_REVIEW_RECORD env (ra_case a) ap approved g1 = Inr (Some (g2, affected))"
      "close_claimed env claim a ''review close lost after lifecycle activation'' (refresh_persons env affected g2) = Inr g'"
  proof (cases "approval_arguments (qe_fromiso env) row")
    case (Inr ap)
    then show ?thesis
    proof (cases "approved_person ap (ra_survivor a)")
      case (Some approved)
      with run Inr that show ?thesis
        unfolding pending_record_merge_tx_def prod.case Inr sum.case Some option.case with_claim_Inr row_or_abort_Inr
        by (auto simp: try_bind_Inr_iff ok_def)
    qed (use run that Inr in \<open>simp add: pending_record_merge_tx_def ok_def\<close>)
  qed (use run that in \<open>simp add: pending_record_merge_tx_def ok_def\<close>)
  then show ?thesis
  proof cases
    case (2 ap approved g1 claim g2 affected)
    note claimed_evolves(1) [OF 2(1)]
    also have "case_evolves g1 (refresh_persons env affected g2)"
      by (rule same_evolves [OF cases_same_trans [OF activation_cases [OF 2(2)] refresh_cases]])
    also note close_claimed_evolves [OF 2(3) claimed_evolves(2) [OF 2(1)]]
    finally show ?thesis .
  qed simp
qed

text \<open>The first halves leave the case as it was, up to a claim that is handed on.\<close>

definition halfway :: "graph \<Rightarrow> review_claim option option \<Rightarrow> graph \<Rightarrow> bool" where
  "halfway g c g' = (case_evolves g g' \<and> (\<forall>claim. c = Some (Some claim) \<longrightarrow> open_status claim))"

lemma halfway_refl: "c \<in> {None, Some None} \<Longrightarrow> halfway g c g"
  by (auto simp: halfway_def)

lemma halfway_claimed: "take_claim env a g = Inr (g1, Some claim) \<Longrightarrow> cases_same g1 g' \<Longrightarrow> halfway g (Some (Some claim)) g'"
proof -
  assume taken: "take_claim env a g = Inr (g1, Some claim)" and same: "cases_same g1 g'"
  show ?thesis unfolding halfway_def
    using evolves_then_same [OF claimed_evolves(1) [OF taken] same] claimed_evolves(2) [OF taken] by blast
qed

lemma reject_cases_fst: "cases_same g (fst (REJECT_PENDING_REVIEW_RECORD now cid reason g))"
  by (rule reject_cases [OF prod.collapse [symmetric]])

lemma resolve_no_match_halfway:
  assumes run: "resolve_no_match env a (g, st) = Inr (c, g', st')"
  shows "halfway g c g'"
proof (cases "GET_PENDING_REVIEW_RECORD (qe_isof env) g (ra_case a)")
  case (Some row)
  show ?thesis
    using run unfolding resolve_no_match_def prod.case Some option.case with_claim_Inr row_or_abort_Inr
    by (auto simp: try_bind_Inr_iff ok_def intro: halfway_refl halfway_claimed resolve_cases)
qed (use run in \<open>simp add: resolve_no_match_def ok_def halfway_refl\<close>)

lemma resolve_reject_halfway:
  assumes run: "resolve_reject env a (g, st) = Inr (c, g', st')" and staging: "staging_ok env"
  shows "halfway g c g'"
proof (cases "GET_PENDING_REVIEW_RECORD (qe_isof env) g (ra_case a)")
  case (Some row)
  show ?thesis
    using run unfolding resolve_reject_def prod.case Some option.case Let_def with_claim_Inr
    by (auto simp: case_prod_unfold try_bind_Inr_iff ok_def review_abort_def raise_def split: if_splits
        intro: halfway_refl halfway_claimed reject_cases_fst)
next
  case None
  show ?thesis
  proof (cases "GET_REVIEW_SALES_RECORD g (ra_case a)")
    case (Some sale)
    obtain status ready where sale: "sale = (status, ready)" by (cases sale)
    show ?thesis
      using run staging unfolding resolve_reject_def prod.case None Some sale option.case Let_def with_claim_Inr staging_ok_def
      by (auto simp: try_bind_Inr_iff ok_def split: if_splits intro: halfway_refl halfway_claimed mark_unresolved_cases)
  qed (use run None in \<open>simp add: resolve_reject_def ok_def halfway_refl Let_def\<close>)
qed

lemma close_resolved_evolves:
  assumes run: "close_resolved env a c g = Inr (out, g')" and status: "\<And>claim. c = Some claim \<Longrightarrow> open_status claim"
  shows "case_evolves g g'"
proof (cases c)
  case (Some claim)
  with run show ?thesis
    by (auto simp: close_resolved_def try_bind_Inr_iff ok_def intro: close_claimed_evolves [OF _ status])
next
  case None
  with run obtain g1 b where b: "build_review_action_cypher (qe_datetime env) (qe_now env) a (reviewer_entry env a) g = Inr (g1, b)"
    by (auto simp: close_resolved_def try_bind_Inr_iff)
  let ?lock = "\<lambda>notes. CREATE_NO_MATCH_LOCK_FROM_REVIEW (qe_now env) (qe_fresh env ''lock'' 0) (ra_case a) notes (ra_actor a) g1"
  have "g' = g1 \<or> (\<exists>notes. g' = ?lock notes) \<or> g' = MARK_REVIEW_SALES_RECORD_UNRESOLVED (qe_now env) (ra_case a) g1
      \<or> (\<exists>notes. g' = MARK_REVIEW_SALES_RECORD_UNRESOLVED (qe_now env) (ra_case a) (?lock notes))"
    using run None b by (simp add: close_resolved_def Let_def ok_def split: if_splits) blast+
  then have "cases_same g1 g'"
    by (elim disjE exE; hypsubst) (auto intro: lock_cases mark_unresolved_cases cases_same_trans [OF lock_cases mark_unresolved_cases])
  then show ?thesis by (rule evolves_then_same [OF review_action_evolves [OF b]])
qed

lemma review_merge_evolves:
  assumes run: "review_merge_tx env a persons (g, st) = Inr (out, g', st')"
  shows "case_evolves g g'"
proof (cases "g' = g")
  case False
  let ?now = "qe_now env" and ?me = "qe_fresh env ''merge_event'' 0"
  obtain s ab where chosen: "review_survivor (ra_survivor a) persons = Some (s, ab)"
    using run False by (auto simp: review_merge_tx_def ok_def split: option.splits)
  obtain l r where lr: "ordered_pair ab s = (l, r)" by (cases "ordered_pair ab s")
  have "CHECK_BOTH_PERSONS_ACTIVE g ab s" "\<not> CHECK_NO_MATCH_LOCK g ?now l r"
    using run False by (auto simp: review_merge_tx_def chosen lr ok_def Let_def split: if_splits)
  note run' = run [unfolded review_merge_tx_def prod.case chosen option.case lr Let_def, simplified this simp_thms if_False]
  then obtain g1 b where b: "build_review_action_cypher (qe_datetime env) ?now a (reviewer_entry env a) g = Inr (g1, b)"
    by (auto simp: try_bind_Inr_iff)
  note ev = review_action_evolves [OF b]
  show ?thesis
  proof (cases "g' = g1")
    case False
    have "b" by (rule ccontr) (use run' b False in \<open>simp add: ok_def\<close>)
    moreover have "\<not> (ab = [] \<or> s = [])" by (rule notI) (use run' b False calculation in \<open>simp add: ok_def\<close>)
    ultimately obtain g2 m where m: "EXECUTE_MANUAL_MERGE ?now ?me ab s l r
        (if truthy (ra_notes a) then or_empty (ra_notes a) else ''Review merge'') (ra_actor a) g1 = Inr (g2, m)" and
      rest: "(if \<not> m then review_abort ''person merge lost after review close''
         else case apply_merge_review_side_effects ?now ?me ab s (recompute_person_crm_deal_counts ?now [ab, s] g2) of
           (g, redirected) \<Rightarrow> try_bind (append_merge_affected_revisions (qe_valid_iso env) (qe_uuid env) g ?me ab (Some s)
                ''person_merge'' (''person-merge:'' @ ?me) (qe_isof env ?now) st) (\<lambda>(appended, st).
              ok (acted g1 (ra_case a) redirected (Some s),
                  if ra_selections a = [] then fst (recompute_golden_profile_tx (qe_isof env) ?now (qe_fresh env ''audit'' 0) s False g)
                  else apply_golden_profile_selections_tx ?now s (ra_selections a)
                         (fst (recompute_golden_profile_tx (qe_isof env) ?now (qe_fresh env ''audit'' 0) s False g)), st))) = Inr (out, g', st')"
      using run' b by (auto simp: try_bind_Inr_iff)
    obtain g3 ids where side: "apply_merge_review_side_effects ?now ?me ab s (recompute_person_crm_deal_counts ?now [ab, s] g2) = (g3, ids)"
      by (cases "apply_merge_review_side_effects ?now ?me ab s (recompute_person_crm_deal_counts ?now [ab, s] g2)")
    let ?gp = "fst (recompute_golden_profile_tx (qe_isof env) ?now (qe_fresh env ''audit'' 0) s False g3)"
    have g': "g' = ?gp \<or> g' = apply_golden_profile_selections_tx ?now s (ra_selections a) ?gp"
      using rest by (auto simp: side review_abort_def raise_def ok_def try_bind_Inr_iff split: if_splits)
    note ev
    also have "case_evolves g1 (recompute_person_crm_deal_counts ?now [ab, s] g2)"
      by (rule same_evolves [OF cases_same_trans [OF execute_merge_cases [OF m] counters_cases]])
    also note side_effects_evolve [OF side]
    also have "case_evolves g3 g'"
      using g' by (elim disjE; hypsubst) (auto intro!: same_evolves golden_cases cases_same_trans [OF golden_cases selections_cases])
    finally show ?thesis .
  qed (use ev in simp)
qed simp

lemma action_evolves:
  assumes run: "action_tx env a (g, st) = Inr (out, g', st')" and staging: "staging_ok env"
  shows "case_evolves g g'"
proof (cases "ra_type a = ''merge''")
  case True
  show ?thesis
  proof (cases "GET_PERSONS_FOR_REVIEW_MERGE g (ra_case a)")
    case (Some persons)
    with run True show ?thesis by (auto simp: action_tx_def intro: review_merge_evolves)
  next
    case None
    with run True staging show ?thesis
      by (auto simp: action_tx_def try_bind_Inr_iff ok_def split: option.splits intro: pending_evolves sales_evolves)
  qed
next
  case False
  with run obtain y where
    y: "(if ra_type a = ''manual_no_match'' then resolve_no_match env a (g, st)
         else if ra_type a = ''reject'' then resolve_reject env a (g, st) else ok (Some None, g, st)) = Inr y"
    and rest: "(case y of (resolved, g, st) \<Rightarrow> case resolved of None \<Rightarrow> ok (NotApplicable, g, st)
       | Some claim \<Rightarrow> try_bind (close_resolved env a claim g) (\<lambda>(out, g). ok (out, g, st))) = Inr (out, g', st')"
    unfolding action_tx_def prod.case if_not_P [OF False] try_bind_Inr_iff by blast
  obtain c g1 st1 where pair: "y = (c, g1, st1)" by (cases y)
  have half: "halfway g c g1"
    using y staging unfolding pair
    by (auto simp: ok_def split: if_splits intro: resolve_no_match_halfway resolve_reject_halfway halfway_refl)
  have "case_evolves g1 g'"
  proof (cases c)
    case (Some claim)
    with rest have "close_resolved env a claim g1 = Inr (out, g')" by (auto simp: pair try_bind_Inr_iff ok_def)
    then show ?thesis by (rule close_resolved_evolves) (use half Some in \<open>auto simp: halfway_def\<close>)
  qed (use rest in \<open>simp add: pair ok_def\<close>)
  with half show ?thesis by (auto simp: halfway_def intro: case_evolves_trans)
qed

lemma submit_cases:
  assumes "submit_action env a (g, st) = Inr (out, g', st')"
  obtains "out = NotApplicable" "g' = g" "st' = st" | "action_tx env a (g, st) = Inr (out, g', st')"
  using assms by (auto simp: submit_action_def ok_def split: if_splits sum.splits py_error.splits)

section \<open>Histories\<close>

datatype review_event = Assign review_env string string | Recreate review_env string string | Submit review_env review_action

fun event_env :: "review_event \<Rightarrow> review_env" where
  "event_env (Assign env cid to) = env"
| "event_env (Recreate env cid actor) = env"
| "event_env (Submit env a) = env"

text \<open>A request that raises changes nothing.\<close>

fun review_step :: "review_event \<Rightarrow> graph \<times> stream \<Rightarrow> graph \<times> stream" where
  "review_step (Assign env cid to) (g, st) = (fst (assign (qe_isof env) (qe_now env) cid to g), st)"
| "review_step (Recreate env cid actor) (g, st) =
     (fst (recreate (qe_isof env) (qe_now env) (qe_fresh env ''review_case'' 0) cid actor g), st)"
| "review_step (Submit env a) (g, st) =
     (case submit_action env a (g, st) of Inl e \<Rightarrow> (g, st) | Inr (out, g', st') \<Rightarrow> (g', st'))"

lemma assign_evolves: "case_evolves g (fst (assign isof now cid to g))"
proof -
  have "case_evolves g (fst (ASSIGN_REVIEW_CASE now cid to entry g))" for entry
    unfolding ASSIGN_REVIEW_CASE_def Let_def fst_conv
    by (rule set_case_evolves)
      (auto simp: filter_empty_conv settled_case_def logged_def actions_as_list_def split: json.splits)
  then show ?thesis by (simp add: assign_def case_prod_unfold Let_def)
qed

lemma create_case_evolves: "case_evolves g (create_node (ReviewCaseN new_id) d g)"
proof (cases "has_node g (ReviewCaseN new_id)")
  case True
  then have "cases_same g (create_node (ReviewCaseN new_id) d g)"
    by (auto simp: cases_same_def case_prop_def create_node_def node_prop_def has_node_map_of map_add_def split: option.splits)
  then show ?thesis by (rule same_evolves)
next
  case False
  have other: "case_prop (create_node (ReviewCaseN new_id) d g) cid k = case_prop g cid k" if "cid \<noteq> new_id" for cid k
    unfolding case_prop_def by (rule node_prop_create_other) (use that in simp)
  have new: "case_prop g new_id k = JNull" "node_props g (ReviewCaseN new_id) = []" for k
    using False by (auto simp: case_prop_def node_prop_def node_props_def has_node_map_of)
  show ?thesis
    unfolding case_evolves_def
  proof (intro allI)
    fix cid
    show "(settled_case g cid \<longrightarrow> (\<forall>k. case_prop (create_node (ReviewCaseN new_id) d g) cid k = case_prop g cid k))
      \<and> (case_prop g cid ''lifecycle_claim_token'' \<noteq> JNull \<longrightarrow>
          case_prop (create_node (ReviewCaseN new_id) d g) cid ''lifecycle_claim_token'' = case_prop g cid ''lifecycle_claim_token'')
      \<and> (\<exists>entries. logged (case_props (create_node (ReviewCaseN new_id) d g) cid) = logged (case_props g cid) @ entries)"
    proof (cases "cid = new_id")
      case True
      then show ?thesis by (simp add: new settled_case_def) (simp add: logged_def)
    next
      case False
      have "logged (case_props (create_node (ReviewCaseN new_id) d g) cid) = logged (case_props g cid) @ []"
        using logged_same [OF other [OF False]] by simp
      with other [OF False] show ?thesis by blast
    qed
  qed
qed

lemma recreate_evolves: "case_evolves g (fst (recreate isof now new_id cid actor g))"
  by (auto simp: recreate_def RECREATE_REVIEW_CASE_def split: list.split
      intro: evolves_then_same [OF create_case_evolves create_edge_cases])

lemma step_evolves: "staging_ok (event_env e) \<Longrightarrow> case_evolves g (fst (review_step e (g, st)))"
proof (cases e)
  case (Submit env a)
  assume "staging_ok (event_env e)"
  with Submit show ?thesis
    by (auto split: sum.split elim!: submit_cases intro: action_evolves)
qed (simp_all add: assign_evolves recreate_evolves)

lemma history_evolves:
  "list_all (staging_ok \<circ> event_env) events \<Longrightarrow> case_evolves g (fst (fold review_step events (g, st)))"
proof (induction events arbitrary: g st)
  case (Cons e events)
  obtain g1 st1 where step: "review_step e (g, st) = (g1, st1)" by (cases "review_step e (g, st)")
  have "case_evolves g g1" using step_evolves [of e g st] Cons.prems by (simp add: step)
  also have "case_evolves g1 (fst (fold review_step events (g1, st1)))" using Cons by simp
  finally show ?case by (simp add: step)
qed simp

lemma link_sale_nobody: "link_sale now t extra [] g = Inr g"
  by (simp add: link_sale_def set_edges_def)

section \<open>Cases that no longer take part\<close>

lemma with_claim_refused: "take_claim env a g = Inr (g, None) \<Longrightarrow> with_claim env a g u f = Inr (u g)"
  by (simp add: with_claim_def ok_def)

lemma settled_not_open: "settled_case g cid \<Longrightarrow> \<not> open_case g (ReviewCaseN cid)"
  using open_not_settled by blast

lemma claim_refused: "\<not> claimable g cid actor \<Longrightarrow> claim_review_action now token cid actor g = Inr (g, None)"
  by (simp add: claim_review_action_def CLAIM_PENDING_REVIEW_RESOLUTION_def set_case_def ok_def)

lemma settled_unclaimable: "settled_case g (ra_case a) \<Longrightarrow> take_claim env a g = Inr (g, None)"
  unfolding take_claim_def by (rule claim_refused) (simp add: claimable_def settled_not_open)

lemma settled_stays_closed: "settled_case g (ra_case a) \<Longrightarrow> build_review_action_cypher datetime now a entry g = Inr (g, False)"
  by (simp add: build_review_action_cypher_def close_rows_def ok_def settled_not_open)

lemma refused_merge:
  assumes claim: "take_claim env a g = Inr (g, None)"
  shows "pending_record_merge_tx env a row (g, st) = Inr (NotApplicable, g, st)"
    and "sales_link_merge_tx env a g = Inr (NotApplicable, g)"
  by (simp_all add: pending_record_merge_tx_def sales_link_merge_tx_def with_claim_refused [OF claim] ok_def split: sum.split option.split)

lemma refused_halves:
  assumes claim: "take_claim env a g = Inr (g, None)"
  shows "\<exists>c. resolve_no_match env a (g, st) = Inr (c, g, st) \<and> c \<in> {None, Some None}"
    and "\<exists>c. resolve_reject env a (g, st) = Inr (c, g, st) \<and> c \<in> {None, Some None}"
    and "GET_PENDING_REVIEW_RECORD (qe_isof env) g (ra_case a) \<noteq> None \<or> GET_REVIEW_SALES_RECORD g (ra_case a) \<noteq> None \<Longrightarrow>
      resolve_reject env a (g, st) = Inr (None, g, st)"
  by (auto simp: resolve_no_match_def resolve_reject_def with_claim_refused [OF claim] ok_def Let_def split: option.split)

lemma settled_refuses:
  assumes settled_case: "settled_case g (ra_case a)"
  shows "\<exists>out \<in> {ReviewNotFound, ReviewBlocked, NotApplicable}. submit_action env a (g, st) = Inr (out, g, st)"
proof -
  note claim = settled_unclaimable [OF settled_case, of env] and shut = settled_stays_closed [OF settled_case]
  have "\<exists>out \<in> {ReviewNotFound, ReviewBlocked, NotApplicable}. action_tx env a (g, st) = Inr (out, g, st)"
  proof (cases "ra_type a = ''merge''")
    case True
    then show ?thesis
      by (auto simp: action_tx_def review_merge_tx_def shut refused_merge [OF claim] Let_def ok_def split: option.split prod.split)
  next
    case False
    from refused_halves(1,2) [OF claim, where st = st] obtain c1 c2 where halves:
      "resolve_no_match env a (g, st) = Inr (c1, g, st)" "resolve_reject env a (g, st) = Inr (c2, g, st)"
      "c1 \<in> {None, Some None}" "c2 \<in> {None, Some None}" by blast
    obtain c where c: "(if ra_type a = ''manual_no_match'' then resolve_no_match env a (g, st)
         else if ra_type a = ''reject'' then resolve_reject env a (g, st) else ok (Some None, g, st)) = Inr (c, g, st)"
      "c \<in> {None, Some None}"
      by (rule that [of "if ra_type a = ''manual_no_match'' then c1 else if ra_type a = ''reject'' then c2 else Some None"])
        (use halves in \<open>simp_all add: ok_def\<close>)
    from c(2) show ?thesis unfolding action_tx_def prod.case if_not_P [OF False] c(1)
      by (auto simp: close_resolved_def shut ok_def)
  qed
  then show ?thesis by (auto simp: submit_action_def ok_def)
qed

text \<open>C39: through any history of assignments, actions and recreations a case that is resolved or cancelled keeps
  everything, its list of actions included, and further actions on it are refused without an effect; the
  actions of every case are only appended to, and no request takes back a claim once it is given.\<close>

theorem settled_cases_stay_settled:
  assumes "list_all (staging_ok \<circ> event_env) events" and "fold review_step events (g, st) = (g', st')"
  shows "(settled_case g cid \<longrightarrow> (\<forall>k. case_prop g' cid k = case_prop g cid k)
      \<and> (\<forall>env a. ra_case a = cid \<longrightarrow>
           (\<exists>out \<in> {ReviewNotFound, ReviewBlocked, NotApplicable}. submit_action env a (g', st') = Inr (out, g', st'))))
    \<and> (\<exists>entries. logged (case_props g' cid) = logged (case_props g cid) @ entries)
    \<and> (case_prop g cid ''lifecycle_claim_token'' \<noteq> JNull \<longrightarrow>
         case_prop g' cid ''lifecycle_claim_token'' = case_prop g cid ''lifecycle_claim_token'')"
proof -
  have evolves: "case_evolves g g'" using history_evolves [OF assms(1), of g st] by (simp add: assms(2))
  then have same: "settled_case g cid \<Longrightarrow> case_prop g' cid k = case_prop g cid k" for k by (simp add: case_evolves_def)
  have "settled_case g' cid" if "settled_case g cid" using same [OF that] that by (simp add: settled_case_def)
  with same evolves show ?thesis using settled_refuses [of g'] by (fastforce simp: case_evolves_def)
qed

lemma sample_staging: "staging_ok sample_env"
  by (simp add: staging_ok_def sample_env_def ok_def)

theorem settled_cases_stay_settled_witness:
  "(let (g, st) = fold review_step [Submit sample_env (sample_action ''reject''), Recreate sample_env ''rc1'' ''amy'']
        (fold review_step [Submit sample_env (sample_action ''merge'')] (pair_review [], empty_stream))
    in case_prop g ''rc1'' ''resolution'' = JStr ''merge''
       \<and> (\<exists>out \<in> {ReviewNotFound, ReviewBlocked, NotApplicable}. submit_action sample_env (sample_action ''defer'') (g, st) = Inr (out, g, st)))"
proof -
  let ?events = "[Submit sample_env (sample_action ''reject''), Recreate sample_env ''rc1'' ''amy'']"
  obtain g1 st1 where merged: "fold review_step [Submit sample_env (sample_action ''merge'')] (pair_review [], empty_stream) = (g1, st1)"
    by (cases "fold review_step [Submit sample_env (sample_action ''merge'')] (pair_review [], empty_stream)")
  have "(let (g, st) = fold review_step [Submit sample_env (sample_action ''merge'')] (pair_review [], empty_stream)
         in settled_case g ''rc1'' \<and> case_prop g ''rc1'' ''resolution'' = JStr ''merge'')" by code_simp
  then have settled_case: "settled_case g1 ''rc1''" "case_prop g1 ''rc1'' ''resolution'' = JStr ''merge''" unfolding merged by simp_all
  obtain g st where later: "fold review_step ?events (g1, st1) = (g, st)" by (cases "fold review_step ?events (g1, st1)")
  have staging: "list_all (staging_ok \<circ> event_env) ?events" using sample_staging by simp
  have case1: "ra_case (sample_action ''defer'') = ''rc1''" by (simp add: sample_action_def)
  from settled_cases_stay_settled [OF staging later, of "''rc1''"] settled_case case1 show ?thesis
    unfolding merged later Let_def prod.case by simp
qed

text \<open>C40: when the person proposed for a sale is no longer active, the first review that links it is answered as
  not applicable but keeps the claim it took. From then on, whatever happens in the queue, every review
  that links or rejects the sale, by whomever, is answered as not applicable and changes nothing.\<close>

theorem lost_claim_blocks_case:
  assumes action: "ra_case a = cid" "ra_type a = ''merge''" "are_valid_golden_profile_selections (ra_selections a)"
    and sale: "GET_PERSONS_FOR_REVIEW_MERGE g cid = None" "GET_PENDING_REVIEW_RECORD (qe_isof env) g cid = None"
      "GET_REVIEW_SALES_RECORD g cid = Some (status, ready)" "status \<noteq> JStr ''pending_review''"
    and nobody: "review_sales_persons g cid = []"
    and claimed: "take_claim env a g = Inr (g1, Some claim)"
    and later: "list_all (staging_ok \<circ> event_env) events" "fold review_step events (g1, st) = (g2, st2)"
    and again: "ra_case b = cid"
      "ra_type b = ''merge'' \<and> GET_PERSONS_FOR_REVIEW_MERGE g2 cid = None
       \<or> ra_type b = ''reject'' \<and> GET_REVIEW_SALES_RECORD g2 cid \<noteq> None"
  shows "submit_action env a (g, st) = Inr (NotApplicable, g1, st)
    \<and> submit_action env' b (g2, st2) = Inr (NotApplicable, g2, st2)"
proof
  have g1: "g_edges g1 = g_edges g" "node_prop g1 n k = node_prop g n k" "has_node g1 m = has_node g m" if "\<And>c. n \<noteq> ReviewCaseN c" for n k m
    using claimed that
    by (auto simp: take_claim_def claim_review_action_def CLAIM_PENDING_REVIEW_RESOLUTION_def Let_def ok_def raise_def set_case_persons
        split: if_splits)
  note edges = g1(1) [of "PersonN []", simplified] and nodes = g1(3) [of "PersonN []", simplified]
  have rows: "review_sales_persons g1 cid = []"
  proof -
    have tg: "targets g1 t n = targets g t n" for t n by (simp add: targets_def out_edges_def edges nodes)
    have sr: "review_sales g1 cid = review_sales g cid"
      unfolding review_sales_def decisions_of_def tg
      by (intro arg_cong [where f = concat] map_cong refl) (auto simp: g1(2) source_record_not_case cong: conj_cong)
    have act: "is_person p \<Longrightarrow> active_person g1 p = active_person g p" for p
      by (cases p) (simp_all add: active_person_def g1(2))
    show ?thesis using nobody unfolding review_sales_persons_def sr tg
      by (fastforce simp: act)
  qed
  have none: "sold_vehicles g1 cid = []" unfolding sold_vehicles_def rows by simp
  have linked: "LINK_REVIEW_SALES_PURCHASED_ORDER now cid g1 = Inr g1" "LINK_REVIEW_SALES_BOUGHT_VEHICLE now cid g1 = Inr g1"
    "MARK_REVIEW_SALES_RECORD_LINKED now cid g1 = (g1, False)" for now
    by (simp_all add: LINK_REVIEW_SALES_PURCHASED_ORDER_def LINK_REVIEW_SALES_BOUGHT_VEHICLE_def link_sale_nobody none
        MARK_REVIEW_SALES_RECORD_LINKED_def rows Let_def)
  have "sales_link_merge_tx env a g = Inr (NotApplicable, g1)"
    unfolding sales_link_merge_tx_def action(1) sale(3) option.case prod.case with_claim_def claimed
    using sale(4)
    by (simp add: linked ok_def)
  then show "submit_action env a (g, st) = Inr (NotApplicable, g1, st)"
    using action sale by (simp add: submit_action_def action_tx_def ok_def)
  have "case_prop g1 cid ''lifecycle_claim_token'' \<noteq> JNull"
    using claimed by (auto simp: take_claim_def action claim_review_action_def Let_def ok_def raise_def split: if_splits prod.splits)
  moreover have "case_evolves g1 g2" using history_evolves [OF later(1), of g1 st] by (simp add: later(2))
  ultimately have "case_prop g2 (ra_case b) ''lifecycle_claim_token'' \<noteq> JNull" by (simp add: case_evolves_def again)
  then have claim: "take_claim env' b g2 = Inr (g2, None)" by (simp add: take_claim_def claim_needs_free_token)
  have "action_tx env' b (g2, st2) = Inr (NotApplicable, g2, st2)"
    using again refused_merge [OF claim] refused_halves(3) [OF claim]
    by (auto simp: action_tx_def ok_def split: option.split)
  then show "submit_action env' b (g2, st2) = Inr (NotApplicable, g2, st2)" by (simp add: submit_action_def ok_def)
qed

definition sale_review :: graph where
  "sale_review =
     \<lparr>g_nodes = [(PersonN ''p1'', [(''status'', JStr ''merged'')]), (MatchDecisionN ''d1'', []),
                 (SourceRecordN ''s1'', [(''record_type'', JStr ''sales''), (''is_latest'', JBool True)]),
                 (ReviewCaseN ''rc1'', [(''review_case_id'', JStr ''rc1''), (''queue_state'', JStr ''open'')])],
      g_edges = [case_edge FOR_DECISION (ReviewCaseN ''rc1'') (MatchDecisionN ''d1'') '''',
                 case_edge ABOUT_LEFT (MatchDecisionN ''d1'') (SourceRecordN ''s1'') ''source_record'',
                 case_edge ABOUT_RIGHT (MatchDecisionN ''d1'') (PersonN ''p1'') ''person'']\<rparr>"

theorem lost_claim_blocks_case_witness:
  "let (g, st) = fold review_step [Assign sample_env ''rc1'' ''bob''] (review_step (Submit sample_env (sample_action ''merge'')) (sale_review, empty_stream))
   in case_prop g ''rc1'' ''queue_state'' = JStr ''assigned''
      \<and> submit_action sample_env (sample_action ''reject'') (g, st) = Inr (NotApplicable, g, st)"
proof -
  let ?later = "[Assign sample_env ''rc1'' ''bob'']"
  have "(case take_claim sample_env (sample_action ''merge'') sale_review of
      Inl e \<Rightarrow> False
    | Inr (g1, c) \<Rightarrow> c \<noteq> None
        \<and> GET_REVIEW_SALES_RECORD (fst (fold review_step ?later (g1, empty_stream))) ''rc1'' \<noteq> None
        \<and> case_prop (fst (fold review_step ?later (g1, empty_stream))) ''rc1'' ''queue_state'' = JStr ''assigned'')" by code_simp
  then obtain g1 claim where claimed: "take_claim sample_env (sample_action ''merge'') sale_review = Inr (g1, Some claim)"
    and sold: "GET_REVIEW_SALES_RECORD (fst (fold review_step ?later (g1, empty_stream))) ''rc1'' \<noteq> None"
    and assigned: "case_prop (fst (fold review_step ?later (g1, empty_stream))) ''rc1'' ''queue_state'' = JStr ''assigned''"
    by (auto split: sum.splits)
  obtain g2 st2 where later: "fold review_step ?later (g1, empty_stream) = (g2, st2)" by (cases "fold review_step ?later (g1, empty_stream)")
  have sale: "GET_PERSONS_FOR_REVIEW_MERGE sale_review ''rc1'' = None"
    "GET_PENDING_REVIEW_RECORD (qe_isof sample_env) sale_review ''rc1'' = None"
    "GET_REVIEW_SALES_RECORD sale_review ''rc1'' = Some (JNull, False)" "JNull \<noteq> JStr ''pending_review''"
    "review_sales_persons sale_review ''rc1'' = []"
    by code_simp+
  have action: "ra_case (sample_action t) = ''rc1''" "ra_type (sample_action t) = t" "are_valid_golden_profile_selections (ra_selections (sample_action t))" for t
    by (simp_all add: sample_action_def are_valid_golden_profile_selections_def)
  have staging: "list_all (staging_ok \<circ> event_env) ?later" using sample_staging by simp
  have again: "ra_type (sample_action ''reject'') = ''merge'' \<and> GET_PERSONS_FOR_REVIEW_MERGE g2 ''rc1'' = None
      \<or> ra_type (sample_action ''reject'') = ''reject'' \<and> GET_REVIEW_SALES_RECORD g2 ''rc1'' \<noteq> None"
    using sold unfolding later by (simp add: action)
  note both = lost_claim_blocks_case [OF action(1) action(2) action(3) sale claimed staging later action(1) again, where env' = sample_env]
  have first: "review_step (Submit sample_env (sample_action ''merge'')) (sale_review, empty_stream) = (g1, empty_stream)"
    using both by simp
  from both assigned show ?thesis unfolding first later Let_def prod.case by simp
qed

end
