(* ===== verification/Spec2Isabelle.thy ===== *)
theory Spec2Isabelle
  imports Engine VehicleHeuristic SourceLifecycle PersonPairs SourceKeys Watermark TaskGate MergeHistory
    Normalization Exclusions Survivorship ReviewCases
begin

text \<open>
  A verification development of the person unifier: the ingestion service (\<open>services/ingestion/src\<close>),
  which matches the records of several source systems to persons and keeps the persons in a property
  graph, and the parts of the API service (\<open>services/api/src\<close>) that change the same state, manual
  merges, unmerges, locks and the identity-link stream. Paths below are relative to the first of the
  two unless they start with \<open>api\<close>.

  \<^bold>\<open>How the program works.\<close> A connector hands source records to a run, which drains pages and moves a
  watermark. A record gets a version in the lifecycle of its source identity; its identifiers select
  candidate persons in the graph; the match chain (locks and hard identifiers first, then an additive
  score) decides whether the record merges with a candidate, becomes a new person or waits for a
  review; the golden profile of the person is computed again. An audit looks for pairs of persons that
  belong together and merges them or opens review cases. Operators merge, unmerge and lock persons.
  Each change of a link of a CRM record is appended to a stream that machine clients read.

  \<^bold>\<open>Foundations.\<close> \<open>Prelude\<close>: errors as sums, loops that may raise, \<open>min\<close> and \<open>max\<close> with keys, dictionaries,
  ASCII text. \<open>Float64\<close>: binary64 arithmetic as exact rationals followed by rounding, with the locale
  \<open>rounding\<close> interpreted on it. \<open>Domain\<close> (\<open>models.py\<close>): enumerations, record families, normalised values,
  match results, JSON. \<open>JsonText\<close> and \<open>JsonParse\<close>: \<open>json.dumps\<close> and \<open>json.loads\<close>, and
  that the second undoes the first. \<open>Graph\<close>: the property graph and the read
  queries (\<open>graph/queries/matching.py\<close>, \<open>persons.py\<close>). \<open>Cypher\<close>: its writing clauses.

  \<^bold>\<open>Normalisation.\<close> \<open>PyRegex\<close>: regular expressions with the backtracking of Python's \<open>re\<close>, as the list of
  the ways to match in the order they are tried, shown sound and complete for a relational reading.
  \<open>Normalizers\<close> (\<open>normalizers/\<close>): names, government identifiers, emails, phones, addresses.
  \<open>Normalization\<close> (\<open>pipeline_normalization.py\<close>): the identifiers, addresses and attributes of an envelope.
  \<open>Exclusions\<close> (\<open>exclusion_config.py\<close>, \<open>exclusions.py\<close>, \<open>vehicles.py\<close>): the exclusion file, the context and the
  filter of extractions. Shown: normal forms are stable, the identifiers of a record are a function of
  the set of its raw identifiers, structured addresses whose first field is one word lose their fields, and the
  filter keeps exactly what no exclusion names.

  \<^bold>\<open>Matching.\<close> \<open>Thresholds\<close> (\<open>matching/thresholds.py\<close>), \<open>Similarity\<close> (\<open>similarity.py\<close>, \<open>names.py\<close>,
  \<open>identifier_similarity.py\<close>), \<open>Deterministic\<close> (\<open>deterministic.py\<close>), \<open>Heuristic\<close> (\<open>heuristic.py\<close>, \<open>snapshot.py\<close>,
  \<open>pair_score.py\<close>), \<open>Engine\<close> (\<open>engine.py\<close>), \<open>VehicleHeuristic\<close> (\<open>vehicle_heuristic.py\<close> and the decision of
  \<open>pipeline_sales.py\<close>). One definition for each function of the source, in its order, each early return a
  branch. What is shown: no layer raises, confidences lie in [0,1] and decisions are the bands of them;
  the precedence of the hard rules; the engine with its prefetched locks, snapshot and fan-out cache
  computes \<open>engine_spec\<close>, the policy over what each candidate is worth on its own; the order of the
  candidates and the caches do not matter; locks, conversations, relationship records, reassignments
  and blocked vehicle owners are guarded as the policies promise.

  \<^bold>\<open>Lifecycle of source records.\<close> \<open>SourceKeys\<close> (\<open>source_instances.py\<close>, \<open>source_version_keys.py\<close>,
  \<open>identifier_scopes.py\<close>) and \<open>SourceLifecycle\<close> (\<open>record_lifecycle.py\<close>, \<open>graph/queries/source_records.py\<close>, the
  lifecycle part of \<open>pipeline.py\<close>). The store holds the versions with their status and predecessor; the
  operations are the plan and the guarded transitions. Shown: an invariant of all reachable stores (one
  active and one pending version at most, dense distinct version numbers), what an ingestion commits
  and when it raises, idempotence, the guard of activations, and that a version key can be read back.

  \<^bold>\<open>Persons.\<close> \<open>GoldenProfile\<close> (\<open>golden_profile.py\<close>), \<open>PersonMerge\<close> (\<open>pipeline_person_merge.py\<close> with
  \<open>graph/queries/merge.py\<close>, \<open>person_merge.py\<close>, \<open>knows.py\<close>, \<open>sales.py\<close>, \<open>crm_deal_count.py\<close>,
  \<open>profile_analysis_dirty.py\<close>), \<open>PersonPairs\<close> (\<open>pipeline_person_pairs.py\<close>), \<open>Unmerge\<close> (\<open>api/repositories/neo4j/merge.py\<close>,
  \<open>_merge_side_effects.py\<close>, \<open>api/graph/queries/merge.py\<close>), \<open>UnmergeRestores\<close> and \<open>MergeHistory\<close>. One
  definition for each Cypher statement, composed as the transactions compose them. Shown: every
  field of a profile is the best of what the person holds for it; a merge is, on the end points of
  relationships, the quotient of the graph by the renaming of the absorbed person; the outcomes of the audit; an unmerge restores what a manual merge
  moved, up to what merges stamp on relationships; histories of merges and unmerges keep exactly one
  lineage for each merged person, ending at an active one; locks block.
  \<open>Survivorship\<close> (\<open>api/graph/golden_profile.py\<close>, \<open>api/graph/queries/survivorship.py\<close>,
  \<open>api/repositories/neo4j/survivorship.py\<close>): the profile as the API service computes it, with the values an
  operator pins, stored as JSON text. Shown: an override stays through any history of recomputations
  and overrides of other fields, but the ingestion service's own computation takes it back.

  \<^bold>\<open>Held records.\<close> \<open>ReviewPayload\<close>: the payload of a record that waits for a review, as the ingestion
  service writes it (\<open>pipeline_writes.py\<close>, \<open>pipeline.py\<close>, \<open>pipeline_knows.py\<close>, \<open>pipeline_bankruptcy.py\<close>,
  \<open>vehicle_extraction.py\<close>) and as the review action of the API service reads it
  (\<open>api/repositories/neo4j/review.py\<close>). Shown: it is read back as written exactly when its times have
  zones, so a record without a time stamp can never be approved.

  \<^bold>\<open>Review queue.\<close> \<open>ReviewQueue\<close> (\<open>api/routes/review.py\<close>, \<open>api/repositories/neo4j/review.py\<close>,
  \<open>api/graph/queries/review.py\<close>): cases are assigned, acted on and recreated; an action merges or locks a
  pair of persons, activates or rejects a held record, links or rejects a sale, guarded by a claim of the
  case. \<open>ReviewCases\<close> has the properties. Shown: a review merge is the manual merge on the closed case,
  refusing locks of every type; a settled case stays as it is through any history, actions are only
  appended and claims stay; a claim lost on a sale blocks its case for good.

  \<^bold>\<open>Runs, queues and streams.\<close> \<open>Watermark\<close> (\<open>watermark_runner.py\<close>, \<open>watermark_store.py\<close>,
  \<open>connectors/fundbox_api/incremental.py\<close>), \<open>TaskGate\<close> (\<open>knows_materialization_queue.py\<close>,
  \<open>lifecycle_queue_admin.py\<close>, one task of \<open>tasks.py\<close>), \<open>IdentityLinks\<close> (\<open>api/identity_link_revisions.py\<close>,
  \<open>identity_link_revisions.py\<close>, the events and snapshot pages). The gate is a step relation of atomic Lua
  scripts, broker and workers; the stream a list of revisions with heads. Shown: runs return, the
  watermark moves only when a run has drained (also when its finalisation then fails); the gate is never
  handed to two chains, and the sweep of a waiting owner can be finished by workers and broker
  alone; the stream is dense, appends are idempotent, and a page of events that reaches the
  current counter is refused.

  \<^bold>\<open>What is an argument.\<close> Third-party packages are the record \<open>third_party\<close> (parsed phone numbers, the
  edit ratio), the driver's \<open>iso_format\<close> is \<open>isof\<close>, drawn ids are \<open>uuid\<close> or explicit ids, \<open>datetime()\<close> is \<open>now\<close>,
  \<open>fromisoformat\<close> is \<open>valid_iso\<close> or \<open>datetime\<close>; the record \<open>review_env\<close> bundles them for a request of the
  review queue, with the promotion and rejection of staged sales. The connector, the record pipeline,
  the stop signals of a run and the failures of its finalisation are the record \<open>calls\<close>. Hypotheses on them are written out in the properties
  that need them: a finite set of cursors for the run to return, fresh ids for new events, staging that
  does not touch review cases.

  \<^bold>\<open>Bounds and recursion.\<close> The drain loop is \<open>partial_function (option)\<close>, \<open>None\<close> being a run that never
  returns; \<open>run_returns\<close> excludes it. The shortest decimal of a float is searched over 17 digits, which
  always suffice for 53 bits. Every other loop is structural. Scores stay between \<open>2 powi (-53)\<close> and
  \<open>2 powi 10\<close>, so binary64 neither overflows nor loses digits to subnormal numbers. Python's integers
  are \<open>int\<close>; text is ASCII, on which Unicode normalisation is the identity.

  \<^bold>\<open>The database.\<close> A transaction is a function on the graph; the write locks the code takes (the
  identity lock, the counter of the stream, the lock versions of two persons) serialise those that
  meet, so concurrency is a sequence of transactions. Rows without \<open>ORDER BY\<close> come in storage order; the
  properties do not depend on it. A statement reads its pattern before it writes.

  \<^bold>\<open>Not modelled.\<close> The bodies of the pipeline that write projections; the repair, tenant, census and
  stage-history tools of operators; connectors, remote services, scheduling and process set-up, which
  are I/O; the read-only routes of the API service and the staging of sales (\<open>sales_staging.py\<close>); the
  intelligence service and the front ends.
\<close>

end
